(* ===== verification/Wah_Prelude.thy ===== *)
theory Wah_Prelude
  imports Main "HOL-Library.Word" "HOL-Library.Sublist"
begin

text \<open>
  Shared vocabulary of the development: the error codes of \<open>wah.h\<close>, the result type that
  fallible C functions return, the two checking macros \<open>WAH_CHECK\<close> and \<open>WAH_ENSURE\<close>, and the
  generic lemmas on results, lists and words that the component theories use.

  A C function that returns a \<open>wah_error_t\<close> and writes its results through out-parameters is a
  function into \<open>'a res\<close>: \<open>Inl e\<close> is the early return of error \<open>e\<close>, \<open>Inr x\<close> is \<open>WAH_OK\<close> with
  the out-parameters \<open>x\<close>. A pair \<open>const uint8_t **ptr, const uint8_t *end\<close> is the list of bytes
  between \<open>*ptr\<close> and \<open>end\<close>; advancing \<open>*ptr\<close> is returning a suffix of that list.
\<close>

unbundle bit_operations_syntax

named_theorems res_simps "success and failure of the checking combinators"

type_synonym u8 = "8 word"
type_synonym u16 = "16 word"
type_synonym u32 = "32 word"
type_synonym u64 = "64 word"
type_synonym bytes = "u8 list"

abbreviation (input) "UINT32_MAX \<equiv> 2 ^ 32 - 1 :: nat"
abbreviation (input) "UINT64_MAX \<equiv> 2 ^ 64 - 1 :: nat"
abbreviation (input) "SIZE_MAX \<equiv> 2 ^ 64 - 1 :: nat"

section \<open>Error codes\<close>

datatype wah_error =
    WAH_OK
  | WAH_ERROR_INVALID_MAGIC_NUMBER
  | WAH_ERROR_INVALID_VERSION
  | WAH_ERROR_UNEXPECTED_EOF
  | WAH_ERROR_MALFORMED
  | WAH_ERROR_TOO_LARGE
  | WAH_ERROR_OUT_OF_MEMORY
  | WAH_ERROR_VALIDATION_FAILED
  | WAH_ERROR_TRAP
  | WAH_ERROR_STACK_OVERFLOW
  | WAH_ERROR_MEMORY_OUT_OF_BOUNDS
  | WAH_ERROR_NOT_FOUND
  | WAH_ERROR_MISUSE
  | WAH_ERROR_BAD_SPEC
  | WAH_ERROR_LINK_FAILED
  | WAH_ERROR_EXCEPTION
  | WAH_ERROR_DISABLED_FEATURE
  | WAH_ERROR_MULTI_RETURN
  | WAH_ERROR_UNSUPPORTED
  | WAH_STATUS_FUEL_EXHAUSTED
  | WAH_STATUS_YIELDED

type_synonym 'a res = "wah_error + 'a"

section \<open>The checking macros\<close>

text \<open>
  \<open>WAH_CHECK(expr)\<close> returns the error of \<open>expr\<close> if there is one and goes on otherwise;
  \<open>WAH_ENSURE(cond, error)\<close> returns \<open>error\<close> unless \<open>cond\<close> holds. The \<open>_GOTO\<close> forms differ only in
  the clean-up that runs before the error is returned.
\<close>

definition WAH_CHECK :: "'a res \<Rightarrow> ('a \<Rightarrow> 'b res) \<Rightarrow> 'b res" where
  "WAH_CHECK r k = (case r of Inl e \<Rightarrow> Inl e | Inr x \<Rightarrow> k x)"

definition WAH_ENSURE :: "bool \<Rightarrow> wah_error \<Rightarrow> 'b res \<Rightarrow> 'b res" where
  "WAH_ENSURE c e k = (if c then k else Inl e)"

lemma WAH_CHECK_Inl [simp]: "WAH_CHECK (Inl e) k = Inl e"
  by (simp add: WAH_CHECK_def)

lemma WAH_CHECK_Inr [simp]: "WAH_CHECK (Inr x) k = k x"
  by (simp add: WAH_CHECK_def)

lemma WAH_ENSURE_True [simp]: "WAH_ENSURE True e k = k"
  by (simp add: WAH_ENSURE_def)

lemma WAH_ENSURE_False [simp]: "WAH_ENSURE False e k = Inl e"
  by (simp add: WAH_ENSURE_def)

lemma WAH_CHECK_eq_Inr [res_simps]:
  "WAH_CHECK r k = Inr y \<longleftrightarrow> (\<exists>x. r = Inr x \<and> k x = Inr y)"
  by (cases r) simp_all

lemma WAH_ENSURE_eq_Inr [res_simps]:
  "WAH_ENSURE c e k = Inr y \<longleftrightarrow> c \<and> k = Inr y"
  by (cases c) simp_all

lemma WAH_CHECK_eq_Inl [res_simps]:
  "WAH_CHECK r k = Inl e \<longleftrightarrow> r = Inl e \<or> (\<exists>x. r = Inr x \<and> k x = Inl e)"
  by (cases r) simp_all

lemma WAH_ENSURE_eq_Inl [res_simps]:
  "WAH_ENSURE c e k = Inl e' \<longleftrightarrow> (\<not> c \<and> e' = e) \<or> (c \<and> k = Inl e')"
  by (cases c) auto

lemma WAH_CHECK_cong [fundef_cong]:
  "r = r' \<Longrightarrow> (\<And>x. r' = Inr x \<Longrightarrow> k x = k' x) \<Longrightarrow> WAH_CHECK r k = WAH_CHECK r' k'"
  by (cases r') simp_all

lemma WAH_ENSURE_cong [fundef_cong]:
  "c = c' \<Longrightarrow> e = e' \<Longrightarrow> (c' \<Longrightarrow> k = k') \<Longrightarrow> WAH_ENSURE c e k = WAH_ENSURE c' e' k'"
  by (cases c') simp_all

lemma WAH_CHECK_assoc:
  "WAH_CHECK (WAH_CHECK r k) h = WAH_CHECK r (\<lambda>x. WAH_CHECK (k x) h)"
  by (cases r) simp_all

section \<open>Counted loops over a byte stream\<close>

text \<open>
  The parser's \<open>for (i = 0; i < count; ++i)\<close> loops decode one item per round from the shared
  pointer and thread the module; \<open>repeat_dec\<close> is that loop.
\<close>

fun repeat_dec :: "nat \<Rightarrow> ('s \<Rightarrow> bytes \<Rightarrow> ('s \<times> bytes) res) \<Rightarrow> 's \<Rightarrow> bytes \<Rightarrow> ('s \<times> bytes) res" where
  "repeat_dec 0 f s bs = Inr (s, bs)"
| "repeat_dec (Suc n) f s bs = WAH_CHECK (f s bs) (\<lambda>(s', bs'). repeat_dec n f s' bs')"

text \<open>\<open>WAH_ENSURE(*ptr < end, WAH_ERROR_UNEXPECTED_EOF)\<close> followed by reading \<open>*(*ptr)++\<close>.\<close>

definition read_byte :: "bytes \<Rightarrow> (u8 \<times> bytes) res" where
  "read_byte bs = (case bs of [] \<Rightarrow> Inl WAH_ERROR_UNEXPECTED_EOF | b # r \<Rightarrow> Inr (b, r))"

lemma read_byte_Cons [simp]: "read_byte (b # r) = Inr (b, r)"
  by (simp add: read_byte_def)

lemma read_byte_eq_Inr [res_simps]: "read_byte bs = Inr p \<longleftrightarrow> bs = fst p # snd p"
  by (cases bs) (auto simp: read_byte_def)

lemma repeat_dec_numeral [simp]:
  "repeat_dec (numeral k) f s bs = WAH_CHECK (f s bs) (\<lambda>(s', bs'). repeat_dec (pred_numeral k) f s' bs')"
  by (simp add: numeral_eq_Suc)

lemma repeat_dec_invariant:
  assumes step: "\<And>s bs s' bs'. P s bs \<Longrightarrow> f s bs = Inr (s', bs') \<Longrightarrow> P s' bs'"
    and run: "repeat_dec n f s bs = Inr (s', bs')" and start: "P s bs"
  shows "P s' bs'"
  using run start
proof (induction n arbitrary: s bs)
  case 0
  then show ?case by simp
next
  case (Suc n)
  from Suc.prems(1) obtain t cs where "f s bs = Inr (t, cs)" "repeat_dec n f t cs = Inr (s', bs')"
    by (auto simp: res_simps)
  then show ?case using Suc.IH step Suc.prems(2) by blast
qed

lemma repeat_dec_measure:
  assumes step: "\<And>s bs s' bs'. f s bs = Inr (s', bs') \<Longrightarrow> g s' = Suc (g s)"
    and run: "repeat_dec n f s bs = Inr (s', bs')"
  shows "g s' = g s + n"
  using run
proof (induction n arbitrary: s bs)
  case 0
  then show ?case by simp
next
  case (Suc n)
  from Suc.prems obtain t cs where *: "f s bs = Inr (t, cs)" "repeat_dec n f t cs = Inr (s', bs')"
    by (auto simp: res_simps)
  show ?case using Suc.IH [OF *(2)] step [OF *(1)] by simp
qed

text \<open>The loops over indices that change a state and may fail at each step.\<close>

fun fold_res :: "('a \<Rightarrow> 's \<Rightarrow> 's res) \<Rightarrow> 'a list \<Rightarrow> 's \<Rightarrow> 's res" where
  "fold_res f [] s = Inr s"
| "fold_res f (x # xs) s = WAH_CHECK (f x s) (\<lambda>s. fold_res f xs s)"

lemma fold_res_append: "fold_res f (xs @ ys) s = WAH_CHECK (fold_res f xs s) (fold_res f ys)"
proof (induction xs arbitrary: s)
  case (Cons x xs)
  then show ?case by (cases "f x s") simp_all
qed simp

lemma fold_res_invariant:
  assumes step: "\<And>x s s'. x \<in> set xs \<Longrightarrow> P s \<Longrightarrow> f x s = Inr s' \<Longrightarrow> P s'"
    and run: "fold_res f xs s = Inr s'" and start: "P s"
  shows "P s'"
  using assms by (induction xs arbitrary: s) (auto simp: res_simps)

text \<open>What a step establishes for its own index, given that the invariant \<open>P\<close> and the facts of the earlier
  indices survive the later steps.\<close>

lemma fold_res_establishes:
  assumes step: "\<And>i s s'. i < n \<Longrightarrow> P s \<Longrightarrow> (\<And>j. j < i \<Longrightarrow> Q j s) \<Longrightarrow> f i s = Inr s' \<Longrightarrow> P s' \<and> Q i s' \<and> (\<forall>j < i. Q j s')"
    and run: "fold_res f [0..<n] s = Inr s'" and start: "P s"
  shows "P s' \<and> (\<forall>j < n. Q j s')"
  using run step
proof (induction n arbitrary: s')
  case 0
  then show ?case using start by simp
next
  case (Suc n)
  from Suc.prems(1) obtain t where t: "fold_res f [0..<n] s = Inr t" "f n t = Inr s'"
    by (auto simp: fold_res_append res_simps)
  have "P t \<and> (\<forall>j < n. Q j t)"
  proof (rule Suc.IH [OF t(1)])
    show "P u' \<and> Q i u' \<and> (\<forall>j < i. Q j u')"
      if "i < n" "P u" "\<And>j. j < i \<Longrightarrow> Q j u" "f i u = Inr u'" for i u u'
      by (rule Suc.prems(2) [of i u u']) (use that in auto)
  qed
  with Suc.prems(2) [of n t s'] t(2) show ?case by (auto simp: less_Suc_eq)
qed

section \<open>Shifted disjoint parts of a number\<close>

lemma nat_bit_bound:
  fixes c :: nat
  assumes "c < 2 ^ j" "bit c n"
  shows "n < j"
  using assms by (metis bit_take_bit_iff take_bit_nat_eq_self_iff)

lemma nat_add_shifted:
  fixes c z :: nat
  assumes "c < 2 ^ j"
  shows "c + 2 ^ j * z = c OR push_bit j z"
proof -
  have "c AND push_bit j z = 0"
    by (rule bit_eqI) (use nat_bit_bound [OF assms] in \<open>force simp: bit_simps\<close>)
  then have "c + push_bit j z = c OR push_bit j z"
    by (rule disjunctive_add_eq_or)
  then show ?thesis by (simp add: push_bit_eq_mult mult.commute)
qed

lemma nat_and_split:
  fixes a b x y :: nat
  assumes "a < 2 ^ j" "b < 2 ^ j"
  shows "(a + 2 ^ j * x) AND (b + 2 ^ j * y) = (a AND b) + 2 ^ j * (x AND y)"
proof -
  have ab: "a AND b < 2 ^ j"
    using assms by (metis take_bit_and take_bit_nat_less_exp take_bit_nat_eq_self_iff)
  have "(a OR push_bit j x) AND (b OR push_bit j y) = (a AND b) OR push_bit j (x AND y)"
    by (rule bit_eqI) (use nat_bit_bound [OF assms(1)] nat_bit_bound [OF assms(2)] in \<open>force simp: bit_simps\<close>)
  then show ?thesis using nat_add_shifted assms ab by simp
qed

section \<open>Bytes\<close>

text \<open>A fact about all bytes is checked on the 256 values.\<close>

lemma byte_check:
  assumes "\<forall>n\<in>set [0..<256]. P n (word_of_nat n :: u8)" shows "P (unat b) b"
proof -
  have "unat b \<in> set [0..<256]" using unsigned_less [of b, where 'a = nat] by (simp only: set_upt) simp
  from bspec [OF assms this] show ?thesis by (simp only: of_nat_unat ucast_id)
qed

lemma u8_high [simp]: "8 \<le> n \<Longrightarrow> bit (a :: u8) n = False"
  using bit_imp_le_length [of a n] by auto

lemma unat_of_nat_u8 [simp]: "n < 256 \<Longrightarrow> unat (of_nat n :: u8) = n"
  by (simp add: unat_of_nat)

section \<open>Suffixes\<close>

text \<open>
  What a decoder leaves is a suffix of what it was given: it never reads past \<open>end\<close> and never moves
  backwards. The lemmas below carry that fact through the combinators.
\<close>

lemma suffix_length_less: "suffix ys xs \<Longrightarrow> ys \<noteq> xs \<Longrightarrow> length ys < length xs"
  by (auto simp: suffix_def)

lemma suffix_tail: "suffix (x # ys) xs \<Longrightarrow> suffix ys xs"
  by (rule suffix_ConsD)

lemma repeat_dec_suffix:
  assumes step: "\<And>s bs s' bs'. f s bs = Inr (s', bs') \<Longrightarrow> suffix bs' bs"
    and run: "repeat_dec n f s bs = Inr (s', bs')"
  shows "suffix bs' bs"
proof (rule repeat_dec_invariant [where P = "\<lambda>_ cs. suffix cs bs", OF _ run])
  show "suffix cs' bs" if "suffix cs bs" "f t cs = Inr (t', cs')" for t cs t' cs'
    using step [OF that(2)] that(1) by (rule suffix_order.trans)
qed simp

end
