(* ===== verification/Wah_Bits.thy ===== *)
theory Wah_Bits
  imports Wah_Prelude
begin

text \<open>
  The integer utility functions of \<open>wah.h\<close> (population count, leading and trailing zeros,
  rotations) in their portable form, the \<open>#else\<close> branches that are compiled when no compiler
  builtin is available. The lemmas show that the bit tricks compute the mathematical functions, so
  that they agree with the builtins that replace them.
\<close>

section \<open>Definitions\<close>

definition wah_popcount_u32 :: "u32 \<Rightarrow> u32" where
  "wah_popcount_u32 n0 =
    (let n1 = n0 - (drop_bit 1 n0 AND 0x55555555);
         n2 = (n1 AND 0x33333333) + (drop_bit 2 n1 AND 0x33333333);
         n3 = (n2 + drop_bit 4 n2) AND 0x0f0f0f0f
     in drop_bit 24 (n3 * 0x01010101))"

definition wah_popcount_u64 :: "u64 \<Rightarrow> u64" where
  "wah_popcount_u64 n0 =
    (let n1 = n0 - (drop_bit 1 n0 AND 0x5555555555555555);
         n2 = (n1 AND 0x3333333333333333) + (drop_bit 2 n1 AND 0x3333333333333333);
         n3 = (n2 + drop_bit 4 n2) AND 0x0f0f0f0f0f0f0f0f
     in drop_bit 56 (n3 * 0x0101010101010101))"

lemma unat_drop_bit: "unat (drop_bit k w) = unat w div 2 ^ k"
  by (simp only: unat_drop_bit_eq) (simp only: drop_bit_eq_div)

text \<open>The loop of \<open>wah_popcount_u8\<close>: clear the lowest set bit until none is left.\<close>

function popcount_u8_loop :: "u8 \<Rightarrow> u8 \<Rightarrow> u8" where
  "popcount_u8_loop n count = (if n > 0 then popcount_u8_loop (n AND (n - 1)) (count + 1) else count)"
  by pat_completeness auto
termination
proof (relation "measure (\<lambda>(n, count). unat n)")
  fix n count :: u8
  assume "n > 0"
  then have "n - 1 < n" by (metis measure_unat word_less_nat_alt word_gt_0)
  moreover have "n AND (n - 1) \<le> n - 1" by (rule word_and_le1)
  ultimately show "((n AND (n - 1), count + 1), n, count) \<in> measure (\<lambda>(n, count). unat n)"
    by (simp add: word_less_nat_alt word_le_nat_alt)
qed simp

declare popcount_u8_loop.simps [simp del]

definition wah_popcount_u8 :: "u8 \<Rightarrow> u8" where
  "wah_popcount_u8 n = popcount_u8_loop n 0"

text \<open>One halving step of the leading-zero count: \<open>if (n <= limit) { count += k; n <<= k; }\<close>.\<close>

definition clz_step :: "'a::len word \<Rightarrow> nat \<Rightarrow> 'a word \<times> 'a word \<Rightarrow> 'a word \<times> 'a word" where
  "clz_step limit k s = (case s of (n, count) \<Rightarrow>
     if n \<le> limit then (push_bit k n, count + word_of_nat k) else (n, count))"

definition wah_clz_u32 :: "u32 \<Rightarrow> u32" where
  "wah_clz_u32 n =
    (if n = 0 then 32
     else snd (clz_step 0x7FFFFFFF 1 (clz_step 0x3FFFFFFF 2 (clz_step 0x0FFFFFFF 4
            (clz_step 0x00FFFFFF 8 (clz_step 0x0000FFFF 16 (n, 0)))))))"

definition wah_clz_u64 :: "u64 \<Rightarrow> u64" where
  "wah_clz_u64 n =
    (if n = 0 then 64
     else snd (clz_step 0x7FFFFFFFFFFFFFFF 1 (clz_step 0x3FFFFFFFFFFFFFFF 2
            (clz_step 0x0FFFFFFFFFFFFFFF 4 (clz_step 0x00FFFFFFFFFFFFFF 8
            (clz_step 0x0000FFFFFFFFFFFF 16 (clz_step 0x00000000FFFFFFFF 32 (n, 0))))))))"

text \<open>The trailing-zero loop, entered with a non-zero argument only; the bound on the argument's
  value halves in every round.\<close>

function ctz_loop :: "'a::len word \<Rightarrow> 'a word \<Rightarrow> 'a word" where
  "ctz_loop n count = (if n \<noteq> 0 \<and> n AND 1 = 0 then ctz_loop (drop_bit 1 n) (count + 1) else count)"
  by pat_completeness auto
termination
proof (relation "measure (\<lambda>(n, count). unat n)")
  fix n count :: "'a word"
  assume "n \<noteq> 0 \<and> n AND 1 = 0"
  then have "0 < unat n" by (simp add: unat_gt_0)
  then have "unat (drop_bit 1 n) < unat n" by (simp only: unat_drop_bit) simp
  then show "((drop_bit 1 n, count + 1), n, count) \<in> measure (\<lambda>(n, count). unat n)" by simp
qed simp

declare ctz_loop.simps [simp del]

definition wah_ctz_u32 :: "u32 \<Rightarrow> u32" where
  "wah_ctz_u32 n = (if n = 0 then 32 else ctz_loop n 0)"

definition wah_ctz_u64 :: "u64 \<Rightarrow> u64" where
  "wah_ctz_u64 n = (if n = 0 then 64 else ctz_loop n 0)"

definition wah_rotl_u32 :: "u32 \<Rightarrow> u32 \<Rightarrow> u32" where
  "wah_rotl_u32 n shift0 =
    (let shift = shift0 AND 31 in
     if shift = 0 then n
     else push_bit (unat shift) n OR drop_bit (unat (32 - shift)) n)"

definition wah_rotl_u64 :: "u64 \<Rightarrow> u64 \<Rightarrow> u64" where
  "wah_rotl_u64 n shift0 =
    (let shift = shift0 AND 63 in
     if shift = 0 then n
     else push_bit (unat shift) n OR drop_bit (unat (64 - shift)) n)"

definition wah_rotr_u32 :: "u32 \<Rightarrow> u32 \<Rightarrow> u32" where
  "wah_rotr_u32 n shift0 =
    (let shift = shift0 AND 31 in
     if shift = 0 then n
     else drop_bit (unat shift) n OR push_bit (unat (32 - shift)) n)"

definition wah_rotr_u64 :: "u64 \<Rightarrow> u64 \<Rightarrow> u64" where
  "wah_rotr_u64 n shift0 =
    (let shift = shift0 AND 63 in
     if shift = 0 then n
     else drop_bit (unat shift) n OR push_bit (unat (64 - shift)) n)"

section \<open>Population count\<close>

text \<open>The reference: the number of set bits.\<close>

definition popcount_spec :: "'a::len word \<Rightarrow> nat" where
  "popcount_spec w = card {i. i < LENGTH('a) \<and> bit w i}"

text \<open>The population count of a natural number, and the three folding steps digit by digit.\<close>

fun pcount :: "nat \<Rightarrow> nat \<Rightarrow> nat" where
  "pcount 0 n = 0"
| "pcount (Suc k) n = n mod 2 + pcount k (n div 2)"

fun rep_mask :: "nat \<Rightarrow> nat \<Rightarrow> nat \<Rightarrow> nat" where
  "rep_mask w d 0 = 0"
| "rep_mask w d (Suc k) = d + 2 ^ w * rep_mask w d k"

text \<open>\<open>fields w k n\<close>: every \<open>w\<close>-bit field of \<open>n\<close> replaced by the number of its set bits.\<close>

fun fields :: "nat \<Rightarrow> nat \<Rightarrow> nat \<Rightarrow> nat" where
  "fields w 0 n = 0"
| "fields w (Suc k) n = pcount w n + 2 ^ w * fields w k (n div 2 ^ w)"

lemma pcount_le: "pcount k n \<le> k"
proof (induction k arbitrary: n)
  case (Suc k)
  have "n mod 2 \<le> 1" by simp
  with Suc [of "n div 2"] show ?case by (simp del: One_nat_def) 
qed simp

lemma pcount_Suc_0 [simp]: "pcount (Suc 0) n = n mod 2"
  by simp

lemma pcount_2: "pcount 2 n + n mod 4 div 2 = n mod 4"
proof -
  have "pcount (Suc (Suc 0)) n = n mod 2 + n div 2 mod 2" by simp
  then have "pcount 2 n = n mod 2 + n div 2 mod 2" by (simp only: numeral_2_eq_2 [symmetric])
  moreover have m: "n mod 4 = 2 * (n div 2 mod 2) + n mod 2" using mod_mult2_eq [of n 2 2] by simp
  moreover have "n mod 4 div 2 = n div 2 mod 2" by (simp add: m)
  ultimately show ?thesis by linarith
qed

lemma pcount_add: "pcount (i + j) n = pcount i n + pcount j (n div 2 ^ i)"
  by (induction i arbitrary: n) (auto simp: div_mult2_eq)

lemma pcount_double: "pcount (2 * i) n = pcount i n + pcount i (n div 2 ^ i)"
  using pcount_add [of i i n] by (simp add: mult_2)

lemma fields_step1: "n < 4 ^ k \<Longrightarrow> fields 2 k n + (n div 2 AND rep_mask 2 1 k) = n"
proof (induction k arbitrary: n)
  case 0
  then show ?case by simp
next
  case (Suc k)
  let ?h = "n div 4"
  have IH: "fields 2 k ?h + (?h div 2 AND rep_mask 2 1 k) = ?h"
    using Suc by simp
  have "n div 2 = (n div 2 mod 4) + 2 ^ 2 * (?h div 2)"
    using mod_mult_div_eq [of "n div 2" 4] by (simp add: div_mult2_eq [symmetric])
  then have m: "n div 2 AND rep_mask 2 1 (Suc k) = (n div 2 mod 4 AND 1) + 4 * (?h div 2 AND rep_mask 2 1 k)"
    using nat_and_split [of "n div 2 mod 4" 2 1 "?h div 2" "rep_mask 2 1 k"] by simp
  have "n div 2 mod 4 AND 1 = n mod 4 div 2"
  proof -
    have "n mod 4 = 2 * (n div 2 mod 2) + n mod 2" using mod_mult2_eq [of n 2 2] by simp
    then show ?thesis by (simp add: and_one_eq mod_mod_cancel)
  qed
  moreover have "n = n mod 4 + 4 * ?h" by simp
  moreover have "fields 2 (Suc k) n = pcount 2 n + 4 * fields 2 k ?h" by simp
  ultimately show ?case using IH m pcount_2 [of n] by linarith
qed

lemma fields_step2:
  "(fields 2 (2 * k) n AND rep_mask 4 3 k) + (fields 2 (2 * k) n div 4 AND rep_mask 4 3 k) = fields 4 k n"
proof (induction k arbitrary: n)
  case 0
  then show ?case by simp
next
  case (Suc k)
  define c0 c1 r M where "c0 = pcount 2 n" and "c1 = pcount 2 (n div 4)"
    and "r = fields 2 (2 * k) (n div 16)" and "M = rep_mask 4 3 k"
  have c: "c0 < 4" "c1 < 4" using pcount_le [of 2 n] pcount_le [of 2 "n div 4"] by (simp_all add: c0_def c1_def)
  have f: "fields 2 (2 * Suc k) n = (c0 + 4 * c1) + 2 ^ 4 * r"
    by (simp add: c0_def c1_def r_def div_mult2_eq [symmetric])
  have q: "fields 2 (2 * Suc k) n div 4 = (c1 + 4 * (r mod 4)) + 2 ^ 4 * (r div 4)"
  proof -
    have "fields 2 (2 * Suc k) n = c0 + 4 * (c1 + 4 * r)" by (simp only: f) simp
    then have "fields 2 (2 * Suc k) n div 4 = c1 + 4 * r" using c by simp
    also have "4 * r = 4 * (r mod 4) + 2 ^ 4 * (r div 4)"
      by (subst (1) mod_mult_div_eq [of r 4, symmetric]) (simp only: distrib_left, simp)
    finally show ?thesis by simp
  qed
  have a3: "x AND 3 = x mod 4" for x :: nat
    using take_bit_eq_mask [of 2 x] by (simp add: take_bit_eq_mod mask_eq_exp_minus_1)
  have "fields 2 (2 * Suc k) n AND rep_mask 4 3 (Suc k) = c0 + 16 * (r AND M)"
    using nat_and_split [of "c0 + 4 * c1" 4 3 r M] c by (simp only: f M_def [symmetric] rep_mask.simps a3) (simp add: a3)
  moreover have "fields 2 (2 * Suc k) n div 4 AND rep_mask 4 3 (Suc k) = c1 + 16 * (r div 4 AND M)"
    using nat_and_split [of "c1 + 4 * (r mod 4)" 4 3 "r div 4" M] c by (simp only: q M_def [symmetric] rep_mask.simps a3) (simp add: a3)
  moreover have "fields 4 (Suc k) n = c0 + c1 + 16 * fields 4 k (n div 16)"
    using pcount_double [of 2 n] by (simp add: c0_def c1_def)
  ultimately show ?case using Suc [of "n div 16"]
    by (simp add: r_def M_def)
qed

lemma fields_step3:
  "fields 4 (2 * k) n + fields 4 (2 * k) n div 16 AND rep_mask 8 15 k = fields 8 k n"
proof (induction k arbitrary: n)
  case 0
  then show ?case by simp
next
  case (Suc k)
  define p0 p1 r M where "p0 = pcount 4 n" and "p1 = pcount 4 (n div 16)"
    and "r = fields 4 (2 * k) (n div 256)" and "M = rep_mask 8 15 k"
  have p: "p0 \<le> 4" "p1 \<le> 4" using pcount_le by (auto simp: p0_def p1_def)
  have r4: "r mod 16 \<le> 4"
  proof (cases k)
    case 0
    then show ?thesis by (simp add: r_def)
  next
    case (Suc k')
    then have "r = pcount 4 (n div 256) + 16 * (pcount 4 (n div 256 div 16)
        + 16 * fields 4 (2 * k') (n div 256 div 16 div 16))" by (simp add: r_def)
    then have "r mod 16 = pcount 4 (n div 256)"
      using pcount_le [of 4 "n div 256"] by (simp only: mod_mult_self2) simp
    then show ?thesis using pcount_le [of 4 "n div 256"] by simp
  qed
  have f: "fields 4 (2 * Suc k) n = p0 + 16 * p1 + 256 * r"
    by (simp add: p0_def p1_def r_def div_mult2_eq [symmetric])
  have "fields 4 (2 * Suc k) n + fields 4 (2 * Suc k) n div 16
      = (p0 + p1 + 16 * (p1 + r mod 16)) + 2 ^ 8 * (r + r div 16)"
  proof -
    have "fields 4 (2 * Suc k) n = p0 + 16 * (p1 + 16 * r)" by (simp only: f) simp
    then have "fields 4 (2 * Suc k) n div 16 = p1 + 16 * r" using p by simp
    also have "16 * r = 16 * (r mod 16) + 2 ^ 8 * (r div 16)"
      by (subst (1) mod_mult_div_eq [of r 16, symmetric]) (simp only: distrib_left, simp)
    finally show ?thesis unfolding f by simp
  qed
  moreover have "(p0 + p1 + 16 * (p1 + r mod 16)) AND 15 = p0 + p1"
  proof -
    have "(p0 + p1 + 16 * (p1 + r mod 16)) AND 15 = (p0 + p1 + 16 * (p1 + r mod 16)) mod 16"
      using take_bit_eq_mask [of 4 "p0 + p1 + 16 * (p1 + r mod 16)"]
      by (simp only: take_bit_eq_mod mask_eq_exp_minus_1) simp
    then show ?thesis using p by (simp only: mod_mult_self2) simp
  qed
  ultimately have "fields 4 (2 * Suc k) n + fields 4 (2 * Suc k) n div 16 AND rep_mask 8 15 (Suc k)
      = p0 + p1 + 256 * (r + r div 16 AND M)"
    using nat_and_split [of "p0 + p1 + 16 * (p1 + r mod 16)" 8 15 "r + r div 16" M] p r4
    by (simp add: M_def)
  moreover have "fields 8 (Suc k) n = p0 + p1 + 256 * fields 8 k (n div 256)"
    using pcount_double [of 4 n] by (simp add: p0_def p1_def)
  ultimately show ?case using Suc [of "n div 256"]
    by (simp add: r_def M_def)
qed

lemma pcount_fields:
  "pcount 32 n = pcount 8 n + pcount 8 (n div 2 ^ 8) + pcount 8 (n div 2 ^ 16) + pcount 8 (n div 2 ^ 24)"
  using pcount_add [of 8 24 n] pcount_add [of 8 16 "n div 2 ^ 8"] pcount_add [of 8 8 "n div 2 ^ 16"]
  by (simp add: div_mult2_eq [symmetric])

lemma pcount_card: "pcount k n = card {i. i < k \<and> bit n i}"
proof (induction k arbitrary: n)
  case (Suc k)
  have "{i. i < Suc k \<and> bit n i} = (if odd n then {0} else {}) \<union> Suc ` {i. i < k \<and> bit (n div 2) i}"
    by (auto simp: bit_Suc [symmetric] image_iff elim: less_SucE) (metis bit_0 bit_Suc not0_implies_Suc Suc_less_eq)+
  then show ?case using Suc [of "n div 2"]
    by (auto simp: card_image card_insert_if mod2_eq_if)
qed simp

lemma popcount_spec_pcount: "popcount_spec (w :: 'a::len word) = pcount LENGTH('a) (unat w)"
  by (simp add: popcount_spec_def pcount_card bit_unsigned_iff)


lemma fields_8_4: "fields 8 4 n = pcount 8 n + 256 * pcount 8 (n div 2 ^ 8)
    + 65536 * pcount 8 (n div 2 ^ 16) + 16777216 * pcount 8 (n div 2 ^ 24)"
proof -
  have "(4::nat) = Suc (Suc (Suc (Suc 0)))" by simp
  then show ?thesis by (simp only: fields.simps) (simp add: div_mult2_eq [symmetric])
qed

lemma fields_le: "fields w k n \<le> w * rep_mask w 1 k"
proof (induction k arbitrary: n)
  case (Suc k)
  have "pcount w n \<le> w" by (rule pcount_le)
  moreover have "2 ^ w * fields w k (n div 2 ^ w) \<le> 2 ^ w * (w * rep_mask w 1 k)"
    using Suc by (rule mult_le_mono2)
  ultimately show ?case by (simp add: algebra_simps add_le_mono)
qed simp

lemma rep_mask_bound: "15 * rep_mask 4 1 j < 16 ^ j"
  by (induction j) auto

lemma rep_mask_numeral [simp]:
  "rep_mask w d (numeral k) = d + 2 ^ w * rep_mask w d (pred_numeral k)"
  by (simp add: numeral_eq_Suc)

lemma unat_and_div: "unat (drop_bit k w AND m) = unat w div 2 ^ k AND unat m"
  by (simp only: unsigned_and_eq unat_drop_bit)

text \<open>The three folding steps on words: after them every byte holds the count of its own bits.\<close>

lemma swar_fold:
  fixes n0 m1 m2 m3 :: "'a::len word"
  assumes L: "LENGTH('a) = 8 * k"
    and m: "unat m1 = rep_mask 2 1 (4 * k)" "unat m2 = rep_mask 4 3 (2 * k)" "unat m3 = rep_mask 8 15 k"
  defines "n1 \<equiv> n0 - (drop_bit 1 n0 AND m1)"
  defines "n2 \<equiv> (n1 AND m2) + (drop_bit 2 n1 AND m2)"
  shows "unat ((n2 + drop_bit 4 n2) AND m3) = fields 8 k (unat n0)"
proof -
  let ?n = "unat n0"
  have p: "(2::nat) ^ LENGTH('a) = 16 ^ (2 * k)" "(2::nat) ^ LENGTH('a) = 4 ^ (4 * k)"
    using power_mult [of "2::nat" 4 "2 * k"] power_mult [of "2::nat" 2 "4 * k"] by (simp_all add: L)
  have n: "?n < 4 ^ (4 * k)" using unsigned_less [of n0, where 'a = nat] by (simp only: p(2) [symmetric])
  have s1: "fields 2 (4 * k) ?n + (?n div 2 AND rep_mask 2 1 (4 * k)) = ?n" by (rule fields_step1 [OF n])
  have d1: "unat (drop_bit 1 n0 AND m1) = ?n div 2 AND rep_mask 2 1 (4 * k)"
    by (simp only: unat_and_div m power_one_right)
  have 1: "unat n1 = fields 2 (2 * (2 * k)) ?n"
  proof -
    have "drop_bit 1 n0 AND m1 \<le> n0" using s1 d1 by (simp only: word_le_nat_alt)
    then have "unat n1 = ?n - unat (drop_bit 1 n0 AND m1)" by (simp only: n1_def unat_sub)
    then show ?thesis using s1 d1 by simp
  qed
  have b: "15 * fields 4 (2 * k) ?n < 4 * 16 ^ (2 * k)"
    using fields_le [of 4 "2 * k" ?n] rep_mask_bound [of "2 * k"] by linarith
  have "unat (n1 AND m2) + unat (drop_bit 2 n1 AND m2) = fields 4 (2 * k) ?n"
    using fields_step2 [of "2 * k" ?n] by (simp add: unsigned_and_eq unat_drop_bit m 1)
  then have 2: "unat n2 = fields 4 (2 * k) ?n"
    using b by (simp add: n2_def unat_word_ariths p(1))
  have "unat (n2 + drop_bit 4 n2) = fields 4 (2 * k) ?n + fields 4 (2 * k) ?n div 16"
    using b by (simp add: unat_word_ariths unat_drop_bit 2 p(1))
  then show ?thesis using fields_step3 [of k ?n] by (simp add: unsigned_and_eq m)
qed

text \<open>Multiplying by \<open>0x01..01\<close> adds all bytes up in the topmost one.\<close>

lemma fold_bytes_32:
  assumes "b0 \<le> 8" "b1 \<le> 8" "b2 \<le> 8" "b3 \<le> (8::nat)"
  shows "((b0 + 256 * b1 + 65536 * b2 + 16777216 * b3) * 0x01010101) mod 2 ^ 32 div 2 ^ 24 = b0 + b1 + b2 + b3"
proof -
  let ?lo = "b0 + 256 * (b0 + b1) + 65536 * (b0 + b1 + b2)"
  let ?hi = "(b1 + b2 + b3) + 256 * (b2 + b3) + 65536 * b3"
  have "(b0 + 256 * b1 + 65536 * b2 + 16777216 * b3) * 0x01010101
      = (?lo + 2 ^ 24 * (b0 + b1 + b2 + b3)) + 2 ^ 32 * ?hi" by simp
  moreover have "?lo + 2 ^ 24 * (b0 + b1 + b2 + b3) < 2 ^ 32" using assms by simp
  ultimately have "((b0 + 256 * b1 + 65536 * b2 + 16777216 * b3) * 0x01010101) mod 2 ^ 32
      = ?lo + 2 ^ 24 * (b0 + b1 + b2 + b3)" by (simp only: mod_mult_self2) simp
  moreover have "?lo < 2 ^ 24" using assms by simp
  ultimately show ?thesis by (simp only: div_mult_self2) simp
qed

lemma popcount_u32_bits: "unat (wah_popcount_u32 n0) = popcount_spec n0"
proof -
  let ?n = "unat n0"
  let ?n1 = "n0 - (drop_bit 1 n0 AND 0x55555555)"
  let ?n2 = "(?n1 AND 0x33333333) + (drop_bit 2 ?n1 AND 0x33333333)"
  have "unat ((?n2 + drop_bit 4 ?n2) AND 0x0f0f0f0f) = fields 8 4 ?n"
    by (rule swar_fold) simp_all
  then have "unat (wah_popcount_u32 n0) = (fields 8 4 ?n * 0x01010101) mod 2 ^ 32 div 2 ^ 24"
    by (simp only: wah_popcount_u32_def Let_def unat_drop_bit unat_word_ariths) simp
  also have "\<dots> = pcount 32 ?n"
    by (simp only: fields_8_4 pcount_fields fold_bytes_32 pcount_le)
  finally show ?thesis by (simp add: popcount_spec_pcount)
qed

lemma pcount_fields_64:
  "pcount 64 n = pcount 8 n + pcount 8 (n div 2 ^ 8) + pcount 8 (n div 2 ^ 16) + pcount 8 (n div 2 ^ 24)
     + pcount 8 (n div 2 ^ 32) + pcount 8 (n div 2 ^ 40) + pcount 8 (n div 2 ^ 48) + pcount 8 (n div 2 ^ 56)"
  using pcount_add [of 32 32 n]
  by (simp add: pcount_fields div_mult2_eq [symmetric])

lemma fields_8_8: "fields 8 8 n = fields 8 4 n + 2 ^ 32 * fields 8 4 (n div 2 ^ 32)"
proof -
  have "(8::nat) = Suc (Suc (Suc (Suc 4)))" by simp
  then have "fields 8 8 n = fields 8 (Suc (Suc (Suc (Suc 4)))) n" by simp
  then show ?thesis by (simp only: fields.simps fields_8_4) (simp add: div_mult2_eq [symmetric])
qed

lemma fold_bytes_64:
  assumes "b0 \<le> 8" "b1 \<le> 8" "b2 \<le> 8" "b3 \<le> (8::nat)" "b4 \<le> 8" "b5 \<le> 8" "b6 \<le> 8" "b7 \<le> (8::nat)"
  shows "((b0 + 256 * b1 + 65536 * b2 + 16777216 * b3
      + 2 ^ 32 * (b4 + 256 * b5 + 65536 * b6 + 16777216 * b7)) * 0x0101010101010101) mod 2 ^ 64 div 2 ^ 56
    = b0 + b1 + b2 + b3 + b4 + b5 + b6 + b7"
proof -
  let ?lo = "b0 + 256 * (b0 + b1) + 65536 * (b0 + b1 + b2) + 16777216 * (b0 + b1 + b2 + b3)
    + 2 ^ 32 * (b0 + b1 + b2 + b3 + b4) + 2 ^ 40 * (b0 + b1 + b2 + b3 + b4 + b5)
    + 2 ^ 48 * (b0 + b1 + b2 + b3 + b4 + b5 + b6)"
  let ?hi = "(b1 + b2 + b3 + b4 + b5 + b6 + b7) + 256 * (b2 + b3 + b4 + b5 + b6 + b7)
    + 65536 * (b3 + b4 + b5 + b6 + b7) + 16777216 * (b4 + b5 + b6 + b7) + 2 ^ 32 * (b5 + b6 + b7)
    + 2 ^ 40 * (b6 + b7) + 2 ^ 48 * b7"
  let ?sum = "b0 + b1 + b2 + b3 + b4 + b5 + b6 + b7"
  have "(b0 + 256 * b1 + 65536 * b2 + 16777216 * b3
      + 2 ^ 32 * (b4 + 256 * b5 + 65536 * b6 + 16777216 * b7)) * 0x0101010101010101
      = (?lo + 2 ^ 56 * ?sum) + 2 ^ 64 * ?hi" by simp
  moreover have "?lo + 2 ^ 56 * ?sum < 2 ^ 64" using assms by simp
  ultimately have "((b0 + 256 * b1 + 65536 * b2 + 16777216 * b3
      + 2 ^ 32 * (b4 + 256 * b5 + 65536 * b6 + 16777216 * b7)) * 0x0101010101010101) mod 2 ^ 64
      = ?lo + 2 ^ 56 * ?sum" by (simp only: mod_mult_self2) simp
  moreover have "?lo < 2 ^ 56" using assms by simp
  ultimately show ?thesis by (simp only: div_mult_self2) simp
qed

lemma popcount_u64_bits: "unat (wah_popcount_u64 n0) = popcount_spec n0"
proof -
  let ?n = "unat n0"
  let ?n1 = "n0 - (drop_bit 1 n0 AND 0x5555555555555555)"
  let ?n2 = "(?n1 AND 0x3333333333333333) + (drop_bit 2 ?n1 AND 0x3333333333333333)"
  have "unat ((?n2 + drop_bit 4 ?n2) AND 0x0f0f0f0f0f0f0f0f) = fields 8 8 ?n"
    by (rule swar_fold) simp_all
  then have "unat (wah_popcount_u64 n0) = (fields 8 8 ?n * 0x0101010101010101) mod 2 ^ 64 div 2 ^ 56"
    by (simp only: wah_popcount_u64_def Let_def unat_drop_bit unat_word_ariths) simp
  also have "\<dots> = pcount 64 ?n"
    by (simp only: fields_8_8 fields_8_4 fold_bytes_64 pcount_le pcount_fields_64)
       (simp add: div_mult2_eq [symmetric])
  finally show ?thesis by (simp add: popcount_spec_pcount)
qed

text \<open>Clearing the lowest set bit takes one from the count.\<close>

lemma pcount_clear_lowest: "0 < m \<Longrightarrow> m < 2 ^ k \<Longrightarrow> Suc (pcount k (m AND (m - 1))) = pcount k m"
proof (induction k arbitrary: m)
  case (Suc k)
  show ?case
  proof (cases "even m")
    case True
    then obtain h where m: "m = 2 * h" by blast
    with Suc.prems have h: "0 < h" "h < 2 ^ k" by auto
    have "odd (m - 1)" using m h by simp
    moreover have "(m - 1) div 2 = h - 1" using m h by simp
    ultimately have "m AND (m - 1) = 2 * (h AND (h - 1))"
      using and_rec [of m "m - 1"] m by simp
    then show ?thesis using Suc.IH [OF h] m by simp
  next
    case False
    then obtain h where m: "m = 2 * h + 1" using oddE by blast
    have "m AND (m - 1) = 2 * h" using and_rec [of m "m - 1"] m by simp
    then show ?thesis using m by simp
  qed
qed simp


lemma unat_clear_lowest: "n > 0 \<Longrightarrow> unat (n AND (n - 1)) = unat n AND (unat n - 1)"
  for n :: "'a::len word"
  by (simp add: unsigned_and_eq unat_minus_one word_gt_0)

lemma popcount_u8_loop_counts:
  "popcount_u8_loop n count = count + word_of_nat (pcount 8 (unat n))"
proof (induction n count rule: popcount_u8_loop.induct)
  case (1 n count)
  show ?case
  proof (cases "n > 0")
    case True
    have "Suc (pcount 8 (unat (n AND (n - 1)))) = pcount 8 (unat n)"
      unfolding unat_clear_lowest [OF True]
      using True unsigned_less [of n, where 'a = nat]
      by (intro pcount_clear_lowest) (simp_all add: word_less_nat_alt)
    then have "word_of_nat (pcount 8 (unat n)) = (1 + word_of_nat (pcount 8 (unat (n AND (n - 1)))) :: u8)"
      by (metis of_nat_Suc)
    with "1.IH" [OF True] True show ?thesis
      by (subst popcount_u8_loop.simps) (simp add: add.assoc)
  next
    case False
    then have "n = 0" by (simp add: word_gt_0)
    then show ?thesis by (subst popcount_u8_loop.simps) (simp add: pcount_card)
  qed
qed

lemma popcount_u8_bits: "unat (wah_popcount_u8 n) = popcount_spec n"
proof -
  have "pcount 8 (unat n) < 256" using pcount_le [of 8 "unat n"] by simp
  then show ?thesis
    by (simp add: wah_popcount_u8_def popcount_u8_loop_counts popcount_spec_pcount unat_of_nat)
qed

section \<open>Leading and trailing zeros\<close>

text \<open>\<open>clz_inv m j n s\<close>: the state \<open>s\<close> holds \<open>n\<close> shifted left by the count, and its top bit is
  among the highest \<open>j\<close> bits.\<close>

definition clz_inv :: "nat \<Rightarrow> 'a::len word \<Rightarrow> 'a word \<times> 'a word \<Rightarrow> bool" where
  "clz_inv j n s \<longleftrightarrow> unat (fst s) = unat n * 2 ^ unat (snd s) \<and> unat (snd s) + j \<le> LENGTH('a)
     \<and> 2 ^ (LENGTH('a) - j) \<le> unat (fst s)"

lemma clz_step_inv:
  fixes n :: "'a::len word"
  assumes inv: "clz_inv j n s" and j: "j = 2 * k" and lim: "unat limit = 2 ^ (LENGTH('a) - k) - 1"
    and k: "0 < k"
  shows "clz_inv k n (clz_step limit k s)"
proof -
  obtain m c where s: "s = (m, c)" by (cases s)
  from inv have m: "unat m = unat n * 2 ^ unat c" and c: "unat c + 2 * k \<le> LENGTH('a)"
    and top: "2 ^ (LENGTH('a) - 2 * k) \<le> unat m" by (simp_all add: clz_inv_def s j)
  show ?thesis
  proof (cases "m \<le> limit")
    case True
    then have "unat m < 2 ^ (LENGTH('a) - k)" using lim
      by (metis word_le_nat_alt Suc_pred' le_imp_less_Suc zero_less_power zero_less_numeral)
    then have "unat m * 2 ^ k < 2 ^ (LENGTH('a) - k) * 2 ^ k" by simp
    also have "\<dots> = 2 ^ LENGTH('a)" using c by (simp add: power_add [symmetric])
    finally have lt: "unat m * 2 ^ k < 2 ^ LENGTH('a)" .
    have pm: "unat (push_bit k m) = unat m * 2 ^ k"
    proof -
      have "unat (push_bit k m) = take_bit LENGTH('a) (push_bit k (unat m))" by (rule unsigned_push_bit_eq)
      then show ?thesis using lt by (simp only: push_bit_eq_mult take_bit_nat_eq_self)
    qed
    have "unat c + k < 2 ^ LENGTH('a)" using c less_exp [of "LENGTH('a)"] by linarith
    then have cc: "unat (c + word_of_nat k) = unat c + k"
      by (simp add: unat_word_ariths unat_of_nat mod_add_right_eq)
    have "2 ^ (LENGTH('a) - 2 * k) * 2 ^ k \<le> unat m * 2 ^ k" using top by simp
    then have "2 ^ (LENGTH('a) - k) \<le> unat m * 2 ^ k" using c by (simp add: power_add [symmetric])
    then show ?thesis using True pm cc m c
      by (simp add: clz_inv_def clz_step_def s power_add)
  next
    case False
    then have "2 ^ (LENGTH('a) - k) \<le> unat m" using lim by (simp add: word_le_nat_alt)
    then show ?thesis using False m c by (simp add: clz_inv_def clz_step_def s)
  qed
qed

definition clz_spec :: "'a::len word \<Rightarrow> nat \<Rightarrow> bool" where
  "clz_spec n c \<longleftrightarrow> c < LENGTH('a) \<and> 2 ^ (LENGTH('a) - 1 - c) \<le> unat n \<and> unat n < 2 ^ (LENGTH('a) - c)"

lemma clz_inv_spec:
  fixes n :: "'a::len word"
  assumes "clz_inv 1 n s"
  shows "clz_spec n (unat (snd s))"
proof -
  from assms have m: "unat (fst s) = unat n * 2 ^ unat (snd s)" and c: "unat (snd s) < LENGTH('a)"
    and top: "2 ^ (LENGTH('a) - 1) \<le> unat (fst s)" by (simp_all add: clz_inv_def)
  have "2 ^ (LENGTH('a) - 1 - unat (snd s)) * 2 ^ unat (snd s) \<le> unat n * 2 ^ unat (snd s)"
    using top c by (simp add: m power_add [symmetric])
  moreover have "unat n * 2 ^ unat (snd s) < 2 ^ (LENGTH('a) - unat (snd s)) * 2 ^ unat (snd s)"
    using unsigned_less [of "fst s", where 'a = nat] c by (simp add: m power_add [symmetric])
  ultimately show ?thesis using c by (simp add: clz_spec_def)
qed

lemma clz_start: "n \<noteq> 0 \<Longrightarrow> clz_inv LENGTH('a) n (n, 0)" for n :: "'a::len word"
  by (simp add: clz_inv_def unat_gt_0 Suc_leI)

lemma clz_u32_spec: "n \<noteq> 0 \<Longrightarrow> clz_spec n (unat (wah_clz_u32 n))"
  using clz_start [of n]
  by (simp only: wah_clz_u32_def if_False) (rule clz_inv_spec, (rule clz_step_inv)+, simp_all)

lemma clz_u64_spec: "n \<noteq> 0 \<Longrightarrow> clz_spec n (unat (wah_clz_u64 n))"
  using clz_start [of n]
  by (simp only: wah_clz_u64_def if_False) (rule clz_inv_spec, (rule clz_step_inv)+, simp_all)

lemma and_one_zero_iff: "n AND 1 = 0 \<longleftrightarrow> \<not> bit n 0" for n :: "'a::len word"
  by (simp add: and_one_eq bit_0 even_iff_mod_2_eq_zero)

lemma ctz_loop_counts:
  fixes n :: "'a::len word"
  assumes "n \<noteq> 0"
  shows "\<exists>k < LENGTH('a). bit n k \<and> (\<forall>i < k. \<not> bit n i) \<and> ctz_loop n count = count + word_of_nat k"
  using assms
proof (induction n count rule: ctz_loop.induct)
  case (1 n count)
  show ?case
  proof (cases "n AND 1 = (0 :: 'a word)")
    case True
    then have ev: "\<not> bit n 0" by (simp add: and_one_zero_iff)
    let ?h = "drop_bit 1 n"
    have "?h \<noteq> 0"
    proof
      assume "?h = 0"
      then have s: "\<not> bit n (Suc i)" for i
        using bit_drop_bit_eq [of 1 n] by (simp add: fun_eq_iff)
      have "\<not> bit n i" for i using ev s by (cases i) simp_all
      then have "n = 0" by (intro bit_eqI) simp
      with "1.prems" show False by simp
    qed
    from "1.IH" [OF _ this] True "1.prems" obtain k where k: "k < LENGTH('a)" "bit ?h k"
      "\<forall>i<k. \<not> bit ?h i" "ctz_loop ?h (count + 1) = count + 1 + word_of_nat k" by auto
    have "bit n (Suc k)" using k(2) by (simp add: bit_drop_bit_eq)
    moreover have "\<not> bit n i" if "i < Suc k" for i
      using that k(3) ev by (cases i) (auto simp: bit_drop_bit_eq)
    moreover have "ctz_loop n count = count + word_of_nat (Suc k)"
      using True "1.prems" k(4) by (subst ctz_loop.simps) (simp add: add.assoc)
    ultimately show ?thesis using bit_imp_le_length by blast
  next
    case False
    then have "bit n 0" by (simp add: and_one_zero_iff)
    then show ?thesis using False by (intro exI [of _ 0]) (simp add: ctz_loop.simps [of n count])
  qed
qed

section \<open>Rotations\<close>

lemma rotl_halves:
  assumes "0 < s" "s < LENGTH('a)"
  shows "push_bit s n OR drop_bit (LENGTH('a) - s) n = word_rotl s (n :: 'a::len word)"
proof (rule bit_word_eqI)
  fix i assume i: "i < LENGTH('a)"
  have sm: "s mod LENGTH('a) = s" using assms by simp
  show "bit (push_bit s n OR drop_bit (LENGTH('a) - s) n) i = bit (word_rotl s n) i"
  proof (cases "i < s")
    case True
    then have "(i + (LENGTH('a) - s)) mod LENGTH('a) = LENGTH('a) - s + i" using assms by simp
    then show ?thesis using True i assms by (simp add: bit_simps sm)
  next
    case False
    then have "(i + (LENGTH('a) - s)) mod LENGTH('a) = i - s" using assms i
      by (metis add.commute le_add_diff_inverse2 less_imp_le_nat linorder_not_le mod_add_self2 mod_less add_diff_assoc2 Nat.add_diff_assoc2 less_imp_diff_less)
    then show ?thesis using False i assms by (auto simp: bit_simps sm dest: bit_imp_le_length)
  qed
qed


lemma rotr_halves:
  assumes "0 < s" "s < LENGTH('a)"
  shows "drop_bit s n OR push_bit (LENGTH('a) - s) n = word_rotr s (n :: 'a::len word)"
proof (rule bit_word_eqI)
  fix i assume i: "i < LENGTH('a)"
  show "bit (drop_bit s n OR push_bit (LENGTH('a) - s) n) i = bit (word_rotr s n) i"
  proof (cases "i + s < LENGTH('a)")
    case True
    then show ?thesis using i assms by (auto simp: bit_simps add.commute)
  next
    case False
    then have "(i + s) mod LENGTH('a) = i + s - LENGTH('a)" using i assms by (simp add: mod_if)
    then show ?thesis using False i assms
      by (auto simp: bit_simps dest: bit_imp_le_length)
  qed
qed

lemma unat_sub_and:
  fixes s :: "'a::len word"
  assumes "unat s < unat L"
  shows "unat (L - s) = unat L - unat s"
  using assms by (simp add: unat_sub word_le_nat_alt)

lemma unat_and_31: "unat (s AND 31) = unat s mod 32" for s :: u32
  using take_bit_eq_mask [of 5 "unat s"]
  by (simp add: unsigned_and_eq take_bit_eq_mod mask_eq_exp_minus_1)

lemma unat_and_63: "unat (s AND 63) = unat s mod 64" for s :: u64
  using take_bit_eq_mask [of 6 "unat s"]
  by (simp add: unsigned_and_eq take_bit_eq_mod mask_eq_exp_minus_1)

lemma word_rotl_mod: "word_rotl (k mod LENGTH('a)) w = word_rotl k (w :: 'a::len word)"
  by (rule bit_word_eqI) (simp add: bit_simps)

lemma word_rotr_mod: "word_rotr (k mod LENGTH('a)) w = word_rotr k (w :: 'a::len word)"
  by (rule bit_word_eqI) (simp add: bit_simps mod_add_right_eq)

lemma word_rot_0: "word_rotl 0 w = w" "word_rotr 0 w = w" for w :: "'a::len word"
  by (rule bit_word_eqI, simp add: bit_simps)+

lemma and_zero_mod: "unat s = m \<Longrightarrow> s = 0 \<longleftrightarrow> m = 0"
  by (metis unat_eq_zero)

lemma rotl_u32: "wah_rotl_u32 n s = word_rotl (unat s) n"
proof (cases "s AND 31 = 0")
  case True
  then have "unat s mod 32 = 0" using unat_and_31 [of s] by simp
  then show ?thesis using True word_rotl_mod [of "unat s" n] word_rot_0(1) [of n]
    by (simp add: wah_rotl_u32_def)
next
  case False
  then have "0 < unat s mod 32" using unat_and_31 [of s] by (metis bot_nat_0.not_eq_extremum unat_eq_zero)
  moreover have "unat (32 - (s AND 31)) = 32 - unat s mod 32"
    by (subst unat_sub_and) (simp_all add: unat_and_31)
  ultimately show ?thesis using False rotl_halves [of "unat s mod 32" n] word_rotl_mod [of "unat s" n]
    by (simp add: wah_rotl_u32_def unat_and_31)
qed

lemma rotl_u64: "wah_rotl_u64 n s = word_rotl (unat s) n"
proof (cases "s AND 63 = 0")
  case True
  then have "unat s mod 64 = 0" using unat_and_63 [of s] by simp
  then show ?thesis using True word_rotl_mod [of "unat s" n] word_rot_0(1) [of n]
    by (simp add: wah_rotl_u64_def)
next
  case False
  then have "0 < unat s mod 64" using unat_and_63 [of s] by (metis bot_nat_0.not_eq_extremum unat_eq_zero)
  moreover have "unat (64 - (s AND 63)) = 64 - unat s mod 64"
    by (subst unat_sub_and) (simp_all add: unat_and_63)
  ultimately show ?thesis using False rotl_halves [of "unat s mod 64" n] word_rotl_mod [of "unat s" n]
    by (simp add: wah_rotl_u64_def unat_and_63)
qed

lemma rotr_u32: "wah_rotr_u32 n s = word_rotr (unat s) n"
proof (cases "s AND 31 = 0")
  case True
  then have "unat s mod 32 = 0" using unat_and_31 [of s] by simp
  then show ?thesis using True word_rotr_mod [of "unat s" n] word_rot_0(2) [of n]
    by (simp add: wah_rotr_u32_def)
next
  case False
  then have "0 < unat s mod 32" using unat_and_31 [of s] by (metis bot_nat_0.not_eq_extremum unat_eq_zero)
  moreover have "unat (32 - (s AND 31)) = 32 - unat s mod 32"
    by (subst unat_sub_and) (simp_all add: unat_and_31)
  ultimately show ?thesis using False rotr_halves [of "unat s mod 32" n] word_rotr_mod [of "unat s" n]
    by (simp add: wah_rotr_u32_def unat_and_31)
qed

lemma rotr_u64: "wah_rotr_u64 n s = word_rotr (unat s) n"
proof (cases "s AND 63 = 0")
  case True
  then have "unat s mod 64 = 0" using unat_and_63 [of s] by simp
  then show ?thesis using True word_rotr_mod [of "unat s" n] word_rot_0(2) [of n]
    by (simp add: wah_rotr_u64_def)
next
  case False
  then have "0 < unat s mod 64" using unat_and_63 [of s] by (metis bot_nat_0.not_eq_extremum unat_eq_zero)
  moreover have "unat (64 - (s AND 63)) = 64 - unat s mod 64"
    by (subst unat_sub_and) (simp_all add: unat_and_63)
  ultimately show ?thesis using False rotr_halves [of "unat s mod 64" n] word_rotr_mod [of "unat s" n]
    by (simp add: wah_rotr_u64_def unat_and_63)
qed

section \<open>Reference functions and properties\<close>

text \<open>The references: the bits of a word from the lowest to the highest, and the length of the run
  of zeros at either end of that list.\<close>

definition bits_of :: "'a::len word \<Rightarrow> bool list" where
  "bits_of w = map (bit w) [0..<LENGTH('a)]"

definition clz_ref :: "'a::len word \<Rightarrow> nat" where
  "clz_ref w = length (takeWhile Not (rev (bits_of w)))"

definition ctz_ref :: "'a::len word \<Rightarrow> nat" where
  "ctz_ref w = length (takeWhile Not (bits_of w))"

lemma length_takeWhile_eqI:
  assumes "c \<le> length xs" "\<And>i. i < c \<Longrightarrow> P (xs ! i)" "c < length xs \<Longrightarrow> \<not> P (xs ! c)"
  shows "length (takeWhile P xs) = c"
proof -
  have "takeWhile P xs = take c xs"
    by (rule takeWhile_eq_take_P_nth) (use assms in auto)
  then show ?thesis using assms(1) by simp
qed

lemma length_bits_of [simp]: "length (bits_of (w :: 'a::len word)) = LENGTH('a)"
  by (simp add: bits_of_def)

lemma bits_of_nth [simp]: "i < LENGTH('a) \<Longrightarrow> bits_of (w :: 'a::len word) ! i = bit w i"
  by (simp add: bits_of_def)

lemma bits_of_0: "bits_of (0 :: 'a::len word) = replicate LENGTH('a) False"
  by (rule nth_equalityI) simp_all

lemma zero_refs: "clz_ref (0 :: 'a::len word) = LENGTH('a)" "ctz_ref (0 :: 'a::len word) = LENGTH('a)"
  by (simp_all add: clz_ref_def ctz_ref_def bits_of_0)

lemma clz_spec_ref:
  fixes n :: "'a::len word"
  assumes "clz_spec n c"
  shows "clz_ref n = c"
proof -
  from assms have c: "c < LENGTH('a)" and lo: "2 ^ (LENGTH('a) - 1 - c) \<le> unat n"
    and hi: "unat n < 2 ^ (LENGTH('a) - c)" by (simp_all add: clz_spec_def)
  have above: "\<not> bit n i" if "LENGTH('a) - c \<le> i" for i
    using nat_bit_bound [OF hi, of i] that by (auto simp: bit_unsigned_iff)
  have top: "bit n (LENGTH('a) - 1 - c)"
  proof -
    have "(unat n) div 2 ^ (LENGTH('a) - 1 - c) = 1"
    proof (rule div_nat_eqI)
      show "2 ^ (LENGTH('a) - 1 - c) * 1 \<le> unat n" using lo by simp
      have "2 ^ (LENGTH('a) - c) = 2 ^ (LENGTH('a) - 1 - c) * (2::nat)"
        using c by (metis Suc_diff_Suc diff_Suc_1 diff_commute mult.commute power_Suc diff_Suc_eq_diff_pred)
      then show "unat n < 2 ^ (LENGTH('a) - 1 - c) * Suc 1" using hi by simp
    qed
    then have "bit (unat n) (LENGTH('a) - 1 - c)" by (simp add: bit_iff_odd)
    then show ?thesis by (simp add: bit_unsigned_iff)
  qed
  show ?thesis
    unfolding clz_ref_def
    by (rule length_takeWhile_eqI) (use c above top in \<open>auto simp: rev_nth\<close>)
qed

lemma clz_zero: "wah_clz_u32 0 = 32" "wah_clz_u64 0 = 64"
  by (simp_all add: wah_clz_u32_def wah_clz_u64_def)

lemma ctz_ref_lowest:
  fixes n :: "'a::len word"
  assumes "k < LENGTH('a)" "bit n k" "\<And>i. i < k \<Longrightarrow> \<not> bit n i"
  shows "ctz_ref n = k"
  unfolding ctz_ref_def by (rule length_takeWhile_eqI) (use assms in auto)

lemma ctz_loop_ref: "n \<noteq> 0 \<Longrightarrow> ctz_loop n 0 = word_of_nat (ctz_ref n) \<and> ctz_ref n < LENGTH('a)"
  for n :: "'a::len word"
  using ctz_loop_counts [of n 0] ctz_ref_lowest [of _ n] by auto

text \<open>The shift-and-mask population counts for 32 and 64 bits and the clear-lowest-bit loop for
  bytes return the number of set bits of their argument.\<close>

lemma popcount_correct:
  "unat (wah_popcount_u32 a) = popcount_spec a \<and> unat (wah_popcount_u64 b) = popcount_spec b
     \<and> unat (wah_popcount_u8 c) = popcount_spec c"
  using popcount_u32_bits popcount_u64_bits popcount_u8_bits by simp

text \<open>The binary-search leading-zero counts and the trailing-zero loops return the number of
  leading (trailing) zero bits, which is the full width for zero.\<close>

lemma clz_ctz_correct:
  "unat (wah_clz_u32 a) = clz_ref a \<and> unat (wah_clz_u64 b) = clz_ref b
     \<and> unat (wah_ctz_u32 a) = ctz_ref a \<and> unat (wah_ctz_u64 b) = ctz_ref b"
proof (intro conjI)
  show "unat (wah_clz_u32 a) = clz_ref a"
    using zero_refs(1) [where 'a = 32] by (cases "a = 0") (simp_all add: clz_zero clz_spec_ref [OF clz_u32_spec])
  show "unat (wah_clz_u64 b) = clz_ref b"
    using zero_refs(1) [where 'a = 64] by (cases "b = 0") (simp_all add: clz_zero clz_spec_ref [OF clz_u64_spec])
  show "unat (wah_ctz_u32 a) = ctz_ref a"
    using ctz_loop_ref [of a] by (cases "a = 0") (simp_all add: zero_refs wah_ctz_u32_def unat_of_nat)
  show "unat (wah_ctz_u64 b) = ctz_ref b"
    using ctz_loop_ref [of b] by (cases "b = 0") (simp_all add: zero_refs wah_ctz_u64_def unat_of_nat)
qed

text \<open>The rotations written with two shifts, which mask the count and treat a zero count apart,
  are the rotations of the word library for every count; rotating left and then right by the same
  count gives the argument back.\<close>

lemma rotations_correct:
  "wah_rotl_u32 a s = word_rotl (unat s) a \<and> wah_rotr_u32 a s = word_rotr (unat s) a
     \<and> wah_rotl_u64 b t = word_rotl (unat t) b \<and> wah_rotr_u64 b t = word_rotr (unat t) b
     \<and> wah_rotr_u32 (wah_rotl_u32 a s) s = a \<and> wah_rotr_u64 (wah_rotl_u64 b t) t = b"
  by (simp add: rotl_u32 rotr_u32 rotl_u64 rotr_u64)

end
