(* ===== verification/Wah_Module.thy ===== *)
theory Wah_Module
  imports Wah_Prelude
begin

text \<open>
  The data model of a module: the compact type encoding (\<open>wah_type_t\<close> and its macros), the feature
  bitmap, the structs that the parser fills, and the index-space helpers that look a function, table,
  memory, global or tag up across the imported and the defined entries. A pointer with a count is a
  list; a pointer that may be \<open>NULL\<close> is an \<open>option\<close>; \<open>uint32_t\<close> indices and counts are \<open>nat\<close>, with
  the wrap-around written out where two counts are added.
\<close>

section \<open>Compact types\<close>

type_synonym wah_type = int

abbreviation (input) "WAH_TYPE_I32 \<equiv> -2 :: wah_type"
abbreviation (input) "WAH_TYPE_I64 \<equiv> -4 :: wah_type"
abbreviation (input) "WAH_TYPE_F32 \<equiv> -6 :: wah_type"
abbreviation (input) "WAH_TYPE_F64 \<equiv> -8 :: wah_type"
abbreviation (input) "WAH_TYPE_V128 \<equiv> -10 :: wah_type"
abbreviation (input) "WAH_TYPE_PACKED_I8 \<equiv> -16 :: wah_type"
abbreviation (input) "WAH_TYPE_PACKED_I16 \<equiv> -18 :: wah_type"
abbreviation (input) "WAH_TYPE_FUNC \<equiv> -32 :: wah_type"
abbreviation (input) "WAH_TYPE_FUNCREF \<equiv> -31 :: wah_type"
abbreviation (input) "WAH_TYPE_EXTERN \<equiv> -34 :: wah_type"
abbreviation (input) "WAH_TYPE_EXTERNREF \<equiv> -33 :: wah_type"
abbreviation (input) "WAH_TYPE_ANY \<equiv> -36 :: wah_type"
abbreviation (input) "WAH_TYPE_EQ \<equiv> -38 :: wah_type"
abbreviation (input) "WAH_TYPE_I31 \<equiv> -40 :: wah_type"
abbreviation (input) "WAH_TYPE_STRUCT \<equiv> -42 :: wah_type"
abbreviation (input) "WAH_TYPE_ARRAY \<equiv> -44 :: wah_type"
abbreviation (input) "WAH_TYPE_EXN \<equiv> -46 :: wah_type"
abbreviation (input) "WAH_TYPE_EXNREF \<equiv> -45 :: wah_type"
abbreviation (input) "WAH_TYPE_NOFUNC \<equiv> -48 :: wah_type"
abbreviation (input) "WAH_TYPE_NOEXTERN \<equiv> -50 :: wah_type"
abbreviation (input) "WAH_TYPE_NONE \<equiv> -52 :: wah_type"
abbreviation (input) "WAH_TYPE_NOEXN \<equiv> -54 :: wah_type"
abbreviation (input) "WAH_TYPE_NULLEXNREF \<equiv> -53 :: wah_type"
abbreviation (input) "WAH_TYPE_BOT \<equiv> -99 :: wah_type"

definition WAH_TYPE_IS_NULLABLE :: "wah_type \<Rightarrow> bool" where
  "WAH_TYPE_IS_NULLABLE t \<longleftrightarrow> t AND 1 \<noteq> 0"

definition WAH_TYPE_AS_NULLABLE :: "wah_type \<Rightarrow> wah_type" where
  "WAH_TYPE_AS_NULLABLE t = t OR 1"

definition WAH_TYPE_AS_NON_NULL :: "wah_type \<Rightarrow> wah_type" where
  "WAH_TYPE_AS_NON_NULL t = t AND NOT 1"

definition WAH_TYPE_IS_PACKED :: "wah_type \<Rightarrow> bool" where
  "WAH_TYPE_IS_PACKED t \<longleftrightarrow> t = WAH_TYPE_PACKED_I8 \<or> t = WAH_TYPE_PACKED_I16"

definition WAH_TYPE_IS_REF :: "wah_type \<Rightarrow> bool" where
  "WAH_TYPE_IS_REF t \<longleftrightarrow> (t \<le> -31 \<and> t \<ge> -54) \<or> t \<ge> 0"

definition WAH_TYIDX :: "wah_type \<Rightarrow> nat" where
  "WAH_TYIDX t = nat (drop_bit 1 (take_bit 32 t))"

definition WAH_TYPE_FROM_IDX :: "nat \<Rightarrow> bool \<Rightarrow> wah_type" where
  "WAH_TYPE_FROM_IDX i null = signed_take_bit 31 (int i * 2 + of_bool null)"

definition WAH_MAX_TYPE_INDEX :: nat where
  "WAH_MAX_TYPE_INDEX = 2 ^ 30 - 1"

lemma is_nullable_odd [simp]: "WAH_TYPE_IS_NULLABLE t \<longleftrightarrow> odd t"
  by (simp add: WAH_TYPE_IS_NULLABLE_def and_one_eq odd_iff_mod_2_eq_one)

lemma as_nullable_eq: "WAH_TYPE_AS_NULLABLE t = (if even t then t + 1 else t)"
  by (simp add: WAH_TYPE_AS_NULLABLE_def or_one_eq)

lemma as_non_null_eq: "WAH_TYPE_AS_NON_NULL t = (if even t then t else t - 1)"
proof -
  have "t AND NOT 1 = t - t mod 2"
    by (subst and_rec) (simp add: not_int_def minus_mod_eq_mult_div)
  then show ?thesis
    by (simp add: WAH_TYPE_AS_NON_NULL_def even_iff_mod_2_eq_zero odd_iff_mod_2_eq_one)
qed

lemma from_idx_eq: "i \<le> WAH_MAX_TYPE_INDEX \<Longrightarrow> WAH_TYPE_FROM_IDX i null = int i * 2 + of_bool null"
  unfolding WAH_TYPE_FROM_IDX_def WAH_MAX_TYPE_INDEX_def
  by (subst signed_take_bit_int_eq_self) auto

lemma tyidx_eq: "0 \<le> t \<Longrightarrow> t < 2 ^ 31 \<Longrightarrow> WAH_TYIDX t = nat t div 2"
  by (simp add: WAH_TYIDX_def drop_bit_eq_div take_bit_eq_mod nat_div_distrib)

lemma from_idx_nonneg: "i \<le> WAH_MAX_TYPE_INDEX \<Longrightarrow> 0 \<le> WAH_TYPE_FROM_IDX i null"
  by (simp add: from_idx_eq)

lemma tyidx_from_idx: "i \<le> WAH_MAX_TYPE_INDEX \<Longrightarrow> WAH_TYIDX (WAH_TYPE_FROM_IDX i null) = i"
  by (subst tyidx_eq) (auto simp: from_idx_eq WAH_MAX_TYPE_INDEX_def)

lemma nullable_from_idx: "i \<le> WAH_MAX_TYPE_INDEX \<Longrightarrow> WAH_TYPE_IS_NULLABLE (WAH_TYPE_FROM_IDX i null) = null"
  by (simp add: from_idx_eq)

section \<open>Features\<close>

abbreviation (input) "WAH_FEATURE_SHIFT_MULTI_VALUE \<equiv> 1 :: nat"
abbreviation (input) "WAH_FEATURE_SHIFT_MUTABLE_GLOBALS \<equiv> 2 :: nat"
abbreviation (input) "WAH_FEATURE_SHIFT_SIGN_EXT \<equiv> 3 :: nat"
abbreviation (input) "WAH_FEATURE_SHIFT_NONTRAPPING_F2I \<equiv> 4 :: nat"
abbreviation (input) "WAH_FEATURE_SHIFT_BULK_MEMORY \<equiv> 5 :: nat"
abbreviation (input) "WAH_FEATURE_SHIFT_REF_TYPES \<equiv> 6 :: nat"
abbreviation (input) "WAH_FEATURE_SHIFT_SIMD \<equiv> 7 :: nat"
abbreviation (input) "WAH_FEATURE_SHIFT_TAIL_CALL \<equiv> 8 :: nat"
abbreviation (input) "WAH_FEATURE_SHIFT_EXCEPTION \<equiv> 9 :: nat"
abbreviation (input) "WAH_FEATURE_SHIFT_GC \<equiv> 10 :: nat"
abbreviation (input) "WAH_FEATURE_SHIFT_TYPED_FUNCREF \<equiv> 11 :: nat"
abbreviation (input) "WAH_FEATURE_SHIFT_MEMORY64 \<equiv> 12 :: nat"
abbreviation (input) "WAH_FEATURE_SHIFT_RELAXED_SIMD \<equiv> 13 :: nat"
abbreviation (input) "WAH_FEATURE_SHIFT_EXTENDED_CONST \<equiv> 14 :: nat"
abbreviation (input) "WAH_FEATURE_SHIFT_MULTI_MEMORY \<equiv> 15 :: nat"

definition wah_feature_closure :: "u64 \<Rightarrow> u64" where
  "wah_feature_closure f0 =
    (let f1 = (if f0 AND push_bit 13 1 \<noteq> 0 then f0 OR push_bit 7 1 else f0);
         f2 = (if f1 AND (push_bit 10 1 OR push_bit 11 1) \<noteq> 0 then f1 OR push_bit 6 1 else f1)
     in f2 OR 1)"

section \<open>Structs\<close>

datatype wah_comp_type_kind = WAH_COMP_FUNC | WAH_COMP_STRUCT | WAH_COMP_ARRAY

record wah_func_type =
  ft_param_types :: "wah_type list"
  ft_result_types :: "wah_type list"

text \<open>\<open>td_supertype\<close> is \<open>None\<close> for \<open>WAH_NO_SUPERTYPE\<close>.\<close>

record wah_type_def =
  td_kind :: wah_comp_type_kind
  td_is_final :: bool
  td_non_defaultable :: bool
  td_supertype :: "nat option"
  td_field_types :: "wah_type list"
  td_field_mutables :: "bool list"
  td_rec_group_start :: nat
  td_rec_group_size :: nat

datatype wah_repr_type = WAH_REPR_STRUCT | WAH_REPR_ARRAY

abbreviation (input) "WAH_REPR_NONE \<equiv> -0x40 :: int"
abbreviation (input) "WAH_REPR_REF \<equiv> -0x41 :: int"

record wah_repr_field =
  rf_offset :: nat
  rf_repr_id :: int

record wah_repr_info =
  ri_type :: wah_repr_type
  ri_typeidx :: nat
  ri_size :: nat
  ri_fields :: "wah_repr_field list"

record wah_memory_type_t =
  mt_addr_type :: wah_type
  mt_min_pages :: nat
  mt_max_pages :: nat

record wah_table_type_t =
  tt_elem_type :: wah_type
  tt_addr_type :: wah_type
  tt_min_elements :: nat
  tt_max_elements :: nat

record wah_import_name =
  in_module :: bytes
  in_field :: bytes

record wah_func_import =
  fi_name :: wah_import_name
  fi_type_index :: nat

record wah_table_import =
  ti_name :: wah_import_name
  ti_type :: wah_table_type_t

record wah_memory_import =
  mi_name :: wah_import_name
  mi_type :: wah_memory_type_t

record wah_global_import =
  gi_name :: wah_import_name
  gi_type :: wah_type
  gi_is_mutable :: bool

record wah_tag_import =
  tgi_name :: wah_import_name
  tgi_type_index :: nat

record wah_import_desc =
  id_kind :: nat
  id_name :: wah_import_name
  id_index :: nat

record wah_export =
  exp_name :: bytes
  exp_kind :: nat
  exp_index :: nat

record wah_global =
  glob_type :: wah_type
  glob_is_mutable :: bool

record wah_local_run =
  run_end :: nat
  run_type :: wah_type

text \<open>The lowered expressions of a segment (\<open>offset_expr\<close>, \<open>u.expr\<close>) are not part of the model.\<close>

record wah_element_segment =
  es_is_active :: bool
  es_is_declarative :: bool
  es_table_idx :: nat
  es_num_elems :: nat
  es_is_expr_elem :: bool
  es_elem_type :: wah_type
  es_func_indices :: "nat list"

record wah_data_segment =
  ds_flags :: nat
  ds_memory_idx :: nat
  ds_data :: bytes

record wah_module =
  enabled_features :: u64
  required_features :: u64
  types :: "wah_func_type list"
  type_defs :: "wah_type_def list"
  types_cap :: nat
  canonical_map :: "nat list option"
  typeidx_to_repr :: "int list option"
  repr_infos :: "wah_repr_info list"
  mod_imports :: "wah_import_desc list"
  func_imports :: "wah_func_import list"
  table_imports :: "wah_table_import list"
  memory_imports :: "wah_memory_import list"
  global_imports :: "wah_global_import list"
  tag_imports :: "wah_tag_import list"
  function_type_indices :: "nat list"
  tables :: "wah_table_type_t list"
  memories :: "wah_memory_type_t list"
  globals :: "wah_global list"
  tags :: "nat list"
  exports :: "wah_export list"
  export_order :: "nat list"
  has_start_function :: bool
  start_function_idx :: nat
  has_data_count_section :: bool
  data_segment_count :: nat
  declared_funcs :: "bytes option"
  element_segments :: "wah_element_segment list"
  data_segments :: "wah_data_segment list"
  min_data_segment_count_required :: nat
  fuel_metering :: bool

definition wah_module_zero :: wah_module where
  "wah_module_zero = \<lparr> enabled_features = 0, required_features = 0, types = [], type_defs = [],
     types_cap = 0, canonical_map = None, typeidx_to_repr = None, repr_infos = [], mod_imports = [],
     func_imports = [], table_imports = [], memory_imports = [], global_imports = [],
     tag_imports = [], function_type_indices = [], tables = [], memories = [], globals = [],
     tags = [], exports = [], export_order = [], has_start_function = False,
     start_function_idx = 0, has_data_count_section = False, data_segment_count = 0,
     declared_funcs = None, element_segments = [], data_segments = [],
     min_data_segment_count_required = 0, fuel_metering = False \<rparr>"

text \<open>\<open>wah_require_feature\<close> records the feature in the module even when it is disabled; the module of a
  failed parse is freed and zeroed, so the model carries the record on success only.\<close>

definition wah_require_feature :: "wah_module \<Rightarrow> nat \<Rightarrow> wah_module res" where
  "wah_require_feature m shift =
    (if shift = 0 then Inr m
     else let bt = push_bit shift (1 :: u64);
              m' = m\<lparr>required_features := required_features m OR bt\<rparr>
          in if enabled_features m AND bt \<noteq> 0 then Inr m' else Inl WAH_ERROR_DISABLED_FEATURE)"

definition wah_require_type_features :: "wah_module \<Rightarrow> wah_type \<Rightarrow> wah_module res" where
  "wah_require_type_features m t =
    (if t = WAH_TYPE_V128 then wah_require_feature m WAH_FEATURE_SHIFT_SIMD
     else if \<not> WAH_TYPE_IS_REF t then Inr m
     else WAH_CHECK (if t \<ge> 0 \<or> \<not> WAH_TYPE_IS_NULLABLE t
                     then wah_require_feature m WAH_FEATURE_SHIFT_TYPED_FUNCREF else Inr m) (\<lambda>m.
       let n = WAH_TYPE_AS_NULLABLE t in
       if n = WAH_TYPE_EXNREF \<or> n = WAH_TYPE_NULLEXNREF then wah_require_feature m WAH_FEATURE_SHIFT_EXCEPTION
       else if n = WAH_TYPE_FUNCREF \<or> n = WAH_TYPE_EXTERNREF then wah_require_feature m WAH_FEATURE_SHIFT_REF_TYPES
       else WAH_CHECK (if t < 0 then wah_require_feature m WAH_FEATURE_SHIFT_GC else Inr m) (\<lambda>m.
         wah_require_feature m WAH_FEATURE_SHIFT_REF_TYPES)))"

section \<open>Index spaces\<close>

text \<open>Sums of two \<open>uint32_t\<close> counts wrap around.\<close>

definition u32_add :: "nat \<Rightarrow> nat \<Rightarrow> nat" where
  "u32_add a b = (a + b) mod 2 ^ 32"

definition wah_func_index_limit :: "wah_module \<Rightarrow> nat" where
  "wah_func_index_limit m = u32_add (length (func_imports m)) (length (function_type_indices m))"

definition wah_table_index_limit :: "wah_module \<Rightarrow> nat" where
  "wah_table_index_limit m = u32_add (length (table_imports m)) (length (tables m))"

definition wah_memory_index_limit :: "wah_module \<Rightarrow> nat" where
  "wah_memory_index_limit m = u32_add (length (memory_imports m)) (length (memories m))"

definition wah_global_index_limit :: "wah_module \<Rightarrow> nat" where
  "wah_global_index_limit m = u32_add (length (global_imports m)) (length (globals m))"

definition wah_table_type :: "wah_module \<Rightarrow> nat \<Rightarrow> wah_table_type_t" where
  "wah_table_type m idx = (if idx < length (table_imports m) then ti_type (table_imports m ! idx)
     else tables m ! (idx - length (table_imports m)))"

definition wah_memory_type :: "wah_module \<Rightarrow> nat \<Rightarrow> wah_memory_type_t" where
  "wah_memory_type m idx = (if idx < length (memory_imports m) then mi_type (memory_imports m ! idx)
     else memories m ! (idx - length (memory_imports m)))"

definition wah_memory_max_pages :: "wah_memory_type_t \<Rightarrow> nat" where
  "wah_memory_max_pages mt =
    (let page_limit = (if mt_addr_type mt = WAH_TYPE_I32 then 65536 else 2 ^ 48)
     in if mt_max_pages mt > page_limit then page_limit else mt_max_pages mt)"

definition wah_table_max_size :: "wah_table_type_t \<Rightarrow> nat" where
  "wah_table_max_size tt =
    (let limit = (if tt_addr_type tt = WAH_TYPE_I32 then 2 ^ 32 - 1 else 2 ^ 64 - 1)
     in if tt_max_elements tt > limit then limit else tt_max_elements tt)"

definition wah_global_type :: "wah_module \<Rightarrow> nat \<Rightarrow> wah_type" where
  "wah_global_type m idx = (if idx < length (global_imports m) then gi_type (global_imports m ! idx)
     else glob_type (globals m ! (idx - length (global_imports m))))"

definition wah_global_is_mutable :: "wah_module \<Rightarrow> nat \<Rightarrow> bool" where
  "wah_global_is_mutable m idx = (if idx < length (global_imports m) then gi_is_mutable (global_imports m ! idx)
     else glob_is_mutable (globals m ! (idx - length (global_imports m))))"

definition wah_tag_type_index :: "wah_module \<Rightarrow> nat \<Rightarrow> nat" where
  "wah_tag_type_index m idx = (if idx < length (tag_imports m) then tgi_type_index (tag_imports m ! idx)
     else tags m ! (idx - length (tag_imports m)))"

text \<open>Even when the sum of the counts wraps, an index below the limit selects an existing entry.\<close>

lemma u32_add_in_range:
  assumes "idx < u32_add a b" "a < 2 ^ 32" "b < 2 ^ 32" "\<not> idx < a"
  shows "idx - a < b"
proof (cases "a + b < 2 ^ 32")
  case True
  then show ?thesis using assms by (simp add: u32_add_def)
next
  case False
  then have "(a + b) mod 2 ^ 32 = a + b - 2 ^ 32" using assms(2,3) by (simp add: mod_if)
  then show ?thesis using assms by (simp add: u32_add_def)
qed

section \<open>Declared functions\<close>

text \<open>The bitmap of functions that \<open>ref.func\<close> may name: one bit per function index, allocated on the
  first declaration.\<close>

definition wah_declare_func :: "wah_module \<Rightarrow> nat \<Rightarrow> wah_module" where
  "wah_declare_func m func_idx =
    (case declared_funcs m of
       None \<Rightarrow> let total = wah_func_index_limit m in
         if total = 0 then m
         else let bm = replicate (u32_add total 7 div 8) 0 in
           m\<lparr>declared_funcs := Some (bm[func_idx div 8 := bm ! (func_idx div 8) OR push_bit (func_idx mod 8) 1])\<rparr>
     | Some bm \<Rightarrow>
         m\<lparr>declared_funcs := Some (bm[func_idx div 8 := bm ! (func_idx div 8) OR push_bit (func_idx mod 8) 1])\<rparr>)"

definition wah_is_func_declared :: "wah_module \<Rightarrow> nat \<Rightarrow> bool" where
  "wah_is_func_declared m func_idx =
    (case declared_funcs m of None \<Rightarrow> False
     | Some bm \<Rightarrow> bm ! (func_idx div 8) AND push_bit (func_idx mod 8) 1 \<noteq> 0)"

end
