(* ===== verification/Wah_Decode.thy ===== *)
theory Wah_Decode
  imports Wah_Module
begin

text \<open>
  The parsing utilities of \<open>wah.h\<close>: little-endian loads and stores, LEB128 integers, memargs, opcodes,
  type encodings, counts and UTF-8. The lemmas relate the bit-level loops to mathematical decoders,
  give round trips with reference encoders, and show that every decoder consumes a non-empty prefix
  of its input on which alone its result depends.
\<close>

section \<open>Little-endian words\<close>

text \<open>A load reads from the first bytes of a list, a store returns the bytes that it writes.\<close>

definition wah_read_u8_le :: "bytes \<Rightarrow> u8" where
  "wah_read_u8_le p = p ! 0"

definition wah_write_u8_le :: "u8 \<Rightarrow> bytes" where
  "wah_write_u8_le val = [val]"

definition wah_read_u16_le :: "bytes \<Rightarrow> u16" where
  "wah_read_u16_le p = push_bit 0 (ucast (p ! 0)) OR push_bit 8 (ucast (p ! 1))"

definition wah_write_u16_le :: "u16 \<Rightarrow> bytes" where
  "wah_write_u16_le val = [ucast (drop_bit 0 val), ucast (drop_bit 8 val)]"

definition wah_read_u32_le :: "bytes \<Rightarrow> u32" where
  "wah_read_u32_le p = push_bit 0 (ucast (p ! 0)) OR push_bit 8 (ucast (p ! 1))
     OR push_bit 16 (ucast (p ! 2)) OR push_bit 24 (ucast (p ! 3))"

definition wah_write_u32_le :: "u32 \<Rightarrow> bytes" where
  "wah_write_u32_le val = [ucast (drop_bit 0 val), ucast (drop_bit 8 val),
     ucast (drop_bit 16 val), ucast (drop_bit 24 val)]"

definition wah_read_u64_le :: "bytes \<Rightarrow> u64" where
  "wah_read_u64_le p = push_bit 0 (ucast (p ! 0)) OR push_bit 8 (ucast (p ! 1))
     OR push_bit 16 (ucast (p ! 2)) OR push_bit 24 (ucast (p ! 3))
     OR push_bit 32 (ucast (p ! 4)) OR push_bit 40 (ucast (p ! 5))
     OR push_bit 48 (ucast (p ! 6)) OR push_bit 56 (ucast (p ! 7))"

definition wah_write_u64_le :: "u64 \<Rightarrow> bytes" where
  "wah_write_u64_le val = [ucast (drop_bit 0 val), ucast (drop_bit 8 val),
     ucast (drop_bit 16 val), ucast (drop_bit 24 val), ucast (drop_bit 32 val),
     ucast (drop_bit 40 val), ucast (drop_bit 48 val), ucast (drop_bit 56 val)]"

section \<open>LEB128\<close>

text \<open>The loops carry the accumulated value and the shift; the first argument is the number of rounds
  that are left, so that the last round (\<open>i == 9\<close> in the 64-bit loop) is the one with none after it.\<close>

fun uleb128_loop :: "nat \<Rightarrow> u64 \<Rightarrow> nat \<Rightarrow> bytes \<Rightarrow> (u32 \<times> bytes) res" where
  "uleb128_loop 0 val shift bs = Inl WAH_ERROR_TOO_LARGE"
| "uleb128_loop (Suc k) val shift [] = Inl WAH_ERROR_UNEXPECTED_EOF"
| "uleb128_loop (Suc k) val shift (b # bs) =
    (let val' = val OR push_bit shift (ucast (b AND 0x7F)) in
     if b AND 0x80 = 0 then WAH_ENSURE (val' \<le> 0xFFFFFFFF) WAH_ERROR_TOO_LARGE (Inr (ucast val', bs))
     else uleb128_loop k val' (shift + 7) bs)"

definition wah_decode_uleb128 :: "bytes \<Rightarrow> (u32 \<times> bytes) res" where
  "wah_decode_uleb128 bs = uleb128_loop 5 0 0 bs"

fun uleb128_64_loop :: "nat \<Rightarrow> u64 \<Rightarrow> nat \<Rightarrow> bytes \<Rightarrow> (u64 \<times> bytes) res" where
  "uleb128_64_loop 0 val shift bs = Inl WAH_ERROR_TOO_LARGE"
| "uleb128_64_loop (Suc k) val shift [] = Inl WAH_ERROR_UNEXPECTED_EOF"
| "uleb128_64_loop (Suc k) val shift (b # bs) =
    (let val' = val OR push_bit shift (ucast (b AND 0x7F)) in
     if b AND 0x80 = 0 then (if k = 0 \<and> b > 1 then Inl WAH_ERROR_TOO_LARGE else Inr (val', bs))
     else uleb128_64_loop k val' (shift + 7) bs)"

definition wah_decode_uleb128_64 :: "bytes \<Rightarrow> (u64 \<times> bytes) res" where
  "wah_decode_uleb128_64 bs = uleb128_64_loop 10 0 0 bs"

text \<open>Sign extension of a value that has \<open>shift\<close> bits.\<close>

definition leb_sign_extend :: "u64 \<Rightarrow> nat \<Rightarrow> u64" where
  "leb_sign_extend val shift =
    (if val AND push_bit (shift - 1) 1 \<noteq> 0 then val OR push_bit shift (NOT 0) else val)"

fun sleb128_32_loop :: "nat \<Rightarrow> u64 \<Rightarrow> nat \<Rightarrow> bytes \<Rightarrow> (int \<times> bytes) res" where
  "sleb128_32_loop 0 val shift bs = Inl WAH_ERROR_TOO_LARGE"
| "sleb128_32_loop (Suc k) val shift [] = Inl WAH_ERROR_UNEXPECTED_EOF"
| "sleb128_32_loop (Suc k) val shift (b # bs) =
    (let val' = val OR push_bit shift (ucast (b AND 0x7F)); shift' = shift + 7 in
     if b AND 0x80 = 0 then
       (let val'' = (if shift' < 64 then leb_sign_extend val' shift' else val') in
        WAH_ENSURE (- (2 ^ 31) \<le> sint val'' \<and> sint val'' \<le> 2 ^ 31 - 1) WAH_ERROR_TOO_LARGE
          (Inr (sint (ucast val'' :: u32), bs)))
     else sleb128_32_loop k val' shift' bs)"

definition wah_decode_sleb128_32 :: "bytes \<Rightarrow> (int \<times> bytes) res" where
  "wah_decode_sleb128_32 bs = sleb128_32_loop 5 0 0 bs"

fun sleb128_64_loop :: "u64 \<Rightarrow> nat \<Rightarrow> bytes \<Rightarrow> (int \<times> bytes) res" where
  "sleb128_64_loop val shift [] = Inl WAH_ERROR_UNEXPECTED_EOF"
| "sleb128_64_loop val shift (b # bs) =
    WAH_ENSURE (shift < 64) WAH_ERROR_TOO_LARGE
     (let val' = val OR push_bit shift (ucast (b AND 0x7F)); shift' = shift + 7 in
      if b AND 0x80 \<noteq> 0 then sleb128_64_loop val' shift' bs
      else if shift' = 70 then
        WAH_ENSURE (b = 0x00 \<or> b = 0x7F) WAH_ERROR_TOO_LARGE (Inr (sint val', bs))
      else if shift' < 64 then Inr (sint (leb_sign_extend val' shift'), bs)
      else Inr (sint val', bs))"

definition wah_decode_sleb128_64 :: "bytes \<Rightarrow> (int \<times> bytes) res" where
  "wah_decode_sleb128_64 bs = sleb128_64_loop 0 0 bs"

section \<open>Memargs and opcodes\<close>

record wah_memarg =
  ma_align :: u32
  ma_memidx :: u32
  ma_offset :: u64

definition wah_decode_memarg :: "wah_module \<Rightarrow> bytes \<Rightarrow> (wah_memarg \<times> wah_module \<times> bytes) res" where
  "wah_decode_memarg m bs =
    WAH_CHECK (wah_decode_uleb128 bs) (\<lambda>(align, bs).
    WAH_ENSURE (align < 128) WAH_ERROR_MALFORMED (
    WAH_CHECK (if align \<ge> 64
               then WAH_CHECK (wah_require_feature m WAH_FEATURE_SHIFT_MULTI_MEMORY) (\<lambda>m.
                    WAH_CHECK (wah_decode_uleb128 bs) (\<lambda>(memidx, bs). Inr (align - 64, memidx, m, bs)))
               else Inr (align, 0, m, bs)) (\<lambda>(align, memidx, m, bs).
    WAH_CHECK (wah_decode_uleb128_64 bs) (\<lambda>(offset, bs).
    Inr (\<lparr>ma_align = align, ma_memidx = memidx, ma_offset = offset\<rparr>, m, bs)))))"

abbreviation (input) "WAH_FB \<equiv> 0xd7 :: nat"
abbreviation (input) "WAH_FC \<equiv> 0xf6 :: nat"
abbreviation (input) "WAH_FD \<equiv> 0x108 :: nat"
abbreviation (input) "WAH_FE \<equiv> 0x21c :: nat"

definition wah_decode_opcode :: "bytes \<Rightarrow> (nat \<times> bytes) res" where
  "wah_decode_opcode bs =
    (case bs of [] \<Rightarrow> Inl WAH_ERROR_UNEXPECTED_EOF
     | first_byte # bs \<Rightarrow>
       if first_byte = 0xFB then
         WAH_CHECK (wah_decode_uleb128 bs) (\<lambda>(sub_op, bs).
         WAH_ENSURE (unat sub_op < WAH_FC - WAH_FB) WAH_ERROR_VALIDATION_FAILED (Inr (WAH_FB + unat sub_op, bs)))
       else if first_byte = 0xFC then
         WAH_CHECK (wah_decode_uleb128 bs) (\<lambda>(sub_op, bs).
         WAH_ENSURE (unat sub_op < WAH_FD - WAH_FC) WAH_ERROR_VALIDATION_FAILED (Inr (WAH_FC + unat sub_op, bs)))
       else if first_byte = 0xFD then
         WAH_CHECK (wah_decode_uleb128 bs) (\<lambda>(sub_op, bs).
         WAH_ENSURE (unat sub_op < WAH_FE - WAH_FD) WAH_ERROR_VALIDATION_FAILED (Inr (WAH_FD + unat sub_op, bs)))
       else WAH_ENSURE (unat first_byte < WAH_FB) WAH_ERROR_MALFORMED (Inr (unat first_byte, bs)))"

section \<open>Type encodings\<close>

definition wah_decode_abstract_heap_byte :: "u8 \<Rightarrow> wah_type option" where
  "wah_decode_abstract_heap_byte b =
    (if b = 0x70 then Some WAH_TYPE_FUNC
     else if b = 0x6F then Some WAH_TYPE_EXTERN
     else if b = 0x6E then Some WAH_TYPE_ANY
     else if b = 0x6D then Some WAH_TYPE_EQ
     else if b = 0x6C then Some WAH_TYPE_I31
     else if b = 0x6B then Some WAH_TYPE_STRUCT
     else if b = 0x6A then Some WAH_TYPE_ARRAY
     else if b = 0x69 then Some WAH_TYPE_EXN
     else if b = 0x74 then Some WAH_TYPE_NOEXN
     else if b = 0x73 then Some WAH_TYPE_NOFUNC
     else if b = 0x72 then Some WAH_TYPE_NOEXTERN
     else if b = 0x71 then Some WAH_TYPE_NONE
     else None)"

definition wah_decode_heap_type :: "bytes \<Rightarrow> (wah_type \<times> bytes) res" where
  "wah_decode_heap_type bs =
    (case bs of [] \<Rightarrow> Inl WAH_ERROR_UNEXPECTED_EOF
     | b # rest \<Rightarrow>
       (case wah_decode_abstract_heap_byte b of
          Some t \<Rightarrow> Inr (t, rest)
        | None \<Rightarrow>
          WAH_CHECK (wah_decode_sleb128_32 bs) (\<lambda>(idx, bs).
          WAH_ENSURE (idx \<ge> 0) WAH_ERROR_MALFORMED (
          WAH_ENSURE (nat idx \<le> WAH_MAX_TYPE_INDEX) WAH_ERROR_TOO_LARGE (
          Inr (WAH_TYPE_FROM_IDX (nat idx) False, bs))))))"

definition wah_decode_ref_type :: "wah_module \<Rightarrow> bytes \<Rightarrow> (wah_type \<times> wah_module \<times> bytes) res" where
  "wah_decode_ref_type m bs =
    (case bs of [] \<Rightarrow> Inl WAH_ERROR_UNEXPECTED_EOF
     | b # bs \<Rightarrow>
       (case wah_decode_abstract_heap_byte b of
          Some t \<Rightarrow> Inr (WAH_TYPE_AS_NULLABLE t, m, bs)
        | None \<Rightarrow>
          WAH_CHECK (if b = 0x63 \<or> b = 0x64 then wah_require_feature m WAH_FEATURE_SHIFT_TYPED_FUNCREF
                     else Inr m) (\<lambda>m.
          if b = 0x63 then
            WAH_CHECK (wah_decode_heap_type bs) (\<lambda>(t, bs). Inr (WAH_TYPE_AS_NULLABLE t, m, bs))
          else if b = 0x64 then
            WAH_CHECK (wah_decode_heap_type bs) (\<lambda>(t, bs). Inr (t, m, bs))
          else Inl WAH_ERROR_MALFORMED)))"

definition wah_decode_val_type :: "wah_module \<Rightarrow> bytes \<Rightarrow> (wah_type \<times> wah_module \<times> bytes) res" where
  "wah_decode_val_type m bs =
    (case bs of [] \<Rightarrow> Inl WAH_ERROR_UNEXPECTED_EOF
     | b # rest \<Rightarrow>
       if b = 0x7F then Inr (WAH_TYPE_I32, m, rest)
       else if b = 0x7E then Inr (WAH_TYPE_I64, m, rest)
       else if b = 0x7D then Inr (WAH_TYPE_F32, m, rest)
       else if b = 0x7C then Inr (WAH_TYPE_F64, m, rest)
       else if b = 0x7B then Inr (WAH_TYPE_V128, m, rest)
       else wah_decode_ref_type m bs)"

definition wah_decode_storage_type :: "wah_module \<Rightarrow> bytes \<Rightarrow> (wah_type \<times> wah_module \<times> bytes) res" where
  "wah_decode_storage_type m bs =
    (case bs of [] \<Rightarrow> Inl WAH_ERROR_UNEXPECTED_EOF
     | b # rest \<Rightarrow>
       if b = 0x78 then Inr (WAH_TYPE_PACKED_I8, m, rest)
       else if b = 0x77 then Inr (WAH_TYPE_PACKED_I16, m, rest)
       else wah_decode_val_type m bs)"

definition wah_decode_and_validate_count :: "nat \<Rightarrow> bytes \<Rightarrow> (nat \<times> bytes) res" where
  "wah_decode_and_validate_count min_bytes_per_item bs =
    WAH_CHECK (wah_decode_uleb128 bs) (\<lambda>(count, bs).
    if min_bytes_per_item > 0 \<and> unat count > (2 ^ 32 - 1) div min_bytes_per_item
    then Inl WAH_ERROR_TOO_LARGE
    else if unat count * min_bytes_per_item > length bs then Inl WAH_ERROR_MALFORMED
    else Inr (unat count, bs))"

section \<open>UTF-8 and names\<close>

text \<open>The loop of \<open>wah_is_valid_utf8\<close> on the bytes from \<open>i\<close> to \<open>len\<close>.\<close>

fun wah_is_valid_utf8 :: "bytes \<Rightarrow> bool" where
  "wah_is_valid_utf8 [] = True"
| "wah_is_valid_utf8 (b # bs) =
    (if b < 0x80 then wah_is_valid_utf8 bs
     else if b AND 0xE0 = 0xC0 then
       (case bs of b1 # bs1 \<Rightarrow>
          if b1 AND 0xC0 \<noteq> 0x80 \<or> b AND 0xFE = 0xC0 then False else wah_is_valid_utf8 bs1
        | [] \<Rightarrow> False)
     else if b AND 0xF0 = 0xE0 then
       (case bs of b1 # b2 # bs2 \<Rightarrow>
          if b1 AND 0xC0 \<noteq> 0x80 \<or> b2 AND 0xC0 \<noteq> 0x80 \<or> (b = 0xE0 \<and> b1 < 0xA0) \<or> (b = 0xED \<and> b1 \<ge> 0xA0)
          then False else wah_is_valid_utf8 bs2
        | _ \<Rightarrow> False)
     else if b AND 0xF8 = 0xF0 then
       (case bs of b1 # b2 # b3 # bs3 \<Rightarrow>
          if b > 0xF4 \<or> b1 AND 0xC0 \<noteq> 0x80 \<or> b2 AND 0xC0 \<noteq> 0x80 \<or> b3 AND 0xC0 \<noteq> 0x80
             \<or> (b = 0xF0 \<and> b1 < 0x90) \<or> (b = 0xF4 \<and> b1 \<ge> 0x90)
          then False else wah_is_valid_utf8 bs3
        | _ \<Rightarrow> False)
     else False)"

definition wah_parse_name :: "bytes \<Rightarrow> (bytes \<times> bytes) res" where
  "wah_parse_name bs =
    WAH_CHECK (wah_decode_uleb128 bs) (\<lambda>(name_len, bs).
    WAH_ENSURE (unat name_len \<le> length bs) WAH_ERROR_UNEXPECTED_EOF (
    WAH_ENSURE (wah_is_valid_utf8 (take (unat name_len) bs)) WAH_ERROR_MALFORMED (
    Inr (take (unat name_len) bs, drop (unat name_len) bs))))"

section \<open>Reference decoders and encoders\<close>

text \<open>LEB128 in mathematical terms: seven bits per byte, least significant group first, on natural numbers
  and integers without any width; at most \<open>k\<close> bytes are read. \<open>over\<close> is the error of a longer encoding.\<close>

fun uleb_ref :: "nat \<Rightarrow> bytes \<Rightarrow> (nat \<times> bytes) res" where
  "uleb_ref 0 bs = Inl WAH_ERROR_TOO_LARGE"
| "uleb_ref (Suc k) [] = Inl WAH_ERROR_UNEXPECTED_EOF"
| "uleb_ref (Suc k) (b # bs) =
    (if unat b < 128 then Inr (unat b, bs)
     else WAH_CHECK (uleb_ref k bs) (\<lambda>(v, r). Inr (unat b - 128 + 128 * v, r)))"

fun sleb_ref :: "(bytes \<Rightarrow> wah_error) \<Rightarrow> nat \<Rightarrow> bytes \<Rightarrow> (int \<times> bytes) res" where
  "sleb_ref over 0 bs = Inl (over bs)"
| "sleb_ref over (Suc k) [] = Inl WAH_ERROR_UNEXPECTED_EOF"
| "sleb_ref over (Suc k) (b # bs) =
    (if unat b < 64 then Inr (int (unat b), bs)
     else if unat b < 128 then Inr (int (unat b) - 128, bs)
     else WAH_CHECK (sleb_ref over k bs) (\<lambda>(v, r). Inr (int (unat b) - 128 + 128 * v, r)))"

fun uleb_enc :: "nat \<Rightarrow> bytes" where
  "uleb_enc n = (if n < 128 then [of_nat n] else of_nat (n mod 128 + 128) # uleb_enc (n div 128))"

function sleb_enc :: "int \<Rightarrow> bytes" where
  "sleb_enc v = (if - 64 \<le> v \<and> v < 64 then [of_int (v mod 128)]
     else of_int (v mod 128 + 128) # sleb_enc (v div 128))"
  by pat_completeness auto
termination by (relation "measure (\<lambda>v. nat \<bar>v\<bar>)") auto

declare uleb_enc.simps [simp del] sleb_enc.simps [simp del]

text \<open>Unicode scalar values and their UTF-8 encoding (RFC 3629).\<close>

definition utf8_scalar :: "nat \<Rightarrow> bool" where
  "utf8_scalar c \<longleftrightarrow> c < 0xD800 \<or> (0xE000 \<le> c \<and> c < 0x110000)"

definition utf8_enc :: "nat \<Rightarrow> bytes" where
  "utf8_enc c =
    (if c < 0x80 then [of_nat c]
     else if c < 0x800 then [of_nat (0xC0 + c div 64), of_nat (0x80 + c mod 64)]
     else if c < 0x10000 then [of_nat (0xE0 + c div 4096), of_nat (0x80 + c div 64 mod 64), of_nat (0x80 + c mod 64)]
     else [of_nat (0xF0 + c div 262144), of_nat (0x80 + c div 4096 mod 64),
           of_nat (0x80 + c div 64 mod 64), of_nat (0x80 + c mod 64)])"

text \<open>The decoders that thread the module return it between the value and the rest of the input; this
  pairs it with the value.\<close>

definition pair_rest :: "('a \<times> 'm \<times> bytes) res \<Rightarrow> (('a \<times> 'm) \<times> bytes) res" where
  "pair_rest r = WAH_CHECK r (\<lambda>(x, m, bs). Inr ((x, m), bs))"

text \<open>What a decoded value type looks like: a numeric or vector type, an abstract reference type, or a type
  index with its nullability.\<close>

definition wah_is_val_type :: "wah_type \<Rightarrow> bool" where
  "wah_is_val_type t \<longleftrightarrow> t \<in> {WAH_TYPE_I32, WAH_TYPE_I64, WAH_TYPE_F32, WAH_TYPE_F64, WAH_TYPE_V128}
     \<or> (WAH_TYPE_IS_REF t \<and> t < 2 ^ 31)"

section \<open>Little-endian round trips\<close>

lemma byte_position:
  fixes n :: nat
  assumes "n < 64"
  obtains (0) "n < 8" | (1) r where "r < 8" "n = 8 + r" | (2) r where "r < 8" "n = 16 + r"
    | (3) r where "r < 8" "n = 24 + r" | (4) r where "r < 8" "n = 32 + r" | (5) r where "r < 8" "n = 40 + r"
    | (6) r where "r < 8" "n = 48 + r" | (7) r where "r < 8" "n = 56 + r"
proof -
  have "n < 8 \<or> (8 \<le> n \<and> n < 16) \<or> (16 \<le> n \<and> n < 24) \<or> (24 \<le> n \<and> n < 32) \<or> (32 \<le> n \<and> n < 40)
      \<or> (40 \<le> n \<and> n < 48) \<or> (48 \<le> n \<and> n < 56) \<or> (56 \<le> n \<and> n < 64)" using assms by linarith
  moreover have "\<exists>r<8. n = k + r" if "k \<le> n" "n < k + 8" for k
    using that by (intro exI [of _ "n - k"]) simp
  ultimately show ?thesis using that by (elim disjE) force+
qed

lemma read_write_u16: "wah_read_u16_le (wah_write_u16_le v @ rest) = v"
  unfolding wah_read_u16_le_def wah_write_u16_le_def
  by (rule bit_word_eqI) (auto simp: bit_simps)

lemma read_write_u32: "wah_read_u32_le (wah_write_u32_le v @ rest) = v"
proof (rule bit_word_eqI)
  fix n assume n: "n < LENGTH(32)"
  then have "n < 64" by simp
  then show "bit (wah_read_u32_le (wah_write_u32_le v @ rest)) n = bit v n"
    unfolding wah_read_u32_le_def wah_write_u32_le_def
    by (cases n rule: byte_position) (use n in \<open>simp_all add: bit_simps\<close>)
qed

lemma read_write_u64: "wah_read_u64_le (wah_write_u64_le v @ rest) = v"
proof (rule bit_word_eqI)
  fix n assume n: "n < LENGTH(64)"
  then have "n < 64" by simp
  then show "bit (wah_read_u64_le (wah_write_u64_le v @ rest)) n = bit v n"
    unfolding wah_read_u64_le_def wah_write_u64_le_def
    by (cases n rule: byte_position) (use n in \<open>simp_all add: bit_simps\<close>)
qed

lemma write_read_u16: "wah_write_u16_le (wah_read_u16_le [a, b]) = [a, b]"
  unfolding wah_read_u16_le_def wah_write_u16_le_def
  by (auto intro!: bit_word_eqI simp: bit_simps)

lemma write_read_u32: "wah_write_u32_le (wah_read_u32_le [a, b, c, d]) = [a, b, c, d]"
  unfolding wah_read_u32_le_def wah_write_u32_le_def
  by (simp, intro conjI; rule bit_word_eqI; simp add: bit_simps)

lemma write_read_u64: "wah_write_u64_le (wah_read_u64_le [a, b, c, d, e, f, g, h]) = [a, b, c, d, e, f, g, h]"
  unfolding wah_read_u64_le_def wah_write_u64_le_def
  by (simp, intro conjI; rule bit_word_eqI; simp add: bit_simps)

section \<open>LEB128 against the reference\<close>

lemma leb_payload: "unat (b AND 0x7F :: u8) = unat b mod 128"
  using take_bit_eq_mask [of 7 "unat b"] by (simp add: unsigned_and_eq take_bit_eq_mod mask_eq_exp_minus_1)

lemma leb_continues: "(b AND 0x80 :: u8) = 0 \<longleftrightarrow> unat b < 128"
  by (rule byte_check [of "\<lambda>n b. (b AND 0x80 = 0) = (n < 128)"]) code_simp

lemma leb_step:
  assumes v: "unat val < 2 ^ shift" and s: "2 ^ shift * (unat b mod 128) < 2 ^ 64"
  shows "unat (val OR push_bit shift (ucast (b AND 0x7F :: u8)) :: u64) = unat val + 2 ^ shift * (unat b mod 128)"
proof -
  have "unat (ucast (b AND 0x7F :: u8) :: u64) = unat b mod 128"
    by (simp add: unsigned_ucast_eq leb_payload take_bit_eq_mod mod_less_eq_dividend order_less_le_trans)
  then have "unat (push_bit shift (ucast (b AND 0x7F :: u8)) :: u64) = take_bit 64 (push_bit shift (unat b mod 128))"
    by (simp add: unsigned_push_bit_eq)
  also have "\<dots> = push_bit shift (unat b mod 128)"
    using s by (simp add: take_bit_nat_eq_self_iff push_bit_eq_mult mult.commute)
  finally show ?thesis using nat_add_shifted [OF v, of "unat b mod 128"] by (simp add: unsigned_or_eq)
qed

lemma leb_step_small:
  assumes v: "unat val < 2 ^ shift" and s: "shift + 7 \<le> 64"
  shows "unat (val OR push_bit shift (ucast (b AND 0x7F :: u8)) :: u64) = unat val + 2 ^ shift * (unat b mod 128)"
    and "unat val + 2 ^ shift * (unat b mod 128) < 2 ^ (shift + 7)"
proof -
  have "2 ^ shift * (unat b mod 128) < (2::nat) ^ shift * 128" by simp
  also have "\<dots> = 2 ^ (shift + 7)" by (simp add: power_add)
  also have "\<dots> \<le> 2 ^ 64" using s by (intro power_increasing) auto
  finally show "unat (val OR push_bit shift (ucast (b AND 0x7F :: u8)) :: u64) = unat val + 2 ^ shift * (unat b mod 128)"
    by (rule leb_step [OF v])
  have "2 ^ shift * (unat b mod 128) \<le> (2::nat) ^ shift * 127" by (intro mult_le_mono2) (simp flip: less_Suc_eq_le)
  moreover have "(2::nat) ^ (shift + 7) = 2 ^ shift + 2 ^ shift * 127" by (simp add: power_add)
  ultimately show "unat val + 2 ^ shift * (unat b mod 128) < 2 ^ (shift + 7)" using v by linarith
qed

lemma uleb_ref_bound: "uleb_ref k bs = Inr (v, r) \<Longrightarrow> v < 128 ^ k"
proof (induction k bs arbitrary: v rule: uleb_ref.induct)
  case (3 k b bs)
  show ?case
  proof (cases "unat b < 128")
    case True
    then show ?thesis using 3 by (simp add: order_less_le_trans)
  next
    case False
    with 3(2) obtain w where w: "uleb_ref k bs = Inr (w, r)" "v = unat b - 128 + 128 * w"
      by (auto simp: res_simps)
    have "w + 1 \<le> 128 ^ k" using 3(1) [OF False w(1)] by simp
    moreover have "unat b < 256" using unsigned_less [of b, where 'a = nat] by simp
    ultimately show ?thesis using w(2) by simp
  qed
qed simp_all

lemma uleb128_loop_ref:
  assumes "unat val < 2 ^ shift" "shift + 7 * k \<le> 64"
  shows "uleb128_loop k val shift bs = WAH_CHECK (uleb_ref k bs) (\<lambda>(v, r).
     WAH_ENSURE (unat val + 2 ^ shift * v < 2 ^ 32) WAH_ERROR_TOO_LARGE (Inr (of_nat (unat val + 2 ^ shift * v), r)))"
  using assms
proof (induction k val shift bs rule: uleb128_loop.induct)
  case (3 k val shift b bs)
  define val' :: u64 where "val' = val OR push_bit shift (ucast (b AND 0x7F))"
  have val': "unat val' = unat val + 2 ^ shift * (unat b mod 128)" "unat val' < 2 ^ (shift + 7)"
    using leb_step_small [OF 3(2), of b] 3(3) by (simp_all add: val'_def)
  show ?case
  proof (cases "unat b < 128")
    case True
    have "val' \<le> 0xFFFFFFFF \<longleftrightarrow> unat val' < 2 ^ 32" by (auto simp: word_le_nat_alt)
    moreover have "(ucast val' :: u32) = of_nat (unat val')" by simp
    ultimately show ?thesis using True val'(1) by (simp add: leb_continues val'_def [symmetric] Let_def)
  next
    case False
    have b: "unat b mod 128 = unat b - 128" using False unsigned_less [of b, where 'a = nat] by (simp add: le_mod_geq)
    have "uleb128_loop k val' (shift + 7) bs = WAH_CHECK (uleb_ref k bs) (\<lambda>(v, r).
       WAH_ENSURE (unat val' + 2 ^ (shift + 7) * v < 2 ^ 32) WAH_ERROR_TOO_LARGE (Inr (of_nat (unat val' + 2 ^ (shift + 7) * v), r)))"
      using 3(1) [OF val'_def _ ] False val' 3(3) by (simp add: leb_continues)
    moreover have "unat val' + 2 ^ (shift + 7) * v = unat val + 2 ^ shift * (unat b - 128 + 128 * v)" for v
      using val'(1) b by (simp add: power_add algebra_simps)
    ultimately show ?thesis using False
      by (simp add: leb_continues val'_def [symmetric] Let_def WAH_CHECK_assoc case_prod_unfold)
  qed
qed simp_all

lemma uleb128_64_loop_ref:
  assumes "unat val < 2 ^ shift" "shift + 7 * k = 70"
  shows "uleb128_64_loop k val shift bs = WAH_CHECK (uleb_ref k bs) (\<lambda>(v, r).
     WAH_ENSURE (unat val + 2 ^ shift * v < 2 ^ 64) WAH_ERROR_TOO_LARGE (Inr (of_nat (unat val + 2 ^ shift * v), r)))"
  using assms
proof (induction k val shift bs rule: uleb128_64_loop.induct)
  case (3 k val shift b bs)
  define val' :: u64 where "val' = val OR push_bit shift (ucast (b AND 0x7F))"
  show ?case
  proof (cases k)
    case 0
    then have s: "shift = 63" using 3(3) by simp
    have big: "\<not> unat val + 2 ^ 63 * unat b < 2 ^ 64" if "\<not> unat b \<le> 1" using that by simp
    have "unat val' = unat val + 2 ^ 63 * unat b" if "unat b \<le> 1"
      using leb_step [OF 3(2), of b] that by (simp add: val'_def s)
    moreover have "unat val + 2 ^ 63 * unat b < 2 ^ 64" if "unat b \<le> 1"
      using that 3(2) by (cases "unat b") (simp_all add: s)
    moreover have "b > 1 \<longleftrightarrow> \<not> unat b \<le> 1" by (auto simp: word_less_nat_alt)
    moreover have "val' = of_nat (unat val')" by simp
    moreover have "val OR push_bit 63 (ucast (b AND 0x7F)) = val'" by (simp add: val'_def s)
    ultimately show ?thesis using big
      by (cases "unat b \<le> 1"; cases "unat b < 128") (simp_all add: 0 leb_continues Let_def s)
  next
    case (Suc k')
    have s: "shift + 7 \<le> 63" using 3(3) Suc by simp
    have val': "unat val' = unat val + 2 ^ shift * (unat b mod 128)" "unat val' < 2 ^ (shift + 7)"
      using leb_step_small [OF 3(2), of b] s by (simp_all add: val'_def)
    show ?thesis
    proof (cases "unat b < 128")
      case True
      have "(2::nat) ^ (shift + 7) \<le> 2 ^ 64" using s by (intro power_increasing) auto
      then have "unat val' < 2 ^ 64" using val'(2) by simp
      moreover have "val' = of_nat (unat val')" by simp
      ultimately show ?thesis using True val'(1)
        by (simp add: Suc leb_continues val'_def [symmetric] Let_def)
    next
      case False
      have b: "unat b mod 128 = unat b - 128" using False unsigned_less [of b, where 'a = nat] by (simp add: le_mod_geq)
      have "uleb128_64_loop k val' (shift + 7) bs = WAH_CHECK (uleb_ref k bs) (\<lambda>(v, r).
         WAH_ENSURE (unat val' + 2 ^ (shift + 7) * v < 2 ^ 64) WAH_ERROR_TOO_LARGE (Inr (of_nat (unat val' + 2 ^ (shift + 7) * v), r)))"
        using 3(1) [OF val'_def _ ] False val' 3(3) by (simp add: leb_continues)
      moreover have "unat val' + 2 ^ (shift + 7) * v = unat val + 2 ^ shift * (unat b - 128 + 128 * v)" for v
        using val'(1) b by (simp add: power_add algebra_simps)
      ultimately show ?thesis using False
        by (simp add: leb_continues val'_def [symmetric] Let_def WAH_CHECK_assoc case_prod_unfold)
    qed
  qed
qed simp_all

lemma int_unat_bound: "unat w < 2 ^ n \<Longrightarrow> int (unat w) < 2 ^ n"
  by (metis of_nat_less_iff of_nat_numeral of_nat_power)

lemma sint_small: "unat (w :: u64) < 2 ^ 63 \<Longrightarrow> sint w = int (unat w)"
proof -
  assume "unat w < 2 ^ 63"
  then have "int (unat w) < 2 ^ 63" by (rule int_unat_bound)
  then have "signed_take_bit 63 (int (unat w)) = int (unat w)"
    by (intro signed_take_bit_int_eq_self) linarith+
  moreover have "sint w = signed_take_bit 63 (int (unat w))" by (simp only: sint_uint uint_nat) simp
  ultimately show ?thesis by simp
qed

lemma leb_sign_extend_sint:
  assumes s: "0 < s" "s < 64" and w: "unat w < 2 ^ s"
  shows "sint (leb_sign_extend w s) = int (unat w) - (if 2 ^ (s - 1) \<le> unat w then 2 ^ s else 0)"
proof -
  have p: "(2::nat) ^ s \<le> 2 ^ 63" using s by (intro power_increasing) auto
  have p': "(2::int) ^ s \<le> 2 ^ 63" using s by (intro power_increasing) auto
  have w': "0 \<le> int (unat w)" "int (unat w) < 2 ^ s" using w by (simp_all flip: of_nat_less_iff [where 'a = int])
  have t: "w AND push_bit (s - 1) 1 \<noteq> 0 \<longleftrightarrow> 2 ^ (s - 1) \<le> unat w"
  proof -
    have "w AND push_bit (s - 1) 1 \<noteq> 0 \<longleftrightarrow> odd (unat w div 2 ^ (s - 1))"
      by (simp only: bit_iff_and_push_bit_not_eq_0 [symmetric])
        (simp add: bit_iff_odd [of "unat w", symmetric] bit_unsigned_iff)
    moreover have "unat w div 2 ^ (s - 1) < 2"
      using w s by (simp add: less_mult_imp_div_less power_Suc [symmetric])
    moreover have "odd q \<longleftrightarrow> 0 < q" if "q < 2" for q :: nat using that by (auto simp: less_2_cases_iff)
    ultimately show ?thesis by (simp only: div_greater_zero_iff) simp
  qed
  have e: "w OR push_bit s (NOT 0) = of_int (int (unat w) - 2 ^ s)"
  proof -
    have "w AND push_bit s (NOT 0) = 0"
    proof (rule bit_word_eqI)
      fix n assume "n < LENGTH(64)"
      have "bit w n \<Longrightarrow> n < s"
        using nat_bit_bound [OF w, of n] by (simp add: bit_unsigned_iff)
      then show "bit (w AND push_bit s (NOT 0)) n = bit 0 n" by (auto simp: bit_simps)
    qed
    then have "w OR push_bit s (NOT 0) = w + push_bit s (NOT 0)" by (simp add: disjunctive_add_eq_or)
    then show ?thesis by (simp add: push_bit_eq_mult)
  qed
  show ?thesis
  proof (cases "2 ^ (s - 1) \<le> unat w")
    case True
    have "sint (of_int (int (unat w) - 2 ^ s) :: u64) = signed_take_bit 63 (int (unat w) - 2 ^ s)"
      by (simp only: signed_of_int) simp
    also have "\<dots> = int (unat w) - 2 ^ s"
      using w' p' by (intro signed_take_bit_int_eq_self) linarith+
    finally show ?thesis using True t e by (simp add: leb_sign_extend_def)
  next
    case False
    have "sint w = int (unat w)" using w p by (intro sint_small) simp
    then show ?thesis using False t by (simp add: leb_sign_extend_def)
  qed
qed

lemma leb_last:
  assumes "unat val < 2 ^ shift" "shift + 7 < 64" "unat b < 128"
  shows "sint (leb_sign_extend (val OR push_bit shift (ucast (b AND 0x7F :: u8))) (shift + 7))
    = int (unat val) + 2 ^ shift * (if unat b < 64 then int (unat b) else int (unat b) - 128)"
proof -
  define w where "w = val OR push_bit shift (ucast (b AND 0x7F :: u8))"
  have w: "unat w = unat val + 2 ^ shift * unat b" "unat w < 2 ^ (shift + 7)"
    using leb_step_small [OF assms(1), of b] assms by (simp_all add: w_def)
  have h: "(2::nat) ^ (shift + 7 - 1) = 2 ^ shift * 64" by (simp add: power_add)
  have "2 ^ shift * 64 \<le> unat w \<longleftrightarrow> 64 \<le> unat b"
  proof
    assume "64 \<le> unat b"
    then have "2 ^ shift * 64 \<le> 2 ^ shift * unat b" by (rule mult_le_mono2)
    then show "2 ^ shift * 64 \<le> unat w" using w(1) by linarith
  next
    assume a: "2 ^ shift * 64 \<le> unat w"
    show "64 \<le> unat b"
    proof (rule ccontr)
      assume "\<not> 64 \<le> unat b"
      then have "2 ^ shift * unat b \<le> 2 ^ shift * 63" by (intro mult_le_mono2) simp
      then show False using a w(1) assms(1) by linarith
    qed
  qed
  then show ?thesis
    using leb_sign_extend_sint [of "shift + 7" w] assms w unfolding h w_def [symmetric]
    by (cases "unat b < 64") (simp_all add: power_add algebra_simps)
qed

lemma sint_ucast_down:
  assumes "- (2 ^ 31) \<le> sint (w :: u64)" "sint w \<le> 2 ^ 31 - 1"
  shows "sint (ucast w :: u32) = sint w"
proof -
  have "(ucast w :: u32) = of_int (sint w)" by (rule bit_word_eqI) (simp add: bit_simps)
  then have "sint (ucast w :: u32) = signed_take_bit 31 (sint w)" by (simp only: signed_of_int) simp
  then show ?thesis using assms by (simp only: signed_take_bit_int_eq_self_iff) auto
qed

lemma leb_continued:
  assumes "\<not> unat b < 128"
  shows "unat (b :: u8) mod 128 = unat b - 128"
  using assms unsigned_less [of b, where 'a = nat] by (simp add: le_mod_geq)

lemma leb_continue_value:
  assumes "unat w = unat val + 2 ^ shift * (unat b mod 128)" "\<not> unat (b :: u8) < 128"
  shows "int (unat (w :: u64)) + 2 ^ (shift + 7) * v = int (unat (val :: u64)) + 2 ^ shift * (int (unat b) - 128 + 128 * v)"
proof -
  obtain c where c: "unat b = 128 + c" using assms(2) by (metis le_Suc_ex not_less)
  then have "c < 128" using unsigned_less [of b, where 'a = nat] by simp
  with c assms(1) have "unat w = unat val + 2 ^ shift * c" by simp
  then have "int (unat w) = int (unat val) + 2 ^ shift * int c" by (simp only:) simp
  then show ?thesis unfolding c by (simp only: power_add) (simp add: algebra_simps)
qed

lemma sleb128_32_loop_ref:
  assumes "unat val < 2 ^ shift" "shift + 7 * k < 64"
  shows "sleb128_32_loop k val shift bs = WAH_CHECK (sleb_ref (\<lambda>_. WAH_ERROR_TOO_LARGE) k bs) (\<lambda>(v, r).
     WAH_ENSURE (- (2 ^ 31) \<le> int (unat val) + 2 ^ shift * v \<and> int (unat val) + 2 ^ shift * v \<le> 2 ^ 31 - 1)
       WAH_ERROR_TOO_LARGE (Inr (int (unat val) + 2 ^ shift * v, r)))"
  using assms
proof (induction k val shift bs rule: sleb128_32_loop.induct)
  case (3 k val shift b bs)
  define val' :: u64 where "val' = val OR push_bit shift (ucast (b AND 0x7F))"
  have s: "shift + 7 < 64" using 3(3) by simp
  have val': "unat val' = unat val + 2 ^ shift * (unat b mod 128)" "unat val' < 2 ^ (shift + 7)"
    using leb_step_small [OF 3(2), of b] s by (simp_all add: val'_def)
  show ?case
  proof (cases "unat b < 128")
    case True
    define x where "x = leb_sign_extend val' (shift + 7)"
    have x: "sint x = int (unat val) + 2 ^ shift * (if unat b < 64 then int (unat b) else int (unat b) - 128)"
      using leb_last [OF 3(2) s True] by (simp add: x_def val'_def)
    have "sleb128_32_loop (Suc k) val shift (b # bs) =
        WAH_ENSURE (- (2 ^ 31) \<le> sint x \<and> sint x \<le> 2 ^ 31 - 1) WAH_ERROR_TOO_LARGE (Inr (sint x, bs))"
      using True s sint_ucast_down [of x]
      by (auto simp: leb_continues val'_def [symmetric] x_def [symmetric] Let_def WAH_ENSURE_def)
    then show ?thesis using True by (simp add: x)
  next
    case False
    have "sleb128_32_loop k val' (shift + 7) bs = WAH_CHECK (sleb_ref (\<lambda>_. WAH_ERROR_TOO_LARGE) k bs) (\<lambda>(v, r).
     WAH_ENSURE (- (2 ^ 31) \<le> int (unat val') + 2 ^ (shift + 7) * v \<and> int (unat val') + 2 ^ (shift + 7) * v \<le> 2 ^ 31 - 1)
       WAH_ERROR_TOO_LARGE (Inr (int (unat val') + 2 ^ (shift + 7) * v, r)))"
      using 3(1) [OF val'_def refl] False val' 3(3) by (simp add: leb_continues)
    moreover have "int (unat val') + 2 ^ (shift + 7) * v = int (unat val) + 2 ^ shift * (int (unat b) - 128 + 128 * v)" for v
      by (rule leb_continue_value [OF val'(1) False])
    ultimately show ?thesis using False
      by (simp add: leb_continues val'_def [symmetric] Let_def WAH_CHECK_assoc case_prod_unfold)
  qed
qed simp_all

text \<open>The tenth byte of a 64-bit number: only bit 63 is left, so the byte is all zeros or all ones.\<close>

lemma sleb_last_round:
  assumes v: "unat val < 2 ^ 63"
  shows "sleb128_64_loop val 63 (b # bs) =
    WAH_CHECK (sleb_ref (\<lambda>bs. if bs = [] then WAH_ERROR_UNEXPECTED_EOF else WAH_ERROR_TOO_LARGE) (Suc 0) (b # bs)) (\<lambda>(v, r).
     WAH_ENSURE (- (2 ^ 63) \<le> int (unat val) + 2 ^ 63 * v \<and> int (unat val) + 2 ^ 63 * v \<le> 2 ^ 63 - 1)
       WAH_ERROR_TOO_LARGE (Inr (int (unat val) + 2 ^ 63 * v, r)))"
proof -
  have range: "- (2 ^ 63) \<le> int (unat val) + 2 ^ 63 * z \<and> int (unat val) + 2 ^ 63 * z \<le> 2 ^ 63 - 1 \<longleftrightarrow> z = 0 \<or> z = -1" for z
  proof -
    have "int (unat val) < 2 ^ 63" by (rule int_unat_bound [OF v])
    moreover have "0 \<le> int (unat val)" by (simp only: of_nat_0_le_iff)
    moreover have "0 \<le> u \<Longrightarrow> u < 2 ^ 63 \<Longrightarrow>
        - (2 ^ 63) \<le> u + 2 ^ 63 * z \<and> u + 2 ^ 63 * z \<le> 2 ^ 63 - 1 \<longleftrightarrow> z = 0 \<or> z = -1" for u :: int
      by auto
    ultimately show ?thesis by blast
  qed
  have z: "sint val = int (unat val)" by (rule sint_small [OF v])
  have m: "sint (val OR push_bit 63 (ucast (0x7F :: u8))) = int (unat val) - 2 ^ 63"
  proof -
    have "push_bit 63 (ucast (0x7F :: u8)) = (push_bit 63 1 :: u64)" by code_simp
    then have "val OR push_bit 63 (ucast (0x7F :: u8)) = val OR push_bit 63 1" by (simp only:)
    also have "\<dots> = val + push_bit 63 1"
    proof (rule disjunctive_add_eq_or [symmetric], rule bit_word_eqI)
      show "bit (val AND push_bit 63 1) n = bit 0 n" for n
        using nat_bit_bound [OF v, of n]
        by (auto simp only: bit_and_iff bit_push_bit_iff bit_1_iff bit_unsigned_iff bit_0_eq bot_apply bot_bool_def possible_bit_nat) simp
    qed
    also have "\<dots> = of_int (int (unat val) - 2 ^ 63)" by simp
    finally have "sint (val OR push_bit 63 (ucast (0x7F :: u8))) = signed_take_bit 63 (int (unat val) - 2 ^ 63)"
      by (simp only: signed_of_int) simp
    also have "\<dots> = int (unat val) - 2 ^ 63"
      using int_unat_bound [OF v] by (intro signed_take_bit_int_eq_self) auto
    finally show ?thesis .
  qed
  have b: "b = 0 \<longleftrightarrow> unat b = 0" "b = 0x7F \<longleftrightarrow> unat b = 127"
    by (auto simp: word_unat_eq_iff)
  consider "b = 0" | "b = 0x7F" | "b \<noteq> 0" "b \<noteq> 0x7F" "unat b < 128" | "128 \<le> unat b" by linarith
  then show ?thesis
  proof cases
    case 3
    define z where "z = (if unat b < 64 then int (unat b) else int (unat b) - 128)"
    have "\<not> (z = 0 \<or> z = -1)" using 3 b by (auto simp: z_def simp del: of_nat_unat)
    moreover have "sleb_ref over (Suc 0) (b # bs) = Inr (z, bs)" for over using 3 by (simp add: z_def)
    ultimately show ?thesis using 3
      by (simp only: WAH_CHECK_Inr prod.case range) (simp add: leb_continues)
  next
    case 4
    then show ?thesis by (cases bs) (auto simp: leb_continues)
  qed (use range [of 0] range [of "-1"] z m in \<open>auto simp: leb_continues\<close>)
qed

lemma sleb128_64_loop_ref:
  assumes "unat val < 2 ^ shift" "shift + 7 * k = 70"
  shows "sleb128_64_loop val shift bs =
    WAH_CHECK (sleb_ref (\<lambda>bs. if bs = [] then WAH_ERROR_UNEXPECTED_EOF else WAH_ERROR_TOO_LARGE) k bs) (\<lambda>(v, r).
     WAH_ENSURE (- (2 ^ 63) \<le> int (unat val) + 2 ^ shift * v \<and> int (unat val) + 2 ^ shift * v \<le> 2 ^ 63 - 1)
       WAH_ERROR_TOO_LARGE (Inr (int (unat val) + 2 ^ shift * v, r)))"
  using assms
proof (induction val shift bs arbitrary: k rule: sleb128_64_loop.induct)
  case (1 val shift)
  then show ?case by (cases k) simp_all
next
  case (2 val shift b bs)
  define val' :: u64 where "val' = val OR push_bit shift (ucast (b AND 0x7F))"
  consider "k = 0" | "k = 1" | k' where "k = Suc (Suc k')" by (metis One_nat_def not0_implies_Suc)
  then show ?case
  proof cases
    case 1
    then show ?thesis using 2(3) by simp
  next
    case 2
    then have s: "shift = 63" "k = Suc 0" using \<open>shift + 7 * k = 70\<close> by simp_all
    show ?thesis using \<open>unat val < 2 ^ shift\<close> by (simp only: s) (rule sleb_last_round)
  next
    case 3
    have s: "shift + 7 < 64" "shift + 7 \<noteq> 70" "shift < 64" using 2(3) 3 by simp_all
    have val': "unat val' = unat val + 2 ^ shift * (unat b mod 128)" "unat val' < 2 ^ (shift + 7)"
      using leb_step_small [OF 2(2), of b] s by (simp_all add: val'_def)
    show ?thesis
    proof (cases "unat b < 128")
      case True
      define x where "x = leb_sign_extend val' (shift + 7)"
      have x: "sint x = int (unat val) + 2 ^ shift * (if unat b < 64 then int (unat b) else int (unat b) - 128)"
        using leb_last [OF 2(2) s(1) True] by (simp add: x_def val'_def)
      have "- (2 ^ 63) \<le> sint x" "sint x \<le> 2 ^ 63 - 1"
        using sint_greater_eq [of x] sint_less [of x] by simp_all
      then show ?thesis using True s x
        by (cases "unat b < 64") (simp_all add: 3 leb_continues val'_def [symmetric] x_def [symmetric] Let_def)
    next
      case False
      have "sleb128_64_loop val' (shift + 7) bs =
        WAH_CHECK (sleb_ref (\<lambda>bs. if bs = [] then WAH_ERROR_UNEXPECTED_EOF else WAH_ERROR_TOO_LARGE) (Suc k') bs) (\<lambda>(v, r).
         WAH_ENSURE (- (2 ^ 63) \<le> int (unat val') + 2 ^ (shift + 7) * v \<and> int (unat val') + 2 ^ (shift + 7) * v \<le> 2 ^ 63 - 1)
         WAH_ERROR_TOO_LARGE (Inr (int (unat val') + 2 ^ (shift + 7) * v, r)))"
        using 2(1) [OF s(3) val'_def refl, of "Suc k'"] False val' 2(3) 3 by (simp add: leb_continues)
      moreover have "int (unat val') + 2 ^ (shift + 7) * v = int (unat val) + 2 ^ shift * (int (unat b) - 128 + 128 * v)" for v
        by (rule leb_continue_value [OF val'(1) False])
      ultimately show ?thesis using False s
        by (simp add: 3 leb_continues val'_def [symmetric] Let_def WAH_CHECK_assoc case_prod_unfold)
    qed
  qed
qed

lemma uleb_ref_enc: "n < 128 ^ Suc k \<Longrightarrow> uleb_ref (Suc k) (uleb_enc n @ rest) = Inr (n, rest)"
proof (induction k arbitrary: n)
  case 0
  then show ?case by (simp add: uleb_enc.simps [of n] unat_of_nat)
next
  case (Suc k)
  show ?case
  proof (cases "n < 128")
    case True
    then show ?thesis by (simp add: uleb_enc.simps [of n] unat_of_nat)
  next
    case False
    have "n div 128 < 128 ^ Suc k" using Suc.prems by (simp add: less_mult_imp_div_less mult.commute)
    moreover have "unat (of_nat (n mod 128 + 128) :: u8) = n mod 128 + 128" by (simp only: unat_of_nat) simp
    moreover have "n mod 128 + 128 * (n div 128) = n" by simp
    ultimately show ?thesis using Suc.IH [of "n div 128"] False
      by (simp only: uleb_enc.simps [of n] if_False append_Cons uleb_ref.simps(3) [of "Suc k"]) simp
  qed
qed

lemma sleb_enc_short:
  assumes "- 64 \<le> v" "v < 64"
  shows "sleb_ref over (Suc k) (of_int (v mod 128) # rest) = Inr (v, rest)"
proof -
  have u: "unat (of_int (v mod 128) :: u8) = nat (v mod 128)"
    by (simp add: unat_eq_nat_uint uint_word_of_int take_bit_eq_mod)
  have m: "v mod 128 = (if 0 \<le> v then v else v + 128)"
  proof (cases "0 \<le> v")
    case True
    then show ?thesis using assms by (simp add: mod_pos_pos_trivial)
  next
    case False
    have "v mod 128 = (v + 128) mod 128" by simp
    also have "\<dots> = v + 128" using False assms by (intro mod_pos_pos_trivial) auto
    finally show ?thesis using False by simp
  qed
  define x where "x = (of_int (v mod 128) :: u8)"
  have "unat x = nat (if 0 \<le> v then v else v + 128)" unfolding x_def u by (simp only: m)
  then show ?thesis using assms unfolding x_def [symmetric] by (cases "0 \<le> v") (simp_all del: of_nat_unat, linarith)
qed

lemma sleb_ref_enc:
  "- (64 * 128 ^ k) \<le> v \<Longrightarrow> v < 64 * 128 ^ k \<Longrightarrow> sleb_ref over (Suc k) (sleb_enc v @ rest) = Inr (v, rest)"
proof (induction k arbitrary: v)
  case 0
  then show ?case using sleb_enc_short [of v over 0 rest] by (simp only: sleb_enc.simps [of v]) simp
next
  case (Suc k)
  show ?case
  proof (cases "- 64 \<le> v \<and> v < 64")
    case True
    then show ?thesis using sleb_enc_short [of v over "Suc k" rest] by (simp only: sleb_enc.simps [of v]) simp
  next
    case False
    have "0 \<le> v mod 128" "v mod 128 < 128" by simp_all
    then have u: "unat (of_int (v mod 128 + 128) :: u8) = nat (v mod 128 + 128)"
      by (simp only: unat_eq_nat_uint uint_word_of_int take_bit_eq_mod) (simp add: mod_pos_pos_trivial del: pos_mod_sign pos_mod_bound)
    moreover have "- (64 * 128 ^ k) \<le> v div 128" "v div 128 < 64 * 128 ^ k" using Suc.prems by auto
    moreover have "int (nat (v mod 128 + 128)) = v mod 128 + 128" "\<not> nat (v mod 128 + 128) < 128"
      "\<not> nat (v mod 128 + 128) < 64" by simp_all
    moreover have "v mod 128 + 128 * (v div 128) = v" by simp
    ultimately show ?thesis using Suc.IH [of "v div 128"] False
      by (simp only: sleb_enc.simps [of v] if_False append_Cons sleb_ref.simps(3) [of over "Suc k"] u) simp
  qed
qed
section \<open>UTF-8 against the reference\<close>

lemma utf8_lead2: "(b AND 0xE0 :: u8) = 0xC0 \<longleftrightarrow> 0xC0 \<le> unat b \<and> unat b < 0xE0"
  by (rule byte_check [of "\<lambda>n b. (b AND 0xE0 = 0xC0) = (0xC0 \<le> n \<and> n < 0xE0)"]) code_simp

lemma utf8_lead3: "(b AND 0xF0 :: u8) = 0xE0 \<longleftrightarrow> 0xE0 \<le> unat b \<and> unat b < 0xF0"
  by (rule byte_check [of "\<lambda>n b. (b AND 0xF0 = 0xE0) = (0xE0 \<le> n \<and> n < 0xF0)"]) code_simp

lemma utf8_lead4: "(b AND 0xF8 :: u8) = 0xF0 \<longleftrightarrow> 0xF0 \<le> unat b \<and> unat b < 0xF8"
  by (rule byte_check [of "\<lambda>n b. (b AND 0xF8 = 0xF0) = (0xF0 \<le> n \<and> n < 0xF8)"]) code_simp

lemma utf8_cont: "(b AND 0xC0 :: u8) = 0x80 \<longleftrightarrow> 0x80 \<le> unat b \<and> unat b < 0xC0"
  by (rule byte_check [of "\<lambda>n b. (b AND 0xC0 = 0x80) = (0x80 \<le> n \<and> n < 0xC0)"]) code_simp

lemma utf8_overlong2: "(b AND 0xFE :: u8) = 0xC0 \<longleftrightarrow> 0xC0 \<le> unat b \<and> unat b < 0xC2"
  by (rule byte_check [of "\<lambda>n b. (b AND 0xFE = 0xC0) = (0xC0 \<le> n \<and> n < 0xC2)"]) code_simp

lemma utf8_exact:
  "(b :: u8) = 0xE0 \<longleftrightarrow> unat b = 0xE0" "b = 0xED \<longleftrightarrow> unat b = 0xED"
  "b = 0xF0 \<longleftrightarrow> unat b = 0xF0" "b = 0xF4 \<longleftrightarrow> unat b = 0xF4"
  by (simp_all add: word_unat_eq_iff)

lemma utf8_lead_unat:
  "unat (b AND 0xF0 :: u8) = 0xE0 \<longleftrightarrow> 0xE0 \<le> unat b \<and> unat b < 0xF0"
  "unat (b AND 0xF8 :: u8) = 0xF0 \<longleftrightarrow> 0xF0 \<le> unat b \<and> unat b < 0xF8"
  using utf8_lead3 [of b] utf8_lead4 [of b] by (simp_all add: word_unat_eq_iff)

lemmas utf8_ranges = utf8_lead_unat utf8_lead2 utf8_lead3 utf8_lead4 utf8_cont utf8_overlong2 utf8_exact
  word_less_nat_alt word_le_nat_alt

lemma utf8_enc_valid:
  assumes "utf8_scalar c"
  shows "wah_is_valid_utf8 (utf8_enc c @ bs) = wah_is_valid_utf8 bs"
proof -
  consider "c < 0x80" | "0x80 \<le> c" "c < 0x800" | "0x800 \<le> c" "c < 0x10000" | "0x10000 \<le> c" "c < 0x110000"
    using assms by (force simp: utf8_scalar_def)
  then show ?thesis
  proof cases
    case 1
    then show ?thesis by (simp add: utf8_enc_def utf8_ranges)
  next
    case 2
    then have "c div 64 < 32" "2 \<le> c div 64" by auto
    then show ?thesis using 2 by (simp add: utf8_enc_def utf8_ranges del: of_nat_add)
  next
    case 3
    then have "c div 4096 < 16" by auto
    moreover have "c div 4096 = 0 \<Longrightarrow> 32 \<le> c div 64 mod 64"
    proof -
      assume "c div 4096 = 0"
      then have "c div 64 < 64" by auto
      then show ?thesis using 3 by auto
    qed
    moreover have "c div 4096 = 13 \<Longrightarrow> c div 64 mod 64 < 32"
    proof -
      assume "c div 4096 = 13"
      moreover have "c div (64 * 64) = c div 64 div 64" by (rule div_mult2_eq)
      moreover have "c div 64 < 864" using 3 assms calculation(1) by (auto simp: utf8_scalar_def)
      ultimately show ?thesis using div_mult_mod_eq [of "c div 64" 64] by simp
    qed
    moreover define x y z where "x = c div 4096" and "y = c div 64 mod 64" and "z = c mod 64"
    moreover have "y < 64" "z < 64" by (simp_all add: y_def z_def)
    moreover have "utf8_enc c = [of_nat (0xE0 + x), of_nat (0x80 + y), of_nat (0x80 + z)]"
      using 3 by (simp add: utf8_enc_def x_def y_def z_def)
    ultimately show ?thesis
      by (cases "x = 0"; cases "x = 13") (simp_all add: utf8_ranges del: of_nat_add)
  next
    case 4
    then have "c div 262144 < 5" by auto
    moreover have "c div 262144 = 0 \<Longrightarrow> 16 \<le> c div 4096 mod 64"
    proof -
      assume "c div 262144 = 0"
      then have "c div 4096 < 64" by auto
      then show ?thesis using 4 by auto
    qed
    moreover have "c div 262144 = 4 \<Longrightarrow> c div 4096 mod 64 < 16"
    proof -
      assume "c div 262144 = 4"
      moreover have "c div (4096 * 64) = c div 4096 div 64" by (rule div_mult2_eq)
      moreover have "c div 4096 < 272" using 4 by auto
      ultimately show ?thesis using div_mult_mod_eq [of "c div 4096" 64] by simp
    qed
    ultimately show ?thesis using 4
      by (cases "c div 262144 = 0"; cases "c div 262144 = 4") (auto simp add: utf8_enc_def utf8_ranges not_le simp del: of_nat_add)
  qed
qed

lemma utf8_dec2:
  assumes "0xC2 \<le> unat b" "unat b < 0xE0" "0x80 \<le> unat b1" "unat b1 < 0xC0"
  shows "\<exists>c. utf8_scalar c \<and> [b, b1] = utf8_enc c"
proof -
  obtain x y where xy: "unat b = 192 + x" "unat b1 = 128 + y"
    using assms le_Suc_ex [of 192 "unat b"] le_Suc_ex [of 128 "unat b1"] by auto
  have "64 * x + y < 0x800" "0x80 \<le> 64 * x + y" "y < 64" using assms xy by auto
  then have "utf8_scalar (64 * x + y)" "[b, b1] = utf8_enc (64 * x + y)"
    using xy assms by (simp_all add: utf8_scalar_def utf8_enc_def word_unat_eq_iff del: of_nat_add)
  then show ?thesis by blast
qed

lemma utf8_dec3:
  assumes "0xE0 \<le> unat b" "unat b < 0xF0" "0x80 \<le> unat b1" "unat b1 < 0xC0" "0x80 \<le> unat b2" "unat b2 < 0xC0"
    "unat b = 0xE0 \<Longrightarrow> 0xA0 \<le> unat b1" "unat b = 0xED \<Longrightarrow> unat b1 < 0xA0"
  shows "\<exists>c. utf8_scalar c \<and> [b, b1, b2] = utf8_enc c"
proof -
  obtain x y z where xyz: "unat b = 0xE0 + x" "unat b1 = 128 + y" "unat b2 = 128 + z"
    using assms le_Suc_ex [of 224 "unat b"] le_Suc_ex [of 128 "unat b1"] le_Suc_ex [of 128 "unat b2"] by auto
  define c where "c = 4096 * x + 64 * y + z"
  have b: "y < 64" "z < 64" "x < 16" using assms xyz by auto
  have "c < 0x10000" using b by (simp add: c_def)
  moreover have "0x800 \<le> c" using assms(7) xyz b by (cases "x = 0") (simp_all add: c_def)
  moreover have "c < 0xD800 \<or> 0xE000 \<le> c" using assms(8) xyz b
    by (cases x "13::nat" rule: linorder_cases) (simp_all add: c_def)
  moreover have "c div 4096 = x" "c div 64 mod 64 = y" "c mod 64 = z"
  proof -
    have c: "c = 64 * (64 * x + y) + z" by (simp add: c_def)
    have "c div 64 = 64 * x + y" and m: "c mod 64 = z" unfolding c using b by (simp_all only: div_mult_self4 mod_mult_self4) simp_all
    moreover have "c div (64 * 64) = c div 64 div 64" by (rule div_mult2_eq)
    ultimately show "c div 64 mod 64 = y" "c div 4096 = x" using b by simp_all
    show "c mod 64 = z" by (rule m)
  qed
  ultimately have "utf8_scalar c" "[b, b1, b2] = utf8_enc c"
    using xyz b by (simp_all add: utf8_scalar_def utf8_enc_def word_unat_eq_iff del: of_nat_add)
  then show ?thesis by blast
qed

lemma utf8_dec4:
  assumes "0xF0 \<le> unat b" "unat b \<le> 0xF4" "0x80 \<le> unat b1" "unat b1 < 0xC0" "0x80 \<le> unat b2" "unat b2 < 0xC0"
    "0x80 \<le> unat b3" "unat b3 < 0xC0" "unat b = 0xF0 \<Longrightarrow> 0x90 \<le> unat b1" "unat b = 0xF4 \<Longrightarrow> unat b1 < 0x90"
  shows "\<exists>c. utf8_scalar c \<and> [b, b1, b2, b3] = utf8_enc c"
proof -
  obtain x y z w where xyz: "unat b = 0xF0 + x" "unat b1 = 128 + y" "unat b2 = 128 + z" "unat b3 = 128 + w"
    using assms le_Suc_ex [of 240 "unat b"] le_Suc_ex [of 128 "unat b1"] le_Suc_ex [of 128 "unat b2"]
      le_Suc_ex [of 128 "unat b3"] by auto
  define c where "c = 262144 * x + 4096 * y + 64 * z + w"
  have b: "y < 64" "z < 64" "w < 64" "x < 5" using assms xyz by auto
  have "c < 0x110000" using assms(10) xyz b by (cases "x = 4") (simp_all add: c_def)
  moreover have "0x10000 \<le> c" using assms(9) xyz b by (cases "x = 0") (simp_all add: c_def)
  moreover have "c div 262144 = x" "c div 4096 mod 64 = y" "c div 64 mod 64 = z" "c mod 64 = w"
  proof -
    have c: "c = 64 * (64 * (64 * x + y) + z) + w" by (simp add: c_def)
    have "c div 64 = 64 * (64 * x + y) + z" and m: "c mod 64 = w"
      unfolding c using b by (simp_all only: div_mult_self4 mod_mult_self4) simp_all
    moreover have "(64 * (64 * x + y) + z) div 64 = 64 * x + y" and m2: "(64 * (64 * x + y) + z) mod 64 = z"
      using b by (simp_all only: div_mult_self4 mod_mult_self4) simp_all
    moreover have "c div (64 * 64) = c div 64 div 64" "c div (64 * 64 * 64) = c div 64 div 64 div 64"
      by (simp_all only: div_mult2_eq)
    ultimately have *: "c div 4096 = 64 * x + y" "c div 262144 = (64 * x + y) div 64" "c div 64 mod 64 = z" by simp_all
    then show "c div 4096 mod 64 = y" "c div 262144 = x" "c div 64 mod 64 = z" using b by simp_all
    show "c mod 64 = w" by (rule m)
  qed
  ultimately have "utf8_scalar c" "[b, b1, b2, b3] = utf8_enc c"
    using xyz b by (simp_all add: utf8_scalar_def utf8_enc_def word_unat_eq_iff del: of_nat_add)
  then show ?thesis by blast
qed

lemma utf8_extend:
  assumes "\<exists>c. utf8_scalar c \<and> xs = utf8_enc c" "\<exists>cs. list_all utf8_scalar cs \<and> bs = concat (map utf8_enc cs)"
  shows "\<exists>cs. list_all utf8_scalar cs \<and> xs @ bs = concat (map utf8_enc cs)"
proof -
  obtain c cs where "utf8_scalar c" "xs = utf8_enc c" "list_all utf8_scalar cs" "bs = concat (map utf8_enc cs)"
    using assms by blast
  then show ?thesis by (intro exI [of _ "c # cs"]) simp
qed

lemma list_cases3:
  obtains "xs = []" | x where "xs = [x]" | x y r where "xs = x # y # r"
  by (metis list.exhaust)

lemma utf8_complete: "wah_is_valid_utf8 bs \<Longrightarrow> \<exists>cs. list_all utf8_scalar cs \<and> bs = concat (map utf8_enc cs)"
proof (induction bs rule: wah_is_valid_utf8.induct)
  case 1
  then show ?case by (intro exI [of _ "[]"]) simp
next
  case (2 b bs)
  consider (a) "unat b < 0x80" | (b) "0xC0 \<le> unat b" "unat b < 0xE0" | (c) "0xE0 \<le> unat b" "unat b < 0xF0"
    | (d) "0xF0 \<le> unat b" "unat b < 0xF8" | (e) "0x80 \<le> unat b" "unat b < 0xC0 \<or> 0xF8 \<le> unat b" by linarith
  then show ?case
  proof cases
    case a
    then have "\<exists>c. utf8_scalar c \<and> [b] = utf8_enc c"
      by (intro exI [of _ "unat b"]) (simp add: utf8_scalar_def utf8_enc_def)
    from utf8_extend [OF this] show ?thesis using "2.IH"(1) "2.prems" a by (simp add: word_less_nat_alt)
  next
    case b
    then obtain b1 r where "bs = b1 # r" "0xC2 \<le> unat b" "0x80 \<le> unat b1" "unat b1 < 0xC0" "wah_is_valid_utf8 r"
      using "2.prems" by (cases bs) (auto simp: utf8_ranges split: if_splits)
    then show ?thesis using utf8_extend [OF utf8_dec2 [of b b1], of r] "2.IH"(2) [of b1 r] b by (simp add: utf8_ranges)
  next
    case c
    then obtain b1 b2 r where r: "bs = b1 # b2 # r" "0x80 \<le> unat b1" "unat b1 < 0xC0" "0x80 \<le> unat b2"
      "unat b2 < 0xC0" "\<not> (unat b = 0xE0 \<and> unat b1 < 0xA0)" "\<not> (unat b = 0xED \<and> 0xA0 \<le> unat b1)" "wah_is_valid_utf8 r"
      using "2.prems" by (cases bs rule: list_cases3) (auto simp: utf8_ranges split: if_splits)
    then have "\<exists>c. utf8_scalar c \<and> [b, b1, b2] = utf8_enc c" using c by (intro utf8_dec3) auto
    from utf8_extend [OF this, of r] show ?thesis using "2.IH"(3) c r by (simp add: utf8_ranges)
  next
    case d
    then obtain b1 b2 b3 r where r: "bs = b1 # b2 # b3 # r" "unat b \<le> 0xF4" "0x80 \<le> unat b1" "unat b1 < 0xC0"
      "0x80 \<le> unat b2" "unat b2 < 0xC0" "0x80 \<le> unat b3" "unat b3 < 0xC0"
      "\<not> (unat b = 0xF0 \<and> unat b1 < 0x90)" "\<not> (unat b = 0xF4 \<and> 0x90 \<le> unat b1)" "wah_is_valid_utf8 r"
      using "2.prems" by (cases bs rule: list_cases3; cases "tl (tl bs)") (auto simp: utf8_ranges split: if_splits)
    then have "\<exists>c. utf8_scalar c \<and> [b, b1, b2, b3] = utf8_enc c" using d by (intro utf8_dec4) auto
    from utf8_extend [OF this, of r] show ?thesis using "2.IH"(4) d r
      by (simp add: utf8_ranges)
  next
    case e
    then show ?thesis using "2.prems" by (auto simp: utf8_ranges)
  qed
qed

lemma utf8_sound: "list_all utf8_scalar cs \<Longrightarrow> wah_is_valid_utf8 (concat (map utf8_enc cs))"
  by (induction cs) (simp_all add: utf8_enc_valid)
section \<open>Decoders read a prefix\<close>

text \<open>
  The contract of a decoder: on success it has consumed a non-empty prefix of its input, and it gives the
  same result on every input with that prefix. In the C code: \<open>*ptr\<close> only moves forward, stays within
  \<open>end\<close>, and no byte at or after the new \<open>*ptr\<close> was used.
\<close>

locale stream_decoder =
  fixes dec :: "bytes \<Rightarrow> ('a \<times> bytes) res"
  assumes local: "dec bs = Inr (x, r) \<Longrightarrow> \<exists>p. p \<noteq> [] \<and> bs = p @ r \<and> (\<forall>t. dec (p @ t) = Inr (x, t))"
begin

lemma dec_suffix: "dec bs = Inr (x, r) \<Longrightarrow> suffix r bs"
  using local by (force simp: suffix_def)

lemma dec_shorter: "dec bs = Inr (x, r) \<Longrightarrow> length r < length bs"
  using local by fastforce

lemma dec_extend: "dec bs = Inr (x, r) \<Longrightarrow> dec (bs @ t) = Inr (x, r @ t)"
  using local by fastforce

lemma dec_append: "dec bs = Inr (x, []) \<Longrightarrow> dec (bs @ t) = Inr (x, t)"
  using dec_extend by force

lemma dec_prefix_unique:
  assumes "dec bs = Inr (x, [])" "dec cs = Inr (y, [])" "prefix bs cs"
  shows "bs = cs \<and> x = y"
proof -
  obtain t where t: "cs = bs @ t" using assms(3) by (auto simp: prefix_def)
  have "dec cs = Inr (x, t)" using dec_append [OF assms(1), of t] t by simp
  then show ?thesis using assms(2) t by simp
qed

text \<open>A counted loop of \<open>n\<close> rounds that each decode one item needs at least \<open>n\<close> bytes.\<close>

lemma loop_consumes:
  assumes "repeat_dec n (\<lambda>s bs. WAH_CHECK (dec bs) (\<lambda>(x, bs'). Inr (f s x, bs'))) s bs = Inr (s', bs')"
  shows "length bs' + n \<le> length bs"
  using assms
proof (induction n arbitrary: s bs)
  case (Suc n)
  from Suc.prems obtain x cs where x: "dec bs = Inr (x, cs)"
    and run: "repeat_dec n (\<lambda>s bs. WAH_CHECK (dec bs) (\<lambda>(x, bs'). Inr (f s x, bs'))) (f s x) cs = Inr (s', bs')"
    by (auto simp: res_simps)
  show ?case using Suc.IH [OF run] dec_shorter [OF x] by simp
qed simp

end

lemma uleb128_loop_local:
  "uleb128_loop k v s bs = Inr (x, r) \<Longrightarrow> \<exists>p. p \<noteq> [] \<and> bs = p @ r \<and> (\<forall>t. uleb128_loop k v s (p @ t) = Inr (x, t))"
proof (induction k v s bs rule: uleb128_loop.induct)
  case (3 k v s b bs)
  show ?case
  proof (cases "b AND 0x80 = 0")
    case True
    then show ?thesis using "3.prems" by (intro exI [of _ "[b]"]) (auto simp: Let_def res_simps)
  next
    case False
    with 3 obtain p where "bs = p @ r"
      "\<forall>t. uleb128_loop k (v OR push_bit s (ucast (b AND 0x7F))) (s + 7) (p @ t) = Inr (x, t)"
      by (auto simp: Let_def)
    then show ?thesis using False by (intro exI [of _ "b # p"]) (auto simp: Let_def)
  qed
qed simp_all

lemma uleb128_64_loop_local:
  "uleb128_64_loop k v s bs = Inr (x, r) \<Longrightarrow> \<exists>p. p \<noteq> [] \<and> bs = p @ r \<and> (\<forall>t. uleb128_64_loop k v s (p @ t) = Inr (x, t))"
proof (induction k v s bs rule: uleb128_64_loop.induct)
  case (3 k v s b bs)
  show ?case
  proof (cases "b AND 0x80 = 0")
    case True
    then show ?thesis using "3.prems" by (intro exI [of _ "[b]"]) (auto simp: Let_def split: if_splits)
  next
    case False
    with 3 obtain p where "bs = p @ r"
      "\<forall>t. uleb128_64_loop k (v OR push_bit s (ucast (b AND 0x7F))) (s + 7) (p @ t) = Inr (x, t)"
      by (auto simp: Let_def)
    then show ?thesis using False by (intro exI [of _ "b # p"]) (auto simp: Let_def)
  qed
qed simp_all

lemma sleb128_32_loop_local:
  "sleb128_32_loop k v s bs = Inr (x, r) \<Longrightarrow> \<exists>p. p \<noteq> [] \<and> bs = p @ r \<and> (\<forall>t. sleb128_32_loop k v s (p @ t) = Inr (x, t))"
proof (induction k v s bs rule: sleb128_32_loop.induct)
  case (3 k v s b bs)
  show ?case
  proof (cases "b AND 0x80 = 0")
    case True
    then show ?thesis using "3.prems" by (intro exI [of _ "[b]"]) (auto simp: Let_def res_simps)
  next
    case False
    with 3 obtain p where "bs = p @ r"
      "\<forall>t. sleb128_32_loop k (v OR push_bit s (ucast (b AND 0x7F))) (s + 7) (p @ t) = Inr (x, t)"
      by (auto simp: Let_def)
    then show ?thesis using False by (intro exI [of _ "b # p"]) (auto simp: Let_def)
  qed
qed simp_all

lemma sleb128_64_loop_local:
  "sleb128_64_loop v s bs = Inr (x, r) \<Longrightarrow> \<exists>p. p \<noteq> [] \<and> bs = p @ r \<and> (\<forall>t. sleb128_64_loop v s (p @ t) = Inr (x, t))"
proof (induction v s bs rule: sleb128_64_loop.induct)
  case (2 v s b bs)
  show ?case
  proof (cases "b AND 0x80 = 0")
    case True
    then show ?thesis using "2.prems" by (intro exI [of _ "[b]"]) (auto simp: Let_def res_simps split: if_splits)
  next
    case False
    with 2 obtain p where "bs = p @ r"
      "\<forall>t. sleb128_64_loop (v OR push_bit s (ucast (b AND 0x7F))) (s + 7) (p @ t) = Inr (x, t)"
      by (auto simp: Let_def res_simps)
    then show ?thesis using False "2.prems" by (intro exI [of _ "b # p"]) (auto simp: Let_def res_simps)
  qed
qed simp_all

interpretation uleb32: stream_decoder wah_decode_uleb128
  by unfold_locales (auto simp: wah_decode_uleb128_def dest: uleb128_loop_local)

interpretation uleb64: stream_decoder wah_decode_uleb128_64
  by unfold_locales (auto simp: wah_decode_uleb128_64_def dest: uleb128_64_loop_local)

interpretation sleb32: stream_decoder wah_decode_sleb128_32
  by unfold_locales (auto simp: wah_decode_sleb128_32_def dest: sleb128_32_loop_local)

interpretation sleb64: stream_decoder wah_decode_sleb128_64
  by unfold_locales (auto simp: wah_decode_sleb128_64_def dest: sleb128_64_loop_local)

lemma heap_type_local:
  assumes "wah_decode_heap_type bs = Inr (x, r)"
  shows "\<exists>p. p \<noteq> [] \<and> bs = p @ r \<and> (\<forall>t. wah_decode_heap_type (p @ t) = Inr (x, t))"
proof -
  obtain b rest where bs: "bs = b # rest" using assms by (cases bs) (simp_all add: wah_decode_heap_type_def)
  show ?thesis
  proof (cases "wah_decode_abstract_heap_byte b")
    case (Some t)
    then show ?thesis using assms bs by (intro exI [of _ "[b]"]) (simp add: wah_decode_heap_type_def)
  next
    case None
    then obtain i where i: "wah_decode_sleb128_32 bs = Inr (i, r)" "0 \<le> i" "nat i \<le> WAH_MAX_TYPE_INDEX"
      "x = WAH_TYPE_FROM_IDX (nat i) False"
      using assms bs by (auto simp: wah_decode_heap_type_def res_simps)
    from sleb32.local [OF i(1)] obtain p where p: "p \<noteq> []" "bs = p @ r" "\<forall>t. wah_decode_sleb128_32 (p @ t) = Inr (i, t)"
      by blast
    then obtain q where "p = b # q" using bs by (cases p) auto
    then show ?thesis using p None i by (intro exI [of _ p]) (simp add: wah_decode_heap_type_def)
  qed
qed

interpretation heap_type: stream_decoder wah_decode_heap_type
  by unfold_locales (rule heap_type_local)

lemma opcode_local:
  assumes "wah_decode_opcode bs = Inr (x, r)"
  shows "\<exists>p. p \<noteq> [] \<and> bs = p @ r \<and> (\<forall>t. wah_decode_opcode (p @ t) = Inr (x, t))"
proof -
  obtain b rest where bs: "bs = b # rest" using assms by (cases bs) (simp_all add: wah_decode_opcode_def)
  consider (pre) s where "b \<in> {0xFB, 0xFC, 0xFD}" "wah_decode_uleb128 rest = Inr (s, r)" | (plain) "b \<notin> {0xFB, 0xFC, 0xFD}" "r = rest"
    using assms bs by (auto simp: wah_decode_opcode_def res_simps split: if_splits)
  then show ?thesis
  proof cases
    case pre
    then obtain p where "p \<noteq> []" "rest = p @ r" "\<forall>t. wah_decode_uleb128 (p @ t) = Inr (s, t)"
      using uleb32.local by blast
    then show ?thesis using assms bs pre
      by (intro exI [of _ "b # p"]) (auto simp: wah_decode_opcode_def res_simps)
  next
    case plain
    then show ?thesis using assms bs by (intro exI [of _ "[b]"]) (auto simp: wah_decode_opcode_def res_simps)
  qed
qed

interpretation opcode: stream_decoder wah_decode_opcode
  by unfold_locales (rule opcode_local)

lemma name_local:
  assumes "wah_parse_name bs = Inr (x, r)"
  shows "\<exists>p. p \<noteq> [] \<and> bs = p @ r \<and> (\<forall>t. wah_parse_name (p @ t) = Inr (x, t))"
proof -
  obtain n rest where n: "wah_decode_uleb128 bs = Inr (n, rest)" "unat n \<le> length rest" "wah_is_valid_utf8 (take (unat n) rest)"
    "x = take (unat n) rest" "r = drop (unat n) rest"
    using assms by (auto simp: wah_parse_name_def res_simps)
  from uleb32.local [OF n(1)] obtain p where "p \<noteq> []" "bs = p @ rest" "\<forall>t. wah_decode_uleb128 (p @ t) = Inr (n, t)" by blast
  then show ?thesis using n
    by (intro exI [of _ "p @ take (unat n) rest"]) (auto simp: wah_parse_name_def)
qed

interpretation name: stream_decoder wah_parse_name
  by unfold_locales (rule name_local)

text \<open>The decoders that also thread the module (they record required features).\<close>

lemma pair_rest_Inr [simp]: "pair_rest (Inr (x, m, bs)) = Inr ((x, m), bs)"
  by (simp add: pair_rest_def)

lemma pair_rest_eq [res_simps]: "pair_rest r = Inr ((x, m), bs) \<longleftrightarrow> r = Inr (x, m, bs)"
  by (auto simp: pair_rest_def res_simps)

lemma ref_type_local:
  assumes "wah_decode_ref_type m bs = Inr (x, m', r)"
  shows "\<exists>p. p \<noteq> [] \<and> bs = p @ r \<and> (\<forall>t. wah_decode_ref_type m (p @ t) = Inr (x, m', t))"
proof -
  obtain b rest where bs: "bs = b # rest" using assms by (cases bs) (simp_all add: wah_decode_ref_type_def)
  show ?thesis
  proof (cases "wah_decode_abstract_heap_byte b")
    case (Some t)
    then show ?thesis using assms bs by (intro exI [of _ "[b]"]) (simp add: wah_decode_ref_type_def)
  next
    case None
    then obtain h where h: "wah_decode_heap_type rest = Inr (h, r)" "b = 0x63 \<or> b = 0x64"
      "wah_require_feature m WAH_FEATURE_SHIFT_TYPED_FUNCREF = Inr m'" "x = (if b = 0x63 then WAH_TYPE_AS_NULLABLE h else h)"
      using assms bs by (auto simp: wah_decode_ref_type_def res_simps split: if_splits)
    from heap_type.local [OF h(1)] obtain p where "p \<noteq> []" "rest = p @ r" "\<forall>t. wah_decode_heap_type (p @ t) = Inr (h, t)"
      by blast
    then show ?thesis using bs None h by (intro exI [of _ "b # p"]) (auto simp: wah_decode_ref_type_def)
  qed
qed

interpretation ref_type: stream_decoder "\<lambda>bs. pair_rest (wah_decode_ref_type m bs)" for m
  by unfold_locales (auto simp: res_simps dest: ref_type_local)

lemma val_type_local:
  assumes "wah_decode_val_type m bs = Inr (x, m', r)"
  shows "\<exists>p. p \<noteq> [] \<and> bs = p @ r \<and> (\<forall>t. wah_decode_val_type m (p @ t) = Inr (x, m', t))"
proof -
  obtain b rest where bs: "bs = b # rest" using assms by (cases bs) (simp_all add: wah_decode_val_type_def)
  show ?thesis
  proof (cases "b \<in> {0x7F, 0x7E, 0x7D, 0x7C, 0x7B}")
    case True
    then show ?thesis using assms bs by (intro exI [of _ "[b]"]) (auto simp: wah_decode_val_type_def)
  next
    case False
    then have "wah_decode_ref_type m bs = Inr (x, m', r)" using assms bs by (simp add: wah_decode_val_type_def)
    from ref_type_local [OF this] obtain p where p: "p \<noteq> []" "bs = p @ r" "\<forall>t. wah_decode_ref_type m (p @ t) = Inr (x, m', t)" by blast
    then obtain q where "p = b # q" using bs by (cases p) auto
    then show ?thesis using p False by (intro exI [of _ p]) (auto simp: wah_decode_val_type_def)
  qed
qed

interpretation val_type: stream_decoder "\<lambda>bs. pair_rest (wah_decode_val_type m bs)" for m
  by unfold_locales (auto simp: res_simps dest: val_type_local)

lemma storage_type_local:
  assumes "wah_decode_storage_type m bs = Inr (x, m', r)"
  shows "\<exists>p. p \<noteq> [] \<and> bs = p @ r \<and> (\<forall>t. wah_decode_storage_type m (p @ t) = Inr (x, m', t))"
proof -
  obtain b rest where bs: "bs = b # rest" using assms by (cases bs) (simp_all add: wah_decode_storage_type_def)
  show ?thesis
  proof (cases "b \<in> {0x78, 0x77}")
    case True
    then show ?thesis using assms bs by (intro exI [of _ "[b]"]) (auto simp: wah_decode_storage_type_def)
  next
    case False
    then have "wah_decode_val_type m bs = Inr (x, m', r)" using assms bs by (simp add: wah_decode_storage_type_def)
    from val_type_local [OF this] obtain p where p: "p \<noteq> []" "bs = p @ r" "\<forall>t. wah_decode_val_type m (p @ t) = Inr (x, m', t)" by blast
    then obtain q where "p = b # q" using bs by (cases p) auto
    then show ?thesis using p False by (intro exI [of _ p]) (auto simp: wah_decode_storage_type_def)
  qed
qed

interpretation storage_type: stream_decoder "\<lambda>bs. pair_rest (wah_decode_storage_type m bs)" for m
  by unfold_locales (auto simp: res_simps dest: storage_type_local)
section \<open>Shape of what is decoded\<close>

lemma heap_type_wf: "wah_decode_heap_type bs = Inr (t, r) \<Longrightarrow> even t \<and> WAH_TYPE_IS_REF t \<and> t < 2 ^ 31 - 1"
  by (cases bs) (auto simp: wah_decode_heap_type_def res_simps from_idx_eq wah_decode_abstract_heap_byte_def
      WAH_TYPE_IS_REF_def WAH_MAX_TYPE_INDEX_def split: option.splits if_splits)

lemma abstract_heap_byte_wf: "wah_decode_abstract_heap_byte b = Some t \<Longrightarrow> even t \<and> -54 \<le> t \<and> t \<le> -32"
  by (auto simp: wah_decode_abstract_heap_byte_def split: if_splits)

lemma as_nullable_wf:
  assumes "even t" "WAH_TYPE_IS_REF t" "t < 2 ^ 31 - 1"
  shows "WAH_TYPE_IS_REF (WAH_TYPE_AS_NULLABLE t) \<and> WAH_TYPE_AS_NULLABLE t < 2 ^ 31"
proof -
  have "t \<noteq> -31" using assms(1) by auto
  then show ?thesis using assms by (auto simp: as_nullable_eq WAH_TYPE_IS_REF_def)
qed

lemma ref_type_wf:
  assumes "wah_decode_ref_type m bs = Inr (t, m', r)"
  shows "WAH_TYPE_IS_REF t \<and> t < 2 ^ 31"
proof -
  obtain b rest where bs: "bs = b # rest" using assms by (cases bs) (simp_all add: wah_decode_ref_type_def)
  show ?thesis
  proof (cases "wah_decode_abstract_heap_byte b")
    case (Some h)
    then have "t = WAH_TYPE_AS_NULLABLE h" using assms bs by (simp add: wah_decode_ref_type_def)
    then show ?thesis using as_nullable_wf [of h] abstract_heap_byte_wf [OF Some] by (auto simp: WAH_TYPE_IS_REF_def)
  next
    case None
    then obtain h where h: "wah_decode_heap_type rest = Inr (h, r)" "t = WAH_TYPE_AS_NULLABLE h \<or> t = h"
      using assms bs by (auto simp: wah_decode_ref_type_def res_simps split: if_splits)
    then show ?thesis using as_nullable_wf [of h] heap_type_wf [OF h(1)] by auto
  qed
qed

lemma val_type_wf:
  assumes "wah_decode_val_type m bs = Inr (t, m', r)"
  shows "wah_is_val_type t"
proof -
  obtain b rest where bs: "bs = b # rest" using assms by (cases bs) (simp_all add: wah_decode_val_type_def)
  show ?thesis
  proof (cases "b \<in> {0x7F, 0x7E, 0x7D, 0x7C, 0x7B}")
    case True
    then show ?thesis using assms bs by (auto simp: wah_decode_val_type_def wah_is_val_type_def)
  next
    case False
    then have "wah_decode_ref_type m bs = Inr (t, m', r)" using assms bs by (simp add: wah_decode_val_type_def)
    from ref_type_wf [OF this] show ?thesis by (simp add: wah_is_val_type_def)
  qed
qed

lemma storage_type_wf:
  assumes "wah_decode_storage_type m bs = Inr (t, m', r)"
  shows "wah_is_val_type t \<or> WAH_TYPE_IS_PACKED t"
proof -
  obtain b rest where bs: "bs = b # rest" using assms by (cases bs) (simp_all add: wah_decode_storage_type_def)
  show ?thesis
  proof (cases "b \<in> {0x78, 0x77}")
    case True
    then show ?thesis using assms bs by (auto simp: wah_decode_storage_type_def WAH_TYPE_IS_PACKED_def)
  next
    case False
    then have "wah_decode_val_type m bs = Inr (t, m', r)" using assms bs by (simp add: wah_decode_storage_type_def)
    from val_type_wf [OF this] show ?thesis ..
  qed
qed

lemma count_bounds:
  assumes "wah_decode_and_validate_count k bs = Inr (n, r)"
  shows "n * k \<le> length r" "n < 2 ^ 32" "suffix r bs"
proof -
  obtain c where c: "wah_decode_uleb128 bs = Inr (c, r)" "n = unat c" "unat c * k \<le> length r"
    using assms by (auto simp: wah_decode_and_validate_count_def res_simps split: if_splits)
  then show "n * k \<le> length r" "n < 2 ^ 32" using unsigned_less [of c, where 'a = nat] by simp_all
  show "suffix r bs" by (rule uleb32.dec_suffix [OF c(1)])
qed

section \<open>Properties\<close>

text \<open>The two unsigned LEB128 decoders compute the mathematical value of the encoding: at most 5 (10) bytes
  are read, the result is exact when it fits 32 (64) bits, and every other outcome is the documented error.\<close>

lemma leb_unsigned_refines:
  "wah_decode_uleb128 bs = WAH_CHECK (uleb_ref 5 bs) (\<lambda>(v, r).
     WAH_ENSURE (v < 2 ^ 32) WAH_ERROR_TOO_LARGE (Inr (of_nat v, r)))
   \<and> wah_decode_uleb128_64 bs = WAH_CHECK (uleb_ref 10 bs) (\<lambda>(v, r).
     WAH_ENSURE (v < 2 ^ 64) WAH_ERROR_TOO_LARGE (Inr (of_nat v, r)))"
  using uleb128_loop_ref [of 0 0 5 bs] uleb128_64_loop_ref [of 0 0 10 bs]
  by (simp add: wah_decode_uleb128_def wah_decode_uleb128_64_def)

text \<open>C31: The two signed LEB128 decoders compute the mathematical signed value, with its sign extension,
  exactly when it lies in the 32-bit (64-bit) range.\<close>

theorem leb_signed_refines:
  "wah_decode_sleb128_32 bs = WAH_CHECK (sleb_ref (\<lambda>_. WAH_ERROR_TOO_LARGE) 5 bs) (\<lambda>(v, r).
     WAH_ENSURE (- (2 ^ 31) \<le> v \<and> v \<le> 2 ^ 31 - 1) WAH_ERROR_TOO_LARGE (Inr (v, r)))
   \<and> wah_decode_sleb128_64 bs =
     WAH_CHECK (sleb_ref (\<lambda>bs. if bs = [] then WAH_ERROR_UNEXPECTED_EOF else WAH_ERROR_TOO_LARGE) 10 bs) (\<lambda>(v, r).
     WAH_ENSURE (- (2 ^ 63) \<le> v \<and> v \<le> 2 ^ 63 - 1) WAH_ERROR_TOO_LARGE (Inr (v, r)))"
  using sleb128_32_loop_ref [of 0 0 5 bs] sleb128_64_loop_ref [of 0 0 10 bs]
  by (simp add: wah_decode_sleb128_32_def wah_decode_sleb128_64_def)

text \<open>Decoding the canonical encoding of any 32-bit or 64-bit integer, signed or unsigned, gives it back and
  leaves what follows.\<close>

lemma leb_roundtrip:
  "wah_decode_uleb128 (uleb_enc (unat (w :: u32)) @ rest) = Inr (w, rest)
   \<and> wah_decode_uleb128_64 (uleb_enc (unat (x :: u64)) @ rest) = Inr (x, rest)
   \<and> wah_decode_sleb128_32 (sleb_enc (sint w) @ rest) = Inr (sint w, rest)
   \<and> wah_decode_sleb128_64 (sleb_enc (sint x) @ rest) = Inr (sint x, rest)"
proof -
  have w: "unat w < 2 ^ 32" "- (2 ^ 31) \<le> sint w" "sint w \<le> 2 ^ 31 - 1"
    using unsigned_less [of w, where 'a = nat] sint_greater_eq [of w] sint_less [of w] by simp_all
  have x: "unat x < 2 ^ 64" "- (2 ^ 63) \<le> sint x" "sint x \<le> 2 ^ 63 - 1"
    using unsigned_less [of x, where 'a = nat] sint_greater_eq [of x] sint_less [of x] by simp_all
  have "uleb_ref 5 (uleb_enc (unat w) @ rest) = Inr (unat w, rest)"
    using uleb_ref_enc [of "unat w" 4 rest] w by simp
  moreover have "uleb_ref 10 (uleb_enc (unat x) @ rest) = Inr (unat x, rest)"
    using uleb_ref_enc [of "unat x" 9 rest] x by simp
  moreover have "sleb_ref over 5 (sleb_enc (sint w) @ rest) = Inr (sint w, rest)" for over
    using sleb_ref_enc [of 4 "sint w" over rest] w by simp
  moreover have "sleb_ref over 10 (sleb_enc (sint x) @ rest) = Inr (sint x, rest)" for over
    using sleb_ref_enc [of 9 "sint x" over rest] x by simp
  ultimately show ?thesis
    using uleb128_loop_ref [of 0 0 5 "uleb_enc (unat w) @ rest"] uleb128_64_loop_ref [of 0 0 10 "uleb_enc (unat x) @ rest"]
      sleb128_32_loop_ref [of 0 0 5 "sleb_enc (sint w) @ rest"] sleb128_64_loop_ref [of 0 0 10 "sleb_enc (sint x) @ rest"] w x
    by (simp add: wah_decode_uleb128_def wah_decode_uleb128_64_def wah_decode_sleb128_32_def wah_decode_sleb128_64_def)
qed

text \<open>Little-endian stores and loads are inverse to each other, in both directions and at every width.\<close>

lemma little_endian_roundtrip:
  "wah_read_u8_le (wah_write_u8_le b @ rest) = b
   \<and> wah_read_u16_le (wah_write_u16_le h @ rest) = h
   \<and> wah_read_u32_le (wah_write_u32_le w @ rest) = w
   \<and> wah_read_u64_le (wah_write_u64_le x @ rest) = x
   \<and> wah_write_u16_le (wah_read_u16_le [b0, b1]) = [b0, b1]
   \<and> wah_write_u32_le (wah_read_u32_le [b0, b1, b2, b3]) = [b0, b1, b2, b3]
   \<and> wah_write_u64_le (wah_read_u64_le [b0, b1, b2, b3, b4, b5, b6, b7]) = [b0, b1, b2, b3, b4, b5, b6, b7]"
  by (simp add: read_write_u16 read_write_u32 read_write_u64 write_read_u16 write_read_u32 write_read_u64
      wah_read_u8_le_def wah_write_u8_le_def)

text \<open>C32: A name is accepted exactly when it is the UTF-8 encoding of a sequence of Unicode scalar values: no
  overlong forms, no surrogates, nothing above U+10FFFF, nothing truncated.\<close>

theorem utf8_valid_iff:
  "wah_is_valid_utf8 bs \<longleftrightarrow> (\<exists>cs. list_all utf8_scalar cs \<and> bs = concat (map utf8_enc cs))"
  using utf8_complete utf8_sound by auto

text \<open>A value type that decodes is a numeric, vector or reference type, and decoding it used only a non-empty
  prefix of the input: appending any bytes to that prefix gives the same type and leaves those bytes.\<close>

lemma val_type_decoder:
  assumes "wah_decode_val_type m bs = Inr (t, m', r)"
  shows "wah_is_val_type t \<and> (\<exists>p. p \<noteq> [] \<and> bs = p @ r \<and> (\<forall>s. wah_decode_val_type m (p @ s) = Inr (t, m', s)))"
  using val_type_wf [OF assms] val_type_local [OF assms] by simp

text \<open>An opcode that decodes lies in the enumeration, with the prefixed opcodes in their own ranges; a count that
  is accepted leaves at least the minimal number of bytes for that many items.\<close>

lemma opcode_and_count_bounds:
  assumes "wah_decode_opcode bs = Inr (opc, r)" "wah_decode_and_validate_count k cs = Inr (n, r')"
  shows "opc < WAH_FE \<and> (if hd bs \<in> {0xFB, 0xFC, 0xFD} then WAH_FB \<le> opc else opc = unat (hd bs) \<and> opc < WAH_FB)
    \<and> length r < length bs \<and> n * k \<le> length r' \<and> n < 2 ^ 32 \<and> suffix r' cs"
proof -
  obtain b rest where bs: "bs = b # rest" using assms(1) by (cases bs) (simp_all add: wah_decode_opcode_def)
  then have "opc < WAH_FE \<and> (if b \<in> {0xFB, 0xFC, 0xFD} then WAH_FB \<le> opc else opc = unat b \<and> opc < WAH_FB)"
    using assms(1) by (auto simp: wah_decode_opcode_def res_simps split: if_splits)
  then show ?thesis using bs opcode.dec_shorter [OF assms(1)] count_bounds [OF assms(2)] by auto
qed

end
