(* ===== verification/Wah_Subtype.thy ===== *)
theory Wah_Subtype
  imports Wah_Decode "HOL-Library.Product_Lexorder"
begin

text \<open>
  Reference subtyping and the canonicalization of recursive type groups: the walk along supertypes, the
  abstract hierarchy, structural equality of types up to canonical references, the hash that finds
  candidate groups and the loop that fills \<open>canonical_map\<close>. The lemmas show that the search by hash finds the
  same representative as a search through all earlier groups, that the canonical map is idempotent and
  compatible with kinds and supertypes, and that subtyping is then a preorder.
\<close>

section \<open>Subtyping\<close>

text \<open>\<open>None\<close> is the zero that \<open>wah_type_def_kind\<close> returns when the type has no definition.\<close>

definition wah_type_def_kind :: "wah_module \<Rightarrow> wah_type \<Rightarrow> wah_comp_type_kind option" where
  "wah_type_def_kind m t =
    (if t < 0 \<or> WAH_TYIDX t \<ge> length (type_defs m) then None else Some (td_kind (type_defs m ! WAH_TYIDX t)))"

definition canon_same :: "wah_module \<Rightarrow> nat \<Rightarrow> nat \<Rightarrow> bool" where
  "canon_same m i j = (case canonical_map m of None \<Rightarrow> False | Some cm \<Rightarrow> cm ! i = cm ! j)"

text \<open>The walk along the supertypes of \<open>t\<close>. Supertypes have smaller indices, so the number of types is enough
  fuel (see \<open>super_walk_iff\<close>).\<close>

fun super_walk :: "nat \<Rightarrow> wah_module \<Rightarrow> nat \<Rightarrow> nat \<Rightarrow> bool" where
  "super_walk 0 m sup_idx t = False"
| "super_walk (Suc fuel) m sup_idx t =
    (case td_supertype (type_defs m ! t) of
       None \<Rightarrow> False
     | Some st \<Rightarrow> if st = sup_idx \<or> canon_same m st sup_idx then True else super_walk fuel m sup_idx st)"

definition wah_type_is_subtype :: "wah_type \<Rightarrow> wah_type \<Rightarrow> wah_module \<Rightarrow> bool" where
  "wah_type_is_subtype sub0 sup0 m =
    (if sub0 = sup0 \<or> sub0 = WAH_TYPE_BOT then True
     else if WAH_TYPE_IS_NULLABLE sub0 \<and> \<not> WAH_TYPE_IS_NULLABLE sup0 then False
     else let sub = WAH_TYPE_AS_NON_NULL sub0; sup = WAH_TYPE_AS_NON_NULL sup0 in
     if sub = sup then True
     else if sub \<ge> 0 \<and> sup \<ge> 0 then
       (let sub_idx = WAH_TYIDX sub; sup_idx = WAH_TYIDX sup in
        if sub_idx \<ge> length (type_defs m) \<or> sup_idx \<ge> length (type_defs m) then False
        else if canon_same m sub_idx sup_idx then True
        else super_walk (length (type_defs m)) m sup_idx sub_idx)
     else if sub \<ge> 0 then
       (let kind = wah_type_def_kind m sub in
        if sup = WAH_TYPE_ANY \<or> sup = WAH_TYPE_EQ then kind = Some WAH_COMP_STRUCT \<or> kind = Some WAH_COMP_ARRAY
        else if sup = WAH_TYPE_STRUCT then kind = Some WAH_COMP_STRUCT
        else if sup = WAH_TYPE_ARRAY then kind = Some WAH_COMP_ARRAY
        else if sup = WAH_TYPE_FUNC then kind = Some WAH_COMP_FUNC
        else False)
     else if sup \<ge> 0 then
       (let kind = wah_type_def_kind m sup in
        if sub = WAH_TYPE_NONE then kind = Some WAH_COMP_STRUCT \<or> kind = Some WAH_COMP_ARRAY
        else if sub = WAH_TYPE_NOFUNC then kind = Some WAH_COMP_FUNC
        else False)
     else if \<not> WAH_TYPE_IS_REF sub \<or> \<not> WAH_TYPE_IS_REF sup then False
     else if sup = WAH_TYPE_ANY then
       sub \<noteq> WAH_TYPE_EXTERN \<and> sub \<noteq> WAH_TYPE_EXN \<and> sub \<noteq> WAH_TYPE_NOEXTERN \<and> sub \<noteq> WAH_TYPE_NOEXN
         \<and> sub \<noteq> WAH_TYPE_FUNC \<and> sub \<noteq> WAH_TYPE_NOFUNC
     else if sup = WAH_TYPE_EQ then
       sub = WAH_TYPE_I31 \<or> sub = WAH_TYPE_STRUCT \<or> sub = WAH_TYPE_ARRAY \<or> sub = WAH_TYPE_NONE
     else if sup = WAH_TYPE_STRUCT \<or> sup = WAH_TYPE_ARRAY \<or> sup = WAH_TYPE_I31 then sub = WAH_TYPE_NONE
     else if sup = WAH_TYPE_FUNC then sub = WAH_TYPE_NOFUNC
     else if sup = WAH_TYPE_EXTERN then sub = WAH_TYPE_NOEXTERN
     else if sup = WAH_TYPE_EXN then sub = WAH_TYPE_NOEXN
     else False)"

definition wah_type_hierarchy_top :: "wah_type \<Rightarrow> wah_module \<Rightarrow> wah_type" where
  "wah_type_hierarchy_top t0 m =
    (let t = WAH_TYPE_AS_NON_NULL t0 in
     if t \<ge> 0 then
       (case wah_type_def_kind m t of
          Some WAH_COMP_STRUCT \<Rightarrow> WAH_TYPE_ANY | Some WAH_COMP_ARRAY \<Rightarrow> WAH_TYPE_ANY
        | Some WAH_COMP_FUNC \<Rightarrow> WAH_TYPE_FUNC | None \<Rightarrow> WAH_TYPE_BOT)
     else if t = WAH_TYPE_ANY \<or> t = WAH_TYPE_EQ \<or> t = WAH_TYPE_I31 \<or> t = WAH_TYPE_STRUCT \<or> t = WAH_TYPE_ARRAY
       \<or> t = WAH_TYPE_NONE then WAH_TYPE_ANY
     else if t = WAH_TYPE_FUNC \<or> t = WAH_TYPE_NOFUNC then WAH_TYPE_FUNC
     else if t = WAH_TYPE_EXTERN \<or> t = WAH_TYPE_NOEXTERN then WAH_TYPE_EXTERN
     else if t = WAH_TYPE_EXN \<or> t = WAH_TYPE_NOEXN then WAH_TYPE_EXN
     else WAH_TYPE_BOT)"

section \<open>Structural equality\<close>

definition wah_canonicalize_type_ref :: "wah_type \<Rightarrow> nat \<Rightarrow> nat \<Rightarrow> nat list \<Rightarrow> nat \<Rightarrow> wah_type" where
  "wah_canonicalize_type_ref t rec_start rec_size cm type_count =
    (if t < 0 then t
     else let idx = WAH_TYIDX t in
       if idx \<ge> rec_start \<and> idx < rec_start + rec_size then t
       else if idx \<ge> type_count then t
       else WAH_TYPE_FROM_IDX (cm ! idx) (WAH_TYPE_IS_NULLABLE t))"

definition wah_canon_ref_eq :: "wah_type \<Rightarrow> nat \<Rightarrow> nat \<Rightarrow> wah_type \<Rightarrow> nat \<Rightarrow> nat \<Rightarrow> bool" where
  "wah_canon_ref_eq ta rga_s rga_n tb rgb_s rgb_n =
    (if WAH_TYPE_IS_NULLABLE ta \<noteq> WAH_TYPE_IS_NULLABLE tb then False
     else let ia = WAH_TYIDX ta; ib = WAH_TYIDX tb;
              a_in = (ta \<ge> 0 \<and> ia \<ge> rga_s \<and> ia < rga_s + rga_n);
              b_in = (tb \<ge> 0 \<and> ib \<ge> rgb_s \<and> ib < rgb_s + rgb_n)
     in if a_in \<and> b_in then ia - rga_s = ib - rgb_s
        else if a_in \<noteq> b_in then False
        else ta = tb)"

text \<open>The comparison of two references of the types \<open>a\<close> and \<open>b\<close>, each canonicalized in its own group.\<close>

definition group_ref_eq :: "wah_module \<Rightarrow> nat list \<Rightarrow> nat \<Rightarrow> nat \<Rightarrow> wah_type \<Rightarrow> wah_type \<Rightarrow> bool" where
  "group_ref_eq m cm a b ta tb =
    (let da = type_defs m ! a; db = type_defs m ! b; n = length (type_defs m) in
     wah_canon_ref_eq
       (wah_canonicalize_type_ref ta (td_rec_group_start da) (td_rec_group_size da) cm n) (td_rec_group_start da) (td_rec_group_size da)
       (wah_canonicalize_type_ref tb (td_rec_group_start db) (td_rec_group_size db) cm n) (td_rec_group_start db) (td_rec_group_size db))"

definition wah_types_structurally_equal :: "wah_module \<Rightarrow> nat \<Rightarrow> nat \<Rightarrow> nat list \<Rightarrow> bool" where
  "wah_types_structurally_equal m a b cm =
    (let td_a = type_defs m ! a; td_b = type_defs m ! b in
     td_kind td_a = td_kind td_b
     \<and> td_is_final td_a = td_is_final td_b
     \<and> (case (td_supertype td_a, td_supertype td_b) of
          (None, None) \<Rightarrow> True
        | (Some sa, Some sb) \<Rightarrow> group_ref_eq m cm a b (WAH_TYPE_FROM_IDX sa False) (WAH_TYPE_FROM_IDX sb False)
        | _ \<Rightarrow> False)
     \<and> (if td_kind td_a = WAH_COMP_FUNC then
          list_all2 (group_ref_eq m cm a b) (ft_param_types (types m ! a)) (ft_param_types (types m ! b))
          \<and> list_all2 (group_ref_eq m cm a b) (ft_result_types (types m ! a)) (ft_result_types (types m ! b))
        else
          list_all2 (group_ref_eq m cm a b) (td_field_types td_a) (td_field_types td_b)
          \<and> td_field_mutables td_a = td_field_mutables td_b))"

section \<open>Group hashes\<close>

definition wah_rec_group_hash_mix :: "u64 \<Rightarrow> u64 \<Rightarrow> u64" where
  "wah_rec_group_hash_mix h v =
    (let h1 = h + (v + 0x9e3779b97f4a7c15);
         h2 = (h1 XOR drop_bit 30 h1) * 0xbf58476d1ce4e5b9;
         h3 = (h2 XOR drop_bit 27 h2) * 0x94d049bb133111eb
     in h3 XOR drop_bit 31 h3)"

definition wah_rec_group_hash_type ::
    "wah_module \<Rightarrow> nat \<Rightarrow> nat \<Rightarrow> (nat \<Rightarrow> u64) \<Rightarrow> u64 \<Rightarrow> wah_type \<Rightarrow> u64" where
  "wah_rec_group_hash_type m rg_start rg_size group_hashes h t =
    (if t < 0 then wah_rec_group_hash_mix (wah_rec_group_hash_mix h 0) (of_int (take_bit 32 t))
     else let idx = WAH_TYIDX t; nullable = (of_bool (WAH_TYPE_IS_NULLABLE t) :: u64) in
       if idx \<ge> rg_start \<and> idx < rg_start + rg_size then
         wah_rec_group_hash_mix (wah_rec_group_hash_mix h 1) (push_bit 1 (of_nat (idx - rg_start)) OR nullable)
       else
         (let start = td_rec_group_start (type_defs m ! idx) in
          wah_rec_group_hash_mix (wah_rec_group_hash_mix (wah_rec_group_hash_mix h 2) (group_hashes start))
            (push_bit 1 (of_nat (idx - start)) OR nullable)))"

definition comp_kind_code :: "wah_comp_type_kind \<Rightarrow> u64" where
  "comp_kind_code k = (case k of WAH_COMP_FUNC \<Rightarrow> 0x60 | WAH_COMP_STRUCT \<Rightarrow> 0x5F | WAH_COMP_ARRAY \<Rightarrow> 0x5E)"

text \<open>One round of the loop over the types of a group, then the loop.\<close>

definition hash_type_def :: "wah_module \<Rightarrow> nat \<Rightarrow> nat \<Rightarrow> (nat \<Rightarrow> u64) \<Rightarrow> u64 \<Rightarrow> nat \<Rightarrow> u64" where
  "hash_type_def m rg_start rg_size group_hashes h0 i =
    (let td = type_defs m ! i;
         hash_ref = wah_rec_group_hash_type m rg_start rg_size group_hashes;
         h1 = wah_rec_group_hash_mix h0 (push_bit 1 (comp_kind_code (td_kind td)) OR of_bool (td_is_final td));
         h2 = (case td_supertype td of None \<Rightarrow> wah_rec_group_hash_mix h1 3
               | Some s \<Rightarrow> hash_ref h1 (WAH_TYPE_FROM_IDX s False))
     in if td_kind td = WAH_COMP_FUNC then
          (let ft = types m ! i;
               h3 = wah_rec_group_hash_mix h2
                 (push_bit 32 (of_nat (length (ft_param_types ft))) OR of_nat (length (ft_result_types ft)));
               h4 = foldl hash_ref h3 (ft_param_types ft)
           in foldl hash_ref h4 (ft_result_types ft))
        else
          foldl (\<lambda>h (t, mut). wah_rec_group_hash_mix (hash_ref h t) (of_bool mut))
            (wah_rec_group_hash_mix h2 (of_nat (length (td_field_types td))))
            (zip (td_field_types td) (td_field_mutables td)))"

definition wah_rec_group_hash :: "wah_module \<Rightarrow> nat \<Rightarrow> (nat \<Rightarrow> u64) \<Rightarrow> u64" where
  "wah_rec_group_hash m rg_start group_hashes =
    (let rg_size = td_rec_group_size (type_defs m ! rg_start) in
     foldl (hash_type_def m rg_start rg_size group_hashes) (wah_rec_group_hash_mix 0 (of_nat rg_size))
       [rg_start..<rg_start + rg_size])"

section \<open>The canonical map\<close>

text \<open>The starts of the groups in order, their hashes (an array filled at the starts only) and the keys that
  \<open>qsort\<close> orders with \<open>wah_rec_group_key_cmp\<close>, by hash and then by start.\<close>

definition group_starts :: "wah_module \<Rightarrow> nat list" where
  "group_starts m = filter (\<lambda>i. i = td_rec_group_start (type_defs m ! i)) [0..<length (type_defs m)]"

definition rec_group_hashes :: "wah_module \<Rightarrow> nat \<Rightarrow> u64" where
  "rec_group_hashes m = foldl (\<lambda>gh i. gh(i := wah_rec_group_hash m i gh)) (\<lambda>_. 0) (group_starts m)"

definition rec_group_keys :: "wah_module \<Rightarrow> (u64 \<times> nat) list" where
  "rec_group_keys m = (let gh = rec_group_hashes m in sort (map (\<lambda>i. (gh i, i)) (group_starts m)))"

function key_lower_bound :: "(u64 \<times> nat) list \<Rightarrow> u64 \<Rightarrow> nat \<Rightarrow> nat \<Rightarrow> nat" where
  "key_lower_bound keys h lo hi =
    (if lo < hi then
       (let mid = lo + (hi - lo) div 2 in
        if fst (keys ! mid) < h then key_lower_bound keys h (mid + 1) hi else key_lower_bound keys h lo mid)
     else lo)"
  by pat_completeness auto
termination by (relation "measure (\<lambda>(keys, h, lo, hi). hi - lo)") (auto simp: less_diff_conv2)

declare key_lower_bound.simps [simp del]

definition canon_match :: "wah_module \<Rightarrow> nat list \<Rightarrow> nat \<Rightarrow> nat \<Rightarrow> bool" where
  "canon_match m cm i j \<longleftrightarrow>
    cm ! j = j \<and> td_rec_group_size (type_defs m ! j) = td_rec_group_size (type_defs m ! i)
    \<and> list_all (\<lambda>k. wah_types_structurally_equal m (i + k) (j + k) cm) [0..<td_rec_group_size (type_defs m ! i)]"

definition canon_write :: "wah_module \<Rightarrow> nat list \<Rightarrow> nat \<Rightarrow> nat \<Rightarrow> nat list" where
  "canon_write m cm i j = foldl (\<lambda>cm k. cm[i + k := j + k]) cm [0..<td_rec_group_size (type_defs m ! i)]"

fun canon_scan :: "wah_module \<Rightarrow> u64 \<Rightarrow> nat \<Rightarrow> nat list \<Rightarrow> (u64 \<times> nat) list \<Rightarrow> nat list" where
  "canon_scan m h i cm [] = cm"
| "canon_scan m h i cm (key # keys) =
    (if fst key = h \<and> snd key < i then
       (if canon_match m cm i (snd key) then canon_write m cm i (snd key) else canon_scan m h i cm keys)
     else cm)"

definition canon_step :: "wah_module \<Rightarrow> nat list \<Rightarrow> nat \<Rightarrow> nat list" where
  "canon_step m cm i =
    (let keys = rec_group_keys m; h = rec_group_hashes m i in
     canon_scan m h i cm (drop (key_lower_bound keys h 0 (length keys)) keys))"

definition wah_build_canonical_map :: "wah_module \<Rightarrow> nat list" where
  "wah_build_canonical_map m = foldl (canon_step m) [0..<length (type_defs m)] (group_starts m)"

section \<open>Well-formed groups\<close>

abbreviation gs :: "wah_module \<Rightarrow> nat \<Rightarrow> nat" where "gs m i \<equiv> td_rec_group_start (type_defs m ! i)"
abbreviation gz :: "wah_module \<Rightarrow> nat \<Rightarrow> nat" where "gz m i \<equiv> td_rec_group_size (type_defs m ! i)"

definition type_refs :: "wah_module \<Rightarrow> nat \<Rightarrow> wah_type list" where
  "type_refs m i = (if td_kind (type_defs m ! i) = WAH_COMP_FUNC
     then ft_param_types (types m ! i) @ ft_result_types (types m ! i) else td_field_types (type_defs m ! i))"

text \<open>What the type section guarantees: groups are intervals, supertypes come earlier, references stay within
  the group of the type and what precedes it.\<close>

definition wf_group :: "wah_module \<Rightarrow> nat \<Rightarrow> bool" where
  "wf_group m i \<longleftrightarrow> gs m i \<le> i \<and> i < gs m i + gz m i \<and> gs m i + gz m i \<le> length (type_defs m)
     \<and> (\<forall>j\<in>{gs m i..<gs m i + gz m i}. gs m j = gs m i \<and> gz m j = gz m i)"

definition wf_refs :: "wah_module \<Rightarrow> nat \<Rightarrow> bool" where
  "wf_refs m i \<longleftrightarrow> pred_option (\<lambda>s. s < i) (td_supertype (type_defs m ! i))
     \<and> list_all (\<lambda>t. t < 2 ^ 31 \<and> (t < 0 \<or> WAH_TYIDX t < gs m i + gz m i)) (type_refs m i)
     \<and> pred_option (\<lambda>s. td_kind (type_defs m ! s) = td_kind (type_defs m ! i)) (td_supertype (type_defs m ! i))"

definition wf_types :: "wah_module \<Rightarrow> bool" where
  "wf_types m \<longleftrightarrow> length (type_defs m) \<le> 2 ^ 30
     \<and> list_all (\<lambda>i. wf_group m i \<and> wf_refs m i) [0..<length (type_defs m)]"

lemma wf_typesD:
  assumes "wf_types m" "i < length (type_defs m)"
  shows "gs m i \<le> i" "i < gs m i + gz m i" "gs m i + gz m i \<le> length (type_defs m)"
    "gs m i \<le> j \<Longrightarrow> j < gs m i + gz m i \<Longrightarrow> gs m j = gs m i \<and> gz m j = gz m i"
    "td_supertype (type_defs m ! i) = Some s \<Longrightarrow> s < i"
    "td_supertype (type_defs m ! i) = Some s \<Longrightarrow> td_kind (type_defs m ! s) = td_kind (type_defs m ! i)"
    "t \<in> set (type_refs m i) \<Longrightarrow> t < 2 ^ 31" "t \<in> set (type_refs m i) \<Longrightarrow> 0 \<le> t \<Longrightarrow> WAH_TYIDX t < gs m i + gz m i"
    "i \<le> WAH_MAX_TYPE_INDEX"
proof -
  have n: "length (type_defs m) \<le> 2 ^ 30"
    and l: "list_all (\<lambda>i. wf_group m i \<and> wf_refs m i) [0..<length (type_defs m)]"
    using assms(1) by (simp_all only: wf_types_def)
  have "i \<in> set [0..<length (type_defs m)]" using assms(2) by simp
  from bspec [OF l [unfolded list_all_iff] this] have g: "wf_group m i" "wf_refs m i" by blast+
  show "gs m i \<le> i" "i < gs m i + gz m i" "gs m i + gz m i \<le> length (type_defs m)"
    using g(1) [unfolded wf_group_def] by blast+
  show "gs m i \<le> j \<Longrightarrow> j < gs m i + gz m i \<Longrightarrow> gs m j = gs m i \<and> gz m j = gz m i"
    using bspec [OF g(1) [unfolded wf_group_def, THEN conjunct2, THEN conjunct2, THEN conjunct2], of j] by simp
  show "td_supertype (type_defs m ! i) = Some s \<Longrightarrow> s < i"
    "td_supertype (type_defs m ! i) = Some s \<Longrightarrow> td_kind (type_defs m ! s) = td_kind (type_defs m ! i)"
    using g(2) by (simp_all add: wf_refs_def)
  show "t \<in> set (type_refs m i) \<Longrightarrow> t < 2 ^ 31"
    "t \<in> set (type_refs m i) \<Longrightarrow> 0 \<le> t \<Longrightarrow> WAH_TYIDX t < gs m i + gz m i"
    using g(2) by (auto simp: wf_refs_def list_all_iff)
  show "i \<le> WAH_MAX_TYPE_INDEX" using n assms(2) by (simp add: WAH_MAX_TYPE_INDEX_def)
qed

section \<open>References between two groups\<close>

text \<open>When two references compare equal: the same abstract type, the same member of the two groups, or two
  types of earlier groups with the same representative.\<close>

definition ref_related :: "wah_module \<Rightarrow> nat list \<Rightarrow> nat \<Rightarrow> nat \<Rightarrow> wah_type \<Rightarrow> wah_type \<Rightarrow> bool" where
  "ref_related m cm a b ta tb \<longleftrightarrow> (ta < 0 \<and> tb = ta) \<or> (0 \<le> ta \<and> 0 \<le> tb \<and> odd ta = odd tb
     \<and> ((gs m a \<le> WAH_TYIDX ta \<and> gs m b \<le> WAH_TYIDX tb \<and> WAH_TYIDX ta - gs m a = WAH_TYIDX tb - gs m b)
       \<or> (WAH_TYIDX ta < gs m a \<and> WAH_TYIDX tb < gs m b \<and> cm ! WAH_TYIDX ta = cm ! WAH_TYIDX tb)))"

lemma canonicalize_ref_cases:
  assumes wf: "wf_types m" and le: "\<And>k. k < length (type_defs m) \<Longrightarrow> cm ! k \<le> k"
    and a: "a < length (type_defs m)" and t: "t < 2 ^ 31" "0 \<le> t \<Longrightarrow> WAH_TYIDX t < gs m a + gz m a"
  defines "c \<equiv> wah_canonicalize_type_ref t (gs m a) (gz m a) cm (length (type_defs m))"
  shows "t < 0 \<and> c = t \<or> (0 \<le> t \<and> gs m a \<le> WAH_TYIDX t \<and> c = t)
     \<or> (0 \<le> t \<and> WAH_TYIDX t < gs m a \<and> 0 \<le> c \<and> odd c = odd t \<and> WAH_TYIDX c = cm ! WAH_TYIDX t
        \<and> WAH_TYIDX c < gs m a \<and> c = int (cm ! WAH_TYIDX t) * 2 + of_bool (odd t))"
proof -
  consider (neg) "t < 0" | (inside) "0 \<le> t" "gs m a \<le> WAH_TYIDX t" | (outside) "0 \<le> t" "WAH_TYIDX t < gs m a" by linarith
  then show ?thesis
  proof cases
    case neg
    then show ?thesis by (simp add: c_def wah_canonicalize_type_ref_def)
  next
    case inside
    then show ?thesis using t by (simp add: c_def wah_canonicalize_type_ref_def Let_def)
  next
    case outside
    let ?i = "WAH_TYIDX t"
    have i: "?i < length (type_defs m)" "gs m a \<le> a" using outside wf_typesD(1) [OF wf a] a by linarith+
    have r: "cm ! ?i \<le> ?i" using le [OF i(1)] .
    have mx: "cm ! ?i \<le> WAH_MAX_TYPE_INDEX" using r wf_typesD(9) [OF wf i(1)] by simp
    have c: "c = WAH_TYPE_FROM_IDX (cm ! ?i) (WAH_TYPE_IS_NULLABLE t)"
      using outside i by (simp add: c_def wah_canonicalize_type_ref_def Let_def)
    show ?thesis using outside r c from_idx_eq [OF mx] tyidx_from_idx [OF mx] by simp
  qed
qed

lemma group_ref_eq_related:
  assumes wf: "wf_types m" and le: "\<And>k. k < length (type_defs m) \<Longrightarrow> cm ! k \<le> k"
    and a: "a < length (type_defs m)" "ta < 2 ^ 31" "0 \<le> ta \<Longrightarrow> WAH_TYIDX ta < gs m a + gz m a"
    and b: "b < length (type_defs m)" "tb < 2 ^ 31" "0 \<le> tb \<Longrightarrow> WAH_TYIDX tb < gs m b + gz m b"
  shows "group_ref_eq m cm a b ta tb \<longleftrightarrow> ref_related m cm a b ta tb"
proof -
  define ca where "ca = wah_canonicalize_type_ref ta (gs m a) (gz m a) cm (length (type_defs m))"
  define cb where "cb = wah_canonicalize_type_ref tb (gs m b) (gz m b) cm (length (type_defs m))"
  have e: "group_ref_eq m cm a b ta tb = wah_canon_ref_eq ca (gs m a) (gz m a) cb (gs m b) (gz m b)"
    by (simp add: group_ref_eq_def ca_def cb_def Let_def)
  have A: "ta < 0 \<and> ca = ta \<or> (0 \<le> ta \<and> gs m a \<le> WAH_TYIDX ta \<and> ca = ta)
     \<or> (0 \<le> ta \<and> WAH_TYIDX ta < gs m a \<and> 0 \<le> ca \<and> odd ca = odd ta \<and> WAH_TYIDX ca = cm ! WAH_TYIDX ta
        \<and> WAH_TYIDX ca < gs m a \<and> ca = int (cm ! WAH_TYIDX ta) * 2 + of_bool (odd ta))"
    unfolding ca_def by (rule canonicalize_ref_cases [OF wf le a])
  have B: "tb < 0 \<and> cb = tb \<or> (0 \<le> tb \<and> gs m b \<le> WAH_TYIDX tb \<and> cb = tb)
     \<or> (0 \<le> tb \<and> WAH_TYIDX tb < gs m b \<and> 0 \<le> cb \<and> odd cb = odd tb \<and> WAH_TYIDX cb = cm ! WAH_TYIDX tb
        \<and> WAH_TYIDX cb < gs m b \<and> cb = int (cm ! WAH_TYIDX tb) * 2 + of_bool (odd tb))"
    unfolding cb_def by (rule canonicalize_ref_cases [OF wf le b])
  from A show ?thesis
  proof (elim disjE conjE)
    assume a': "ta < 0" "ca = ta"
    from B show ?thesis
      by (elim disjE conjE) (use a' a b e in \<open>auto simp: ref_related_def wah_canon_ref_eq_def Let_def\<close>)
  next
    assume a': "0 \<le> ta" "gs m a \<le> WAH_TYIDX ta" "ca = ta"
    from B show ?thesis
      by (elim disjE conjE) (use a' a b e in \<open>auto simp: ref_related_def wah_canon_ref_eq_def Let_def\<close>)
  next
    assume a': "0 \<le> ta" "WAH_TYIDX ta < gs m a" "0 \<le> ca" "odd ca = odd ta" "WAH_TYIDX ca = cm ! WAH_TYIDX ta"
        "WAH_TYIDX ca < gs m a" "ca = int (cm ! WAH_TYIDX ta) * 2 + of_bool (odd ta)"
    from B show ?thesis
    proof (elim disjE conjE)
      assume b': "0 \<le> tb" "WAH_TYIDX tb < gs m b" "0 \<le> cb" "odd cb = odd tb" "WAH_TYIDX cb = cm ! WAH_TYIDX tb"
        "WAH_TYIDX cb < gs m b" "cb = int (cm ! WAH_TYIDX tb) * 2 + of_bool (odd tb)"
      have "wah_canon_ref_eq ca (gs m a) (gz m a) cb (gs m b) (gz m b) \<longleftrightarrow> odd ta = odd tb \<and> ca = cb"
        using a'(3-6) b'(3-6) by (simp add: wah_canon_ref_eq_def Let_def)
      also have "\<dots> \<longleftrightarrow> odd ta = odd tb \<and> cm ! WAH_TYIDX ta = cm ! WAH_TYIDX tb"
        unfolding a'(7) b'(7) by auto
      finally show ?thesis unfolding e ref_related_def using a'(1,2) b'(1,2) by auto
    qed (use a' a b e in \<open>auto simp: ref_related_def wah_canon_ref_eq_def Let_def\<close>)
  qed
qed

lemma related_cong:
  assumes wf: "wf_types m" and le: "\<And>k. k < length (type_defs m) \<Longrightarrow> cm ! k \<le> k"
    and a: "a < length (type_defs m)" "ta \<in> set (type_refs m a)" and b: "b < length (type_defs m)" "tb \<in> set (type_refs m b)"
    and eq: "group_ref_eq m cm a b ta tb"
  shows "ref_related m cm a b ta tb"
  using group_ref_eq_related [OF wf le a(1) wf_typesD(7,8) [OF wf a] b(1) wf_typesD(7,8) [OF wf b]] eq by blast

lemma super_ref:
  assumes wf: "wf_types m" and a: "a < length (type_defs m)" "td_supertype (type_defs m ! a) = Some s"
  shows "WAH_TYPE_FROM_IDX s False = int s * 2" "WAH_TYIDX (WAH_TYPE_FROM_IDX s False) = s" "int s * 2 < 2 ^ 31"
    "s < gs m a + gz m a"
proof -
  have s: "s < a" by (rule wf_typesD(5) [OF wf a])
  then have "s \<le> WAH_MAX_TYPE_INDEX" using wf_typesD(9) [OF wf a(1)] by simp
  then show "WAH_TYPE_FROM_IDX s False = int s * 2" "WAH_TYIDX (WAH_TYPE_FROM_IDX s False) = s" "int s * 2 < 2 ^ 31"
    using from_idx_eq [of s False] tyidx_from_idx [of s False] by (simp_all add: WAH_MAX_TYPE_INDEX_def)
  show "s < gs m a + gz m a" using s wf_typesD(2) [OF wf a(1)] by simp
qed

lemma super_related:
  assumes wf: "wf_types m" and le: "\<And>k. k < length (type_defs m) \<Longrightarrow> cm ! k \<le> k"
    and a: "a < length (type_defs m)" "td_supertype (type_defs m ! a) = Some sa"
    and b: "b < length (type_defs m)" "td_supertype (type_defs m ! b) = Some sb"
    and eq: "group_ref_eq m cm a b (WAH_TYPE_FROM_IDX sa False) (WAH_TYPE_FROM_IDX sb False)"
  shows "ref_related m cm a b (WAH_TYPE_FROM_IDX sa False) (WAH_TYPE_FROM_IDX sb False)"
  using group_ref_eq_related [OF wf le a(1), of "WAH_TYPE_FROM_IDX sa False" b "WAH_TYPE_FROM_IDX sb False"] eq b(1)
    super_ref [OF wf a] super_ref [OF wf b] by auto

section \<open>Equal groups have equal hashes\<close>

text \<open>What the hash needs of the canonical map: representatives have the same place in a group with the same
  hash.\<close>

definition hash_compatible :: "wah_module \<Rightarrow> nat list \<Rightarrow> (nat \<Rightarrow> u64) \<Rightarrow> bool" where
  "hash_compatible m cm gh \<longleftrightarrow> list_all (\<lambda>k. cm ! k \<le> k \<and> cm ! k - gs m (cm ! k) = k - gs m k
     \<and> gh (gs m (cm ! k)) = gh (gs m k)) [0..<length (type_defs m)]"

lemma hash_compatibleD:
  assumes "hash_compatible m cm gh" "k < length (type_defs m)"
  shows "cm ! k \<le> k" "cm ! k - gs m (cm ! k) = k - gs m k" "gh (gs m (cm ! k)) = gh (gs m k)"
proof -
  have "k \<in> set [0..<length (type_defs m)]" using assms(2) by simp
  from bspec [OF assms(1) [unfolded hash_compatible_def list_all_iff] this]
  show "cm ! k \<le> k" "cm ! k - gs m (cm ! k) = k - gs m k" "gh (gs m (cm ! k)) = gh (gs m k)" by blast+
qed

lemma hash_type_related:
  assumes wf: "wf_types m" and hc: "hash_compatible m cm gh"
    and a: "a < length (type_defs m)" "0 \<le> ta \<Longrightarrow> WAH_TYIDX ta < gs m a + gz m a"
    and b: "b < length (type_defs m)" "0 \<le> tb \<Longrightarrow> WAH_TYIDX tb < gs m b + gz m b"
    and rel: "ref_related m cm a b ta tb"
  shows "wah_rec_group_hash_type m (gs m a) (gz m a) gh h ta = wah_rec_group_hash_type m (gs m b) (gz m b) gh h tb"
  using rel unfolding ref_related_def
proof (elim disjE conjE)
  assume "ta < 0" "tb = ta"
  then show ?thesis by (simp add: wah_rec_group_hash_type_def)
next
  assume "0 \<le> ta" "0 \<le> tb" "odd ta = odd tb" "gs m a \<le> WAH_TYIDX ta" "gs m b \<le> WAH_TYIDX tb"
    "WAH_TYIDX ta - gs m a = WAH_TYIDX tb - gs m b"
  then show ?thesis using a(2) b(2) by (simp add: wah_rec_group_hash_type_def Let_def)
next
  assume r: "0 \<le> ta" "0 \<le> tb" "odd ta = odd tb" "WAH_TYIDX ta < gs m a" "WAH_TYIDX tb < gs m b"
    "cm ! WAH_TYIDX ta = cm ! WAH_TYIDX tb"
  have "WAH_TYIDX ta < length (type_defs m)" "WAH_TYIDX tb < length (type_defs m)"
    using r a(1) b(1) wf_typesD(1) [OF wf a(1)] wf_typesD(1) [OF wf b(1)] by linarith+
  from hash_compatibleD(2,3) [OF hc this(1)] hash_compatibleD(2,3) [OF hc this(2)]
  have "gh (gs m (WAH_TYIDX ta)) = gh (gs m (WAH_TYIDX tb))"
    "WAH_TYIDX ta - gs m (WAH_TYIDX ta) = WAH_TYIDX tb - gs m (WAH_TYIDX tb)" using r(6) by simp_all
  then show ?thesis using r by (simp add: wah_rec_group_hash_type_def Let_def)
qed

lemma foldl_list_all2:
  assumes "list_all2 R xs ys" "\<And>x y h. R x y \<Longrightarrow> x \<in> set xs \<Longrightarrow> y \<in> set ys \<Longrightarrow> f h x = g h y"
  shows "foldl f h xs = foldl g h ys"
  using assms by (induction xs ys arbitrary: h rule: list_all2_induct) auto

lemma list_all2_zip_same:
  "list_all2 R xs ys \<Longrightarrow> list_all2 (\<lambda>(x, u) (y, v). R x y \<and> u = v) (zip xs us) (zip ys us)"
  by (induction xs ys arbitrary: us rule: list_all2_induct) (auto simp: zip_Cons1 split: list.splits)

lemma hash_type_def_equal:
  assumes wf: "wf_types m" and hc: "hash_compatible m cm gh"
    and a: "a < length (type_defs m)" and b: "b < length (type_defs m)"
    and eq: "wah_types_structurally_equal m a b cm"
  shows "hash_type_def m (gs m a) (gz m a) gh h a = hash_type_def m (gs m b) (gz m b) gh h b"
proof -
  note le = hash_compatibleD(1) [OF hc]
  have kind: "td_kind (type_defs m ! a) = td_kind (type_defs m ! b)"
    and fin: "td_is_final (type_defs m ! a) = td_is_final (type_defs m ! b)"
    using eq by (simp_all add: wah_types_structurally_equal_def Let_def)
  have refs: "wah_rec_group_hash_type m (gs m a) (gz m a) gh h ta = wah_rec_group_hash_type m (gs m b) (gz m b) gh h tb"
    if "group_ref_eq m cm a b ta tb" "ta \<in> set (type_refs m a)" "tb \<in> set (type_refs m b)" for h ta tb
    using hash_type_related [OF wf hc a wf_typesD(8) [OF wf a that(2)] b wf_typesD(8) [OF wf b that(3)]]
      related_cong [OF wf le a that(2) b that(3,1)] by blast
  have sup: "(case td_supertype (type_defs m ! a) of None \<Rightarrow> wah_rec_group_hash_mix h 3
      | Some s \<Rightarrow> wah_rec_group_hash_type m (gs m a) (gz m a) gh h (WAH_TYPE_FROM_IDX s False))
    = (case td_supertype (type_defs m ! b) of None \<Rightarrow> wah_rec_group_hash_mix h 3
      | Some s \<Rightarrow> wah_rec_group_hash_type m (gs m b) (gz m b) gh h (WAH_TYPE_FROM_IDX s False))" for h
  proof (cases "td_supertype (type_defs m ! a)")
    case None
    then show ?thesis using eq by (auto simp: wah_types_structurally_equal_def Let_def split: option.splits)
  next
    case (Some sa)
    then obtain sb where sb: "td_supertype (type_defs m ! b) = Some sb"
      "group_ref_eq m cm a b (WAH_TYPE_FROM_IDX sa False) (WAH_TYPE_FROM_IDX sb False)"
      using eq by (auto simp: wah_types_structurally_equal_def Let_def split: option.splits)
    show ?thesis
      using hash_type_related [OF wf hc a _ b _ super_related [OF wf le a Some b sb]]
        super_ref(2,4) [OF wf a Some] super_ref(2,4) [OF wf b sb(1)] Some sb(1) by simp
  qed
  show ?thesis
  proof (cases "td_kind (type_defs m ! a) = WAH_COMP_FUNC")
    case True
    then have l: "list_all2 (group_ref_eq m cm a b) (ft_param_types (types m ! a)) (ft_param_types (types m ! b))"
      "list_all2 (group_ref_eq m cm a b) (ft_result_types (types m ! a)) (ft_result_types (types m ! b))"
      using eq by (simp_all add: wah_types_structurally_equal_def Let_def)
    have "foldl (wah_rec_group_hash_type m (gs m a) (gz m a) gh) h (ft_param_types (types m ! a))
        = foldl (wah_rec_group_hash_type m (gs m b) (gz m b) gh) h (ft_param_types (types m ! b))"
      "foldl (wah_rec_group_hash_type m (gs m a) (gz m a) gh) h (ft_result_types (types m ! a))
        = foldl (wah_rec_group_hash_type m (gs m b) (gz m b) gh) h (ft_result_types (types m ! b))" for h
      by (rule foldl_list_all2 [OF l(1)], rule refs; use True kind in \<open>simp add: type_refs_def\<close>)
        (rule foldl_list_all2 [OF l(2)], rule refs; use True kind in \<open>simp add: type_refs_def\<close>)
    then show ?thesis using True unfolding hash_type_def_def Let_def kind fin sup
      by (simp add: list_all2_lengthD [OF l(1)] list_all2_lengthD [OF l(2)])
  next
    case False
    then have l: "list_all2 (group_ref_eq m cm a b) (td_field_types (type_defs m ! a)) (td_field_types (type_defs m ! b))"
      and mut: "td_field_mutables (type_defs m ! a) = td_field_mutables (type_defs m ! b)"
      using eq by (simp_all add: wah_types_structurally_equal_def Let_def)
    have "foldl (\<lambda>h (t, mut). wah_rec_group_hash_mix (wah_rec_group_hash_type m (gs m a) (gz m a) gh h t) (of_bool mut)) h
          (zip (td_field_types (type_defs m ! a)) (td_field_mutables (type_defs m ! b)))
        = foldl (\<lambda>h (t, mut). wah_rec_group_hash_mix (wah_rec_group_hash_type m (gs m b) (gz m b) gh h t) (of_bool mut)) h
          (zip (td_field_types (type_defs m ! b)) (td_field_mutables (type_defs m ! b)))" for h
      by (rule foldl_list_all2 [OF list_all2_zip_same [OF l]])
        (use False kind refs in \<open>auto simp: type_refs_def dest!: set_zip_leftD\<close>)
    then show ?thesis using False unfolding hash_type_def_def Let_def kind fin sup mut
      by (simp add: list_all2_lengthD [OF l])
  qed
qed

text \<open>The hash of a group uses the hashes of earlier groups only.\<close>

lemma hash_type_local:
  assumes wf: "wf_types m" and a: "a < length (type_defs m)" "0 \<le> t \<Longrightarrow> WAH_TYIDX t < gs m a + gz m a"
    and gh: "\<And>s. s < gs m a \<Longrightarrow> gh s = gh' s"
  shows "wah_rec_group_hash_type m (gs m a) (gz m a) gh h t = wah_rec_group_hash_type m (gs m a) (gz m a) gh' h t"
proof (cases "0 \<le> t \<and> WAH_TYIDX t < gs m a")
  case True
  have "WAH_TYIDX t < length (type_defs m)" using True wf_typesD(1) [OF wf a(1)] a(1) by linarith
  from wf_typesD(1) [OF wf this] True have "gs m (WAH_TYIDX t) < gs m a" by linarith
  from gh [OF this] True show ?thesis by (simp add: wah_rec_group_hash_type_def Let_def)
next
  case False
  then show ?thesis using a(2) by (auto simp: wah_rec_group_hash_type_def Let_def)
qed

lemma hash_type_def_local:
  assumes wf: "wf_types m" and a: "a < length (type_defs m)" and gh: "\<And>s. s < gs m a \<Longrightarrow> gh s = gh' s"
  shows "hash_type_def m (gs m a) (gz m a) gh h a = hash_type_def m (gs m a) (gz m a) gh' h a"
proof -
  have refs: "wah_rec_group_hash_type m (gs m a) (gz m a) gh h t = wah_rec_group_hash_type m (gs m a) (gz m a) gh' h t"
    if "t \<in> set (type_refs m a)" for h t
    by (rule hash_type_local [OF wf a wf_typesD(8) [OF wf a that] gh])
  have sup: "(case td_supertype (type_defs m ! a) of None \<Rightarrow> wah_rec_group_hash_mix h 3
      | Some s \<Rightarrow> wah_rec_group_hash_type m (gs m a) (gz m a) gh h (WAH_TYPE_FROM_IDX s False))
    = (case td_supertype (type_defs m ! a) of None \<Rightarrow> wah_rec_group_hash_mix h 3
      | Some s \<Rightarrow> wah_rec_group_hash_type m (gs m a) (gz m a) gh' h (WAH_TYPE_FROM_IDX s False))" for h
    using hash_type_local [OF wf a _ gh] super_ref(2,4) [OF wf a] by (simp split: option.splits)
  have fold: "foldl (wah_rec_group_hash_type m (gs m a) (gz m a) gh) h xs = foldl (wah_rec_group_hash_type m (gs m a) (gz m a) gh') h xs"
    if "set xs \<subseteq> set (type_refs m a)" for h xs
    using that refs by (intro foldl_cong) auto
  have fold2: "foldl (\<lambda>h (t, mut). wah_rec_group_hash_mix (wah_rec_group_hash_type m (gs m a) (gz m a) gh h t) (of_bool mut)) h (zip xs us)
      = foldl (\<lambda>h (t, mut). wah_rec_group_hash_mix (wah_rec_group_hash_type m (gs m a) (gz m a) gh' h t) (of_bool mut)) h (zip xs us)"
    if "set xs \<subseteq> set (type_refs m a)" for h xs us
    using that refs by (intro foldl_cong) (auto dest!: set_zip_leftD)
  show ?thesis
  proof (cases "td_kind (type_defs m ! a) = WAH_COMP_FUNC")
    case True
    then have "set (ft_param_types (types m ! a)) \<subseteq> set (type_refs m a)" "set (ft_result_types (types m ! a)) \<subseteq> set (type_refs m a)"
      by (auto simp: type_refs_def)
    from fold [OF this(1)] fold [OF this(2)] show ?thesis using True unfolding hash_type_def_def Let_def sup by simp
  next
    case False
    then have "set (td_field_types (type_defs m ! a)) \<subseteq> set (type_refs m a)" by (auto simp: type_refs_def)
    from fold2 [OF this] show ?thesis using False unfolding hash_type_def_def Let_def sup by simp
  qed
qed

lemma group_starts_set: "set (group_starts m) = {i. i < length (type_defs m) \<and> gs m i = i}"
  by (auto simp: group_starts_def)

lemma group_starts_sorted: "sorted (group_starts m)" "distinct (group_starts m)"
  by (simp_all add: group_starts_def sorted_filter [where f = id, simplified])

lemma group_member:
  assumes wf: "wf_types m" and i: "i \<in> set (group_starts m)" and k: "k < gz m i"
  shows "gs m (i + k) = i" "gz m (i + k) = gz m i" "i + k < length (type_defs m)"
proof -
  have i': "i < length (type_defs m)" "gs m i = i" using i by (simp_all add: group_starts_set)
  show "gs m (i + k) = i" "gz m (i + k) = gz m i" using wf_typesD(4) [OF wf i'(1), of "i + k"] i'(2) k by simp_all
  show "i + k < length (type_defs m)" using wf_typesD(3) [OF wf i'(1)] i'(2) k by simp
qed

lemma group_hash_local:
  assumes wf: "wf_types m" and i: "i \<in> set (group_starts m)" and gh: "\<And>s. s < i \<Longrightarrow> gh s = gh' s"
  shows "wah_rec_group_hash m i gh = wah_rec_group_hash m i gh'"
  unfolding wah_rec_group_hash_def Let_def
proof (intro foldl_cong refl)
  fix h k assume "k \<in> set [i..<i + gz m i]"
  then obtain d where d: "k = i + d" "d < gz m i" by (metis add_less_cancel_left atLeastLessThan_iff le_Suc_ex set_upt)
  note g = group_member [OF wf i d(2)]
  show "hash_type_def m i (gz m i) gh h k = hash_type_def m i (gz m i) gh' h k"
    using hash_type_def_local [OF wf g(3), of gh gh' h] g gh d(1) by simp
qed

lemma fold_upd_fixpoint:
  assumes "sorted xs" "distinct xs" and loc: "\<And>i g g'. i \<in> set xs \<Longrightarrow> (\<And>s. s < i \<Longrightarrow> g s = g' s) \<Longrightarrow> F i g = F i g'"
  shows "i \<in> set xs \<Longrightarrow> foldl (\<lambda>g i. g(i := F i g)) g0 xs i = F i (foldl (\<lambda>g i. g(i := F i g)) g0 xs)"
  using assms
proof (induction xs arbitrary: i rule: rev_induct)
  case Nil
  then show ?case by simp
next
  case (snoc x xs)
  define r where "r = foldl (\<lambda>g i. g(i := F i g)) g0 xs"
  have lt: "\<forall>y\<in>set xs. y < x" using snoc.prems(2,3) by (auto simp: sorted_append order_less_le)
  have e: "foldl (\<lambda>g i. g(i := F i g)) g0 (xs @ [x]) = r(x := F x r)" by (simp add: r_def)
  show ?case
  proof (cases "i = x")
    case True
    have "F x r = F x (r(x := F x r))" by (rule snoc.prems(4)) auto
    then show ?thesis unfolding e True fun_upd_same .
  next
    case False
    then have i: "i \<in> set xs" "i < x" using snoc.prems(1) lt by auto
    have "r i = F i r" unfolding r_def
    proof (rule snoc.IH [OF i(1)])
      show "sorted xs" "distinct xs" using snoc.prems(2,3) by (simp_all add: sorted_append)
      show "F j g = F j g'" if "j \<in> set xs" "\<And>s. s < j \<Longrightarrow> g s = g' s" for j g g'
        using that by (intro snoc.prems(4)) auto
    qed
    also have "F i r = F i (r(x := F x r))" by (rule snoc.prems(4)) (use i in auto)
    finally show ?thesis unfolding e fun_upd_other [OF False] .
  qed
qed

lemma rec_group_hashes_eq:
  assumes wf: "wf_types m" and i: "i \<in> set (group_starts m)"
  shows "rec_group_hashes m i = wah_rec_group_hash m i (rec_group_hashes m)"
  unfolding rec_group_hashes_def
  by (rule fold_upd_fixpoint [OF group_starts_sorted group_hash_local [OF wf] i])

lemma upt_shift: "[i..<i + n] = map ((+) i) [0..<n]"
  by (induction n) auto

lemma group_hash_equal:
  assumes wf: "wf_types m" and hc: "hash_compatible m cm gh" and i: "i \<in> set (group_starts m)" and j: "j \<in> set (group_starts m)"
    and z: "gz m j = gz m i" and eq: "\<And>k. k < gz m i \<Longrightarrow> wah_types_structurally_equal m (i + k) (j + k) cm"
  shows "wah_rec_group_hash m i gh = wah_rec_group_hash m j gh"
proof -
  have "foldl (hash_type_def m i (gz m i) gh) h (map ((+) i) xs) = foldl (hash_type_def m j (gz m j) gh) h (map ((+) j) xs)"
    if "\<forall>k\<in>set xs. k < gz m i" for h xs
    using that
  proof (induction xs arbitrary: h)
    case (Cons k xs)
    then have k: "k < gz m i" "k < gz m j" using z by auto
    note gi = group_member [OF wf i k(1)] and gj = group_member [OF wf j k(2)]
    have "hash_type_def m i (gz m i) gh h (i + k) = hash_type_def m j (gz m j) gh h (j + k)"
      using hash_type_def_equal [OF wf hc gi(3) gj(3) eq [OF k(1)]] gi gj by simp
    then show ?case using Cons by simp
  qed simp
  from this [of "[0..<gz m i]"] show ?thesis
    by (simp add: wah_rec_group_hash_def Let_def z upt_shift)
qed

section \<open>The canonical map is a compatible choice of representatives\<close>

definition canon_entry_ok :: "wah_module \<Rightarrow> nat list \<Rightarrow> nat \<Rightarrow> bool" where
  "canon_entry_ok m cm k \<longleftrightarrow> cm ! k \<le> k \<and> cm ! (cm ! k) = cm ! k
     \<and> cm ! k - gs m (cm ! k) = k - gs m k \<and> gz m (cm ! k) = gz m k \<and> cm ! gs m k = gs m (cm ! k)
     \<and> rec_group_hashes m (gs m (cm ! k)) = rec_group_hashes m (gs m k)
     \<and> td_kind (type_defs m ! (cm ! k)) = td_kind (type_defs m ! k)
     \<and> rel_option (\<lambda>s s'. cm ! s = cm ! s') (td_supertype (type_defs m ! k)) (td_supertype (type_defs m ! (cm ! k)))"

definition canon_ok :: "wah_module \<Rightarrow> nat list \<Rightarrow> bool" where
  "canon_ok m cm \<longleftrightarrow> length cm = length (type_defs m) \<and> list_all (canon_entry_ok m cm) [0..<length (type_defs m)]"

lemma canon_okD: "canon_ok m cm \<Longrightarrow> k < length (type_defs m) \<Longrightarrow> canon_entry_ok m cm k"
  by (simp add: canon_ok_def list_all_iff)

lemma canon_ok_hash: "canon_ok m cm \<Longrightarrow> hash_compatible m cm (rec_group_hashes m)"
  unfolding hash_compatible_def list_all_iff by (auto dest: canon_okD simp: canon_entry_ok_def)

lemma canon_ok_init: "wf_types m \<Longrightarrow> canon_ok m [0..<length (type_defs m)]"
proof -
  assume wf: "wf_types m"
  have "canon_entry_ok m [0..<length (type_defs m)] k" if k: "k < length (type_defs m)" for k
  proof -
    have "gs m k < length (type_defs m)" using wf_typesD(1) [OF wf k] k by simp
    then show ?thesis using k by (simp add: canon_entry_ok_def option.rel_refl)
  qed
  then show ?thesis by (simp add: canon_ok_def list_all_iff)
qed

lemma canon_write_nth:
  assumes "i + gz m i \<le> length cm"
  shows "canon_write m cm i j ! k = (if i \<le> k \<and> k < i + gz m i then j + (k - i) else cm ! k)"
    and "length (canon_write m cm i j) = length cm"
proof -
  have "foldl (\<lambda>cm k. cm[i + k := j + k]) cm [0..<n] ! k = (if i \<le> k \<and> k < i + n then j + (k - i) else cm ! k)
      \<and> length (foldl (\<lambda>cm k. cm[i + k := j + k]) cm [0..<n]) = length cm" if "i + n \<le> length cm" for n
    using that by (induction n) (auto simp: nth_list_update)
  from this [OF assms] show "canon_write m cm i j ! k = (if i \<le> k \<and> k < i + gz m i then j + (k - i) else cm ! k)"
    "length (canon_write m cm i j) = length cm" by (simp_all add: canon_write_def)
qed

text \<open>A group that is its own representative maps each of its members to itself.\<close>

lemma canonical_group_fixed:
  assumes wf: "wf_types m" and ok: "canon_ok m cm" and j: "j \<in> set (group_starts m)" "cm ! j = j" and k: "k < gz m j"
  shows "cm ! (j + k) = j + k"
proof -
  note g = group_member [OF wf j(1) k]
  have e: "canon_entry_ok m cm (j + k)" by (rule canon_okD [OF ok g(3)])
  have c: "cm ! (j + k) \<le> j + k" "cm ! (j + k) - gs m (cm ! (j + k)) = j + k - gs m (j + k)"
    "cm ! gs m (j + k) = gs m (cm ! (j + k))" using e unfolding canon_entry_ok_def by blast+
  have "cm ! (j + k) < length (type_defs m)" using c(1) g(3) by linarith
  from wf_typesD(1) [OF wf this] c(2,3) g(1) j(2) show ?thesis by simp
qed

lemma starts_apart:
  assumes wf: "wf_types m" and "i \<in> set (group_starts m)" "j \<in> set (group_starts m)" "j < i"
  shows "j + gz m j \<le> i"
proof (rule ccontr)
  assume "\<not> j + gz m j \<le> i"
  then have "gs m i = j" using wf_typesD(4) [OF wf, of j i] assms by (simp add: group_starts_set)
  then show False using assms by (simp add: group_starts_set)
qed

lemma canon_match_hash:
  assumes wf: "wf_types m" and ok: "canon_ok m cm" and i: "i \<in> set (group_starts m)" and j: "j \<in> set (group_starts m)"
    and mt: "canon_match m cm i j"
  shows "rec_group_hashes m j = rec_group_hashes m i"
  using group_hash_equal [OF wf canon_ok_hash [OF ok] i j] mt rec_group_hashes_eq [OF wf i] rec_group_hashes_eq [OF wf j]
  by (simp add: canon_match_def list_all_iff)

lemma canon_match_super:
  assumes wf: "wf_types m" and ok: "canon_ok m cm" and i: "i \<in> set (group_starts m)" and j: "j \<in> set (group_starts m)"
    and mt: "canon_match m cm i j" and ji: "j < i" and k: "k < gz m i"
  shows "rel_option (\<lambda>s s'. canon_write m cm i j ! s = canon_write m cm i j ! s')
     (td_supertype (type_defs m ! (i + k))) (td_supertype (type_defs m ! (j + k)))"
proof -
  have z: "gz m j = gz m i" and cj: "cm ! j = j" using mt by (simp_all add: canon_match_def)
  have kj: "k < gz m j" using k z by simp
  note gi = group_member [OF wf i k] and gj = group_member [OF wf j kj]
  have len: "i + gz m i \<le> length cm" using wf_typesD(3) [OF wf, of i] i ok by (simp add: group_starts_set canon_ok_def)
  note w = canon_write_nth(1) [OF len]
  have le: "\<And>k. k < length (type_defs m) \<Longrightarrow> cm ! k \<le> k" using canon_okD [OF ok] by (simp add: canon_entry_ok_def)
  have eq: "wah_types_structurally_equal m (i + k) (j + k) cm" using mt k by (simp add: canon_match_def list_all_iff)
  have apart: "j + gz m j \<le> i" by (rule starts_apart [OF wf i j ji])
  show ?thesis
  proof (cases "td_supertype (type_defs m ! (i + k))")
    case None
    then show ?thesis using eq by (auto simp: wah_types_structurally_equal_def Let_def split: option.splits)
  next
    case (Some sa)
    then obtain sb where sb: "td_supertype (type_defs m ! (j + k)) = Some sb"
      "group_ref_eq m cm (i + k) (j + k) (WAH_TYPE_FROM_IDX sa False) (WAH_TYPE_FROM_IDX sb False)"
      using eq by (auto simp: wah_types_structurally_equal_def Let_def split: option.splits)
    have rel: "(i \<le> sa \<and> j \<le> sb \<and> sa - i = sb - j) \<or> (sa < i \<and> sb < j \<and> cm ! sa = cm ! sb)"
      using super_related [OF wf le gi(3) Some gj(3) sb] super_ref(1,2) [OF wf gi(3) Some] super_ref(1,2) [OF wf gj(3) sb(1)] gi(1) gj(1)
      by (auto simp: ref_related_def)
    have "sa < i + k" "sb < j + k" by (rule wf_typesD(5) [OF wf gi(3) Some], rule wf_typesD(5) [OF wf gj(3) sb(1)])
    then have "canon_write m cm i j ! sa = canon_write m cm i j ! sb"
      using rel canonical_group_fixed [OF wf ok j cj, of "sb - j"] w [of j sa] w [of j sb] k kj apart by (auto split: if_splits)
    then show ?thesis using Some sb(1) by simp
  qed
qed

lemma canon_write_ok:
  assumes wf: "wf_types m" and ok: "canon_ok m cm" and i: "i \<in> set (group_starts m)" and j: "j \<in> set (group_starts m)"
    and mt: "canon_match m cm i j" and ji: "j < i" and fresh: "\<And>k. i \<le> k \<Longrightarrow> k < length (type_defs m) \<Longrightarrow> cm ! k = k"
  shows "canon_ok m (canon_write m cm i j)"
proof -
  define cm' where "cm' = canon_write m cm i j"
  have z: "gz m j = gz m i" and cj: "cm ! j = j" using mt by (simp_all add: canon_match_def)
  have n: "length cm = length (type_defs m)" using ok by (simp add: canon_ok_def)
  have len: "i + gz m i \<le> length cm" using wf_typesD(3) [OF wf, of i] i n by (simp add: group_starts_set)
  note w = canon_write_nth(1) [OF len, of j, folded cm'_def]
  have apart: "j + gz m j \<le> i" by (rule starts_apart [OF wf i j ji])
  have entry: "canon_entry_ok m cm' k" if k: "k < length (type_defs m)" for k
  proof -
    consider (below) "k < i" | (inside) d where "k = i + d" "d < gz m i" | (above) "i + gz m i \<le> k"
      by (metis add_less_cancel_left le_Suc_ex not_less)
    then show ?thesis
    proof cases
      case below
      have e: "canon_entry_ok m cm k" by (rule canon_okD [OF ok k])
      then have c: "cm ! k \<le> k" unfolding canon_entry_ok_def by blast
      have sup: "s < i" if "td_supertype (type_defs m ! k) = Some s" for s
        using wf_typesD(5) [OF wf k that] below by simp
      have sup': "s < i" if "td_supertype (type_defs m ! (cm ! k)) = Some s" for s
        using wf_typesD(5) [OF wf _ that] c k below by simp
      have low: "cm' ! x = cm ! x" if "x < i" for x using w [of x] that by simp
      have "rel_option (\<lambda>s s'. cm' ! s = cm' ! s') (td_supertype (type_defs m ! k)) (td_supertype (type_defs m ! (cm ! k)))"
        using e sup sup' low unfolding canon_entry_ok_def by (auto simp: option_rel_Some1 option_rel_Some2 elim!: option.rel_cases)
      moreover have "gs m k < i" using wf_typesD(1) [OF wf k] below by simp
      ultimately show ?thesis using e c below low unfolding canon_entry_ok_def by simp
    next
      case inside
      have d: "d < gz m j" using inside(2) z by simp
      note gi = group_member [OF wf i inside(2)] and gj = group_member [OF wf j d]
      have r: "cm' ! k = j + d" "cm' ! (j + d) = j + d" "cm' ! i = j"
        using w [of k] w [of "j + d"] w [of i] inside apart d canonical_group_fixed [OF wf ok j cj d] by simp_all
      have "td_kind (type_defs m ! (j + d)) = td_kind (type_defs m ! k)"
        using mt inside by (simp add: canon_match_def list_all_iff wah_types_structurally_equal_def Let_def)
      then show ?thesis
        using r gi gj z ji canon_match_hash [OF wf ok i j mt] canon_match_super [OF wf ok i j mt ji inside(2)] inside(1)
        unfolding canon_entry_ok_def by (simp add: cm'_def)
    next
      case above
      then have c: "cm' ! k = k" using w [of k] fresh [OF _ k] by simp
      have "i + gz m i \<le> gs m k"
      proof (rule ccontr)
        assume g: "\<not> i + gz m i \<le> gs m k"
        have "gs m k < length (type_defs m)" using wf_typesD(1) [OF wf k] k by simp
        show False
        proof (cases "i \<le> gs m k")
          case True
          have "gs m (gs m k) = gs m k" using wf_typesD(4) [OF wf k, of "gs m k"] wf_typesD(1,2) [OF wf k] by simp
          moreover obtain d where "gs m k = i + d" "d < gz m i" using True g by (metis add_less_cancel_left le_Suc_ex not_less)
          ultimately have "gs m k = i" "gz m (gs m k) = gz m i" using group_member(1,2) [OF wf i] by metis+
          then show False using above wf_typesD(2) [OF wf k] wf_typesD(4) [OF wf k, of "gs m k"] wf_typesD(1) [OF wf k] by simp
        next
          case False
          then have "gs m i = gs m k" using wf_typesD(4) [OF wf k, of i] above wf_typesD(2) [OF wf k] by simp
          then show False using False i by (simp add: group_starts_set)
        qed
      qed
      then have "cm' ! gs m k = gs m k" using w [of "gs m k"] fresh [of "gs m k"] wf_typesD(1) [OF wf k] k by simp
      then show ?thesis using c unfolding canon_entry_ok_def by (simp add: option.rel_refl)
    qed
  qed
  show ?thesis unfolding canon_ok_def cm'_def [symmetric]
    using entry canon_write_nth(2) [OF len, of j, folded cm'_def] n by (simp add: list_all_iff)
qed

section \<open>Searching by hash\<close>

text \<open>The reference: the least earlier group that is its own representative and structurally equal.\<close>

definition canon_step_ref :: "wah_module \<Rightarrow> nat list \<Rightarrow> nat \<Rightarrow> nat list" where
  "canon_step_ref m cm i =
    (case find (canon_match m cm i) (filter (\<lambda>j. j < i) (group_starts m)) of None \<Rightarrow> cm | Some j \<Rightarrow> canon_write m cm i j)"

definition canonical_map_ref :: "wah_module \<Rightarrow> nat list" where
  "canonical_map_ref m = foldl (canon_step_ref m) [0..<length (type_defs m)] (group_starts m)"

lemma canon_scan_find:
  "canon_scan m h i cm keys =
    (case find (canon_match m cm i) (map snd (takeWhile (\<lambda>key. fst key = h \<and> snd key < i) keys)) of
       None \<Rightarrow> cm | Some j \<Rightarrow> canon_write m cm i j)"
  by (induction keys) auto

lemma key_lower_bound_spec:
  assumes "sorted keys" "lo \<le> hi" "hi \<le> length keys"
    "\<And>k. k < lo \<Longrightarrow> fst (keys ! k) < h" "\<And>k. hi \<le> k \<Longrightarrow> k < length keys \<Longrightarrow> h \<le> fst (keys ! k)"
  shows "key_lower_bound keys h lo hi \<le> length keys
    \<and> (\<forall>k<key_lower_bound keys h lo hi. fst (keys ! k) < h)
    \<and> (\<forall>k. key_lower_bound keys h lo hi \<le> k \<longrightarrow> k < length keys \<longrightarrow> h \<le> fst (keys ! k))"
  using assms
proof (induction keys h lo hi rule: key_lower_bound.induct)
  case (1 keys h lo hi)
  show ?case
  proof (cases "lo < hi")
    case True
    define mid where "mid = lo + (hi - lo) div 2"
    have mid: "lo \<le> mid" "mid < hi" using True by (auto simp: mid_def)
    have mono: "fst (keys ! a) \<le> fst (keys ! b)" if "a \<le> b" "b < length keys" for a b
      using sorted_nth_mono [OF "1.prems"(1) that] by (auto simp: less_eq_prod_def)
    show ?thesis
    proof (cases "fst (keys ! mid) < h")
      case less: True
      have "fst (keys ! k) < h" if "k < mid + 1" for k
        using mono [of k mid] that less mid "1.prems"(3) by (simp add: order_le_less_trans)
      moreover have e: "key_lower_bound keys h lo hi = key_lower_bound keys h (mid + 1) hi"
        by (subst key_lower_bound.simps) (simp only: True less mid_def [symmetric] Let_def if_True)
      ultimately show ?thesis unfolding e
        by (intro "1.IH"(1) [OF True mid_def less "1.prems"(1) _ "1.prems"(3) _ "1.prems"(5)]) (use mid in simp_all)
    next
      case ge: False
      have "h \<le> fst (keys ! k)" if "mid \<le> k" "k < length keys" for k
        using mono [of mid k] that ge by simp
      moreover have e: "key_lower_bound keys h lo hi = key_lower_bound keys h lo mid"
        by (subst key_lower_bound.simps) (simp only: True ge mid_def [symmetric] Let_def if_True if_False)
      ultimately show ?thesis unfolding e
        by (intro "1.IH"(2) [OF True mid_def ge "1.prems"(1) _ _ "1.prems"(4)]) (use mid "1.prems"(3) in simp_all)
    qed
  next
    case False
    then have e: "lo = hi" using "1.prems"(2) by simp
    have "key_lower_bound keys h lo hi = lo" using False by (subst key_lower_bound.simps) (rule if_not_P)
    then show ?thesis using "1.prems"(3-5) e by simp
  qed
qed

lemma takeWhile_sorted_filter:
  assumes "sorted keys" "\<And>k. k \<in> set keys \<Longrightarrow> h \<le> fst k"
  shows "takeWhile (\<lambda>key. fst key = h \<and> snd key < i) keys = filter (\<lambda>key. fst key = h \<and> snd key < i) (keys :: (u64 \<times> nat) list)"
  using assms
proof (induction keys)
  case (Cons x keys)
  show ?case
  proof (cases "fst x = h \<and> snd x < i")
    case True
    then show ?thesis using Cons by simp
  next
    case False
    have "\<not> (fst y = h \<and> snd y < i)" if "y \<in> set keys" for y
    proof -
      have "x \<le> y" "h \<le> fst x" using Cons.prems that by simp_all
      then show ?thesis using False by (auto simp: less_eq_prod_def)
    qed
    then have "filter (\<lambda>key. fst key = h \<and> snd key < i) keys = []" by (simp add: filter_empty_conv)
    moreover have "takeWhile (\<lambda>key. fst key = h \<and> snd key < i) (x # keys) = []" using False by (simp only: takeWhile.simps if_False)
    ultimately show ?thesis using False by (simp only: filter.simps if_False)
  qed
qed simp

lemma candidates_by_hash:
  fixes h :: u64 and m :: wah_module
  defines "keys \<equiv> rec_group_keys m"
  shows "map snd (takeWhile (\<lambda>key. fst key = h \<and> snd key < i) (drop (key_lower_bound keys h 0 (length keys)) keys))
     = filter (\<lambda>j. rec_group_hashes m j = h \<and> j < i) (group_starts m)"
proof -
  let ?lb = "key_lower_bound keys h 0 (length keys)"
  let ?P = "\<lambda>key. fst key = h \<and> snd key < i"
  have srt: "sorted keys" by (simp add: keys_def rec_group_keys_def Let_def)
  have lb: "\<forall>k<?lb. fst (keys ! k) < h" "\<forall>k. ?lb \<le> k \<longrightarrow> k < length keys \<longrightarrow> h \<le> fst (keys ! k)"
    using key_lower_bound_spec [OF srt, of 0 "length keys" h] by auto
  have "filter ?P (take ?lb keys) = []"
    using lb(1) by (fastforce simp: filter_empty_conv in_set_conv_nth)
  then have "filter ?P (take ?lb keys @ drop ?lb keys) = filter ?P (drop ?lb keys)"
    by (simp only: filter_append append_Nil)
  then have "filter ?P keys = filter ?P (drop ?lb keys)" by (simp only: append_take_drop_id)
  moreover have "takeWhile ?P (drop ?lb keys) = filter ?P (drop ?lb keys)"
  proof (rule takeWhile_sorted_filter)
    show "sorted (drop ?lb keys)" by (rule sorted_wrt_drop [OF srt])
    show "h \<le> fst k" if "k \<in> set (drop ?lb keys)" for k
      using that lb(2) by (auto simp: in_set_conv_nth)
  qed
  ultimately have tw: "takeWhile ?P (drop ?lb keys) = filter ?P keys" by simp
  show ?thesis unfolding tw
  proof (rule sorted_distinct_set_unique)
    have set_keys: "set keys = (\<lambda>i. (rec_group_hashes m i, i)) ` set (group_starts m)"
      by (simp add: keys_def rec_group_keys_def Let_def)
    have "distinct keys"
      by (simp add: keys_def rec_group_keys_def Let_def distinct_map inj_on_def group_starts_sorted)
    then show "distinct (map snd (filter ?P keys))"
      by (auto simp: distinct_map inj_on_def set_keys)
    have "sorted (filter ?P keys)" using srt by (simp add: sorted_wrt_filter)
    then show "sorted (map snd (filter ?P keys))"
      by (induction keys) (auto simp: less_eq_prod_def)
    show "sorted (filter (\<lambda>j. rec_group_hashes m j = h \<and> j < i) (group_starts m))"
      "distinct (filter (\<lambda>j. rec_group_hashes m j = h \<and> j < i) (group_starts m))"
      by (simp_all add: group_starts_sorted sorted_wrt_filter)
    show "set (map snd (filter ?P keys)) = set (filter (\<lambda>j. rec_group_hashes m j = h \<and> j < i) (group_starts m))"
      by (force simp: set_keys)
  qed
qed

lemma find_filter: "find P (filter Q xs) = find (\<lambda>x. Q x \<and> P x) xs"
  by (induction xs) auto

lemma find_same:
  "(\<And>x. x \<in> set xs \<Longrightarrow> P x = Q x) \<Longrightarrow> find P xs = find Q xs"
  by (induction xs) auto

lemma canon_step_eq_ref:
  assumes wf: "wf_types m" and ok: "canon_ok m cm" and i: "i \<in> set (group_starts m)"
  shows "canon_step m cm i = canon_step_ref m cm i"
proof -
  have "find (canon_match m cm i) (filter (\<lambda>j. rec_group_hashes m j = rec_group_hashes m i \<and> j < i) (group_starts m))
      = find (canon_match m cm i) (filter (\<lambda>j. j < i) (group_starts m))"
    unfolding find_filter by (rule find_same) (auto dest: canon_match_hash [OF wf ok i])
  then show ?thesis
    unfolding canon_step_def canon_step_ref_def Let_def canon_scan_find candidates_by_hash by simp
qed

lemma canon_step_inv:
  assumes wf: "wf_types m" and ok: "canon_ok m cm" and i: "i \<in> set (group_starts m)"
    and fresh: "\<And>k. i \<le> k \<Longrightarrow> k < length (type_defs m) \<Longrightarrow> cm ! k = k"
  shows "canon_ok m (canon_step m cm i)"
    and "i + gz m i \<le> k \<Longrightarrow> k < length (type_defs m) \<Longrightarrow> canon_step m cm i ! k = k"
proof -
  have "canon_ok m (canon_step m cm i) \<and> (i + gz m i \<le> k \<longrightarrow> k < length (type_defs m) \<longrightarrow> canon_step m cm i ! k = k)" for k
  proof (cases "find (canon_match m cm i) (filter (\<lambda>j. j < i) (group_starts m))")
    case None
    then show ?thesis using ok fresh by (simp add: canon_step_eq_ref [OF wf ok i] canon_step_ref_def)
  next
    case (Some j)
    then have j: "j \<in> set (group_starts m)" "j < i" "canon_match m cm i j"
      by (auto simp: find_Some_iff in_set_conv_nth dest: nth_mem)
    have len: "i + gz m i \<le> length cm" using wf_typesD(3) [OF wf, of i] i ok by (simp add: group_starts_set canon_ok_def)
    show ?thesis using canon_write_ok [OF wf ok i j(1,3,2) fresh] canon_write_nth(1) [OF len, of j k] fresh [of k] Some
      by (simp add: canon_step_eq_ref [OF wf ok i] canon_step_ref_def)
  qed
  then show "canon_ok m (canon_step m cm i)"
    "i + gz m i \<le> k \<Longrightarrow> k < length (type_defs m) \<Longrightarrow> canon_step m cm i ! k = k" by blast+
qed

lemma canon_fold:
  assumes wf: "wf_types m" and "canon_ok m cm" "sorted is" "distinct is" "set is \<subseteq> set (group_starts m)"
    "\<And>k i. is \<noteq> [] \<Longrightarrow> hd is \<le> k \<Longrightarrow> k < length (type_defs m) \<Longrightarrow> cm ! k = k"
  shows "canon_ok m (foldl (canon_step m) cm is) \<and> foldl (canon_step m) cm is = foldl (canon_step_ref m) cm is"
  using assms(2-)
proof (induction "is" arbitrary: cm)
  case (Cons i "is")
  have i: "i \<in> set (group_starts m)" using Cons.prems by simp
  have fresh: "\<And>k. i \<le> k \<Longrightarrow> k < length (type_defs m) \<Longrightarrow> cm ! k = k" using Cons.prems(5) by simp
  note step = canon_step_inv [OF wf Cons.prems(1) i fresh]
  have "canon_ok m (foldl (canon_step m) (canon_step m cm i) is)
      \<and> foldl (canon_step m) (canon_step m cm i) is = foldl (canon_step_ref m) (canon_step m cm i) is"
  proof (rule Cons.IH [OF step(1)])
    show "canon_step m cm i ! k = k" if "is \<noteq> []" "hd is \<le> k" "k < length (type_defs m)" for k
    proof -
      have "hd is \<in> set (group_starts m)" "i < hd is" using Cons.prems that(1) by (cases "is"; force)+
      then have "i + gz m i \<le> hd is" using starts_apart [OF wf _ i] by simp
      then show ?thesis using step(2) that by simp
    qed
  qed (use Cons.prems in auto)
  then show ?case unfolding foldl_Cons canon_step_eq_ref [OF wf Cons.prems(1) i] .
qed simp

lemma canonical_map_ok:
  assumes wf: "wf_types m"
  shows "canon_ok m (wah_build_canonical_map m) \<and> wah_build_canonical_map m = canonical_map_ref m"
  unfolding wah_build_canonical_map_def canonical_map_ref_def
  by (rule canon_fold [OF wf canon_ok_init [OF wf] group_starts_sorted]) auto
section \<open>Subtyping is a preorder\<close>

text \<open>Proper supertypes of a type, along the declared chain.\<close>

inductive super_of :: "wah_module \<Rightarrow> nat \<Rightarrow> nat \<Rightarrow> bool" for m where
  direct: "td_supertype (type_defs m ! t) = Some s \<Longrightarrow> super_of m t s"
| step: "td_supertype (type_defs m ! t) = Some u \<Longrightarrow> super_of m u s \<Longrightarrow> super_of m t s"

inductive_cases super_ofE: "super_of m t s"

lemma super_of_less:
  assumes "super_of m t s" "wf_types m" "t < length (type_defs m)"
  shows "s < t" "td_kind (type_defs m ! s) = td_kind (type_defs m ! t)"
proof -
  have "s < t \<and> td_kind (type_defs m ! s) = td_kind (type_defs m ! t)"
    using assms(1,3)
  proof (induction rule: super_of.induct)
    case (direct t s)
    then show ?case using wf_typesD(5,6) [OF assms(2)] by blast
  next
    case (step t u s)
    have "u < t" "td_kind (type_defs m ! u) = td_kind (type_defs m ! t)"
      using wf_typesD(5,6) [OF assms(2) step.prems step.hyps(1)] by blast+
    then show ?case using step.IH step.prems by simp
  qed
  then show "s < t" "td_kind (type_defs m ! s) = td_kind (type_defs m ! t)" by blast+
qed

lemma super_walk_iff:
  assumes wf: "wf_types m" and "t < length (type_defs m)" "t < fuel"
  shows "super_walk fuel m q t \<longleftrightarrow> (\<exists>s. super_of m t s \<and> (s = q \<or> canon_same m s q))"
  using assms(2,3)
proof (induction fuel arbitrary: t)
  case (Suc fuel)
  show ?case
  proof (cases "td_supertype (type_defs m ! t)")
    case None
    then show ?thesis by (auto elim: super_ofE)
  next
    case (Some u)
    have u: "u < t" by (rule wf_typesD(5) [OF wf Suc.prems(1) Some])
    have "super_of m t s \<longleftrightarrow> s = u \<or> super_of m u s" for s
      using Some by (auto intro: super_of.intros elim: super_ofE)
    then show ?thesis using Suc.IH [of u] u Suc.prems Some by auto
  qed
qed simp

definition concrete_sub :: "wah_module \<Rightarrow> nat list \<Rightarrow> nat \<Rightarrow> nat \<Rightarrow> bool" where
  "concrete_sub m cm i j \<longleftrightarrow> cm ! i = cm ! j \<or> (\<exists>s. super_of m i s \<and> cm ! s = cm ! j)"

lemma canon_super_transfer:
  assumes ok: "canon_ok m cm" and i: "i < length (type_defs m)" and j: "j < length (type_defs m)" and eq: "cm ! i = cm ! j"
    and s: "td_supertype (type_defs m ! j) = Some v"
  shows "\<exists>v'. td_supertype (type_defs m ! i) = Some v' \<and> cm ! v' = cm ! v"
proof -
  have "rel_option (\<lambda>s s'. cm ! s = cm ! s') (td_supertype (type_defs m ! i)) (td_supertype (type_defs m ! (cm ! i)))"
    "rel_option (\<lambda>s s'. cm ! s = cm ! s') (td_supertype (type_defs m ! j)) (td_supertype (type_defs m ! (cm ! j)))"
    using canon_okD [OF ok i] canon_okD [OF ok j] unfolding canon_entry_ok_def by blast+
  then show ?thesis using s eq by (auto simp: option_rel_Some1 option_rel_Some2)
qed

lemma canon_chain_transfer:
  assumes ok: "canon_ok m cm" and wf: "wf_types m" and chain: "super_of m j u" and j: "j < length (type_defs m)"
    and i: "i < length (type_defs m)" "cm ! i = cm ! j"
  shows "\<exists>u'. super_of m i u' \<and> cm ! u' = cm ! u"
  using chain j i
proof (induction arbitrary: i rule: super_of.induct)
  case (direct t s)
  then show ?case using canon_super_transfer [OF ok direct.prems(2,1,3) direct.hyps] by (blast intro: super_of.direct)
next
  case (step t w s)
  obtain w' where w': "td_supertype (type_defs m ! i) = Some w'" "cm ! w' = cm ! w"
    using canon_super_transfer [OF ok step.prems(2,1,3) step.hyps(1)] by blast
  have "w < length (type_defs m)" "w' < length (type_defs m)"
    using wf_typesD(5) [OF wf step.prems(1) step.hyps(1)] wf_typesD(5) [OF wf step.prems(2) w'(1)] step.prems by simp_all
  from step.IH [OF this w'(2)] w'(1) show ?case by (blast intro: super_of.step)
qed

lemma super_of_trans: "super_of m a b \<Longrightarrow> super_of m b c \<Longrightarrow> super_of m a c"
  by (induction rule: super_of.induct) (blast intro: super_of.step)+

lemma concrete_sub_trans:
  assumes wf: "wf_types m" and ok: "canon_ok m cm" and n: "i < length (type_defs m)" "j < length (type_defs m)"
    and ij: "concrete_sub m cm i j" and jk: "concrete_sub m cm j k"
  shows "concrete_sub m cm i k"
proof -
  obtain s where s: "s = i \<or> super_of m i s" "cm ! s = cm ! j" using ij by (auto simp: concrete_sub_def)
  have sn: "s < length (type_defs m)" using s(1) super_of_less [OF _ wf n(1)] n(1) by fastforce
  show ?thesis
  proof (cases "cm ! j = cm ! k")
    case True
    then show ?thesis using s by (auto simp: concrete_sub_def)
  next
    case False
    then obtain u where u: "super_of m j u" "cm ! u = cm ! k" using jk by (auto simp: concrete_sub_def)
    obtain u' where "super_of m s u'" "cm ! u' = cm ! u" using canon_chain_transfer [OF ok wf u(1) n(2) sn s(2)] by blast
    then show ?thesis using s(1) u(2) super_of_trans by (auto simp: concrete_sub_def)
  qed
qed

lemma concrete_sub_kind:
  assumes wf: "wf_types m" and ok: "canon_ok m cm" and n: "i < length (type_defs m)" "j < length (type_defs m)"
    and ij: "concrete_sub m cm i j"
  shows "td_kind (type_defs m ! i) = td_kind (type_defs m ! j)"
proof -
  obtain s where s: "s = i \<or> super_of m i s" "cm ! s = cm ! j" using ij by (auto simp: concrete_sub_def)
  have sn: "s < length (type_defs m)" "td_kind (type_defs m ! s) = td_kind (type_defs m ! i)"
    using s(1) super_of_less [OF _ wf n(1)] n(1) by fastforce+
  have "td_kind (type_defs m ! (cm ! s)) = td_kind (type_defs m ! s)" "td_kind (type_defs m ! (cm ! j)) = td_kind (type_defs m ! j)"
    using canon_okD [OF ok sn(1)] canon_okD [OF ok n(2)] unfolding canon_entry_ok_def by blast+
  then show ?thesis using sn(2) s(2) by simp
qed

text \<open>The abstract heap types and their order.\<close>

definition abstract_heap_types :: "wah_type list" where
  "abstract_heap_types = [WAH_TYPE_FUNC, WAH_TYPE_EXTERN, WAH_TYPE_ANY, WAH_TYPE_EQ, WAH_TYPE_I31, WAH_TYPE_STRUCT,
     WAH_TYPE_ARRAY, WAH_TYPE_EXN, WAH_TYPE_NOFUNC, WAH_TYPE_NOEXTERN, WAH_TYPE_NONE, WAH_TYPE_NOEXN]"

definition abs_sub :: "wah_type \<Rightarrow> wah_type \<Rightarrow> bool" where
  "abs_sub s t \<longleftrightarrow> wah_type_is_subtype s t wah_module_zero"

definition kind_below :: "wah_comp_type_kind \<Rightarrow> wah_type \<Rightarrow> bool" where
  "kind_below k t \<longleftrightarrow> (case k of WAH_COMP_STRUCT \<Rightarrow> t = WAH_TYPE_ANY \<or> t = WAH_TYPE_EQ \<or> t = WAH_TYPE_STRUCT
     | WAH_COMP_ARRAY \<Rightarrow> t = WAH_TYPE_ANY \<or> t = WAH_TYPE_EQ \<or> t = WAH_TYPE_ARRAY | WAH_COMP_FUNC \<Rightarrow> t = WAH_TYPE_FUNC)"

definition kind_above :: "wah_comp_type_kind \<Rightarrow> wah_type \<Rightarrow> bool" where
  "kind_above k t \<longleftrightarrow> (case k of WAH_COMP_FUNC \<Rightarrow> t = WAH_TYPE_NOFUNC | _ \<Rightarrow> t = WAH_TYPE_NONE)"

lemma abs_sub_facts:
  "\<forall>a\<in>set abstract_heap_types. \<forall>b\<in>set abstract_heap_types. \<forall>c\<in>set abstract_heap_types. abs_sub a b \<longrightarrow> abs_sub b c \<longrightarrow> abs_sub a c"
  "\<forall>a\<in>set abstract_heap_types. \<forall>b\<in>set abstract_heap_types. \<forall>k\<in>set [WAH_COMP_FUNC, WAH_COMP_STRUCT, WAH_COMP_ARRAY].
     (kind_below k a \<longrightarrow> abs_sub a b \<longrightarrow> kind_below k b) \<and> (abs_sub a b \<longrightarrow> kind_above k b \<longrightarrow> kind_above k a)
     \<and> (kind_above k a \<longrightarrow> kind_below k b \<longrightarrow> abs_sub a b)
     \<and> (\<forall>k'\<in>set [WAH_COMP_FUNC, WAH_COMP_STRUCT, WAH_COMP_ARRAY]. \<not> (kind_below k a \<and> kind_above k' a))"
  by code_simp+

text \<open>The value types of a module, and subtyping between two of them in terms of heap types.\<close>

definition numeric_types :: "wah_type list" where
  "numeric_types = [WAH_TYPE_I32, WAH_TYPE_I64, WAH_TYPE_F32, WAH_TYPE_F64, WAH_TYPE_V128]"

definition concrete_type :: "wah_module \<Rightarrow> wah_type \<Rightarrow> bool" where
  "concrete_type m t \<longleftrightarrow> 0 \<le> t \<and> t < 2 ^ 31 \<and> WAH_TYIDX t < length (type_defs m)"

definition wf_val_type :: "wah_module \<Rightarrow> wah_type \<Rightarrow> bool" where
  "wf_val_type m t \<longleftrightarrow> t \<in> set numeric_types \<or> WAH_TYPE_AS_NON_NULL t \<in> set abstract_heap_types \<or> concrete_type m t"

definition kind_of :: "wah_module \<Rightarrow> wah_type \<Rightarrow> wah_comp_type_kind" where
  "kind_of m t = td_kind (type_defs m ! WAH_TYIDX t)"

definition heap_sub :: "wah_module \<Rightarrow> nat list \<Rightarrow> wah_type \<Rightarrow> wah_type \<Rightarrow> bool" where
  "heap_sub m cm s t \<longleftrightarrow> s = t \<or> (if 0 \<le> s \<and> 0 \<le> t then concrete_sub m cm (WAH_TYIDX s) (WAH_TYIDX t)
     else if 0 \<le> s then kind_below (kind_of m s) t else if 0 \<le> t then kind_above (kind_of m t) s else abs_sub s t)"

lemma concrete_non_null:
  assumes "concrete_type m t"
  shows "0 \<le> WAH_TYPE_AS_NON_NULL t" "WAH_TYIDX (WAH_TYPE_AS_NON_NULL t) = WAH_TYIDX t" "even (WAH_TYPE_AS_NON_NULL t)"
    "concrete_type m (WAH_TYPE_AS_NON_NULL t)"
proof -
  have t: "0 \<le> t" "t < 2 ^ 31" "WAH_TYIDX t < length (type_defs m)" using assms by (simp_all add: concrete_type_def)
  show 0: "0 \<le> WAH_TYPE_AS_NON_NULL t" using t by (auto simp: as_non_null_eq elim: oddE)
  show "even (WAH_TYPE_AS_NON_NULL t)" by (simp add: as_non_null_eq)
  show i: "WAH_TYIDX (WAH_TYPE_AS_NON_NULL t) = WAH_TYIDX t"
  proof (cases "even t")
    case False
    then obtain u where u: "t = 2 * u + 1" by (rule oddE)
    then have "0 \<le> u" using t(1) by linarith
    then obtain v where v: "u = int v" using nonneg_int_cases by blast
    have "nat (2 * int v + 1) = Suc (2 * v)" "nat (2 * int v) = 2 * v" by (simp_all add: nat_add_distrib nat_mult_distrib)
    then show ?thesis using t(1,2) u v by (simp add: as_non_null_eq tyidx_eq)
  qed (simp add: as_non_null_eq)
  show "concrete_type m (WAH_TYPE_AS_NON_NULL t)" using 0 i t by (auto simp: concrete_type_def as_non_null_eq)
qed

lemma abstract_even: "t \<in> set abstract_heap_types \<Longrightarrow> even t \<and> t < 0 \<and> WAH_TYPE_IS_REF t"
  by (auto simp: abstract_heap_types_def WAH_TYPE_IS_REF_def)

lemma numeric_facts: "t \<in> set numeric_types \<Longrightarrow> even t \<and> t < 0 \<and> \<not> WAH_TYPE_IS_REF t \<and> t \<noteq> WAH_TYPE_BOT
    \<and> t \<noteq> WAH_TYPE_NONE \<and> t \<noteq> WAH_TYPE_NOFUNC \<and> t \<noteq> WAH_TYPE_ANY \<and> t \<noteq> WAH_TYPE_EQ \<and> t \<noteq> WAH_TYPE_STRUCT
    \<and> t \<noteq> WAH_TYPE_ARRAY \<and> t \<noteq> WAH_TYPE_FUNC"
  by (auto simp: numeric_types_def WAH_TYPE_IS_REF_def)

lemma val_type_not_bot: "wf_val_type m t \<Longrightarrow> t \<noteq> WAH_TYPE_BOT"
  by (auto simp: wf_val_type_def numeric_types_def concrete_type_def as_non_null_eq abstract_heap_types_def)

lemma even_non_null: "even t \<Longrightarrow> WAH_TYPE_AS_NON_NULL t = t"
  by (simp add: as_non_null_eq)

lemma subtype_kinds:
  assumes "sub < 0 \<or> t < 0"
  shows "(if 0 \<le> sub then kind_below k t else if 0 \<le> t then kind_above k sub else A)
     = (if 0 \<le> sub then
         (if t = WAH_TYPE_ANY \<or> t = WAH_TYPE_EQ then k = WAH_COMP_STRUCT \<or> k = WAH_COMP_ARRAY
          else if t = WAH_TYPE_STRUCT then k = WAH_COMP_STRUCT else if t = WAH_TYPE_ARRAY then k = WAH_COMP_ARRAY
          else if t = WAH_TYPE_FUNC then k = WAH_COMP_FUNC else False)
        else if 0 \<le> t then
         (if sub = WAH_TYPE_NONE then k = WAH_COMP_STRUCT \<or> k = WAH_COMP_ARRAY
          else if sub = WAH_TYPE_NOFUNC then k = WAH_COMP_FUNC else False)
        else A)"
  by (cases k) (auto simp: kind_below_def kind_above_def)

lemma subtype_heap:
  assumes wf: "wf_types m" and cm: "canonical_map m = Some cm" and a: "wf_val_type m a" and c: "wf_val_type m c" and ne: "a \<noteq> c"
  shows "wah_type_is_subtype a c m \<longleftrightarrow> a \<notin> set numeric_types \<and> c \<notin> set numeric_types \<and> (odd a \<longrightarrow> odd c)
     \<and> heap_sub m cm (WAH_TYPE_AS_NON_NULL a) (WAH_TYPE_AS_NON_NULL c)"
proof -
  note bot = val_type_not_bot [OF a]
  consider (num) "a \<in> set numeric_types \<or> c \<in> set numeric_types"
    | (cc) "concrete_type m a" "concrete_type m c"
    | (ca) "concrete_type m a" "WAH_TYPE_AS_NON_NULL c \<in> set abstract_heap_types"
    | (ac) "WAH_TYPE_AS_NON_NULL a \<in> set abstract_heap_types" "concrete_type m c"
    | (aa) "WAH_TYPE_AS_NON_NULL a \<in> set abstract_heap_types" "WAH_TYPE_AS_NON_NULL c \<in> set abstract_heap_types"
    using a c by (auto simp: wf_val_type_def)
  then show ?thesis
  proof cases
    case num
    have "\<not> wah_type_is_subtype a c m"
    proof (cases "a \<in> set numeric_types")
      case True
      note f = numeric_facts [OF True]
      have "c \<in> set numeric_types \<or> WAH_TYPE_AS_NON_NULL c \<noteq> a"
        using c f True concrete_non_null(1) [of m c] abstract_even [of "WAH_TYPE_AS_NON_NULL c"] by (force simp: wf_val_type_def)
      moreover have "c \<in> set numeric_types \<Longrightarrow> WAH_TYPE_AS_NON_NULL c = c" using numeric_facts even_non_null by blast
      ultimately show ?thesis using f ne even_non_null [of a]
        by (auto simp: wah_type_is_subtype_def Let_def)
    next
      case False
      then have ct: "c \<in> set numeric_types" using num by blast
      note f = numeric_facts [OF ct]
      have "WAH_TYPE_AS_NON_NULL a \<noteq> c"
        using a f False concrete_non_null(1) [of m a] abstract_even [of "WAH_TYPE_AS_NON_NULL a"] by (force simp: wf_val_type_def)
      then show ?thesis using f ne even_non_null [of c] bot
        by (auto simp: wah_type_is_subtype_def Let_def)
    qed
    then show ?thesis using num by blast
  next
    case cc
    note na = concrete_non_null [OF cc(1)] and nc = concrete_non_null [OF cc(2)]
    have "a \<notin> set numeric_types" "c \<notin> set numeric_types" using cc numeric_facts by (force simp: concrete_type_def)+
    moreover have "canon_same m i j \<longleftrightarrow> cm ! i = cm ! j" for i j by (simp add: canon_same_def cm)
    ultimately show ?thesis using ne bot na nc cc super_walk_iff [OF wf, of "WAH_TYIDX a" "length (type_defs m)"]
      by (auto simp: wah_type_is_subtype_def heap_sub_def concrete_sub_def concrete_type_def Let_def)
  next
    case ca
    note na = concrete_non_null [OF ca(1)] and f = abstract_even [OF ca(2)]
    have "a \<notin> set numeric_types" using ca numeric_facts by (force simp: concrete_type_def)
    moreover have "c \<notin> set numeric_types" using numeric_facts [of c] f even_non_null [of c] by auto
    ultimately show ?thesis using ne bot na f ca(1) subtype_kinds [of "WAH_TYPE_AS_NON_NULL a" "WAH_TYPE_AS_NON_NULL c" "kind_of m a"]
      by (auto simp: wah_type_is_subtype_def heap_sub_def wah_type_def_kind_def kind_of_def concrete_type_def Let_def)
  next
    case ac
    note nc = concrete_non_null [OF ac(2)] and f = abstract_even [OF ac(1)]
    have "c \<notin> set numeric_types" using ac numeric_facts by (force simp: concrete_type_def)
    moreover have "a \<notin> set numeric_types" using numeric_facts [of a] f even_non_null [of a] by auto
    ultimately show ?thesis using ne bot nc f ac(2) subtype_kinds [of "WAH_TYPE_AS_NON_NULL a" "WAH_TYPE_AS_NON_NULL c" "kind_of m c"]
      by (auto simp: wah_type_is_subtype_def heap_sub_def wah_type_def_kind_def kind_of_def concrete_type_def Let_def)
  next
    case aa
    note fa = abstract_even [OF aa(1)] and fc = abstract_even [OF aa(2)]
    have "a \<notin> set numeric_types" "c \<notin> set numeric_types"
      using numeric_facts [of a] numeric_facts [of c] fa fc even_non_null [of a] even_non_null [of c] by auto
    then show ?thesis using ne bot fa fc even_non_null [of "WAH_TYPE_AS_NON_NULL a"] even_non_null [of "WAH_TYPE_AS_NON_NULL c"]
      by (auto simp: wah_type_is_subtype_def heap_sub_def abs_sub_def Let_def)
  qed
qed

lemma abs_sub_trans: "a \<in> set abstract_heap_types \<Longrightarrow> b \<in> set abstract_heap_types \<Longrightarrow> c \<in> set abstract_heap_types \<Longrightarrow>
    abs_sub a b \<Longrightarrow> abs_sub b c \<Longrightarrow> abs_sub a c"
  using abs_sub_facts(1) by blast

lemma kind_set: "k \<in> set [WAH_COMP_FUNC, WAH_COMP_STRUCT, WAH_COMP_ARRAY]"
  by (cases k) simp_all

lemma kind_sub:
  assumes "a \<in> set abstract_heap_types" "b \<in> set abstract_heap_types"
  shows "kind_below k a \<Longrightarrow> abs_sub a b \<Longrightarrow> kind_below k b" "abs_sub a b \<Longrightarrow> kind_above k b \<Longrightarrow> kind_above k a"
    "kind_above k a \<Longrightarrow> kind_below k b \<Longrightarrow> abs_sub a b" "kind_below k a \<Longrightarrow> kind_above k' a \<Longrightarrow> False"
  using abs_sub_facts(2) assms kind_set [of k] kind_set [of k'] by blast+

lemma heap_sub_trans:
  assumes wf: "wf_types m" and ok: "canon_ok m cm"
    and t: "a \<in> set abstract_heap_types \<or> concrete_type m a" "b \<in> set abstract_heap_types \<or> concrete_type m b"
      "c \<in> set abstract_heap_types \<or> concrete_type m c"
    and ab: "heap_sub m cm a b" and bc: "heap_sub m cm b c"
  shows "heap_sub m cm a c"
proof (cases "a = b \<or> b = c")
  case True
  then show ?thesis using ab bc by auto
next
  case False
  have A: "x < 0" if "x \<in> set abstract_heap_types" for x using abstract_even [OF that] by simp
  have C: "0 \<le> x" "WAH_TYIDX x < length (type_defs m)" if "concrete_type m x" for x using that by (simp_all add: concrete_type_def)
  consider (ccc) "concrete_type m a" "concrete_type m b" "concrete_type m c"
    | (cca) "concrete_type m a" "concrete_type m b" "c \<in> set abstract_heap_types"
    | (cac) "concrete_type m a" "b \<in> set abstract_heap_types" "concrete_type m c"
    | (caa) "concrete_type m a" "b \<in> set abstract_heap_types" "c \<in> set abstract_heap_types"
    | (acc) "a \<in> set abstract_heap_types" "concrete_type m b" "concrete_type m c"
    | (aca) "a \<in> set abstract_heap_types" "concrete_type m b" "c \<in> set abstract_heap_types"
    | (aac) "a \<in> set abstract_heap_types" "b \<in> set abstract_heap_types" "concrete_type m c"
    | (aaa) "a \<in> set abstract_heap_types" "b \<in> set abstract_heap_types" "c \<in> set abstract_heap_types"
    using t by blast
  then show ?thesis
  proof cases
    case ccc
    then show ?thesis using False ab bc C [OF ccc(1)] C [OF ccc(2)] C [OF ccc(3)] concrete_sub_trans [OF wf ok, of "WAH_TYIDX a" "WAH_TYIDX b" "WAH_TYIDX c"]
      by (simp add: heap_sub_def)
  next
    case cca
    then have k: "kind_of m a = kind_of m b"
      using False ab C [OF cca(1)] C [OF cca(2)] concrete_sub_kind [OF wf ok, of "WAH_TYIDX a" "WAH_TYIDX b"] by (simp add: heap_sub_def kind_of_def)
    then show ?thesis using False bc C [OF cca(1)] C [OF cca(2)] A [OF cca(3)] by (simp add: heap_sub_def)
  next
    case cac
    then have "kind_below (kind_of m a) b" "kind_above (kind_of m c) b"
      using False ab bc C [OF cac(1)] C [OF cac(3)] A [OF cac(2)] by (simp_all add: heap_sub_def)
    then show ?thesis using kind_sub(4) [OF cac(2,2)] by blast
  next
    case caa
    then show ?thesis using False ab bc C [OF caa(1)] A [OF caa(2)] A [OF caa(3)] kind_sub(1) [OF caa(2,3)] by (simp add: heap_sub_def)
  next
    case acc
    then have k: "kind_of m b = kind_of m c"
      using False bc C [OF acc(2)] C [OF acc(3)] concrete_sub_kind [OF wf ok, of "WAH_TYIDX b" "WAH_TYIDX c"] by (simp add: heap_sub_def kind_of_def)
    then show ?thesis using False ab C [OF acc(2)] C [OF acc(3)] A [OF acc(1)] by (simp add: heap_sub_def)
  next
    case aca
    then show ?thesis using False ab bc C [OF aca(2)] A [OF aca(1)] A [OF aca(3)] kind_sub(3) [OF aca(1,3)] by (simp add: heap_sub_def)
  next
    case aac
    then show ?thesis using False ab bc C [OF aac(3)] A [OF aac(1)] A [OF aac(2)] kind_sub(2) [OF aac(1,2)] by (simp add: heap_sub_def)
  next
    case aaa
    then show ?thesis using False ab bc A [OF aaa(1)] A [OF aaa(2)] A [OF aaa(3)] abs_sub_trans [OF aaa] by (simp add: heap_sub_def)
  qed
qed

lemma subtype_refl: "wah_type_is_subtype a a m"
  by (simp add: wah_type_is_subtype_def)

lemma subtype_trans:
  assumes wf: "wf_types m" and cm: "canonical_map m = Some (wah_build_canonical_map m)"
    and t: "wf_val_type m a" "wf_val_type m b" "wf_val_type m c"
    and ab: "wah_type_is_subtype a b m" and bc: "wah_type_is_subtype b c m"
  shows "wah_type_is_subtype a c m"
proof (cases "a = b \<or> b = c \<or> a = c")
  case True
  then show ?thesis using ab bc subtype_refl by auto
next
  case False
  have ok: "canon_ok m (wah_build_canonical_map m)" using canonical_map_ok [OF wf] ..
  have nn: "WAH_TYPE_AS_NON_NULL x \<in> set abstract_heap_types \<or> concrete_type m (WAH_TYPE_AS_NON_NULL x)"
    if "wf_val_type m x" "x \<notin> set numeric_types" for x
    using that concrete_non_null(4) by (auto simp: wf_val_type_def)
  show ?thesis
    using subtype_heap [OF wf cm t(1,2)] subtype_heap [OF wf cm t(2,3)] subtype_heap [OF wf cm t(1,3)] False ab bc
      heap_sub_trans [OF wf ok nn [OF t(1)] nn [OF t(2)] nn [OF t(3)]] by blast
qed

text \<open>Related types have the same top.\<close>

lemma top_facts:
  "\<forall>a\<in>set abstract_heap_types. \<forall>b\<in>set abstract_heap_types. abs_sub a b \<longrightarrow>
     wah_type_hierarchy_top a wah_module_zero = wah_type_hierarchy_top b wah_module_zero"
  "\<forall>a\<in>set abstract_heap_types. \<forall>k\<in>set [WAH_COMP_FUNC, WAH_COMP_STRUCT, WAH_COMP_ARRAY]. kind_below k a \<or> kind_above k a \<longrightarrow>
     wah_type_hierarchy_top a wah_module_zero = (case k of WAH_COMP_FUNC \<Rightarrow> WAH_TYPE_FUNC | _ \<Rightarrow> WAH_TYPE_ANY)"
  by code_simp+

lemma top_concrete:
  "concrete_type m t \<Longrightarrow> wah_type_hierarchy_top t m = (case kind_of m t of WAH_COMP_FUNC \<Rightarrow> WAH_TYPE_FUNC | _ \<Rightarrow> WAH_TYPE_ANY)"
  using concrete_non_null [of m t]
  by (auto simp: wah_type_hierarchy_top_def Let_def wah_type_def_kind_def kind_of_def concrete_type_def split: wah_comp_type_kind.splits)

lemma top_abstract:
  "WAH_TYPE_AS_NON_NULL t \<in> set abstract_heap_types \<Longrightarrow>
    wah_type_hierarchy_top t m = wah_type_hierarchy_top (WAH_TYPE_AS_NON_NULL t) wah_module_zero"
  using abstract_even [of "WAH_TYPE_AS_NON_NULL t"] even_non_null [of "WAH_TYPE_AS_NON_NULL t"]
  by (simp add: wah_type_hierarchy_top_def Let_def)

lemma subtype_top:
  assumes wf: "wf_types m" and cm: "canonical_map m = Some (wah_build_canonical_map m)"
    and t: "wf_val_type m a" "wf_val_type m b" and ab: "wah_type_is_subtype a b m"
  shows "wah_type_hierarchy_top a m = wah_type_hierarchy_top b m"
proof (cases "a = b")
  case False
  have ok: "canon_ok m (wah_build_canonical_map m)" using canonical_map_ok [OF wf] ..
  have h: "a \<notin> set numeric_types" "b \<notin> set numeric_types"
    "heap_sub m (wah_build_canonical_map m) (WAH_TYPE_AS_NON_NULL a) (WAH_TYPE_AS_NON_NULL b)"
    using subtype_heap [OF wf cm t False] ab by blast+
  have e: "WAH_TYPE_AS_NON_NULL a = WAH_TYPE_AS_NON_NULL b \<Longrightarrow> ?thesis"
    by (simp add: wah_type_hierarchy_top_def)
  have A: "x < 0" if "x \<in> set abstract_heap_types" for x using abstract_even [OF that] by simp
  consider (cc) "concrete_type m a" "concrete_type m b"
    | (ca) "concrete_type m a" "WAH_TYPE_AS_NON_NULL b \<in> set abstract_heap_types"
    | (ac) "WAH_TYPE_AS_NON_NULL a \<in> set abstract_heap_types" "concrete_type m b"
    | (aa) "WAH_TYPE_AS_NON_NULL a \<in> set abstract_heap_types" "WAH_TYPE_AS_NON_NULL b \<in> set abstract_heap_types"
    using t h(1,2) by (auto simp: wf_val_type_def)
  then show ?thesis
  proof cases
    case cc
    have "kind_of m a = kind_of m b"
      using h(3) concrete_non_null(1,2) [OF cc(1)] concrete_non_null(1,2) [OF cc(2)] cc
        concrete_sub_kind [OF wf ok, of "WAH_TYIDX a" "WAH_TYIDX b"]
      by (auto simp: heap_sub_def kind_of_def concrete_type_def)
    then show ?thesis by (simp add: top_concrete cc)
  next
    case ca
    then show ?thesis using h(3) concrete_non_null(1,2) [OF ca(1)] A [OF ca(2)] bspec [OF bspec [OF top_facts(2) ca(2)] kind_set, of "kind_of m a"] e
      by (auto simp: heap_sub_def top_concrete top_abstract kind_of_def)
  next
    case ac
    then show ?thesis using h(3) concrete_non_null(1,2) [OF ac(2)] A [OF ac(1)] bspec [OF bspec [OF top_facts(2) ac(1)] kind_set, of "kind_of m b"] e
      by (auto simp: heap_sub_def top_concrete top_abstract kind_of_def)
  next
    case aa
    then show ?thesis using h(3) A [OF aa(1)] A [OF aa(2)] bspec [OF bspec [OF top_facts(1) aa(1)] aa(2)] e
      by (auto simp: heap_sub_def top_abstract)
  qed
qed simp

definition demo_struct :: "nat option \<Rightarrow> nat \<Rightarrow> wah_type_def" where
  "demo_struct s i = \<lparr>td_kind = WAH_COMP_STRUCT, td_is_final = False, td_non_defaultable = False, td_supertype = s,
     td_field_types = [WAH_TYPE_I32], td_field_mutables = [True], td_rec_group_start = i, td_rec_group_size = 1\<rparr>"

definition demo_module :: wah_module where
  "demo_module = wah_module_zero\<lparr>types := replicate 3 \<lparr>ft_param_types = [], ft_result_types = []\<rparr>,
     type_defs := [demo_struct None 0, demo_struct (Some 0) 1, demo_struct None 2], canonical_map := Some [0, 1, 0]\<rparr>"

lemma demo_wf: "wf_types demo_module"
proof -
  have u: "[0..<3] = [0, 1, 2 :: nat]" by (simp add: upt_rec)
  have s: "{i..<Suc i} = {i}" for i :: nat by auto
  have "wf_group demo_module 0" "wf_group demo_module 1" "wf_group demo_module 2"
    by (simp_all add: demo_module_def wf_group_def demo_struct_def s)
  moreover have "wf_refs demo_module 0" "wf_refs demo_module 1" "wf_refs demo_module 2"
    by (simp_all add: demo_module_def wf_refs_def demo_struct_def type_refs_def)
  moreover have "length (type_defs demo_module) = 3" by (simp add: demo_module_def)
  ultimately show ?thesis by (simp add: wf_types_def u)
qed

lemma demo_canon: "wah_build_canonical_map demo_module = [0, 1, 0]"
proof -
  have u: "[0..<3] = [0, 1, 2 :: nat]" by (simp add: upt_rec)
  have "group_starts demo_module = [0, 1, 2]" by (simp add: group_starts_def demo_module_def demo_struct_def u)
  then have "canonical_map_ref demo_module = [0, 1, 0]"
    by (simp add: canonical_map_ref_def canon_step_ref_def canon_match_def canon_write_def wah_types_structurally_equal_def
        group_ref_eq_def wah_canon_ref_eq_def wah_canonicalize_type_ref_def demo_module_def demo_struct_def u)
  then show ?thesis using canonical_map_ok [OF demo_wf] by simp
qed

section \<open>Properties\<close>

text \<open>C27: Looking a group up by its hash, in the keys sorted with a binary search, finds the same representative as
  comparing it with every earlier group: equal groups always have equal hashes, and among candidates with the
  same hash the least one is taken.\<close>

theorem canonical_search_complete:
  assumes "wf_types m"
  shows "wah_build_canonical_map m = canonical_map_ref m"
  using canonical_map_ok [OF assms] by blast

theorem canonical_search_complete_witness:
  "wah_build_canonical_map demo_module = canonical_map_ref demo_module"
  by (rule canonical_search_complete [OF demo_wf])

text \<open>C28: The canonical map sends every type to an earlier or equal representative that is its own representative, in
  the same place of a group of the same size, of the same kind, with supertypes that have the same representative.\<close>

theorem canonical_map_sound:
  assumes "wf_types m" "i < length (type_defs m)"
  shows "let cm = wah_build_canonical_map m; r = cm ! i in r \<le> i \<and> cm ! r = r
    \<and> r - td_rec_group_start (type_defs m ! r) = i - td_rec_group_start (type_defs m ! i)
    \<and> td_rec_group_size (type_defs m ! r) = td_rec_group_size (type_defs m ! i)
    \<and> td_kind (type_defs m ! r) = td_kind (type_defs m ! i)
    \<and> rel_option (\<lambda>s s'. cm ! s = cm ! s') (td_supertype (type_defs m ! i)) (td_supertype (type_defs m ! r))"
  using canonical_map_ok [OF assms(1)] canon_okD [of m "wah_build_canonical_map m" i] assms(2)
  unfolding canon_entry_ok_def Let_def by blast

theorem canonical_map_sound_witness:
  "let cm = wah_build_canonical_map demo_module; r = cm ! 2 in r \<le> 2 \<and> cm ! r = r
    \<and> r - td_rec_group_start (type_defs demo_module ! r) = 2 - td_rec_group_start (type_defs demo_module ! 2)
    \<and> td_rec_group_size (type_defs demo_module ! r) = td_rec_group_size (type_defs demo_module ! 2)
    \<and> td_kind (type_defs demo_module ! r) = td_kind (type_defs demo_module ! 2)
    \<and> rel_option (\<lambda>s s'. cm ! s = cm ! s') (td_supertype (type_defs demo_module ! 2)) (td_supertype (type_defs demo_module ! r))"
  by (rule canonical_map_sound [OF demo_wf]) (simp add: demo_module_def)

text \<open>C29: Subtyping between the value types of a module is transitive, through canonical types, declared supertypes,
  the abstract hierarchy and nullability, and never leaves a hierarchy.\<close>

theorem subtype_transitive:
  assumes "wf_types m" "canonical_map m = Some (wah_build_canonical_map m)" "wf_val_type m a" "wf_val_type m b" "wf_val_type m c"
    and "wah_type_is_subtype a b m" "wah_type_is_subtype b c m"
  shows "wah_type_is_subtype a c m \<and> wah_type_hierarchy_top a m = wah_type_hierarchy_top c m"
  using subtype_trans [OF assms] subtype_top [OF assms(1,2)] assms by blast

theorem subtype_transitive_witness:
  "wah_type_is_subtype 2 (- 35) demo_module \<and> wah_type_hierarchy_top 2 demo_module = wah_type_hierarchy_top (- 35) demo_module"
proof (rule subtype_transitive [OF demo_wf, where b = 5])
  show cm: "canonical_map demo_module = Some (wah_build_canonical_map demo_module)"
    by (simp add: demo_canon) (simp add: demo_module_def)
  show "wf_val_type demo_module 2" "wf_val_type demo_module 5" "wf_val_type demo_module (- 35)"
    by (simp_all add: wf_val_type_def concrete_type_def tyidx_eq demo_module_def abstract_heap_types_def as_non_null_eq)
  show "wah_type_is_subtype 2 5 demo_module"
    by (simp add: wah_type_is_subtype_def as_non_null_eq tyidx_eq demo_module_def demo_struct_def canon_same_def Let_def numeral_3_eq_3)
  show "wah_type_is_subtype 5 (- 35) demo_module"
    by (simp add: wah_type_is_subtype_def as_non_null_eq tyidx_eq demo_module_def demo_struct_def wah_type_def_kind_def Let_def)
qed
end
