(* ===== verification/Wah_Layout.thy ===== *)
theory Wah_Layout
  imports Wah_Decode
begin

text \<open>
  The layout of struct objects: fields are placed in declaration order, each in the smallest free slot that
  fits it, and a slot that is too large is split into halves. The lemmas show that the fields of a built layout
  are aligned, pairwise disjoint and within the object, that at most 15 bytes are wasted, and that the
  consistency check of the debug build accepts every layout that is built.
\<close>

section \<open>Slots\<close>

text \<open>The size and representation of a field; references are pointers of 8 bytes (a 64-bit target).\<close>

definition wah_field_type_layout :: "wah_type \<Rightarrow> (nat \<times> int) res" where
  "wah_field_type_layout ft =
    (if ft = WAH_TYPE_PACKED_I8 then Inr (1, WAH_REPR_NONE)
     else if ft = WAH_TYPE_PACKED_I16 then Inr (2, WAH_REPR_NONE)
     else if ft = WAH_TYPE_I32 \<or> ft = WAH_TYPE_F32 then Inr (4, WAH_REPR_NONE)
     else if ft = WAH_TYPE_I64 \<or> ft = WAH_TYPE_F64 then Inr (8, WAH_REPR_NONE)
     else if ft = WAH_TYPE_V128 then Inr (16, WAH_REPR_NONE)
     else if WAH_TYPE_IS_REF ft then Inr (8, WAH_REPR_REF)
     else Inl WAH_ERROR_VALIDATION_FAILED)"

text \<open>The free slots of 1, 2, 4 and 8 bytes, each a sorted list of offsets.\<close>

type_synonym slot_lists = "nat list list"

definition wah_layout_slot_index :: "nat \<Rightarrow> nat" where
  "wah_layout_slot_index sz = (if sz = 1 then 0 else if sz = 2 then 1 else if sz = 4 then 2 else if sz = 8 then 3 else 0)"

text \<open>The insertion loop walks down from the end of the list, here of the reversed list.\<close>

fun slot_insert_rev :: "nat \<Rightarrow> nat list \<Rightarrow> nat list" where
  "slot_insert_rev off [] = [off]"
| "slot_insert_rev off (x # xs) = (if x > off then x # slot_insert_rev off xs else off # x # xs)"

definition wah_layout_slot_push :: "slot_lists \<Rightarrow> nat \<Rightarrow> nat \<Rightarrow> slot_lists" where
  "wah_layout_slot_push slots sz off =
    (let i = wah_layout_slot_index sz in slots[i := rev (slot_insert_rev off (rev (slots ! i)))])"

definition wah_layout_slot_pop :: "slot_lists \<Rightarrow> nat \<Rightarrow> (nat \<times> slot_lists) option" where
  "wah_layout_slot_pop slots sz =
    (let i = wah_layout_slot_index sz in
     case slots ! i of [] \<Rightarrow> None | off # offs \<Rightarrow> Some (off, slots[i := offs]))"

text \<open>The sizes are positive, so halving ends.\<close>

function wah_layout_split_slot :: "slot_lists \<Rightarrow> nat \<Rightarrow> nat \<Rightarrow> nat \<Rightarrow> slot_lists" where
  "wah_layout_split_slot slots off from_size used_size =
    (if from_size div 2 \<ge> used_size \<and> used_size > 0
     then wah_layout_split_slot (wah_layout_slot_push slots (from_size div 2) (off + from_size div 2)) off (from_size div 2) used_size
     else slots)"
  by pat_completeness auto
termination by (relation "measure (\<lambda>(slots, off, from_size, used_size). from_size)") auto

declare wah_layout_split_slot.simps [simp del]

function record_tail_loop :: "slot_lists \<Rightarrow> nat \<Rightarrow> nat \<Rightarrow> nat \<Rightarrow> slot_lists" where
  "record_tail_loop slots base used_size sz =
    (if sz \<ge> used_size \<and> sz > 0 then
       (let slots' = wah_layout_slot_push slots sz (base + sz) in
        if sz = 1 then slots' else record_tail_loop slots' base used_size (sz div 2))
     else slots)"
  by pat_completeness auto
termination by (relation "measure (\<lambda>(slots, base, used_size, sz). sz)") auto

declare record_tail_loop.simps [simp del]

definition wah_layout_record_tail_slots :: "slot_lists \<Rightarrow> nat \<Rightarrow> nat \<Rightarrow> slot_lists" where
  "wah_layout_record_tail_slots slots base used_size = record_tail_loop slots base used_size 8"

section \<open>Placing the fields\<close>

text \<open>The search for a larger slot, from twice the field size on (which is positive).\<close>

function pop_larger :: "slot_lists \<Rightarrow> nat \<Rightarrow> (nat \<times> nat \<times> slot_lists) option" where
  "pop_larger slots slot_size =
    (if slot_size \<le> 8 \<and> slot_size > 0 then
       (case wah_layout_slot_pop slots slot_size of
          Some (off, slots') \<Rightarrow> Some (slot_size, off, slots')
        | None \<Rightarrow> pop_larger slots (slot_size * 2))
     else None)"
  by pat_completeness auto
termination by (relation "measure (\<lambda>(slots, slot_size). 9 - slot_size)") auto

declare pop_larger.simps [simp del]

definition layout_place :: "nat \<Rightarrow> slot_lists \<Rightarrow> nat \<Rightarrow> (nat \<times> slot_lists \<times> nat) res" where
  "layout_place field_size slots frontier =
    (if field_size = 16 then
       WAH_ENSURE (frontier \<le> UINT32_MAX - 16) WAH_ERROR_TOO_LARGE (Inr (frontier, slots, frontier + 16))
     else (case wah_layout_slot_pop slots field_size of
         Some (off, slots') \<Rightarrow> Inr (off, slots', frontier)
       | None \<Rightarrow>
         (case pop_larger slots (field_size * 2) of
            Some (slot_size, off, slots') \<Rightarrow> Inr (off, wah_layout_split_slot slots' off slot_size field_size, frontier)
          | None \<Rightarrow>
            WAH_ENSURE (frontier \<le> UINT32_MAX - 16) WAH_ERROR_TOO_LARGE
              (Inr (frontier, wah_layout_record_tail_slots slots frontier field_size, frontier + 16)))))"

fun layout_fields :: "wah_type list \<Rightarrow> slot_lists \<Rightarrow> nat \<Rightarrow> nat \<Rightarrow> wah_repr_field list \<Rightarrow> (wah_repr_field list \<times> nat) res" where
  "layout_fields [] slots frontier live_end fs0 = Inr (fs0, live_end)"
| "layout_fields (ft # fts) slots frontier live_end fs0 =
    WAH_CHECK (wah_field_type_layout ft) (\<lambda>(field_size, field_repr).
    WAH_ENSURE (field_size > 0 \<and> field_size \<le> 16 \<and> field_size AND (field_size - 1) = 0) WAH_ERROR_VALIDATION_FAILED (
    WAH_CHECK (layout_place field_size slots frontier) (\<lambda>(off, slots, frontier).
    if off > UINT32_MAX - field_size then Inl WAH_ERROR_TOO_LARGE
    else layout_fields fts slots frontier (if live_end < off + field_size then off + field_size else live_end)
      (fs0 @ [\<lparr>rf_offset = off, rf_repr_id = field_repr\<rparr>]))))"

definition wah_build_struct_repr_info :: "nat \<Rightarrow> wah_type_def \<Rightarrow> wah_repr_info res" where
  "wah_build_struct_repr_info typeidx td =
    WAH_ENSURE (td_kind td = WAH_COMP_STRUCT) WAH_ERROR_MISUSE (
    WAH_CHECK (layout_fields (td_field_types td) [[], [], [], []] 0 0 []) (\<lambda>(fs0, live_end).
    Inr \<lparr>ri_type = WAH_REPR_STRUCT, ri_typeidx = typeidx, ri_size = live_end, ri_fields = fs0\<rparr>))"

section \<open>The check of the debug build\<close>

text \<open>\<open>used\<close> is the byte map that is kept for objects of up to 4096 bytes.\<close>

fun mark_used :: "bool list \<Rightarrow> nat \<Rightarrow> nat \<Rightarrow> bool list res" where
  "mark_used used off 0 = Inr used"
| "mark_used used off (Suc n) = WAH_ENSURE (\<not> used ! off) WAH_ERROR_VALIDATION_FAILED (mark_used (used[off := True]) (off + 1) n)"

fun check_fields :: "wah_type list \<Rightarrow> wah_repr_field list \<Rightarrow> nat \<Rightarrow> nat \<Rightarrow> bool list option \<Rightarrow> nat res" where
  "check_fields [] fs sz field_bytes used = Inr field_bytes"
| "check_fields (ft # fts) fs sz field_bytes used =
    WAH_CHECK (wah_field_type_layout ft) (\<lambda>(field_size, field_repr).
    let off = rf_offset (hd fs) in
    WAH_ENSURE (field_size > 0 \<and> field_size \<le> 16 \<and> field_size AND (field_size - 1) = 0) WAH_ERROR_VALIDATION_FAILED (
    WAH_ENSURE (off AND (field_size - 1) = 0) WAH_ERROR_VALIDATION_FAILED (
    WAH_ENSURE (off \<le> sz \<and> field_size \<le> sz - off) WAH_ERROR_VALIDATION_FAILED (
    WAH_ENSURE (rf_repr_id (hd fs) = field_repr) WAH_ERROR_VALIDATION_FAILED (
    case used of
      None \<Rightarrow> check_fields fts (tl fs) sz (field_bytes + field_size) None
    | Some u \<Rightarrow> WAH_CHECK (mark_used u off field_size) (\<lambda>u'. check_fields fts (tl fs) sz (field_bytes + field_size) (Some u')))))))"

definition wah_validate_struct_repr_info :: "wah_type_def \<Rightarrow> wah_repr_info \<Rightarrow> unit res" where
  "wah_validate_struct_repr_info td info =
    WAH_ENSURE (ri_type info = WAH_REPR_STRUCT) WAH_ERROR_MISUSE (
    let used = (if ri_size info > 0 \<and> ri_size info \<le> 4096 then Some (replicate (ri_size info) False) else None) in
    WAH_CHECK (check_fields (td_field_types td) (ri_fields info) (ri_size info) 0 used) (\<lambda>field_bytes.
    WAH_ENSURE (ri_size info \<ge> field_bytes \<and> ri_size info - field_bytes \<le> 15) WAH_ERROR_VALIDATION_FAILED (Inr ())))"

section \<open>Regions\<close>

type_synonym region = "nat \<times> nat"

definition free_regions :: "slot_lists \<Rightarrow> region list" where
  "free_regions slots = map (\<lambda>x. (x, 1)) (slots ! 0) @ map (\<lambda>x. (x, 2)) (slots ! 1)
     @ map (\<lambda>x. (x, 4)) (slots ! 2) @ map (\<lambda>x. (x, 8)) (slots ! 3)"

text \<open>How many regions contain byte \<open>x\<close>.\<close>

definition covers :: "region list \<Rightarrow> nat \<Rightarrow> nat" where
  "covers rs x = sum_list (map (\<lambda>(off, n). if off \<le> x \<and> x < off + n then 1 else 0) rs)"

definition region_total :: "region list \<Rightarrow> nat" where
  "region_total rs = sum_list (map snd rs)"

text \<open>The free slots and the fields tile the bytes below the frontier, and there is at most one free slot of each size.\<close>

definition layout_inv :: "region list \<Rightarrow> slot_lists \<Rightarrow> nat \<Rightarrow> nat \<Rightarrow> bool" where
  "layout_inv fs slots frontier live_end \<longleftrightarrow>
    (\<exists>a b c d. slots = [a, b, c, d] \<and> length a \<le> 1 \<and> length b \<le> 1 \<and> length c \<le> 1 \<and> length d \<le> 1)
    \<and> (\<forall>x. covers fs x + covers (free_regions slots) x = (if x < frontier then 1 else 0))
    \<and> region_total fs + region_total (free_regions slots) = frontier \<and> 16 dvd frontier
    \<and> (\<forall>(off, n)\<in>set (fs @ free_regions slots). n dvd off)
    \<and> (\<forall>(off, n)\<in>set fs. off + n \<le> live_end) \<and> live_end \<le> frontier"

lemma short_list: "length xs \<le> 1 \<Longrightarrow> xs = [] \<or> (\<exists>x. xs = [x])"
  by (cases xs) auto

lemma covers_simps [simp]:
  "covers [] x = 0" "covers ((off, n) # rs) x = (if off \<le> x \<and> x < off + n then 1 else 0) + covers rs x"
  "covers (rs @ rs') x = covers rs x + covers rs' x"
  by (simp_all add: covers_def)

lemma total_simps [simp]: "region_total [] = 0" "region_total (r # rs) = snd r + region_total rs" "region_total (rs @ rs') = region_total rs + region_total rs'"
  by (simp_all add: region_total_def)

lemma place_exec:
  assumes "length a \<le> 1" "length b \<le> 1" "length c \<le> 1" "length d \<le> 1" "s \<in> {1, 2, 4, 8, 16}" "frontier \<le> UINT32_MAX - 16"
  shows "\<exists>off slots' frontier'. layout_place s [a, b, c, d] frontier = Inr (off, slots', frontier')"
  using assms by (auto simp: layout_place_def split: option.splits)

lemmas layout_exec = layout_place_def wah_layout_slot_pop_def wah_layout_slot_index_def wah_layout_slot_push_def
  wah_layout_record_tail_slots_def

lemma split_exec:
  "wah_layout_split_slot slots off 8 1 = wah_layout_slot_push (wah_layout_slot_push (wah_layout_slot_push slots 4 (off + 4)) 2 (off + 2)) 1 (off + 1)"
  "wah_layout_split_slot slots off 4 1 = wah_layout_slot_push (wah_layout_slot_push slots 2 (off + 2)) 1 (off + 1)"
  "wah_layout_split_slot slots off 2 1 = wah_layout_slot_push slots 1 (off + 1)"
  "wah_layout_split_slot slots off 8 2 = wah_layout_slot_push (wah_layout_slot_push slots 4 (off + 4)) 2 (off + 2)"
  "wah_layout_split_slot slots off 4 2 = wah_layout_slot_push slots 2 (off + 2)"
  "wah_layout_split_slot slots off 8 4 = wah_layout_slot_push slots 4 (off + 4)"
  by (simp_all add: wah_layout_split_slot.simps)

lemma tail_exec:
  "record_tail_loop slots base 1 8 = wah_layout_slot_push (wah_layout_slot_push (wah_layout_slot_push
     (wah_layout_slot_push slots 8 (base + 8)) 4 (base + 4)) 2 (base + 2)) 1 (base + 1)"
  "record_tail_loop slots base 2 8 = wah_layout_slot_push (wah_layout_slot_push
     (wah_layout_slot_push slots 8 (base + 8)) 4 (base + 4)) 2 (base + 2)"
  "record_tail_loop slots base 4 8 = wah_layout_slot_push (wah_layout_slot_push slots 8 (base + 8)) 4 (base + 4)"
  "record_tail_loop slots base 8 8 = wah_layout_slot_push slots 8 (base + 8)"
  by (simp_all add: record_tail_loop.simps)

lemma larger_exec:
  "pop_larger [a, b, c, d] 2 = (case b of x # xs \<Rightarrow> Some (2, x, [a, xs, c, d]) | [] \<Rightarrow> pop_larger [a, b, c, d] 4)"
  "pop_larger [a, b, c, d] 4 = (case c of x # xs \<Rightarrow> Some (4, x, [a, b, xs, d]) | [] \<Rightarrow> pop_larger [a, b, c, d] 8)"
  "pop_larger [a, b, c, d] 8 = (case d of x # xs \<Rightarrow> Some (8, x, [a, b, c, xs]) | [] \<Rightarrow> None)"
  "pop_larger slots 16 = None"
  by (subst pop_larger.simps; auto simp: wah_layout_slot_pop_def wah_layout_slot_index_def pop_larger.simps [of _ 16] split: list.splits)+

lemma slot_push_empty:
  "wah_layout_slot_push [[], b, c, d] 1 off = [[off], b, c, d]"
  "wah_layout_slot_push [a, [], c, d] 2 off = [a, [off], c, d]"
  "wah_layout_slot_push [a, b, [], d] 4 off = [a, b, [off], d]"
  "wah_layout_slot_push [a, b, c, []] 8 off = [a, b, c, [off]]"
  by (simp_all add: wah_layout_slot_push_def wah_layout_slot_index_def numeral_2_eq_2 numeral_3_eq_3)

lemma slot_pop_exec:
  "wah_layout_slot_pop [a, b, c, d] 1 = (case a of x # xs \<Rightarrow> Some (x, [xs, b, c, d]) | [] \<Rightarrow> None)"
  "wah_layout_slot_pop [a, b, c, d] 2 = (case b of x # xs \<Rightarrow> Some (x, [a, xs, c, d]) | [] \<Rightarrow> None)"
  "wah_layout_slot_pop [a, b, c, d] 4 = (case c of x # xs \<Rightarrow> Some (x, [a, b, xs, d]) | [] \<Rightarrow> None)"
  "wah_layout_slot_pop [a, b, c, d] 8 = (case d of x # xs \<Rightarrow> Some (x, [a, b, c, xs]) | [] \<Rightarrow> None)"
  by (simp_all add: wah_layout_slot_pop_def wah_layout_slot_index_def numeral_2_eq_2 numeral_3_eq_3 split: list.split)

lemmas place_exec_simps = layout_place_def wah_layout_record_tail_slots_def slot_pop_exec larger_exec split_exec tail_exec slot_push_empty res_simps

text \<open>What placing a field does to the free regions: it removes one region, whose first bytes become the field, and
  adds the halves that are split off.\<close>

inductive placed :: "nat \<Rightarrow> slot_lists \<Rightarrow> nat \<Rightarrow> nat \<Rightarrow> slot_lists \<Rightarrow> nat \<Rightarrow> bool" where
  p16: "placed 16 slots f f slots (f + 16)"
| p1a: "placed 1 [[x], b, c, d] f x [[], b, c, d] f"
| p1b: "placed 1 [[], [x], c, d] f x [[x + 1], [], c, d] f"
| p1c: "placed 1 [[], [], [x], d] f x [[x + 1], [x + 2], [], d] f"
| p1d: "placed 1 [[], [], [], [x]] f x [[x + 1], [x + 2], [x + 4], []] f"
| p1e: "placed 1 [[], [], [], []] f f [[f + 1], [f + 2], [f + 4], [f + 8]] (f + 16)"
| p2a: "placed 2 [a, [x], c, d] f x [a, [], c, d] f"
| p2b: "placed 2 [a, [], [x], d] f x [a, [x + 2], [], d] f"
| p2c: "placed 2 [a, [], [], [x]] f x [a, [x + 2], [x + 4], []] f"
| p2d: "placed 2 [a, [], [], []] f f [a, [f + 2], [f + 4], [f + 8]] (f + 16)"
| p4a: "placed 4 [a, b, [x], d] f x [a, b, [], d] f"
| p4b: "placed 4 [a, b, [], [x]] f x [a, b, [x + 4], []] f"
| p4c: "placed 4 [a, b, [], []] f f [a, b, [f + 4], [f + 8]] (f + 16)"
| p8a: "placed 8 [a, b, c, [x]] f x [a, b, c, []] f"
| p8b: "placed 8 [a, b, c, []] f f [a, b, c, [f + 8]] (f + 16)"

lemma place_placed:
  assumes "length a \<le> 1" "length b \<le> 1" "length c \<le> 1" "length d \<le> 1" "s \<in> {1, 2, 4, 8, 16}"
    and "layout_place s [a, b, c, d] f = Inr (off, slots', f')"
  shows "placed s [a, b, c, d] f off slots' f'"
proof -
  have l: "a = [] \<or> (\<exists>x. a = [x])" "b = [] \<or> (\<exists>x. b = [x])" "c = [] \<or> (\<exists>x. c = [x])" "d = [] \<or> (\<exists>x. d = [x])"
    using assms(1-4) by (simp_all only: short_list)
  consider "s = 16" | "s = 8" | "s = 4" | "s = 2" | "s = 1" using assms(5) by auto
  then show ?thesis
  proof cases
    case 1
    then show ?thesis using assms(6) by (auto simp: layout_place_def res_simps intro: placed.intros)
  next
    case 2
    show ?thesis using l(4) assms(6) unfolding 2 by (elim disjE exE) (auto simp: place_exec_simps intro: placed.intros)
  next
    case 3
    show ?thesis using l(3,4) assms(6) unfolding 3 by (elim disjE exE) (auto simp: place_exec_simps intro: placed.intros)
  next
    case 4
    consider (b) x where "b = [x]" | (c) x where "b = []" "c = [x]" | (d) x where "b = []" "c = []" "d = [x]"
      | (e) "b = []" "c = []" "d = []" using l by blast
    then show ?thesis using assms(6) unfolding 4
      by cases (auto simp: place_exec_simps split: option.splits intro: placed.intros placed.intros [simplified])
  next
    case 5
    consider (a) x where "a = [x]" | (b) x where "a = []" "b = [x]" | (c) x where "a = []" "b = []" "c = [x]"
      | (d) x where "a = []" "b = []" "c = []" "d = [x]" | (e) "a = []" "b = []" "c = []" "d = []"
      using l by blast
    then show ?thesis using assms(6) unfolding 5
      by cases (auto simp: place_exec_simps simp del: One_nat_def add_2_eq_Suc' add_2_eq_Suc split: option.splits intro: placed.intros)
  qed
qed

lemma placed_covers:
  assumes "placed s slots f off slots' f'"
  shows "covers (free_regions slots) x + (if f \<le> x \<and> x < f' then 1 else 0)
    = (if off \<le> x \<and> x < off + s then 1 else 0) + covers (free_regions slots') x"
  using assms by cases (auto simp: free_regions_def)

lemma placed_total:
  assumes "placed s slots f off slots' f'"
  shows "region_total (free_regions slots) + (f' - f) = s + region_total (free_regions slots') \<and> f \<le> f'"
  using assms by cases (simp_all add: free_regions_def)

lemma placed_shape:
  assumes "placed s slots f off slots' f'" "\<exists>a b c d. slots = [a, b, c, d] \<and> length a \<le> 1 \<and> length b \<le> 1 \<and> length c \<le> 1 \<and> length d \<le> 1"
  shows "\<exists>a b c d. slots' = [a, b, c, d] \<and> length a \<le> 1 \<and> length b \<le> 1 \<and> length c \<le> 1 \<and> length d \<le> 1"
  using assms by cases simp_all

lemma placed_aligned:
  assumes "placed s slots f off slots' f'" "16 dvd f" "\<forall>(off, n)\<in>set (free_regions slots). n dvd off"
  shows "s dvd off \<and> 16 dvd f' \<and> (\<forall>(off, n)\<in>set (free_regions slots'). n dvd off)"
proof -
  have d: "2 dvd f" "4 dvd f" "8 dvd f" using dvd_trans [OF _ assms(2)] by simp_all
  have e: "4 dvd x" if "8 dvd x" for x :: nat using dvd_trans [OF _ that, of 4] by simp
  have e': "2 dvd x" if "4 dvd x" for x :: nat using dvd_trans [OF _ that, of 2] by simp
  show ?thesis using assms(1)
    by cases (use assms(2,3) d e e' in \<open>auto simp: free_regions_def\<close>)
qed

lemma placed_bounds:
  assumes "placed s slots f off slots' f'" "list_all (\<lambda>(off, n). off + n \<le> f) (free_regions slots)"
  shows "off + s \<le> f + 16 \<and> f' \<le> f + 16 \<and> list_all (\<lambda>(off, n). off + n \<le> f') (free_regions slots')"
  using assms
proof cases
  case p16
  then show ?thesis using assms(2) by (auto simp: list_all_iff)
qed (auto simp: free_regions_def list_all_iff ball_Un trans_le_add1)

lemma placed_inv:
  assumes p: "placed s slots f off slots' f'" and inv: "layout_inv fs slots f live" and s: "0 < s"
  shows "layout_inv (fs @ [(off, s)]) slots' f' (max live (off + s))"
proof -
  have c: "\<forall>x. covers (fs @ [(off, s)]) x + covers (free_regions slots') x = (if x < f' then 1 else 0)"
  proof
    fix x
    have "covers fs x + covers (free_regions slots) x = (if x < f then 1 else 0)" using inv by (simp add: layout_inv_def)
    then show "covers (fs @ [(off, s)]) x + covers (free_regions slots') x = (if x < f' then 1 else 0)"
      using placed_covers [OF p, of x] placed_total [OF p]
      by (cases "x < f"; cases "x < f'"; cases "off \<le> x \<and> x < off + s") simp_all
  qed
  have "off + s \<le> f'"
    using spec [OF c, of "off + s - 1"] s by (auto split: if_splits)
  then show ?thesis
    using c inv placed_shape [OF p] placed_total [OF p] placed_aligned [OF p] unfolding layout_inv_def
    by fastforce
qed

section \<open>Every built layout is valid\<close>

lemma mask_dvd:
  fixes x :: nat
  shows "x AND 1 = 0 \<longleftrightarrow> 2 dvd x" "x AND 3 = 0 \<longleftrightarrow> 4 dvd x" "x AND 7 = 0 \<longleftrightarrow> 8 dvd x" "x AND 15 = 0 \<longleftrightarrow> 16 dvd x"
  using take_bit_eq_mask [of 1 x] take_bit_eq_mask [of 2 x] take_bit_eq_mask [of 3 x] take_bit_eq_mask [of 4 x]
  by (simp_all add: take_bit_eq_mod mask_eq_exp_minus_1 dvd_eq_mod_eq_0)

lemma field_layout_sizes: "wah_field_type_layout ft = Inr (n, r) \<Longrightarrow> n \<in> {1, 2, 4, 8, 16}"
  by (auto simp: wah_field_type_layout_def split: if_splits)

lemma power2_mask: "n \<in> {1, 2, 4, 8, 16} \<Longrightarrow> n AND (n - 1) = (0 :: nat)"
  by (auto simp: and_nat_def)

text \<open>The regions of the placed fields, with the sizes of their types.\<close>

definition type_size :: "wah_type \<Rightarrow> nat" where
  "type_size ft = (case wah_field_type_layout ft of Inl _ \<Rightarrow> 0 | Inr (n, _) \<Rightarrow> n)"

definition type_repr :: "wah_type \<Rightarrow> int" where
  "type_repr ft = (case wah_field_type_layout ft of Inl _ \<Rightarrow> WAH_REPR_NONE | Inr (_, r) \<Rightarrow> r)"

definition field_regions :: "wah_type list \<Rightarrow> wah_repr_field list \<Rightarrow> region list" where
  "field_regions fts fs = zip (map rf_offset fs) (map type_size fts)"

lemma layout_fields_inv:
  assumes "layout_fields fts slots f live fs = Inr (fs', live')" and "length fts0 = length fs"
    and "layout_inv (field_regions fts0 fs) slots f live" "map rf_repr_id fs = map type_repr fts0"
    and "list_all (\<lambda>ft. type_size ft \<in> {1, 2, 4, 8, 16}) fts0"
  shows "length fs' = length (fts0 @ fts) \<and> map rf_repr_id fs' = map type_repr (fts0 @ fts)
    \<and> list_all (\<lambda>ft. type_size ft \<in> {1, 2, 4, 8, 16}) (fts0 @ fts)
    \<and> (\<exists>slots' f'. layout_inv (field_regions (fts0 @ fts) fs') slots' f' live')"
  using assms
proof (induction fts arbitrary: slots f live fs fts0)
  case Nil
  then show ?case by auto
next
  case (Cons ft fts)
  obtain n r off slots' f' where n: "wah_field_type_layout ft = Inr (n, r)"
    and pl: "layout_place n slots f = Inr (off, slots', f')"
    and rest: "layout_fields fts slots' f' (if live < off + n then off + n else live)
      (fs @ [\<lparr>rf_offset = off, rf_repr_id = r\<rparr>]) = Inr (fs', live')"
    using Cons.prems(1) by (auto simp: res_simps split: if_splits)
  have s: "n \<in> {1, 2, 4, 8, 16}" "0 < n" using field_layout_sizes [OF n] by auto
  obtain a b c d where sh: "slots = [a, b, c, d]" "length a \<le> 1" "length b \<le> 1" "length c \<le> 1" "length d \<le> 1"
    using Cons.prems(3) unfolding layout_inv_def by blast
  have ts: "type_size ft = n" "type_repr ft = r" using n by (simp_all add: type_size_def type_repr_def)
  have p: "placed n slots f off slots' f'" using place_placed [OF sh(2-5) s(1), of f off slots' f'] pl sh(1) by simp
  have inv: "layout_inv (field_regions (fts0 @ [ft]) (fs @ [\<lparr>rf_offset = off, rf_repr_id = r\<rparr>])) slots' f'
      (if live < off + n then off + n else live)"
    using placed_inv [OF p Cons.prems(3) s(2)] Cons.prems(2) ts by (simp add: field_regions_def max_def split: if_splits)
  show ?case
    using Cons.IH [OF rest _ inv] Cons.prems(2,4,5) ts s by simp
qed

lemma layout_fields_total:
  "list_all (\<lambda>ft. type_size ft \<noteq> 0) fts \<Longrightarrow>
    \<exists>a b c d. slots = [a, b, c, d] \<and> length a \<le> 1 \<and> length b \<le> 1 \<and> length c \<le> 1 \<and> length d \<le> 1 \<Longrightarrow>
    list_all (\<lambda>(off, n). off + n \<le> f) (free_regions slots) \<Longrightarrow>
    f + 16 * length fts \<le> UINT32_MAX - 16 \<Longrightarrow> \<exists>r. layout_fields fts slots f live fs = Inr r"
proof (induction fts arbitrary: slots f live fs)
  case (Cons ft fts)
  obtain n r where n: "wah_field_type_layout ft = Inr (n, r)"
    using Cons.prems(1) by (cases "wah_field_type_layout ft") (auto simp: type_size_def)
  have s: "n \<in> {1, 2, 4, 8, 16}" by (rule field_layout_sizes [OF n])
  obtain a b c d where sh: "slots = [a, b, c, d]" "length a \<le> 1" "length b \<le> 1" "length c \<le> 1" "length d \<le> 1"
    using Cons.prems(2) by blast
  have fl: "f \<le> UINT32_MAX - 16" using Cons.prems(4) by simp
  obtain off slots' f' where pl: "layout_place n slots f = Inr (off, slots', f')"
    using place_exec [OF sh(2-5) s fl] sh(1) by blast
  have p: "placed n slots f off slots' f'" using place_placed [OF sh(2-5) s, of f off slots' f'] pl sh(1) by simp
  have b: "off + n \<le> f + 16" "f' \<le> f + 16" "list_all (\<lambda>(off, n). off + n \<le> f') (free_regions slots')"
    using placed_bounds [OF p Cons.prems(3)] by blast+
  have "\<exists>r. layout_fields fts slots' f' live' fs'' = Inr r" for live' fs''
    using Cons.IH [OF _ placed_shape [OF p Cons.prems(2)] b(3)] Cons.prems(1,4) b(2) by simp
  moreover have o: "\<not> off > UINT32_MAX - n" using b(1) Cons.prems(4) s by auto
  have "0 < n \<and> n \<le> 16 \<and> n AND (n - 1) = 0" using s power2_mask [OF s] by auto
  then have "layout_fields (ft # fts) slots f live fs = layout_fields fts slots' f'
      (if live < off + n then off + n else live) (fs @ [\<lparr>rf_offset = off, rf_repr_id = r\<rparr>])"
    using o by (simp only: layout_fields.simps n pl WAH_CHECK_Inr prod.case WAH_ENSURE_True if_False simp_thms)
  ultimately show ?case by simp
qed simp

lemma covers_mem: "(off, n) \<in> set rs \<Longrightarrow> off \<le> x \<Longrightarrow> x < off + n \<Longrightarrow> 1 \<le> covers rs x"
  by (induction rs) auto

lemma covers_two:
  assumes "i < j" "j < length rs" "rs ! i = (a, n)" "rs ! j = (b, k)" "a \<le> x" "x < a + n" "b \<le> x" "x < b + k"
  shows "2 \<le> covers rs x"
proof -
  have "rs = take j rs @ drop j rs" by simp
  then have "covers rs x = covers (take j rs) x + covers (drop j rs) x" by (metis covers_simps(3))
  moreover have "(a, n) \<in> set (take j rs)" using assms(1-3) by (metis in_set_conv_nth length_take min.strict_order_iff nth_take order.strict_trans min_def not_less_iff_gr_or_eq)
  moreover have "(b, k) \<in> set (drop j rs)" using assms(2,4) by (metis Cons_nth_drop_Suc list.set_intros(1))
  ultimately show ?thesis using covers_mem [of a n "take j rs" x] covers_mem [of b k "drop j rs" x] assms by linarith
qed

definition disjoint :: "region \<Rightarrow> region \<Rightarrow> bool" where
  "disjoint r r' \<longleftrightarrow> fst r + snd r \<le> fst r' \<or> fst r' + snd r' \<le> fst r"

lemma inv_disjoint:
  assumes inv: "layout_inv rs slots f live" and ij: "i < j" "j < length rs" and pos: "0 < snd (rs ! i)" "0 < snd (rs ! j)"
  shows "disjoint (rs ! i) (rs ! j)"
proof (rule ccontr)
  assume nd: "\<not> disjoint (rs ! i) (rs ! j)"
  define x where "x = max (fst (rs ! i)) (fst (rs ! j))"
  have "2 \<le> covers rs x"
    using covers_two [OF ij, of "fst (rs ! i)" "snd (rs ! i)" "fst (rs ! j)" "snd (rs ! j)" x] nd pos
    by (auto simp: disjoint_def x_def max_def)
  moreover have "covers rs x + covers (free_regions slots) x = (if x < f then 1 else 0)" using inv by (simp add: layout_inv_def)
  ultimately show False by (simp split: if_splits)
qed

lemma inv_regions: "layout_inv rs slots f live \<Longrightarrow> \<forall>(off, n)\<in>set rs. n dvd off \<and> off + n \<le> live"
  unfolding layout_inv_def by (simp add: ball_Un) blast

lemma inv_waste: "layout_inv rs slots f live \<Longrightarrow> live \<le> region_total rs + 15"
proof -
  assume inv: "layout_inv rs slots f live"
  then obtain a b c d where sh: "slots = [a, b, c, d]" "length a \<le> 1" "length b \<le> 1" "length c \<le> 1" "length d \<le> 1"
    unfolding layout_inv_def by blast
  have t: "region_total (map (\<lambda>x. (x, n)) xs) = n * length xs" for n :: nat and xs :: "nat list" by (induction xs) simp_all
  have "region_total (free_regions slots) \<le> 15" using sh by (simp add: free_regions_def t)
  then show ?thesis using inv by (simp add: layout_inv_def)
qed

lemma inv_bound:
  assumes inv: "layout_inv rs slots f live"
  shows "region_total rs \<le> live"
proof -
  have sum: "(\<Sum>x<b. covers rs x) = region_total rs" if "\<forall>(off, n)\<in>set rs. off + n \<le> b" for b
    using that
  proof (induction rs)
    case (Cons r rs)
    obtain off n where r: "r = (off, n)" by (cases r)
    have "(\<Sum>x<b. if x \<in> {off..<off + n} then 1 else 0) = card ({..<b} \<inter> {off..<off + n})"
      by (simp only: sum.If_cases finite_lessThan Collect_mem_eq) simp
    also have "{..<b} \<inter> {off..<off + n} = {off..<off + n}" using Cons.prems r by auto
    finally have "(\<Sum>x<b. if off \<le> x \<and> x < off + n then 1 else 0) = n" by simp
    then show ?case using Cons r by (simp add: sum.distrib)
  qed simp
  have "covers rs x \<le> 1" for x
  proof -
    have "covers rs x + covers (free_regions slots) x = (if x < f then 1 else 0)" using inv by (simp add: layout_inv_def)
    then show ?thesis by (simp split: if_splits)
  qed
  then have "(\<Sum>x<live. covers rs x) \<le> live" using sum_bounded_above [of "{..<live}" "covers rs" 1] by simp
  moreover have "\<forall>(off, n)\<in>set rs. off + n \<le> live" using inv by (simp add: layout_inv_def)
  ultimately show ?thesis using sum by simp
qed

lemma built_layout:
  assumes "wah_build_struct_repr_info idx td = Inr info"
  shows "td_kind td = WAH_COMP_STRUCT" "ri_type info = WAH_REPR_STRUCT" "length (ri_fields info) = length (td_field_types td)"
    "map rf_repr_id (ri_fields info) = map type_repr (td_field_types td)"
    "list_all (\<lambda>ft. type_size ft \<in> {1, 2, 4, 8, 16}) (td_field_types td)"
    "\<exists>slots f. layout_inv (field_regions (td_field_types td) (ri_fields info)) slots f (ri_size info)"
proof -
  have init: "layout_inv (field_regions [] []) [[], [], [], []] 0 0"
    by (simp add: layout_inv_def field_regions_def free_regions_def)
  obtain fs live where b: "td_kind td = WAH_COMP_STRUCT" "layout_fields (td_field_types td) [[], [], [], []] 0 0 [] = Inr (fs, live)"
    "info = \<lparr>ri_type = WAH_REPR_STRUCT, ri_typeidx = idx, ri_size = live, ri_fields = fs\<rparr>"
    using assms by (auto simp: wah_build_struct_repr_info_def res_simps)
  from layout_fields_inv [OF b(2) _ init] b
  show "td_kind td = WAH_COMP_STRUCT" "ri_type info = WAH_REPR_STRUCT" "length (ri_fields info) = length (td_field_types td)"
    "map rf_repr_id (ri_fields info) = map type_repr (td_field_types td)"
    "list_all (\<lambda>ft. type_size ft \<in> {1, 2, 4, 8, 16}) (td_field_types td)"
    "\<exists>slots f. layout_inv (field_regions (td_field_types td) (ri_fields info)) slots f (ri_size info)" by simp_all
qed

lemma regions_nth:
  "length fs = length fts \<Longrightarrow> i < length fts \<Longrightarrow> field_regions fts fs ! i = (rf_offset (fs ! i), type_size (fts ! i))"
  by (simp add: field_regions_def)

lemma regions_total: "length fs = length fts \<Longrightarrow> region_total (field_regions fts fs) = sum_list (map type_size fts)"
  by (simp add: region_total_def field_regions_def)

section \<open>The debug check accepts\<close>

lemma mark_used_ok:
  "off + n \<le> length u \<Longrightarrow> (\<And>x. off \<le> x \<Longrightarrow> x < off + n \<Longrightarrow> \<not> u ! x) \<Longrightarrow>
    mark_used u off n = Inr (map (\<lambda>x. u ! x \<or> (off \<le> x \<and> x < off + n)) [0..<length u])"
proof (induction n arbitrary: u off)
  case 0
  have "(\<lambda>x. u ! x \<or> (off \<le> x \<and> x < off + 0)) = (!) u" by auto
  then show ?case by (simp add: map_nth)
next
  case (Suc n)
  have "mark_used (u[off := True]) (off + 1) n = Inr (map (\<lambda>x. u[off := True] ! x \<or> (off + 1 \<le> x \<and> x < off + 1 + n)) [0..<length u])"
    using Suc.IH [of "off + 1" "u[off := True]"] Suc.prems by simp
  moreover have "map (\<lambda>x. u[off := True] ! x \<or> (off + 1 \<le> x \<and> x < off + 1 + n)) [0..<length u]
      = map (\<lambda>x. u ! x \<or> (off \<le> x \<and> x < off + Suc n)) [0..<length u]"
    using Suc.prems(1) by (auto simp: nth_list_update)
  moreover have "\<not> u ! off" using Suc.prems by simp
  ultimately show ?case by simp
qed

lemma check_fields_ok:
  assumes "length fs = length fts" "map rf_repr_id fs = map type_repr fts" "list_all (\<lambda>ft. type_size ft \<in> {1, 2, 4, 8, 16}) fts"
    and "\<forall>(off, n)\<in>set (field_regions fts fs). n dvd off \<and> off + n \<le> sz"
    and "\<And>u. used = Some u \<Longrightarrow> length u = sz \<and> (\<forall>x < sz. (if u ! x then 1 else 0) + covers (field_regions fts fs) x \<le> 1)"
  shows "check_fields fts fs sz bytes used = Inr (bytes + sum_list (map type_size fts))"
  using assms
proof (induction fts arbitrary: fs bytes used)
  case (Cons ft fts)
  obtain fd fs' where fs: "fs = fd # fs'" using Cons.prems(1) by (cases fs) auto
  define n where "n = type_size ft"
  have n: "n \<in> {1, 2, 4, 8, 16}" using Cons.prems(3) by (simp add: n_def)
  have lay: "wah_field_type_layout ft = Inr (n, rf_repr_id fd)"
    using n Cons.prems(2) fs by (cases "wah_field_type_layout ft") (auto simp: n_def type_size_def type_repr_def)
  have reg: "field_regions (ft # fts) fs = (rf_offset fd, n) # field_regions fts fs'" by (simp add: field_regions_def fs n_def)
  have al: "n dvd rf_offset fd" "rf_offset fd + n \<le> sz" "rf_offset fd \<le> sz" "n \<le> sz - rf_offset fd"
    using Cons.prems(4) reg by auto
  have mask: "rf_offset fd AND (n - 1) = 0" using al(1) n by (auto simp: mask_dvd)
  have rest: "check_fields fts fs' sz (bytes + n) used' = Inr (bytes + n + sum_list (map type_size fts))"
    if "\<And>u. used' = Some u \<Longrightarrow> length u = sz \<and> (\<forall>x < sz. (if u ! x then 1 else 0) + covers (field_regions fts fs') x \<le> 1)" for used'
    by (rule Cons.IH) (use Cons.prems fs reg that in auto)
  have head: "0 < n \<and> n \<le> 16 \<and> n AND (n - 1) = 0" using n power2_mask [OF n] by auto
  show ?case
  proof (cases used)
    case None
    then show ?thesis using lay mask al head rest [of None] fs by (simp add: n_def [symmetric] add.assoc)
  next
    case (Some u)
    have u: "length u = sz" "\<And>x. x < sz \<Longrightarrow> (if u ! x then 1 else 0) + covers ((rf_offset fd, n) # field_regions fts fs') x \<le> 1"
      using Cons.prems(5) [OF Some] reg by auto
    have free: "\<not> u ! x" if "rf_offset fd \<le> x" "x < rf_offset fd + n" for x
      using u(2) [of x] that al by (auto split: if_splits)
    define u' where "u' = map (\<lambda>x. u ! x \<or> (rf_offset fd \<le> x \<and> x < rf_offset fd + n)) [0..<length u]"
    have mk: "mark_used u (rf_offset fd) n = Inr u'" unfolding u'_def by (rule mark_used_ok) (use al u free in auto)
    have lu: "length u' = sz" by (simp add: u'_def u(1))
    have "(if u' ! x then 1 else 0) + covers (field_regions fts fs') x \<le> 1" if "x < sz" for x
      using u(2) [OF that] that free [of x] u(1) by (auto simp: u'_def split: if_splits)
    then show ?thesis using Some lay mask al head mk rest [of "Some u'"] fs lu by (simp add: n_def [symmetric] add.assoc)
  qed
qed simp

section \<open>Properties\<close>

definition demo_layout_struct :: wah_type_def where
  "demo_layout_struct = \<lparr>td_kind = WAH_COMP_STRUCT, td_is_final = True, td_non_defaultable = False, td_supertype = None,
     td_field_types = [WAH_TYPE_PACKED_I8, WAH_TYPE_I64, WAH_TYPE_I32, WAH_TYPE_ANY], td_field_mutables = [True, True, True, True],
     td_rec_group_start = 0, td_rec_group_size = 1\<rparr>"

text \<open>C30: In a built struct layout every field is aligned to its size and lies within the object, any two fields are
  disjoint, every field has the representation of its type, and the object is at most 15 bytes larger than its fields.\<close>

theorem struct_layout_valid:
  assumes "wah_build_struct_repr_info idx td = Inr info" "i < length (td_field_types td)" "j < length (td_field_types td)"
  shows "let n = \<lambda>k. type_size (td_field_types td ! k); off = \<lambda>k. rf_offset (ri_fields info ! k) in
     n j dvd off j \<and> off j + n j \<le> ri_size info \<and> n i dvd off i \<and> off i + n i \<le> ri_size info
     \<and> (i = j \<or> off i + n i \<le> off j \<or> off j + n j \<le> off i)
     \<and> map rf_repr_id (ri_fields info) = map type_repr (td_field_types td)
     \<and> sum_list (map type_size (td_field_types td)) \<le> ri_size info
     \<and> ri_size info \<le> sum_list (map type_size (td_field_types td)) + 15"
proof -
  note b = built_layout [OF assms(1)]
  obtain slots f where inv: "layout_inv (field_regions (td_field_types td) (ri_fields info)) slots f (ri_size info)" using b(6) by blast
  have len: "length (field_regions (td_field_types td) (ri_fields info)) = length (td_field_types td)" by (simp add: field_regions_def b(3))
  have nth: "field_regions (td_field_types td) (ri_fields info) ! k = (rf_offset (ri_fields info ! k), type_size (td_field_types td ! k))"
    "(rf_offset (ri_fields info ! k), type_size (td_field_types td ! k)) \<in> set (field_regions (td_field_types td) (ri_fields info))"
    "0 < type_size (td_field_types td ! k)" if "k < length (td_field_types td)" for k
    using regions_nth [OF b(3) that] nth_mem [of k "field_regions (td_field_types td) (ri_fields info)"] len that b(5)
    by (auto simp: list_all_length)
  have al: "type_size (td_field_types td ! k) dvd rf_offset (ri_fields info ! k)"
    "rf_offset (ri_fields info ! k) + type_size (td_field_types td ! k) \<le> ri_size info" if "k < length (td_field_types td)" for k
    using inv nth(2) [OF that] unfolding layout_inv_def by auto
  have "disjoint (field_regions (td_field_types td) (ri_fields info) ! k) (field_regions (td_field_types td) (ri_fields info) ! l)"
    if "k < l" "l < length (td_field_types td)" for k l
    using inv_disjoint [OF inv that(1)] nth [of k] nth [of l] that len by simp
  from this [of i j] this [of j i] show ?thesis
    using al [of i] al [of j] nth(1) [of i] nth(1) [of j] assms(2,3) b(4) inv_waste [OF inv] inv_bound [OF inv] regions_total [OF b(3)]
    by (cases i j rule: linorder_cases) (auto simp: Let_def disjoint_def)
qed

lemma demo_layout_built:
  "wah_build_struct_repr_info 0 demo_layout_struct = Inr \<lparr>ri_type = WAH_REPR_STRUCT, ri_typeidx = 0, ri_size = 24,
     ri_fields = [\<lparr>rf_offset = 0, rf_repr_id = WAH_REPR_NONE\<rparr>, \<lparr>rf_offset = 8, rf_repr_id = WAH_REPR_NONE\<rparr>,
       \<lparr>rf_offset = 4, rf_repr_id = WAH_REPR_NONE\<rparr>, \<lparr>rf_offset = 16, rf_repr_id = WAH_REPR_REF\<rparr>]\<rparr>"
  by (simp add: wah_build_struct_repr_info_def demo_layout_struct_def wah_field_type_layout_def WAH_TYPE_IS_REF_def and_nat_def
      place_exec_simps place_exec_simps(1-) [simplified])

theorem struct_layout_valid_witness:
  "let info = \<lparr>ri_type = WAH_REPR_STRUCT, ri_typeidx = 0, ri_size = 24,
       ri_fields = [\<lparr>rf_offset = 0, rf_repr_id = WAH_REPR_NONE\<rparr>, \<lparr>rf_offset = 8, rf_repr_id = WAH_REPR_NONE\<rparr>,
         \<lparr>rf_offset = 4, rf_repr_id = WAH_REPR_NONE\<rparr>, \<lparr>rf_offset = 16, rf_repr_id = WAH_REPR_REF\<rparr>]\<rparr>;
     n = \<lambda>k. type_size (td_field_types demo_layout_struct ! k); off = \<lambda>k. rf_offset (ri_fields info ! k) in
     n 2 dvd off 2 \<and> off 2 + n 2 \<le> ri_size info \<and> n 0 dvd off 0 \<and> off 0 + n 0 \<le> ri_size info
     \<and> (off 0 + n 0 \<le> off 2 \<or> off 2 + n 2 \<le> off 0)
     \<and> map rf_repr_id (ri_fields info) = map type_repr (td_field_types demo_layout_struct)
     \<and> sum_list (map type_size (td_field_types demo_layout_struct)) \<le> ri_size info
     \<and> ri_size info \<le> sum_list (map type_size (td_field_types demo_layout_struct)) + 15"
  using struct_layout_valid [OF demo_layout_built, of 0 2] by (simp add: Let_def demo_layout_struct_def)

text \<open>The consistency check of the debug build accepts every layout that was built: it never reports an overlap, a
  misaligned or outlying field, or too much padding.\<close>

lemma struct_layout_check_passes:
  assumes "wah_build_struct_repr_info idx td = Inr info"
  shows "wah_validate_struct_repr_info td info = Inr ()"
proof -
  note b = built_layout [OF assms]
  obtain slots f where inv: "layout_inv (field_regions (td_field_types td) (ri_fields info)) slots f (ri_size info)" using b(6) by blast
  have cov: "covers (field_regions (td_field_types td) (ri_fields info)) x \<le> 1" for x
  proof -
    have "covers (field_regions (td_field_types td) (ri_fields info)) x + covers (free_regions slots) x = (if x < f then 1 else 0)"
      using inv by (simp add: layout_inv_def)
    then show ?thesis by (simp split: if_splits)
  qed
  have "check_fields (td_field_types td) (ri_fields info) (ri_size info) 0 used = Inr (0 + sum_list (map type_size (td_field_types td)))"
    if "used = None \<or> used = Some (replicate (ri_size info) False)" for used
    by (rule check_fields_ok [OF b(3-5) inv_regions [OF inv]]) (use that cov in auto)
  then show ?thesis using b(2) inv_waste [OF inv] inv_bound [OF inv] regions_total [OF b(3)]
    by (simp add: wah_validate_struct_repr_info_def Let_def res_simps)
qed

text \<open>Building a layout always ends, and it succeeds for every struct whose fields have storable types and that
  has fewer than 268435454 of them; the only errors are a type without a layout and an object that is too large.\<close>

lemma struct_layout_total:
  assumes "td_kind td = WAH_COMP_STRUCT" "list_all (\<lambda>ft. type_size ft \<noteq> 0) (td_field_types td)"
    and "length (td_field_types td) \<le> 268435453"
  shows "\<exists>info. wah_build_struct_repr_info idx td = Inr info"
proof -
  have "\<exists>r. layout_fields (td_field_types td) [[], [], [], []] 0 0 [] = Inr r"
    using assms(2,3) by (intro layout_fields_total) (simp_all add: free_regions_def)
  then show ?thesis using assms(1) by (auto simp: wah_build_struct_repr_info_def)
qed

end
