(* ===== verification/Wah_Alloc.thy ===== *)
theory Wah_Alloc
  imports Wah_Prelude
begin

text \<open>
  Memory allocation: the wrappers around the user's allocator callbacks (\<open>wah_malloc\<close>, \<open>wah_realloc\<close>,
  \<open>wah_free\<close>) and the growing of arrays. The callbacks are not code of the program: they are fields of the
  record \<open>wah_alloc\<close> and act on the allocator's own state \<open>'u\<close> (its \<open>userdata\<close>) and on memory, a map from
  addresses to bytes; address 0 is \<open>NULL\<close>.
\<close>

section \<open>Allocators\<close>

type_synonym mem = "nat \<Rightarrow> u8"

record 'u wah_alloc =
  al_malloc :: "nat \<Rightarrow> 'u \<times> mem \<Rightarrow> nat \<times> 'u \<times> mem"
  al_realloc :: "nat \<Rightarrow> nat \<Rightarrow> 'u \<times> mem \<Rightarrow> nat \<times> 'u \<times> mem"
  al_free :: "nat \<Rightarrow> 'u \<times> mem \<Rightarrow> 'u \<times> mem"
  al_min_align :: nat

abbreviation (input) "WAH_BLOCK_ALIGN \<equiv> 16 :: nat"

definition wah_alloc_padded :: "'u wah_alloc \<Rightarrow> bool" where
  "wah_alloc_padded a \<longleftrightarrow> al_min_align a < WAH_BLOCK_ALIGN"

definition block_pad :: "nat \<Rightarrow> nat" where
  "block_pad raw = WAH_BLOCK_ALIGN - (raw AND (WAH_BLOCK_ALIGN - 1))"

definition wah_alloc_pad :: "nat \<Rightarrow> mem \<Rightarrow> nat \<times> mem" where
  "wah_alloc_pad raw h = (let p = raw + block_pad raw in (p, h(p - 1 := of_nat (block_pad raw))))"

definition wah_free :: "'u wah_alloc \<Rightarrow> nat \<Rightarrow> 'u \<times> mem \<Rightarrow> 'u \<times> mem" where
  "wah_free a ptr s =
    (if ptr = 0 then s
     else al_free a (if wah_alloc_padded a then ptr - unat (snd s (ptr - 1)) else ptr) s)"

definition wah_malloc :: "'u wah_alloc \<Rightarrow> nat \<Rightarrow> nat \<Rightarrow> 'u \<times> mem \<Rightarrow> wah_error \<times> nat \<times> 'u \<times> mem" where
  "wah_malloc a count elemsize s =
    (if count = 0 \<or> elemsize = 0 then (WAH_OK, 0, s)
     else if elemsize \<noteq> 0 \<and> count > SIZE_MAX div elemsize then (WAH_ERROR_OUT_OF_MEMORY, 0, s)
     else let sz = count * elemsize in
       if wah_alloc_padded a then
         (if sz > SIZE_MAX - WAH_BLOCK_ALIGN then (WAH_ERROR_OUT_OF_MEMORY, 0, s)
          else let (raw, u, h) = al_malloc a (sz + WAH_BLOCK_ALIGN) s in
            if raw = 0 then (WAH_ERROR_OUT_OF_MEMORY, 0, u, h)
            else let (p, h') = wah_alloc_pad raw h in (WAH_OK, p, u, h'))
       else let (p, u, h) = al_malloc a sz s in
         (if p \<noteq> 0 then WAH_OK else WAH_ERROR_OUT_OF_MEMORY, p, u, h))"

definition memmove :: "nat \<Rightarrow> nat \<Rightarrow> nat \<Rightarrow> mem \<Rightarrow> mem" where
  "memmove dst src n h = (\<lambda>x. if dst \<le> x \<and> x < dst + n then h (src + (x - dst)) else h x)"

definition wah_realloc :: "'u wah_alloc \<Rightarrow> nat \<Rightarrow> nat \<Rightarrow> nat \<Rightarrow> 'u \<times> mem \<Rightarrow> wah_error \<times> nat \<times> 'u \<times> mem" where
  "wah_realloc a count elemsize ptr s =
    (if count = 0 \<or> elemsize = 0 then (WAH_OK, 0, wah_free a ptr s)
     else if ptr = 0 then wah_malloc a count elemsize s
     else if elemsize \<noteq> 0 \<and> count > SIZE_MAX div elemsize then (WAH_ERROR_OUT_OF_MEMORY, ptr, s)
     else let sz = count * elemsize in
       if wah_alloc_padded a then
         (if sz > SIZE_MAX - WAH_BLOCK_ALIGN then (WAH_ERROR_OUT_OF_MEMORY, ptr, s)
          else let old_pad = unat (snd s (ptr - 1));
                   (raw, u, h) = al_realloc a (ptr - old_pad) (sz + WAH_BLOCK_ALIGN) s in
            if raw = 0 then (WAH_ERROR_OUT_OF_MEMORY, ptr, u, h)
            else let new_pad = block_pad raw;
                     h' = (if new_pad \<noteq> old_pad then memmove (raw + new_pad) (raw + old_pad) sz h else h);
                     (p, h'') = wah_alloc_pad raw h' in (WAH_OK, p, u, h''))
       else let (p, u, h) = al_realloc a ptr sz s in
         if p = 0 then (WAH_ERROR_OUT_OF_MEMORY, ptr, u, h) else (WAH_OK, p, u, h))"

section \<open>Growing arrays\<close>

text \<open>The doubling loop of \<open>wah_grow_array\<close>; its capacity is never 0, because the caller starts an empty array
  at 8.\<close>

function grow_loop :: "nat \<Rightarrow> nat \<Rightarrow> nat res" where
  "grow_loop needed new_cap =
    (if new_cap < needed \<and> new_cap \<noteq> 0
     then WAH_ENSURE (new_cap \<le> UINT32_MAX div 2) WAH_ERROR_TOO_LARGE (grow_loop needed (new_cap * 2))
     else Inr new_cap)"
  by auto
termination by (relation "measure (\<lambda>(needed, cap). needed - cap)") auto

declare grow_loop.simps [simp del]

definition grow_capacity :: "nat \<Rightarrow> nat \<Rightarrow> nat res" where
  "grow_capacity needed cap =
    (if needed \<le> cap then Inr cap
     else WAH_ENSURE (needed \<le> UINT32_MAX) WAH_ERROR_TOO_LARGE
       (grow_loop needed (if cap \<noteq> 0 then cap else 8)))"

definition wah_grow_array :: "'u wah_alloc \<Rightarrow> nat \<Rightarrow> nat \<Rightarrow> nat \<Rightarrow> nat \<Rightarrow> 'u \<times> mem \<Rightarrow>
    wah_error \<times> nat \<times> nat \<times> 'u \<times> mem" where
  "wah_grow_array a needed elemsize ptr cap s =
    (if needed \<le> cap then (WAH_OK, ptr, cap, s)
     else case grow_capacity needed cap of
       Inl e \<Rightarrow> (e, ptr, cap, s)
     | Inr new_cap \<Rightarrow>
         (case wah_realloc a new_cap elemsize ptr s of (err, p, s') \<Rightarrow>
            if err \<noteq> WAH_OK then (err, ptr, cap, s') else (WAH_OK, p, new_cap, s')))"

definition pow2_capacity :: "nat \<Rightarrow> nat" where
  "pow2_capacity count = (if count \<noteq> 0 then count * 2 else 1)"

text \<open>In \<open>count & (count - 1)\<close> the subtraction wraps for 0, and 0 AND anything is 0.\<close>

definition wah_grow_array_pow2 :: "'u wah_alloc \<Rightarrow> nat \<Rightarrow> nat \<Rightarrow> nat \<Rightarrow> 'u \<times> mem \<Rightarrow>
    wah_error \<times> nat \<times> 'u \<times> mem" where
  "wah_grow_array_pow2 a count elemsize ptr s =
    (if count AND (count - 1) \<noteq> 0 then (WAH_OK, ptr, s)
     else if \<not> count \<le> UINT32_MAX div 2 then (WAH_ERROR_TOO_LARGE, ptr, s)
     else wah_realloc a (pow2_capacity count) elemsize ptr s)"

section \<open>Padding\<close>

lemma block_pad_eq: "block_pad raw = 16 - raw mod 16"
proof -
  have "raw AND 15 = raw mod 16"
    using take_bit_eq_mask [of 4 raw] by (simp add: take_bit_eq_mod mask_numeral)
  then show ?thesis by (simp add: block_pad_def)
qed

lemma block_pad_bounds: "1 \<le> block_pad raw" "block_pad raw \<le> 16" "16 dvd raw + block_pad raw"
proof -
  have "raw mod 16 < 16" by simp
  then show "1 \<le> block_pad raw" by (simp only: block_pad_eq)
  show "block_pad raw \<le> 16" by (simp only: block_pad_eq)
  have "raw + (16 - raw mod 16) = 16 * (raw div 16 + 1)"
    using mult_div_mod_eq [of 16 raw] \<open>raw mod 16 < 16\<close> by presburger
  then show "16 dvd raw + block_pad raw" by (simp only: block_pad_eq) simp
qed

lemma unat_pad [simp]: "unat (of_nat (block_pad raw) :: u8) = block_pad raw"
  using block_pad_bounds(2) [of raw] by (intro unat_of_nat_u8) linarith

lemma alloc_pad_spec:
  assumes "wah_alloc_pad raw h = (p, h')"
  shows "p = raw + block_pad raw" "unat (h' (p - 1)) = p - raw" "\<And>x. x \<noteq> p - 1 \<Longrightarrow> h' x = h x"
  using assms by (auto simp: wah_alloc_pad_def Let_def)

section \<open>Capacities\<close>

lemma grow_loop_bounds:
  assumes "grow_loop needed c = Inr r" "0 < c"
  shows "needed \<le> r \<and> c \<le> r \<and> (\<exists>k. r = c * 2 ^ k) \<and> (c < needed \<longrightarrow> r < 2 * needed)"
  using assms
proof (induction needed c rule: grow_loop.induct)
  case (1 needed c)
  show ?case
  proof (cases "c < needed")
    case True
    then have rec: "grow_loop needed (c * 2) = Inr r"
      using 1(2,3) by (subst (asm) grow_loop.simps) (simp add: res_simps)
    have "c \<le> UINT32_MAX div 2" using 1(2,3) True by (subst (asm) grow_loop.simps) (simp add: res_simps)
    with 1(1) True 1(3) rec have IH: "needed \<le> r \<and> c * 2 \<le> r \<and> (\<exists>k. r = c * 2 * 2 ^ k) \<and> (c * 2 < needed \<longrightarrow> r < 2 * needed)"
      by simp
    then obtain k where "r = c * 2 * 2 ^ k" by blast
    then have "r = c * 2 ^ Suc k" by simp
    moreover have "r < 2 * needed"
    proof (cases "c * 2 < needed")
      case False
      then have "r = c * 2" using rec by (subst (asm) grow_loop.simps) simp
      then show ?thesis using True by simp
    qed (use IH in simp)
    ultimately show ?thesis using IH by (intro conjI impI) (simp, simp, blast, simp)
  next
    case False
    then have "r = c" using 1(2) by (subst (asm) grow_loop.simps) simp
    then show ?thesis using False by (auto intro: exI [of _ 0])
  qed
qed

lemma grow_loop_total:
  assumes "needed \<le> 2 ^ 31" "0 < c"
  shows "\<exists>r. grow_loop needed c = Inr r"
  using assms
proof (induction needed c rule: grow_loop.induct)
  case (1 needed c)
  show ?case
  proof (cases "c < needed")
    case True
    then have "c \<le> UINT32_MAX div 2" using 1(2) by simp
    then show ?thesis using 1 True by (subst grow_loop.simps) simp
  qed (subst grow_loop.simps, simp)
qed

lemma grow_capacity_bounds:
  assumes "grow_capacity needed cap = Inr r"
  shows "needed \<le> r" "cap \<le> r" "cap < needed \<Longrightarrow> r < max 9 (2 * needed)"
proof -
  have "needed \<le> r \<and> cap \<le> r \<and> (cap < needed \<longrightarrow> r < max 9 (2 * needed))"
  proof (cases "needed \<le> cap")
    case False
    let ?c = "if cap \<noteq> 0 then cap else 8"
    have g: "grow_loop needed ?c = Inr r" using assms False by (simp add: grow_capacity_def res_simps)
    have pos: "0 < ?c" by simp
    note b = grow_loop_bounds [OF g pos]
    have "r < max 9 (2 * needed)"
    proof (cases "?c < needed")
      case True
      then have "r < 2 * needed" using b by blast
      then show ?thesis by simp
    next
      case False': False
      then have "r = ?c" using g by (subst (asm) grow_loop.simps) simp
      then show ?thesis using False False' by (auto split: if_splits)
    qed
    then show ?thesis using b by (auto split: if_splits)
  qed (use assms in \<open>simp add: grow_capacity_def\<close>)
  then show "needed \<le> r" "cap \<le> r" "cap < needed \<Longrightarrow> r < max 9 (2 * needed)" by blast+
qed

section \<open>Properties\<close>

text \<open>C33: Padded allocations keep their bookkeeping. When the allocator guarantees less than 16 bytes of
  alignment and wah_malloc succeeds on a non-empty request, the pointer it returns is a multiple of 16, the
  requested bytes and the padding lie inside the raw block, nothing of the block but the padding is written, and
  wah_free of that pointer hands the raw pointer back to the allocator.\<close>

theorem malloc_free_roundtrip:
  assumes "wah_alloc_padded a" "count \<noteq> 0" "elemsize \<noteq> 0"
    and "wah_malloc a count elemsize s = (WAH_OK, p, s')"
    and "al_malloc a (count * elemsize + 16) s = (raw, u, h)"
  shows "raw \<noteq> 0 \<and> 16 dvd p \<and> raw < p \<and> p + count * elemsize \<le> raw + (count * elemsize + 16)
    \<and> count * elemsize + 16 < 2 ^ 64
    \<and> (\<forall>x. x < raw \<or> p \<le> x \<longrightarrow> snd s' x = h x) \<and> wah_free a p s' = al_free a raw s'"
proof -
  have small: "\<not> count > SIZE_MAX div elemsize" "\<not> count * elemsize > SIZE_MAX - 16" and raw: "raw \<noteq> 0"
    using assms by (auto simp: wah_malloc_def Let_def split: if_splits prod.splits)
  obtain p' h' where pad: "wah_alloc_pad raw h = (p', h')" by fastforce
  have s': "p = p'" "s' = (u, h')"
    using assms small raw pad by (auto simp: wah_malloc_def Let_def simp del: One_nat_def)
  note sp = alloc_pad_spec [OF pad] and b = block_pad_bounds [of raw]
  have "p - unat (snd s' (p - 1)) = raw" using sp(1,2) s' by simp
  moreover have "p \<noteq> 0" using sp(1) s' raw by simp
  ultimately have "wah_free a p s' = al_free a raw s'" using assms(1) by (simp add: wah_free_def)
  moreover have "\<forall>x. x < raw \<or> p \<le> x \<longrightarrow> snd s' x = h x" using sp(1,3) b s' by auto
  ultimately show ?thesis using b s' sp(1) raw small(2) by auto
qed

text \<open>Reallocation keeps the contents. When a block that wah_malloc padded is reallocated, and the
  allocator's realloc keeps the bytes of the raw block up to the smaller of the two sizes, the first bytes
  behind the new pointer are the first bytes behind the old one, the new pointer is a multiple of 16 and its
  padding is recorded, although the padding of the two blocks may differ.\<close>

lemma realloc_keeps_contents:
  assumes "wah_alloc_padded a" "count \<noteq> 0" "elemsize \<noteq> 0" "ptr = old_raw + block_pad old_raw"
    and "unat (snd s (ptr - 1)) = block_pad old_raw"
    and "al_realloc a old_raw (count * elemsize + 16) s = (raw, u, h)"
    and "\<And>k. k < min (old_size + 16) (count * elemsize + 16) \<Longrightarrow> h (raw + k) = snd s (old_raw + k)"
    and "wah_realloc a count elemsize ptr s = (WAH_OK, p, s')"
  shows "16 dvd p \<and> p = raw + block_pad raw \<and> unat (snd s' (p - 1)) = p - raw
    \<and> (\<forall>k. k < min old_size (count * elemsize) \<longrightarrow> snd s' (p + k) = snd s (ptr + k))"
proof -
  have ptr: "ptr \<noteq> 0" "ptr - block_pad old_raw = old_raw" using assms(4) block_pad_bounds(1) [of old_raw] by auto
  have small: "\<not> count > SIZE_MAX div elemsize" "\<not> count * elemsize > SIZE_MAX - 16" and raw: "raw \<noteq> 0"
    using assms ptr by (auto simp: wah_realloc_def Let_def split: if_splits prod.splits)
  define h1 where "h1 = (if block_pad raw \<noteq> block_pad old_raw
    then memmove (raw + block_pad raw) (raw + block_pad old_raw) (count * elemsize) h else h)"
  obtain p' h' where pad: "wah_alloc_pad raw h1 = (p', h')" by fastforce
  have s': "p = p'" "s' = (u, h')"
    using assms ptr small raw pad
    by (auto simp: wah_realloc_def Let_def h1_def [symmetric] simp del: One_nat_def split: prod.splits)
  note sp = alloc_pad_spec [OF pad] and b = block_pad_bounds [of raw] and ob = block_pad_bounds [of old_raw]
  have "snd s' (p + k) = snd s (ptr + k)" if k: "k < min old_size (count * elemsize)" for k
  proof -
    have "snd s' (p + k) = h1 (p + k)" using sp(1,3) s' b(1) by simp
    also have "\<dots> = h (raw + (block_pad old_raw + k))"
      using sp(1) s' k by (auto simp: h1_def memmove_def add.assoc)
    also have "\<dots> = snd s (old_raw + (block_pad old_raw + k))" by (rule assms(7)) (use k ob(2) in linarith)
    finally show ?thesis using assms(4) by (simp add: add.assoc)
  qed
  then show ?thesis using sp(1,2) s' b(3) by auto
qed

text \<open>Growing an array. A new capacity covers what is needed, is never smaller than the old one, is at most
  about twice what is needed, so n appends reallocate a logarithmic number of times, and is found
  whenever at most 2 ^ 31 elements are needed.\<close>

lemma grow_capacity_valid:
  "(grow_capacity needed cap = Inr r \<longrightarrow> needed \<le> r \<and> cap \<le> r \<and> (cap < needed \<longrightarrow> r < max 9 (2 * needed)))
    \<and> (needed \<le> 2 ^ 31 \<longrightarrow> (\<exists>r. grow_capacity needed cap = Inr r))
    \<and> (2 ^ 32 \<le> needed \<longrightarrow> cap < needed \<longrightarrow> grow_capacity needed cap = Inl WAH_ERROR_TOO_LARGE)"
proof (intro conjI impI)
  show "needed \<le> r" "cap \<le> r" if "grow_capacity needed cap = Inr r" using grow_capacity_bounds [OF that] by blast+
  show "r < max 9 (2 * needed)" if "grow_capacity needed cap = Inr r" "cap < needed"
    using grow_capacity_bounds(3) [OF that] .
  show "\<exists>r. grow_capacity needed cap = Inr r" if "needed \<le> 2 ^ 31"
    using that grow_loop_total [of needed "if cap \<noteq> 0 then cap else 8"] by (auto simp: grow_capacity_def)
  show "grow_capacity needed cap = Inl WAH_ERROR_TOO_LARGE" if "2 ^ 32 \<le> needed" "cap < needed"
    using that by (auto simp: grow_capacity_def)
qed

section \<open>Witnesses\<close>

text \<open>A bump allocator that returns 4-aligned blocks after the last one and moves blocks on \<open>realloc\<close>.\<close>

definition bump_alloc :: "nat wah_alloc" where
  "bump_alloc = \<lparr> al_malloc = (\<lambda>n (u, h). (u, u + n, h)),
     al_realloc = (\<lambda>p n (u, h). (u, u + n, memmove u p n h)),
     al_free = (\<lambda>p s. s), al_min_align = 4 \<rparr>"

theorem malloc_free_roundtrip_witness:
  "\<exists>p s'. wah_malloc bump_alloc 3 4 (100, \<lambda>_. 0) = (WAH_OK, p, s') \<and> 16 dvd p \<and> p + 12 \<le> 100 + 28
    \<and> wah_free bump_alloc p s' = al_free bump_alloc 100 s'"
proof -
  have m: "wah_malloc bump_alloc 3 4 (100, \<lambda>_. 0) = (WAH_OK, 112, 128, (\<lambda>_. 0)(111 := 12))"
    by (simp add: wah_malloc_def bump_alloc_def wah_alloc_padded_def wah_alloc_pad_def block_pad_eq Let_def)
  have r: "al_malloc bump_alloc (3 * 4 + 16) (100, \<lambda>_. 0) = (100, 128, \<lambda>_. 0)" by (simp add: bump_alloc_def)
  have "wah_alloc_padded bump_alloc" by (simp add: wah_alloc_padded_def bump_alloc_def)
  from malloc_free_roundtrip [OF this _ _ m r] m show ?thesis by auto
qed

end
