(* ===== verification/Wah_Types.thy ===== *)
theory Wah_Types
  imports Wah_Subtype Wah_Layout Wah_Alloc
begin

text \<open>
  The type section: decoding of function, struct and array types with their subtype headers and recursion
  groups, the checks on references and supertypes, and the metadata built from them (the canonical map, the
  declared-subtype checks and the object representations).
\<close>

unbundle bit_operations_syntax

section \<open>Decoding types\<close>

definition wah_type_section_ensure_capacity :: "wah_module \<Rightarrow> nat \<Rightarrow> wah_module res" where
  "wah_type_section_ensure_capacity m needed =
    (if needed \<le> types_cap m then Inr m
     else WAH_ENSURE (needed - 1 \<le> WAH_MAX_TYPE_INDEX) WAH_ERROR_TOO_LARGE
       (WAH_CHECK (grow_capacity needed (types_cap m)) (\<lambda>cap. Inr (m\<lparr>types_cap := cap\<rparr>))))"

text \<open>\<open>wah_type_section_init_slot\<close> and the increment of \<open>type_count\<close> that follows it: one more slot in both
  arrays.\<close>

definition func_type_zero :: wah_func_type where
  "func_type_zero = \<lparr> ft_param_types = [], ft_result_types = [] \<rparr>"

definition type_def_init :: wah_type_def where
  "type_def_init = \<lparr> td_kind = WAH_COMP_FUNC, td_is_final = True, td_non_defaultable = False,
     td_supertype = None, td_field_types = [], td_field_mutables = [],
     td_rec_group_start = 0, td_rec_group_size = 0 \<rparr>"

definition wah_type_section_init_slot :: "wah_module \<Rightarrow> wah_module" where
  "wah_type_section_init_slot m =
    m\<lparr>types := types m @ [func_type_zero], type_defs := type_defs m @ [type_def_init]\<rparr>"

abbreviation (input) "WAH_MAX_TYPE_STACK_SIZE \<equiv> 1024 :: nat"
abbreviation (input) "WAH_MAX_SUBTYPE_DEPTH \<equiv> 63 :: nat"

definition decode_val_types :: "nat \<Rightarrow> wah_module \<Rightarrow> bytes \<Rightarrow> ((wah_type list \<times> wah_module) \<times> bytes) res" where
  "decode_val_types n m bs =
    repeat_dec n (\<lambda>(ts, m) bs. WAH_CHECK (wah_decode_val_type m bs) (\<lambda>(t, m, bs). Inr ((ts @ [t], m), bs))) ([], m) bs"

definition wah_parse_func_type :: "wah_module \<Rightarrow> bytes \<Rightarrow> (wah_func_type \<times> wah_module \<times> bytes) res" where
  "wah_parse_func_type m bs =
    WAH_CHECK (wah_decode_and_validate_count 1 bs) (\<lambda>(param_count, bs).
    WAH_ENSURE (param_count \<le> WAH_MAX_TYPE_STACK_SIZE) WAH_ERROR_TOO_LARGE (
    WAH_CHECK (decode_val_types param_count m bs) (\<lambda>((params, m), bs).
    WAH_CHECK (wah_decode_and_validate_count 1 bs) (\<lambda>(result_count, bs).
    WAH_ENSURE (result_count \<le> WAH_MAX_TYPE_STACK_SIZE) WAH_ERROR_TOO_LARGE (
    WAH_CHECK (decode_val_types result_count m bs) (\<lambda>((results, m), bs).
    Inr (\<lparr> ft_param_types = params, ft_result_types = results \<rparr>, m, bs)))))))"

definition decode_field :: "wah_type_def \<times> wah_module \<Rightarrow> bytes \<Rightarrow> ((wah_type_def \<times> wah_module) \<times> bytes) res" where
  "decode_field = (\<lambda>(td, m) bs.
    WAH_CHECK (wah_decode_storage_type m bs) (\<lambda>(t, m, bs).
    WAH_CHECK (read_byte bs) (\<lambda>(mut, bs).
    WAH_ENSURE (mut \<le> 1) WAH_ERROR_MALFORMED (
    Inr ((td\<lparr>td_field_types := td_field_types td @ [t], td_field_mutables := td_field_mutables td @ [mut = 1]\<rparr>, m), bs)))))"

definition wah_parse_struct_type :: "wah_type_def \<Rightarrow> wah_module \<Rightarrow> bytes \<Rightarrow> (wah_type_def \<times> wah_module \<times> bytes) res" where
  "wah_parse_struct_type td m bs =
    WAH_CHECK (wah_decode_and_validate_count 2 bs) (\<lambda>(field_count, bs).
    WAH_CHECK (repeat_dec field_count (\<lambda>(td, m) bs.
      WAH_CHECK (decode_field (td, m) bs) (\<lambda>((td, m), bs).
      let t = last (td_field_types td) in
      Inr ((if WAH_TYPE_IS_REF t \<and> \<not> WAH_TYPE_IS_NULLABLE t then td\<lparr>td_non_defaultable := True\<rparr> else td, m), bs)))
      (td, m) bs) (\<lambda>((td, m), bs). Inr (td, m, bs)))"

definition wah_parse_array_type :: "wah_type_def \<Rightarrow> wah_module \<Rightarrow> bytes \<Rightarrow> (wah_type_def \<times> wah_module \<times> bytes) res" where
  "wah_parse_array_type td m bs = WAH_CHECK (decode_field (td, m) bs) (\<lambda>((td, m), bs). Inr (td, m, bs))"

definition wah_parse_composite_type ::
    "wah_func_type \<Rightarrow> wah_type_def \<Rightarrow> wah_module \<Rightarrow> bytes \<Rightarrow> (wah_func_type \<times> wah_type_def \<times> wah_module \<times> bytes) res" where
  "wah_parse_composite_type ft td m bs =
    WAH_CHECK (read_byte bs) (\<lambda>(tag, bs).
       if tag = 0x60 then WAH_CHECK (wah_parse_func_type m bs) (\<lambda>(ft, m, bs). Inr (ft, td\<lparr>td_kind := WAH_COMP_FUNC\<rparr>, m, bs))
       else if tag = 0x5F then WAH_CHECK (wah_parse_struct_type (td\<lparr>td_kind := WAH_COMP_STRUCT\<rparr>) m bs) (\<lambda>(td, m, bs). Inr (ft, td, m, bs))
       else if tag = 0x5E then WAH_CHECK (wah_parse_array_type (td\<lparr>td_kind := WAH_COMP_ARRAY\<rparr>) m bs) (\<lambda>(td, m, bs). Inr (ft, td, m, bs))
       else Inl WAH_ERROR_MALFORMED)"

definition wah_parse_sub_type ::
    "nat \<Rightarrow> wah_func_type \<Rightarrow> wah_type_def \<Rightarrow> wah_module \<Rightarrow> bytes \<Rightarrow> (wah_func_type \<times> wah_type_def \<times> wah_module \<times> bytes) res" where
  "wah_parse_sub_type current_typeidx ft td m bs =
    WAH_CHECK (read_byte bs) (\<lambda>(tag, rest).
       if tag = 0x50 \<or> tag = 0x4F then
         let td = td\<lparr>td_is_final := (tag = 0x4F)\<rparr> in
         WAH_CHECK (wah_decode_uleb128 rest) (\<lambda>(super_count, bs).
         WAH_ENSURE (super_count \<le> 1) WAH_ERROR_MALFORMED (
         if super_count = 1 then
           WAH_CHECK (wah_decode_uleb128 bs) (\<lambda>(super_idx, bs).
           WAH_ENSURE (unat super_idx < current_typeidx) WAH_ERROR_VALIDATION_FAILED (
           wah_parse_composite_type ft (td\<lparr>td_supertype := Some (unat super_idx)\<rparr>) m bs))
         else wah_parse_composite_type ft td m bs))
       else wah_parse_composite_type ft (td\<lparr>td_is_final := True, td_supertype := None\<rparr>) m bs)"

section \<open>The section\<close>

text \<open>One type of the section: capacity, a fresh slot, the type itself, and the GC requirement; \<open>needs_gc\<close> is
  the condition on the parsed type, which differs inside and outside a recursion group.\<close>

definition parse_type_member :: "(wah_type_def \<Rightarrow> bool) \<Rightarrow> wah_module \<Rightarrow> bytes \<Rightarrow> (wah_module \<times> bytes) res" where
  "parse_type_member needs_gc m bs =
    (let idx = length (type_defs m) in
     WAH_CHECK (wah_type_section_ensure_capacity m (idx + 1)) (\<lambda>m.
     let m = wah_type_section_init_slot m in
     WAH_CHECK (wah_parse_sub_type idx (types m ! idx) (type_defs m ! idx) m bs) (\<lambda>(ft, td, m, bs).
     let m = m\<lparr>types := (types m)[idx := ft], type_defs := (type_defs m)[idx := td]\<rparr> in
     WAH_CHECK (if needs_gc td then wah_require_feature m WAH_FEATURE_SHIFT_GC else Inr m) (\<lambda>m.
     Inr (m, bs)))))"

definition is_gc_kind :: "wah_type_def \<Rightarrow> bool" where
  "is_gc_kind td \<longleftrightarrow> td_kind td = WAH_COMP_STRUCT \<or> td_kind td = WAH_COMP_ARRAY"

definition set_group :: "nat \<Rightarrow> nat \<Rightarrow> wah_type_def list \<Rightarrow> wah_type_def list" where
  "set_group group_start group_count tds = take group_start tds
     @ map (\<lambda>td. td\<lparr>td_rec_group_start := group_start, td_rec_group_size := group_count\<rparr>) (drop group_start tds)"

definition parse_rec_entry :: "wah_module \<Rightarrow> bytes \<Rightarrow> (wah_module \<times> bytes) res" where
  "parse_rec_entry m bs =
    WAH_CHECK (read_byte bs) (\<lambda>(tag, rest).
       let group_start = length (type_defs m) in
       if tag = 0x4E then
         WAH_CHECK (wah_require_feature m WAH_FEATURE_SHIFT_GC) (\<lambda>m.
         WAH_CHECK (wah_decode_and_validate_count 1 rest) (\<lambda>(group_count, bs).
         WAH_CHECK (repeat_dec group_count
           (parse_type_member (\<lambda>td. is_gc_kind td \<or> td_supertype td \<noteq> None \<or> \<not> td_is_final td)) m bs) (\<lambda>(m, bs).
         Inr (m\<lparr>type_defs := set_group group_start group_count (type_defs m)\<rparr>, bs))))
       else
         WAH_CHECK (parse_type_member (\<lambda>td. is_gc_kind td \<or> tag = 0x50 \<or> tag = 0x4F) m bs) (\<lambda>(m, bs).
         Inr (m\<lparr>type_defs := set_group group_start 1 (type_defs m)\<rparr>, bs)))"

fun check_type_refs :: "nat \<Rightarrow> wah_type list \<Rightarrow> wah_module \<Rightarrow> wah_module res" where
  "check_type_refs scope_limit [] m = Inr m"
| "check_type_refs scope_limit (t # ts) m =
    WAH_ENSURE (\<not> (t \<ge> 0 \<and> WAH_TYIDX t \<ge> scope_limit)) WAH_ERROR_VALIDATION_FAILED (
    WAH_CHECK (wah_require_type_features m t) (\<lambda>m. check_type_refs scope_limit ts m))"

function super_depth :: "wah_module \<Rightarrow> nat \<Rightarrow> nat \<Rightarrow> unit res" where
  "super_depth m depth t =
    (case td_supertype (type_defs m ! t) of None \<Rightarrow> Inr ()
     | Some s \<Rightarrow> WAH_ENSURE (depth + 1 \<le> WAH_MAX_SUBTYPE_DEPTH) WAH_ERROR_TOO_LARGE (super_depth m (depth + 1) s))"
  by auto
termination by (relation "measure (\<lambda>(m, depth, t). WAH_MAX_SUBTYPE_DEPTH - depth)") auto

declare super_depth.simps [simp del]

definition check_type_entry :: "nat \<Rightarrow> wah_module \<Rightarrow> wah_module res" where
  "check_type_entry i m =
    (let td = type_defs m ! i;
         scope_limit = (td_rec_group_start td + td_rec_group_size td) mod 2 ^ 32 in
     WAH_CHECK (check_type_refs scope_limit (ft_param_types (types m ! i)) m) (\<lambda>m.
     WAH_CHECK (check_type_refs scope_limit (ft_result_types (types m ! i)) m) (\<lambda>m.
     WAH_CHECK (case td_supertype td of None \<Rightarrow> Inr ()
        | Some s \<Rightarrow>
          WAH_ENSURE (s < i) WAH_ERROR_VALIDATION_FAILED (
          WAH_ENSURE (\<not> td_is_final (type_defs m ! s)) WAH_ERROR_VALIDATION_FAILED (
          WAH_ENSURE (td_kind td = td_kind (type_defs m ! s)) WAH_ERROR_VALIDATION_FAILED (
          super_depth m 1 s)))) (\<lambda>_.
     if is_gc_kind td then check_type_refs scope_limit (td_field_types td) m else Inr m))))"

section \<open>Metadata\<close>

definition wah_module_clear_type_metadata :: "wah_module \<Rightarrow> wah_module" where
  "wah_module_clear_type_metadata m = m\<lparr>canonical_map := None, typeidx_to_repr := None, repr_infos := []\<rparr>"

definition wah_module_alloc_repr :: "nat \<Rightarrow> wah_repr_info \<Rightarrow> wah_module \<Rightarrow> (int \<times> wah_module) res" where
  "wah_module_alloc_repr typeidx info m =
    (let rs = the (typeidx_to_repr m); new_id = length (repr_infos m) in
     WAH_ENSURE (typeidx < length (type_defs m)) WAH_ERROR_MISUSE (
     WAH_ENSURE (rs ! typeidx = WAH_REPR_NONE) WAH_ERROR_MISUSE (
     WAH_ENSURE (new_id AND (new_id - 1) \<noteq> 0 \<or> new_id \<le> UINT32_MAX div 2) WAH_ERROR_TOO_LARGE (
     Inr (int new_id, m\<lparr>repr_infos := repr_infos m @ [info\<lparr>ri_typeidx := typeidx\<rparr>],
                       typeidx_to_repr := Some (rs[typeidx := int new_id])\<rparr>)))))"

text \<open>A mutable field keeps its type exactly; an immutable one may become more precise.\<close>

definition field_matches :: "wah_module \<Rightarrow> bool \<Rightarrow> wah_type \<Rightarrow> bool \<Rightarrow> wah_type \<Rightarrow> bool" where
  "field_matches m super_mut st sub_mut tt =
    (if super_mut then sub_mut
       \<and> (st = tt \<or> (st \<ge> 0 \<and> tt \<ge> 0 \<and> WAH_TYPE_IS_NULLABLE st = WAH_TYPE_IS_NULLABLE tt
           \<and> the (canonical_map m) ! WAH_TYIDX st = the (canonical_map m) ! WAH_TYIDX tt))
     else \<not> sub_mut \<and> wah_type_is_subtype tt st m)"

definition declared_subtype_ok :: "wah_module \<Rightarrow> nat \<Rightarrow> nat \<Rightarrow> bool" where
  "declared_subtype_ok m i s =
    (let td = type_defs m ! i; super_td = type_defs m ! s in
     case td_kind td of
       WAH_COMP_FUNC \<Rightarrow>
         (let sub_ft = types m ! i; sup_ft = types m ! s in
          length (ft_param_types sub_ft) = length (ft_param_types sup_ft)
          \<and> length (ft_result_types sub_ft) = length (ft_result_types sup_ft)
          \<and> list_all2 (\<lambda>p q. wah_type_is_subtype q p m) (ft_param_types sub_ft) (ft_param_types sup_ft)
          \<and> list_all2 (\<lambda>p q. wah_type_is_subtype p q m) (ft_result_types sub_ft) (ft_result_types sup_ft))
     | WAH_COMP_STRUCT \<Rightarrow>
         length (td_field_types td) \<ge> length (td_field_types super_td)
         \<and> list_all (\<lambda>j. field_matches m (td_field_mutables super_td ! j) (td_field_types super_td ! j)
                          (td_field_mutables td ! j) (td_field_types td ! j)) [0..<length (td_field_types super_td)]
     | WAH_COMP_ARRAY \<Rightarrow>
         length (td_field_types td) = 1 \<and> length (td_field_types super_td) = 1
         \<and> field_matches m (td_field_mutables super_td ! 0) (td_field_types super_td ! 0)
             (td_field_mutables td ! 0) (td_field_types td ! 0))"

definition check_declared_subtype :: "nat \<Rightarrow> wah_module \<Rightarrow> wah_module res" where
  "check_declared_subtype i m =
    (case td_supertype (type_defs m ! i) of None \<Rightarrow> Inr m
     | Some s \<Rightarrow> WAH_ENSURE (declared_subtype_ok m i s) WAH_ERROR_VALIDATION_FAILED (Inr m))"

definition array_repr_info :: "nat \<Rightarrow> wah_type_def \<Rightarrow> wah_repr_info res" where
  "array_repr_info i td =
    WAH_CHECK (wah_field_type_layout (td_field_types td ! 0)) (\<lambda>(elem_size, elem_repr).
    Inr \<lparr> ri_type = WAH_REPR_ARRAY, ri_typeidx = i, ri_size = elem_size,
          ri_fields = [\<lparr> rf_offset = 0, rf_repr_id = elem_repr \<rparr>] \<rparr>)"

definition type_repr_info :: "nat \<Rightarrow> wah_type_def \<Rightarrow> wah_repr_info option res" where
  "type_repr_info i td =
    (case td_kind td of
       WAH_COMP_STRUCT \<Rightarrow> WAH_CHECK (wah_build_struct_repr_info i td) (\<lambda>info. Inr (Some info))
     | WAH_COMP_ARRAY \<Rightarrow> WAH_CHECK (array_repr_info i td) (\<lambda>info. Inr (Some info))
     | WAH_COMP_FUNC \<Rightarrow> Inr None)"

definition build_repr :: "nat \<Rightarrow> wah_module \<Rightarrow> wah_module res" where
  "build_repr i m =
    WAH_CHECK (type_repr_info i (type_defs m ! i)) (\<lambda>info.
    case info of None \<Rightarrow> Inr m
    | Some info \<Rightarrow> WAH_CHECK (wah_module_alloc_repr i info m) (\<lambda>(repr_id, m). Inr m))"

definition wah_module_build_type_metadata :: "wah_module \<Rightarrow> wah_module res" where
  "wah_module_build_type_metadata m =
    (let m = wah_module_clear_type_metadata m; type_count = length (type_defs m) in
     if type_count = 0 then Inr m
     else let m = m\<lparr>canonical_map := Some (wah_build_canonical_map m)\<rparr> in
       WAH_CHECK (fold_res check_declared_subtype [0..<type_count] m) (\<lambda>m.
       fold_res build_repr [0..<type_count] (m\<lparr>typeidx_to_repr := Some (replicate type_count WAH_REPR_NONE)\<rparr>)))"

definition wah_parse_type_section :: "wah_module \<Rightarrow> bytes \<Rightarrow> (wah_module \<times> bytes) res" where
  "wah_parse_type_section m bs =
    WAH_CHECK (wah_decode_and_validate_count 1 bs) (\<lambda>(rec_count, bs).
    let m = m\<lparr>types := [], type_defs := [], types_cap := 0\<rparr> in
    WAH_CHECK (repeat_dec rec_count parse_rec_entry m bs) (\<lambda>(m, bs).
    WAH_CHECK (fold_res check_type_entry [0..<length (type_defs m)] m) (\<lambda>m.
    WAH_CHECK (wah_module_build_type_metadata m) (\<lambda>m. Inr (m, bs)))))"

text \<open>\<open>wah_module_add_latest_type_metadata\<close> runs after one type has been appended; the arrays of metadata grow by
  one entry. On failure the entry is rolled back and the caller drops the type again.\<close>

definition wah_module_rollback_last_type_metadata :: "nat \<Rightarrow> wah_module \<Rightarrow> wah_module" where
  "wah_module_rollback_last_type_metadata idx m =
    (case typeidx_to_repr m of None \<Rightarrow> m
     | Some rs \<Rightarrow>
       if idx < length (type_defs m) \<and> rs ! idx \<ge> 0 then
         (let repr_id = nat (rs ! idx);
              m = (if repr_id + 1 = length (repr_infos m) then m\<lparr>repr_infos := butlast (repr_infos m)\<rparr> else m)
          in m\<lparr>typeidx_to_repr := Some (rs[idx := WAH_REPR_NONE])\<rparr>)
       else m)"

definition set_entry :: "'a list option \<Rightarrow> nat \<Rightarrow> 'a \<Rightarrow> 'a list option" where
  "set_entry xs i x = Some ((take i (case xs of None \<Rightarrow> [] | Some ys \<Rightarrow> ys) @ [x]))"

definition wah_module_add_latest_type_metadata :: "wah_module \<Rightarrow> wah_error \<times> wah_module" where
  "wah_module_add_latest_type_metadata m =
    (let idx = length (type_defs m) - 1;
         m = m\<lparr>typeidx_to_repr := set_entry (typeidx_to_repr m) idx WAH_REPR_NONE,
               canonical_map := set_entry (canonical_map m) idx idx\<rparr> in
     case build_repr idx m of
       Inl err \<Rightarrow> (err, wah_module_rollback_last_type_metadata idx m)
     | Inr m \<Rightarrow> (WAH_OK, m))"


section \<open>Frames\<close>

text \<open>Decoding and checking types only ever adds to \<open>required_features\<close>.\<close>

definition features_only :: "wah_module \<Rightarrow> wah_module \<Rightarrow> bool" where
  "features_only m m' \<longleftrightarrow> m' = m\<lparr>required_features := required_features m'\<rparr>"

lemma features_onlyI: "features_only m (m\<lparr>required_features := f\<rparr>)"
  by (simp add: features_only_def)

lemma features_only_refl [simp]: "features_only m m"
  by (simp add: features_only_def)

lemma features_only_trans: "features_only a b \<Longrightarrow> features_only b c \<Longrightarrow> features_only a c"
  unfolding features_only_def by (metis (no_types) wah_module.update_convs(2) wah_module.surjective)

lemma features_onlyD:
  assumes "features_only m m'"
  shows "types m' = types m" "type_defs m' = type_defs m" "types_cap m' = types_cap m"
    "canonical_map m' = canonical_map m" "typeidx_to_repr m' = typeidx_to_repr m" "repr_infos m' = repr_infos m"
    "type_refs m' = type_refs m"
proof -
  from assms obtain f where f: "m' = m\<lparr>required_features := f\<rparr>" unfolding features_only_def by blast
  show "types m' = types m" "type_defs m' = type_defs m" "types_cap m' = types_cap m"
    "canonical_map m' = canonical_map m" "typeidx_to_repr m' = typeidx_to_repr m" "repr_infos m' = repr_infos m"
    by (simp_all add: f)
  show "type_refs m' = type_refs m" by (rule ext) (simp add: type_refs_def f)
qed

lemma require_feature_frame: "wah_require_feature m k = Inr m' \<Longrightarrow> features_only m m'"
  by (auto simp: wah_require_feature_def Let_def features_onlyI split: if_splits)

lemma require_type_features_frame:
  assumes "wah_require_type_features m t = Inr m'" shows "features_only m m'"
  using assms unfolding wah_require_type_features_def Let_def
  by (auto simp: res_simps split: if_splits dest!: require_feature_frame intro: features_only_trans)

lemma ref_type_frame: "wah_decode_ref_type m bs = Inr (t, m', r) \<Longrightarrow> features_only m m'"
  by (auto simp: wah_decode_ref_type_def res_simps dest!: require_feature_frame split: list.splits option.splits if_splits)

lemma val_type_frame: "wah_decode_val_type m bs = Inr (t, m', r) \<Longrightarrow> features_only m m'"
  by (auto simp: wah_decode_val_type_def dest: ref_type_frame split: list.splits if_splits)

lemma storage_type_frame: "wah_decode_storage_type m bs = Inr (t, m', r) \<Longrightarrow> features_only m m'"
  by (auto simp: wah_decode_storage_type_def dest: val_type_frame split: list.splits if_splits)

lemma val_type_ok:
  assumes "wah_decode_val_type m bs = Inr (t, m', r)"
  shows "wah_is_val_type t \<and> features_only m m' \<and> suffix r bs"
  using val_type_wf [OF assms] val_type_frame [OF assms] val_type.dec_suffix [of m bs "(t, m')" r] assms by (simp add: res_simps)

lemma storage_type_ok:
  assumes "wah_decode_storage_type m bs = Inr (t, m', r)"
  shows "(wah_is_val_type t \<or> WAH_TYPE_IS_PACKED t) \<and> features_only m m' \<and> suffix r bs"
  using storage_type_wf [OF assms] storage_type_frame [OF assms] storage_type.dec_suffix [of m bs "(t, m')" r] assms
  by (simp add: res_simps)

section \<open>Parsed types\<close>

text \<open>What one entry of the type section guarantees about the slot it fills.\<close>

definition fields_wf :: "wah_type_def \<Rightarrow> bool" where
  "fields_wf td \<longleftrightarrow> list_all (\<lambda>t. wah_is_val_type t \<or> WAH_TYPE_IS_PACKED t) (td_field_types td)
     \<and> length (td_field_mutables td) = length (td_field_types td)"

definition func_wf :: "wah_func_type \<Rightarrow> bool" where
  "func_wf ft \<longleftrightarrow> list_all wah_is_val_type (ft_param_types ft @ ft_result_types ft)
     \<and> length (ft_param_types ft) \<le> 1024 \<and> length (ft_result_types ft) \<le> 1024"

definition wf_parsed :: "nat \<Rightarrow> wah_func_type \<Rightarrow> wah_type_def \<Rightarrow> bool" where
  "wf_parsed idx ft td \<longleftrightarrow> func_wf ft \<and> fields_wf td
     \<and> pred_option (\<lambda>s. s < idx) (td_supertype td)
     \<and> (td_kind td = WAH_COMP_FUNC \<longrightarrow> td_field_types td = [])
     \<and> (td_kind td \<noteq> WAH_COMP_FUNC \<longrightarrow> ft = func_type_zero)
     \<and> (td_kind td = WAH_COMP_ARRAY \<longrightarrow> length (td_field_types td) = 1)"

lemma decode_val_types_ok:
  assumes "decode_val_types n m bs = Inr ((ts, m'), r)"
  shows "list_all wah_is_val_type ts \<and> length ts = n \<and> features_only m m' \<and> suffix r bs"
proof -
  let ?f = "\<lambda>(ts, m) bs. WAH_CHECK (wah_decode_val_type m bs) (\<lambda>(t, m, bs). Inr ((ts @ [t], m), bs))"
  have run: "repeat_dec n ?f ([], m) bs = Inr ((ts, m'), r)" using assms by (simp add: decode_val_types_def)
  let ?P = "\<lambda>(ts, m') cs. list_all wah_is_val_type ts \<and> features_only m m' \<and> suffix cs bs"
  have "?P (ts, m') r"
  proof (rule repeat_dec_invariant [OF _ run])
    show "?P s' bs'" if "?P s cs" "?f s cs = Inr (s', bs')" for s cs s' bs'
      using that by (auto simp: res_simps dest!: val_type_ok intro: features_only_trans suffix_order.trans)
  qed simp
  moreover have "length (fst s') = Suc (length (fst s))" if "?f s cs = Inr (s', cs')" for s cs s' cs'
    using that by (auto simp: res_simps split: prod.splits)
  then have "length (fst (ts, m')) = length (fst ([] :: wah_type list, m)) + n"
    by (rule repeat_dec_measure [OF _ run, of "\<lambda>s. length (fst s)"])
  ultimately show ?thesis by auto
qed

lemma func_type_ok:
  assumes "wah_parse_func_type m bs = Inr (ft, m', r)"
  shows "func_wf ft \<and> features_only m m' \<and> suffix r bs"
  using assms
  by (auto simp: wah_parse_func_type_def func_wf_def res_simps
      dest!: decode_val_types_ok count_bounds(3) intro: features_only_trans suffix_order.trans)

lemma decode_field_ok:
  assumes "decode_field (td, m) bs = Inr ((td', m'), r)"
  shows "(\<exists>t b. td' = td\<lparr>td_field_types := td_field_types td @ [t], td_field_mutables := td_field_mutables td @ [b]\<rparr>
      \<and> (wah_is_val_type t \<or> WAH_TYPE_IS_PACKED t)) \<and> features_only m m' \<and> suffix r bs"
  using assms
  by (auto simp: decode_field_def res_simps dest!: storage_type_ok intro: suffix_tail)

lemma struct_type_ok:
  assumes "wah_parse_struct_type td m bs = Inr (td', m', r)" "fields_wf td"
  shows "fields_wf td' \<and> td_kind td' = td_kind td \<and> td_supertype td' = td_supertype td \<and> features_only m m' \<and> suffix r bs"
proof -
  let ?f = "\<lambda>(td, m) bs. WAH_CHECK (decode_field (td, m) bs) (\<lambda>((td, m), bs). let t = last (td_field_types td) in
      Inr ((if WAH_TYPE_IS_REF t \<and> \<not> WAH_TYPE_IS_NULLABLE t then td\<lparr>td_non_defaultable := True\<rparr> else td, m), bs))"
  obtain n cs where c: "wah_decode_and_validate_count 2 bs = Inr (n, cs)"
    and run: "repeat_dec n ?f (td, m) cs = Inr ((td', m'), r)"
    using assms(1) by (auto simp: wah_parse_struct_type_def res_simps)
  let ?P = "\<lambda>(td', m') cs. fields_wf td' \<and> td_kind td' = td_kind td \<and> td_supertype td' = td_supertype td
    \<and> features_only m m' \<and> suffix cs bs"
  have "?P (td', m') r"
  proof (rule repeat_dec_invariant [OF _ run])
    show "?P s' bs'" if "?P s cs" "?f s cs = Inr (s', bs')" for s cs s' bs'
      using that
      by (auto simp: res_simps Let_def fields_wf_def split: if_splits dest!: decode_field_ok
          intro: features_only_trans suffix_order.trans)
  qed (use assms(2) count_bounds(3) [OF c] in simp)
  then show ?thesis by simp
qed

lemma composite_type_ok:
  assumes "wah_parse_composite_type func_type_zero td m bs = Inr (ft, td', m', r)"
    and "td_field_types td = []" "td_field_mutables td = []" "pred_option (\<lambda>s. s < idx) (td_supertype td)"
  shows "wf_parsed idx ft td' \<and> features_only m m' \<and> suffix r bs"
proof -
  obtain tag bs' where bs: "bs = tag # bs'" using assms(1) by (auto simp: wah_parse_composite_type_def res_simps)
  have ftz: "func_wf func_type_zero" by (simp add: func_wf_def func_type_zero_def)
  consider "tag = 0x60" | "tag = 0x5F" | "tag = 0x5E"
    using assms(1) bs by (auto simp: wah_parse_composite_type_def split: if_splits)
  then show ?thesis
  proof cases
    case 1
    then show ?thesis using assms bs
      by (auto simp: wah_parse_composite_type_def res_simps wf_parsed_def fields_wf_def dest!: func_type_ok intro: suffix_ConsI)
  next
    case 2
    then obtain t where "wah_parse_struct_type (td\<lparr>td_kind := WAH_COMP_STRUCT\<rparr>) m bs' = Inr (td', m', r)" "ft = func_type_zero"
      using assms bs by (auto simp: wah_parse_composite_type_def res_simps)
    with struct_type_ok [OF this(1)] show ?thesis using assms bs ftz by (auto simp: wf_parsed_def fields_wf_def intro: suffix_ConsI)
  next
    case 3
    then show ?thesis using assms bs ftz
      by (auto simp: wah_parse_composite_type_def wah_parse_array_type_def res_simps wf_parsed_def fields_wf_def
          dest!: decode_field_ok intro: suffix_ConsI)
  qed
qed

lemma sub_type_ok:
  assumes "wah_parse_sub_type idx func_type_zero type_def_init m bs = Inr (ft, td, m', r)"
  shows "wf_parsed idx ft td \<and> features_only m m' \<and> suffix r bs"
proof -
  have comp: "td_field_types td0 = [] \<and> td_field_mutables td0 = [] \<and> pred_option (\<lambda>s. s < idx) (td_supertype td0)
      \<longrightarrow> wf_parsed idx ft td \<and> features_only m m' \<and> suffix r cs"
    if "wah_parse_composite_type func_type_zero td0 m cs = Inr (ft, td, m', r)" for td0 cs
    using composite_type_ok [OF that] by blast
  show ?thesis using assms
    by (auto simp: wah_parse_sub_type_def res_simps type_def_init_def Let_def split: if_splits
       dest!: uleb32.dec_suffix comp intro: suffix_ConsI suffix_order.trans)
qed

section \<open>The growing type table\<close>

definition cap_ok :: "nat \<Rightarrow> bool" where
  "cap_ok c \<longleftrightarrow> c = 0 \<or> (\<exists>k \<le> 30. c = 2 ^ k)"

lemma cap_ok_bound: "cap_ok c \<Longrightarrow> c \<le> 2 ^ 30"
  unfolding cap_ok_def using power_increasing [of _ 30 "2 :: nat"] by auto

lemma ensure_capacity_ok:
  assumes "wah_type_section_ensure_capacity m needed = Inr m'" "cap_ok (types_cap m)"
  shows "(\<exists>c. m' = m\<lparr>types_cap := c\<rparr>) \<and> cap_ok (types_cap m') \<and> needed \<le> types_cap m'"
proof (cases "needed \<le> types_cap m")
  case True
  then show ?thesis using assms by (auto simp: wah_type_section_ensure_capacity_def intro: exI [of _ "types_cap m"])
next
  case False
  then obtain c where c: "grow_capacity needed (types_cap m) = Inr c" "m' = m\<lparr>types_cap := c\<rparr>"
    and n: "needed \<le> 2 ^ 30"
    using assms(1) by (auto simp: wah_type_section_ensure_capacity_def res_simps WAH_MAX_TYPE_INDEX_def)
  let ?c0 = "if types_cap m \<noteq> 0 then types_cap m else 8"
  have l: "grow_loop needed ?c0 = Inr c" using c(1) False by (simp add: grow_capacity_def res_simps)
  obtain k0 where k0: "?c0 = 2 ^ k0"
    using assms(2) that [of 3] by (cases "types_cap m = 0") (auto simp: cap_ok_def)
  have "0 < ?c0" by simp
  from grow_loop_bounds [OF l this] obtain k where k: "c = ?c0 * 2 ^ k" by blast
  then have "c = 2 ^ (k0 + k)" by (simp only: k0 power_add)
  moreover have "c < 2 ^ 31"
    using grow_capacity_bounds(3) [OF c(1)] False n by simp
  ultimately have "(2 :: nat) ^ (k0 + k) < 2 ^ 31" by simp
  then have "k0 + k < 31" by (subst (asm) power_strict_increasing_iff) simp_all
  then show ?thesis using \<open>c = 2 ^ (k0 + k)\<close> c(2) grow_capacity_bounds(1) [OF c(1)]
    by (auto simp: cap_ok_def intro: exI [of _ "k0 + k"])
qed

definition types_inv :: "wah_module \<Rightarrow> bool" where
  "types_inv m \<longleftrightarrow> length (types m) = length (type_defs m) \<and> length (type_defs m) \<le> types_cap m \<and> cap_ok (types_cap m)
     \<and> (\<forall>i < length (type_defs m). wf_parsed i (types m ! i) (type_defs m ! i))"

lemma parse_type_member_ok:
  assumes "parse_type_member g m bs = Inr (m', r)" "types_inv m"
  shows "types_inv m' \<and> (\<exists>td. type_defs m' = type_defs m @ [td]) \<and> suffix r bs"
proof -
  let ?idx = "length (type_defs m)"
  have inv: "cap_ok (types_cap m)" "length (types m) = ?idx" using assms(2) by (simp_all add: types_inv_def)
  obtain m1 where m1: "wah_type_section_ensure_capacity m (?idx + 1) = Inr m1"
    using assms(1) by (auto simp: parse_type_member_def Let_def res_simps)
  from ensure_capacity_ok [OF this inv(1)] obtain c where c: "m1 = m\<lparr>types_cap := c\<rparr>" "cap_ok c" "?idx + 1 \<le> c" by auto
  let ?m1 = "wah_type_section_init_slot (m\<lparr>types_cap := c\<rparr>)"
  have slot: "types ?m1 ! ?idx = func_type_zero" "type_defs ?m1 ! ?idx = type_def_init"
    using inv(2) by (simp_all add: wah_type_section_init_slot_def nth_append)
  let ?m3 = "\<lambda>m2 ft td. m2\<lparr>types := (types m2)[?idx := ft], type_defs := (type_defs m2)[?idx := td]\<rparr>"
  obtain ft td m2 where sub: "wah_parse_sub_type ?idx func_type_zero type_def_init ?m1 bs = Inr (ft, td, m2, r)"
    and rf: "(if g td then wah_require_feature (?m3 m2 ft td) 10 else Inr (?m3 m2 ft td)) = Inr m'"
    using assms(1) m1 slot unfolding parse_type_member_def Let_def c(1)
    by (clarsimp simp: res_simps)
  note s = sub_type_ok [OF sub]
  have m2: "types m2 = types m @ [func_type_zero]" "type_defs m2 = type_defs m @ [type_def_init]" "types_cap m2 = c"
    using s features_onlyD [of _ m2] by (auto simp: wah_type_section_init_slot_def)
  have "features_only (m2\<lparr>types := (types m2)[?idx := ft], type_defs := (type_defs m2)[?idx := td]\<rparr>) m'"
    using rf by (auto split: if_splits dest: require_feature_frame)
  from features_onlyD [OF this] have m': "types m' = types m @ [ft]" "type_defs m' = type_defs m @ [td]" "types_cap m' = c"
    using assms(2) m2 by (simp_all add: types_inv_def list_update_append)
  have "types_inv m'" using assms(2) c s by (auto simp: types_inv_def m' nth_append less_Suc_eq)
  then show ?thesis using m' s by auto
qed

definition groups_ok :: "wah_module \<Rightarrow> bool" where
  "groups_ok m \<longleftrightarrow> (\<forall>i < length (type_defs m). wf_group m i)"

lemma groups_ok_cong: "type_defs m' = type_defs m \<Longrightarrow> groups_ok m' = groups_ok m"
  by (simp only: groups_ok_def wf_group_def)

lemma members_ok:
  assumes "repeat_dec n (parse_type_member g) m bs = Inr (m', r)" "types_inv m"
  shows "types_inv m' \<and> (\<exists>tds. type_defs m' = type_defs m @ tds \<and> length tds = n) \<and> suffix r bs"
  using assms
proof (induction n arbitrary: m bs)
  case 0
  then show ?case by simp
next
  case (Suc n)
  then obtain m1 cs where step: "parse_type_member g m bs = Inr (m1, cs)" "repeat_dec n (parse_type_member g) m1 cs = Inr (m', r)"
    by (auto simp: res_simps)
  note p = parse_type_member_ok [OF step(1) Suc.prems(2)]
  then obtain td where td: "type_defs m1 = type_defs m @ [td]" by blast
  from Suc.IH [OF step(2)] p obtain tds where "types_inv m'" "type_defs m' = type_defs m1 @ tds" "length tds = n" "suffix r cs" by blast
  then show ?case using p td by (auto intro: suffix_order.trans exI [of _ "td # tds"])
qed

text \<open>Closing a group sets the bounds of exactly the types that were added to it.\<close>

lemma set_group_ok:
  assumes "groups_ok m0" "type_defs m = type_defs m0 @ tds" "types_inv m"
  defines "m' \<equiv> m\<lparr>type_defs := set_group (length (type_defs m0)) (length tds) (type_defs m)\<rparr>"
  shows "groups_ok m' \<and> types_inv m'"
proof -
  let ?n = "length (type_defs m0)" and ?k = "length tds"
  have defs: "type_defs m' = type_defs m0 @ map (\<lambda>td. td\<lparr>td_rec_group_start := ?n, td_rec_group_size := ?k\<rparr>) tds"
    by (simp add: m'_def set_group_def assms(2))
  have old: "type_defs m' ! i = type_defs m0 ! i" if "i < ?n" for i using that by (simp add: defs nth_append)
  have new: "gs m' i = ?n" "gz m' i = ?k" if "?n \<le> i" "i < ?n + ?k" for i
    using that by (simp_all add: defs nth_append)
  have len: "length (type_defs m') = ?n + ?k" by (simp add: defs)
  have "wf_group m' i" if "i < ?n + ?k" for i
  proof (cases "i < ?n")
    case True
    then have g: "gs m0 i \<le> i" "i < gs m0 i + gz m0 i" "gs m0 i + gz m0 i \<le> ?n"
      "\<forall>j\<in>{gs m0 i..<gs m0 i + gz m0 i}. gs m0 j = gs m0 i \<and> gz m0 j = gz m0 i"
      using assms(1) unfolding groups_ok_def wf_group_def by blast+
    have same: "type_defs m' ! j = type_defs m0 ! j" if "j \<in> {gs m0 i..<gs m0 i + gz m0 i}" for j
      using that g(3) by (intro old) simp
    have "\<forall>j\<in>{gs m0 i..<gs m0 i + gz m0 i}. gs m' j = gs m0 i \<and> gz m' j = gz m0 i"
      by (intro ballI) (simp only: same, rule bspec [OF g(4)])
    then show ?thesis unfolding wf_group_def len old [OF True] using g(1-3) trans_le_add1 [OF g(3)] by blast
  next
    case False
    then have i: "?n \<le> i" by simp
    show ?thesis unfolding wf_group_def len new [OF i that] using i that new
      by (simp only: atLeastLessThan_iff Ball_def) simp
  qed
  then have "groups_ok m'" by (simp add: groups_ok_def len)
  moreover have "wf_parsed i (types m' ! i) (type_defs m' ! i)" if "i < ?n + ?k" for i
  proof -
    have "wf_parsed i (types m ! i) (type_defs m ! i)" using assms(2,3) that by (simp add: types_inv_def)
    moreover have "type_defs m' ! i = type_defs m ! i
      \<or> (\<exists>a b. type_defs m' ! i = (type_defs m ! i)\<lparr>td_rec_group_start := a, td_rec_group_size := b\<rparr>)"
      using that by (auto simp: defs assms(2) nth_append)
    ultimately show ?thesis by (auto simp: m'_def wf_parsed_def fields_wf_def)
  qed
  then have "types_inv m'" using assms(2,3) by (simp add: types_inv_def len) (simp add: m'_def)
  ultimately show ?thesis by blast
qed

lemma rec_entry_ok:
  assumes "parse_rec_entry m bs = Inr (m', r)" "types_inv m" "groups_ok m"
  shows "types_inv m' \<and> groups_ok m' \<and> suffix r bs"
proof -
  obtain tag rest where bs: "bs = tag # rest" using assms(1) by (auto simp: parse_rec_entry_def res_simps)
  show ?thesis
  proof (cases "tag = 0x4E")
    case True
    let ?g = "\<lambda>td. is_gc_kind td \<or> td_supertype td \<noteq> None \<or> \<not> td_is_final td"
    obtain m1 n cs m2 where e: "wah_require_feature m 10 = Inr m1" "wah_decode_and_validate_count 1 rest = Inr (n, cs)"
      "repeat_dec n (parse_type_member ?g) m1 cs = Inr (m2, r)"
      "m' = m2\<lparr>type_defs := set_group (length (type_defs m)) n (type_defs m2)\<rparr>"
      using assms(1) True unfolding bs parse_rec_entry_def Let_def by (clarsimp simp: res_simps)
    have m1: "type_defs m1 = type_defs m" "types_inv m1" "groups_ok m1"
      using features_onlyD [OF require_feature_frame [OF e(1)]] assms(2,3) groups_ok_cong [of m1 m]
      by (simp_all add: types_inv_def)
    from members_ok [OF e(3) m1(2)] obtain tds where "types_inv m2" "type_defs m2 = type_defs m1 @ tds" "length tds = n" "suffix r cs" by blast
    with set_group_ok [OF m1(3), of m2 tds] e(4) m1(1) count_bounds(3) [OF e(2)] bs
    show ?thesis by (auto intro: suffix_ConsI suffix_order.trans)
  next
    case False
    let ?g = "\<lambda>td. is_gc_kind td \<or> tag = 0x50 \<or> tag = 0x4F"
    obtain m2 where e: "parse_type_member ?g m bs = Inr (m2, r)"
      "m' = m2\<lparr>type_defs := set_group (length (type_defs m)) 1 (type_defs m2)\<rparr>"
      using assms(1) False unfolding bs parse_rec_entry_def Let_def by (clarsimp simp: res_simps)
    from parse_type_member_ok [OF e(1) assms(2)] obtain td where "types_inv m2" "type_defs m2 = type_defs m @ [td]" "suffix r bs" by blast
    with set_group_ok [OF assms(3), of m2 "[td]"] e(2) show ?thesis by simp
  qed
qed

section \<open>Checked types\<close>

lemma check_type_refs_ok:
  assumes "check_type_refs lim ts m = Inr m'"
  shows "features_only m m' \<and> list_all (\<lambda>t. t < 0 \<or> WAH_TYIDX t < lim) ts"
  using assms
  by (induction ts arbitrary: m)
    (auto simp: res_simps not_le dest!: require_type_features_frame intro: features_only_trans)

abbreviation "super_rel m \<equiv> \<lambda>a b. td_supertype (type_defs m ! a) = Some b"

lemma super_depth_ok:
  assumes "super_depth m d t = Inr ()" "(super_rel m ^^ k) t s" "d \<le> 63"
  shows "d + k \<le> 63"
  using assms
proof (induction k arbitrary: d t)
  case 0
  then show ?case by simp
next
  case (Suc k)
  from Suc.prems(2) obtain u where u: "super_rel m t u" "(super_rel m ^^ k) u s" by (rule relpowp_Suc_E2)
  then have "d + 1 \<le> 63" "super_depth m (d + 1) u = Inr ()"
    using Suc.prems(1) by (subst (asm) super_depth.simps; simp add: res_simps)+
  from Suc.IH [OF this(2) u(2) this(1)] show ?case by simp
qed

definition super_ok :: "wah_module \<Rightarrow> nat \<Rightarrow> bool" where
  "super_ok m i \<longleftrightarrow> (\<forall>s. td_supertype (type_defs m ! i) = Some s \<longrightarrow> s < i \<and> \<not> td_is_final (type_defs m ! s)
     \<and> td_kind (type_defs m ! i) = td_kind (type_defs m ! s))
     \<and> (\<forall>k s. (super_rel m ^^ k) i s \<longrightarrow> k \<le> 63)"

definition entry_ok :: "wah_module \<Rightarrow> nat \<Rightarrow> bool" where
  "entry_ok m i \<longleftrightarrow> super_ok m i
     \<and> list_all (\<lambda>t. t < 0 \<or> WAH_TYIDX t < (gs m i + gz m i) mod 2 ^ 32) (type_refs m i)"

lemma check_type_entry_ok:
  assumes "check_type_entry i m = Inr m'"
  shows "features_only m m' \<and> entry_ok m i"
proof -
  let ?td = "type_defs m ! i" and ?lim = "(gs m i + gz m i) mod 2 ^ 32"
  obtain m1 m2 where c: "check_type_refs ?lim (ft_param_types (types m ! i)) m = Inr m1"
    "check_type_refs ?lim (ft_result_types (types m1 ! i)) m1 = Inr m2"
    and s: "(case td_supertype ?td of None \<Rightarrow> Inr () | Some s \<Rightarrow>
          WAH_ENSURE (s < i) WAH_ERROR_VALIDATION_FAILED (
          WAH_ENSURE (\<not> td_is_final (type_defs m2 ! s)) WAH_ERROR_VALIDATION_FAILED (
          WAH_ENSURE (td_kind ?td = td_kind (type_defs m2 ! s)) WAH_ERROR_VALIDATION_FAILED (
          super_depth m2 1 s)))) = Inr ()"
    and f: "(if is_gc_kind ?td then check_type_refs ?lim (td_field_types ?td) m2 else Inr m2) = Inr m'"
    using assms unfolding check_type_entry_def Let_def by (auto simp: res_simps)
  have m1: "features_only m m1" "features_only m1 m2" using check_type_refs_ok c by blast+
  then have m2: "features_only m m2" by (rule features_only_trans)
  have defs: "types m1 = types m" "type_defs m2 = type_defs m" using features_onlyD m1(1) m2 by blast+
  have fr: "features_only m2 m'" using f check_type_refs_ok by (auto split: if_splits)
  have refs: "list_all (\<lambda>t. t < 0 \<or> WAH_TYIDX t < ?lim) (type_refs m i)"
    using check_type_refs_ok [OF c(1)] check_type_refs_ok [OF c(2)] f defs
    by (cases "td_kind ?td") (auto simp: type_refs_def is_gc_kind_def dest: check_type_refs_ok)
  have "super_ok m i"
  proof (cases "td_supertype ?td")
    case None
    then have "k = 0" if "(super_rel m ^^ k) i s" for k s
      using that by (cases k) (auto elim: relpowp_Suc_E2 simp del: relpowp.simps)
    then show ?thesis using None by (auto simp: super_ok_def)
  next
    case (Some u)
    then have u: "u < i" "\<not> td_is_final (type_defs m ! u)" "td_kind ?td = td_kind (type_defs m ! u)" "super_depth m2 1 u = Inr ()"
      using s defs by (auto simp: res_simps)
    have "k \<le> 63" if "(super_rel m ^^ k) i t" for k t
    proof (cases k)
      case (Suc j)
      then have "(super_rel m2 ^^ j) u t" using that Some defs(2) by (auto elim: relpowp_Suc_E2 simp del: relpowp.simps)
      from super_depth_ok [OF u(4) this] show ?thesis using Suc by simp
    qed simp
    then show ?thesis using Some u by (auto simp: super_ok_def)
  qed
  then show ?thesis using refs features_only_trans [OF m2 fr] by (simp add: entry_ok_def)
qed

lemma entry_ok_cong: "features_only m m' \<Longrightarrow> entry_ok m' i = entry_ok m i"
  by (simp only: entry_ok_def super_ok_def features_onlyD)

lemma check_entries_ok:
  assumes "fold_res check_type_entry [0..<n] m = Inr m'"
  shows "features_only m m' \<and> (\<forall>i < n. entry_ok m i)"
proof (rule fold_res_establishes [where P = "features_only m" and Q = "\<lambda>i _. entry_ok m i", OF _ assms])
  show "features_only m s' \<and> entry_ok m i \<and> (\<forall>j < i. entry_ok m j)"
    if "i < n" "features_only m s" "\<And>j. j < i \<Longrightarrow> entry_ok m j" "check_type_entry i s = Inr s'" for i s s'
    using that check_type_entry_ok [OF that(4)] entry_ok_cong [OF that(2)] by (blast intro: features_only_trans)
qed simp

lemma val_type_bound: "wah_is_val_type t \<or> WAH_TYPE_IS_PACKED t \<Longrightarrow> t < 2 ^ 31"
  by (auto simp: wah_is_val_type_def WAH_TYPE_IS_PACKED_def)

lemma checked_types_wf:
  assumes "types_inv m" "groups_ok m" "\<forall>i < length (type_defs m). entry_ok m i"
  shows "wf_types m"
proof -
  have n: "length (type_defs m) \<le> 2 ^ 30" using assms(1) cap_ok_bound unfolding types_inv_def by (meson le_trans)
  have "wf_refs m i" if i: "i < length (type_defs m)" for i
  proof -
    have g: "wf_group m i" using assms(2) i by (simp add: groups_ok_def)
    then have "gs m i + gz m i \<le> length (type_defs m)" unfolding wf_group_def by blast
    then have lim: "(gs m i + gz m i) mod 2 ^ 32 = gs m i + gz m i" using n by simp
    have p: "wf_parsed i (types m ! i) (type_defs m ! i)" using assms(1) i by (simp add: types_inv_def)
    then have "t < 2 ^ 31" if "t \<in> set (type_refs m i)" for t
      using that val_type_bound [of t]
      by (auto simp: wf_parsed_def func_wf_def fields_wf_def type_refs_def list_all_iff split: if_splits)
    moreover have e: "entry_ok m i" using assms(3) i by blast
    ultimately show ?thesis
      by (auto simp: wf_refs_def entry_ok_def super_ok_def list_all_iff lim pred_option_def set_eq_iff split: option.splits)
  qed
  then show ?thesis using n assms(2) by (simp add: wf_types_def groups_ok_def list_all_iff)
qed

section \<open>Metadata of checked types\<close>

lemma check_declared_ok:
  assumes "fold_res check_declared_subtype is m = Inr m'"
  shows "m' = m \<and> (\<forall>i\<in>set is. \<forall>s. td_supertype (type_defs m ! i) = Some s \<longrightarrow> declared_subtype_ok m i s)"
  using assms
  by (induction "is" arbitrary: m') (auto simp: res_simps check_declared_subtype_def split: option.splits)

lemma type_repr_info_index:
  "type_repr_info i td = Inr (Some info) \<Longrightarrow> info\<lparr>ri_typeidx := i\<rparr> = info"
  by (auto simp: type_repr_info_def array_repr_info_def wah_build_struct_repr_info_def res_simps
      split: wah_comp_type_kind.splits)

text \<open>The table of representations after the first \<open>k\<close> types: every struct and array type owns exactly one
  representation, built from its definition; function types have none.\<close>

definition reprs_ok :: "nat \<Rightarrow> wah_module \<Rightarrow> bool" where
  "reprs_ok k m \<longleftrightarrow> (\<exists>rs. typeidx_to_repr m = Some rs \<and> length rs = length (type_defs m)
     \<and> (\<forall>i < length rs. if i < k \<and> td_kind (type_defs m ! i) \<noteq> WAH_COMP_FUNC
          then 0 \<le> rs ! i \<and> nat (rs ! i) < length (repr_infos m)
            \<and> ri_typeidx (repr_infos m ! nat (rs ! i)) = i
            \<and> type_repr_info i (type_defs m ! i) = Inr (Some (repr_infos m ! nat (rs ! i)))
          else rs ! i = WAH_REPR_NONE)
     \<and> (\<forall>r < length (repr_infos m). ri_typeidx (repr_infos m ! r) < length rs \<and> rs ! ri_typeidx (repr_infos m ! r) = int r))"

lemma build_repr_ok:
  assumes "build_repr k m = Inr m'" "reprs_ok k m" "k < length (type_defs m)"
  shows "reprs_ok (Suc k) m' \<and> (\<exists>ri tr. m' = m\<lparr>repr_infos := ri, typeidx_to_repr := tr\<rparr>)"
proof -
  obtain rs where rs: "typeidx_to_repr m = Some rs" "length rs = length (type_defs m)"
    and own: "\<And>i. i < length rs \<Longrightarrow> if i < k \<and> td_kind (type_defs m ! i) \<noteq> WAH_COMP_FUNC
          then 0 \<le> rs ! i \<and> nat (rs ! i) < length (repr_infos m)
            \<and> ri_typeidx (repr_infos m ! nat (rs ! i)) = i
            \<and> type_repr_info i (type_defs m ! i) = Inr (Some (repr_infos m ! nat (rs ! i)))
          else rs ! i = WAH_REPR_NONE"
    and inv: "\<And>r. r < length (repr_infos m) \<Longrightarrow> ri_typeidx (repr_infos m ! r) < length rs \<and> rs ! ri_typeidx (repr_infos m ! r) = int r"
    using assms(2) unfolding reprs_ok_def by blast
  obtain info where info: "type_repr_info k (type_defs m ! k) = Inr info"
    using assms(1) by (auto simp: build_repr_def res_simps)
  show ?thesis
  proof (cases info)
    case None
    then have "m' = m" using assms(1) info by (simp add: build_repr_def)
    moreover have "td_kind (type_defs m ! k) = WAH_COMP_FUNC"
      using info None by (auto simp: type_repr_info_def res_simps split: wah_comp_type_kind.splits)
    ultimately have "reprs_ok (Suc k) m'" using rs own inv by (auto simp: reprs_ok_def less_Suc_eq)
    moreover have "m' = m\<lparr>repr_infos := repr_infos m, typeidx_to_repr := typeidx_to_repr m\<rparr>" using \<open>m' = m\<close> by simp
    ultimately show ?thesis by blast
  next
    case (Some inf)
    let ?new = "length (repr_infos m)"
    have m': "m' = m\<lparr>repr_infos := repr_infos m @ [inf], typeidx_to_repr := Some (rs[k := int ?new])\<rparr>"
      using assms(1) info Some rs(1) type_repr_info_index [of k _ inf]
      by (auto simp: build_repr_def wah_module_alloc_repr_def Let_def res_simps)
    have kind: "td_kind (type_defs m ! k) \<noteq> WAH_COMP_FUNC"
      using info Some by (auto simp: type_repr_info_def split: wah_comp_type_kind.splits)
    have idx: "ri_typeidx inf = k" using type_repr_info_index [of k _ inf] info Some by (metis wah_repr_info.select_convs(2) wah_repr_info.surjective wah_repr_info.update_convs(2))
    have none: "rs ! k = WAH_REPR_NONE" using own [of k] assms(3) rs(2) by simp
    have other: "ri_typeidx (repr_infos m ! r) \<noteq> k" if "r < ?new" for r using inv [OF that] none by auto
    have "reprs_ok (Suc k) m'"
      unfolding reprs_ok_def
    proof (intro exI [of _ "rs[k := int ?new]"] conjI allI impI)
      show "typeidx_to_repr m' = Some (rs[k := int ?new])" "length (rs[k := int ?new]) = length (type_defs m')"
        using rs by (simp_all add: m')
      fix i assume i: "i < length (rs[k := int ?new])"
      show "if i < Suc k \<and> td_kind (type_defs m' ! i) \<noteq> WAH_COMP_FUNC
          then 0 \<le> rs[k := int ?new] ! i \<and> nat (rs[k := int ?new] ! i) < length (repr_infos m')
            \<and> ri_typeidx (repr_infos m' ! nat (rs[k := int ?new] ! i)) = i
            \<and> type_repr_info i (type_defs m' ! i) = Inr (Some (repr_infos m' ! nat (rs[k := int ?new] ! i)))
          else rs[k := int ?new] ! i = WAH_REPR_NONE"
        using own [of i] i kind idx info Some by (cases "i = k") (auto simp: m' nth_append less_Suc_eq)
    next
      fix r assume r: "r < length (repr_infos m')"
      show "ri_typeidx (repr_infos m' ! r) < length (rs[k := int ?new])"
        using inv [of r] r idx assms(3) rs(2) by (cases "r < ?new") (auto simp: m' nth_append)
      show "rs[k := int ?new] ! ri_typeidx (repr_infos m' ! r) = int r"
        using inv [of r] other [of r] r idx assms(3) rs(2)
        by (cases "r < ?new") (auto simp: m' nth_append less_Suc_eq)
    qed
    then show ?thesis using m' by blast
  qed
qed

lemma build_reprs_ok:
  assumes "fold_res build_repr [0..<k] m = Inr m'" "reprs_ok 0 m" "k \<le> length (type_defs m)"
  shows "reprs_ok k m' \<and> (\<exists>ri tr. m' = m\<lparr>repr_infos := ri, typeidx_to_repr := tr\<rparr>)"
  using assms(1,3)
proof (induction k arbitrary: m')
  case 0
  moreover have "m = m\<lparr>repr_infos := repr_infos m, typeidx_to_repr := typeidx_to_repr m\<rparr>" by simp
  ultimately show ?case using assms(2) by (metis Inr_inject fold_res.simps(1) upt_0)
next
  case (Suc k)
  then obtain t where t: "fold_res build_repr [0..<k] m = Inr t" "build_repr k t = Inr m'"
    by (auto simp: fold_res_append res_simps)
  from Suc.IH [OF t(1)] Suc.prems(2) obtain a b where IH: "reprs_ok k t" "t = m\<lparr>repr_infos := a, typeidx_to_repr := b\<rparr>" by auto
  from build_repr_ok [OF t(2) IH(1)] Suc.prems(2) IH(2) show ?case by auto
qed

lemma build_metadata_ok:
  assumes "wah_module_build_type_metadata m = Inr m'" "type_defs m \<noteq> []"
  defines "m1 \<equiv> m\<lparr>canonical_map := Some (wah_build_canonical_map (wah_module_clear_type_metadata m)), typeidx_to_repr := None, repr_infos := []\<rparr>"
  shows "(\<exists>ri tr. m' = m1\<lparr>repr_infos := ri, typeidx_to_repr := tr\<rparr>) \<and> reprs_ok (length (type_defs m)) m'
    \<and> (\<forall>i < length (type_defs m). \<forall>s. td_supertype (type_defs m ! i) = Some s \<longrightarrow> declared_subtype_ok m1 i s)"
proof -
  let ?n = "length (type_defs m)"
  have m1: "(wah_module_clear_type_metadata m)\<lparr>canonical_map := Some (wah_build_canonical_map (wah_module_clear_type_metadata m))\<rparr> = m1"
    by (simp add: m1_def wah_module_clear_type_metadata_def)
  have ne: "length (type_defs (wah_module_clear_type_metadata m)) = ?n" "?n \<noteq> 0"
    using assms(2) by (simp_all add: wah_module_clear_type_metadata_def)
  obtain m2 where r: "fold_res check_declared_subtype [0..<?n] m1 = Inr m2"
    "fold_res build_repr [0..<?n] (m2\<lparr>typeidx_to_repr := Some (replicate ?n WAH_REPR_NONE)\<rparr>) = Inr m'"
    using assms(1) ne unfolding wah_module_build_type_metadata_def Let_def m1 ne(1) by (auto simp: res_simps)
  from check_declared_ok [OF r(1)] have d: "m2 = m1"
    "\<And>i s. i < ?n \<Longrightarrow> td_supertype (type_defs m1 ! i) = Some s \<Longrightarrow> declared_subtype_ok m1 i s" by auto
  have "reprs_ok 0 (m1\<lparr>typeidx_to_repr := Some (replicate ?n WAH_REPR_NONE)\<rparr>)"
    by (simp add: reprs_ok_def m1_def)
  from build_reprs_ok [OF r(2) [unfolded d(1)] this] d(2) show ?thesis by (auto simp: m1_def)
qed

text \<open>Canonicalization and subtyping look at the type table only.\<close>

lemma canonical_map_cong:
  assumes "types m' = types m" "type_defs m' = type_defs m"
  shows "wah_build_canonical_map m' = wah_build_canonical_map m"
proof -
  have se: "wah_types_structurally_equal m' = wah_types_structurally_equal m"
    by (intro ext) (simp only: wah_types_structurally_equal_def group_ref_eq_def [abs_def] assms)
  have h: "wah_rec_group_hash m' = wah_rec_group_hash m"
    by (intro ext) (simp only: wah_rec_group_hash_def hash_type_def_def [abs_def] wah_rec_group_hash_type_def [abs_def] assms)
  have "rec_group_hashes m' = rec_group_hashes m" "group_starts m' = group_starts m"
    by (simp_all only: rec_group_hashes_def group_starts_def h assms)
  then have k: "rec_group_keys m' = rec_group_keys m" "rec_group_hashes m' = rec_group_hashes m" "group_starts m' = group_starts m"
    by (simp_all only: rec_group_keys_def)
  have "canon_scan m' h i cm keys = canon_scan m h i cm keys" for h i cm keys
    by (induction keys) (simp_all add: canon_match_def canon_write_def se assms split: prod.splits)
  then show ?thesis unfolding wah_build_canonical_map_def canon_step_def k assms by presburger
qed

lemma subtype_cong:
  assumes "type_defs m' = type_defs m" "canonical_map m' = canonical_map m"
  shows "wah_type_is_subtype a b m' = wah_type_is_subtype a b m"
proof -
  have c: "canon_same m' = canon_same m" by (intro ext) (simp only: canon_same_def assms)
  have "super_walk fuel m' q t = super_walk fuel m q t" for fuel q t
    by (induction fuel arbitrary: t) (simp_all add: c assms split: option.splits)
  then show ?thesis unfolding wah_type_is_subtype_def wah_type_def_kind_def c assms by presburger
qed

lemma declared_subtype_cong:
  assumes "types m' = types m" "type_defs m' = type_defs m" "canonical_map m' = canonical_map m"
  shows "declared_subtype_ok m' i s = declared_subtype_ok m i s"
  unfolding declared_subtype_ok_def field_matches_def assms subtype_cong [OF assms(2,3)] ..

section \<open>The whole section\<close>

lemma type_section_ok:
  assumes "wah_parse_type_section m bs = Inr (m', r)"
  shows "types_inv m'" "wf_types m'" "suffix r bs"
    "type_defs m' \<noteq> [] \<Longrightarrow> canonical_map m' = Some (wah_build_canonical_map m')"
    "type_defs m' \<noteq> [] \<Longrightarrow> reprs_ok (length (type_defs m')) m'"
    "i < length (type_defs m') \<Longrightarrow> super_ok m' i"
    "i < length (type_defs m') \<Longrightarrow> td_supertype (type_defs m' ! i) = Some s \<Longrightarrow> declared_subtype_ok m' i s"
proof -
  let ?m0 = "m\<lparr>types := [], type_defs := [], types_cap := 0\<rparr>"
  obtain n cs m1 m2 where p: "wah_decode_and_validate_count 1 bs = Inr (n, cs)"
    "repeat_dec n parse_rec_entry ?m0 cs = Inr (m1, r)"
    "fold_res check_type_entry [0..<length (type_defs m1)] m1 = Inr m2"
    "wah_module_build_type_metadata m2 = Inr m'"
    using assms by (auto simp: wah_parse_type_section_def res_simps)
  have "types_inv ?m0" "groups_ok ?m0" by (simp_all add: types_inv_def groups_ok_def cap_ok_def)
  then have inv: "types_inv m1 \<and> groups_ok m1 \<and> suffix r cs"
    by (intro repeat_dec_invariant [where P = "\<lambda>m r. types_inv m \<and> groups_ok m \<and> suffix r cs", OF _ p(2)])
      (auto dest: rec_entry_ok intro: suffix_order.trans)
  from check_entries_ok [OF p(3)] have fo: "features_only m1 m2" and e: "\<forall>i < length (type_defs m1). entry_ok m1 i" by blast+
  note d2 = features_onlyD [OF fo]
  have wf1: "wf_types m1" using checked_types_wf inv e by blast
  let ?m3 = "m2\<lparr>canonical_map := Some (wah_build_canonical_map (wah_module_clear_type_metadata m2)), typeidx_to_repr := None, repr_infos := []\<rparr>"
  have m': "types m' = types m1 \<and> type_defs m' = type_defs m1 \<and> types_cap m' = types_cap m1
     \<and> (type_defs m1 \<noteq> [] \<longrightarrow> canonical_map m' = canonical_map ?m3 \<and> reprs_ok (length (type_defs m1)) m'
        \<and> (\<forall>i < length (type_defs m1). \<forall>s. td_supertype (type_defs m1 ! i) = Some s \<longrightarrow> declared_subtype_ok ?m3 i s))"
  proof (cases "type_defs m2 = []")
    case True
    then show ?thesis using p(4) d2
      by (simp add: wah_module_build_type_metadata_def wah_module_clear_type_metadata_def) auto
  next
    case False
    from build_metadata_ok [OF p(4) False] d2 show ?thesis by auto
  qed
  have cm: "wah_build_canonical_map (wah_module_clear_type_metadata m2) = wah_build_canonical_map m'"
    by (rule canonical_map_cong) (use m' d2 in \<open>simp_all add: wah_module_clear_type_metadata_def\<close>)
  show "types_inv m'" using inv m' by (simp add: types_inv_def)
  show "wf_types m'" using wf1 m' by (simp only: wf_types_def wf_group_def wf_refs_def type_refs_def)
  show "suffix r bs" using inv count_bounds(3) [OF p(1)] by (blast intro: suffix_order.trans)
  show "type_defs m' \<noteq> [] \<Longrightarrow> canonical_map m' = Some (wah_build_canonical_map m')" using m' cm by simp
  show "type_defs m' \<noteq> [] \<Longrightarrow> reprs_ok (length (type_defs m')) m'" using m' by simp
  show "super_ok m' i" if "i < length (type_defs m')"
    using that e m' by (simp add: entry_ok_def super_ok_def)
  show "declared_subtype_ok m' i s" if "i < length (type_defs m')" "td_supertype (type_defs m' ! i) = Some s"
  proof -
    have "type_defs m1 \<noteq> []" using that(1) m' by auto
    then have "declared_subtype_ok ?m3 i s" "canonical_map m' = canonical_map ?m3" using m' that by auto
    moreover have "types m' = types ?m3" "type_defs m' = type_defs ?m3" using m' d2 by simp_all
    ultimately show ?thesis using declared_subtype_cong [of m' ?m3] by simp
  qed
qed

section \<open>Layouts of subtypes\<close>

text \<open>A layout depends on the sizes and representations of the fields only, and fields are placed in order: a type
  whose first fields have the same shape as another's places them at the same offsets.\<close>

lemma layout_fields_step:
  assumes "layout_fields (x # xs) slots f live fs = Inr (gs', l)"
  obtains n r off slots' f' where "wah_field_type_layout x = Inr (n, r)" "layout_place n slots f = Inr (off, slots', f')"
    "layout_fields xs slots' f' (if live < off + n then off + n else live) (fs @ [\<lparr>rf_offset = off, rf_repr_id = r\<rparr>]) = Inr (gs', l)"
  using assms by (auto simp: res_simps split: if_splits)

lemma layout_fields_extends:
  assumes "layout_fields ys slots f live fs = Inr (gs', l)"
  shows "prefix fs gs'"
  using assms
proof (induction ys arbitrary: slots f live fs)
  case (Cons y ys)
  from Cons.prems show ?case
    by (rule layout_fields_step) (use Cons.IH append_prefixD in blast)
qed simp

lemma layout_fields_prefix:
  assumes "layout_fields (xs @ ys) slots f live fs = Inr (gs', l1)" "layout_fields xs' slots f live fs = Inr (fs', l2)"
    and "list_all2 (\<lambda>a b. wah_field_type_layout a = wah_field_type_layout b) xs xs'"
  shows "prefix fs' gs'"
  using assms
proof (induction xs arbitrary: xs' slots f live fs)
  case Nil
  then show ?case using layout_fields_extends by simp
next
  case (Cons x xs)
  obtain x' ts' where xs': "xs' = x' # ts'" "wah_field_type_layout x = wah_field_type_layout x'"
    "list_all2 (\<lambda>a b. wah_field_type_layout a = wah_field_type_layout b) xs ts'"
    using Cons.prems(3) by (auto simp: list_all2_Cons1)
  from Cons.prems(1) obtain n r off slots' f' where a: "wah_field_type_layout x = Inr (n, r)" "layout_place n slots f = Inr (off, slots', f')"
    "layout_fields (xs @ ys) slots' f' (if live < off + n then off + n else live) (fs @ [\<lparr>rf_offset = off, rf_repr_id = r\<rparr>]) = Inr (gs', l1)"
    unfolding append_Cons by (rule layout_fields_step)
  from Cons.prems(2) obtain n' r' off' slots'' f'' where b: "wah_field_type_layout x' = Inr (n', r')" "layout_place n' slots f = Inr (off', slots'', f'')"
    "layout_fields ts' slots'' f'' (if live < off' + n' then off' + n' else live) (fs @ [\<lparr>rf_offset = off', rf_repr_id = r'\<rparr>]) = Inr (fs', l2)"
    unfolding xs'(1) by (rule layout_fields_step)
  have "n' = n" "r' = r" using a(1) b(1) xs'(2) by simp_all
  with a(2) b(2) have "off' = off" "slots'' = slots'" "f'' = f'" by simp_all
  with b(3) \<open>n' = n\<close> \<open>r' = r\<close> show ?case by (intro Cons.IH [OF a(3) _ xs'(3)]) (simp only:)
qed

lemma subtype_not_ref:
  assumes "wah_type_is_subtype a b m" "a \<noteq> WAH_TYPE_BOT"
    and "\<not> WAH_TYPE_IS_REF (WAH_TYPE_AS_NON_NULL a) \<or> \<not> WAH_TYPE_IS_REF (WAH_TYPE_AS_NON_NULL b)"
  shows "WAH_TYPE_AS_NON_NULL a = WAH_TYPE_AS_NON_NULL b"
proof (rule ccontr)
  assume ne: "\<not> ?thesis"
  then have "a \<noteq> b" by blast
  have r: "\<not> 0 \<le> t \<and> t \<noteq> WAH_TYPE_NONE \<and> t \<noteq> WAH_TYPE_NOFUNC \<and> t \<noteq> WAH_TYPE_ANY \<and> t \<noteq> WAH_TYPE_EQ
      \<and> t \<noteq> WAH_TYPE_STRUCT \<and> t \<noteq> WAH_TYPE_ARRAY \<and> t \<noteq> WAH_TYPE_FUNC" if "\<not> WAH_TYPE_IS_REF t" for t
    using that by (auto simp: WAH_TYPE_IS_REF_def)
  show False
    using assms(1) ne \<open>a \<noteq> b\<close> assms(2)
  proof (cases "WAH_TYPE_IS_REF (WAH_TYPE_AS_NON_NULL a)")
    case True
    then have b: "\<not> WAH_TYPE_IS_REF (WAH_TYPE_AS_NON_NULL b)" using assms(3) by simp
    show False using assms(1) unfolding wah_type_is_subtype_def Let_def
      by (simp only: ne \<open>a \<noteq> b\<close> assms(2) b r [OF b] simp_thms if_False if_True split: if_splits)
  next
    case False
    show False using assms(1) unfolding wah_type_is_subtype_def Let_def
      by (simp only: ne \<open>a \<noteq> b\<close> assms(2) False r [OF False] simp_thms if_False if_True split: if_splits)
  qed
qed

lemma subtype_layout_same:
  assumes "wah_type_is_subtype a b m" "wah_is_val_type a \<or> WAH_TYPE_IS_PACKED a" "wah_is_val_type b \<or> WAH_TYPE_IS_PACKED b"
  shows "wah_field_type_layout a = wah_field_type_layout b"
proof -
  let ?plain = "{-2, -4, -6, -8, -10, -16, -18} :: int set"
  have c: "t \<in> ?plain \<and> WAH_TYPE_AS_NON_NULL t = t \<and> \<not> WAH_TYPE_IS_REF t
      \<or> t \<notin> ?plain \<and> WAH_TYPE_IS_REF t \<and> WAH_TYPE_AS_NON_NULL t \<notin> ?plain"
    if "wah_is_val_type t \<or> WAH_TYPE_IS_PACKED t" for t
    using that by (auto simp: wah_is_val_type_def WAH_TYPE_IS_PACKED_def WAH_TYPE_IS_REF_def as_non_null_eq)
  have "a \<noteq> WAH_TYPE_BOT" using assms(2) by (auto simp: wah_is_val_type_def WAH_TYPE_IS_PACKED_def WAH_TYPE_IS_REF_def)
  note nr = subtype_not_ref [OF assms(1) this]
  show ?thesis
  proof (cases "a \<in> ?plain \<or> b \<in> ?plain")
    case True
    then have "WAH_TYPE_AS_NON_NULL a = WAH_TYPE_AS_NON_NULL b" using nr c [OF assms(2)] c [OF assms(3)] by metis
    then have "a = b" using True c [OF assms(2)] c [OF assms(3)] by metis
    then show ?thesis by simp
  next
    case False
    then show ?thesis using c [OF assms(2)] c [OF assms(3)] by (auto simp: wah_field_type_layout_def)
  qed
qed

lemma field_matches_layout:
  assumes "field_matches m sm st tm tt" "wah_is_val_type st \<or> WAH_TYPE_IS_PACKED st" "wah_is_val_type tt \<or> WAH_TYPE_IS_PACKED tt"
  shows "wah_field_type_layout tt = wah_field_type_layout st"
proof (cases sm)
  case True
  then have "st = tt \<or> 0 \<le> st \<and> 0 \<le> tt" using assms(1) by (auto simp: field_matches_def)
  then show ?thesis by (auto simp: wah_field_type_layout_def WAH_TYPE_IS_REF_def)
next
  case False
  then have "wah_type_is_subtype tt st m" using assms(1) by (simp add: field_matches_def)
  then show ?thesis by (rule subtype_layout_same) fact+
qed

lemma declared_struct_layout:
  assumes "declared_subtype_ok m i s" "td_kind (type_defs m ! i) = WAH_COMP_STRUCT" "types_inv m"
    and "i < length (type_defs m)" "s < length (type_defs m)"
    and "wah_build_struct_repr_info a (type_defs m ! i) = Inr sub" "wah_build_struct_repr_info b (type_defs m ! s) = Inr super"
  shows "prefix (ri_fields super) (ri_fields sub)"
proof -
  let ?f = "td_field_types (type_defs m ! i)" and ?g = "td_field_types (type_defs m ! s)"
  have len: "length ?g \<le> length ?f" and match: "\<And>j. j < length ?g \<Longrightarrow> field_matches m (td_field_mutables (type_defs m ! s) ! j) (?g ! j) (td_field_mutables (type_defs m ! i) ! j) (?f ! j)"
    using assms(1,2) by (auto simp: declared_subtype_ok_def list_all_iff Let_def)
  have wf: "list_all (\<lambda>t. wah_is_val_type t \<or> WAH_TYPE_IS_PACKED t) ?f" "list_all (\<lambda>t. wah_is_val_type t \<or> WAH_TYPE_IS_PACKED t) ?g"
    using assms(3,4,5) by (auto simp: types_inv_def wf_parsed_def fields_wf_def)
  have "list_all2 (\<lambda>a b. wah_field_type_layout a = wah_field_type_layout b) (take (length ?g) ?f) ?g"
    unfolding list_all2_conv_all_nth
  proof (intro conjI allI impI)
    fix j assume "j < length (take (length ?g) ?f)"
    then have j: "j < length ?g" "j < length ?f" by simp_all
    then show "wah_field_type_layout (take (length ?g) ?f ! j) = wah_field_type_layout (?g ! j)"
      using field_matches_layout [OF match [OF j(1)]] wf by (simp add: list_all_length)
  qed (use len in simp)
  moreover obtain l1 l2 where "layout_fields (take (length ?g) ?f @ drop (length ?g) ?f) [[], [], [], []] 0 0 [] = Inr (ri_fields sub, l1)"
    "layout_fields ?g [[], [], [], []] 0 0 [] = Inr (ri_fields super, l2)"
    using assms(6,7) by (auto simp: wah_build_struct_repr_info_def res_simps)
  ultimately show ?thesis using layout_fields_prefix by blast
qed

section \<open>Properties\<close>

text \<open>C1: A type section that is accepted leaves a well-formed type table: recursion groups are disjoint
  intervals, references stay within the group of the type or before it, supertypes come earlier, are not final,
  have the same kind, and are chained at most 63 deep, every declared subtype matches its supertype field by
  field, and the canonical map is the one computed from the table. The input left over is a suffix of the
  input given.\<close>

theorem type_section_wf:
  assumes "wah_parse_type_section m bs = Inr (m', r)"
  shows "wf_types m' \<and> suffix r bs \<and> length (types m') = length (type_defs m')
    \<and> (type_defs m' \<noteq> [] \<longrightarrow> canonical_map m' = Some (wah_build_canonical_map m'))
    \<and> (\<forall>i < length (type_defs m'). wf_parsed i (types m' ! i) (type_defs m' ! i) \<and> super_ok m' i
        \<and> (\<forall>s. td_supertype (type_defs m' ! i) = Some s \<longrightarrow> declared_subtype_ok m' i s))"
  using type_section_ok [OF assms] by (auto simp: types_inv_def)

text \<open>C3: The representation table of an accepted type section is a bijection: every struct or array type
  owns exactly one representation, which is the one built from its fields and names it back; function types
  have none; and no representation belongs to anything else.\<close>

theorem type_section_representations:
  assumes "wah_parse_type_section m bs = Inr (m', r)" "i < length (type_defs m')"
  shows "\<exists>rs. typeidx_to_repr m' = Some rs \<and> length rs = length (type_defs m')
    \<and> (if td_kind (type_defs m' ! i) = WAH_COMP_FUNC then rs ! i = WAH_REPR_NONE
       else \<exists>k < length (repr_infos m'). rs ! i = int k \<and> ri_typeidx (repr_infos m' ! k) = i
         \<and> type_repr_info i (type_defs m' ! i) = Inr (Some (repr_infos m' ! k)))
    \<and> (\<forall>k < length (repr_infos m'). rs ! ri_typeidx (repr_infos m' ! k) = int k)"
proof -
  have "type_defs m' \<noteq> []" using assms(2) by auto
  from type_section_ok(5) [OF assms(1) this] obtain rs where rs: "typeidx_to_repr m' = Some rs" "length rs = length (type_defs m')"
    and own: "\<And>i. i < length rs \<Longrightarrow> if i < length (type_defs m') \<and> td_kind (type_defs m' ! i) \<noteq> WAH_COMP_FUNC
          then 0 \<le> rs ! i \<and> nat (rs ! i) < length (repr_infos m') \<and> ri_typeidx (repr_infos m' ! nat (rs ! i)) = i
            \<and> type_repr_info i (type_defs m' ! i) = Inr (Some (repr_infos m' ! nat (rs ! i)))
          else rs ! i = WAH_REPR_NONE"
    and inv: "\<forall>r < length (repr_infos m'). ri_typeidx (repr_infos m' ! r) < length rs \<and> rs ! ri_typeidx (repr_infos m' ! r) = int r"
    unfolding reprs_ok_def by blast
  have "if td_kind (type_defs m' ! i) = WAH_COMP_FUNC then rs ! i = WAH_REPR_NONE
       else \<exists>k < length (repr_infos m'). rs ! i = int k \<and> ri_typeidx (repr_infos m' ! k) = i
         \<and> type_repr_info i (type_defs m' ! i) = Inr (Some (repr_infos m' ! k))"
    using own [of i] assms(2) rs(2) by (auto intro: exI [of _ "nat (rs ! i)"])
  then show ?thesis using rs inv by blast
qed

text \<open>C2: Objects of a subtype can be used at the supertype: in an accepted type section, the fields a struct
  shares with its declared supertype have the same offsets and representations in both layouts, so code
  compiled for the supertype reads the right bytes.\<close>

theorem struct_subtype_layout:
  assumes "wah_parse_type_section m bs = Inr (m', r)" "i < length (type_defs m')"
    and "td_kind (type_defs m' ! i) = WAH_COMP_STRUCT" "td_supertype (type_defs m' ! i) = Some s"
    and "type_repr_info i (type_defs m' ! i) = Inr (Some sub)" "type_repr_info s (type_defs m' ! s) = Inr (Some super)"
  shows "prefix (ri_fields super) (ri_fields sub)"
proof (rule declared_struct_layout)
  show "declared_subtype_ok m' i s" by (rule type_section_ok(7) [OF assms(1,2,4)])
  show "types_inv m'" by (rule type_section_ok(1) [OF assms(1)])
  have so: "s < i" "td_kind (type_defs m' ! s) = WAH_COMP_STRUCT"
    using type_section_ok(6) [OF assms(1,2)] assms(3,4) by (auto simp: super_ok_def)
  then show "s < length (type_defs m')" using assms(2) by simp
  show "wah_build_struct_repr_info i (type_defs m' ! i) = Inr sub" "wah_build_struct_repr_info s (type_defs m' ! s) = Inr super"
    using assms(3,5,6) so(2) by (auto simp: type_repr_info_def res_simps)
qed fact+

lemma layout_place_error: "layout_place n slots f = Inl e \<Longrightarrow> e = WAH_ERROR_TOO_LARGE"
  by (auto simp: layout_place_def res_simps split: option.splits if_splits)

lemma layout_fields_error: "layout_fields ts slots f live fs \<noteq> Inl WAH_OK"
  by (induction ts arbitrary: slots f live fs)
    (auto simp: res_simps wah_field_type_layout_def dest: layout_place_error split: if_splits)

lemma build_repr_error: "build_repr i m \<noteq> Inl WAH_OK"
  by (auto simp: build_repr_def type_repr_info_def array_repr_info_def wah_build_struct_repr_info_def wah_module_alloc_repr_def
      wah_field_type_layout_def res_simps layout_fields_error Let_def split: wah_comp_type_kind.splits option.splits if_splits)

text \<open>The metadata of a module that defines its types one by one: none before the first type, then a representation
  and a canonical entry for every type.\<close>

definition type_metadata_ok :: "wah_module \<Rightarrow> bool" where
  "type_metadata_ok m \<longleftrightarrow>
    (if type_defs m = [] then repr_infos m = []
     else reprs_ok (length (type_defs m)) m \<and> (\<exists>cm. canonical_map m = Some cm \<and> length cm = length (type_defs m)))"

definition entries :: "'a list option \<Rightarrow> nat \<Rightarrow> 'a list" where
  "entries xs n = take n (case xs of None \<Rightarrow> [] | Some ys \<Rightarrow> ys)"

lemma reprs_ok_extend:
  assumes "type_metadata_ok m"
  shows "reprs_ok (length (type_defs m)) (m\<lparr>types := ts, type_defs := type_defs m @ [td],
    typeidx_to_repr := Some (entries (typeidx_to_repr m) (length (type_defs m)) @ [WAH_REPR_NONE]), canonical_map := c\<rparr>)"
proof (cases "type_defs m = []")
  case False
  then obtain rs where rs: "typeidx_to_repr m = Some rs" "length rs = length (type_defs m)" and ok: "reprs_ok (length (type_defs m)) m"
    using assms by (auto simp: type_metadata_ok_def reprs_ok_def)
  from rs have "entries (typeidx_to_repr m) (length (type_defs m)) = rs" by (simp add: entries_def)
  with ok rs(1) show ?thesis by (auto simp: reprs_ok_def nth_append less_Suc_eq)
qed (use assms in \<open>auto simp: type_metadata_ok_def reprs_ok_def entries_def\<close>)

lemma build_repr_entries:
  assumes "build_repr k m = Inr m'" "typeidx_to_repr m = Some (rs @ [x])" "length rs = k"
  shows "entries (typeidx_to_repr m') k = rs"
    "\<exists>info. type_repr_info k (type_defs m ! k) = Inr info \<and> repr_infos m' = repr_infos m @ (case info of None \<Rightarrow> [] | Some i \<Rightarrow> [i])"
proof -
  obtain info where info: "type_repr_info k (type_defs m ! k) = Inr info" using assms(1) by (auto simp: build_repr_def res_simps)
  have "entries (typeidx_to_repr m') k = rs \<and> repr_infos m' = repr_infos m @ (case info of None \<Rightarrow> [] | Some i \<Rightarrow> [i])"
    using assms info type_repr_info_index [of k "type_defs m ! k"]
    by (cases info) (auto simp: build_repr_def res_simps wah_module_alloc_repr_def Let_def entries_def)
  with info show "entries (typeidx_to_repr m') k = rs"
    "\<exists>info. type_repr_info k (type_defs m ! k) = Inr info \<and> repr_infos m' = repr_infos m @ (case info of None \<Rightarrow> [] | Some i \<Rightarrow> [i])"
    by blast+
qed

text \<open>C20: Defining one more type on a module, the first one included, keeps its type metadata consistent: afterwards
  every struct and array type has its own representation, built from its definition, and every type has a canonical
  entry; the new type represents itself, its representation comes last, and nothing recorded for the earlier
  types changes.\<close>

theorem add_type_keeps_representations:
  assumes "type_metadata_ok m"
    and "wah_module_add_latest_type_metadata (m\<lparr>types := types m @ [ft], type_defs := type_defs m @ [td]\<rparr>) = (WAH_OK, m')"
  shows "type_metadata_ok m' \<and> type_defs m' = type_defs m @ [td]
    \<and> canonical_map m' = Some (entries (canonical_map m) (length (type_defs m)) @ [length (type_defs m)])
    \<and> entries (typeidx_to_repr m') (length (type_defs m)) = entries (typeidx_to_repr m) (length (type_defs m))
    \<and> (\<exists>info. type_repr_info (length (type_defs m)) td = Inr info
        \<and> repr_infos m' = repr_infos m @ (case info of None \<Rightarrow> [] | Some i \<Rightarrow> [i]))"
proof -
  let ?n = "length (type_defs m)"
  let ?m1 = "m\<lparr>types := types m @ [ft], type_defs := type_defs m @ [td],
    typeidx_to_repr := Some (entries (typeidx_to_repr m) ?n @ [WAH_REPR_NONE]), canonical_map := Some (entries (canonical_map m) ?n @ [?n])\<rparr>"
  have len: "length (entries (typeidx_to_repr m) ?n) = ?n" "length (entries (canonical_map m) ?n) = ?n"
    using assms(1) by (auto simp: type_metadata_ok_def reprs_ok_def entries_def split: if_splits)
  have b: "build_repr ?n ?m1 = Inr m'"
    using assms(2) build_repr_error [of ?n ?m1]
    by (auto simp: wah_module_add_latest_type_metadata_def Let_def set_entry_def entries_def split: sum.splits)
  with build_repr_ok [OF b reprs_ok_extend [OF assms(1)]] len build_repr_entries [OF b _ len(1)]
  show ?thesis by (auto simp: type_metadata_ok_def)
qed

section \<open>Witnesses\<close>

text \<open>A section with two struct types, the second one a subtype that adds a mutable \<open>i64\<close> field.\<close>

definition demo_type_section :: bytes where
  "demo_type_section = [0x02, 0x50, 0x00, 0x5F, 0x01, 0x7F, 0x00,  0x50, 0x01, 0x00, 0x5F, 0x02, 0x7F, 0x00, 0x7E, 0x01]"

definition demo_parse_module :: wah_module where
  "demo_parse_module = wah_module_zero\<lparr>enabled_features := -1\<rparr>"

lemma uleb_byte: assumes "b < 0x80" shows "wah_decode_uleb128 (b # r) = Inr (ucast b, r)"
proof -
  have b: "unat b < 128" using assms by (simp add: word_less_nat_alt)
  have p: "b AND 0x7F = b" by (rule word_unat_eq_iff [THEN iffD2]) (use b in \<open>simp add: leb_payload\<close>)
  have "unat (ucast b :: u64) < 256" using unsigned_less [of b, where 'a = nat] by (simp add: unsigned_ucast_eq take_bit_nat_eq_self)
  then have le: "(ucast b :: u64) \<le> 0xFFFFFFFF" by (simp add: word_le_nat_alt)
  have "(ucast (ucast b :: u64) :: u32) = ucast b" by transfer (simp add: take_bit_take_bit)
  then have "uleb128_loop (Suc 4) 0 0 (b # r) = Inr (ucast b, r)"
    using b le by (subst uleb128_loop.simps) (simp add: p leb_continues)
  then show ?thesis by (simp add: wah_decode_uleb128_def)
qed

definition demo_td0 :: wah_type_def where
  "demo_td0 = \<lparr> td_kind = WAH_COMP_STRUCT, td_is_final = False, td_non_defaultable = False, td_supertype = None,
     td_field_types = [WAH_TYPE_I32], td_field_mutables = [False], td_rec_group_start = 0, td_rec_group_size = 1 \<rparr>"

definition demo_td1 :: wah_type_def where
  "demo_td1 = \<lparr> td_kind = WAH_COMP_STRUCT, td_is_final = False, td_non_defaultable = False, td_supertype = Some 0,
     td_field_types = [WAH_TYPE_I32, WAH_TYPE_I64], td_field_mutables = [False, True], td_rec_group_start = 1, td_rec_group_size = 1 \<rparr>"

lemma grow_small: "grow_capacity (Suc 0) 0 = Inr 8"
  by (simp add: grow_capacity_def grow_loop.simps)

lemma demo_entries:
  "parse_rec_entry (demo_parse_module\<lparr>types := [], type_defs := [], types_cap := 0\<rparr>) (drop 1 demo_type_section)
    = Inr (demo_parse_module\<lparr>types := [func_type_zero], type_defs := [demo_td0], types_cap := 8, required_features := 1024\<rparr>, drop 7 demo_type_section)"
  by (simp add: parse_rec_entry_def demo_type_section_def parse_type_member_def demo_parse_module_def
    wah_type_section_ensure_capacity_def grow_small wah_parse_sub_type_def uleb_byte wah_parse_composite_type_def
    wah_type_section_init_slot_def WAH_MAX_TYPE_INDEX_def wah_parse_struct_type_def wah_decode_and_validate_count_def
    decode_field_def wah_decode_storage_type_def wah_decode_val_type_def is_gc_kind_def type_def_init_def
    wah_require_feature_def demo_td0_def set_group_def WAH_TYPE_IS_REF_def wah_module_zero_def)

lemma demo_entries2:
  "parse_rec_entry (demo_parse_module\<lparr>types := [func_type_zero], type_defs := [demo_td0], types_cap := 8, required_features := 1024\<rparr>) (drop 7 demo_type_section)
    = Inr (demo_parse_module\<lparr>types := [func_type_zero, func_type_zero], type_defs := [demo_td0, demo_td1], types_cap := 8, required_features := 1024\<rparr>, [])"
  by (simp add: parse_rec_entry_def demo_type_section_def parse_type_member_def demo_parse_module_def
    wah_type_section_ensure_capacity_def wah_parse_sub_type_def uleb_byte wah_parse_composite_type_def
    wah_type_section_init_slot_def wah_parse_struct_type_def wah_decode_and_validate_count_def
    decode_field_def wah_decode_storage_type_def wah_decode_val_type_def is_gc_kind_def type_def_init_def
    wah_require_feature_def demo_td1_def demo_td0_def set_group_def WAH_TYPE_IS_REF_def wah_module_zero_def Let_def)

abbreviation "demo_typed \<equiv> demo_parse_module\<lparr>types := [func_type_zero, func_type_zero], type_defs := [demo_td0, demo_td1], types_cap := 8, required_features := 1024\<rparr>"

lemma upt2: "[0..<2] = [0, Suc 0]"
  by (simp add: upt_rec)

lemma replicate2: "replicate 2 x = [x, x]"
  by (simp add: numeral_2_eq_2)

lemma demo_checks: "fold_res check_type_entry [0..<2] demo_typed = Inr demo_typed"
  by (simp add: upt2 check_type_entry_def demo_td0_def demo_td1_def func_type_zero_def super_depth.simps is_gc_kind_def
      wah_require_type_features_def WAH_TYPE_IS_REF_def)

definition demo_info0 :: wah_repr_info where
  "demo_info0 = \<lparr> ri_type = WAH_REPR_STRUCT, ri_typeidx = 0, ri_size = 4, ri_fields = [\<lparr> rf_offset = 0, rf_repr_id = WAH_REPR_NONE \<rparr>] \<rparr>"

definition demo_info1 :: wah_repr_info where
  "demo_info1 = \<lparr> ri_type = WAH_REPR_STRUCT, ri_typeidx = 1, ri_size = 16,
     ri_fields = [\<lparr> rf_offset = 0, rf_repr_id = WAH_REPR_NONE \<rparr>, \<lparr> rf_offset = 8, rf_repr_id = WAH_REPR_NONE \<rparr>] \<rparr>"

lemma demo_infos:
  "type_repr_info 0 demo_td0 = Inr (Some demo_info0)" "type_repr_info (Suc 0) demo_td1 = Inr (Some demo_info1)"
  by (simp_all add: type_repr_info_def wah_build_struct_repr_info_def demo_td0_def demo_td1_def wah_field_type_layout_def
      WAH_TYPE_IS_REF_def and_nat_def demo_info0_def demo_info1_def place_exec_simps place_exec_simps(1-) [simplified])

lemma demo_declared:
  assumes "type_defs m = [demo_td0, demo_td1]"
  shows "check_declared_subtype 0 m = Inr m" "check_declared_subtype (Suc 0) m = Inr m"
  by (simp_all add: check_declared_subtype_def assms demo_td0_def demo_td1_def declared_subtype_ok_def field_matches_def
      subtype_refl Let_def)

lemma demo_build:
  assumes "type_defs m = [demo_td0, demo_td1]"
  shows "typeidx_to_repr m = Some [-64, -64] \<Longrightarrow> repr_infos m = [] \<Longrightarrow>
      build_repr 0 m = Inr (m\<lparr>repr_infos := [demo_info0], typeidx_to_repr := Some [0, -64]\<rparr>)"
    "typeidx_to_repr m = Some [0, -64] \<Longrightarrow> repr_infos m = [demo_info0] \<Longrightarrow>
      build_repr (Suc 0) m = Inr (m\<lparr>repr_infos := [demo_info0, demo_info1], typeidx_to_repr := Some [0, 1]\<rparr>)"
  by (simp_all add: build_repr_def assms demo_infos wah_module_alloc_repr_def Let_def)
    (simp_all add: demo_info0_def demo_info1_def)

lemma demo_metadata: "\<exists>m'. wah_module_build_type_metadata demo_typed = Inr m' \<and> type_defs m' = [demo_td0, demo_td1]"
  by (simp add: wah_module_build_type_metadata_def wah_module_clear_type_metadata_def upt2 demo_declared demo_build Let_def replicate2)

lemma demo_section: "\<exists>m'. wah_parse_type_section demo_parse_module demo_type_section = Inr (m', []) \<and> type_defs m' = [demo_td0, demo_td1]"
proof -
  have bs: "demo_type_section = 2 # drop 1 demo_type_section" by (simp add: demo_type_section_def)
  have c: "wah_decode_and_validate_count 1 demo_type_section = Inr (2, drop 1 demo_type_section)"
    by (simp add: wah_decode_and_validate_count_def demo_type_section_def uleb_byte)
  have d: "repeat_dec 2 parse_rec_entry (demo_parse_module\<lparr>types := [], type_defs := [], types_cap := 0\<rparr>) (drop 1 demo_type_section)
      = Inr (demo_typed, [])"
    unfolding numeral_2_eq_2 repeat_dec.simps demo_entries by (simp add: demo_entries2)
  have n: "length (type_defs demo_typed) = 2" by simp
  obtain m' where m': "wah_module_build_type_metadata demo_typed = Inr m'" "type_defs m' = [demo_td0, demo_td1]"
    using demo_metadata by blast
  have "wah_parse_type_section demo_parse_module demo_type_section = Inr (m', [])"
    unfolding wah_parse_type_section_def c Let_def WAH_CHECK_Inr prod.case d n demo_checks m'(1) ..
  then show ?thesis using m'(2) by blast
qed

theorem type_section_wf_witness:
  "\<exists>m'. wah_parse_type_section demo_parse_module demo_type_section = Inr (m', []) \<and> wf_types m'
     \<and> canonical_map m' = Some (wah_build_canonical_map m') \<and> declared_subtype_ok m' 1 0"
proof -
  obtain m' where m': "wah_parse_type_section demo_parse_module demo_type_section = Inr (m', [])" "type_defs m' = [demo_td0, demo_td1]"
    using demo_section by blast
  from type_section_wf [OF m'(1)] m' show ?thesis by (auto simp: demo_td1_def)
qed

theorem type_section_representations_witness:
  "\<exists>m' rs k. wah_parse_type_section demo_parse_module demo_type_section = Inr (m', []) \<and> typeidx_to_repr m' = Some rs
     \<and> rs ! 1 = int k \<and> type_repr_info 1 (type_defs m' ! 1) = Inr (Some (repr_infos m' ! k))"
proof -
  obtain m' where m': "wah_parse_type_section demo_parse_module demo_type_section = Inr (m', [])" "type_defs m' = [demo_td0, demo_td1]"
    using demo_section by blast
  from type_section_representations [OF m'(1), of 1] m' show ?thesis by (auto simp: demo_td1_def)
qed

theorem struct_subtype_layout_witness: "prefix (ri_fields demo_info0) (ri_fields demo_info1)"
proof -
  obtain m' where m': "wah_parse_type_section demo_parse_module demo_type_section = Inr (m', [])" "type_defs m' = [demo_td0, demo_td1]"
    using demo_section by blast
  show ?thesis
    by (rule struct_subtype_layout [OF m'(1), of 1 0]) (simp_all add: m' demo_infos, simp_all add: demo_td1_def)
qed

theorem add_type_keeps_representations_witness:
  "\<exists>m1 m2. wah_module_add_latest_type_metadata (wah_module_zero\<lparr>types := [func_type_zero], type_defs := [demo_td0]\<rparr>) = (WAH_OK, m1)
    \<and> wah_module_add_latest_type_metadata (m1\<lparr>types := types m1 @ [func_type_zero], type_defs := type_defs m1 @ [demo_td1]\<rparr>) = (WAH_OK, m2)
    \<and> reprs_ok 2 m2 \<and> canonical_map m2 = Some [0, 1] \<and> length (repr_infos m2) = 2"
proof -
  let ?m0 = "wah_module_zero\<lparr>types := types wah_module_zero @ [func_type_zero], type_defs := type_defs wah_module_zero @ [demo_td0]\<rparr>"
  have m0: "?m0 = wah_module_zero\<lparr>types := [func_type_zero], type_defs := [demo_td0]\<rparr>" by (simp add: wah_module_zero_def)
  obtain m1 where m1: "wah_module_add_latest_type_metadata ?m0 = (WAH_OK, m1)"
    by (simp add: wah_module_add_latest_type_metadata_def set_entry_def build_repr_def demo_infos wah_module_alloc_repr_def
        Let_def wah_module_zero_def)
  have "type_metadata_ok wah_module_zero" by (simp add: type_metadata_ok_def wah_module_zero_def)
  from add_type_keeps_representations [OF this m1]
  have one: "type_metadata_ok m1" "type_defs m1 = [demo_td0]" "canonical_map m1 = Some [0]" "length (repr_infos m1) = 1"
    by (auto simp: wah_module_zero_def entries_def demo_infos)
  let ?m1 = "m1\<lparr>types := types m1 @ [func_type_zero], type_defs := type_defs m1 @ [demo_td1]\<rparr>"
  have "\<exists>x. typeidx_to_repr m1 = Some [x]" using one by (auto simp: type_metadata_ok_def reprs_ok_def length_Suc_conv)
  then obtain m2 where m2: "wah_module_add_latest_type_metadata ?m1 = (WAH_OK, m2)"
    using one by (auto simp: wah_module_add_latest_type_metadata_def set_entry_def build_repr_def demo_infos wah_module_alloc_repr_def Let_def)
  from add_type_keeps_representations [OF one(1) m2] one
  have "reprs_ok 2 m2 \<and> canonical_map m2 = Some [0, 1] \<and> length (repr_infos m2) = 2"
    by (auto simp: type_metadata_ok_def entries_def demo_infos numeral_2_eq_2)
  then show ?thesis using m1 m2 unfolding m0 by blast
qed

end
