(* ===== verification/Wah_Opcodes.thy ===== *)
theory Wah_Opcodes
  imports Wah_Decode
begin

text \<open>
  The opcode listing of \<open>wah.h\<close>: the numbers of the opcodes after the remapping of the prefixed ones
  (\<open>wah_decode_opcode\<close>), their classes and the features they belong to. The \<open>X\<close>-macro lists are lists of
  opcode, class and feature shift; the arrays \<open>wah_opclasses\<close> and \<open>wah_opcode_features\<close> are the lookups in them.
\<close>

section \<open>Classes\<close>

text \<open>\<open>WAH_OPCLASS_OWN\<close> is the class written \<open>WAH_OPCLASS_\<close> in the source: the opcode is handled by its own case.\<close>

datatype wah_opclass =
    WAH_OPCLASS_MISSING | WAH_OPCLASS_OWN
  | WAH_OPCLASS__I_I | WAH_OPCLASS__I_L | WAH_OPCLASS__I_F | WAH_OPCLASS__I_D | WAH_OPCLASS__I_V | WAH_OPCLASS__II_I
  | WAH_OPCLASS__IV_V | WAH_OPCLASS__L_I | WAH_OPCLASS__L_L | WAH_OPCLASS__L_F | WAH_OPCLASS__L_D | WAH_OPCLASS__L_V
  | WAH_OPCLASS__LL_I | WAH_OPCLASS__LL_L | WAH_OPCLASS__LV_V | WAH_OPCLASS__F_I | WAH_OPCLASS__F_L | WAH_OPCLASS__F_F
  | WAH_OPCLASS__F_V | WAH_OPCLASS__FF_I | WAH_OPCLASS__FF_F | WAH_OPCLASS__D_I | WAH_OPCLASS__D_L | WAH_OPCLASS__D_D
  | WAH_OPCLASS__D_V | WAH_OPCLASS__DD_I | WAH_OPCLASS__DD_L | WAH_OPCLASS__DD_D | WAH_OPCLASS__V_I | WAH_OPCLASS__V_V
  | WAH_OPCLASS__VI_V | WAH_OPCLASS__VV_V | WAH_OPCLASS__VVV_V
  | WAH_OPCLASS_B | WAH_OPCLASS_I | WAH_OPCLASS_II | WAH_OPCLASS_M | WAH_OPCLASS_MB

section \<open>Opcodes\<close>

abbreviation (input) "WAH_OP_UNREACHABLE \<equiv> 0x00 :: nat"
abbreviation (input) "WAH_OP_NOP \<equiv> 0x01 :: nat"
abbreviation (input) "WAH_OP_BLOCK \<equiv> 0x02 :: nat"
abbreviation (input) "WAH_OP_LOOP \<equiv> 0x03 :: nat"
abbreviation (input) "WAH_OP_IF \<equiv> 0x04 :: nat"
abbreviation (input) "WAH_OP_ELSE \<equiv> 0x05 :: nat"
abbreviation (input) "WAH_OP_END \<equiv> 0x0B :: nat"
abbreviation (input) "WAH_OP_BR \<equiv> 0x0C :: nat"
abbreviation (input) "WAH_OP_BR_IF \<equiv> 0x0D :: nat"
abbreviation (input) "WAH_OP_BR_TABLE \<equiv> 0x0E :: nat"
abbreviation (input) "WAH_OP_RETURN \<equiv> 0x0F :: nat"
abbreviation (input) "WAH_OP_CALL \<equiv> 0x10 :: nat"
abbreviation (input) "WAH_OP_CALL_INDIRECT \<equiv> 0x11 :: nat"
abbreviation (input) "WAH_OP_THROW \<equiv> 0x08 :: nat"
abbreviation (input) "WAH_OP_THROW_REF \<equiv> 0x0A :: nat"
abbreviation (input) "WAH_OP_RETURN_CALL \<equiv> 0x12 :: nat"
abbreviation (input) "WAH_OP_RETURN_CALL_INDIRECT \<equiv> 0x13 :: nat"
abbreviation (input) "WAH_OP_CALL_REF \<equiv> 0x14 :: nat"
abbreviation (input) "WAH_OP_RETURN_CALL_REF \<equiv> 0x15 :: nat"
abbreviation (input) "WAH_OP_TRY_TABLE \<equiv> 0x1F :: nat"
abbreviation (input) "WAH_OP_DROP \<equiv> 0x1A :: nat"
abbreviation (input) "WAH_OP_SELECT \<equiv> 0x1B :: nat"
abbreviation (input) "WAH_OP_SELECT_T \<equiv> 0x1C :: nat"
abbreviation (input) "WAH_OP_LOCAL_GET \<equiv> 0x20 :: nat"
abbreviation (input) "WAH_OP_LOCAL_SET \<equiv> 0x21 :: nat"
abbreviation (input) "WAH_OP_LOCAL_TEE \<equiv> 0x22 :: nat"
abbreviation (input) "WAH_OP_GLOBAL_GET \<equiv> 0x23 :: nat"
abbreviation (input) "WAH_OP_GLOBAL_SET \<equiv> 0x24 :: nat"
abbreviation (input) "WAH_OP_TABLE_GET \<equiv> 0x25 :: nat"
abbreviation (input) "WAH_OP_TABLE_SET \<equiv> 0x26 :: nat"
abbreviation (input) "WAH_OP_TABLE_INIT \<equiv> 0x102 :: nat"
abbreviation (input) "WAH_OP_ELEM_DROP \<equiv> 0x103 :: nat"
abbreviation (input) "WAH_OP_TABLE_COPY \<equiv> 0x104 :: nat"
abbreviation (input) "WAH_OP_TABLE_GROW \<equiv> 0x105 :: nat"
abbreviation (input) "WAH_OP_TABLE_SIZE \<equiv> 0x106 :: nat"
abbreviation (input) "WAH_OP_TABLE_FILL \<equiv> 0x107 :: nat"
abbreviation (input) "WAH_OP_I32_LOAD \<equiv> 0x28 :: nat"
abbreviation (input) "WAH_OP_I64_LOAD \<equiv> 0x29 :: nat"
abbreviation (input) "WAH_OP_F32_LOAD \<equiv> 0x2A :: nat"
abbreviation (input) "WAH_OP_F64_LOAD \<equiv> 0x2B :: nat"
abbreviation (input) "WAH_OP_I32_LOAD8_S \<equiv> 0x2C :: nat"
abbreviation (input) "WAH_OP_I32_LOAD8_U \<equiv> 0x2D :: nat"
abbreviation (input) "WAH_OP_I32_LOAD16_S \<equiv> 0x2E :: nat"
abbreviation (input) "WAH_OP_I32_LOAD16_U \<equiv> 0x2F :: nat"
abbreviation (input) "WAH_OP_I64_LOAD8_S \<equiv> 0x30 :: nat"
abbreviation (input) "WAH_OP_I64_LOAD8_U \<equiv> 0x31 :: nat"
abbreviation (input) "WAH_OP_I64_LOAD16_S \<equiv> 0x32 :: nat"
abbreviation (input) "WAH_OP_I64_LOAD16_U \<equiv> 0x33 :: nat"
abbreviation (input) "WAH_OP_I64_LOAD32_S \<equiv> 0x34 :: nat"
abbreviation (input) "WAH_OP_I64_LOAD32_U \<equiv> 0x35 :: nat"
abbreviation (input) "WAH_OP_I32_STORE \<equiv> 0x36 :: nat"
abbreviation (input) "WAH_OP_I64_STORE \<equiv> 0x37 :: nat"
abbreviation (input) "WAH_OP_F32_STORE \<equiv> 0x38 :: nat"
abbreviation (input) "WAH_OP_F64_STORE \<equiv> 0x39 :: nat"
abbreviation (input) "WAH_OP_I32_STORE8 \<equiv> 0x3A :: nat"
abbreviation (input) "WAH_OP_I32_STORE16 \<equiv> 0x3B :: nat"
abbreviation (input) "WAH_OP_I64_STORE8 \<equiv> 0x3C :: nat"
abbreviation (input) "WAH_OP_I64_STORE16 \<equiv> 0x3D :: nat"
abbreviation (input) "WAH_OP_I64_STORE32 \<equiv> 0x3E :: nat"
abbreviation (input) "WAH_OP_MEMORY_SIZE \<equiv> 0x3F :: nat"
abbreviation (input) "WAH_OP_MEMORY_GROW \<equiv> 0x40 :: nat"
abbreviation (input) "WAH_OP_MEMORY_INIT \<equiv> 0xFE :: nat"
abbreviation (input) "WAH_OP_DATA_DROP \<equiv> 0xFF :: nat"
abbreviation (input) "WAH_OP_MEMORY_COPY \<equiv> 0x100 :: nat"
abbreviation (input) "WAH_OP_MEMORY_FILL \<equiv> 0x101 :: nat"
abbreviation (input) "WAH_OP_I32_CONST \<equiv> 0x41 :: nat"
abbreviation (input) "WAH_OP_I64_CONST \<equiv> 0x42 :: nat"
abbreviation (input) "WAH_OP_F32_CONST \<equiv> 0x43 :: nat"
abbreviation (input) "WAH_OP_F64_CONST \<equiv> 0x44 :: nat"
abbreviation (input) "WAH_OP_I32_ADD \<equiv> 0x6A :: nat"
abbreviation (input) "WAH_OP_I32_SUB \<equiv> 0x6B :: nat"
abbreviation (input) "WAH_OP_I32_MUL \<equiv> 0x6C :: nat"
abbreviation (input) "WAH_OP_I64_ADD \<equiv> 0x7C :: nat"
abbreviation (input) "WAH_OP_I64_SUB \<equiv> 0x7D :: nat"
abbreviation (input) "WAH_OP_I64_MUL \<equiv> 0x7E :: nat"
abbreviation (input) "WAH_OP_F32_DEMOTE_F64 \<equiv> 0xB6 :: nat"
abbreviation (input) "WAH_OP_F64_PROMOTE_F32 \<equiv> 0xBB :: nat"
abbreviation (input) "WAH_OP_REF_NULL \<equiv> 0xD0 :: nat"
abbreviation (input) "WAH_OP_REF_IS_NULL \<equiv> 0xD1 :: nat"
abbreviation (input) "WAH_OP_REF_FUNC \<equiv> 0xD2 :: nat"
abbreviation (input) "WAH_OP_REF_AS_NON_NULL \<equiv> 0xD4 :: nat"
abbreviation (input) "WAH_OP_BR_ON_NULL \<equiv> 0xD5 :: nat"
abbreviation (input) "WAH_OP_BR_ON_NON_NULL \<equiv> 0xD6 :: nat"
abbreviation (input) "WAH_OP_REF_EQ \<equiv> 0xD3 :: nat"
abbreviation (input) "WAH_OP_STRUCT_NEW \<equiv> 0xD7 :: nat"
abbreviation (input) "WAH_OP_STRUCT_NEW_DEFAULT \<equiv> 0xD8 :: nat"
abbreviation (input) "WAH_OP_STRUCT_GET \<equiv> 0xD9 :: nat"
abbreviation (input) "WAH_OP_STRUCT_GET_S \<equiv> 0xDA :: nat"
abbreviation (input) "WAH_OP_STRUCT_GET_U \<equiv> 0xDB :: nat"
abbreviation (input) "WAH_OP_STRUCT_SET \<equiv> 0xDC :: nat"
abbreviation (input) "WAH_OP_ARRAY_NEW \<equiv> 0xDD :: nat"
abbreviation (input) "WAH_OP_ARRAY_NEW_DEFAULT \<equiv> 0xDE :: nat"
abbreviation (input) "WAH_OP_ARRAY_NEW_FIXED \<equiv> 0xDF :: nat"
abbreviation (input) "WAH_OP_ARRAY_NEW_DATA \<equiv> 0xE0 :: nat"
abbreviation (input) "WAH_OP_ARRAY_NEW_ELEM \<equiv> 0xE1 :: nat"
abbreviation (input) "WAH_OP_ARRAY_GET \<equiv> 0xE2 :: nat"
abbreviation (input) "WAH_OP_ARRAY_GET_S \<equiv> 0xE3 :: nat"
abbreviation (input) "WAH_OP_ARRAY_GET_U \<equiv> 0xE4 :: nat"
abbreviation (input) "WAH_OP_ARRAY_SET \<equiv> 0xE5 :: nat"
abbreviation (input) "WAH_OP_ARRAY_LEN \<equiv> 0xE6 :: nat"
abbreviation (input) "WAH_OP_ARRAY_FILL \<equiv> 0xE7 :: nat"
abbreviation (input) "WAH_OP_ARRAY_COPY \<equiv> 0xE8 :: nat"
abbreviation (input) "WAH_OP_ARRAY_INIT_DATA \<equiv> 0xE9 :: nat"
abbreviation (input) "WAH_OP_ARRAY_INIT_ELEM \<equiv> 0xEA :: nat"
abbreviation (input) "WAH_OP_REF_TEST \<equiv> 0xEB :: nat"
abbreviation (input) "WAH_OP_REF_TEST_NULL \<equiv> 0xEC :: nat"
abbreviation (input) "WAH_OP_REF_CAST \<equiv> 0xED :: nat"
abbreviation (input) "WAH_OP_REF_CAST_NULL \<equiv> 0xEE :: nat"
abbreviation (input) "WAH_OP_BR_ON_CAST \<equiv> 0xEF :: nat"
abbreviation (input) "WAH_OP_BR_ON_CAST_FAIL \<equiv> 0xF0 :: nat"
abbreviation (input) "WAH_OP_ANY_CONVERT_EXTERN \<equiv> 0xF1 :: nat"
abbreviation (input) "WAH_OP_EXTERN_CONVERT_ANY \<equiv> 0xF2 :: nat"
abbreviation (input) "WAH_OP_REF_I31 \<equiv> 0xF3 :: nat"
abbreviation (input) "WAH_OP_I31_GET_S \<equiv> 0xF4 :: nat"
abbreviation (input) "WAH_OP_I31_GET_U \<equiv> 0xF5 :: nat"
abbreviation (input) "WAH_OP_V128_LOAD \<equiv> 0x108 :: nat"
abbreviation (input) "WAH_OP_V128_LOAD8X8_S \<equiv> 0x109 :: nat"
abbreviation (input) "WAH_OP_V128_LOAD8X8_U \<equiv> 0x10A :: nat"
abbreviation (input) "WAH_OP_V128_LOAD16X4_S \<equiv> 0x10B :: nat"
abbreviation (input) "WAH_OP_V128_LOAD16X4_U \<equiv> 0x10C :: nat"
abbreviation (input) "WAH_OP_V128_LOAD32X2_S \<equiv> 0x10D :: nat"
abbreviation (input) "WAH_OP_V128_LOAD32X2_U \<equiv> 0x10E :: nat"
abbreviation (input) "WAH_OP_V128_LOAD8_SPLAT \<equiv> 0x10F :: nat"
abbreviation (input) "WAH_OP_V128_LOAD16_SPLAT \<equiv> 0x110 :: nat"
abbreviation (input) "WAH_OP_V128_LOAD32_SPLAT \<equiv> 0x111 :: nat"
abbreviation (input) "WAH_OP_V128_LOAD64_SPLAT \<equiv> 0x112 :: nat"
abbreviation (input) "WAH_OP_V128_LOAD32_ZERO \<equiv> 0x164 :: nat"
abbreviation (input) "WAH_OP_V128_LOAD64_ZERO \<equiv> 0x165 :: nat"
abbreviation (input) "WAH_OP_V128_LOAD8_LANE \<equiv> 0x15C :: nat"
abbreviation (input) "WAH_OP_V128_LOAD16_LANE \<equiv> 0x15D :: nat"
abbreviation (input) "WAH_OP_V128_LOAD32_LANE \<equiv> 0x15E :: nat"
abbreviation (input) "WAH_OP_V128_LOAD64_LANE \<equiv> 0x15F :: nat"
abbreviation (input) "WAH_OP_V128_STORE8_LANE \<equiv> 0x160 :: nat"
abbreviation (input) "WAH_OP_V128_STORE16_LANE \<equiv> 0x161 :: nat"
abbreviation (input) "WAH_OP_V128_STORE32_LANE \<equiv> 0x162 :: nat"
abbreviation (input) "WAH_OP_V128_STORE64_LANE \<equiv> 0x163 :: nat"
abbreviation (input) "WAH_OP_V128_STORE \<equiv> 0x113 :: nat"
abbreviation (input) "WAH_OP_I8X16_SHUFFLE \<equiv> 0x115 :: nat"
abbreviation (input) "WAH_OP_I8X16_EXTRACT_LANE_S \<equiv> 0x11D :: nat"
abbreviation (input) "WAH_OP_I8X16_EXTRACT_LANE_U \<equiv> 0x11E :: nat"
abbreviation (input) "WAH_OP_I8X16_REPLACE_LANE \<equiv> 0x11F :: nat"
abbreviation (input) "WAH_OP_I16X8_EXTRACT_LANE_S \<equiv> 0x120 :: nat"
abbreviation (input) "WAH_OP_I16X8_EXTRACT_LANE_U \<equiv> 0x121 :: nat"
abbreviation (input) "WAH_OP_I16X8_REPLACE_LANE \<equiv> 0x122 :: nat"
abbreviation (input) "WAH_OP_I32X4_EXTRACT_LANE \<equiv> 0x123 :: nat"
abbreviation (input) "WAH_OP_I32X4_REPLACE_LANE \<equiv> 0x124 :: nat"
abbreviation (input) "WAH_OP_I64X2_EXTRACT_LANE \<equiv> 0x125 :: nat"
abbreviation (input) "WAH_OP_I64X2_REPLACE_LANE \<equiv> 0x126 :: nat"
abbreviation (input) "WAH_OP_F32X4_EXTRACT_LANE \<equiv> 0x127 :: nat"
abbreviation (input) "WAH_OP_F32X4_REPLACE_LANE \<equiv> 0x128 :: nat"
abbreviation (input) "WAH_OP_F64X2_EXTRACT_LANE \<equiv> 0x129 :: nat"
abbreviation (input) "WAH_OP_F64X2_REPLACE_LANE \<equiv> 0x12A :: nat"
abbreviation (input) "WAH_OP_V128_CONST \<equiv> 0x114 :: nat"

section \<open>The listing\<close>

definition WAH_CORE_OPCODES :: "(nat \<times> wah_opclass \<times> nat) list" where
  "WAH_CORE_OPCODES = [
    (0x00, WAH_OPCLASS_OWN, 0), (0x01, WAH_OPCLASS_OWN, 0), (0x02, WAH_OPCLASS_OWN, 0),
    (0x03, WAH_OPCLASS_OWN, 0), (0x04, WAH_OPCLASS_OWN, 0), (0x05, WAH_OPCLASS_OWN, 0),
    (0x0B, WAH_OPCLASS_OWN, 0), (0x0C, WAH_OPCLASS_OWN, 0), (0x0D, WAH_OPCLASS_OWN, 0),
    (0x0E, WAH_OPCLASS_OWN, 0), (0x0F, WAH_OPCLASS_OWN, 0), (0x10, WAH_OPCLASS_I, 0),
    (0x11, WAH_OPCLASS_II, 0), (0x08, WAH_OPCLASS_I, 9), (0x0A, WAH_OPCLASS_OWN, 9),
    (0x12, WAH_OPCLASS_I, 8), (0x13, WAH_OPCLASS_II, 8), (0x14, WAH_OPCLASS_I, 11),
    (0x15, WAH_OPCLASS_I, 11), (0x1F, WAH_OPCLASS_OWN, 9), (0x1A, WAH_OPCLASS_OWN, 0),
    (0x1B, WAH_OPCLASS_OWN, 0), (0x1C, WAH_OPCLASS_OWN, 6), (0x20, WAH_OPCLASS_I, 0),
    (0x21, WAH_OPCLASS_I, 0), (0x22, WAH_OPCLASS_I, 0), (0x23, WAH_OPCLASS_I, 0),
    (0x24, WAH_OPCLASS_I, 0), (0x25, WAH_OPCLASS_I, 6), (0x26, WAH_OPCLASS_I, 6),
    (0x102, WAH_OPCLASS_II, 5), (0x103, WAH_OPCLASS_I, 5), (0x104, WAH_OPCLASS_II, 5),
    (0x105, WAH_OPCLASS_I, 6), (0x106, WAH_OPCLASS_I, 6), (0x107, WAH_OPCLASS_I, 6),
    (0x28, WAH_OPCLASS_M, 0), (0x29, WAH_OPCLASS_M, 0), (0x2A, WAH_OPCLASS_M, 0),
    (0x2B, WAH_OPCLASS_M, 0), (0x2C, WAH_OPCLASS_M, 0), (0x2D, WAH_OPCLASS_M, 0),
    (0x2E, WAH_OPCLASS_M, 0), (0x2F, WAH_OPCLASS_M, 0), (0x30, WAH_OPCLASS_M, 0),
    (0x31, WAH_OPCLASS_M, 0), (0x32, WAH_OPCLASS_M, 0), (0x33, WAH_OPCLASS_M, 0),
    (0x34, WAH_OPCLASS_M, 0), (0x35, WAH_OPCLASS_M, 0), (0x36, WAH_OPCLASS_M, 0),
    (0x37, WAH_OPCLASS_M, 0), (0x38, WAH_OPCLASS_M, 0), (0x39, WAH_OPCLASS_M, 0),
    (0x3A, WAH_OPCLASS_M, 0), (0x3B, WAH_OPCLASS_M, 0), (0x3C, WAH_OPCLASS_M, 0),
    (0x3D, WAH_OPCLASS_M, 0), (0x3E, WAH_OPCLASS_M, 0), (0x3F, WAH_OPCLASS_I, 0),
    (0x40, WAH_OPCLASS_I, 0), (0xFE, WAH_OPCLASS_II, 5), (0xFF, WAH_OPCLASS_I, 5),
    (0x100, WAH_OPCLASS_II, 5), (0x101, WAH_OPCLASS_I, 5), (0x41, WAH_OPCLASS_OWN, 0),
    (0x42, WAH_OPCLASS_OWN, 0), (0x43, WAH_OPCLASS_OWN, 0), (0x44, WAH_OPCLASS_OWN, 0),
    (0x45, WAH_OPCLASS__I_I, 0), (0x46, WAH_OPCLASS__II_I, 0), (0x47, WAH_OPCLASS__II_I, 0),
    (0x48, WAH_OPCLASS__II_I, 0), (0x49, WAH_OPCLASS__II_I, 0), (0x4A, WAH_OPCLASS__II_I, 0),
    (0x4B, WAH_OPCLASS__II_I, 0), (0x4C, WAH_OPCLASS__II_I, 0), (0x4D, WAH_OPCLASS__II_I, 0),
    (0x4E, WAH_OPCLASS__II_I, 0), (0x4F, WAH_OPCLASS__II_I, 0), (0x50, WAH_OPCLASS__L_I, 0),
    (0x51, WAH_OPCLASS__LL_I, 0), (0x52, WAH_OPCLASS__LL_I, 0), (0x53, WAH_OPCLASS__LL_I, 0),
    (0x54, WAH_OPCLASS__LL_I, 0), (0x55, WAH_OPCLASS__LL_I, 0), (0x56, WAH_OPCLASS__LL_I, 0),
    (0x57, WAH_OPCLASS__LL_I, 0), (0x58, WAH_OPCLASS__LL_I, 0), (0x59, WAH_OPCLASS__LL_I, 0),
    (0x5A, WAH_OPCLASS__LL_I, 0), (0x5B, WAH_OPCLASS__FF_I, 0), (0x5C, WAH_OPCLASS__FF_I, 0),
    (0x5D, WAH_OPCLASS__FF_I, 0), (0x5E, WAH_OPCLASS__FF_I, 0), (0x5F, WAH_OPCLASS__FF_I, 0),
    (0x60, WAH_OPCLASS__FF_I, 0), (0x61, WAH_OPCLASS__DD_I, 0), (0x62, WAH_OPCLASS__DD_I, 0),
    (0x63, WAH_OPCLASS__DD_I, 0), (0x64, WAH_OPCLASS__DD_I, 0), (0x65, WAH_OPCLASS__DD_I, 0),
    (0x66, WAH_OPCLASS__DD_I, 0), (0x67, WAH_OPCLASS__I_I, 0), (0x68, WAH_OPCLASS__I_I, 0),
    (0x69, WAH_OPCLASS__I_I, 0), (0x6A, WAH_OPCLASS__II_I, 0), (0x6B, WAH_OPCLASS__II_I, 0),
    (0x6C, WAH_OPCLASS__II_I, 0), (0x6D, WAH_OPCLASS__II_I, 0), (0x6E, WAH_OPCLASS__II_I, 0),
    (0x6F, WAH_OPCLASS__II_I, 0), (0x70, WAH_OPCLASS__II_I, 0), (0x71, WAH_OPCLASS__II_I, 0),
    (0x72, WAH_OPCLASS__II_I, 0), (0x73, WAH_OPCLASS__II_I, 0), (0x74, WAH_OPCLASS__II_I, 0),
    (0x75, WAH_OPCLASS__II_I, 0), (0x76, WAH_OPCLASS__II_I, 0), (0x77, WAH_OPCLASS__II_I, 0),
    (0x78, WAH_OPCLASS__II_I, 0), (0x79, WAH_OPCLASS__L_L, 0), (0x7A, WAH_OPCLASS__L_L, 0),
    (0x7B, WAH_OPCLASS__L_L, 0), (0x7C, WAH_OPCLASS__LL_L, 0), (0x7D, WAH_OPCLASS__LL_L, 0),
    (0x7E, WAH_OPCLASS__LL_L, 0), (0x7F, WAH_OPCLASS__LL_L, 0), (0x80, WAH_OPCLASS__LL_L, 0),
    (0x81, WAH_OPCLASS__LL_L, 0), (0x82, WAH_OPCLASS__LL_L, 0), (0x83, WAH_OPCLASS__LL_L, 0),
    (0x84, WAH_OPCLASS__LL_L, 0), (0x85, WAH_OPCLASS__LL_L, 0), (0x86, WAH_OPCLASS__LL_L, 0),
    (0x87, WAH_OPCLASS__LL_L, 0), (0x88, WAH_OPCLASS__LL_L, 0), (0x89, WAH_OPCLASS__LL_L, 0),
    (0x8A, WAH_OPCLASS__LL_L, 0), (0x8B, WAH_OPCLASS__F_F, 0), (0x8C, WAH_OPCLASS__F_F, 0),
    (0x8D, WAH_OPCLASS__F_F, 0), (0x8E, WAH_OPCLASS__F_F, 0), (0x8F, WAH_OPCLASS__F_F, 0),
    (0x90, WAH_OPCLASS__F_F, 0), (0x91, WAH_OPCLASS__F_F, 0), (0x92, WAH_OPCLASS__FF_F, 0),
    (0x93, WAH_OPCLASS__FF_F, 0), (0x94, WAH_OPCLASS__FF_F, 0), (0x95, WAH_OPCLASS__FF_F, 0),
    (0x96, WAH_OPCLASS__FF_F, 0), (0x97, WAH_OPCLASS__FF_F, 0), (0x98, WAH_OPCLASS__FF_F, 0),
    (0x99, WAH_OPCLASS__D_D, 0), (0x9A, WAH_OPCLASS__D_D, 0), (0x9B, WAH_OPCLASS__D_D, 0),
    (0x9C, WAH_OPCLASS__D_D, 0), (0x9D, WAH_OPCLASS__D_D, 0), (0x9E, WAH_OPCLASS__D_D, 0),
    (0x9F, WAH_OPCLASS__D_D, 0), (0xA0, WAH_OPCLASS__DD_D, 0), (0xA1, WAH_OPCLASS__DD_D, 0),
    (0xA2, WAH_OPCLASS__DD_D, 0), (0xA3, WAH_OPCLASS__DD_D, 0), (0xA4, WAH_OPCLASS__DD_D, 0),
    (0xA5, WAH_OPCLASS__DD_D, 0), (0xA6, WAH_OPCLASS__DD_D, 0), (0xA7, WAH_OPCLASS__L_I, 0),
    (0xA8, WAH_OPCLASS__F_I, 0), (0xA9, WAH_OPCLASS__F_I, 0), (0xAA, WAH_OPCLASS__D_I, 0),
    (0xAB, WAH_OPCLASS__D_I, 0), (0xAC, WAH_OPCLASS__I_L, 0), (0xAD, WAH_OPCLASS__I_L, 0),
    (0xAE, WAH_OPCLASS__F_L, 0), (0xAF, WAH_OPCLASS__F_L, 0), (0xB0, WAH_OPCLASS__D_L, 0),
    (0xB1, WAH_OPCLASS__D_L, 0), (0xB2, WAH_OPCLASS__I_F, 0), (0xB3, WAH_OPCLASS__I_F, 0),
    (0xB4, WAH_OPCLASS__L_F, 0), (0xB5, WAH_OPCLASS__L_F, 0), (0xB6, WAH_OPCLASS_OWN, 0),
    (0xB7, WAH_OPCLASS__I_D, 0), (0xB8, WAH_OPCLASS__I_D, 0), (0xB9, WAH_OPCLASS__L_D, 0),
    (0xBA, WAH_OPCLASS__L_D, 0), (0xBB, WAH_OPCLASS_OWN, 0), (0xBC, WAH_OPCLASS__F_I, 0),
    (0xBD, WAH_OPCLASS__D_L, 0), (0xBE, WAH_OPCLASS__I_F, 0), (0xBF, WAH_OPCLASS__L_D, 0),
    (0xC0, WAH_OPCLASS__I_I, 3), (0xC1, WAH_OPCLASS__I_I, 3), (0xC2, WAH_OPCLASS__L_L, 3),
    (0xC3, WAH_OPCLASS__L_L, 3), (0xC4, WAH_OPCLASS__L_L, 3), (0xF6, WAH_OPCLASS__F_I, 4),
    (0xF7, WAH_OPCLASS__F_I, 4), (0xF8, WAH_OPCLASS__D_I, 4), (0xF9, WAH_OPCLASS__D_I, 4),
    (0xFA, WAH_OPCLASS__F_L, 4), (0xFB, WAH_OPCLASS__F_L, 4), (0xFC, WAH_OPCLASS__D_L, 4),
    (0xFD, WAH_OPCLASS__D_L, 4), (0xD0, WAH_OPCLASS_OWN, 6), (0xD1, WAH_OPCLASS_OWN, 6),
    (0xD2, WAH_OPCLASS_OWN, 6), (0xD4, WAH_OPCLASS_OWN, 11), (0xD5, WAH_OPCLASS_OWN, 11),
    (0xD6, WAH_OPCLASS_OWN, 11)]"

definition WAH_GC_OPCODES :: "(nat \<times> wah_opclass \<times> nat) list" where
  "WAH_GC_OPCODES = [
    (0xD3, WAH_OPCLASS_OWN, 10), (0xD7, WAH_OPCLASS_OWN, 10), (0xD8, WAH_OPCLASS_OWN, 10),
    (0xD9, WAH_OPCLASS_OWN, 10), (0xDA, WAH_OPCLASS_OWN, 10), (0xDB, WAH_OPCLASS_OWN, 10),
    (0xDC, WAH_OPCLASS_OWN, 10), (0xDD, WAH_OPCLASS_OWN, 10), (0xDE, WAH_OPCLASS_OWN, 10),
    (0xDF, WAH_OPCLASS_OWN, 10), (0xE0, WAH_OPCLASS_II, 10), (0xE1, WAH_OPCLASS_II, 10),
    (0xE2, WAH_OPCLASS_OWN, 10), (0xE3, WAH_OPCLASS_OWN, 10), (0xE4, WAH_OPCLASS_OWN, 10),
    (0xE5, WAH_OPCLASS_OWN, 10), (0xE6, WAH_OPCLASS_OWN, 10), (0xE7, WAH_OPCLASS_I, 10),
    (0xE8, WAH_OPCLASS_OWN, 10), (0xE9, WAH_OPCLASS_II, 10), (0xEA, WAH_OPCLASS_OWN, 10),
    (0xEB, WAH_OPCLASS_OWN, 10), (0xEC, WAH_OPCLASS_OWN, 10), (0xED, WAH_OPCLASS_OWN, 10),
    (0xEE, WAH_OPCLASS_OWN, 10), (0xEF, WAH_OPCLASS_OWN, 10), (0xF0, WAH_OPCLASS_OWN, 10),
    (0xF1, WAH_OPCLASS_OWN, 10), (0xF2, WAH_OPCLASS_OWN, 10), (0xF3, WAH_OPCLASS_OWN, 10),
    (0xF4, WAH_OPCLASS_OWN, 10), (0xF5, WAH_OPCLASS_OWN, 10)]"

definition WAH_SIMD_OPCODES :: "(nat \<times> wah_opclass \<times> nat) list" where
  "WAH_SIMD_OPCODES = [
    (0x108, WAH_OPCLASS_M, 7), (0x109, WAH_OPCLASS_M, 7), (0x10A, WAH_OPCLASS_M, 7),
    (0x10B, WAH_OPCLASS_M, 7), (0x10C, WAH_OPCLASS_M, 7), (0x10D, WAH_OPCLASS_M, 7),
    (0x10E, WAH_OPCLASS_M, 7), (0x10F, WAH_OPCLASS_M, 7), (0x110, WAH_OPCLASS_M, 7),
    (0x111, WAH_OPCLASS_M, 7), (0x112, WAH_OPCLASS_M, 7), (0x164, WAH_OPCLASS_M, 7),
    (0x165, WAH_OPCLASS_M, 7), (0x15C, WAH_OPCLASS_MB, 7), (0x15D, WAH_OPCLASS_MB, 7),
    (0x15E, WAH_OPCLASS_MB, 7), (0x15F, WAH_OPCLASS_MB, 7), (0x160, WAH_OPCLASS_MB, 7),
    (0x161, WAH_OPCLASS_MB, 7), (0x162, WAH_OPCLASS_MB, 7), (0x163, WAH_OPCLASS_MB, 7),
    (0x113, WAH_OPCLASS_M, 7), (0x115, WAH_OPCLASS_OWN, 7), (0x116, WAH_OPCLASS__VV_V, 7),
    (0x11D, WAH_OPCLASS_B, 7), (0x11E, WAH_OPCLASS_B, 7), (0x11F, WAH_OPCLASS_B, 7),
    (0x120, WAH_OPCLASS_B, 7), (0x121, WAH_OPCLASS_B, 7), (0x122, WAH_OPCLASS_B, 7),
    (0x123, WAH_OPCLASS_B, 7), (0x124, WAH_OPCLASS_B, 7), (0x125, WAH_OPCLASS_B, 7),
    (0x126, WAH_OPCLASS_B, 7), (0x127, WAH_OPCLASS_B, 7), (0x128, WAH_OPCLASS_B, 7),
    (0x129, WAH_OPCLASS_B, 7), (0x12A, WAH_OPCLASS_B, 7), (0x117, WAH_OPCLASS__I_V, 7),
    (0x118, WAH_OPCLASS__I_V, 7), (0x119, WAH_OPCLASS__I_V, 7), (0x11A, WAH_OPCLASS__L_V, 7),
    (0x11B, WAH_OPCLASS__F_V, 7), (0x11C, WAH_OPCLASS__D_V, 7), (0x114, WAH_OPCLASS_OWN, 7),
    (0x155, WAH_OPCLASS__V_V, 7), (0x156, WAH_OPCLASS__VV_V, 7), (0x157, WAH_OPCLASS__VV_V, 7),
    (0x158, WAH_OPCLASS__VV_V, 7), (0x159, WAH_OPCLASS__VV_V, 7), (0x15A, WAH_OPCLASS__VVV_V, 7),
    (0x15B, WAH_OPCLASS__V_I, 7), (0x168, WAH_OPCLASS__V_V, 7), (0x169, WAH_OPCLASS__V_V, 7),
    (0x16A, WAH_OPCLASS__V_V, 7), (0x16B, WAH_OPCLASS__V_I, 7), (0x16C, WAH_OPCLASS__V_I, 7),
    (0x16D, WAH_OPCLASS__VV_V, 7), (0x16E, WAH_OPCLASS__VV_V, 7), (0x173, WAH_OPCLASS__VI_V, 7),
    (0x174, WAH_OPCLASS__VI_V, 7), (0x175, WAH_OPCLASS__VI_V, 7), (0x176, WAH_OPCLASS__VV_V, 7),
    (0x177, WAH_OPCLASS__VV_V, 7), (0x178, WAH_OPCLASS__VV_V, 7), (0x179, WAH_OPCLASS__VV_V, 7),
    (0x17A, WAH_OPCLASS__VV_V, 7), (0x17B, WAH_OPCLASS__VV_V, 7), (0x17E, WAH_OPCLASS__VV_V, 7),
    (0x17F, WAH_OPCLASS__VV_V, 7), (0x180, WAH_OPCLASS__VV_V, 7), (0x181, WAH_OPCLASS__VV_V, 7),
    (0x183, WAH_OPCLASS__VV_V, 7), (0x184, WAH_OPCLASS__V_V, 7), (0x185, WAH_OPCLASS__V_V, 7),
    (0x188, WAH_OPCLASS__V_V, 7), (0x189, WAH_OPCLASS__V_V, 7), (0x18A, WAH_OPCLASS__VV_V, 7),
    (0x18B, WAH_OPCLASS__V_I, 7), (0x18C, WAH_OPCLASS__V_I, 7), (0x18D, WAH_OPCLASS__VV_V, 7),
    (0x18E, WAH_OPCLASS__VV_V, 7), (0x18F, WAH_OPCLASS__V_V, 7), (0x190, WAH_OPCLASS__V_V, 7),
    (0x191, WAH_OPCLASS__V_V, 7), (0x192, WAH_OPCLASS__V_V, 7), (0x193, WAH_OPCLASS__VI_V, 7),
    (0x194, WAH_OPCLASS__VI_V, 7), (0x195, WAH_OPCLASS__VI_V, 7), (0x196, WAH_OPCLASS__VV_V, 7),
    (0x197, WAH_OPCLASS__VV_V, 7), (0x198, WAH_OPCLASS__VV_V, 7), (0x199, WAH_OPCLASS__VV_V, 7),
    (0x19A, WAH_OPCLASS__VV_V, 7), (0x19B, WAH_OPCLASS__VV_V, 7), (0x19D, WAH_OPCLASS__VV_V, 7),
    (0x19E, WAH_OPCLASS__VV_V, 7), (0x19F, WAH_OPCLASS__VV_V, 7), (0x1A0, WAH_OPCLASS__VV_V, 7),
    (0x1A1, WAH_OPCLASS__VV_V, 7), (0x1A3, WAH_OPCLASS__VV_V, 7), (0x1A4, WAH_OPCLASS__VV_V, 7),
    (0x1A5, WAH_OPCLASS__VV_V, 7), (0x1A6, WAH_OPCLASS__VV_V, 7), (0x1A7, WAH_OPCLASS__VV_V, 7),
    (0x186, WAH_OPCLASS__V_V, 7), (0x187, WAH_OPCLASS__V_V, 7), (0x1A8, WAH_OPCLASS__V_V, 7),
    (0x1A9, WAH_OPCLASS__V_V, 7), (0x1AB, WAH_OPCLASS__V_I, 7), (0x1AC, WAH_OPCLASS__V_I, 7),
    (0x1AF, WAH_OPCLASS__V_V, 7), (0x1B0, WAH_OPCLASS__V_V, 7), (0x1B1, WAH_OPCLASS__V_V, 7),
    (0x1B2, WAH_OPCLASS__V_V, 7), (0x1B3, WAH_OPCLASS__VI_V, 7), (0x1B4, WAH_OPCLASS__VI_V, 7),
    (0x1B5, WAH_OPCLASS__VI_V, 7), (0x1B6, WAH_OPCLASS__VV_V, 7), (0x1B9, WAH_OPCLASS__VV_V, 7),
    (0x1BD, WAH_OPCLASS__VV_V, 7), (0x1BE, WAH_OPCLASS__VV_V, 7), (0x1BF, WAH_OPCLASS__VV_V, 7),
    (0x1C0, WAH_OPCLASS__VV_V, 7), (0x1C1, WAH_OPCLASS__VV_V, 7), (0x1C2, WAH_OPCLASS__VV_V, 7),
    (0x1C4, WAH_OPCLASS__VV_V, 7), (0x1C5, WAH_OPCLASS__VV_V, 7), (0x1C6, WAH_OPCLASS__VV_V, 7),
    (0x1C7, WAH_OPCLASS__VV_V, 7), (0x1C8, WAH_OPCLASS__V_V, 7), (0x1C9, WAH_OPCLASS__V_V, 7),
    (0x1CB, WAH_OPCLASS__V_I, 7), (0x1CC, WAH_OPCLASS__V_I, 7), (0x1CF, WAH_OPCLASS__V_V, 7),
    (0x1D0, WAH_OPCLASS__V_V, 7), (0x1D1, WAH_OPCLASS__V_V, 7), (0x1D2, WAH_OPCLASS__V_V, 7),
    (0x1D3, WAH_OPCLASS__VI_V, 7), (0x1D4, WAH_OPCLASS__VI_V, 7), (0x1D5, WAH_OPCLASS__VI_V, 7),
    (0x1D6, WAH_OPCLASS__VV_V, 7), (0x1D9, WAH_OPCLASS__VV_V, 7), (0x1DD, WAH_OPCLASS__VV_V, 7),
    (0x1E4, WAH_OPCLASS__VV_V, 7), (0x1E5, WAH_OPCLASS__VV_V, 7), (0x1E6, WAH_OPCLASS__VV_V, 7),
    (0x1E7, WAH_OPCLASS__VV_V, 7), (0x16F, WAH_OPCLASS__V_V, 7), (0x170, WAH_OPCLASS__V_V, 7),
    (0x171, WAH_OPCLASS__V_V, 7), (0x172, WAH_OPCLASS__V_V, 7), (0x1E8, WAH_OPCLASS__V_V, 7),
    (0x1E9, WAH_OPCLASS__V_V, 7), (0x1EB, WAH_OPCLASS__V_V, 7), (0x1EC, WAH_OPCLASS__VV_V, 7),
    (0x1ED, WAH_OPCLASS__VV_V, 7), (0x1EE, WAH_OPCLASS__VV_V, 7), (0x1EF, WAH_OPCLASS__VV_V, 7),
    (0x1F0, WAH_OPCLASS__VV_V, 7), (0x1F1, WAH_OPCLASS__VV_V, 7), (0x1F2, WAH_OPCLASS__VV_V, 7),
    (0x1F3, WAH_OPCLASS__VV_V, 7), (0x17C, WAH_OPCLASS__V_V, 7), (0x17D, WAH_OPCLASS__V_V, 7),
    (0x182, WAH_OPCLASS__V_V, 7), (0x19C, WAH_OPCLASS__V_V, 7), (0x1F4, WAH_OPCLASS__V_V, 7),
    (0x1F5, WAH_OPCLASS__V_V, 7), (0x1F7, WAH_OPCLASS__V_V, 7), (0x1F8, WAH_OPCLASS__VV_V, 7),
    (0x1F9, WAH_OPCLASS__VV_V, 7), (0x1FA, WAH_OPCLASS__VV_V, 7), (0x1FB, WAH_OPCLASS__VV_V, 7),
    (0x1FC, WAH_OPCLASS__VV_V, 7), (0x1FD, WAH_OPCLASS__VV_V, 7), (0x1FE, WAH_OPCLASS__VV_V, 7),
    (0x1FF, WAH_OPCLASS__VV_V, 7), (0x200, WAH_OPCLASS__V_V, 7), (0x201, WAH_OPCLASS__V_V, 7),
    (0x202, WAH_OPCLASS__V_V, 7), (0x203, WAH_OPCLASS__V_V, 7), (0x204, WAH_OPCLASS__V_V, 7),
    (0x205, WAH_OPCLASS__V_V, 7), (0x206, WAH_OPCLASS__V_V, 7), (0x207, WAH_OPCLASS__V_V, 7),
    (0x166, WAH_OPCLASS__V_V, 7), (0x167, WAH_OPCLASS__V_V, 7), (0x208, WAH_OPCLASS__VV_V, 13),
    (0x209, WAH_OPCLASS__V_V, 13), (0x20A, WAH_OPCLASS__V_V, 13), (0x20B, WAH_OPCLASS__V_V, 13),
    (0x20C, WAH_OPCLASS__V_V, 13), (0x20D, WAH_OPCLASS__VVV_V, 13), (0x20E, WAH_OPCLASS__VVV_V, 13),
    (0x20F, WAH_OPCLASS__VVV_V, 13), (0x210, WAH_OPCLASS__VVV_V, 13), (0x211, WAH_OPCLASS__VVV_V, 13),
    (0x212, WAH_OPCLASS__VVV_V, 13), (0x213, WAH_OPCLASS__VVV_V, 13), (0x214, WAH_OPCLASS__VVV_V, 13),
    (0x215, WAH_OPCLASS__VV_V, 13), (0x216, WAH_OPCLASS__VV_V, 13), (0x217, WAH_OPCLASS__VV_V, 13),
    (0x218, WAH_OPCLASS__VV_V, 13), (0x219, WAH_OPCLASS__VV_V, 13), (0x21A, WAH_OPCLASS__VV_V, 13),
    (0x21B, WAH_OPCLASS__VVV_V, 13), (0x12B, WAH_OPCLASS__VV_V, 7), (0x12C, WAH_OPCLASS__VV_V, 7),
    (0x12D, WAH_OPCLASS__VV_V, 7), (0x12E, WAH_OPCLASS__VV_V, 7), (0x12F, WAH_OPCLASS__VV_V, 7),
    (0x130, WAH_OPCLASS__VV_V, 7), (0x131, WAH_OPCLASS__VV_V, 7), (0x132, WAH_OPCLASS__VV_V, 7),
    (0x133, WAH_OPCLASS__VV_V, 7), (0x134, WAH_OPCLASS__VV_V, 7), (0x135, WAH_OPCLASS__VV_V, 7),
    (0x136, WAH_OPCLASS__VV_V, 7), (0x137, WAH_OPCLASS__VV_V, 7), (0x138, WAH_OPCLASS__VV_V, 7),
    (0x139, WAH_OPCLASS__VV_V, 7), (0x13A, WAH_OPCLASS__VV_V, 7), (0x13B, WAH_OPCLASS__VV_V, 7),
    (0x13C, WAH_OPCLASS__VV_V, 7), (0x13D, WAH_OPCLASS__VV_V, 7), (0x13E, WAH_OPCLASS__VV_V, 7),
    (0x13F, WAH_OPCLASS__VV_V, 7), (0x140, WAH_OPCLASS__VV_V, 7), (0x141, WAH_OPCLASS__VV_V, 7),
    (0x142, WAH_OPCLASS__VV_V, 7), (0x143, WAH_OPCLASS__VV_V, 7), (0x144, WAH_OPCLASS__VV_V, 7),
    (0x145, WAH_OPCLASS__VV_V, 7), (0x146, WAH_OPCLASS__VV_V, 7), (0x147, WAH_OPCLASS__VV_V, 7),
    (0x148, WAH_OPCLASS__VV_V, 7), (0x1DE, WAH_OPCLASS__VV_V, 7), (0x1DF, WAH_OPCLASS__VV_V, 7),
    (0x1E0, WAH_OPCLASS__VV_V, 7), (0x1E1, WAH_OPCLASS__VV_V, 7), (0x1E2, WAH_OPCLASS__VV_V, 7),
    (0x1E3, WAH_OPCLASS__VV_V, 7), (0x149, WAH_OPCLASS__VV_V, 7), (0x14A, WAH_OPCLASS__VV_V, 7),
    (0x14B, WAH_OPCLASS__VV_V, 7), (0x14C, WAH_OPCLASS__VV_V, 7), (0x14D, WAH_OPCLASS__VV_V, 7),
    (0x14E, WAH_OPCLASS__VV_V, 7), (0x14F, WAH_OPCLASS__VV_V, 7), (0x150, WAH_OPCLASS__VV_V, 7),
    (0x151, WAH_OPCLASS__VV_V, 7), (0x152, WAH_OPCLASS__VV_V, 7), (0x153, WAH_OPCLASS__VV_V, 7),
    (0x154, WAH_OPCLASS__VV_V, 7)]"

definition WAH_OPCODES :: "(nat \<times> wah_opclass \<times> nat) list" where
  "WAH_OPCODES = WAH_CORE_OPCODES @ WAH_GC_OPCODES @ WAH_SIMD_OPCODES"

text \<open>An index without an initializer is zero: the missing class, no feature.\<close>

definition wah_opclasses :: "nat \<Rightarrow> wah_opclass" where
  "wah_opclasses opc = (case map_of WAH_OPCODES opc of None \<Rightarrow> WAH_OPCLASS_MISSING | Some (cls, feat) \<Rightarrow> cls)"

definition wah_opcode_features :: "nat \<Rightarrow> nat" where
  "wah_opcode_features opc = (case map_of WAH_OPCODES opc of None \<Rightarrow> 0 | Some (cls, feat) \<Rightarrow> feat)"

end
