(* ===== verification/Wah_Validate.thy ===== *)
theory Wah_Validate
  imports Wah_Types Wah_Opcodes
begin

text \<open>
  The validator: the state it threads through a body (\<open>wah_validation_context_t\<close>), the operations on the type
  and control stacks, and \<open>wah_validate_opcode\<close>, one definition per group of opcodes. An operation of the
  validator is a function of the state that fails with an error or returns a value and the next state; the
  combinators below sequence such functions the way the macros \<open>POP\<close>, \<open>PUSH\<close> and \<open>EMIT_INSTR_EX\<close> do. The
  bytes between \<open>*code_ptr\<close> and \<open>code_end\<close> are part of the state.
\<close>

unbundle bit_operations_syntax

section \<open>Analyzed code\<close>

record wah_br_table_imm =
  bt_target_count :: nat
  bt_record_cap :: nat
  bt_symbols :: "nat list"
  bt_drops :: "nat list"
  bt_keep :: nat
  bt_words :: "u32 list"

record wah_catch =
  ca_kind :: nat
  ca_tag_idx :: nat
  ca_target_symbol :: nat
  ca_drop :: nat

datatype wah_imm =
    IMM_none
  | IMM_u32 nat
  | IMM_i32 int
  | IMM_i64 int
  | IMM_f32_bits u32
  | IMM_f64_bits u64
  | IMM_v128 bytes
  | IMM_u32_u32 nat nat
  | IMM_memarg wah_memarg
  | IMM_memarg_lane wah_memarg u8
  | IMM_branch nat nat nat nat
  | IMM_br_table wah_br_table_imm
  | IMM_ref_cast wah_type
  | IMM_br_on_cast u8 nat wah_type wah_type wah_type nat nat
  | IMM_type_field nat nat
  | IMM_block nat wah_type
  | IMM_type_length nat nat
  | IMM_try_table nat wah_type "wah_catch list"

abbreviation (input) "WAH_INSTR_FLAG_POLL \<equiv> 1 :: nat"
abbreviation (input) "WAH_INSTR_FLAG_UNREACHABLE \<equiv> 2 :: nat"

record wah_decoded_instr =
  di_opcode :: nat
  di_flags :: nat
  di_ref_map :: nat
  di_imm :: wah_imm

section \<open>The validation context\<close>

datatype wah_analyze_mode = WAH_ANALYZE_FUNC_BODY | WAH_ANALYZE_CONST_EXPR

abbreviation (input) "WAH_MAX_CONTROL_DEPTH \<equiv> 256 :: nat"
abbreviation (input) "WAH_MAX_LOCAL_COUNT \<equiv> 65536 :: nat"

text \<open>\<open>block_type\<close> is the pair of its parameter and result types.\<close>

record wah_validation_control_frame =
  cf_opcode :: nat
  cf_type_stack_sp :: nat
  cf_param_types :: "wah_type list"
  cf_result_types :: "wah_type list"
  cf_single_result :: wah_type
  cf_block_type_idx :: nat
  cf_else_found :: bool
  cf_is_unreachable :: bool
  cf_stack_height :: nat
  cf_local_init_undo_base :: nat

text \<open>The undo list has the latest entry first; \<open>undo_len\<close> is its length.\<close>

record wah_local_inits =
  li_inits :: "bool list"
  li_undo :: "nat list"

record wah_br_table_labels =
  bl_stamps :: "u32 list"
  bl_records :: "u16 list"
  bl_serial :: u32

text \<open>
  The stacks have their top first: \<open>vc_stack\<close> holds the \<open>sp\<close> valid entries of \<open>type_stack.data\<close>, \<open>vc_control\<close>
  the \<open>control_sp\<close> valid frames, so that label \<open>l\<close> is the frame \<open>vc_control ! l\<close>. \<open>vc_func_type\<close> is not read in
  constant expressions, where the pointer is \<open>NULL\<close>. \<open>vc_locals\<close> are the local runs of the code body,
  \<open>vc_instrs\<close> the instructions of the analyzed code.
\<close>

record wah_validation_context =
  vc_mode :: wah_analyze_mode
  vc_stack :: "wah_type list"
  vc_lwm :: nat
  vc_func_type :: wah_func_type
  vc_module :: wah_module
  vc_total_locals :: nat
  vc_depth :: nat
  vc_max_depth :: nat
  vc_unreachable :: bool
  vc_max_global_idx :: nat
  vc_control :: "wah_validation_control_frame list"
  vc_local_inits :: "wah_local_inits option"
  vc_labels :: "wah_br_table_labels option"
  vc_locals :: "wah_local_run list"
  vc_instrs :: "wah_decoded_instr list"
  vc_code :: bytes

section \<open>Sequencing\<close>

type_synonym 'a vm = "wah_validation_context \<Rightarrow> ('a \<times> wah_validation_context) res"

definition v_ret :: "'a \<Rightarrow> 'a vm" where
  "v_ret x = (\<lambda>v. Inr (x, v))"

definition v_bind :: "'a vm \<Rightarrow> ('a \<Rightarrow> 'b vm) \<Rightarrow> 'b vm" where
  "v_bind m k = (\<lambda>v. WAH_CHECK (m v) (\<lambda>(x, v'). k x v'))"

primrec v_seq :: "unit vm list \<Rightarrow> unit vm" where
  "v_seq [] = v_ret ()"
| "v_seq (m # ms) = v_bind m (\<lambda>_. v_seq ms)"

definition v_fail :: "wah_error \<Rightarrow> 'a vm" where
  "v_fail e = (\<lambda>v. Inl e)"

definition v_ensure :: "bool \<Rightarrow> wah_error \<Rightarrow> unit vm" where
  "v_ensure c e = (if c then v_ret () else v_fail e)"

abbreviation "v_valid c \<equiv> v_ensure c WAH_ERROR_VALIDATION_FAILED"

definition v_get :: "(wah_validation_context \<Rightarrow> 'a) \<Rightarrow> 'a vm" where
  "v_get f = (\<lambda>v. Inr (f v, v))"

definition v_modify :: "(wah_validation_context \<Rightarrow> wah_validation_context) \<Rightarrow> unit vm" where
  "v_modify f = (\<lambda>v. Inr ((), f v))"

abbreviation "v_module f \<equiv> v_get (\<lambda>v. f (vc_module v))"

text \<open>Decoders read from the code; some of them record features in the module.\<close>

definition v_dec :: "(bytes \<Rightarrow> ('a \<times> bytes) res) \<Rightarrow> 'a vm" where
  "v_dec d = (\<lambda>v. WAH_CHECK (d (vc_code v)) (\<lambda>(x, bs). Inr (x, v\<lparr>vc_code := bs\<rparr>)))"

definition v_dec_mod :: "(wah_module \<Rightarrow> bytes \<Rightarrow> ('a \<times> wah_module \<times> bytes) res) \<Rightarrow> 'a vm" where
  "v_dec_mod d = (\<lambda>v. WAH_CHECK (d (vc_module v) (vc_code v)) (\<lambda>(x, m, bs). Inr (x, v\<lparr>vc_module := m, vc_code := bs\<rparr>)))"

definition v_mod :: "(wah_module \<Rightarrow> wah_module res) \<Rightarrow> unit vm" where
  "v_mod f = (\<lambda>v. WAH_CHECK (f (vc_module v)) (\<lambda>m. Inr ((), v\<lparr>vc_module := m\<rparr>)))"

abbreviation "v_require k \<equiv> v_mod (\<lambda>m. wah_require_feature m k)"
abbreviation "v_require_type t \<equiv> v_mod (\<lambda>m. wah_require_type_features m t)"

definition v_u32 :: "nat vm" where
  "v_u32 = v_dec (\<lambda>bs. WAH_CHECK (wah_decode_uleb128 bs) (\<lambda>(x, bs). Inr (unat x, bs)))"

abbreviation "v_byte \<equiv> v_dec read_byte"

definition take_bytes :: "nat \<Rightarrow> bytes \<Rightarrow> (bytes \<times> bytes) res" where
  "take_bytes n bs = WAH_ENSURE (length bs \<ge> n) WAH_ERROR_UNEXPECTED_EOF (Inr (take n bs, drop n bs))"

section \<open>The type stack\<close>

definition wah_type_stack_push :: "wah_type \<Rightarrow> unit vm" where
  "wah_type_stack_push t = (\<lambda>v. WAH_ENSURE (length (vc_stack v) < WAH_MAX_TYPE_STACK_SIZE) WAH_ERROR_TOO_LARGE
     (Inr ((), v\<lparr>vc_stack := t # vc_stack v\<rparr>)))"

definition wah_type_stack_pop :: "wah_type vm" where
  "wah_type_stack_pop = (\<lambda>v. case vc_stack v of [] \<Rightarrow> Inl WAH_ERROR_VALIDATION_FAILED
     | t # ts \<Rightarrow> Inr (t, v\<lparr>vc_stack := ts, vc_lwm := min (vc_lwm v) (length ts)\<rparr>))"

definition wah_type_stack_truncate :: "nat \<Rightarrow> wah_validation_context \<Rightarrow> wah_validation_context" where
  "wah_type_stack_truncate sp v = v\<lparr>vc_stack := drop (length (vc_stack v) - sp) (vc_stack v),
     vc_lwm := (if sp < vc_lwm v then sp else vc_lwm v)\<rparr>"

definition wah_validate_type_match :: "wah_type \<Rightarrow> wah_type \<Rightarrow> wah_module \<Rightarrow> unit res" where
  "wah_validate_type_match actual expected m =
    (if actual = WAH_TYPE_BOT then Inr ()
     else WAH_ENSURE (wah_type_is_subtype (WAH_TYPE_AS_NON_NULL actual) (WAH_TYPE_AS_NON_NULL expected) m) WAH_ERROR_VALIDATION_FAILED (
       if \<not> WAH_TYPE_IS_NULLABLE expected then WAH_ENSURE (\<not> WAH_TYPE_IS_NULLABLE actual) WAH_ERROR_VALIDATION_FAILED (Inr ())
       else Inr ()))"

definition v_match :: "wah_type \<Rightarrow> wah_type \<Rightarrow> unit vm" where
  "v_match actual expected = (\<lambda>v. WAH_CHECK (wah_validate_type_match actual expected (vc_module v)) (\<lambda>_. Inr ((), v)))"

definition wah_validation_block_base_height :: "wah_validation_context \<Rightarrow> nat" where
  "wah_validation_block_base_height v = (case vc_control v of [] \<Rightarrow> 0 | f # _ \<Rightarrow> cf_stack_height f)"

definition count_depth :: "wah_validation_context \<Rightarrow> wah_validation_context" where
  "count_depth v = v\<lparr>vc_depth := vc_depth v + 1,
     vc_max_depth := (if vc_depth v + 1 > vc_max_depth v then vc_depth v + 1 else vc_max_depth v)\<rparr>"

definition wah_validation_push_type :: "wah_type \<Rightarrow> unit vm" where
  "wah_validation_push_type t = v_seq [wah_type_stack_push t, v_modify count_depth]"

definition wah_validation_pop_type :: "wah_type vm" where
  "wah_validation_pop_type =
    (\<lambda>v. if vc_depth v \<le> wah_validation_block_base_height v
         then WAH_ENSURE (vc_unreachable v) WAH_ERROR_VALIDATION_FAILED (Inr (WAH_TYPE_BOT, v))
         else v_bind wah_type_stack_pop (\<lambda>t. v_bind (v_modify (\<lambda>v. v\<lparr>vc_depth := vc_depth v - 1\<rparr>)) (\<lambda>_. v_ret t)) v)"

definition wah_validation_at_unreachable_base :: "wah_validation_context \<Rightarrow> bool" where
  "wah_validation_at_unreachable_base v \<longleftrightarrow> vc_unreachable v \<and> vc_depth v \<le> wah_validation_block_base_height v"

definition wah_validation_pop_and_match_type :: "wah_type \<Rightarrow> unit vm" where
  "wah_validation_pop_and_match_type expected_type = v_bind wah_validation_pop_type (\<lambda>t. v_match t expected_type)"

abbreviation "POP \<equiv> wah_validation_pop_and_match_type"
abbreviation "POP_INTO \<equiv> wah_validation_pop_type"
abbreviation "PUSH \<equiv> wah_validation_push_type"

text \<open>\<open>for (i = n - 1; i >= 0; --i) POP(types[i])\<close> and \<open>for (i = 0; i < n; ++i) PUSH(types[i])\<close>.\<close>

definition POPS :: "wah_type list \<Rightarrow> unit vm" where
  "POPS ts = v_seq (map POP (rev ts))"

definition PUSHES :: "wah_type list \<Rightarrow> unit vm" where
  "PUSHES ts = v_seq (map PUSH ts)"

definition unpacked :: "wah_type \<Rightarrow> wah_type" where
  "unpacked t = (if WAH_TYPE_IS_PACKED t then WAH_TYPE_I32 else t)"

definition wah_validation_pop_field_value :: "wah_type \<Rightarrow> unit vm" where
  "wah_validation_pop_field_value t = POP (unpacked t)"

definition wah_validation_pop_func_params :: "wah_func_type \<Rightarrow> unit vm" where
  "wah_validation_pop_func_params ft = POPS (ft_param_types ft)"

definition wah_validation_push_func_results :: "wah_func_type \<Rightarrow> unit vm" where
  "wah_validation_push_func_results ft = PUSHES (ft_result_types ft)"

definition v_matches :: "wah_type list \<Rightarrow> wah_type list \<Rightarrow> unit vm" where
  "v_matches actuals expecteds = v_seq (map (\<lambda>(a, e). v_match a e) (zip actuals expecteds))"

definition wah_validation_check_return_types :: "wah_func_type \<Rightarrow> unit vm" where
  "wah_validation_check_return_types ft = v_bind (v_get (\<lambda>v. ft_result_types (vc_func_type v))) (\<lambda>rs.
     v_seq [v_valid (length (ft_result_types ft) = length rs), v_matches (ft_result_types ft) rs])"

definition wah_validation_mark_unreachable :: "wah_validation_context \<Rightarrow> wah_validation_context" where
  "wah_validation_mark_unreachable v =
    (let base = wah_validation_block_base_height v;
         v = (if vc_depth v > base
              then (wah_type_stack_truncate (length (vc_stack v) - (vc_depth v - base)) v)\<lparr>vc_depth := base\<rparr>
              else v)
     in v\<lparr>vc_unreachable := True\<rparr>)"

abbreviation "v_mark_unreachable \<equiv> v_modify wah_validation_mark_unreachable"

section \<open>Initialization of locals\<close>

definition undo_len :: "wah_validation_context \<Rightarrow> nat" where
  "undo_len v = (case vc_local_inits v of None \<Rightarrow> 0 | Some li \<Rightarrow> length (li_undo li))"

function revert_loop :: "nat \<Rightarrow> bool list \<Rightarrow> nat list \<Rightarrow> wah_local_inits" where
  "revert_loop undo_base inits undo =
    (if length undo > undo_base then revert_loop undo_base (inits[hd undo := False]) (tl undo)
     else \<lparr> li_inits = inits, li_undo = undo \<rparr>)"
  by auto
termination by (relation "measure (\<lambda>(b, i, u). length u)") auto

declare revert_loop.simps [simp del]

definition wah_local_inits_revert :: "nat \<Rightarrow> wah_local_inits \<Rightarrow> wah_local_inits" where
  "wah_local_inits_revert undo_base li = revert_loop undo_base (li_inits li) (li_undo li)"

definition wah_validation_restore_local_inits :: "wah_validation_control_frame \<Rightarrow> wah_validation_context \<Rightarrow> wah_validation_context" where
  "wah_validation_restore_local_inits frame v =
    v\<lparr>vc_local_inits := map_option (wah_local_inits_revert (cf_local_init_undo_base frame)) (vc_local_inits v)\<rparr>"

definition wah_validation_local_needs_init :: "wah_validation_context \<Rightarrow> nat \<Rightarrow> wah_type \<Rightarrow> bool" where
  "wah_validation_local_needs_init v local_idx t \<longleftrightarrow> vc_local_inits v \<noteq> None
     \<and> local_idx \<ge> length (ft_param_types (vc_func_type v)) \<and> WAH_TYPE_IS_REF t \<and> \<not> WAH_TYPE_IS_NULLABLE t"

definition wah_validation_init_local :: "nat \<Rightarrow> wah_type \<Rightarrow> wah_validation_context \<Rightarrow> wah_validation_context" where
  "wah_validation_init_local local_idx t v =
    (if \<not> wah_validation_local_needs_init v local_idx t then v
     else case vc_local_inits v of None \<Rightarrow> v
       | Some li \<Rightarrow> if li_inits li ! local_idx then v
           else v\<lparr>vc_local_inits := Some \<lparr> li_inits = (li_inits li)[local_idx := True], li_undo = local_idx # li_undo li \<rparr>\<rparr>)"

text \<open>\<open>wah_local_run_start\<close> and \<open>wah_local_type\<close>: a binary search for the first run that ends after the local.\<close>

function local_run_search :: "wah_local_run list \<Rightarrow> nat \<Rightarrow> nat \<Rightarrow> nat \<Rightarrow> nat" where
  "local_run_search runs li lo hi =
    (if lo < hi then
       let mid = lo + (hi - lo) div 2 in
       if run_end (runs ! mid) > li then local_run_search runs li lo mid else local_run_search runs li (mid + 1) hi
     else lo)"
  by auto
termination by (relation "measure (\<lambda>(r, l, lo, hi). hi - lo)") auto

declare local_run_search.simps [simp del]

definition wah_local_type :: "wah_local_run list \<Rightarrow> nat \<Rightarrow> wah_type" where
  "wah_local_type runs li = run_type (runs ! local_run_search runs li 0 (length runs - 1))"

section \<open>Emitting instructions\<close>

definition EMIT_INSTR_EX :: "nat \<Rightarrow> wah_imm \<Rightarrow> unit vm" where
  "EMIT_INSTR_EX opc imm = v_modify (\<lambda>v. v\<lparr>vc_instrs := vc_instrs v @ [\<lparr> di_opcode = opc,
     di_flags = (if vc_unreachable v then WAH_INSTR_FLAG_UNREACHABLE else 0), di_ref_map = 0, di_imm = imm \<rparr>]\<rparr>)"

abbreviation "EMIT_SIMPLE opc \<equiv> EMIT_INSTR_EX opc IMM_none"

section \<open>Block types and labels\<close>

definition set_block_type :: "wah_type list \<Rightarrow> wah_type list \<Rightarrow> wah_type \<Rightarrow> nat \<Rightarrow> wah_validation_control_frame \<Rightarrow> wah_validation_control_frame" where
  "set_block_type ps rs single idx f = f\<lparr>cf_param_types := ps, cf_result_types := rs, cf_single_result := single, cf_block_type_idx := idx\<rparr>"

definition v_type_index_ok :: "wah_type \<Rightarrow> unit vm" where
  "v_type_index_ok t = v_bind (v_get (\<lambda>v. length (type_defs (vc_module v)))) (\<lambda>n. v_valid (t < 0 \<or> WAH_TYIDX t < n))"

definition v_func_type_index_ok :: "nat \<Rightarrow> unit vm" where
  "v_func_type_index_ok i = v_bind (v_get vc_module) (\<lambda>m.
     v_seq [v_valid (i < length (type_defs m)), v_valid (td_kind (type_defs m ! i) = WAH_COMP_FUNC)])"

definition wah_validation_decode_block_type :: "wah_validation_control_frame \<Rightarrow> wah_validation_control_frame vm" where
  "wah_validation_decode_block_type frame =
    v_bind (v_get vc_code) (\<lambda>bs.
    case bs of [] \<Rightarrow> v_fail WAH_ERROR_UNEXPECTED_EOF
    | peek # _ \<Rightarrow>
      if peek = 0x40 then
        v_bind v_byte (\<lambda>_. v_ret (set_block_type [] [] WAH_TYPE_BOT UINT32_MAX frame))
      else if peek \<ge> 0x63 \<and> peek \<le> 0x7F then
        v_bind (v_dec_mod wah_decode_val_type) (\<lambda>result_type.
        v_bind (v_seq [v_type_index_ok result_type, v_require_type result_type]) (\<lambda>_.
        v_ret (set_block_type [] [result_type] result_type UINT32_MAX frame)))
      else
        v_bind (v_dec wah_decode_sleb128_32) (\<lambda>block_type_val.
        v_bind (v_seq [v_ensure (block_type_val \<ge> 0) WAH_ERROR_MALFORMED, v_require WAH_FEATURE_SHIFT_MULTI_VALUE,
                       v_func_type_index_ok (nat block_type_val)]) (\<lambda>_.
        v_bind (v_get (\<lambda>v. types (vc_module v) ! nat block_type_val)) (\<lambda>ft.
        v_ret (set_block_type (ft_param_types ft) (ft_result_types ft) WAH_TYPE_BOT (nat block_type_val) frame)))))"

definition wah_validation_resolve_br_target :: "wah_validation_context \<Rightarrow> nat \<Rightarrow> wah_type list \<times> nat" where
  "wah_validation_resolve_br_target v label_idx =
    (if label_idx = length (vc_control v) then (ft_result_types (vc_func_type v), 0)
     else let frame = vc_control v ! label_idx in
       (if cf_opcode frame = WAH_OP_LOOP then cf_param_types frame else cf_result_types frame, cf_stack_height frame))"

definition func_type_index :: "wah_module \<Rightarrow> nat \<Rightarrow> nat" where
  "func_type_index m func_idx =
    (if func_idx < length (func_imports m) then fi_type_index (func_imports m ! func_idx)
     else function_type_indices m ! (func_idx - length (func_imports m)))"

definition wah_resolve_func_type :: "wah_module \<Rightarrow> nat \<Rightarrow> wah_func_type" where
  "wah_resolve_func_type m func_idx = types m ! func_type_index m func_idx"


section \<open>Constant expressions and classes of opcodes\<close>

definition validate_const_expr :: "nat \<Rightarrow> unit vm" where
  "validate_const_expr opc = v_bind (v_get vc_mode) (\<lambda>mode.
    if mode = WAH_ANALYZE_CONST_EXPR then
      if opc \<in> {WAH_OP_I32_ADD, WAH_OP_I32_SUB, WAH_OP_I32_MUL, WAH_OP_I64_ADD, WAH_OP_I64_SUB, WAH_OP_I64_MUL}
      then v_require WAH_FEATURE_SHIFT_EXTENDED_CONST
      else v_valid (opc \<in> {WAH_OP_I32_CONST, WAH_OP_I64_CONST, WAH_OP_F32_CONST, WAH_OP_F64_CONST, WAH_OP_V128_CONST,
             WAH_OP_REF_NULL, WAH_OP_REF_FUNC, WAH_OP_GLOBAL_GET, WAH_OP_REF_I31, WAH_OP_STRUCT_NEW,
             WAH_OP_STRUCT_NEW_DEFAULT, WAH_OP_ARRAY_NEW, WAH_OP_ARRAY_NEW_DEFAULT, WAH_OP_ARRAY_NEW_FIXED,
             WAH_OP_ANY_CONVERT_EXTERN, WAH_OP_EXTERN_CONVERT_ANY})
    else v_ret ())"

definition SIMPLE_OP :: "wah_type list \<Rightarrow> wah_type \<Rightarrow> nat \<Rightarrow> unit vm" where
  "SIMPLE_OP pops push opc = v_seq (map POP pops @ [PUSH push, EMIT_SIMPLE opc])"

text \<open>The types popped, in the order of the pops, and the type pushed; \<open>None\<close> for the classes the switch does not name.\<close>

fun opclass_signature :: "wah_opclass \<Rightarrow> (wah_type list \<times> wah_type) option" where
  "opclass_signature WAH_OPCLASS__I_I = Some ([WAH_TYPE_I32], WAH_TYPE_I32)"
| "opclass_signature WAH_OPCLASS__I_L = Some ([WAH_TYPE_I32], WAH_TYPE_I64)"
| "opclass_signature WAH_OPCLASS__I_F = Some ([WAH_TYPE_I32], WAH_TYPE_F32)"
| "opclass_signature WAH_OPCLASS__I_D = Some ([WAH_TYPE_I32], WAH_TYPE_F64)"
| "opclass_signature WAH_OPCLASS__I_V = Some ([WAH_TYPE_I32], WAH_TYPE_V128)"
| "opclass_signature WAH_OPCLASS__II_I = Some ([WAH_TYPE_I32, WAH_TYPE_I32], WAH_TYPE_I32)"
| "opclass_signature WAH_OPCLASS__IV_V = Some ([WAH_TYPE_V128, WAH_TYPE_I32], WAH_TYPE_V128)"
| "opclass_signature WAH_OPCLASS__L_I = Some ([WAH_TYPE_I64], WAH_TYPE_I32)"
| "opclass_signature WAH_OPCLASS__L_L = Some ([WAH_TYPE_I64], WAH_TYPE_I64)"
| "opclass_signature WAH_OPCLASS__L_F = Some ([WAH_TYPE_I64], WAH_TYPE_F32)"
| "opclass_signature WAH_OPCLASS__L_D = Some ([WAH_TYPE_I64], WAH_TYPE_F64)"
| "opclass_signature WAH_OPCLASS__L_V = Some ([WAH_TYPE_I64], WAH_TYPE_V128)"
| "opclass_signature WAH_OPCLASS__LL_I = Some ([WAH_TYPE_I64, WAH_TYPE_I64], WAH_TYPE_I32)"
| "opclass_signature WAH_OPCLASS__LL_L = Some ([WAH_TYPE_I64, WAH_TYPE_I64], WAH_TYPE_I64)"
| "opclass_signature WAH_OPCLASS__LV_V = Some ([WAH_TYPE_V128, WAH_TYPE_I64], WAH_TYPE_V128)"
| "opclass_signature WAH_OPCLASS__F_I = Some ([WAH_TYPE_F32], WAH_TYPE_I32)"
| "opclass_signature WAH_OPCLASS__F_L = Some ([WAH_TYPE_F32], WAH_TYPE_I64)"
| "opclass_signature WAH_OPCLASS__F_F = Some ([WAH_TYPE_F32], WAH_TYPE_F32)"
| "opclass_signature WAH_OPCLASS__F_V = Some ([WAH_TYPE_F32], WAH_TYPE_V128)"
| "opclass_signature WAH_OPCLASS__FF_I = Some ([WAH_TYPE_F32, WAH_TYPE_F32], WAH_TYPE_I32)"
| "opclass_signature WAH_OPCLASS__FF_F = Some ([WAH_TYPE_F32, WAH_TYPE_F32], WAH_TYPE_F32)"
| "opclass_signature WAH_OPCLASS__D_I = Some ([WAH_TYPE_F64], WAH_TYPE_I32)"
| "opclass_signature WAH_OPCLASS__D_L = Some ([WAH_TYPE_F64], WAH_TYPE_I64)"
| "opclass_signature WAH_OPCLASS__D_D = Some ([WAH_TYPE_F64], WAH_TYPE_F64)"
| "opclass_signature WAH_OPCLASS__D_V = Some ([WAH_TYPE_F64], WAH_TYPE_V128)"
| "opclass_signature WAH_OPCLASS__DD_I = Some ([WAH_TYPE_F64, WAH_TYPE_F64], WAH_TYPE_I32)"
| "opclass_signature WAH_OPCLASS__DD_L = Some ([WAH_TYPE_F64, WAH_TYPE_F64], WAH_TYPE_I64)"
| "opclass_signature WAH_OPCLASS__DD_D = Some ([WAH_TYPE_F64, WAH_TYPE_F64], WAH_TYPE_F64)"
| "opclass_signature WAH_OPCLASS__V_I = Some ([WAH_TYPE_V128], WAH_TYPE_I32)"
| "opclass_signature WAH_OPCLASS__V_V = Some ([WAH_TYPE_V128], WAH_TYPE_V128)"
| "opclass_signature WAH_OPCLASS__VI_V = Some ([WAH_TYPE_I32, WAH_TYPE_V128], WAH_TYPE_V128)"
| "opclass_signature WAH_OPCLASS__VV_V = Some ([WAH_TYPE_V128, WAH_TYPE_V128], WAH_TYPE_V128)"
| "opclass_signature WAH_OPCLASS__VVV_V = Some ([WAH_TYPE_V128, WAH_TYPE_V128, WAH_TYPE_V128], WAH_TYPE_V128)"
| "opclass_signature _ = None"

section \<open>Memory accesses and lanes\<close>

definition v_memory :: "nat \<Rightarrow> wah_type vm" where
  "v_memory mem_idx = v_bind (v_get vc_module) (\<lambda>m.
     v_bind (v_valid (mem_idx < wah_memory_index_limit m)) (\<lambda>_. v_ret (mt_addr_type (wah_memory_type m mem_idx))))"

definition v_memarg_addr :: "wah_memarg \<Rightarrow> wah_type vm" where
  "v_memarg_addr memarg = v_bind (v_memory (unat (ma_memidx memarg))) (\<lambda>addr_type.
     v_bind (v_valid (addr_type = WAH_TYPE_I32 \<longrightarrow> ma_offset memarg \<le> 0xFFFFFFFF)) (\<lambda>_. v_ret addr_type))"

definition LOAD_OP :: "wah_type \<Rightarrow> nat \<Rightarrow> nat \<Rightarrow> unit vm" where
  "LOAD_OP t max_lg_align opc =
    v_bind (v_dec_mod wah_decode_memarg) (\<lambda>memarg.
    v_bind (v_valid (unat (ma_align memarg) \<le> max_lg_align)) (\<lambda>_.
    v_bind (v_memarg_addr memarg) (\<lambda>addr_type.
    v_seq [POP addr_type, PUSH t, EMIT_INSTR_EX opc (IMM_memarg memarg)])))"

definition STORE_OP :: "wah_type \<Rightarrow> nat \<Rightarrow> nat \<Rightarrow> unit vm" where
  "STORE_OP t max_lg_align opc =
    v_bind (v_dec_mod wah_decode_memarg) (\<lambda>memarg.
    v_bind (v_valid (unat (ma_align memarg) \<le> max_lg_align)) (\<lambda>_.
    v_bind (v_memarg_addr memarg) (\<lambda>addr_type.
    v_seq [POP t, POP addr_type, EMIT_INSTR_EX opc (IMM_memarg memarg)])))"

definition V128_LANE_OP :: "nat \<Rightarrow> bool \<Rightarrow> nat \<Rightarrow> unit vm" where
  "V128_LANE_OP max_lg_align is_load opc =
    v_bind (v_dec_mod wah_decode_memarg) (\<lambda>memarg.
    v_bind v_byte (\<lambda>lane_idx.
    v_bind (v_seq [v_valid (unat (ma_align memarg) \<le> max_lg_align), v_valid (unat lane_idx < drop_bit max_lg_align 16)]) (\<lambda>_.
    v_bind (v_memarg_addr memarg) (\<lambda>addr_type.
    v_seq [POP WAH_TYPE_V128, POP addr_type, if is_load then PUSH WAH_TYPE_V128 else v_ret (),
           EMIT_INSTR_EX opc (IMM_memarg_lane memarg lane_idx)]))))"

definition EXTRACT_LANE_OP :: "wah_type \<Rightarrow> nat \<Rightarrow> nat \<Rightarrow> unit vm" where
  "EXTRACT_LANE_OP scalar_type lane_count opc =
    v_bind (v_seq [POP WAH_TYPE_V128, PUSH scalar_type]) (\<lambda>_.
    v_bind v_byte (\<lambda>lane_idx.
    v_seq [v_valid (unat lane_idx < lane_count), EMIT_INSTR_EX opc (IMM_u32 (unat lane_idx))]))"

definition REPLACE_LANE_OP :: "wah_type \<Rightarrow> nat \<Rightarrow> nat \<Rightarrow> unit vm" where
  "REPLACE_LANE_OP scalar_type lane_count opc =
    v_bind (v_seq [POP scalar_type, POP WAH_TYPE_V128, PUSH WAH_TYPE_V128]) (\<lambda>_.
    v_bind v_byte (\<lambda>lane_idx.
    v_seq [v_valid (unat lane_idx < lane_count), EMIT_INSTR_EX opc (IMM_u32 (unat lane_idx))]))"

definition validate_shuffle :: "nat \<Rightarrow> unit vm" where
  "validate_shuffle opc =
    v_bind (v_seq [POP WAH_TYPE_V128, POP WAH_TYPE_V128, PUSH WAH_TYPE_V128]) (\<lambda>_.
    v_bind (v_dec (take_bytes 16)) (\<lambda>lanes.
    v_seq [v_valid (list_all (\<lambda>b. b < 32) lanes), EMIT_INSTR_EX opc (IMM_v128 lanes)]))"

section \<open>Memories\<close>

definition validate_memory_size :: "nat \<Rightarrow> unit vm" where
  "validate_memory_size opc = v_bind v_u32 (\<lambda>mem_idx. v_bind (v_memory mem_idx) (\<lambda>addr_type.
     v_seq [PUSH addr_type, EMIT_INSTR_EX opc (IMM_u32 mem_idx)]))"

definition validate_memory_grow :: "nat \<Rightarrow> unit vm" where
  "validate_memory_grow opc = v_bind v_u32 (\<lambda>mem_idx. v_bind (v_memory mem_idx) (\<lambda>addr_type.
     v_seq [POP addr_type, PUSH addr_type, EMIT_INSTR_EX opc (IMM_u32 mem_idx)]))"

definition validate_memory_fill :: "nat \<Rightarrow> unit vm" where
  "validate_memory_fill opc = v_bind v_u32 (\<lambda>mem_idx. v_bind (v_memory mem_idx) (\<lambda>addr_type.
     v_seq [POP addr_type, POP WAH_TYPE_I32, POP addr_type, EMIT_INSTR_EX opc (IMM_u32 mem_idx)]))"

definition use_data_segment :: "nat \<Rightarrow> unit vm" where
  "use_data_segment data_idx = v_seq [v_valid (data_idx < UINT32_MAX),
     v_mod (\<lambda>m. Inr (if data_idx + 1 > min_data_segment_count_required m
                     then m\<lparr>min_data_segment_count_required := data_idx + 1\<rparr> else m))]"

definition validate_memory_init :: "nat \<Rightarrow> unit vm" where
  "validate_memory_init opc = v_bind v_u32 (\<lambda>data_idx. v_bind v_u32 (\<lambda>mem_idx. v_bind (v_memory mem_idx) (\<lambda>addr_type.
     v_seq [POP WAH_TYPE_I32, POP WAH_TYPE_I32, POP addr_type, use_data_segment data_idx,
            EMIT_INSTR_EX opc (IMM_u32_u32 data_idx mem_idx)])))"

definition validate_data_drop :: "nat \<Rightarrow> unit vm" where
  "validate_data_drop opc = v_bind v_u32 (\<lambda>data_idx. v_seq [use_data_segment data_idx, EMIT_INSTR_EX opc (IMM_u32 data_idx)])"

definition copy_size_type :: "wah_type \<Rightarrow> wah_type \<Rightarrow> wah_type" where
  "copy_size_type dst src = (if dst = WAH_TYPE_I64 \<and> src = WAH_TYPE_I64 then WAH_TYPE_I64 else WAH_TYPE_I32)"

definition validate_memory_copy :: "nat \<Rightarrow> unit vm" where
  "validate_memory_copy opc = v_bind v_u32 (\<lambda>dest_mem_idx. v_bind v_u32 (\<lambda>src_mem_idx.
     v_bind (v_memory dest_mem_idx) (\<lambda>dst_at. v_bind (v_memory src_mem_idx) (\<lambda>src_at.
     v_seq [POP (copy_size_type dst_at src_at), POP src_at, POP dst_at,
            EMIT_INSTR_EX opc (IMM_u32_u32 dest_mem_idx src_mem_idx)]))))"

section \<open>Calls\<close>

definition v_called_type :: "nat \<Rightarrow> wah_func_type vm" where
  "v_called_type func_idx = v_bind (v_get vc_module) (\<lambda>m.
     v_bind (v_valid (func_idx < wah_func_index_limit m)) (\<lambda>_. v_ret (wah_resolve_func_type m func_idx)))"

definition v_expected_type :: "nat \<Rightarrow> wah_func_type vm" where
  "v_expected_type type_idx = v_bind (v_func_type_index_ok type_idx) (\<lambda>_. v_module (\<lambda>m. types m ! type_idx))"

definition v_table :: "nat \<Rightarrow> wah_table_type_t vm" where
  "v_table table_idx = v_bind (v_get vc_module) (\<lambda>m.
     v_bind (v_valid (table_idx < wah_table_index_limit m)) (\<lambda>_. v_ret (wah_table_type m table_idx)))"

definition validate_call :: "nat \<Rightarrow> unit vm" where
  "validate_call opc = v_bind v_u32 (\<lambda>func_idx. v_bind (v_called_type func_idx) (\<lambda>ft.
     v_seq [wah_validation_pop_func_params ft, wah_validation_push_func_results ft, EMIT_INSTR_EX opc (IMM_u32 func_idx)]))"

definition v_indirect :: "(nat \<Rightarrow> nat \<Rightarrow> wah_type \<Rightarrow> wah_func_type \<Rightarrow> unit vm) \<Rightarrow> unit vm" where
  "v_indirect k = v_bind v_u32 (\<lambda>type_idx. v_bind v_u32 (\<lambda>table_idx. v_bind (v_table table_idx) (\<lambda>tt.
     v_bind (v_module (wah_type_is_subtype (tt_elem_type tt) WAH_TYPE_FUNCREF)) (\<lambda>ok. v_bind (v_valid ok) (\<lambda>_.
     v_bind (v_expected_type type_idx) (\<lambda>ft. k type_idx table_idx (tt_addr_type tt) ft))))))"

definition validate_call_indirect :: "nat \<Rightarrow> unit vm" where
  "validate_call_indirect opc = v_indirect (\<lambda>type_idx table_idx addr_type ft.
     v_seq [POP addr_type, wah_validation_pop_func_params ft, wah_validation_push_func_results ft,
            EMIT_INSTR_EX opc (IMM_u32_u32 type_idx table_idx)])"

abbreviation "WAH_REF_NULL_IDX i \<equiv> WAH_TYPE_AS_NULLABLE (WAH_TYPE_FROM_IDX i False)"

definition validate_call_ref :: "nat \<Rightarrow> unit vm" where
  "validate_call_ref opc = v_bind v_u32 (\<lambda>type_idx. v_bind (v_expected_type type_idx) (\<lambda>ft.
     v_seq [POP (WAH_REF_NULL_IDX type_idx), wah_validation_pop_func_params ft, wah_validation_push_func_results ft,
            EMIT_INSTR_EX opc (IMM_u32 type_idx)]))"

definition validate_return_call :: "nat \<Rightarrow> unit vm" where
  "validate_return_call opc = v_bind v_u32 (\<lambda>func_idx. v_bind (v_called_type func_idx) (\<lambda>ft.
     v_seq [wah_validation_check_return_types ft, wah_validation_pop_func_params ft, v_mark_unreachable,
            EMIT_INSTR_EX opc (IMM_u32 func_idx)]))"

definition validate_return_call_indirect :: "nat \<Rightarrow> unit vm" where
  "validate_return_call_indirect opc = v_indirect (\<lambda>type_idx table_idx addr_type ft.
     v_seq [POP addr_type, wah_validation_check_return_types ft, wah_validation_pop_func_params ft, v_mark_unreachable,
            EMIT_INSTR_EX opc (IMM_u32_u32 type_idx table_idx)])"

definition validate_return_call_ref :: "nat \<Rightarrow> unit vm" where
  "validate_return_call_ref opc = v_bind (v_require WAH_FEATURE_SHIFT_TAIL_CALL) (\<lambda>_.
     v_bind v_u32 (\<lambda>type_idx. v_bind (v_expected_type type_idx) (\<lambda>ft.
     v_seq [POP (WAH_REF_NULL_IDX type_idx), wah_validation_check_return_types ft, wah_validation_pop_func_params ft,
            v_mark_unreachable, EMIT_INSTR_EX opc (IMM_u32 type_idx)])))"

section \<open>Locals and globals\<close>

definition v_local_type :: "nat \<Rightarrow> wah_validation_context \<Rightarrow> wah_type" where
  "v_local_type local_idx v = (let ps = ft_param_types (vc_func_type v) in
     if local_idx < length ps then ps ! local_idx else wah_local_type (vc_locals v) (local_idx - length ps))"

definition local_uninit :: "nat \<Rightarrow> wah_type \<Rightarrow> wah_validation_context \<Rightarrow> bool" where
  "local_uninit local_idx t v \<longleftrightarrow> wah_validation_local_needs_init v local_idx t
     \<and> (case vc_local_inits v of None \<Rightarrow> False | Some li \<Rightarrow> \<not> li_inits li ! local_idx)"

definition validate_local :: "nat \<Rightarrow> unit vm" where
  "validate_local opc = v_bind v_u32 (\<lambda>local_idx.
     v_bind (v_get vc_total_locals) (\<lambda>n. v_bind (v_valid (local_idx < n)) (\<lambda>_.
     v_bind (v_get (v_local_type local_idx)) (\<lambda>expected_type.
     v_seq [if opc = WAH_OP_LOCAL_GET then
              v_bind (v_get (local_uninit local_idx expected_type)) (\<lambda>uninit.
                v_seq [v_valid (\<not> uninit), PUSH expected_type])
            else if opc = WAH_OP_LOCAL_SET then
              v_seq [POP expected_type, v_modify (wah_validation_init_local local_idx expected_type)]
            else
              v_seq [POP expected_type, PUSH expected_type, v_modify (wah_validation_init_local local_idx expected_type)],
            EMIT_INSTR_EX opc (IMM_u32 local_idx)]))))"

definition validate_global_get :: "nat \<Rightarrow> unit vm" where
  "validate_global_get opc = v_bind v_u32 (\<lambda>global_idx. v_bind (v_get id) (\<lambda>v. let m = vc_module v in
     v_seq [v_valid (global_idx < wah_global_index_limit m),
       if vc_mode v = WAH_ANALYZE_CONST_EXPR then
         v_seq [v_valid (global_idx < vc_max_global_idx v), v_valid (\<not> wah_global_is_mutable m global_idx),
                if global_idx \<ge> length (global_imports m) then v_require WAH_FEATURE_SHIFT_GC else v_ret ()]
       else v_ret (),
       PUSH (wah_global_type m global_idx), EMIT_INSTR_EX opc (IMM_u32 global_idx)]))"

definition validate_global_set :: "nat \<Rightarrow> unit vm" where
  "validate_global_set opc = v_bind v_u32 (\<lambda>global_idx. v_bind (v_get vc_module) (\<lambda>m.
     v_seq [v_valid (global_idx < wah_global_index_limit m), v_valid (wah_global_is_mutable m global_idx),
            POP (wah_global_type m global_idx), EMIT_INSTR_EX opc (IMM_u32 global_idx)]))"

section \<open>Tables\<close>

definition validate_table_get :: "nat \<Rightarrow> unit vm" where
  "validate_table_get opc = v_bind v_u32 (\<lambda>table_idx. v_bind (v_table table_idx) (\<lambda>tt.
     v_seq [POP (tt_addr_type tt), PUSH (tt_elem_type tt), EMIT_INSTR_EX opc (IMM_u32 table_idx)]))"

definition validate_table_set :: "nat \<Rightarrow> unit vm" where
  "validate_table_set opc = v_bind v_u32 (\<lambda>table_idx. v_bind (v_table table_idx) (\<lambda>tt.
     v_seq [POP (tt_elem_type tt), POP (tt_addr_type tt), EMIT_INSTR_EX opc (IMM_u32 table_idx)]))"

definition validate_table_size :: "nat \<Rightarrow> unit vm" where
  "validate_table_size opc = v_bind v_u32 (\<lambda>table_idx. v_bind (v_table table_idx) (\<lambda>tt.
     v_seq [PUSH (tt_addr_type tt), EMIT_INSTR_EX opc (IMM_u32 table_idx)]))"

definition validate_table_grow :: "nat \<Rightarrow> unit vm" where
  "validate_table_grow opc = v_bind v_u32 (\<lambda>table_idx. v_bind (v_table table_idx) (\<lambda>tt.
     v_seq [POP (tt_addr_type tt), POP (tt_elem_type tt), PUSH (tt_addr_type tt), EMIT_INSTR_EX opc (IMM_u32 table_idx)]))"

definition validate_table_fill :: "nat \<Rightarrow> unit vm" where
  "validate_table_fill opc = v_bind v_u32 (\<lambda>table_idx. v_bind (v_table table_idx) (\<lambda>tt.
     v_seq [POP (tt_addr_type tt), POP (tt_elem_type tt), POP (tt_addr_type tt), EMIT_INSTR_EX opc (IMM_u32 table_idx)]))"

definition validate_table_copy :: "nat \<Rightarrow> unit vm" where
  "validate_table_copy opc = v_bind v_u32 (\<lambda>dst_table_idx. v_bind v_u32 (\<lambda>src_table_idx.
     v_bind (v_table dst_table_idx) (\<lambda>dst_tt. v_bind (v_table src_table_idx) (\<lambda>src_tt.
     v_seq [v_match (tt_elem_type src_tt) (tt_elem_type dst_tt),
            POP (copy_size_type (tt_addr_type dst_tt) (tt_addr_type src_tt)), POP (tt_addr_type src_tt), POP (tt_addr_type dst_tt),
            EMIT_INSTR_EX opc (IMM_u32_u32 dst_table_idx src_table_idx)]))))"

definition v_segment :: "nat \<Rightarrow> wah_type vm" where
  "v_segment elem_idx = v_bind (v_get vc_module) (\<lambda>m.
     v_bind (v_valid (elem_idx < length (element_segments m))) (\<lambda>_. v_ret (es_elem_type (element_segments m ! elem_idx))))"

definition validate_table_init :: "nat \<Rightarrow> unit vm" where
  "validate_table_init opc = v_bind v_u32 (\<lambda>elem_idx. v_bind v_u32 (\<lambda>table_idx.
     v_bind (v_segment elem_idx) (\<lambda>seg_type. v_bind (v_table table_idx) (\<lambda>tt.
     v_seq [v_match seg_type (tt_elem_type tt), POP WAH_TYPE_I32, POP WAH_TYPE_I32, POP (tt_addr_type tt),
            EMIT_INSTR_EX opc (IMM_u32_u32 elem_idx table_idx)]))))"

definition validate_elem_drop :: "nat \<Rightarrow> unit vm" where
  "validate_elem_drop opc = v_bind v_u32 (\<lambda>elem_idx. v_bind (v_segment elem_idx) (\<lambda>_.
     EMIT_INSTR_EX opc (IMM_u32 elem_idx)))"

section \<open>Constants and parametric operations\<close>

definition validate_i32_const :: "nat \<Rightarrow> unit vm" where
  "validate_i32_const opc = v_bind (v_dec wah_decode_sleb128_32) (\<lambda>val. v_seq [PUSH WAH_TYPE_I32, EMIT_INSTR_EX opc (IMM_i32 val)])"

definition validate_i64_const :: "nat \<Rightarrow> unit vm" where
  "validate_i64_const opc = v_bind (v_dec wah_decode_sleb128_64) (\<lambda>val. v_seq [PUSH WAH_TYPE_I64, EMIT_INSTR_EX opc (IMM_i64 val)])"

definition validate_f32_const :: "nat \<Rightarrow> unit vm" where
  "validate_f32_const opc = v_bind (v_dec (take_bytes 4)) (\<lambda>bs. v_seq [EMIT_INSTR_EX opc (IMM_f32_bits (wah_read_u32_le bs)), PUSH WAH_TYPE_F32])"

definition validate_f64_const :: "nat \<Rightarrow> unit vm" where
  "validate_f64_const opc = v_bind (v_dec (take_bytes 8)) (\<lambda>bs. v_seq [EMIT_INSTR_EX opc (IMM_f64_bits (wah_read_u64_le bs)), PUSH WAH_TYPE_F64])"

definition validate_v128_const :: "nat \<Rightarrow> unit vm" where
  "validate_v128_const opc = v_bind (v_dec (take_bytes 16)) (\<lambda>bs. v_seq [EMIT_INSTR_EX opc (IMM_v128 bs), PUSH WAH_TYPE_V128])"

definition validate_drop :: "nat \<Rightarrow> unit vm" where
  "validate_drop opc = v_bind POP_INTO (\<lambda>_. EMIT_SIMPLE opc)"

definition validate_select :: "nat \<Rightarrow> unit vm" where
  "validate_select opc = v_bind (POP WAH_TYPE_I32) (\<lambda>_. v_bind POP_INTO (\<lambda>b_type. v_bind POP_INTO (\<lambda>a_type.
     let resolved = (if a_type \<noteq> WAH_TYPE_BOT then a_type else b_type) in
     v_seq [v_valid (a_type = b_type \<or> a_type = WAH_TYPE_BOT \<or> b_type = WAH_TYPE_BOT),
            v_valid (resolved \<noteq> WAH_TYPE_BOT \<longrightarrow> resolved \<ge> WAH_TYPE_V128 \<and> resolved \<le> WAH_TYPE_I32),
            EMIT_INSTR_EX opc (IMM_i32 resolved), PUSH resolved])))"

definition validate_select_t :: "nat \<Rightarrow> unit vm" where
  "validate_select_t opc = v_bind v_u32 (\<lambda>vec_len. v_bind (v_valid (vec_len = 1)) (\<lambda>_.
     v_bind (v_dec_mod wah_decode_val_type) (\<lambda>sel_type.
     v_seq [v_type_index_ok sel_type, v_require_type sel_type, POP WAH_TYPE_I32, POP sel_type, POP sel_type,
            EMIT_INSTR_EX opc (IMM_i32 sel_type), PUSH sel_type])))"

section \<open>Structured control flow\<close>

definition validate_unreachable :: "nat \<Rightarrow> unit vm" where
  "validate_unreachable opc = v_seq [v_mark_unreachable, EMIT_SIMPLE opc]"

text \<open>
  A new frame; the entries of \<open>control_stack\<close> above \<open>control_sp\<close> are stale, and the fields written as zero here are
  assigned before the frame is read. While the parameters are popped the height of the frame is the parent's.
\<close>

definition new_frame :: "nat \<Rightarrow> wah_validation_context \<Rightarrow> wah_validation_control_frame" where
  "new_frame opc v = \<lparr> cf_opcode = opc, cf_type_stack_sp = 0, cf_param_types = [], cf_result_types = [],
     cf_single_result = WAH_TYPE_BOT, cf_block_type_idx = UINT32_MAX, cf_else_found = False,
     cf_is_unreachable = vc_unreachable v, cf_stack_height = wah_validation_block_base_height v, cf_local_init_undo_base = 0 \<rparr>"

definition v_set_frame :: "wah_validation_control_frame \<Rightarrow> unit vm" where
  "v_set_frame frame = v_modify (\<lambda>v. v\<lparr>vc_control := frame # tl (vc_control v)\<rparr>)"

definition v_push_frame :: "wah_validation_control_frame \<Rightarrow> unit vm" where
  "v_push_frame frame = v_modify (\<lambda>v. v\<lparr>vc_control := frame # vc_control v\<rparr>)"

definition v_reachable :: "unit vm" where
  "v_reachable = v_modify (\<lambda>v. v\<lparr>vc_unreachable := False\<rparr>)"

text \<open>\<open>frame->stack_height = current_stack_depth\<close>, \<open>frame->type_stack_sp = type_stack.sp\<close> and
  \<open>wah_validation_save_local_inits\<close>.\<close>

definition frame_enter :: "wah_validation_context \<Rightarrow> wah_validation_control_frame \<Rightarrow> wah_validation_control_frame" where
  "frame_enter v frame = frame\<lparr>cf_stack_height := vc_depth v, cf_type_stack_sp := length (vc_stack v),
     cf_local_init_undo_base := undo_len v\<rparr>"

definition v_control_room :: "unit vm" where
  "v_control_room = v_bind (v_get (\<lambda>v. length (vc_control v))) (\<lambda>n. v_ensure (n < WAH_MAX_CONTROL_DEPTH) WAH_ERROR_TOO_LARGE)"

definition validate_block :: "nat \<Rightarrow> unit vm" where
  "validate_block opc =
    v_bind (v_seq [if opc = WAH_OP_IF then POP WAH_TYPE_I32 else v_ret (), v_control_room]) (\<lambda>_.
    v_bind (v_get (new_frame opc)) (\<lambda>frame.
    v_bind (v_push_frame frame) (\<lambda>_.
    v_bind (wah_validation_decode_block_type frame) (\<lambda>frame.
    v_bind (v_seq [v_set_frame frame, POPS (cf_param_types frame)]) (\<lambda>_.
    v_bind (v_get (\<lambda>v. frame_enter v frame)) (\<lambda>frame.
    v_seq [v_set_frame frame, PUSHES (cf_param_types frame), v_reachable,
           EMIT_INSTR_EX opc (IMM_block (cf_block_type_idx frame) (cf_single_result frame))]))))))"

definition v_top_frame :: "wah_validation_control_frame vm" where
  "v_top_frame = (\<lambda>v. case vc_control v of [] \<Rightarrow> Inl WAH_ERROR_VALIDATION_FAILED | f # _ \<Rightarrow> Inr (f, v))"

definition v_at_height :: "wah_validation_control_frame \<Rightarrow> unit vm" where
  "v_at_height frame = v_bind (v_get vc_depth) (\<lambda>d. v_valid (d = cf_stack_height frame))"

text \<open>The stack and the locals as they were at the beginning of the block.\<close>

definition frame_reset :: "wah_validation_control_frame \<Rightarrow> wah_validation_context \<Rightarrow> wah_validation_context" where
  "frame_reset frame v = wah_validation_restore_local_inits frame
     ((wah_type_stack_truncate (cf_type_stack_sp frame) v)\<lparr>vc_depth := cf_type_stack_sp frame\<rparr>)"

definition validate_else :: "nat \<Rightarrow> unit vm" where
  "validate_else opc = v_bind v_top_frame (\<lambda>frame.
     v_seq [v_valid (cf_opcode frame = WAH_OP_IF \<and> \<not> cf_else_found frame), v_set_frame (frame\<lparr>cf_else_found := True\<rparr>),
            POPS (cf_result_types frame), v_at_height frame, v_modify (frame_reset frame),
            PUSHES (cf_param_types frame), v_reachable, EMIT_SIMPLE opc])"

definition leave_block :: "wah_validation_context \<Rightarrow> wah_validation_context" where
  "leave_block v = v\<lparr>vc_control := tl (vc_control v), vc_unreachable := cf_is_unreachable (hd (vc_control v))\<rparr>"

definition validate_end :: "nat \<Rightarrow> unit vm" where
  "validate_end opc = v_bind v_top_frame (\<lambda>frame.
     v_seq [if cf_opcode frame = WAH_OP_IF \<and> \<not> cf_else_found frame
            then v_seq [v_valid (length (cf_param_types frame) = length (cf_result_types frame)),
                        v_matches (cf_param_types frame) (cf_result_types frame)]
            else v_ret (),
            POPS (cf_result_types frame), v_at_height frame, v_modify (frame_reset frame), v_modify leave_block,
            PUSHES (cf_result_types frame), EMIT_SIMPLE opc])"

section \<open>Branches\<close>

definition v_label_ok :: "nat \<Rightarrow> unit vm" where
  "v_label_ok label_idx = v_bind (v_get (\<lambda>v. length (vc_control v))) (\<lambda>n. v_valid (label_idx \<le> n))"

definition v_depth_ge :: "nat \<Rightarrow> unit vm" where
  "v_depth_ge n = v_bind (v_get vc_depth) (\<lambda>d. v_valid (d \<ge> n))"

text \<open>\<open>adj_keep\<close> and \<open>adj_drop\<close>: zero in unreachable code.\<close>

definition branch_adjust :: "nat \<Rightarrow> nat \<Rightarrow> nat \<Rightarrow> wah_validation_context \<Rightarrow> nat \<times> nat" where
  "branch_adjust result_count prefix_count height v =
    (if vc_unreachable v then (0, 0) else (result_count, vc_depth v - height - prefix_count))"

definition validate_br :: "nat \<Rightarrow> unit vm" where
  "validate_br opc = v_bind v_u32 (\<lambda>label_idx.
     v_bind (v_seq [v_label_ok label_idx, if opc = WAH_OP_BR_IF then POP WAH_TYPE_I32 else v_ret ()]) (\<lambda>_.
     v_bind (v_get id) (\<lambda>v.
     case wah_validation_resolve_br_target v label_idx of (br_types, br_height) \<Rightarrow>
     case branch_adjust (length br_types) (length br_types) br_height v of (adj_keep, adj_drop) \<Rightarrow>
     v_seq [if \<not> vc_unreachable v
            then v_seq [v_depth_ge (br_height + length br_types),
                        if opc \<noteq> WAH_OP_BR_IF then v_depth_ge (wah_validation_block_base_height v + length br_types) else v_ret ()]
            else v_ret (),
            if \<not> wah_validation_at_unreachable_base v then POPS br_types else v_ret (),
            if opc = WAH_OP_BR_IF then PUSHES br_types else v_mark_unreachable,
            EMIT_INSTR_EX opc (IMM_branch label_idx 0 adj_keep adj_drop)])))"

text \<open>The labels of a \<open>br_table\<close>: a record per distinct label, the records of the targets packed two per word.\<close>

definition wah_br_table_target :: "u32 list \<Rightarrow> nat \<Rightarrow> nat" where
  "wah_br_table_target words i = unat (drop_bit (i mod 2 * 16) (words ! (i div 2)) AND 0xffff)"

definition wah_br_table_set_target :: "u32 list \<Rightarrow> nat \<Rightarrow> u32 \<Rightarrow> u32 list" where
  "wah_br_table_set_target words i r =
    words[i div 2 := if i mod 2 \<noteq> 0 then words ! (i div 2) OR push_bit 16 r else r]"

definition next_serial :: "wah_br_table_labels \<Rightarrow> wah_br_table_labels" where
  "next_serial l = (if bl_serial l + 1 = 0
     then l\<lparr>bl_stamps := replicate (WAH_MAX_CONTROL_DEPTH + 1) 0, bl_serial := 1\<rparr>
     else l\<lparr>bl_serial := bl_serial l + 1\<rparr>)"

type_synonym br_table_state = "wah_br_table_labels \<times> nat list \<times> u32 list"

definition br_table_add :: "nat \<Rightarrow> nat \<Rightarrow> br_table_state \<Rightarrow> br_table_state" where
  "br_table_add i label st = (case st of (l, symbols, words) \<Rightarrow>
     let (l, symbols) = (if bl_stamps l ! label \<noteq> bl_serial l
           then (l\<lparr>bl_stamps := (bl_stamps l)[label := bl_serial l], bl_records := (bl_records l)[label := of_nat (length symbols)]\<rparr>,
                 symbols @ [label])
           else (l, symbols))
     in (l, symbols, wah_br_table_set_target words i (ucast (bl_records l ! label))))"

primrec br_table_loop :: "nat \<Rightarrow> nat \<Rightarrow> br_table_state \<Rightarrow> br_table_state vm" where
  "br_table_loop 0 i st = v_ret st"
| "br_table_loop (Suc k) i st = v_bind v_u32 (\<lambda>label. v_bind (v_label_ok label) (\<lambda>_.
     br_table_loop k (i + 1) (br_table_add i label st)))"

primrec pop_into_loop :: "wah_type list \<Rightarrow> wah_type list \<Rightarrow> wah_type list vm" where
  "pop_into_loop [] acc = v_ret acc"
| "pop_into_loop (t # ts) acc = v_bind POP_INTO (\<lambda>a. v_bind (v_match a t) (\<lambda>_. pop_into_loop ts (a # acc)))"

definition br_table_record_ok :: "nat \<Rightarrow> nat \<Rightarrow> unit vm" where
  "br_table_record_ok count label = v_bind (v_get id) (\<lambda>v. v_valid (vc_unreachable v
     \<or> vc_depth v \<ge> snd (wah_validation_resolve_br_target v label) + count))"

definition br_table_drop :: "wah_validation_context \<Rightarrow> nat \<Rightarrow> nat \<Rightarrow> nat" where
  "br_table_drop v count label =
    (if vc_unreachable v then 0 else vc_depth v - snd (wah_validation_resolve_br_target v label) - count)"

definition br_table_decode :: "nat \<Rightarrow> (nat list \<times> u32 list) vm" where
  "br_table_decode num_targets = v_bind (v_get vc_labels) (\<lambda>labels.
    case labels of None \<Rightarrow> v_fail WAH_ERROR_VALIDATION_FAILED
    | Some l \<Rightarrow> v_bind (br_table_loop (num_targets + 1) 0 (next_serial l, [], replicate ((num_targets + 2) div 2) 0)) (\<lambda>(l, symbols, words).
        v_bind (v_modify (\<lambda>v. v\<lparr>vc_labels := Some l\<rparr>)) (\<lambda>_. v_ret (symbols, words))))"

definition br_table_types :: "nat list \<Rightarrow> wah_type list \<Rightarrow> unit vm" where
  "br_table_types symbols default_types = v_bind (v_get id) (\<lambda>v.
     if default_types \<noteq> [] \<and> \<not> wah_validation_at_unreachable_base v then
       v_bind (pop_into_loop (rev default_types) []) (\<lambda>popped.
       v_seq (map (\<lambda>label. v_matches popped (fst (wah_validation_resolve_br_target v label))) symbols))
     else v_ret ())"

definition validate_br_table :: "nat \<Rightarrow> unit vm" where
  "validate_br_table opc =
    v_bind (v_get vc_labels) (\<lambda>labels. v_bind (v_valid (labels \<noteq> None)) (\<lambda>_.
    v_bind (v_dec (wah_decode_and_validate_count 1)) (\<lambda>num_targets.
    v_bind (v_ensure (num_targets < UINT32_MAX) WAH_ERROR_TOO_LARGE) (\<lambda>_.
    v_bind (v_get (\<lambda>v. length (vc_code v))) (\<lambda>rest. v_bind (v_ensure (num_targets + 1 \<le> rest) WAH_ERROR_MALFORMED) (\<lambda>_.
    v_bind (v_get (\<lambda>v. length (vc_control v))) (\<lambda>control_sp.
    v_bind (br_table_decode num_targets) (\<lambda>(symbols, words).
    v_bind (POP WAH_TYPE_I32) (\<lambda>_. v_bind (v_get id) (\<lambda>v.
    let default_types = fst (wah_validation_resolve_br_target v (symbols ! wah_br_table_target words num_targets));
        count = length default_types in
    v_seq [v_seq (map (\<lambda>label. v_valid (length (fst (wah_validation_resolve_br_target v label)) = count)) symbols),
           v_seq (map (br_table_record_ok count) symbols),
           br_table_types symbols default_types,
           v_mark_unreachable,
           EMIT_INSTR_EX opc (IMM_br_table \<lparr> bt_target_count = num_targets,
             bt_record_cap = (if num_targets < control_sp then num_targets + 1 else control_sp + 1),
             bt_symbols = symbols, bt_drops = map (br_table_drop v count) symbols,
             bt_keep = (if vc_unreachable v then 0 else count), bt_words = words \<rparr>)]))))))))))"

definition validate_return :: "nat \<Rightarrow> unit vm" where
  "validate_return opc = v_bind (v_get id) (\<lambda>v. let rs = ft_result_types (vc_func_type v) in
     v_seq [if \<not> vc_unreachable v then v_depth_ge (wah_validation_block_base_height v + length rs) else v_ret (),
            if \<not> wah_validation_at_unreachable_base v then POPS rs else v_ret (),
            v_mark_unreachable, EMIT_SIMPLE opc])"

section \<open>References\<close>

abbreviation (input) "WAH_TYPE_ANYREF \<equiv> -35 :: wah_type"
abbreviation (input) "WAH_TYPE_EQREF \<equiv> -37 :: wah_type"
abbreviation (input) "WAH_TYPE_I31REF \<equiv> -39 :: wah_type"
abbreviation (input) "WAH_TYPE_ARRAYREF \<equiv> -43 :: wah_type"

definition v_heap_type :: "wah_type vm" where
  "v_heap_type = v_dec wah_decode_heap_type"

definition v_pop_ref :: "wah_type vm" where
  "v_pop_ref = v_bind POP_INTO (\<lambda>t. v_bind (v_valid (WAH_TYPE_IS_REF t \<or> t = WAH_TYPE_BOT)) (\<lambda>_. v_ret t))"

definition validate_ref_null :: "nat \<Rightarrow> unit vm" where
  "validate_ref_null opc = v_bind v_heap_type (\<lambda>ref_type.
     v_seq [v_type_index_ok ref_type, v_require_type (WAH_TYPE_AS_NULLABLE ref_type), PUSH (WAH_TYPE_AS_NULLABLE ref_type),
            EMIT_INSTR_EX opc (IMM_u32 (nat (take_bit 32 ref_type)))])"

definition validate_ref_is_null :: "nat \<Rightarrow> unit vm" where
  "validate_ref_is_null opc = v_bind v_pop_ref (\<lambda>_. v_seq [PUSH WAH_TYPE_I32, EMIT_SIMPLE opc])"

definition validate_ref_func :: "nat \<Rightarrow> unit vm" where
  "validate_ref_func opc = v_bind v_u32 (\<lambda>func_idx. v_bind (v_get id) (\<lambda>v. let m = vc_module v in
     v_seq [v_valid (func_idx < wah_func_index_limit m),
            if vc_mode v = WAH_ANALYZE_CONST_EXPR then v_mod (\<lambda>m. Inr (wah_declare_func m func_idx))
            else v_valid (wah_is_func_declared m func_idx),
            PUSH (WAH_TYPE_FROM_IDX (func_type_index m func_idx) False), EMIT_INSTR_EX opc (IMM_u32 func_idx)]))"

section \<open>Structs and arrays\<close>

definition v_type_def :: "wah_comp_type_kind \<Rightarrow> nat \<Rightarrow> wah_type_def vm" where
  "v_type_def kind typeidx = v_bind (v_get vc_module) (\<lambda>m.
     v_bind (v_seq [v_valid (typeidx < length (type_defs m)), v_valid (td_kind (type_defs m ! typeidx) = kind)]) (\<lambda>_.
     v_ret (type_defs m ! typeidx)))"

text \<open>\<open>avail\<close>, the operands above the base of the block; the base never exceeds the depth.\<close>

definition v_avail :: "wah_validation_context \<Rightarrow> nat" where
  "v_avail v = vc_depth v - wah_validation_block_base_height v"

text \<open>The \<open>avail\<close> topmost of the operands \<open>fs\<close> (listed from the top) are popped.\<close>

definition v_pop_operands :: "nat \<Rightarrow> (nat \<Rightarrow> wah_type list) \<Rightarrow> unit vm" where
  "v_pop_operands count fs = v_bind (v_get id) (\<lambda>v.
     v_seq (v_valid (vc_unreachable v \<or> count \<le> v_avail v)
            # map wah_validation_pop_field_value (fs (v_avail v))))"

definition validate_struct_new :: "nat \<Rightarrow> unit vm" where
  "validate_struct_new opc = v_bind v_u32 (\<lambda>typeidx. v_bind (v_type_def WAH_COMP_STRUCT typeidx) (\<lambda>td.
     v_seq [if opc = WAH_OP_STRUCT_NEW
            then v_pop_operands (length (td_field_types td)) (\<lambda>avail. take avail (rev (td_field_types td)))
            else v_valid (\<not> td_non_defaultable td),
            PUSH (WAH_TYPE_FROM_IDX typeidx False), EMIT_INSTR_EX opc (IMM_u32 typeidx)]))"

definition v_field :: "nat \<Rightarrow> nat \<Rightarrow> wah_type_def vm" where
  "v_field typeidx fieldidx = v_bind (v_type_def WAH_COMP_STRUCT typeidx) (\<lambda>td.
     v_bind (v_valid (fieldidx < length (td_field_types td))) (\<lambda>_. v_ret td))"

definition validate_struct_get :: "nat \<Rightarrow> unit vm" where
  "validate_struct_get opc = v_bind v_u32 (\<lambda>typeidx. v_bind v_u32 (\<lambda>fieldidx. v_bind (v_field typeidx fieldidx) (\<lambda>td.
     let ft = td_field_types td ! fieldidx in
     v_seq [v_valid (WAH_TYPE_IS_PACKED ft \<longleftrightarrow> opc \<noteq> WAH_OP_STRUCT_GET), POP (WAH_REF_NULL_IDX typeidx), PUSH (unpacked ft),
            EMIT_INSTR_EX opc (IMM_type_field typeidx fieldidx)])))"

definition validate_struct_set :: "nat \<Rightarrow> unit vm" where
  "validate_struct_set opc = v_bind v_u32 (\<lambda>typeidx. v_bind v_u32 (\<lambda>fieldidx. v_bind (v_field typeidx fieldidx) (\<lambda>td.
     v_seq [v_valid (td_field_mutables td ! fieldidx), wah_validation_pop_field_value (td_field_types td ! fieldidx),
            POP (WAH_REF_NULL_IDX typeidx), EMIT_INSTR_EX opc (IMM_type_field typeidx fieldidx)])))"

abbreviation "elem_of td \<equiv> td_field_types td ! 0"
abbreviation "v_array_def \<equiv> v_type_def WAH_COMP_ARRAY"

definition validate_array_new :: "nat \<Rightarrow> unit vm" where
  "validate_array_new opc = v_bind v_u32 (\<lambda>typeidx. v_bind (v_array_def typeidx) (\<lambda>td.
     v_seq [POP WAH_TYPE_I32,
            if opc = WAH_OP_ARRAY_NEW then wah_validation_pop_field_value (elem_of td)
            else v_valid (\<not> WAH_TYPE_IS_REF (elem_of td) \<or> WAH_TYPE_IS_NULLABLE (elem_of td)),
            PUSH (WAH_TYPE_FROM_IDX typeidx False), EMIT_INSTR_EX opc (IMM_u32 typeidx)]))"

definition validate_array_new_fixed :: "nat \<Rightarrow> unit vm" where
  "validate_array_new_fixed opc = v_bind v_u32 (\<lambda>typeidx. v_bind v_u32 (\<lambda>len. v_bind (v_array_def typeidx) (\<lambda>td.
     v_seq [v_pop_operands len (\<lambda>avail. replicate (min len avail) (elem_of td)),
            PUSH (WAH_TYPE_FROM_IDX typeidx False), EMIT_INSTR_EX opc (IMM_type_length typeidx len)])))"

definition validate_array_get :: "nat \<Rightarrow> unit vm" where
  "validate_array_get opc = v_bind v_u32 (\<lambda>typeidx. v_bind (v_array_def typeidx) (\<lambda>td.
     v_seq [v_valid (WAH_TYPE_IS_PACKED (elem_of td) \<longleftrightarrow> opc \<noteq> WAH_OP_ARRAY_GET), POP WAH_TYPE_I32, POP (WAH_REF_NULL_IDX typeidx),
            PUSH (unpacked (elem_of td)), EMIT_INSTR_EX opc (IMM_u32 typeidx)]))"

definition validate_array_set :: "nat \<Rightarrow> unit vm" where
  "validate_array_set opc = v_bind v_u32 (\<lambda>typeidx. v_bind (v_array_def typeidx) (\<lambda>td.
     v_seq [v_valid (td_field_mutables td ! 0), wah_validation_pop_field_value (elem_of td), POP WAH_TYPE_I32,
            POP (WAH_REF_NULL_IDX typeidx), EMIT_INSTR_EX opc (IMM_u32 typeidx)]))"

definition validate_array_len :: "nat \<Rightarrow> unit vm" where
  "validate_array_len opc = v_bind POP_INTO (\<lambda>rt. v_bind (v_module (wah_type_is_subtype rt WAH_TYPE_ARRAYREF)) (\<lambda>ok.
     v_seq [v_valid (rt = WAH_TYPE_BOT \<or> ok), PUSH WAH_TYPE_I32, EMIT_SIMPLE opc]))"

definition v_array_segment :: "bool \<Rightarrow> nat \<Rightarrow> wah_type \<Rightarrow> unit vm" where
  "v_array_segment is_data segidx elem_type =
    (if is_data then v_bind (v_module data_segment_count) (\<lambda>n.
       v_seq [v_valid (\<not> WAH_TYPE_IS_REF elem_type), v_valid (segidx < n)])
     else v_bind (v_segment segidx) (\<lambda>seg_type. v_match seg_type elem_type))"

definition validate_array_new_segment :: "nat \<Rightarrow> unit vm" where
  "validate_array_new_segment opc = v_bind v_u32 (\<lambda>typeidx. v_bind v_u32 (\<lambda>segidx. v_bind (v_array_def typeidx) (\<lambda>td.
     v_seq [v_array_segment (opc = WAH_OP_ARRAY_NEW_DATA) segidx (elem_of td), POP WAH_TYPE_I32, POP WAH_TYPE_I32,
            PUSH (WAH_TYPE_FROM_IDX typeidx False), EMIT_INSTR_EX opc (IMM_type_length typeidx segidx)])))"

definition validate_array_fill :: "nat \<Rightarrow> unit vm" where
  "validate_array_fill opc = v_bind v_u32 (\<lambda>typeidx. v_bind (v_array_def typeidx) (\<lambda>td.
     v_seq [v_valid (td_field_mutables td ! 0), POP WAH_TYPE_I32, wah_validation_pop_field_value (elem_of td),
            POP WAH_TYPE_I32, POP (WAH_REF_NULL_IDX typeidx), EMIT_INSTR_EX opc (IMM_u32 typeidx)]))"

definition validate_array_copy :: "nat \<Rightarrow> unit vm" where
  "validate_array_copy opc = v_bind v_u32 (\<lambda>dst_typeidx. v_bind v_u32 (\<lambda>src_typeidx.
     v_bind (v_array_def dst_typeidx) (\<lambda>dst_td. v_bind (v_valid (td_field_mutables dst_td ! 0)) (\<lambda>_.
     v_bind (v_array_def src_typeidx) (\<lambda>src_td.
     v_seq [v_match (elem_of src_td) (elem_of dst_td), POP WAH_TYPE_I32, POP WAH_TYPE_I32, POP (WAH_REF_NULL_IDX src_typeidx),
            POP WAH_TYPE_I32, POP (WAH_REF_NULL_IDX dst_typeidx), EMIT_INSTR_EX opc (IMM_type_length dst_typeidx src_typeidx)])))))"

definition validate_array_init_segment :: "nat \<Rightarrow> unit vm" where
  "validate_array_init_segment opc = v_bind v_u32 (\<lambda>typeidx. v_bind v_u32 (\<lambda>segidx. v_bind (v_array_def typeidx) (\<lambda>td.
     v_seq [v_valid (td_field_mutables td ! 0),
            if opc = WAH_OP_ARRAY_INIT_DATA then v_ret () else v_valid (WAH_TYPE_IS_REF (elem_of td)),
            v_array_segment (opc = WAH_OP_ARRAY_INIT_DATA) segidx (elem_of td),
            POP WAH_TYPE_I32, POP WAH_TYPE_I32, POP WAH_TYPE_I32, POP (WAH_REF_NULL_IDX typeidx),
            EMIT_INSTR_EX opc (IMM_type_length typeidx segidx)])))"

section \<open>Casts\<close>

definition validate_ref_eq :: "nat \<Rightarrow> unit vm" where
  "validate_ref_eq opc = v_seq [POP WAH_TYPE_EQREF, POP WAH_TYPE_EQREF, PUSH WAH_TYPE_I32, EMIT_SIMPLE opc]"

text \<open>\<open>WAH_TYPE_IS_REF(ht) ? ht : (ht >= 0 ? ht : WAH_TYPE_ANYREF)\<close>\<close>

definition cast_type :: "wah_type \<Rightarrow> wah_type" where
  "cast_type ht = (if WAH_TYPE_IS_REF ht then ht else if ht \<ge> 0 then ht else WAH_TYPE_ANYREF)"

definition v_same_hierarchy :: "wah_type \<Rightarrow> wah_type \<Rightarrow> unit vm" where
  "v_same_hierarchy ref_type heap_type =
    (if ref_type \<noteq> WAH_TYPE_BOT then
       v_bind (v_get vc_module) (\<lambda>m. let src_top = wah_type_hierarchy_top ref_type m in
         v_valid (src_top \<noteq> WAH_TYPE_BOT \<and> src_top = wah_type_hierarchy_top heap_type m))
     else v_ret ())"

definition validate_ref_test_cast :: "nat \<Rightarrow> unit vm" where
  "validate_ref_test_cast opc = v_bind v_heap_type (\<lambda>heap_type.
     v_bind (v_seq [v_type_index_ok heap_type, v_require_type (WAH_TYPE_AS_NULLABLE heap_type)]) (\<lambda>_.
     v_bind v_pop_ref (\<lambda>ref_type.
     v_seq [v_same_hierarchy ref_type heap_type,
            if opc = WAH_OP_REF_TEST_NULL \<or> opc = WAH_OP_REF_TEST then PUSH WAH_TYPE_I32
            else PUSH (if opc = WAH_OP_REF_CAST_NULL then WAH_TYPE_AS_NULLABLE (cast_type heap_type) else cast_type heap_type),
            EMIT_INSTR_EX opc (IMM_ref_cast heap_type)])))"

text \<open>The operands \<open>t*\<close> below the tested reference get the types of the label, as for \<open>br_if\<close>.\<close>

definition v_retype :: "wah_type list \<Rightarrow> unit vm" where
  "v_retype ts = v_seq [POPS ts, PUSHES ts]"

definition v_prefix_depth :: "nat \<Rightarrow> unit vm" where
  "v_prefix_depth n = v_bind (v_get vc_unreachable) (\<lambda>u. if \<not> u then v_depth_ge n else v_ret ())"

definition validate_br_on_cast :: "nat \<Rightarrow> unit vm" where
  "validate_br_on_cast opc =
    v_bind v_byte (\<lambda>cast_flags. v_bind (v_ensure (cast_flags \<le> 3) WAH_ERROR_MALFORMED) (\<lambda>_.
    v_bind v_u32 (\<lambda>label_idx. v_bind v_heap_type (\<lambda>ht1. v_bind v_heap_type (\<lambda>ht2.
    v_bind (v_module (wah_type_is_subtype ht2 ht1)) (\<lambda>ok.
    let src_nullable = cast_flags AND 1 \<noteq> 0; dst_nullable = cast_flags AND 2 \<noteq> 0;
        src_type = (if src_nullable then WAH_TYPE_AS_NULLABLE (cast_type ht1) else cast_type ht1);
        dst_type = (if dst_nullable then WAH_TYPE_AS_NULLABLE (cast_type ht2) else cast_type ht2);
        rest_type = (if dst_nullable then WAH_TYPE_AS_NON_NULL src_type else src_type) in
    v_bind (v_seq [v_type_index_ok ht1, v_type_index_ok ht2, v_valid ok, v_label_ok label_idx,
                   v_valid (\<not> dst_nullable \<or> src_nullable), POP src_type]) (\<lambda>_.
    v_bind (v_get id) (\<lambda>v.
    case wah_validation_resolve_br_target v label_idx of (br_types, br_height) \<Rightarrow>
    case branch_adjust (length br_types) (length br_types - 1) br_height v of (adj_keep, adj_drop) \<Rightarrow>
    v_seq [v_valid (br_types \<noteq> []),
           v_match (if opc = WAH_OP_BR_ON_CAST then dst_type else rest_type) (last br_types),
           v_prefix_depth (br_height + (length br_types - 1)),
           v_retype (butlast br_types),
           PUSH (if opc = WAH_OP_BR_ON_CAST then rest_type else dst_type),
           EMIT_INSTR_EX opc (IMM_br_on_cast cast_flags label_idx ht1 ht2 ht2 adj_keep adj_drop)]))))))))"

definition v_convert :: "wah_type \<Rightarrow> wah_type \<Rightarrow> wah_type \<Rightarrow> unit vm" where
  "v_convert top_type nullable non_null = v_bind POP_INTO (\<lambda>ref_type. v_bind (v_module (wah_type_hierarchy_top ref_type)) (\<lambda>t.
     v_seq [v_valid (ref_type = WAH_TYPE_BOT \<or> t = top_type), PUSH (if WAH_TYPE_IS_NULLABLE ref_type then nullable else non_null)]))"

definition validate_any_convert_extern :: "unit vm" where
  "validate_any_convert_extern = v_convert WAH_TYPE_EXTERN WAH_TYPE_ANYREF WAH_TYPE_ANY"

definition validate_extern_convert_any :: "unit vm" where
  "validate_extern_convert_any = v_convert WAH_TYPE_ANY WAH_TYPE_EXTERNREF WAH_TYPE_EXTERN"

section \<open>Typed function references\<close>

definition non_null_ref :: "wah_type \<Rightarrow> wah_type" where
  "non_null_ref t = (if t = WAH_TYPE_BOT then WAH_TYPE_BOT else WAH_TYPE_AS_NON_NULL t)"

definition validate_ref_as_non_null :: "nat \<Rightarrow> unit vm" where
  "validate_ref_as_non_null opc = v_bind v_pop_ref (\<lambda>t. v_seq [PUSH (non_null_ref t), EMIT_SIMPLE opc])"

definition validate_br_on_null :: "nat \<Rightarrow> unit vm" where
  "validate_br_on_null opc =
    v_bind v_u32 (\<lambda>label_idx. v_bind (v_label_ok label_idx) (\<lambda>_. v_bind v_pop_ref (\<lambda>ref_type. v_bind (v_get id) (\<lambda>v.
    case wah_validation_resolve_br_target v label_idx of (br_types, br_height) \<Rightarrow>
    let prefix = (if opc = WAH_OP_BR_ON_NON_NULL then butlast br_types else br_types) in
    case branch_adjust (length br_types) (length prefix) br_height v of (adj_keep, adj_drop) \<Rightarrow>
    v_seq [if opc = WAH_OP_BR_ON_NON_NULL then
             v_seq [v_valid (br_types \<noteq> []), v_valid (wah_type_is_subtype (non_null_ref ref_type) (last br_types) (vc_module v))]
           else v_ret (),
           v_prefix_depth (br_height + length prefix),
           v_retype prefix,
           if opc = WAH_OP_BR_ON_NULL then PUSH (non_null_ref ref_type) else v_ret (),
           EMIT_INSTR_EX opc (IMM_branch label_idx 0 adj_keep adj_drop)]))))"

section \<open>Exceptions\<close>

definition v_tag_ok :: "nat \<Rightarrow> unit vm" where
  "v_tag_ok tag_idx = v_bind (v_get vc_module) (\<lambda>m. v_valid (tag_idx < u32_add (length (tag_imports m)) (length (tags m))))"

definition tag_params :: "wah_module \<Rightarrow> nat \<Rightarrow> wah_type list" where
  "tag_params m tag_idx = ft_param_types (types m ! wah_tag_type_index m tag_idx)"

definition validate_throw :: "nat \<Rightarrow> unit vm" where
  "validate_throw opc = v_bind v_u32 (\<lambda>tag_idx. v_bind (v_tag_ok tag_idx) (\<lambda>_. v_bind (v_get vc_module) (\<lambda>m.
     v_seq [wah_validation_pop_func_params (types m ! wah_tag_type_index m tag_idx), v_mark_unreachable,
            EMIT_INSTR_EX opc (IMM_u32 tag_idx)])))"

definition validate_throw_ref :: "nat \<Rightarrow> unit vm" where
  "validate_throw_ref opc = v_bind POP_INTO (\<lambda>t.
     v_seq [v_valid (WAH_TYPE_AS_NON_NULL t = WAH_TYPE_EXN \<or> WAH_TYPE_AS_NON_NULL t = WAH_TYPE_NOEXN \<or> t = WAH_TYPE_BOT),
            v_mark_unreachable, EMIT_SIMPLE opc])"

text \<open>The catch clauses: kind, tag (0 where there is none) and label; \<open>drop\<close> is filled in later.\<close>

primrec catch_loop :: "nat \<Rightarrow> wah_catch list \<Rightarrow> wah_catch list vm" where
  "catch_loop 0 acc = v_ret acc"
| "catch_loop (Suc n) acc =
    v_bind v_byte (\<lambda>kind. v_bind (v_valid (kind \<le> 3)) (\<lambda>_.
    v_bind (if kind = 0 \<or> kind = 1 then v_bind v_u32 (\<lambda>t. v_bind (v_tag_ok t) (\<lambda>_. v_ret t)) else v_ret 0) (\<lambda>tag_idx.
    v_bind v_u32 (\<lambda>label_idx. v_bind (v_label_ok label_idx) (\<lambda>_.
    catch_loop n (acc @ [\<lparr> ca_kind = unat kind, ca_tag_idx = tag_idx, ca_target_symbol = label_idx, ca_drop = 0 \<rparr>]))))))"

definition catch_types :: "wah_module \<Rightarrow> wah_catch \<Rightarrow> wah_type list" where
  "catch_types m c = (if ca_kind c = 0 \<or> ca_kind c = 1 then tag_params m (ca_tag_idx c) else [])
     @ (if ca_kind c = 1 \<or> ca_kind c = 3 then [WAH_TYPE_EXN] else [])"

definition raise_max_depth :: "nat \<Rightarrow> wah_validation_context \<Rightarrow> wah_validation_context" where
  "raise_max_depth n v = (if n > vc_max_depth v then v\<lparr>vc_max_depth := n\<rparr> else v)"

definition check_catch :: "wah_validation_control_frame \<Rightarrow> wah_catch \<Rightarrow> unit vm" where
  "check_catch frame c = v_bind (v_get id) (\<lambda>v.
     case wah_validation_resolve_br_target v (ca_target_symbol c + 1) of (br_types, br_height) \<Rightarrow>
     let ts = catch_types (vc_module v) c in
     v_seq [v_valid (cf_stack_height frame \<ge> br_height), v_modify (raise_max_depth (br_height + length br_types)),
            v_valid (length br_types = length ts), v_matches ts br_types])"

definition catch_drop :: "wah_validation_control_frame \<Rightarrow> wah_validation_context \<Rightarrow> wah_catch \<Rightarrow> wah_catch" where
  "catch_drop frame v c = c\<lparr>ca_drop := cf_stack_height frame + length (cf_param_types frame)
     - snd (wah_validation_resolve_br_target v (ca_target_symbol c + 1))\<rparr>"

definition validate_try_table :: "nat \<Rightarrow> unit vm" where
  "validate_try_table opc =
    v_bind v_control_room (\<lambda>_. v_bind (v_get (new_frame opc)) (\<lambda>frame.
    v_bind (wah_validation_decode_block_type frame) (\<lambda>frame.
    v_bind (v_dec (wah_decode_and_validate_count 2)) (\<lambda>catch_count.
    v_bind (catch_loop catch_count []) (\<lambda>catches.
    v_bind (POPS (cf_param_types frame)) (\<lambda>_.
    v_bind (v_get (\<lambda>v. frame_enter v frame)) (\<lambda>frame.
    v_bind (v_push_frame frame) (\<lambda>_. v_bind (v_get id) (\<lambda>v.
    v_seq [v_seq (map (check_catch frame) catches), PUSHES (cf_param_types frame), v_reachable,
           EMIT_INSTR_EX opc (IMM_try_table (cf_block_type_idx frame) (cf_single_result frame) (map (catch_drop frame v) catches))])))))))))"

section \<open>The dispatch\<close>

text \<open>A \<open>switch\<close>: the handler of the first group of case labels that has the opcode.\<close>

primrec v_switch :: "(nat list \<times> (nat \<Rightarrow> unit vm)) list \<Rightarrow> nat \<Rightarrow> unit vm" where
  "v_switch [] opc = v_fail WAH_ERROR_MALFORMED"
| "v_switch (c # cs) opc = (if opc \<in> set (fst c) then snd c opc else v_switch cs opc)"

definition memory_access_cases :: "(nat list \<times> (nat \<Rightarrow> unit vm)) list" where
  "memory_access_cases =
   [([WAH_OP_I32_LOAD], LOAD_OP WAH_TYPE_I32 2), ([WAH_OP_I64_LOAD], LOAD_OP WAH_TYPE_I64 3),
    ([WAH_OP_F32_LOAD], LOAD_OP WAH_TYPE_F32 2), ([WAH_OP_F64_LOAD], LOAD_OP WAH_TYPE_F64 3),
    ([WAH_OP_I32_LOAD8_S, WAH_OP_I32_LOAD8_U], LOAD_OP WAH_TYPE_I32 0),
    ([WAH_OP_I32_LOAD16_S, WAH_OP_I32_LOAD16_U], LOAD_OP WAH_TYPE_I32 1),
    ([WAH_OP_I64_LOAD8_S, WAH_OP_I64_LOAD8_U], LOAD_OP WAH_TYPE_I64 0),
    ([WAH_OP_I64_LOAD16_S, WAH_OP_I64_LOAD16_U], LOAD_OP WAH_TYPE_I64 1),
    ([WAH_OP_I64_LOAD32_S, WAH_OP_I64_LOAD32_U], LOAD_OP WAH_TYPE_I64 2),
    ([WAH_OP_I32_STORE], STORE_OP WAH_TYPE_I32 2), ([WAH_OP_I64_STORE], STORE_OP WAH_TYPE_I64 3),
    ([WAH_OP_F32_STORE], STORE_OP WAH_TYPE_F32 2), ([WAH_OP_F64_STORE], STORE_OP WAH_TYPE_F64 3),
    ([WAH_OP_I32_STORE8], STORE_OP WAH_TYPE_I32 0), ([WAH_OP_I32_STORE16], STORE_OP WAH_TYPE_I32 1),
    ([WAH_OP_I64_STORE8], STORE_OP WAH_TYPE_I64 0), ([WAH_OP_I64_STORE16], STORE_OP WAH_TYPE_I64 1),
    ([WAH_OP_I64_STORE32], STORE_OP WAH_TYPE_I64 2),
    ([WAH_OP_V128_LOAD], LOAD_OP WAH_TYPE_V128 4),
    ([WAH_OP_V128_LOAD8X8_S, WAH_OP_V128_LOAD8X8_U], LOAD_OP WAH_TYPE_V128 3),
    ([WAH_OP_V128_LOAD16X4_S, WAH_OP_V128_LOAD16X4_U], LOAD_OP WAH_TYPE_V128 3),
    ([WAH_OP_V128_LOAD32X2_S, WAH_OP_V128_LOAD32X2_U], LOAD_OP WAH_TYPE_V128 3),
    ([WAH_OP_V128_LOAD8_SPLAT], LOAD_OP WAH_TYPE_V128 0), ([WAH_OP_V128_LOAD16_SPLAT], LOAD_OP WAH_TYPE_V128 1),
    ([WAH_OP_V128_LOAD32_SPLAT], LOAD_OP WAH_TYPE_V128 2), ([WAH_OP_V128_LOAD64_SPLAT], LOAD_OP WAH_TYPE_V128 3),
    ([WAH_OP_V128_LOAD32_ZERO], LOAD_OP WAH_TYPE_V128 2), ([WAH_OP_V128_LOAD64_ZERO], LOAD_OP WAH_TYPE_V128 3),
    ([WAH_OP_V128_STORE], STORE_OP WAH_TYPE_V128 4),
    ([WAH_OP_V128_LOAD8_LANE], V128_LANE_OP 0 True), ([WAH_OP_V128_LOAD16_LANE], V128_LANE_OP 1 True),
    ([WAH_OP_V128_LOAD32_LANE], V128_LANE_OP 2 True), ([WAH_OP_V128_LOAD64_LANE], V128_LANE_OP 3 True),
    ([WAH_OP_V128_STORE8_LANE], V128_LANE_OP 0 False), ([WAH_OP_V128_STORE16_LANE], V128_LANE_OP 1 False),
    ([WAH_OP_V128_STORE32_LANE], V128_LANE_OP 2 False), ([WAH_OP_V128_STORE64_LANE], V128_LANE_OP 3 False),
    ([WAH_OP_I8X16_SHUFFLE], validate_shuffle),
    ([WAH_OP_I8X16_EXTRACT_LANE_S, WAH_OP_I8X16_EXTRACT_LANE_U], EXTRACT_LANE_OP WAH_TYPE_I32 16),
    ([WAH_OP_I8X16_REPLACE_LANE], REPLACE_LANE_OP WAH_TYPE_I32 16),
    ([WAH_OP_I16X8_EXTRACT_LANE_S, WAH_OP_I16X8_EXTRACT_LANE_U], EXTRACT_LANE_OP WAH_TYPE_I32 8),
    ([WAH_OP_I16X8_REPLACE_LANE], REPLACE_LANE_OP WAH_TYPE_I32 8),
    ([WAH_OP_I32X4_EXTRACT_LANE], EXTRACT_LANE_OP WAH_TYPE_I32 4), ([WAH_OP_I32X4_REPLACE_LANE], REPLACE_LANE_OP WAH_TYPE_I32 4),
    ([WAH_OP_I64X2_EXTRACT_LANE], EXTRACT_LANE_OP WAH_TYPE_I64 2), ([WAH_OP_I64X2_REPLACE_LANE], REPLACE_LANE_OP WAH_TYPE_I64 2),
    ([WAH_OP_F32X4_EXTRACT_LANE], EXTRACT_LANE_OP WAH_TYPE_F32 4), ([WAH_OP_F32X4_REPLACE_LANE], REPLACE_LANE_OP WAH_TYPE_F32 4),
    ([WAH_OP_F64X2_EXTRACT_LANE], EXTRACT_LANE_OP WAH_TYPE_F64 2), ([WAH_OP_F64X2_REPLACE_LANE], REPLACE_LANE_OP WAH_TYPE_F64 2)]"

definition entity_cases :: "(nat list \<times> (nat \<Rightarrow> unit vm)) list" where
  "entity_cases =
   [([WAH_OP_MEMORY_SIZE], validate_memory_size), ([WAH_OP_MEMORY_GROW], validate_memory_grow),
    ([WAH_OP_MEMORY_FILL], validate_memory_fill), ([WAH_OP_MEMORY_INIT], validate_memory_init),
    ([WAH_OP_DATA_DROP], validate_data_drop), ([WAH_OP_MEMORY_COPY], validate_memory_copy),
    ([WAH_OP_CALL], validate_call), ([WAH_OP_CALL_INDIRECT], validate_call_indirect), ([WAH_OP_CALL_REF], validate_call_ref),
    ([WAH_OP_RETURN_CALL], validate_return_call), ([WAH_OP_RETURN_CALL_INDIRECT], validate_return_call_indirect),
    ([WAH_OP_RETURN_CALL_REF], validate_return_call_ref),
    ([WAH_OP_LOCAL_GET, WAH_OP_LOCAL_SET, WAH_OP_LOCAL_TEE], validate_local),
    ([WAH_OP_GLOBAL_GET], validate_global_get), ([WAH_OP_GLOBAL_SET], validate_global_set),
    ([WAH_OP_TABLE_GET], validate_table_get), ([WAH_OP_TABLE_SET], validate_table_set),
    ([WAH_OP_TABLE_SIZE], validate_table_size), ([WAH_OP_TABLE_GROW], validate_table_grow),
    ([WAH_OP_TABLE_FILL], validate_table_fill), ([WAH_OP_TABLE_COPY], validate_table_copy),
    ([WAH_OP_TABLE_INIT], validate_table_init), ([WAH_OP_ELEM_DROP], validate_elem_drop)]"

definition control_cases :: "(nat list \<times> (nat \<Rightarrow> unit vm)) list" where
  "control_cases =
   [([WAH_OP_I32_CONST], validate_i32_const), ([WAH_OP_I64_CONST], validate_i64_const),
    ([WAH_OP_F32_CONST], validate_f32_const), ([WAH_OP_F64_CONST], validate_f64_const), ([WAH_OP_V128_CONST], validate_v128_const),
    ([WAH_OP_F32_DEMOTE_F64], SIMPLE_OP [WAH_TYPE_F64] WAH_TYPE_F32), ([WAH_OP_F64_PROMOTE_F32], SIMPLE_OP [WAH_TYPE_F32] WAH_TYPE_F64),
    ([WAH_OP_DROP], validate_drop), ([WAH_OP_SELECT], validate_select), ([WAH_OP_SELECT_T], validate_select_t),
    ([WAH_OP_NOP], \<lambda>_. v_ret ()), ([WAH_OP_UNREACHABLE], validate_unreachable),
    ([WAH_OP_BLOCK, WAH_OP_LOOP, WAH_OP_IF], validate_block), ([WAH_OP_ELSE], validate_else), ([WAH_OP_END], validate_end),
    ([WAH_OP_BR, WAH_OP_BR_IF], validate_br), ([WAH_OP_BR_TABLE], validate_br_table), ([WAH_OP_RETURN], validate_return)]"

definition ref_cases :: "(nat list \<times> (nat \<Rightarrow> unit vm)) list" where
  "ref_cases =
   [([WAH_OP_REF_NULL], validate_ref_null), ([WAH_OP_REF_IS_NULL], validate_ref_is_null), ([WAH_OP_REF_FUNC], validate_ref_func),
    ([WAH_OP_STRUCT_NEW, WAH_OP_STRUCT_NEW_DEFAULT], validate_struct_new),
    ([WAH_OP_STRUCT_GET, WAH_OP_STRUCT_GET_S, WAH_OP_STRUCT_GET_U], validate_struct_get), ([WAH_OP_STRUCT_SET], validate_struct_set),
    ([WAH_OP_ARRAY_NEW, WAH_OP_ARRAY_NEW_DEFAULT], validate_array_new), ([WAH_OP_ARRAY_NEW_FIXED], validate_array_new_fixed),
    ([WAH_OP_ARRAY_GET, WAH_OP_ARRAY_GET_S, WAH_OP_ARRAY_GET_U], validate_array_get), ([WAH_OP_ARRAY_SET], validate_array_set),
    ([WAH_OP_ARRAY_LEN], validate_array_len), ([WAH_OP_ARRAY_NEW_DATA, WAH_OP_ARRAY_NEW_ELEM], validate_array_new_segment),
    ([WAH_OP_ARRAY_FILL], validate_array_fill), ([WAH_OP_ARRAY_COPY], validate_array_copy),
    ([WAH_OP_ARRAY_INIT_DATA, WAH_OP_ARRAY_INIT_ELEM], validate_array_init_segment), ([WAH_OP_REF_EQ], validate_ref_eq),
    ([WAH_OP_REF_TEST_NULL, WAH_OP_REF_TEST, WAH_OP_REF_CAST_NULL, WAH_OP_REF_CAST], validate_ref_test_cast),
    ([WAH_OP_BR_ON_CAST, WAH_OP_BR_ON_CAST_FAIL], validate_br_on_cast),
    ([WAH_OP_ANY_CONVERT_EXTERN], \<lambda>_. validate_any_convert_extern), ([WAH_OP_EXTERN_CONVERT_ANY], \<lambda>_. validate_extern_convert_any),
    ([WAH_OP_REF_I31], SIMPLE_OP [WAH_TYPE_I32] WAH_TYPE_I31), ([WAH_OP_I31_GET_S, WAH_OP_I31_GET_U], SIMPLE_OP [WAH_TYPE_I31REF] WAH_TYPE_I32),
    ([WAH_OP_REF_AS_NON_NULL], validate_ref_as_non_null), ([WAH_OP_BR_ON_NULL, WAH_OP_BR_ON_NON_NULL], validate_br_on_null),
    ([WAH_OP_THROW], validate_throw), ([WAH_OP_THROW_REF], validate_throw_ref), ([WAH_OP_TRY_TABLE], validate_try_table)]"

definition validate_cases :: "(nat list \<times> (nat \<Rightarrow> unit vm)) list" where
  "validate_cases = memory_access_cases @ entity_cases @ control_cases @ ref_cases"

definition wah_validate_opcode :: "nat \<Rightarrow> unit vm" where
  "wah_validate_opcode opcode_val =
    v_seq [v_ensure (wah_opclasses opcode_val \<noteq> WAH_OPCLASS_MISSING) WAH_ERROR_MALFORMED,
           validate_const_expr opcode_val,
           case opclass_signature (wah_opclasses opcode_val) of
             Some (pops, push) \<Rightarrow> SIMPLE_OP pops push opcode_val
           | None \<Rightarrow> v_switch validate_cases opcode_val]"

end
