(* ===== verification/Wah_Validate_Inv.thy ===== *)
theory Wah_Validate_Inv
  imports Wah_Validate
begin

text \<open>
  Invariants of the validator. \<open>v_hoare\<close> is partial correctness of a validator operation; the locale
  \<open>validator_property\<close> states what a predicate on the context must survive (reading code, a push, a pop, the
  control operations, ...) for every opcode to preserve it, and proves that once; it rests on \<open>state_property\<close>, for what
  emits no instruction. It is interpreted here on the shape of the stacks, on the frame of the context with the position
  in the code and on the low-water mark of the type stack, and in \<open>Wah_Analyze\<close> on what bodies and constant expressions name.
\<close>

section \<open>Partial correctness of validator operations\<close>

definition v_hoare :: "(wah_validation_context \<Rightarrow> bool) \<Rightarrow> 'a vm \<Rightarrow> ('a \<Rightarrow> wah_validation_context \<Rightarrow> bool) \<Rightarrow> bool" where
  "v_hoare P m Q \<longleftrightarrow> (\<forall>v x v'. P v \<longrightarrow> m v = Inr (x, v') \<longrightarrow> Q x v')"

abbreviation "v_pres P m \<equiv> v_hoare P m (\<lambda>_. P)"

named_theorems v_rules "preservation by the combinators"

lemma v_hoareI: "(\<And>v x v'. P v \<Longrightarrow> m v = Inr (x, v') \<Longrightarrow> Q x v') \<Longrightarrow> v_hoare P m Q"
  by (simp add: v_hoare_def)

lemma v_hoareD: "v_hoare P m Q \<Longrightarrow> P v \<Longrightarrow> m v = Inr (x, v') \<Longrightarrow> Q x v'"
  unfolding v_hoare_def by blast

lemma v_bind_eq_Inr [res_simps]: "v_bind m k v = Inr r \<longleftrightarrow> (\<exists>x v'. m v = Inr (x, v') \<and> k x v' = Inr r)"
  by (auto simp: v_bind_def res_simps)

lemma v_bind_eq_Inl [res_simps]: "v_bind m k v = Inl e \<longleftrightarrow> m v = Inl e \<or> (\<exists>x v'. m v = Inr (x, v') \<and> k x v' = Inl e)"
  by (auto simp: v_bind_def res_simps)

lemma v_ret_apply [simp]: "v_ret x v = Inr (x, v)"
  by (simp add: v_ret_def)

lemma v_fail_apply [simp]: "v_fail e v = Inl e"
  by (simp add: v_fail_def)

lemma v_get_apply [simp]: "v_get f v = Inr (f v, v)"
  by (simp add: v_get_def)

lemma v_modify_apply [simp]: "v_modify f v = Inr ((), f v)"
  by (simp add: v_modify_def)

lemma v_ensure_eq_Inr [res_simps]: "v_ensure c e v = Inr (x, v') \<longleftrightarrow> c \<and> v' = v"
  by (auto simp: v_ensure_def)

lemma v_ensure_eq_Inl [res_simps]: "v_ensure c e v = Inl e' \<longleftrightarrow> \<not> c \<and> e' = e"
  by (auto simp: v_ensure_def)

lemma v_match_eq_Inr [res_simps]: "v_match a t v = Inr (x, v') \<longleftrightarrow> wah_validate_type_match a t (vc_module v) = Inr () \<and> v' = v"
  by (auto simp: v_match_def res_simps)

lemma v_matches_eq_Inr [res_simps]:
  "v_matches as ts v = Inr (x, v') \<longleftrightarrow> list_all (\<lambda>(a, t). wah_validate_type_match a t (vc_module v) = Inr ()) (zip as ts) \<and> v' = v"
proof -
  have "v_seq (map (\<lambda>(a, t). v_match a t) ps) v = Inr (x, v') \<longleftrightarrow>
    list_all (\<lambda>(a, t). wah_validate_type_match a t (vc_module v) = Inr ()) ps \<and> v' = v" for ps
    by (induction ps) (auto simp: res_simps)
  then show ?thesis by (simp add: v_matches_def)
qed

lemma v_seq_modify: "v_seq (v_modify f # ms) v = v_seq ms (f v)"
  by (simp add: v_bind_def)

lemma v_seq_append: "v_seq (xs @ ys) v = v_bind (v_seq xs) (\<lambda>_. v_seq ys) v"
proof (induction xs arbitrary: v)
  case (Cons x xs)
  then show ?case by (cases "x v") (auto simp: v_bind_def)
qed (simp add: v_bind_def)

lemma hoare_bind:
  assumes "v_hoare P m Q" "\<And>x. v_hoare (Q x) (k x) R" shows "v_hoare P (v_bind m k) R"
proof (rule v_hoareI)
  fix v y v''
  assume "P v" and "v_bind m k v = Inr (y, v'')"
  then obtain x v' where "m v = Inr (x, v')" "k x v' = Inr (y, v'')" by (auto simp: res_simps)
  then show "R y v''" using v_hoareD [OF assms(1) \<open>P v\<close>] v_hoareD [OF assms(2)] by blast
qed

lemma pres_bind [v_rules]: "v_pres P m \<Longrightarrow> (\<And>x. v_pres P (k x)) \<Longrightarrow> v_pres P (v_bind m k)"
  by (rule hoare_bind)

lemma pres_ret [v_rules]: "v_pres P (v_ret x)"
  by (rule v_hoareI) simp

lemma pres_fail [v_rules]: "v_pres P (v_fail e)"
  by (rule v_hoareI) simp

lemma pres_ensure [v_rules]: "v_pres P (v_ensure c e)"
  by (rule v_hoareI) (simp add: res_simps)

lemma pres_get [v_rules]: "v_pres P (v_get f)"
  by (rule v_hoareI) auto

lemma pres_match [v_rules]: "v_pres P (v_match a t)"
  by (rule v_hoareI) (simp add: res_simps)

lemma pres_seq_Nil [v_rules]: "v_pres P (v_seq [])"
  by (simp add: pres_ret)

lemma pres_seq_Cons [v_rules]: "v_pres P m \<Longrightarrow> v_pres P (v_seq ms) \<Longrightarrow> v_pres P (v_seq (m # ms))"
  by (simp add: pres_bind)

lemma pres_seq_append [v_rules]: "v_pres P (v_seq xs) \<Longrightarrow> v_pres P (v_seq ys) \<Longrightarrow> v_pres P (v_seq (xs @ ys))"
  by (simp only: v_seq_append [abs_def]) (rule pres_bind)

lemma pres_seq_map [v_rules]: "(\<And>x. v_pres P (f x)) \<Longrightarrow> v_pres P (v_seq (map f xs))"
  by (induction xs) (simp_all add: pres_ret pres_bind)

lemma pres_matches [v_rules]: "v_pres P (v_matches as ts)"
  unfolding v_matches_def by (intro pres_seq_map) (simp add: pres_match split: prod.splits)

lemma pres_if [v_rules]: "(c \<Longrightarrow> v_pres P a) \<Longrightarrow> (\<not> c \<Longrightarrow> v_pres P b) \<Longrightarrow> v_pres P (if c then a else b)"
  by simp

lemma pres_case_prod [v_rules]: "(\<And>a b. v_pres P (f a b)) \<Longrightarrow> v_pres P (case p of (a, b) \<Rightarrow> f a b)"
  by (cases p) simp

lemma pres_case_option [v_rules]:
  "v_pres P a \<Longrightarrow> (\<And>x. v_pres P (f x)) \<Longrightarrow> v_pres P (case z of None \<Rightarrow> a | Some x \<Rightarrow> f x)"
  by (cases z) simp_all

lemma pres_case_list [v_rules]:
  "v_pres P a \<Longrightarrow> (\<And>x xs. v_pres P (f x xs)) \<Longrightarrow> v_pres P (case z of [] \<Rightarrow> a | x # xs \<Rightarrow> f x xs)"
  by (cases z) simp_all

lemma pres_modify: "(\<And>v. P v \<Longrightarrow> P (f v)) \<Longrightarrow> v_pres P (v_modify f)"
  by (rule v_hoareI) auto

section \<open>What the validator leaves of the module\<close>

text \<open>Validation records required features, declared functions and the number of data segments used, which only grows; nothing
  else.\<close>

definition same_entities :: "wah_module \<Rightarrow> wah_module \<Rightarrow> bool" where
  "same_entities m m' \<longleftrightarrow> m' = m\<lparr>required_features := required_features m', declared_funcs := declared_funcs m',
     min_data_segment_count_required := min_data_segment_count_required m'\<rparr>
     \<and> min_data_segment_count_required m \<le> min_data_segment_count_required m'"

lemma same_entities_refl [simp]: "same_entities m m"
  by (simp add: same_entities_def)

lemma same_entities_cases:
  "same_entities m m' \<Longrightarrow> \<exists>f d n. m' = m\<lparr>required_features := f, declared_funcs := d, min_data_segment_count_required := n\<rparr>
    \<and> min_data_segment_count_required m \<le> n"
  unfolding same_entities_def by blast

lemma same_entitiesI:
  "min_data_segment_count_required m \<le> n \<Longrightarrow>
   same_entities m (m\<lparr>required_features := f, declared_funcs := d, min_data_segment_count_required := n\<rparr>)"
  by (simp add: same_entities_def)

lemma same_entities_trans: "same_entities a b \<Longrightarrow> same_entities b c \<Longrightarrow> same_entities a c"
  by (auto dest!: same_entities_cases intro!: same_entitiesI)

lemma same_entities_features: "features_only m m' \<Longrightarrow> same_entities m m'"
proof -
  assume "features_only m m'"
  then obtain f where "m' = m\<lparr>required_features := f\<rparr>" unfolding features_only_def by blast
  then show ?thesis by (simp add: same_entities_def)
qed

lemma same_entities_declare: "same_entities m (wah_declare_func m i)"
proof -
  have "same_entities m (m\<lparr>declared_funcs := d\<rparr>)" for d
    by (simp add: same_entities_def)
  then show ?thesis by (auto simp: wah_declare_func_def Let_def split: option.splits)
qed

lemma same_entities_data: "min_data_segment_count_required m \<le> n \<Longrightarrow> same_entities m (m\<lparr>min_data_segment_count_required := n\<rparr>)"
  by (simp add: same_entities_def)

lemma decode_memarg_frame:
  assumes "wah_decode_memarg m bs = Inr (ma, m', r)" shows "features_only m m' \<and> suffix r bs"
  using assms unfolding wah_decode_memarg_def
  by (auto simp: res_simps split: if_splits dest!: require_feature_frame uleb32.dec_suffix uleb64.dec_suffix
      intro: suffix_order.trans)

lemma take_bytes_suffix: "take_bytes n bs = Inr (x, r) \<Longrightarrow> suffix r bs \<and> x @ r = bs \<and> length x = n"
  by (auto simp: take_bytes_def res_simps suffix_drop)

section \<open>The labels of branch tables\<close>

text \<open>No stamp is ahead of the serial, so that none equals the next serial.\<close>

definition labels_inv :: "wah_br_table_labels \<Rightarrow> bool" where
  "labels_inv l \<longleftrightarrow> length (bl_stamps l) = WAH_MAX_CONTROL_DEPTH + 1 \<and> length (bl_records l) = WAH_MAX_CONTROL_DEPTH + 1
     \<and> (\<forall>s\<in>set (bl_stamps l). s \<le> bl_serial l)"

lemma word_le_plus_one: "(s :: u32) + 1 \<noteq> 0 \<Longrightarrow> s \<le> s + 1"
  using unatSuc [of s] by (simp add: word_le_nat_alt add.commute)

lemma next_serial_inv: "labels_inv l \<Longrightarrow> labels_inv (next_serial l)"
  unfolding labels_inv_def next_serial_def by (auto split: if_splits dest!: bspec intro: order_trans word_le_plus_one)

lemma br_table_add_labels_inv: "labels_inv l \<Longrightarrow> labels_inv (fst (br_table_add i k (l, sy, w)))"
  unfolding labels_inv_def br_table_add_def
  by (auto simp: Let_def dest!: subsetD [OF set_update_subset_insert])

section \<open>Pushing and popping\<close>

lemma push_type_eq_Inr [res_simps]:
  "PUSH t v = Inr (x, v') \<longleftrightarrow> length (vc_stack v) < WAH_MAX_TYPE_STACK_SIZE \<and> v' = count_depth (v\<lparr>vc_stack := t # vc_stack v\<rparr>)"
  by (auto simp: wah_validation_push_type_def wah_type_stack_push_def res_simps)

lemma pop_type_eq_Inr [res_simps]:
  "POP_INTO v = Inr (t, v') \<longleftrightarrow>
    (if vc_depth v \<le> wah_validation_block_base_height v then vc_unreachable v \<and> t = WAH_TYPE_BOT \<and> v' = v
     else \<exists>ts. vc_stack v = t # ts \<and> v' = v\<lparr>vc_stack := ts, vc_lwm := min (vc_lwm v) (length ts), vc_depth := vc_depth v - 1\<rparr>)"
  by (auto simp: wah_validation_pop_type_def wah_type_stack_pop_def res_simps split: list.splits)

lemma pres_conj: "v_pres P m \<Longrightarrow> v_pres Q m \<Longrightarrow> v_pres (\<lambda>v. P v \<and> Q v) m"
  unfolding v_hoare_def by blast

lemma total_locals_push: "v_pres (\<lambda>v. i < vc_total_locals v) (PUSH t)"
  by (rule v_hoareI) (auto simp: res_simps count_depth_def)

lemma total_locals_pop: "v_pres (\<lambda>v. i < vc_total_locals v) (POP t)"
  unfolding wah_validation_pop_and_match_type_def
  by (intro v_rules) (rule v_hoareI, auto simp: res_simps split: if_splits)

lemma total_locals_init [simp]: "vc_total_locals (wah_validation_init_local i t v) = vc_total_locals v"
  by (simp add: wah_validation_init_local_def split: option.splits)

lemma br_table_loop_frame:
  "br_table_loop k i st v = Inr (st', v') \<Longrightarrow> (labels_inv (fst st) \<longrightarrow> labels_inv (fst st')) \<and> (\<exists>bs. suffix bs (vc_code v) \<and> v' = v\<lparr>vc_code := bs\<rparr>)"
proof (induction k arbitrary: i st v)
  case 0
  then show ?case by (auto intro: exI [of _ "vc_code v'"])
next
  case (Suc k)
  from Suc.prems obtain label v1 where step: "v_u32 v = Inr (label, v1)" "br_table_loop k (i + 1) (br_table_add i label st) v1 = Inr (st', v')"
    by (auto simp: res_simps v_label_ok_def)
  from step(1) obtain bs where "v1 = v\<lparr>vc_code := bs\<rparr>" "suffix bs (vc_code v)"
    by (auto simp: v_u32_def v_dec_def res_simps dest: uleb32.dec_suffix)
  with Suc.IH [OF step(2)] show ?case
    using br_table_add_labels_inv [of "fst st" i label "fst (snd st)" "snd (snd st)"] by (auto intro: suffix_order.trans)
qed

section \<open>Predicates that every opcode preserves\<close>

text \<open>
  First the operations that neither emit instructions nor touch the control frames; then all opcodes. A predicate may
  speak of the instructions of some opcodes \<open>S\<close>: emitting another one preserves it by assumption, and that the opcodes
  in \<open>S\<close> preserve it is left to the interpretation.
\<close>

locale state_property =
  fixes P :: "wah_validation_context \<Rightarrow> bool"
  assumes code: "P v \<Longrightarrow> suffix bs (vc_code v) \<Longrightarrow> P (v\<lparr>vc_code := bs\<rparr>)"
    and module: "P v \<Longrightarrow> same_entities (vc_module v) m \<Longrightarrow> P (v\<lparr>vc_module := m\<rparr>)"
    and push: "v_pres P (PUSH t)"
    and pop: "v_pres P POP_INTO"
begin

lemma dec: "(\<And>bs x r. d bs = Inr (x, r) \<Longrightarrow> suffix r bs) \<Longrightarrow> v_pres P (v_dec d)"
  by (auto intro!: v_hoareI code simp: v_dec_def res_simps)

lemma dec_mod: "(\<And>m bs x m' r. d m bs = Inr (x, m', r) \<Longrightarrow> features_only m m' \<and> suffix r bs) \<Longrightarrow> v_pres P (v_dec_mod d)"
  by (rule v_hoareI) (force simp: v_dec_mod_def res_simps
      intro: code [of "v\<lparr>vc_module := m\<rparr>" for v m, simplified] module same_entities_features)

lemma modu: "(\<And>m m'. f m = Inr m' \<Longrightarrow> same_entities m m') \<Longrightarrow> v_pres P (v_mod f)"
  by (auto intro!: v_hoareI module simp: v_mod_def res_simps)

lemma u32: "v_pres P v_u32"
  unfolding v_u32_def by (rule dec) (auto simp: res_simps dest: uleb32.dec_suffix)

lemma byte: "v_pres P v_byte"
  by (rule dec) (auto simp: res_simps suffix_def)

lemma sleb32: "v_pres P (v_dec wah_decode_sleb128_32)"
  by (rule dec) (rule sleb32.dec_suffix)

lemma sleb64: "v_pres P (v_dec wah_decode_sleb128_64)"
  by (rule dec) (rule sleb64.dec_suffix)

lemma heap_type: "v_pres P v_heap_type"
  unfolding v_heap_type_def by (rule dec) (rule heap_type.dec_suffix)

lemma raw: "v_pres P (v_dec (take_bytes n))"
  by (rule dec) (blast dest: take_bytes_suffix)

lemma counted: "v_pres P (v_dec (wah_decode_and_validate_count k))"
  by (rule dec) (rule count_bounds)

lemma memarg: "v_pres P (v_dec_mod wah_decode_memarg)"
  by (rule dec_mod) (rule decode_memarg_frame)

lemma val_type: "v_pres P (v_dec_mod wah_decode_val_type)"
  by (rule dec_mod) (blast dest: val_type_ok)

lemma require: "v_pres P (v_require k)"
  by (rule modu) (blast intro: same_entities_features require_feature_frame)

lemma require_type: "v_pres P (v_require_type t)"
  by (rule modu) (blast intro: same_entities_features require_type_features_frame)

lemma declare_func: "v_pres P (v_mod (\<lambda>m. Inr (wah_declare_func m i)))"
  by (rule modu) (auto intro: same_entities_declare)

lemma use_segment: "v_pres P (use_data_segment i)"
  unfolding use_data_segment_def by (intro v_rules modu) (auto intro: same_entities_data)

lemma pop_match: "v_pres P (POP t)"
  unfolding wah_validation_pop_and_match_type_def by (intro v_rules pop)

lemma pops: "v_pres P (POPS ts)"
  unfolding POPS_def by (intro v_rules pop_match)

lemma pushes: "v_pres P (PUSHES ts)"
  unfolding PUSHES_def by (intro v_rules push)

lemmas state_prims = u32 byte sleb32 sleb64 heap_type raw counted memarg val_type require require_type declare_func
  use_segment pop_match pops pushes push pop

lemmas lookup_defs = v_memory_def v_memarg_addr_def v_called_type_def v_expected_type_def v_func_type_index_ok_def
  v_table_def v_segment_def v_type_def_def v_field_def v_type_index_ok_def v_label_ok_def v_depth_ge_def v_tag_ok_def
  v_pop_ref_def v_array_segment_def v_same_hierarchy_def v_prefix_depth_def v_retype_def v_pop_operands_def
  wah_validation_pop_field_value_def wah_validation_pop_func_params_def wah_validation_push_func_results_def
  wah_validation_check_return_types_def v_indirect_def v_convert_def Let_def

end

locale validator_property = state_property P for P +
  fixes S :: "nat set"
  assumes mark_unreachable: "P v \<Longrightarrow> P (wah_validation_mark_unreachable v)"
    and init_local: "P v \<Longrightarrow> i < vc_total_locals v \<Longrightarrow> P (wah_validation_init_local i t v)"
    and emit: "P v \<Longrightarrow> di_opcode instr \<notin> S \<Longrightarrow> P (v\<lparr>vc_instrs := vc_instrs v @ [instr]\<rparr>)"
    and labels: "P v \<Longrightarrow> vc_labels v = Some l \<Longrightarrow> (labels_inv l \<Longrightarrow> labels_inv l') \<Longrightarrow> P (v\<lparr>vc_labels := Some l'\<rparr>)"
    and block: "opc \<notin> S \<Longrightarrow> v_pres P (validate_block opc)"
    and els: "opc \<notin> S \<Longrightarrow> v_pres P (validate_else opc)"
    and end_block: "opc \<notin> S \<Longrightarrow> v_pres P (validate_end opc)"
    and try_table: "opc \<notin> S \<Longrightarrow> v_pres P (validate_try_table opc)"
    and special: "opc \<in> S \<Longrightarrow> v_pres P (wah_validate_opcode opc)"
begin

lemma emits: "opc \<notin> S \<Longrightarrow> v_pres P (EMIT_INSTR_EX opc imm)"
  unfolding EMIT_INSTR_EX_def by (intro pres_modify emit) simp_all

lemma marks: "v_pres P v_mark_unreachable"
  by (intro pres_modify mark_unreachable)

lemmas prims = state_prims marks

lemma memory_accesses:
  assumes "opc \<notin> S"
  shows "v_pres P (LOAD_OP t n opc)" "v_pres P (STORE_OP t n opc)" "v_pres P (V128_LANE_OP n b opc)"
  "v_pres P (EXTRACT_LANE_OP t n opc)" "v_pres P (REPLACE_LANE_OP t n opc)" "v_pres P (validate_shuffle opc)"
  unfolding LOAD_OP_def STORE_OP_def V128_LANE_OP_def EXTRACT_LANE_OP_def REPLACE_LANE_OP_def validate_shuffle_def lookup_defs
  by (intro v_rules prims emits [OF assms])+

lemma memories:
  assumes "opc \<notin> S"
  shows "v_pres P (validate_memory_size opc)" "v_pres P (validate_memory_grow opc)" "v_pres P (validate_memory_fill opc)"
  "v_pres P (validate_memory_init opc)" "v_pres P (validate_data_drop opc)" "v_pres P (validate_memory_copy opc)"
  unfolding validate_memory_size_def validate_memory_grow_def validate_memory_fill_def validate_memory_init_def
    validate_data_drop_def validate_memory_copy_def lookup_defs
  by (intro v_rules prims emits [OF assms])+

lemma calls:
  assumes "opc \<notin> S"
  shows "v_pres P (validate_call opc)" "v_pres P (validate_call_indirect opc)" "v_pres P (validate_call_ref opc)"
  "v_pres P (validate_return_call opc)" "v_pres P (validate_return_call_indirect opc)" "v_pres P (validate_return_call_ref opc)"
  unfolding validate_call_def validate_call_indirect_def validate_call_ref_def validate_return_call_def
    validate_return_call_indirect_def validate_return_call_ref_def lookup_defs
  by (intro v_rules prims emits [OF assms])+

lemma globs:
  assumes "opc \<notin> S"
  shows "v_pres P (validate_global_get opc)" "v_pres P (validate_global_set opc)"
  unfolding validate_global_get_def validate_global_set_def lookup_defs by (intro v_rules prims emits [OF assms])+

lemma tabs:
  assumes "opc \<notin> S"
  shows "v_pres P (validate_table_get opc)" "v_pres P (validate_table_set opc)" "v_pres P (validate_table_size opc)"
  "v_pres P (validate_table_grow opc)" "v_pres P (validate_table_fill opc)" "v_pres P (validate_table_copy opc)"
  "v_pres P (validate_table_init opc)" "v_pres P (validate_elem_drop opc)"
  unfolding validate_table_get_def validate_table_set_def validate_table_size_def validate_table_grow_def
    validate_table_fill_def validate_table_copy_def validate_table_init_def validate_elem_drop_def lookup_defs
  by (intro v_rules prims emits [OF assms])+

lemma constants:
  assumes "opc \<notin> S"
  shows "v_pres P (validate_i32_const opc)" "v_pres P (validate_i64_const opc)" "v_pres P (validate_f32_const opc)"
  "v_pres P (validate_f64_const opc)" "v_pres P (validate_v128_const opc)" "v_pres P (validate_drop opc)"
  "v_pres P (validate_select opc)" "v_pres P (validate_select_t opc)" "v_pres P (validate_unreachable opc)"
  unfolding validate_i32_const_def validate_i64_const_def validate_f32_const_def validate_f64_const_def validate_v128_const_def
    validate_drop_def validate_select_def validate_select_t_def validate_unreachable_def lookup_defs
  by (intro v_rules prims emits [OF assms])+

lemma refs:
  assumes "opc \<notin> S"
  shows "v_pres P (validate_ref_null opc)" "v_pres P (validate_ref_is_null opc)" "v_pres P (validate_ref_func opc)"
  "v_pres P (validate_ref_eq opc)" "v_pres P (validate_ref_test_cast opc)" "v_pres P (validate_br_on_cast opc)"
  "v_pres P (validate_ref_as_non_null opc)"
  "v_pres P (validate_br_on_null opc)" "v_pres P (validate_throw opc)" "v_pres P (validate_throw_ref opc)"
  unfolding validate_ref_null_def validate_ref_is_null_def validate_ref_func_def validate_ref_eq_def validate_ref_test_cast_def
    validate_br_on_cast_def validate_ref_as_non_null_def
    validate_br_on_null_def validate_throw_def validate_throw_ref_def lookup_defs
  by (intro v_rules prims emits [OF assms])+

lemma converts: "v_pres P validate_any_convert_extern" "v_pres P validate_extern_convert_any"
  unfolding validate_any_convert_extern_def validate_extern_convert_any_def lookup_defs by (intro v_rules prims)+

lemma aggregates:
  assumes "opc \<notin> S"
  shows "v_pres P (validate_struct_new opc)" "v_pres P (validate_struct_get opc)" "v_pres P (validate_struct_set opc)"
  "v_pres P (validate_array_new opc)" "v_pres P (validate_array_new_fixed opc)" "v_pres P (validate_array_get opc)"
  "v_pres P (validate_array_set opc)" "v_pres P (validate_array_len opc)" "v_pres P (validate_array_new_segment opc)"
  "v_pres P (validate_array_fill opc)" "v_pres P (validate_array_copy opc)" "v_pres P (validate_array_init_segment opc)"
  unfolding validate_struct_new_def validate_struct_get_def validate_struct_set_def validate_array_new_def
    validate_array_new_fixed_def validate_array_get_def validate_array_set_def validate_array_len_def
    validate_array_new_segment_def validate_array_fill_def validate_array_copy_def validate_array_init_segment_def lookup_defs
  by (intro v_rules prims emits [OF assms])+

lemma pop_into: "v_pres P (pop_into_loop ts acc)"
  by (induction ts arbitrary: acc) (simp_all, (intro v_rules prims | assumption)+)

lemma branch_decode: "v_pres P (br_table_decode n)"
proof (rule v_hoareI)
  fix v x v'
  assume "P v" and run: "br_table_decode n v = Inr (x, v')"
  from run obtain l st' v1 where l: "vc_labels v = Some l"
    and loop: "br_table_loop (n + 1) 0 (next_serial l, [], replicate ((n + 2) div 2) 0) v = Inr (st', v1)"
    and v': "v' = v1\<lparr>vc_labels := Some (fst st')\<rparr>"
    by (auto simp: br_table_decode_def res_simps simp del: br_table_loop.simps split: option.splits)
  from br_table_loop_frame [OF loop] obtain bs where bs: "suffix bs (vc_code v)" "v1 = v\<lparr>vc_code := bs\<rparr>"
    and inv: "labels_inv (next_serial l) \<longrightarrow> labels_inv (fst st')" by auto
  have "P v1" using code [OF \<open>P v\<close> bs(1)] bs(2) by simp
  then show "P v'" unfolding v' using l bs(2) inv next_serial_inv by (auto intro!: labels)
qed

lemma branches:
  assumes "opc \<notin> S"
  shows "v_pres P (validate_br opc)" "v_pres P (validate_br_table opc)" "v_pres P (validate_return opc)"
  unfolding validate_br_def validate_br_table_def validate_return_def br_table_record_ok_def br_table_types_def lookup_defs
  by (intro v_rules prims emits [OF assms] branch_decode pop_into)+


lemma locs:
  assumes "opc \<notin> S"
  shows "v_pres P (validate_local opc)"
proof -
  let ?R = "\<lambda>i v. P v \<and> i < vc_total_locals v"
  have push': "v_pres (?R i) (PUSH t)" and pop': "v_pres (?R i) (POP t)" for i t
    by (intro pres_conj push pop_match total_locals_push total_locals_pop)+
  have init': "v_pres (?R i) (v_modify (wah_validation_init_local i t))" for i t
    by (rule pres_modify) (simp add: init_local)
  have emit': "v_pres (?R i) (EMIT_INSTR_EX opc imm)" for i imm
    by (rule pres_conj [OF emits [OF assms]]) (simp add: EMIT_INSTR_EX_def pres_modify)
  have bound: "v_hoare P (v_bind (v_get vc_total_locals) (\<lambda>n. v_bind (v_valid (i < n)) (\<lambda>_. k))) (\<lambda>_. P)"
    if "v_pres (?R i) k" for i and k :: "unit vm"
    using that by (auto intro!: v_hoareI simp: res_simps dest: v_hoareD)
  show ?thesis
    unfolding validate_local_def
    by (intro hoare_bind [where P = P, OF u32] bound) (intro v_rules push' pop' init' emit')
qed

lemma const_exprs: "v_pres P (validate_const_expr opc)"
  unfolding validate_const_expr_def by (intro v_rules prims)

lemma simple: "opc \<notin> S \<Longrightarrow> v_pres P (SIMPLE_OP ps p opc)"
  unfolding SIMPLE_OP_def by (intro v_rules prims emits)

lemma switch: "list_all (\<lambda>c. \<forall>opc. opc \<notin> S \<longrightarrow> v_pres P (snd c opc)) cs \<Longrightarrow> opc \<notin> S \<Longrightarrow> v_pres P (v_switch cs opc)"
  by (induction cs) (simp_all add: pres_fail)

lemma validate_cases_pres: "list_all (\<lambda>c. \<forall>opc. opc \<notin> S \<longrightarrow> v_pres P (snd c opc)) validate_cases"
  unfolding validate_cases_def memory_access_cases_def entity_cases_def control_cases_def ref_cases_def
  by (simp add: memory_accesses memories calls globs tabs constants refs converts aggregates branches locs simple block els end_block
      try_table pres_ret)

lemma validate_opcode: "v_pres P (wah_validate_opcode opc)"
proof (cases "opc \<in> S")
  case False
  then show ?thesis
    unfolding wah_validate_opcode_def by (intro v_rules const_exprs simple switch validate_cases_pres)
qed (rule special)

end

text \<open>
  Predicates that do not depend on the control frames: it is enough that they survive the resets of the stack and
  of the locals that \<open>else\<close> and \<open>end\<close> make, and changes of the reachability and of the maximal depth.
\<close>

locale control_free_property = state_property P for P +
  fixes S :: "nat set"
  assumes mark_unreachable: "P v \<Longrightarrow> P (wah_validation_mark_unreachable v)"
    and init_local: "P v \<Longrightarrow> i < vc_total_locals v \<Longrightarrow> P (wah_validation_init_local i t v)"
    and emit: "P v \<Longrightarrow> di_opcode instr \<notin> S \<Longrightarrow> P (v\<lparr>vc_instrs := vc_instrs v @ [instr]\<rparr>)"
    and labels: "P v \<Longrightarrow> vc_labels v = Some l \<Longrightarrow> (labels_inv l \<Longrightarrow> labels_inv l') \<Longrightarrow> P (v\<lparr>vc_labels := Some l'\<rparr>)"
    and control: "P v \<Longrightarrow> P (v\<lparr>vc_control := c\<rparr>)"
    and reachability: "P v \<Longrightarrow> P (v\<lparr>vc_unreachable := u\<rparr>)"
    and max_depth: "P v \<Longrightarrow> P (v\<lparr>vc_max_depth := n\<rparr>)"
    and reset: "P v \<Longrightarrow> P (frame_reset f v)"
    and special: "opc \<in> S \<Longrightarrow> v_pres P (wah_validate_opcode opc)"
begin

lemma block_type: "v_pres P (wah_validation_decode_block_type f)"
  unfolding wah_validation_decode_block_type_def v_type_index_ok_def v_func_type_index_ok_def
  by (intro v_rules val_type modu dec)
    (auto simp: res_simps dest: sleb32.dec_suffix intro: suffix_tail same_entities_features require_feature_frame require_type_features_frame)

lemma stack_ops: "v_pres P (POP t)" "v_pres P (POPS ts)" "v_pres P (PUSHES ts)"
  unfolding wah_validation_pop_and_match_type_def POPS_def PUSHES_def by (intro v_rules pop push)+

lemma emits: "opc \<notin> S \<Longrightarrow> v_pres P (EMIT_INSTR_EX opc imm)"
  unfolding EMIT_INSTR_EX_def by (intro pres_modify emit) simp_all

lemma frames: "v_pres P (v_set_frame f)" "v_pres P (v_push_frame f)" "v_pres P v_reachable"
  unfolding v_set_frame_def v_push_frame_def v_reachable_def by (intro pres_modify control reachability; assumption)+

lemma top: "v_pres P v_top_frame"
  by (rule v_hoareI) (auto simp: v_top_frame_def split: list.splits)

lemma leave: "v_pres P (v_modify leave_block)"
  by (rule pres_modify) (simp add: leave_block_def control [OF reachability, simplified] reachability [OF control, simplified])

lemma catch_list: "v_pres P (catch_loop n acc)"
proof (induction n arbitrary: acc)
  case (Suc n)
  have "v_pres P v_u32" "v_pres P v_byte"
    unfolding v_u32_def by (rule dec; auto simp: res_simps dest: uleb32.dec_suffix intro: suffix_tail)+
  then show ?case
    unfolding catch_loop.simps v_tag_ok_def v_label_ok_def by (intro v_rules Suc.IH)
qed (simp add: pres_ret)

lemma max_raise: "v_pres P (v_modify (raise_max_depth n))"
  by (rule pres_modify) (simp add: raise_max_depth_def max_depth)

lemma control_ops:
  assumes "opc \<notin> S"
  shows "v_pres P (validate_block opc)" "v_pres P (validate_else opc)" "v_pres P (validate_end opc)" "v_pres P (validate_try_table opc)"
  unfolding validate_block_def validate_else_def validate_end_def validate_try_table_def v_control_room_def v_at_height_def
    check_catch_def Let_def
  by (intro v_rules block_type stack_ops emits [OF assms] frames top leave catch_list max_raise pres_modify reset dec
      | rule count_bounds | assumption)+

end

sublocale control_free_property \<subseteq> base: validator_property P S
  by unfold_locales (fact mark_unreachable init_local emit labels control_ops special)+

section \<open>Initialized locals\<close>

text \<open>The undo list names each initialized local once, and no other.\<close>

definition undo_ok :: "bool list \<Rightarrow> nat list \<Rightarrow> bool" where
  "undo_ok inits undo \<longleftrightarrow> distinct undo \<and> (\<forall>i. i \<in> set undo \<longleftrightarrow> i < length inits \<and> inits ! i)"

definition inits_inv :: "nat \<Rightarrow> wah_local_inits \<Rightarrow> bool" where
  "inits_inv n li \<longleftrightarrow> n \<le> length (li_inits li) \<and> undo_ok (li_inits li) (li_undo li)"

lemma undo_ok_tl:
  assumes "undo_ok inits (u # us)" shows "undo_ok (inits[u := False]) us"
proof -
  have "i \<in> set us \<longleftrightarrow> i < length inits \<and> inits[u := False] ! i" for i
    using assms unfolding undo_ok_def by (cases "i = u") (auto simp: nth_list_update)
  then show ?thesis using assms unfolding undo_ok_def by simp
qed

lemma undo_ok_add:
  assumes "undo_ok inits us" "u < length inits" "\<not> inits ! u" shows "undo_ok (inits[u := True]) (u # us)"
proof -
  have "i \<in> set (u # us) \<longleftrightarrow> i < length inits \<and> inits[u := True] ! i" for i
    using assms unfolding undo_ok_def by (cases "i = u") (auto simp: nth_list_update)
  moreover have "u \<notin> set us" using assms unfolding undo_ok_def by blast
  ultimately show ?thesis using assms unfolding undo_ok_def by simp
qed

lemma revert_loop_spec:
  assumes "base \<le> length undo" "undo_ok inits undo"
  shows "\<exists>inits'. revert_loop base inits undo = \<lparr>li_inits = inits', li_undo = drop (length undo - base) undo\<rparr>
    \<and> length inits' = length inits \<and> undo_ok inits' (drop (length undo - base) undo)"
  using assms
proof (induction undo arbitrary: inits)
  case Nil
  then show ?case by (subst revert_loop.simps) simp
next
  case (Cons u us)
  show ?case
  proof (cases "base \<le> length us")
    case False
    then show ?thesis using Cons.prems by (subst revert_loop.simps) simp
  next
    case True
    from Cons.IH [OF True undo_ok_tl [OF Cons.prems(2)]] True show ?thesis
      by (subst revert_loop.simps) (simp add: Suc_diff_le)
  qed
qed

lemma revert_inits:
  assumes "inits_inv n li" "base \<le> length (li_undo li)"
  shows "inits_inv n (wah_local_inits_revert base li) \<and> li_undo (wah_local_inits_revert base li) = drop (length (li_undo li) - base) (li_undo li)"
  using revert_loop_spec [of base "li_undo li" "li_inits li"] assms unfolding inits_inv_def wah_local_inits_revert_def by force

section \<open>The shape of the stacks\<close>

text \<open>From the innermost frame outwards the heights and the undo bases descend.\<close>

fun frames_ok :: "nat \<Rightarrow> nat \<Rightarrow> wah_validation_control_frame list \<Rightarrow> bool" where
  "frames_ok d u [] \<longleftrightarrow> True"
| "frames_ok d u (f # fs) \<longleftrightarrow> cf_type_stack_sp f = cf_stack_height f \<and> cf_stack_height f \<le> d \<and> cf_local_init_undo_base f \<le> u
     \<and> frames_ok (cf_stack_height f) (cf_local_init_undo_base f) fs"

definition stack_inv :: "wah_validation_context \<Rightarrow> bool" where
  "stack_inv v \<longleftrightarrow> length (vc_stack v) = vc_depth v \<and> vc_depth v \<le> WAH_MAX_TYPE_STACK_SIZE \<and> vc_depth v \<le> vc_max_depth v
     \<and> length (vc_control v) \<le> WAH_MAX_CONTROL_DEPTH \<and> frames_ok (vc_depth v) (undo_len v) (vc_control v)
     \<and> pred_option (inits_inv (vc_total_locals v)) (vc_local_inits v) \<and> pred_option labels_inv (vc_labels v)"

lemma frames_ok_mono: "frames_ok d u fs \<Longrightarrow> d \<le> d' \<Longrightarrow> u \<le> u' \<Longrightarrow> frames_ok d' u' fs"
  by (cases fs) auto

lemma frames_ok_base: "frames_ok d u (vc_control v) \<Longrightarrow> wah_validation_block_base_height v \<le> d"
  by (auto simp: wah_validation_block_base_height_def split: list.splits)

lemma frames_ok_at_base: "frames_ok d u (vc_control v) \<Longrightarrow> wah_validation_block_base_height v \<le> d' \<Longrightarrow> frames_ok d' u (vc_control v)"
  by (auto simp: wah_validation_block_base_height_def split: list.splits)

lemma undo_len_simps [simp]:
  "undo_len (v\<lparr>vc_stack := s\<rparr>) = undo_len v" "undo_len (v\<lparr>vc_lwm := n\<rparr>) = undo_len v" "undo_len (v\<lparr>vc_depth := n\<rparr>) = undo_len v"
  "undo_len (v\<lparr>vc_max_depth := n\<rparr>) = undo_len v" "undo_len (v\<lparr>vc_code := bs\<rparr>) = undo_len v" "undo_len (v\<lparr>vc_module := m\<rparr>) = undo_len v"
  "undo_len (v\<lparr>vc_instrs := is\<rparr>) = undo_len v" "undo_len (v\<lparr>vc_labels := l\<rparr>) = undo_len v" "undo_len (v\<lparr>vc_unreachable := b\<rparr>) = undo_len v"
  "undo_len (v\<lparr>vc_control := c\<rparr>) = undo_len v"
  by (simp_all add: undo_len_def)

lemma base_height_simps [simp]:
  "wah_validation_block_base_height (v\<lparr>vc_stack := s\<rparr>) = wah_validation_block_base_height v"
  "wah_validation_block_base_height (v\<lparr>vc_lwm := n\<rparr>) = wah_validation_block_base_height v"
  "wah_validation_block_base_height (v\<lparr>vc_depth := n\<rparr>) = wah_validation_block_base_height v"
  "wah_validation_block_base_height (v\<lparr>vc_code := bs\<rparr>) = wah_validation_block_base_height v"
  "wah_validation_block_base_height (v\<lparr>vc_module := m\<rparr>) = wah_validation_block_base_height v"
  by (simp_all add: wah_validation_block_base_height_def)

lemma stack_inv_frame [simp]:
  "stack_inv (v\<lparr>vc_code := bs\<rparr>) = stack_inv v" "stack_inv (v\<lparr>vc_module := m\<rparr>) = stack_inv v"
  "stack_inv (v\<lparr>vc_instrs := is\<rparr>) = stack_inv v" "stack_inv (v\<lparr>vc_unreachable := b\<rparr>) = stack_inv v"
  by (simp_all add: stack_inv_def)

lemma stack_inv_count: "stack_inv v \<Longrightarrow> length (vc_stack v) < WAH_MAX_TYPE_STACK_SIZE \<Longrightarrow> stack_inv (count_depth (v\<lparr>vc_stack := t # vc_stack v\<rparr>))"
  by (auto simp: stack_inv_def count_depth_def elim: frames_ok_mono)

lemma stack_inv_push: "v_pres stack_inv (PUSH t)"
  by (rule v_hoareI) (simp add: res_simps stack_inv_count)

lemma stack_inv_lower:
  assumes "stack_inv v" "wah_validation_block_base_height v \<le> d" "d \<le> vc_depth v" "length ts = d"
  shows "stack_inv (v\<lparr>vc_stack := ts, vc_lwm := n, vc_depth := d\<rparr>)"
  using assms frames_ok_at_base [of "vc_depth v" "undo_len v" v d] by (simp add: stack_inv_def)

lemma stack_inv_pop: "v_pres stack_inv POP_INTO"
proof (rule v_hoareI)
  fix v t v'
  assume inv: "stack_inv v" and "POP_INTO v = Inr (t, v')"
  then consider "v' = v" | ts where "vc_depth v > wah_validation_block_base_height v" "vc_stack v = t # ts"
    "v' = v\<lparr>vc_stack := ts, vc_lwm := min (vc_lwm v) (length ts), vc_depth := vc_depth v - 1\<rparr>"
    by (auto simp: res_simps split: if_splits)
  then show "stack_inv v'"
  proof cases
    case 2
    then have "length ts = vc_depth v - 1" using inv by (auto simp: stack_inv_def)
    then show ?thesis unfolding 2(3) using inv 2(1) by (intro stack_inv_lower) auto
  qed (use inv in simp)
qed

lemma truncate_eq: "wah_type_stack_truncate sp v = v\<lparr>vc_stack := drop (length (vc_stack v) - sp) (vc_stack v), vc_lwm := min sp (vc_lwm v)\<rparr>"
  by (simp add: wah_type_stack_truncate_def min_def)

lemma stack_inv_mark: "stack_inv v \<Longrightarrow> stack_inv (wah_validation_mark_unreachable v)"
  unfolding wah_validation_mark_unreachable_def truncate_eq Let_def
  by (auto intro!: stack_inv_lower) (simp add: stack_inv_def)

lemma stack_inv_init: "stack_inv v \<Longrightarrow> i < vc_total_locals v \<Longrightarrow> stack_inv (wah_validation_init_local i t v)"
  unfolding wah_validation_init_local_def
  by (auto simp: stack_inv_def inits_inv_def undo_len_def undo_ok_add elim!: frames_ok_mono split: option.splits)

lemma stack_inv_labels: "stack_inv v \<Longrightarrow> vc_labels v = Some l \<Longrightarrow> (labels_inv l \<Longrightarrow> labels_inv l') \<Longrightarrow> stack_inv (v\<lparr>vc_labels := Some l'\<rparr>)"
  by (simp add: stack_inv_def)

section \<open>Blocks keep the shape\<close>

definition reads_only :: "wah_validation_context \<Rightarrow> wah_validation_context \<Rightarrow> bool" where
  "reads_only v w \<longleftrightarrow> v = w\<lparr>vc_code := vc_code v, vc_module := vc_module v\<rparr>"

lemma reads_only_self: "reads_only v v"
  by (simp add: reads_only_def)

lemma reads_only_code: "reads_only v w \<Longrightarrow> reads_only v (w\<lparr>vc_code := bs\<rparr>)"
  by (simp add: reads_only_def)

lemma reads_only_module: "reads_only v w \<Longrightarrow> reads_only v (w\<lparr>vc_module := m\<rparr>)"
  by (simp add: reads_only_def)

lemma reads_only_obtain:
  assumes "reads_only v w" obtains c m where "v = w\<lparr>vc_code := c, vc_module := m\<rparr>"
  using assms unfolding reads_only_def by blast

lemma reads_only_control: "reads_only v w \<Longrightarrow> vc_control w = vc_control v"
  by (erule reads_only_obtain) simp

lemma reads_only_dec: "v_pres (reads_only v) (v_dec d)"
  by (rule v_hoareI) (auto simp: v_dec_def res_simps intro: reads_only_code)

lemma reads_only_mod: "v_pres (reads_only v) (v_mod d)"
  by (rule v_hoareI) (auto simp: v_mod_def res_simps intro: reads_only_module)

lemma reads_only_dec_mod: "v_pres (reads_only v) (v_dec_mod d)"
  by (rule v_hoareI) (auto simp: v_dec_mod_def res_simps intro: reads_only_code reads_only_module)

lemmas reads_only_rules = reads_only_dec reads_only_dec_mod reads_only_mod

lemma decode_block_type_frame:
  assumes "wah_validation_decode_block_type f v = Inr (f', v')"
  shows "reads_only v v'" "\<exists>ps rs s i. f' = set_block_type ps rs s i f"
proof -
  have "v_pres (reads_only v) (wah_validation_decode_block_type f)"
    unfolding wah_validation_decode_block_type_def v_type_index_ok_def v_func_type_index_ok_def
    by (intro v_rules reads_only_rules)
  from v_hoareD [OF this reads_only_self assms] show "reads_only v v'" .
  show "\<exists>ps rs s i. f' = set_block_type ps rs s i f"
    using assms unfolding wah_validation_decode_block_type_def
    by (auto simp: res_simps split: list.splits if_splits)
qed

text \<open>While its parameters are popped, a new frame has the height of its parent, and what is below it is in shape.\<close>

definition entering :: "wah_validation_context \<Rightarrow> bool" where
  "entering v \<longleftrightarrow> (\<exists>f fs. vc_control v = f # fs \<and> length fs < WAH_MAX_CONTROL_DEPTH \<and> stack_inv (v\<lparr>vc_control := fs\<rparr>)
     \<and> cf_stack_height f = wah_validation_block_base_height (v\<lparr>vc_control := fs\<rparr>))"

lemma entering_pop: "v_pres entering POP_INTO"
proof (rule v_hoareI)
  fix v t v'
  assume "entering v" and pop: "POP_INTO v = Inr (t, v')"
  then obtain f fs where f: "vc_control v = f # fs" "length fs < WAH_MAX_CONTROL_DEPTH" "stack_inv (v\<lparr>vc_control := fs\<rparr>)"
    "cf_stack_height f = wah_validation_block_base_height (v\<lparr>vc_control := fs\<rparr>)" unfolding entering_def by blast
  then have base: "wah_validation_block_base_height v = wah_validation_block_base_height (v\<lparr>vc_control := fs\<rparr>)"
    by (simp add: wah_validation_block_base_height_def)
  have "POP_INTO (v\<lparr>vc_control := fs\<rparr>) = Inr (t, v'\<lparr>vc_control := fs\<rparr>)" and c: "vc_control v' = f # fs"
    using pop f(1) unfolding pop_type_eq_Inr base by (auto split: if_splits)
  from v_hoareD [OF stack_inv_pop f(3) this(1)] have "stack_inv (v'\<lparr>vc_control := fs\<rparr>)" .
  moreover have "wah_validation_block_base_height (v'\<lparr>vc_control := fs\<rparr>) = wah_validation_block_base_height (v\<lparr>vc_control := fs\<rparr>)"
    by (simp add: wah_validation_block_base_height_def)
  ultimately show "entering v'" using c f(2,4) unfolding entering_def by auto
qed

lemma entering_pops: "v_pres entering (POPS ts)"
  unfolding POPS_def wah_validation_pop_and_match_type_def by (intro v_rules entering_pop)

lemma entering_reads [simp]: "entering (v\<lparr>vc_code := bs\<rparr>) = entering v" "entering (v\<lparr>vc_module := m\<rparr>) = entering v"
  by (simp_all add: entering_def stack_inv_def wah_validation_block_base_height_def)

lemma entering_set: "entering v \<Longrightarrow> cf_stack_height f = cf_stack_height (hd (vc_control v)) \<Longrightarrow> entering (v\<lparr>vc_control := f # tl (vc_control v)\<rparr>)"
  unfolding entering_def by (auto simp: wah_validation_block_base_height_def)

lemma entering_entered:
  assumes "entering v" shows "stack_inv (v\<lparr>vc_control := frame_enter v f # tl (vc_control v)\<rparr>)"
  using assms unfolding entering_def stack_inv_def frame_enter_def by auto

lemma stack_inv_pops: "v_pres stack_inv (POPS ts)"
  unfolding POPS_def wah_validation_pop_and_match_type_def by (intro v_rules stack_inv_pop)

lemma stack_inv_pushes: "v_pres stack_inv (PUSHES ts)"
  unfolding PUSHES_def by (intro v_rules stack_inv_push)

lemma stack_inv_emit: "v_pres stack_inv (EMIT_INSTR_EX opc imm)"
  unfolding EMIT_INSTR_EX_def by (rule pres_modify) simp

lemma stack_inv_reachable: "v_pres stack_inv v_reachable"
  unfolding v_reachable_def by (rule pres_modify) simp

lemma stack_inv_block: "v_pres stack_inv (validate_block opc)"
proof (rule v_hoareI)
  fix v x v'
  assume inv: "stack_inv v" and run: "validate_block opc v = Inr (x, v')"
  let ?c = "if opc = WAH_OP_IF then POP WAH_TYPE_I32 else v_ret ()"
  from run obtain v1 f v2 v3 where
    v1: "?c v = Inr ((), v1)" "length (vc_control v1) < WAH_MAX_CONTROL_DEPTH" and
    f: "wah_validation_decode_block_type (new_frame opc v1) (v1\<lparr>vc_control := new_frame opc v1 # vc_control v1\<rparr>) = Inr (f, v2)" and
    v3: "POPS (cf_param_types f) (v2\<lparr>vc_control := f # tl (vc_control v2)\<rparr>) = Inr ((), v3)" and
    rest: "v_seq [v_set_frame (frame_enter v3 f), PUSHES (cf_param_types (frame_enter v3 f)), v_reachable,
       EMIT_INSTR_EX opc (IMM_block (cf_block_type_idx (frame_enter v3 f)) (cf_single_result (frame_enter v3 f)))] v3 = Inr (x, v')"
    unfolding validate_block_def v_control_room_def v_push_frame_def v_set_frame_def by (auto simp: res_simps simp del: if_split)
  have "v_pres stack_inv ?c" by (intro v_rules) (auto simp: wah_validation_pop_and_match_type_def intro: v_rules stack_inv_pop)
  then have "stack_inv v1" using inv v1(1) by (rule v_hoareD)
  then have "entering (v1\<lparr>vc_control := new_frame opc v1 # vc_control v1\<rparr>)"
    using v1(2) by (simp add: entering_def new_frame_def)
  then have "entering v2" "vc_control v2 = new_frame opc v1 # vc_control v1"
    using decode_block_type_frame(1) [OF f] reads_only_control [OF decode_block_type_frame(1) [OF f]] by (auto elim!: reads_only_obtain)
  with decode_block_type_frame(2) [OF f] have "entering (v2\<lparr>vc_control := f # tl (vc_control v2)\<rparr>)"
    by (intro entering_set) (auto simp: set_block_type_def)
  from v_hoareD [OF entering_pops this v3] have entered: "stack_inv (v3\<lparr>vc_control := frame_enter v3 f # tl (vc_control v3)\<rparr>)"
    by (rule entering_entered)
  have tail: "v_pres stack_inv (v_seq [PUSHES ts, v_reachable, EMIT_INSTR_EX opc i])" for ts i
    by (intro v_rules stack_inv_pushes stack_inv_reachable stack_inv_emit)
  show "stack_inv v'"
    by (rule v_hoareD [OF tail entered]) (use rest in \<open>simp add: v_set_frame_def v_seq_modify del: v_seq.simps\<close>)
qed

text \<open>What \<open>else\<close> and \<open>end\<close> find and leave: the frames do not change while operands are popped.\<close>

lemma pops_control: "v_pres (\<lambda>v. vc_control v = c) (POPS ts)"
  unfolding POPS_def wah_validation_pop_and_match_type_def by (intro v_rules) (rule v_hoareI, auto simp: res_simps split: if_splits)

lemma stack_inv_pops_control: "v_pres (\<lambda>v. stack_inv v \<and> vc_control v = c) (POPS ts)"
  by (intro pres_conj stack_inv_pops pops_control)

lemma frame_reset_eq:
  assumes "length (vc_stack v) = vc_depth v" "vc_depth v = cf_type_stack_sp f"
  shows "frame_reset f v = v\<lparr>vc_lwm := min (vc_depth v) (vc_lwm v),
    vc_local_inits := map_option (wah_local_inits_revert (cf_local_init_undo_base f)) (vc_local_inits v)\<rparr>"
  using assms by (simp add: frame_reset_def wah_validation_restore_local_inits_def truncate_eq)

lemma frame_reset_inv:
  assumes "stack_inv v" "vc_control v = g # fs" "vc_depth v = cf_stack_height g" "cf_type_stack_sp f = cf_type_stack_sp g"
    "cf_local_init_undo_base f = cf_local_init_undo_base g"
  shows "stack_inv (frame_reset f v) \<and> vc_control (frame_reset f v) = g # fs \<and> vc_depth (frame_reset f v) = cf_stack_height g
    \<and> undo_len (frame_reset f v) = (if vc_local_inits v = None then 0 else cf_local_init_undo_base g)"
proof -
  have g: "cf_type_stack_sp g = cf_stack_height g" "cf_local_init_undo_base g \<le> undo_len v"
    using assms(1,2) by (auto simp: stack_inv_def)
  have "inits_inv n (wah_local_inits_revert (cf_local_init_undo_base g) li)
    \<and> length (li_undo (wah_local_inits_revert (cf_local_init_undo_base g) li)) = cf_local_init_undo_base g"
    if "vc_local_inits v = Some li" "inits_inv n li" for li n
    using revert_inits [OF that(2), of "cf_local_init_undo_base g"] that(1) g(2) by (simp add: undo_len_def)
  moreover have "frame_reset f v = v\<lparr>vc_lwm := min (vc_depth v) (vc_lwm v),
    vc_local_inits := map_option (wah_local_inits_revert (cf_local_init_undo_base g)) (vc_local_inits v)\<rparr>"
    using assms g by (subst frame_reset_eq) (auto simp: stack_inv_def)
  ultimately show ?thesis using assms(1-3) g by (cases "vc_local_inits v") (auto simp: stack_inv_def undo_len_def)
qed

lemma leave_block_inv:
  assumes "stack_inv v" "vc_control v = g # fs" "vc_depth v = cf_stack_height g" "undo_len v = (if vc_local_inits v = None then 0 else cf_local_init_undo_base g)"
  shows "stack_inv (leave_block v)"
  using assms by (auto simp: stack_inv_def leave_block_def undo_len_def elim: frames_ok_mono split: option.splits if_splits)

lemma stack_inv_end: "v_pres stack_inv (validate_end opc)"
proof (rule v_hoareI)
  fix v x v'
  assume inv: "stack_inv v" and run: "validate_end opc v = Inr (x, v')"
  from run obtain f fs w where f: "vc_control v = f # fs" and w: "POPS (cf_result_types f) v = Inr ((), w)" "vc_depth w = cf_stack_height f"
    and rest: "v_seq [PUSHES (cf_result_types f), EMIT_SIMPLE opc] (leave_block (frame_reset f w)) = Inr (x, v')"
    unfolding validate_end_def v_top_frame_def v_at_height_def by (auto simp: res_simps split: list.splits if_splits)
  have "stack_inv w \<and> vc_control w = f # fs"
    using v_hoareD [OF stack_inv_pops_control _ w(1), of "f # fs"] inv f by simp
  then have start: "stack_inv (leave_block (frame_reset f w))"
    using frame_reset_inv [of w f fs f] w(2) by (intro leave_block_inv) (auto simp: frame_reset_def wah_validation_restore_local_inits_def truncate_eq)
  have tail: "v_pres stack_inv (v_seq [PUSHES (cf_result_types f), EMIT_SIMPLE opc])"
    by (intro v_rules stack_inv_pushes stack_inv_emit)
  show "stack_inv v'" by (rule v_hoareD [OF tail start rest])
qed

lemma stack_inv_else: "v_pres stack_inv (validate_else opc)"
proof (rule v_hoareI)
  fix v x v'
  assume inv: "stack_inv v" and run: "validate_else opc v = Inr (x, v')"
  let ?g = "\<lambda>f. f\<lparr>cf_else_found := True\<rparr>"
  from run obtain f fs w where f: "vc_control v = f # fs" and w: "POPS (cf_result_types f) (v\<lparr>vc_control := ?g f # fs\<rparr>) = Inr ((), w)"
    "vc_depth w = cf_stack_height f"
    and rest: "v_seq [PUSHES (cf_param_types f), v_reachable, EMIT_SIMPLE opc] (frame_reset f w) = Inr (x, v')"
    unfolding validate_else_def v_top_frame_def v_at_height_def v_set_frame_def by (auto simp: res_simps split: list.splits if_splits)
  have "stack_inv (v\<lparr>vc_control := ?g f # fs\<rparr>)" using inv f by (simp add: stack_inv_def)
  then have "stack_inv w \<and> vc_control w = ?g f # fs"
    using v_hoareD [OF stack_inv_pops_control _ w(1), of "?g f # fs"] by simp
  then have start: "stack_inv (frame_reset f w)" using frame_reset_inv [of w "?g f" fs f] w(2) by simp
  have tail: "v_pres stack_inv (v_seq [PUSHES (cf_param_types f), v_reachable, EMIT_SIMPLE opc])"
    by (intro v_rules stack_inv_pushes stack_inv_emit stack_inv_reachable)
  show "stack_inv v'" by (rule v_hoareD [OF tail start rest])
qed

lemma stack_inv_reads: "v_pres stack_inv (v_dec d)" "v_pres stack_inv (v_dec_mod e)" "v_pres stack_inv (v_mod g)"
  by (rule v_hoareI; auto simp: v_dec_def v_dec_mod_def v_mod_def res_simps)+

lemma control_reads: "v_pres (\<lambda>v. vc_control v = c) (v_dec d)"
  by (rule v_hoareI) (auto simp: v_dec_def res_simps)

lemma inv_control_dec: "v_pres (\<lambda>v. stack_inv v \<and> vc_control v = c) (v_dec d)"
  by (intro pres_conj stack_inv_reads control_reads)

lemma inv_control_catches: "v_pres (\<lambda>v. stack_inv v \<and> vc_control v = c) (catch_loop n acc)"
proof (induction n arbitrary: acc)
  case (Suc n)
  show ?case unfolding catch_loop.simps v_tag_ok_def v_label_ok_def v_u32_def by (intro v_rules inv_control_dec Suc.IH)
qed (simp add: pres_ret)

lemma stack_inv_check: "v_pres stack_inv (check_catch f c)"
  unfolding check_catch_def Let_def by (intro v_rules pres_modify) (auto simp: stack_inv_def raise_max_depth_def)

lemma stack_inv_try: "v_pres stack_inv (validate_try_table opc)"
proof (rule v_hoareI)
  fix v x v'
  assume inv: "stack_inv v" and run: "validate_try_table opc v = Inr (x, v')"
  from run obtain f v1 n v2 cs v3 w where room: "length (vc_control v) < WAH_MAX_CONTROL_DEPTH"
    and f: "wah_validation_decode_block_type (new_frame opc v) v = Inr (f, v1)"
    and v2: "v_dec (wah_decode_and_validate_count 2) v1 = Inr (n, v2)" and v3: "catch_loop n [] v2 = Inr (cs, v3)"
    and w: "POPS (cf_param_types f) v3 = Inr ((), w)"
    and rest: "v_seq [v_seq (map (check_catch (frame_enter w f)) cs), PUSHES (cf_param_types (frame_enter w f)), v_reachable,
      EMIT_INSTR_EX opc (IMM_try_table (cf_block_type_idx (frame_enter w f)) (cf_single_result (frame_enter w f))
        (map (catch_drop (frame_enter w f) (w\<lparr>vc_control := frame_enter w f # vc_control w\<rparr>)) cs))]
      (w\<lparr>vc_control := frame_enter w f # vc_control w\<rparr>) = Inr (x, v')"
    unfolding validate_try_table_def v_control_room_def v_push_frame_def by (auto simp: res_simps simp del: v_seq.simps)
  have "stack_inv v1 \<and> vc_control v1 = vc_control v"
    using inv decode_block_type_frame(1) [OF f] reads_only_control [OF decode_block_type_frame(1) [OF f]] by (auto elim!: reads_only_obtain)
  from v_hoareD [OF stack_inv_pops_control v_hoareD [OF inv_control_catches v_hoareD [OF inv_control_dec this v2] v3] w]
  have start: "stack_inv (w\<lparr>vc_control := frame_enter w f # vc_control w\<rparr>)"
    using room unfolding stack_inv_def frame_enter_def by auto
  have tail: "v_pres stack_inv (v_seq [v_seq (map (check_catch (frame_enter w f)) cs), PUSHES ts, v_reachable, EMIT_INSTR_EX opc i])" for ts i
    by (intro v_rules stack_inv_pushes stack_inv_emit stack_inv_reachable stack_inv_check)
  show "stack_inv v'" by (rule v_hoareD [OF tail start rest])
qed

interpretation stacks: validator_property stack_inv "{}"
  by unfold_locales
    (simp_all add: stack_inv_push stack_inv_pop stack_inv_mark stack_inv_init stack_inv_labels stack_inv_block stack_inv_else
      stack_inv_end stack_inv_try)

section \<open>What validation leaves alone\<close>

text \<open>The function, its locals and the entities of the module do not change, and the code is only read forwards.\<close>

definition same_function :: "wah_validation_context \<Rightarrow> wah_validation_context \<Rightarrow> bool" where
  "same_function v w \<longleftrightarrow> vc_mode w = vc_mode v \<and> vc_func_type w = vc_func_type v \<and> vc_total_locals w = vc_total_locals v
     \<and> vc_max_global_idx w = vc_max_global_idx v \<and> vc_locals w = vc_locals v \<and> same_entities (vc_module v) (vc_module w)
     \<and> suffix (vc_code w) (vc_code v)"

lemma same_function_refl [simp]: "same_function v v"
  by (simp add: same_function_def)

lemma same_function_frame [simp]:
  "same_function u (v\<lparr>vc_stack := s\<rparr>) = same_function u v" "same_function u (v\<lparr>vc_lwm := n\<rparr>) = same_function u v"
  "same_function u (v\<lparr>vc_depth := n\<rparr>) = same_function u v" "same_function u (v\<lparr>vc_max_depth := n\<rparr>) = same_function u v"
  "same_function u (v\<lparr>vc_unreachable := b\<rparr>) = same_function u v" "same_function u (v\<lparr>vc_control := c\<rparr>) = same_function u v"
  "same_function u (v\<lparr>vc_local_inits := li\<rparr>) = same_function u v" "same_function u (v\<lparr>vc_labels := l\<rparr>) = same_function u v"
  "same_function u (v\<lparr>vc_instrs := is\<rparr>) = same_function u v"
  by (simp_all add: same_function_def)

lemma same_function_mark: "same_function u (wah_validation_mark_unreachable v) = same_function u v"
  by (simp add: wah_validation_mark_unreachable_def truncate_eq Let_def)

lemma same_function_init: "same_function u (wah_validation_init_local i t v) = same_function u v"
  by (simp add: wah_validation_init_local_def split: option.splits)

lemma same_function_reset: "same_function u (frame_reset f v) = same_function u v"
  by (simp add: frame_reset_def wah_validation_restore_local_inits_def truncate_eq)

interpretation func: control_free_property "same_function u" "{}" for u
proof unfold_locales
  show "v_pres (same_function u) (PUSH t)" for t by (rule v_hoareI) (simp add: res_simps count_depth_def)
  show "v_pres (same_function u) POP_INTO" by (rule v_hoareI) (auto simp: res_simps split: if_splits)
  show "same_function u (v\<lparr>vc_code := bs\<rparr>)" if "same_function u v" "suffix bs (vc_code v)" for v bs
    using that by (auto simp: same_function_def intro: suffix_order.trans)
  show "same_function u (v\<lparr>vc_module := m\<rparr>)" if "same_function u v" "same_entities (vc_module v) m" for v m
    using that by (auto simp: same_function_def intro: same_entities_trans)
qed (simp_all add: same_function_mark same_function_init same_function_reset)

section \<open>The low-water mark\<close>

text \<open>
  \<open>lwm\<close> bounds how far down the type stack has been touched since it was last set to the depth: below it the stack,
  listed from the bottom, still has the entries \<open>cap\<close> it had then.
\<close>

definition lwm_ok :: "wah_type list \<Rightarrow> wah_validation_context \<Rightarrow> bool" where
  "lwm_ok cap v \<longleftrightarrow> vc_lwm v \<le> length (vc_stack v) \<and> vc_lwm v \<le> length cap \<and> take (vc_lwm v) (rev (vc_stack v)) = take (vc_lwm v) cap"

lemma lwm_ok_frame [simp]:
  "lwm_ok u (v\<lparr>vc_depth := n\<rparr>) = lwm_ok u v" "lwm_ok u (v\<lparr>vc_max_depth := n\<rparr>) = lwm_ok u v"
  "lwm_ok u (v\<lparr>vc_unreachable := b\<rparr>) = lwm_ok u v" "lwm_ok u (v\<lparr>vc_control := c\<rparr>) = lwm_ok u v"
  "lwm_ok u (v\<lparr>vc_local_inits := li\<rparr>) = lwm_ok u v" "lwm_ok u (v\<lparr>vc_labels := l\<rparr>) = lwm_ok u v"
  "lwm_ok u (v\<lparr>vc_instrs := is\<rparr>) = lwm_ok u v" "lwm_ok u (v\<lparr>vc_code := bs\<rparr>) = lwm_ok u v" "lwm_ok u (v\<lparr>vc_module := m\<rparr>) = lwm_ok u v"
  by (simp_all add: lwm_ok_def)

lemma lwm_ok_drop:
  assumes "lwm_ok cap v" "n \<le> length (vc_stack v) - k"
  shows "lwm_ok cap (v\<lparr>vc_stack := drop k (vc_stack v), vc_lwm := min n (vc_lwm v)\<rparr>)"
proof -
  let ?n = "min n (vc_lwm v)"
  have "take ?n (rev (drop k (vc_stack v))) = take ?n (take (length (vc_stack v) - k) (rev (vc_stack v)))"
    by (simp only: take_rev [symmetric] rev_drop)
  also have "\<dots> = take ?n (rev (vc_stack v))" using assms(2) by (simp add: min_def)
  also have "\<dots> = take n (take (vc_lwm v) (rev (vc_stack v)))" by (simp add: min.commute)
  also have "\<dots> = take ?n cap" using assms(1) by (simp add: lwm_ok_def min.commute)
  finally show ?thesis using assms by (auto simp: lwm_ok_def)
qed

lemma lwm_ok_truncate:
  assumes "lwm_ok cap v" shows "lwm_ok cap (wah_type_stack_truncate n v)"
proof (cases "n \<le> length (vc_stack v)")
  case True
  then show ?thesis unfolding truncate_eq by (intro lwm_ok_drop assms) simp
next
  case False
  then have "vc_lwm v \<le> n" using assms by (simp add: lwm_ok_def)
  then show ?thesis using assms False by (simp add: truncate_eq lwm_ok_def)
qed

lemma lwm_ok_mark: "lwm_ok cap v \<Longrightarrow> lwm_ok cap (wah_validation_mark_unreachable v)"
  by (simp add: wah_validation_mark_unreachable_def Let_def lwm_ok_truncate)

lemma lwm_ok_reset: "lwm_ok cap v \<Longrightarrow> lwm_ok cap (frame_reset f v)"
  by (simp add: frame_reset_def wah_validation_restore_local_inits_def lwm_ok_truncate)

lemma lwm_ok_push: "v_pres (lwm_ok cap) (PUSH t)"
  by (rule v_hoareI) (auto simp: res_simps count_depth_def lwm_ok_def)

lemma lwm_ok_pop: "v_pres (lwm_ok cap) POP_INTO"
proof (rule v_hoareI)
  fix v t v'
  assume inv: "lwm_ok cap v" and "POP_INTO v = Inr (t, v')"
  then consider "v' = v" | ts where "vc_stack v = t # ts" "v' = v\<lparr>vc_stack := ts, vc_lwm := min (vc_lwm v) (length ts), vc_depth := vc_depth v - 1\<rparr>"
    by (auto simp: res_simps split: if_splits)
  then show "lwm_ok cap v'"
  proof cases
    case 2
    then show ?thesis using lwm_ok_drop [OF inv, of "length ts" 1] by (simp add: min.commute)
  qed (use inv in simp)
qed

interpretation mark: control_free_property "lwm_ok cap" "{}" for cap
  by unfold_locales (simp_all add: lwm_ok_push lwm_ok_pop lwm_ok_mark lwm_ok_reset wah_validation_init_local_def split: option.splits)

end
