(* ===== verification/Wah_Validate_Spec.thy ===== *)
theory Wah_Validate_Spec
  imports Wah_Validate_Inv
begin

text \<open>
  What the validator promises: its invariant, what an opcode may change, the exact behaviour of the opcodes that
  are described by a signature, the undoing of initialized locals at the end of a block, the search for the type of
  a local, the records of a branch table, and the completeness of the dispatch.
\<close>

section \<open>Operands\<close>

text \<open>The operands an instruction sees: those above the base of the block, and any number of bottoms in unreachable code.\<close>

definition operands :: "wah_validation_context \<Rightarrow> nat \<Rightarrow> wah_type list" where
  "operands v n = take n (take (v_avail v) (vc_stack v) @ (if vc_unreachable v then replicate n WAH_TYPE_BOT else []))"

definition matches :: "wah_module \<Rightarrow> wah_type \<Rightarrow> wah_type \<Rightarrow> bool" where
  "matches m a t \<longleftrightarrow> wah_validate_type_match a t m = Inr ()"

text \<open>The context without its \<open>n\<close> topmost operands.\<close>

definition without_operands :: "nat \<Rightarrow> wah_validation_context \<Rightarrow> wah_validation_context" where
  "without_operands n v = (let k = min n (v_avail v) in
     v\<lparr>vc_stack := drop k (vc_stack v), vc_lwm := (if k = 0 then vc_lwm v else min (vc_lwm v) (length (vc_stack v) - k)),
       vc_depth := vc_depth v - k\<rparr>)"

lemma match_cases: "wah_validate_type_match a t m = Inr () \<or> wah_validate_type_match a t m = Inl WAH_ERROR_VALIDATION_FAILED"
  by (simp add: wah_validate_type_match_def WAH_ENSURE_def)

lemma pop_type_eq:
  assumes "length (vc_stack v) = vc_depth v"
  shows "POP_INTO v = (case operands v 1 of [] \<Rightarrow> Inl WAH_ERROR_VALIDATION_FAILED | t # _ \<Rightarrow> Inr (t, without_operands 1 v))"
proof (cases "vc_depth v \<le> wah_validation_block_base_height v")
  case True
  then show ?thesis by (simp add: wah_validation_pop_type_def operands_def v_avail_def without_operands_def WAH_ENSURE_def)
next
  case False
  then obtain t ts where "vc_stack v = t # ts" using assms by (cases "vc_stack v") auto
  with False assms show ?thesis
    by (simp add: wah_validation_pop_type_def wah_type_stack_pop_def v_bind_def operands_def v_avail_def without_operands_def Let_def)
qed

lemma pop_match_eq:
  assumes "length (vc_stack v) = vc_depth v"
  shows "POP t v = (case operands v 1 of [] \<Rightarrow> Inl WAH_ERROR_VALIDATION_FAILED
    | a # _ \<Rightarrow> if matches (vc_module v) a t then Inr ((), without_operands 1 v) else Inl WAH_ERROR_VALIDATION_FAILED)"
proof -
  have [simp]: "vc_module (without_operands n v) = vc_module v" for n by (simp add: without_operands_def Let_def)
  show ?thesis
    using match_cases [of _ t "vc_module v"]
    by (force simp: wah_validation_pop_and_match_type_def v_bind_def pop_type_eq [OF assms] matches_def v_match_def split: list.splits)
qed

lemma avail_without: "v_avail (without_operands n v) = v_avail v - n"
  by (simp add: v_avail_def without_operands_def Let_def)

lemma without_frame [simp]:
  "vc_module (without_operands n v) = vc_module v" "vc_unreachable (without_operands n v) = vc_unreachable v"
  "vc_stack (without_operands n v) = drop (min n (v_avail v)) (vc_stack v)" "vc_depth (without_operands n v) = vc_depth v - min n (v_avail v)"
  by (simp_all add: without_operands_def Let_def)

lemma without_without: "without_operands n (without_operands (Suc 0) v) = without_operands (Suc n) v"
proof (cases "v_avail v")
  case 0
  then show ?thesis by (simp add: without_operands_def [of n] without_operands_def [of "Suc n"] avail_without) (simp add: without_operands_def)
next
  case (Suc k)
  then show ?thesis
    by (simp add: without_operands_def [of n] avail_without Let_def) (simp add: without_operands_def Let_def min_def)
qed

lemma operands_Suc:
  assumes "v_avail v \<le> length (vc_stack v)"
  shows "operands v (Suc n) = (case operands v 1 of [] \<Rightarrow> [] | a # _ \<Rightarrow> a # operands (without_operands 1 v) n)"
proof (cases "v_avail v")
  case 0
  then show ?thesis by (simp add: operands_def avail_without)
next
  case (Suc k)
  then obtain a as where "vc_stack v = a # as" using assms by (cases "vc_stack v") auto
  with Suc show ?thesis by (simp add: operands_def avail_without del: replicate_Suc)
qed

lemma pops_eq:
  assumes "length (vc_stack v) = vc_depth v"
  shows "v_seq (map POP ts) v = (if list_all2 (matches (vc_module v)) (operands v (length ts)) ts
    then Inr ((), without_operands (length ts) v) else Inl WAH_ERROR_VALIDATION_FAILED)"
  using assms
proof (induction ts arbitrary: v)
  case Nil
  then show ?case by (simp add: operands_def without_operands_def)
next
  case (Cons t ts)
  have len: "v_avail v \<le> length (vc_stack v)" using Cons.prems by (simp add: v_avail_def)
  have IH: "v_seq (map POP ts) (without_operands 1 v) = (if list_all2 (matches (vc_module v)) (operands (without_operands 1 v) (length ts)) ts
    then Inr ((), without_operands (Suc (length ts)) v) else Inl WAH_ERROR_VALIDATION_FAILED)"
    using Cons.IH [of "without_operands 1 v"] Cons.prems without_without [of "length ts" v] by (simp add: v_avail_def)
  show ?case
  proof (cases "operands v 1")
    case Nil
    then show ?thesis by (simp add: v_bind_def pop_match_eq [OF Cons.prems] operands_Suc [OF len, of "length ts"])
  next
    case (Cons a as)
    then show ?thesis using IH by (simp add: v_bind_def pop_match_eq [OF Cons.prems] operands_Suc [OF len, of "length ts"] del: One_nat_def)
  qed
qed

section \<open>Opcodes with a signature\<close>

text \<open>
  The validation of an opcode that its class describes, in a function body: it succeeds exactly when the operands
  it sees match the types the class pops, and then they are replaced by the type it pushes and the instruction is
  appended, marked when the code is unreachable; otherwise the code is invalid.
\<close>

lemma pops_nonempty: "opclass_signature c = Some (pops, push) \<Longrightarrow> pops \<noteq> []"
  by (cases c) auto

lemma opclass_ok: "opclass_signature c \<noteq> None \<Longrightarrow> c \<noteq> WAH_OPCLASS_MISSING"
  by auto

definition push_emit :: "wah_type \<Rightarrow> nat \<Rightarrow> wah_validation_context \<Rightarrow> wah_validation_context" where
  "push_emit t opc v = (let w = count_depth (v\<lparr>vc_stack := t # vc_stack v\<rparr>) in
     w\<lparr>vc_instrs := vc_instrs w @ [\<lparr>di_opcode = opc, di_flags = (if vc_unreachable w then 2 else 0), di_ref_map = 0, di_imm = IMM_none\<rparr>]\<rparr>)"

lemma simple_op_eq:
  assumes "length (vc_stack v) = vc_depth v" "vc_depth v \<le> 1024" "pops \<noteq> []"
  shows "SIMPLE_OP pops push opc v =
    (if list_all2 (matches (vc_module v)) (operands v (length pops)) pops
     then if length (vc_stack (without_operands (length pops) v)) < 1024
          then Inr ((), push_emit push opc (without_operands (length pops) v)) else Inl WAH_ERROR_TOO_LARGE
     else Inl WAH_ERROR_VALIDATION_FAILED)"
  using assms(3)
  by (simp add: SIMPLE_OP_def v_seq_append v_bind_def [of "v_seq (map f ps)" for f ps] pops_eq [OF assms(1)])
    (simp add: v_bind_def wah_validation_push_type_def wah_type_stack_push_def WAH_ENSURE_def EMIT_INSTR_EX_def push_emit_def Let_def)

text \<open>C22: In a function body an opcode whose class has a signature is valid exactly when the operands above the base of the block, extended by bottoms in unreachable code, match the popped types; the operands are then replaced by the result and one instruction is emitted, and otherwise validation fails. The stack limit is hit only when nothing could be popped.\<close>

theorem opclass_validation:
  assumes "stack_inv v" "vc_mode v = WAH_ANALYZE_FUNC_BODY" "opclass_signature (wah_opclasses opc) = Some (pops, push)"
  shows "wah_validate_opcode opc v =
    (if list_all2 (matches (vc_module v)) (operands v (length pops)) pops
     then if v_avail v = 0 \<and> vc_depth v = 1024 then Inl WAH_ERROR_TOO_LARGE
          else Inr ((), push_emit push opc (without_operands (length pops) v))
     else Inl WAH_ERROR_VALIDATION_FAILED)"
proof -
  have inv: "length (vc_stack v) = vc_depth v" "vc_depth v \<le> 1024" using assms(1) by (simp_all add: stack_inv_def)
  have pops: "pops \<noteq> []" using pops_nonempty [OF assms(3)] .
  have "length (vc_stack (without_operands (length pops) v)) < 1024 \<longleftrightarrow> \<not> (v_avail v = 0 \<and> vc_depth v = 1024)"
    using inv pops by (cases "v_avail v"; cases pops) (auto simp: v_avail_def)
  moreover have "wah_validate_opcode opc v = SIMPLE_OP pops push opc v"
    using assms opclass_ok [of "wah_opclasses opc"]
    by (cases "SIMPLE_OP pops push opc v") (auto simp: wah_validate_opcode_def v_bind_def v_ensure_def validate_const_expr_def)
  ultimately show ?thesis using simple_op_eq [OF inv pops, of push opc] by simp
qed

section \<open>The invariant\<close>

text \<open>C21: Every opcode that is accepted keeps the shape of the validator's stacks: the depth is the height of the type stack and at most 1024, the maximal depth bounds it, there are at most 256 control frames whose heights and undo bases descend from the innermost outwards, the undo list names exactly the initialized locals, and no stamp of a branch-table label is ahead of the serial.\<close>

theorem validate_opcode_stack_inv:
  assumes "stack_inv v" "wah_validate_opcode opc v = Inr (x, v')"
  shows "stack_inv v'"
  using stacks.validate_opcode assms by (rule v_hoareD)

text \<open>C25: Accepting an opcode changes neither the mode, the function type, the local runs nor the entities of the module, and leaves a suffix of the code; and below its low-water mark the type stack still has the entries it had when the mark was set.\<close>

theorem validate_opcode_frame:
  assumes "wah_validate_opcode opc v = Inr (x, v')" "lwm_ok cap v"
  shows "same_function v v' \<and> lwm_ok cap v'"
  using v_hoareD [OF func.base.validate_opcode same_function_refl assms(1)] v_hoareD [OF mark.base.validate_opcode assms(2,1)] by simp

section \<open>Undoing the initialization of locals\<close>

lemma revert_done: "length undo \<le> b \<Longrightarrow> revert_loop b inits undo = \<lparr>li_inits = inits, li_undo = undo\<rparr>"
  by (subst revert_loop.simps) simp

lemma revert_step: "b \<le> length us \<Longrightarrow> revert_loop b inits (u # us) = revert_loop b (inits[u := False]) us"
  by (subst revert_loop.simps) simp

lemma revert_revert:
  assumes "b \<le> c"
  shows "revert_loop b (li_inits (revert_loop c inits undo)) (li_undo (revert_loop c inits undo)) = revert_loop b inits undo"
proof (induction undo arbitrary: inits)
  case Nil
  show ?case by (simp add: revert_done)
next
  case (Cons u us)
  show ?case using Cons.IH assms by (cases "c \<le> length us") (simp_all add: revert_done revert_step)
qed

lemma init_local_undo:
  assumes "pred_option (inits_inv n) (vc_local_inits v)" "i < n"
  shows "pred_option (inits_inv n) (vc_local_inits (wah_validation_init_local i t v))
    \<and> undo_len v \<le> undo_len (wah_validation_init_local i t v)
    \<and> map_option (wah_local_inits_revert (undo_len v)) (vc_local_inits (wah_validation_init_local i t v)) = vc_local_inits v"
proof (cases "wah_validation_local_needs_init v i t")
  case False
  then show ?thesis using assms
    by (cases "vc_local_inits v") (simp_all add: wah_validation_init_local_def wah_local_inits_revert_def revert_done undo_len_def)
next
  case True
  then obtain li where li: "vc_local_inits v = Some li" "inits_inv n li" using assms by (auto simp: wah_validation_local_needs_init_def)
  show ?thesis
  proof (cases "li_inits li ! i")
    case init: True
    then show ?thesis using li by (simp add: wah_validation_init_local_def wah_local_inits_revert_def revert_done undo_len_def)
  next
    case uninit: False
    then show ?thesis using True li assms(2) list_update_id [of "li_inits li" i]
      by (simp add: wah_validation_init_local_def wah_local_inits_revert_def revert_step revert_done undo_len_def inits_inv_def undo_ok_add)
  qed
qed

text \<open>C24: However locals are initialized inside a block, restoring at its end from the undo base saved at its beginning gives back exactly the initialization state the block began with.\<close>

theorem local_inits_restored:
  assumes "pred_option (inits_inv n) (vc_local_inits v)" "list_all (\<lambda>(i, t). i < n) its" "cf_local_init_undo_base frame = undo_len v"
  shows "vc_local_inits (wah_validation_restore_local_inits frame (fold (\<lambda>(i, t). wah_validation_init_local i t) its v)) = vc_local_inits v"
proof -
  have "map_option (wah_local_inits_revert (undo_len v)) (vc_local_inits (fold (\<lambda>(i, t). wah_validation_init_local i t) its v)) = vc_local_inits v"
    using assms(1,2)
  proof (induction its arbitrary: v)
    case Nil
    then show ?case by (cases "vc_local_inits v") (simp_all add: wah_local_inits_revert_def revert_done undo_len_def)
  next
    case (Cons p its)
    obtain i t where p: "p = (i, t)" by fastforce
    let ?w = "wah_validation_init_local i t v"
    let ?r = "vc_local_inits (fold (\<lambda>(i, t). wah_validation_init_local i t) its ?w)"
    from init_local_undo [OF Cons.prems(1), of i t] Cons.prems(2) p have w: "pred_option (inits_inv n) (vc_local_inits ?w)"
      "undo_len v \<le> undo_len ?w" "map_option (wah_local_inits_revert (undo_len v)) (vc_local_inits ?w) = vc_local_inits v" by simp_all
    have "map_option (wah_local_inits_revert (undo_len v)) ?r
      = map_option (wah_local_inits_revert (undo_len v)) (map_option (wah_local_inits_revert (undo_len ?w)) ?r)"
      using revert_revert [OF w(2)] by (cases ?r) (simp_all add: wah_local_inits_revert_def)
    also have "\<dots> = vc_local_inits v" using Cons.IH [OF w(1)] Cons.prems(2) w(3) by simp
    finally show ?case by (simp add: p)
  qed
  then show ?thesis using assms(3) by (simp add: wah_validation_restore_local_inits_def)
qed

section \<open>The type of a local\<close>

text \<open>The declared locals one by one.\<close>

fun expand_runs :: "nat \<Rightarrow> wah_local_run list \<Rightarrow> wah_type list" where
  "expand_runs p [] = []"
| "expand_runs p (r # rs) = replicate (run_end r - p) (run_type r) @ expand_runs (run_end r) rs"

lemma local_run_search_first:
  assumes "lo \<le> hi" "hi < length runs" "sorted (map run_end runs)" "\<And>j. j < lo \<Longrightarrow> run_end (runs ! j) \<le> li" "run_end (runs ! hi) > li"
  shows "local_run_search runs li lo hi < length runs \<and> run_end (runs ! local_run_search runs li lo hi) > li
    \<and> (\<forall>j < local_run_search runs li lo hi. run_end (runs ! j) \<le> li)"
  using assms
proof (induction runs li lo hi rule: local_run_search.induct)
  case (1 runs li lo hi)
  show ?case
  proof (cases "lo < hi")
    case False
    then have "local_run_search runs li lo hi = lo" by (subst local_run_search.simps) simp
    moreover have "lo = hi" using False "1.prems"(1) by simp
    ultimately show ?thesis using "1.prems" by auto
  next
    case True
    define mid where "mid = lo + (hi - lo) div 2"
    have mid: "lo \<le> mid" "mid < hi" using True unfolding mid_def by auto
    show ?thesis
    proof (cases "run_end (runs ! mid) > li")
      case below: True
      have "local_run_search runs li lo hi = local_run_search runs li lo mid"
        using True below by (subst local_run_search.simps) (simp add: mid_def)
      then show ?thesis using "1.IH"(1) [OF True mid_def below] "1.prems" mid below by auto
    next
      case above: False
      have "run_end (runs ! j) \<le> li" if "j < mid + 1" for j
        using above that mid "1.prems"(2,3) sorted_nth_mono [of "map run_end runs" j mid] by auto
      moreover have "local_run_search runs li lo hi = local_run_search runs li (mid + 1) hi"
        using True above by (subst local_run_search.simps) (simp add: mid_def)
      ultimately show ?thesis using "1.IH"(2) [OF True mid_def above] "1.prems" mid by auto
    qed
  qed
qed

lemma expand_runs_nth:
  assumes "k < length runs" "run_end (runs ! k) > li" "\<forall>j < k. run_end (runs ! j) \<le> li" "p \<le> li" "sorted (p # map run_end runs)"
  shows "expand_runs p runs ! (li - p) = run_type (runs ! k)"
  using assms
proof (induction runs arbitrary: k p)
  case (Cons r rs)
  show ?case
  proof (cases k)
    case 0
    then show ?thesis using Cons.prems by (simp add: nth_append diff_less_mono)
  next
    case (Suc k')
    have "run_end r \<le> li" using Cons.prems(3) Suc by force
    moreover have "expand_runs (run_end r) rs ! (li - run_end r) = run_type (rs ! k')"
      using Cons.prems Suc calculation by (intro Cons.IH) auto
    moreover have "\<not> li - p < run_end r - p" using \<open>run_end r \<le> li\<close> by arith
    ultimately show ?thesis using Suc Cons.prems(5) by (simp add: nth_append)
  qed
qed simp

text \<open>The binary search for the run of a declared local finds the type that the locals have when they are listed one by one.\<close>

lemma local_type_lookup:
  assumes "sorted (map run_end runs)" "runs \<noteq> []" "li < run_end (last runs)"
  shows "wah_local_type runs li = expand_runs 0 runs ! li"
  using local_run_search_first [of 0 "length runs - 1" runs li] expand_runs_nth [of "local_run_search runs li 0 (length runs - 1)" runs li 0] assms
  by (simp add: wah_local_type_def last_conv_nth)

section \<open>The records of a branch table\<close>

unbundle bit_operations_syntax

text \<open>The labels of the targets and of the default, read one after the other.\<close>

primrec decode_labels :: "nat \<Rightarrow> bytes \<Rightarrow> (nat list \<times> bytes) res" where
  "decode_labels 0 bs = Inr ([], bs)"
| "decode_labels (Suc n) bs = WAH_CHECK (wah_decode_uleb128 bs) (\<lambda>(label, bs).
     WAH_CHECK (decode_labels n bs) (\<lambda>(ls, bs). Inr (unat label # ls, bs)))"

text \<open>The distinct labels in the order of their first occurrence.\<close>

definition first_occurrences :: "nat list \<Rightarrow> nat list" where
  "first_occurrences ls = rev (remdups (rev ls))"

lemma first_occurrences_snoc:
  "first_occurrences (ls @ [k]) = (if k \<in> set ls then first_occurrences ls else first_occurrences ls @ [k])"
  by (simp add: first_occurrences_def)

lemma first_occurrences_simps [simp]: "first_occurrences [] = []" "set (first_occurrences ls) = set ls" "distinct (first_occurrences ls)"
  by (simp_all add: first_occurrences_def)

text \<open>Two records per word.\<close>

lemma half_mask: "(0xffff :: u32) = mask 16"
  by (simp add: mask_eq_exp_minus_1)

lemma u16_high: "16 \<le> n \<Longrightarrow> bit (x :: u16) n = False"
  using bit_imp_le_length [of x n] by auto

lemma half_of_even: "(ucast (x :: u16) :: u32) AND 0xffff = ucast x"
  unfolding half_mask by (rule bit_word_eqI) (auto simp: bit_simps u16_high not_less dest: bit_imp_le_length)

lemma half_of_pair:
  "((ucast (y :: u16) :: u32) OR push_bit 16 (ucast (x :: u16))) AND 0xffff = ucast y"
  "drop_bit 16 ((ucast (y :: u16) :: u32) OR push_bit 16 (ucast (x :: u16))) AND 0xffff = ucast x"
  unfolding half_mask by (rule bit_word_eqI; auto simp: bit_simps u16_high not_less dest: bit_imp_le_length)+

lemma unat_half: "unat (ucast (x :: u16) :: u32) = unat x"
  using unsigned_less [of x, where 'a = nat] by (simp add: unsigned_ucast_eq take_bit_nat_eq_self)

lemma set_target_same:
  assumes "i div 2 < length w" "odd i \<Longrightarrow> \<exists>y :: u16. w ! (i div 2) = ucast y"
  shows "wah_br_table_target (wah_br_table_set_target w i (ucast (x :: u16))) i = unat x"
proof (cases "even i")
  case True
  then show ?thesis using assms(1) by (simp add: wah_br_table_target_def wah_br_table_set_target_def half_of_even unat_half even_iff_mod_2_eq_zero)
next
  case False
  with assms obtain y :: u16 where "w ! (i div 2) = ucast y" by blast
  with False assms(1) show ?thesis
    by (simp add: wah_br_table_target_def wah_br_table_set_target_def half_of_pair unat_half odd_iff_mod_2_eq_one del: drop_bit_or)
qed

lemma set_target_earlier:
  assumes "i div 2 < length w" "odd i \<Longrightarrow> \<exists>y :: u16. w ! (i div 2) = ucast y" "j < i"
  shows "wah_br_table_target (wah_br_table_set_target w i (ucast (x :: u16))) j = wah_br_table_target w j"
proof (cases "j div 2 = i div 2")
  case False
  then show ?thesis by (simp add: wah_br_table_target_def wah_br_table_set_target_def)
next
  case True
  then have ij: "odd i" "even j" using assms(3) by presburger+
  with assms obtain y :: u16 where "w ! (i div 2) = ucast y" by blast
  with ij True assms(1) show ?thesis
    by (simp add: wah_br_table_target_def wah_br_table_set_target_def half_of_pair half_of_even unat_half odd_iff_mod_2_eq_one even_iff_mod_2_eq_zero)
qed

text \<open>The loop has recorded the labels \<open>ls\<close>.\<close>

definition records_ok :: "nat list \<Rightarrow> br_table_state \<Rightarrow> bool" where
  "records_ok ls st \<longleftrightarrow> (case st of (l, sy, w) \<Rightarrow>
     length (bl_stamps l) = 257 \<and> length (bl_records l) = 257 \<and> sy = first_occurrences ls
     \<and> (\<forall>k \<le> 256. bl_stamps l ! k = bl_serial l \<longleftrightarrow> k \<in> set ls)
     \<and> (\<forall>k\<in>set ls. k \<le> 256 \<and> unat (bl_records l ! k) < length sy \<and> sy ! unat (bl_records l ! k) = k)
     \<and> (\<forall>i < length ls. wah_br_table_target w i = unat (bl_records l ! (ls ! i)))
     \<and> (odd (length ls) \<longrightarrow> (\<exists>y :: u16. w ! (length ls div 2) = ucast y)))"

lemma occurrences_bound:
  assumes "\<forall>k\<in>set ls. k \<le> n" shows "length (first_occurrences ls) \<le> n + 1" "length (first_occurrences ls) \<le> length ls"
proof -
  have "length (first_occurrences ls) = card (set ls)" by (simp add: distinct_card [symmetric])
  moreover have "card (set ls) \<le> card {..n}" by (rule card_mono) (use assms in auto)
  ultimately show "length (first_occurrences ls) \<le> n + 1" "length (first_occurrences ls) \<le> length ls"
    by (simp_all add: card_length)
qed

lemma records_ok_add:
  assumes "records_ok ls (l, sy, w)" "k \<le> 256" "length ls div 2 < length w"
  shows "records_ok (ls @ [k]) (br_table_add (length ls) k (l, sy, w))"
proof -
  from assms(1) have l: "length (bl_stamps l) = 257" "length (bl_records l) = 257" "sy = first_occurrences ls"
    and stamps: "\<And>j. j \<le> 256 \<Longrightarrow> bl_stamps l ! j = bl_serial l \<longleftrightarrow> j \<in> set ls"
    and recs: "\<And>j. j \<in> set ls \<Longrightarrow> j \<le> 256 \<and> unat (bl_records l ! j) < length sy \<and> sy ! unat (bl_records l ! j) = j"
    and targets: "\<And>i. i < length ls \<Longrightarrow> wah_br_table_target w i = unat (bl_records l ! (ls ! i))"
    and half: "odd (length ls) \<Longrightarrow> \<exists>y :: u16. w ! (length ls div 2) = ucast y" by (auto simp: records_ok_def)
  have fit: "unat (of_nat (length sy) :: u16) = length sy"
    using occurrences_bound(1) [of ls 256] recs l(3) by (simp add: unat_of_nat)
  define l' where "l' = (if k \<in> set ls then l else l\<lparr>bl_stamps := (bl_stamps l)[k := bl_serial l], bl_records := (bl_records l)[k := of_nat (length sy)]\<rparr>)"
  define w' where "w' = wah_br_table_set_target w (length ls) (ucast (bl_records l' ! k))"
  have add: "br_table_add (length ls) k (l, sy, w) = (l', first_occurrences (ls @ [k]), w')"
    using stamps [OF assms(2)] l(3) by (simp add: br_table_add_def l'_def w'_def first_occurrences_snoc)
  have old: "bl_records l' ! j = bl_records l ! j" if "j \<in> set ls" for j using that by (cases "j = k") (auto simp: l'_def)
  have r: "\<forall>j\<in>set (ls @ [k]). j \<le> 256 \<and> unat (bl_records l' ! j) < length (first_occurrences (ls @ [k]))
    \<and> first_occurrences (ls @ [k]) ! unat (bl_records l' ! j) = j"
    using recs old assms(2) l fit by (auto simp: first_occurrences_snoc nth_append l'_def less_SucI)
  have t: "\<forall>i < length (ls @ [k]). wah_br_table_target w' i = unat (bl_records l' ! ((ls @ [k]) ! i))"
    using set_target_same [OF assms(3) half] set_target_earlier [OF assms(3) half] targets old
    by (auto simp: w'_def nth_append less_Suc_eq)
  have h: "odd (length (ls @ [k])) \<longrightarrow> (\<exists>y :: u16. w' ! (length (ls @ [k]) div 2) = ucast y)"
  proof
    assume "odd (length (ls @ [k]))"
    then have "length ls mod 2 = 0" "Suc (length ls) div 2 = length ls div 2" by simp_all
    then show "\<exists>y :: u16. w' ! (length (ls @ [k]) div 2) = ucast y" using assms(3) by (auto simp: w'_def wah_br_table_set_target_def)
  qed
  have s: "\<forall>j \<le> 256. bl_stamps l' ! j = bl_serial l' \<longleftrightarrow> j \<in> set (ls @ [k])"
    using stamps l(1) assms(2) by (auto simp: l'_def nth_list_update)
  have "length (bl_stamps l') = 257" "length (bl_records l') = 257" using l by (simp_all add: l'_def)
  with r t h s show ?thesis unfolding add records_ok_def by simp
qed

lemma br_table_loop_ok:
  assumes "br_table_loop m (length ls) (l, sy, w) v = Inr ((l', sy', w'), v')" "records_ok ls (l, sy, w)"
    "length (vc_control v) \<le> 256" "length ls + m \<le> 2 * length w"
  shows "\<exists>ks. decode_labels m (vc_code v) = Inr (ks, vc_code v') \<and> records_ok (ls @ ks) (l', sy', w')
    \<and> (\<forall>k\<in>set ks. k \<le> length (vc_control v))"
  using assms
proof (induction m arbitrary: ls l sy w v)
  case 0
  then show ?case by simp
next
  case (Suc m)
  from Suc.prems(1) obtain k v1 where k: "v_u32 v = Inr (k, v1)" "k \<le> length (vc_control v1)"
    and loop: "br_table_loop m (length ls + 1) (br_table_add (length ls) k (l, sy, w)) v1 = Inr ((l', sy', w'), v')"
    by (auto simp: res_simps v_label_ok_def)
  from k(1) obtain x bs where x: "wah_decode_uleb128 (vc_code v) = Inr (x, bs)" "k = unat x" "v1 = v\<lparr>vc_code := bs\<rparr>"
    by (auto simp: v_u32_def v_dec_def res_simps)
  obtain l1 sy1 w1 where add: "br_table_add (length ls) k (l, sy, w) = (l1, sy1, w1)" by (metis prod_cases3)
  have len: "length w1 = length w"
    using add by (auto simp: br_table_add_def wah_br_table_set_target_def Let_def split: if_splits)
  have "k \<le> 256" using k(2) x(3) Suc.prems(3) by simp
  then have ok: "records_ok (ls @ [k]) (l1, sy1, w1)"
    using records_ok_add [OF Suc.prems(2), of k] Suc.prems(4) add by simp
  from Suc.IH [of "ls @ [k]" l1 sy1 w1 v1] loop add ok x(3) Suc.prems(3,4) len obtain ks where
    "decode_labels m bs = Inr (ks, vc_code v')" "records_ok (ls @ [k] @ ks) (l', sy', w')" "\<forall>k\<in>set ks. k \<le> length (vc_control v)" by auto
  then show ?case using x k(2) by (intro exI [of _ "k # ks"]) simp
qed

lemma next_serial_fresh: "labels_inv l \<Longrightarrow> k \<le> 256 \<Longrightarrow> bl_stamps (next_serial l) ! k \<noteq> bl_serial (next_serial l)"
proof -
  assume l: "labels_inv l" and k: "k \<le> 256"
  show ?thesis
  proof (cases "bl_serial l + 1 = 0")
    case True
    then show ?thesis using k by (simp add: next_serial_def)
  next
    case False
    have "bl_stamps l ! k \<le> bl_serial l" using l k by (simp add: labels_inv_def)
    moreover have "bl_serial l < bl_serial l + 1" using False word_le_plus_one [of "bl_serial l"] by (simp add: order_less_le)
    ultimately show ?thesis using False by (auto simp: next_serial_def)
  qed
qed

text \<open>C23: The targets of a br_table are grouped by label: the records are the distinct labels in the order of their first occurrence, as many as fit the capacity that is allocated for them, and the record packed for each target, the default included, is the one of the label that is encoded there.\<close>

theorem br_table_records:
  assumes "vc_labels v = Some l" "labels_inv l" "length (vc_control v) \<le> 256" "br_table_decode n v = Inr ((symbols, words), v')"
  shows "\<exists>ls. decode_labels (n + 1) (vc_code v) = Inr (ls, vc_code v') \<and> length ls = n + 1
    \<and> symbols = first_occurrences ls \<and> length symbols \<le> (if n < length (vc_control v) then n + 1 else length (vc_control v) + 1)
    \<and> (\<forall>i \<le> n. wah_br_table_target words i < length symbols \<and> symbols ! wah_br_table_target words i = ls ! i)"
proof -
  from assms(1,4) obtain l' v1 where loop: "br_table_loop (n + 1) 0 (next_serial l, [], replicate ((n + 2) div 2) 0) v = Inr ((l', symbols, words), v1)"
    and code: "vc_code v1 = vc_code v'" by (auto simp: br_table_decode_def res_simps simp del: br_table_loop.simps)
  have "records_ok [] (next_serial l, [], replicate ((n + 2) div 2) 0)"
    using next_serial_fresh [OF assms(2)] next_serial_inv [OF assms(2)] by (simp add: records_ok_def labels_inv_def)
  moreover have "n + 1 \<le> 2 * ((n + 2) div 2)" by presburger
  ultimately obtain ls where
    ls: "decode_labels (n + 1) (vc_code v) = Inr (ls, vc_code v')" "records_ok ls (l', symbols, words)"
      "\<forall>k\<in>set ls. k \<le> length (vc_control v)" 
    using br_table_loop_ok [where ls = "[]", unfolded list.size(3), OF loop _ assms(3)] code
    by (auto simp del: br_table_loop.simps decode_labels.simps)
  have "length ks = m" if "decode_labels m bs = Inr (ks, r)" for m bs ks r
    using that by (induction m arbitrary: bs ks) (auto simp: res_simps)
  then have "length ls = n + 1" using ls(1) by blast
  then show ?thesis using ls occurrences_bound [OF ls(3)] by (intro exI [of _ ls]) (auto simp: records_ok_def)
qed

section \<open>The dispatch\<close>

text \<open>The opcodes that have a case of their own.\<close>

definition case_labels :: "nat list" where
  "case_labels = concat (map fst validate_cases)"

lemmas listing_defs = WAH_OPCODES_def WAH_CORE_OPCODES_def WAH_GC_OPCODES_def WAH_SIMD_OPCODES_def
lemmas cases_defs = validate_cases_def memory_access_cases_def entity_cases_def control_cases_def ref_cases_def

lemma listing_covered: "list_all (\<lambda>(opc, cls, feat). cls \<noteq> WAH_OPCLASS_MISSING \<and> (opclass_signature cls \<noteq> None \<or> opc \<in> set case_labels)) WAH_OPCODES"
  unfolding case_labels_def by (simp add: listing_defs cases_defs)

text \<open>C26: The dispatch is complete for the opcode listing: an opcode has a class exactly when it is listed, a listed opcode has a class with a signature or a case of its own, so that the default of the switch is never taken for it, and an opcode that is not listed is malformed whatever the state.\<close>

theorem validate_dispatch:
  "(opc \<in> fst ` set WAH_OPCODES \<longleftrightarrow> wah_opclasses opc \<noteq> WAH_OPCLASS_MISSING)
    \<and> (wah_opclasses opc = WAH_OPCLASS_MISSING \<or> (\<exists>sig. opclass_signature (wah_opclasses opc) = Some sig) \<or> opc \<in> set case_labels)
    \<and> (opc \<in> fst ` set WAH_OPCODES \<or> wah_validate_opcode opc v = Inl WAH_ERROR_MALFORMED)"
proof (cases "map_of WAH_OPCODES opc")
  case None
  then have "opc \<notin> fst ` set WAH_OPCODES" by (simp add: map_of_eq_None_iff)
  moreover have "wah_opclasses opc = WAH_OPCLASS_MISSING" using None by (simp add: wah_opclasses_def)
  ultimately show ?thesis by (simp add: wah_validate_opcode_def v_bind_def v_ensure_def)
next
  case (Some p)
  obtain cls feat where p: "p = (cls, feat)" by fastforce
  with Some have mem: "(opc, cls, feat) \<in> set WAH_OPCODES" by (simp add: map_of_SomeD)
  then have "cls \<noteq> WAH_OPCLASS_MISSING \<and> (opclass_signature cls \<noteq> None \<or> opc \<in> set case_labels)"
    using listing_covered by (force simp: list_all_iff)
  moreover have "wah_opclasses opc = cls" using Some p by (simp add: wah_opclasses_def)
  ultimately show ?thesis using mem by (force simp: image_iff)
qed

section \<open>Witnesses\<close>

definition demo_labels :: wah_br_table_labels where
  "demo_labels = \<lparr>bl_stamps = replicate 257 0, bl_records = replicate 257 0, bl_serial = 0\<rparr>"

definition demo_vctx :: wah_validation_context where
  "demo_vctx = \<lparr>vc_mode = WAH_ANALYZE_FUNC_BODY, vc_stack = [-2, -2], vc_lwm = 0, vc_func_type = func_type_zero, vc_module = wah_module_zero,
     vc_total_locals = 2, vc_depth = 2, vc_max_depth = 2, vc_unreachable = False, vc_max_global_idx = 0, vc_control = [],
     vc_local_inits = Some \<lparr>li_inits = [False, True], li_undo = [1]\<rparr>, vc_labels = Some demo_labels, vc_locals = [],
     vc_instrs = [], vc_code = [0, 0, 0]\<rparr>"

lemma demo_labels_inv: "labels_inv demo_labels"
  by (simp add: labels_inv_def demo_labels_def)

lemma demo_inv: "stack_inv demo_vctx"
proof -
  have "undo_ok [False, True] [1]" by (auto simp: undo_ok_def nth_Cons split: nat.splits)
  then show ?thesis by (simp add: stack_inv_def demo_vctx_def inits_inv_def demo_labels_inv undo_len_def)
qed

lemma demo_add_class: "wah_opclasses 0x6A = WAH_OPCLASS__II_I"
  by (simp add: wah_opclasses_def listing_defs)

lemma demo_match: "matches wah_module_zero (-2) (-2)"
  by (simp add: matches_def wah_validate_type_match_def wah_type_is_subtype_def as_non_null_eq)

lemma demo_fields [simp]:
  "vc_mode demo_vctx = WAH_ANALYZE_FUNC_BODY" "vc_stack demo_vctx = [-2, -2]" "vc_module demo_vctx = wah_module_zero" "vc_depth demo_vctx = 2"
  "vc_unreachable demo_vctx = False" "vc_control demo_vctx = []" "vc_labels demo_vctx = Some demo_labels" "vc_code demo_vctx = [0, 0, 0]"
  "vc_lwm demo_vctx = 0" "vc_total_locals demo_vctx = 2" "vc_local_inits demo_vctx = Some \<lparr>li_inits = [False, True], li_undo = [1]\<rparr>"
  by (simp_all add: demo_vctx_def)

lemma demo_operands: "operands demo_vctx 2 = [-2, -2]" "v_avail demo_vctx = 2"
  by (simp_all add: operands_def v_avail_def wah_validation_block_base_height_def)

theorem opclass_validation_witness:
  "stack_inv demo_vctx \<and> wah_validate_opcode 0x6A demo_vctx = Inr ((), push_emit (-2) 0x6A (without_operands 2 demo_vctx))"
proof -
  have sig: "opclass_signature (wah_opclasses 0x6A) = Some ([-2, -2], -2)" by (simp add: demo_add_class)
  have len: "length [-2 :: int, -2] = 2" by simp
  show ?thesis
    using opclass_validation [OF demo_inv demo_fields(1) sig, unfolded len] demo_inv demo_match demo_operands by simp
qed

lemma demo_add: "wah_validate_opcode 0x6A demo_vctx = SIMPLE_OP [-2, -2] (-2) 0x6A demo_vctx"
  by (cases "SIMPLE_OP [-2, -2] (-2) 0x6A demo_vctx")
    (auto simp: wah_validate_opcode_def v_bind_def v_ensure_def validate_const_expr_def demo_add_class)

lemma demo_add_run: "wah_validate_opcode 0x6A demo_vctx = Inr ((), push_emit (-2) 0x6A (without_operands 2 demo_vctx))"
proof -
  have len: "length [-2 :: int, -2] = 2" by simp
  show ?thesis
    using simple_op_eq [of demo_vctx "[-2, -2]" "-2" "0x6A", unfolded len] demo_match demo_operands by (simp add: demo_add)
qed

theorem validate_opcode_stack_inv_witness:
  "stack_inv (push_emit (-2) 0x6A (without_operands 2 demo_vctx))"
  by (rule validate_opcode_stack_inv [OF demo_inv demo_add_run])

theorem validate_opcode_frame_witness:
  "same_function demo_vctx (push_emit (-2) 0x6A (without_operands 2 demo_vctx))
    \<and> lwm_ok [] (push_emit (-2) 0x6A (without_operands 2 demo_vctx))"
  by (rule validate_opcode_frame [OF demo_add_run]) (simp add: lwm_ok_def)

definition demo_frame :: wah_validation_control_frame where
  "demo_frame = (new_frame 2 demo_vctx)\<lparr>cf_local_init_undo_base := 1\<rparr>"

theorem local_inits_restored_witness:
  "vc_local_inits (wah_validation_restore_local_inits demo_frame (wah_validation_init_local 0 4 demo_vctx))
    = Some \<lparr>li_inits = [False, True], li_undo = [1]\<rparr>"
  using local_inits_restored [of 2 demo_vctx "[(0, 4)]" demo_frame] demo_inv
  by (simp add: stack_inv_def demo_frame_def undo_len_def)

lemma demo_zero_label: "wah_decode_uleb128 (0 # bs) = Inr (0, bs)"
  using uleb_byte [of 0 bs] by simp

lemma demo_br_table: "\<exists>words v'. br_table_decode 1 demo_vctx = Inr (([0], words), v') \<and> vc_code v' = [0]"
  by (simp add: br_table_decode_def v_bind_def v_u32_def v_dec_def v_label_ok_def demo_zero_label br_table_add_def
      demo_labels_def next_serial_def v_ensure_def)

theorem br_table_records_witness:
  "\<exists>words v'. br_table_decode 1 demo_vctx = Inr (([0], words), v')
    \<and> (\<exists>ls. decode_labels 2 [0, 0, 0] = Inr (ls, [0]) \<and> [0] = first_occurrences ls \<and> [0] ! wah_br_table_target words 1 = ls ! 1)"
proof -
  obtain words v' where run: "br_table_decode 1 demo_vctx = Inr (([0], words), v')" "vc_code v' = [0]" using demo_br_table by blast
  from br_table_records [OF _ demo_labels_inv _ run(1)] run(2) obtain ls where
    "decode_labels 2 [0, 0, 0] = Inr (ls, [0])" "[0] = first_occurrences ls" "[0] ! wah_br_table_target words 1 = ls ! 1"
    by (auto simp del: decode_labels.simps simp: numeral_2_eq_2)
  with run show ?thesis by blast
qed

end
