(* ===== verification/Wah_Analyze.thy ===== *)
theory Wah_Analyze
  imports Wah_Validate_Spec
begin

text \<open>
  The analysis of a body or of a constant expression: \<open>wah_analyze_stream\<close> decodes and validates opcodes until the
  terminal \<open>end\<close> and captures the reference maps, which list the reference slots of the operand stack at the points
  where execution can be suspended; \<open>wah_compile_const_expr\<close> without lowering; the data segments that code names;
  the declarations of locals and the code section.
\<close>

section \<open>Reference maps\<close>

record wah_ref_node =
  rn_parent :: nat
  rn_pos :: nat

text \<open>
  The state of \<open>wah_analyze_stream\<close>. \<open>an_captured_types\<close> and \<open>an_captured_tops\<close> hold the first \<open>captured_depth\<close> and
  \<open>captured_depth + 1\<close> entries of the arrays, the only ones that are read.
\<close>

record wah_analysis =
  an_vctx :: wah_validation_context
  an_captured_types :: "wah_type list"
  an_captured_tops :: "nat list"
  an_ref_nodes :: "wah_ref_node list"
  an_poll_ref_tops :: "nat list"
  an_poll_map :: nat
  an_is_first_instr :: bool
  an_poll_flags :: nat

text \<open>The number of slots that are the same as at the previous capture, from \<open>common\<close> upwards.\<close>

function common_slots :: "wah_type list \<Rightarrow> wah_type list \<Rightarrow> nat \<Rightarrow> nat" where
  "common_slots captured data common =
    (if common < length data \<and> common < length captured \<and> captured ! common = data ! common
     then common_slots captured data (common + 1) else common)"
  by auto
termination by (relation "measure (\<lambda>(c, d, k). length d - k)") auto

declare common_slots.simps [simp del]

text \<open>The loop over the slots that may differ: the top of each longer prefix, and a node per reference.\<close>

fun capture_slots :: "wah_type list \<Rightarrow> nat \<Rightarrow> nat list \<Rightarrow> wah_ref_node list \<Rightarrow> nat list \<times> wah_ref_node list" where
  "capture_slots [] j tops nodes = (tops, nodes)"
| "capture_slots (t # ts) j tops nodes =
    (if WAH_TYPE_IS_REF t
     then capture_slots ts (j + 1) (tops @ [length nodes + 1]) (nodes @ [\<lparr>rn_parent = tops ! j, rn_pos = j\<rparr>])
     else capture_slots ts (j + 1) (tops @ [tops ! j]) nodes)"

definition WAH_CAPTURE_REF_MAP :: "wah_analysis \<Rightarrow> wah_analysis" where
  "WAH_CAPTURE_REF_MAP s = (let v = an_vctx s in
    if \<not> vc_unreachable v then
      let data = rev (vc_stack v);
          common = common_slots (an_captured_types s) data (min (vc_lwm v) (length (an_captured_types s)));
          (tops, nodes) = capture_slots (drop common data) common (take (common + 1) (an_captured_tops s)) (an_ref_nodes s)
      in s\<lparr>an_vctx := v\<lparr>vc_lwm := length data\<rparr>, an_captured_types := take common (an_captured_types s) @ drop common data,
           an_captured_tops := tops, an_ref_nodes := nodes,
           an_poll_ref_tops := an_poll_ref_tops s @ [tops ! length data]\<rparr>
    else s\<lparr>an_poll_ref_tops := an_poll_ref_tops s @ [0]\<rparr>)"

text \<open>
  Two readers of the maps. The collector follows the parents from the topmost slot and visits the slots below the
  actual depth; nothing but the shape of the nodes makes its loop end. The checker of debug builds compares a map
  with the types of the operand stack.
\<close>

partial_function (option) walk_ref_map :: "wah_ref_node list \<Rightarrow> nat \<Rightarrow> nat \<Rightarrow> nat list option" where
  "walk_ref_map nodes actual_depth n =
    (if n = 0 then Some []
     else let node = nodes ! (n - 1) in
       Option.bind (walk_ref_map nodes actual_depth (rn_parent node)) (\<lambda>visited.
         Some (if rn_pos node < actual_depth then rn_pos node # visited else visited)))"

declare walk_ref_map.simps [code]

function check_ref_walk :: "wah_ref_node list \<Rightarrow> wah_type list \<Rightarrow> nat \<Rightarrow> nat \<Rightarrow> nat \<Rightarrow> nat option" where
  "check_ref_walk nodes stk n below listed =
    (if n = 0 then Some listed
     else if n > length nodes then None
     else let node = nodes ! (n - 1) in
       if rn_parent node \<ge> n \<or> rn_pos node \<ge> below \<or> \<not> WAH_TYPE_IS_REF (stk ! rn_pos node) then None
       else check_ref_walk nodes stk (rn_parent node) (rn_pos node) (listed + 1))"
  by auto
termination by (relation "measure (\<lambda>(nodes, stk, n, below, listed). n)") auto

declare check_ref_walk.simps [simp del]

definition wah_check_ref_map :: "nat list \<Rightarrow> wah_ref_node list \<Rightarrow> nat \<Rightarrow> wah_type list \<Rightarrow> bool" where
  "wah_check_ref_map poll_ref_tops nodes idx stk \<longleftrightarrow>
    check_ref_walk nodes stk (if idx < length poll_ref_tops then poll_ref_tops ! idx else 0) (length stk) 0
      = Some (length (filter WAH_TYPE_IS_REF stk))"

section \<open>The analysis loop\<close>

definition wah_opcode_is_call :: "nat \<Rightarrow> bool" where
  "wah_opcode_is_call opc \<longleftrightarrow> opc \<in> {WAH_OP_CALL, WAH_OP_CALL_INDIRECT, WAH_OP_CALL_REF, WAH_OP_RETURN_CALL,
     WAH_OP_RETURN_CALL_INDIRECT, WAH_OP_RETURN_CALL_REF}"

definition wah_opcode_is_resumable_bulk :: "nat \<Rightarrow> bool" where
  "wah_opcode_is_resumable_bulk opc \<longleftrightarrow> opc \<in> {WAH_OP_MEMORY_FILL, WAH_OP_MEMORY_COPY, WAH_OP_MEMORY_INIT, WAH_OP_TABLE_FILL,
     WAH_OP_TABLE_COPY, WAH_OP_TABLE_INIT, WAH_OP_ARRAY_FILL, WAH_OP_ARRAY_COPY, WAH_OP_ARRAY_INIT_DATA, WAH_OP_ARRAY_INIT_ELEM}"

text \<open>Captures before the instruction, and the map the instruction gets.\<close>

definition analyze_poll :: "bool \<Rightarrow> nat \<Rightarrow> wah_analysis \<Rightarrow> nat \<times> wah_analysis" where
  "analyze_poll is_func_body opc s =
    (if is_func_body \<and> (an_is_first_instr s \<or> (an_poll_flags s = 0 \<and> wah_opcode_is_call opc)) then
       let s = WAH_CAPTURE_REF_MAP s; k = length (an_poll_ref_tops s) - 1 in
       (k, s\<lparr>an_poll_map := k, an_poll_flags := WAH_INSTR_FLAG_POLL, an_is_first_instr := False\<rparr>)
     else if is_func_body \<and> (fuel_metering (vc_module (an_vctx s)) \<or> wah_opcode_is_resumable_bulk opc) then
       let s = WAH_CAPTURE_REF_MAP s in (length (an_poll_ref_tops s) - 1, s)
     else (if an_poll_flags s \<noteq> 0 then an_poll_map s else UINT32_MAX, s))"

definition wah_analyzed_append_end :: "nat \<Rightarrow> wah_validation_context \<Rightarrow> wah_validation_context" where
  "wah_analyzed_append_end map_idx v = v\<lparr>vc_instrs := vc_instrs v @
     [\<lparr> di_opcode = WAH_OP_END, di_flags = 0, di_ref_map = map_idx, di_imm = IMM_none \<rparr>]\<rparr>"

text \<open>The terminal \<open>end\<close>.\<close>

definition analyze_end :: "bool \<Rightarrow> wah_type \<Rightarrow> nat \<Rightarrow> unit vm" where
  "analyze_end is_func_body expected_type cur_map =
    (if is_func_body then
       v_bind (v_get (\<lambda>v. ft_result_types (vc_func_type v))) (\<lambda>rs.
       v_bind (POPS rs) (\<lambda>_. v_bind (v_get id) (\<lambda>v.
       v_seq [v_valid (vc_depth v = 0), v_valid (vc_code v = []), v_modify (wah_analyzed_append_end cur_map)])))
     else
       v_bind (v_get id) (\<lambda>v.
       v_seq [v_valid (vc_depth v = 1),
              v_valid (last (vc_stack v) = WAH_TYPE_BOT \<or> wah_type_is_subtype (last (vc_stack v)) expected_type (vc_module v)),
              v_modify (wah_analyzed_append_end 0)]))"

text \<open>What the loop does with the instruction just emitted, if there is one.\<close>

definition mark_instr :: "nat \<Rightarrow> nat \<Rightarrow> wah_decoded_instr \<Rightarrow> wah_decoded_instr" where
  "mark_instr cur_map flags di = di\<lparr>di_ref_map := cur_map, di_flags := di_flags di OR flags\<rparr>"

definition update_instr :: "nat \<Rightarrow> (wah_decoded_instr \<Rightarrow> wah_decoded_instr) \<Rightarrow> wah_analysis \<Rightarrow> wah_analysis" where
  "update_instr i f s = s\<lparr>an_vctx := (an_vctx s)\<lparr>vc_instrs := (vc_instrs (an_vctx s))[i := f (vc_instrs (an_vctx s) ! i)]\<rparr>\<rparr>"

definition analyze_mark :: "nat \<Rightarrow> nat \<Rightarrow> nat \<Rightarrow> wah_analysis \<Rightarrow> wah_analysis" where
  "analyze_mark opc instr_count_before cur_map s =
    (let s = (if length (vc_instrs (an_vctx s)) > instr_count_before
              then (update_instr instr_count_before (mark_instr cur_map (an_poll_flags s)) s)\<lparr>an_poll_flags := 0\<rparr> else s);
         n = length (vc_instrs (an_vctx s)) in
     if opc = WAH_OP_LOOP \<and> n > 0 \<and> di_flags (vc_instrs (an_vctx s) ! (n - 1)) AND WAH_INSTR_FLAG_POLL = 0
     then let s = WAH_CAPTURE_REF_MAP s in
          update_instr (n - 1) (mark_instr (length (an_poll_ref_tops s) - 1) WAH_INSTR_FLAG_POLL) s
     else s)"

definition with_vctx :: "unit vm \<Rightarrow> wah_analysis \<Rightarrow> wah_analysis res" where
  "with_vctx m s = WAH_CHECK (m (an_vctx s)) (\<lambda>(_, v). Inr (s\<lparr>an_vctx := v\<rparr>))"

text \<open>
  One round of the loop: the opcode with its map, and either the terminal \<open>end\<close> (\<open>True\<close>) or the validation of the
  instruction.
\<close>

definition analyze_fetch :: "bool \<Rightarrow> wah_analysis \<Rightarrow> (nat \<times> nat \<times> wah_analysis) res" where
  "analyze_fetch is_func_body s =
    WAH_CHECK (wah_decode_opcode (vc_code (an_vctx s))) (\<lambda>(opc, bs).
    WAH_CHECK (wah_require_feature (vc_module (an_vctx s)) (wah_opcode_features opc)) (\<lambda>m.
    Inr (opc, analyze_poll is_func_body opc (s\<lparr>an_vctx := (an_vctx s)\<lparr>vc_code := bs, vc_module := m\<rparr>\<rparr>))))"

definition analyze_instr :: "bool \<Rightarrow> nat \<Rightarrow> nat \<Rightarrow> wah_analysis \<Rightarrow> wah_analysis res" where
  "analyze_instr is_func_body opc cur_map s =
    WAH_CHECK (with_vctx (wah_validate_opcode opc) s) (\<lambda>s'.
    Inr (if is_func_body then analyze_mark opc (length (vc_instrs (an_vctx s))) cur_map s' else s'))"

definition analyze_step :: "bool \<Rightarrow> wah_type \<Rightarrow> wah_analysis \<Rightarrow> (bool \<times> wah_analysis) res" where
  "analyze_step is_func_body expected_type s =
    WAH_CHECK (analyze_fetch is_func_body s) (\<lambda>(opc, cur_map, s).
    if opc = WAH_OP_END \<and> (is_func_body \<longrightarrow> vc_control (an_vctx s) = [])
    then WAH_CHECK (with_vctx (analyze_end is_func_body expected_type cur_map) s) (\<lambda>s. Inr (True, s))
    else WAH_CHECK (analyze_instr is_func_body opc cur_map s) (\<lambda>s. Inr (False, s)))"

section \<open>What capturing and marking leave alone\<close>

definition instr_key :: "wah_decoded_instr \<Rightarrow> nat \<times> wah_imm" where
  "instr_key di = (di_opcode di, di_imm di)"

definition marks_only :: "wah_validation_context \<Rightarrow> wah_validation_context \<Rightarrow> bool" where
  "marks_only v w \<longleftrightarrow> v = w\<lparr>vc_lwm := vc_lwm v, vc_instrs := vc_instrs v\<rparr>
     \<and> map instr_key (vc_instrs v) = map instr_key (vc_instrs w)"

lemma marks_only_refl [simp]: "marks_only v v"
  by (simp add: marks_only_def)

lemma marks_only_lwm: "marks_only v w \<Longrightarrow> marks_only v (w\<lparr>vc_lwm := n\<rparr>)"
  by (simp add: marks_only_def)

lemma marks_only_instrs:
  "marks_only v w \<Longrightarrow> map instr_key is = map instr_key (vc_instrs w) \<Longrightarrow> marks_only v (w\<lparr>vc_instrs := is\<rparr>)"
  by (simp add: marks_only_def)

lemma marks_only_obtain:
  assumes "marks_only v w" obtains n "is" where "v = w\<lparr>vc_lwm := n, vc_instrs := is\<rparr>"
  using assms unfolding marks_only_def by blast

lemma marks_only_same:
  assumes "marks_only v w"
  shows "vc_code w = vc_code v" "vc_control w = vc_control v" "vc_stack w = vc_stack v" "vc_depth w = vc_depth v"
    "vc_unreachable w = vc_unreachable v" "vc_module w = vc_module v" "stack_inv w = stack_inv v" "same_function u w = same_function u v"
    "map instr_key (vc_instrs w) = map instr_key (vc_instrs v)"
proof -
  show "map instr_key (vc_instrs w) = map instr_key (vc_instrs v)" using assms by (simp add: marks_only_def)
qed (use assms in \<open>auto elim!: marks_only_obtain simp: stack_inv_def\<close>)

lemma marks_only_capture: "marks_only v (an_vctx s) \<Longrightarrow> marks_only v (an_vctx (WAH_CAPTURE_REF_MAP s))"
  by (simp add: WAH_CAPTURE_REF_MAP_def Let_def marks_only_lwm split: prod.splits)

lemma marks_only_update:
  assumes "marks_only v (an_vctx s)" "\<And>di. instr_key (f di) = instr_key di"
  shows "marks_only v (an_vctx (update_instr i f s))"
proof -
  have "map instr_key (xs[i := f (xs ! i)]) = map instr_key xs" for xs
    by (cases "i < length xs") (auto intro!: nth_equalityI simp: nth_list_update assms(2))
  with assms(1) show ?thesis by (simp add: update_instr_def marks_only_instrs)
qed

lemma mark_instr_key [simp]: "instr_key (mark_instr c fl di) = instr_key di"
  by (simp add: instr_key_def mark_instr_def)

lemma marks_only_poll: "marks_only v (an_vctx s) \<Longrightarrow> marks_only v (an_vctx (snd (analyze_poll b opc s)))"
  by (simp add: analyze_poll_def Let_def marks_only_capture)

lemma marks_only_mark: "marks_only v (an_vctx s) \<Longrightarrow> marks_only v (an_vctx (analyze_mark opc k c s))"
  by (simp add: analyze_mark_def Let_def marks_only_capture marks_only_update)

section \<open>The loop\<close>

lemma validate_opcode_code: "wah_validate_opcode opc v = Inr (x, v') \<Longrightarrow> suffix (vc_code v') (vc_code v)"
  using v_hoareD [OF func.base.validate_opcode same_function_refl] by (simp add: same_function_def)

lemma analyze_fetch_elim:
  assumes "analyze_fetch b s = Inr (opc, cur_map, t)"
  obtains bs m where "wah_decode_opcode (vc_code (an_vctx s)) = Inr (opc, bs)"
    "wah_require_feature (vc_module (an_vctx s)) (wah_opcode_features opc) = Inr m"
    "analyze_poll b opc (s\<lparr>an_vctx := (an_vctx s)\<lparr>vc_code := bs, vc_module := m\<rparr>\<rparr>) = (cur_map, t)"
  using assms unfolding analyze_fetch_def by (auto simp: res_simps)

lemma analyze_instr_elim:
  assumes "analyze_instr b opc cur_map s = Inr s'"
  obtains v where "wah_validate_opcode opc (an_vctx s) = Inr ((), v)"
    "s' = (if b then analyze_mark opc (length (vc_instrs (an_vctx s))) cur_map (s\<lparr>an_vctx := v\<rparr>) else s\<lparr>an_vctx := v\<rparr>)"
  using assms unfolding analyze_instr_def with_vctx_def by (auto simp: res_simps)

lemma analyze_step_continue:
  assumes "analyze_step b expected s = Inr (False, s')"
  obtains opc cur_map t where "analyze_fetch b s = Inr (opc, cur_map, t)" "analyze_instr b opc cur_map t = Inr s'"
  using assms unfolding analyze_step_def by (auto simp: res_simps split: if_splits)

lemma analyze_step_done:
  assumes "analyze_step b expected s = Inr (True, s')"
  obtains cur_map t where "analyze_fetch b s = Inr (WAH_OP_END, cur_map, t)" "b \<Longrightarrow> vc_control (an_vctx t) = []"
    "with_vctx (analyze_end b expected cur_map) t = Inr s'"
  using assms unfolding analyze_step_def by (auto simp: res_simps split: if_splits)

lemma analyze_fetch_same:
  assumes "analyze_fetch b s = Inr (opc, cur_map, t)"
  shows "length (vc_code (an_vctx t)) < length (vc_code (an_vctx s))"
proof -
  from assms obtain bs m where d: "wah_decode_opcode (vc_code (an_vctx s)) = Inr (opc, bs)"
    and p: "analyze_poll b opc (s\<lparr>an_vctx := (an_vctx s)\<lparr>vc_code := bs, vc_module := m\<rparr>\<rparr>) = (cur_map, t)"
    by (rule analyze_fetch_elim)
  have "marks_only ((an_vctx s)\<lparr>vc_code := bs, vc_module := m\<rparr>) (an_vctx t)"
    using marks_only_poll [of _ "s\<lparr>an_vctx := (an_vctx s)\<lparr>vc_code := bs, vc_module := m\<rparr>\<rparr>" b opc] p by simp
  from marks_only_same(1) [OF this] have "vc_code (an_vctx t) = bs" by simp
  then show ?thesis using opcode.dec_shorter [OF d] by simp
qed

lemma analyze_instr_code:
  assumes "analyze_instr b opc cur_map t = Inr s'" shows "suffix (vc_code (an_vctx s')) (vc_code (an_vctx t))"
proof -
  from assms obtain v where run: "wah_validate_opcode opc (an_vctx t) = Inr ((), v)"
    and s': "s' = (if b then analyze_mark opc (length (vc_instrs (an_vctx t))) cur_map (t\<lparr>an_vctx := v\<rparr>) else t\<lparr>an_vctx := v\<rparr>)"
    by (rule analyze_instr_elim)
  have "vc_code (an_vctx s') = vc_code v"
    unfolding s' by (auto intro!: marks_only_same(1) marks_only_mark)
  with validate_opcode_code [OF run] show ?thesis by simp
qed

lemma analyze_step_shrinks:
  assumes "analyze_step b expected s = Inr (False, s')"
  shows "length (vc_code (an_vctx s')) < length (vc_code (an_vctx s))"
proof -
  from assms obtain opc cur_map t where f: "analyze_fetch b s = Inr (opc, cur_map, t)" and i: "analyze_instr b opc cur_map t = Inr s'"
    by (rule analyze_step_continue)
  from analyze_fetch_same [OF f] analyze_instr_code [OF i] show ?thesis by (auto dest: suffix_length_le)
qed

text \<open>
  The \<open>while\<close> loop of \<open>wah_analyze_stream\<close>; every round consumes an opcode. When the code runs out before the terminal
  \<open>end\<close>, the error depends on what is analyzed.
\<close>

function wah_analyze_stream :: "bool \<Rightarrow> wah_type \<Rightarrow> wah_analysis \<Rightarrow> wah_analysis res" where
  "wah_analyze_stream is_func_body expected_type s =
    (if vc_code (an_vctx s) = [] then Inl (if is_func_body then WAH_ERROR_MALFORMED else WAH_ERROR_UNEXPECTED_EOF)
     else case analyze_step is_func_body expected_type s of
       Inl e \<Rightarrow> Inl e
     | Inr (True, s') \<Rightarrow> if is_func_body then WAH_ENSURE (vc_control (an_vctx s') = []) WAH_ERROR_VALIDATION_FAILED (Inr s') else Inr s'
     | Inr (False, s') \<Rightarrow> wah_analyze_stream is_func_body expected_type s')"
  by pat_completeness auto
termination
  by (relation "measure (\<lambda>(b, t, s). length (vc_code (an_vctx s)))") (auto dest: analyze_step_shrinks)

declare wah_analyze_stream.simps [simp del]

definition analysis_init :: "wah_validation_context \<Rightarrow> wah_analysis" where
  "analysis_init v = \<lparr> an_vctx = v, an_captured_types = [], an_captured_tops = [0], an_ref_nodes = [], an_poll_ref_tops = [],
     an_poll_map = UINT32_MAX, an_is_first_instr = True, an_poll_flags = 0 \<rparr>"

section \<open>Constant expressions\<close>

definition const_expr_context :: "wah_module \<Rightarrow> nat \<Rightarrow> bytes \<Rightarrow> wah_validation_context" where
  "const_expr_context m max_global_idx bs = \<lparr> vc_mode = WAH_ANALYZE_CONST_EXPR, vc_stack = [], vc_lwm = 0, vc_func_type = func_type_zero,
     vc_module = m, vc_total_locals = 0, vc_depth = 0, vc_max_depth = 0, vc_unreachable = False, vc_max_global_idx = max_global_idx,
     vc_control = [], vc_local_inits = None, vc_labels = None, vc_locals = [], vc_instrs = [], vc_code = bs \<rparr>"

text \<open>The in-place removal of duplicates from the sorted array: \<open>kept\<close> is \<open>deps[0..n)\<close>.\<close>

definition dedup_sorted :: "nat list \<Rightarrow> nat list" where
  "dedup_sorted deps = (case deps of [] \<Rightarrow> [] | d # ds \<Rightarrow> foldl (\<lambda>kept x. if x \<noteq> last kept then kept @ [x] else kept) [d] ds)"

definition imm_u32 :: "wah_imm \<Rightarrow> nat" where
  "imm_u32 i = (case i of IMM_u32 n \<Rightarrow> n | _ \<Rightarrow> 0)"

definition wah_collect_global_deps :: "wah_decoded_instr list \<Rightarrow> nat list" where
  "wah_collect_global_deps instrs =
    dedup_sorted (sort (map (\<lambda>di. imm_u32 (di_imm di)) (filter (\<lambda>di. di_opcode di = WAH_OP_GLOBAL_GET) instrs)))"

text \<open>\<open>wah_compile_const_expr\<close> up to the lowering: the dependencies, the module and the input after the expression.\<close>

definition wah_compile_const_expr :: "wah_type \<Rightarrow> nat \<Rightarrow> wah_module \<Rightarrow> bytes \<Rightarrow> (nat list \<times> wah_module \<times> bytes) res" where
  "wah_compile_const_expr expected_type max_global_idx m bs =
    WAH_CHECK (wah_analyze_stream False expected_type (analysis_init (const_expr_context m max_global_idx bs))) (\<lambda>s.
    Inr (wah_collect_global_deps (vc_instrs (an_vctx s)), vc_module (an_vctx s), vc_code (an_vctx s)))"

section \<open>Correctness of the reference maps\<close>

text \<open>The reference slots of an operand stack, and what it means that node \<open>n\<close> stands for a list of slots.\<close>

definition ref_positions :: "wah_type list \<Rightarrow> nat list" where
  "ref_positions ts = filter (\<lambda>i. WAH_TYPE_IS_REF (ts ! i)) [0..<length ts]"

fun chained :: "wah_ref_node list \<Rightarrow> nat \<Rightarrow> nat list \<Rightarrow> bool" where
  "chained nodes n [] \<longleftrightarrow> n = 0"
| "chained nodes n (p # ps) \<longleftrightarrow> 0 < n \<and> n \<le> length nodes \<and> rn_pos (nodes ! (n - 1)) = p \<and> rn_parent (nodes ! (n - 1)) < n
     \<and> chained nodes (rn_parent (nodes ! (n - 1))) ps"

lemma ref_positions_Nil [simp]: "ref_positions [] = []"
  by (simp add: ref_positions_def)

lemma ref_positions_snoc [simp]: "ref_positions (ts @ [t]) = ref_positions ts @ (if WAH_TYPE_IS_REF t then [length ts] else [])"
  by (auto simp: ref_positions_def nth_append intro!: filter_cong)

lemma length_ref_positions: "length (ref_positions ts) = length (filter WAH_TYPE_IS_REF ts)"
  by (induction ts rule: rev_induct) auto

lemma ref_positions_bound: "p \<in> set (ref_positions ts) \<Longrightarrow> p < length ts \<and> WAH_TYPE_IS_REF (ts ! p)"
  by (auto simp: ref_positions_def)

lemma sorted_ref_positions: "sorted_wrt (<) (ref_positions ts)"
  by (simp add: ref_positions_def sorted_wrt_filter)

lemma chained_le: "chained nodes n ps \<Longrightarrow> n \<le> length nodes"
  by (cases ps) auto

lemma chained_append: "chained nodes n ps \<Longrightarrow> chained (nodes @ ms) n ps"
  by (induction ps arbitrary: n) (auto simp: nth_append)

lemma chained_prefix: "prefix nodes nodes' \<Longrightarrow> chained nodes n ps \<Longrightarrow> chained nodes' n ps"
  by (auto simp: prefix_def chained_append)

lemma walk_chained: "chained nodes n ps \<Longrightarrow> walk_ref_map nodes d n = Some (filter (\<lambda>p. p < d) ps)"
  by (induction ps arbitrary: n) (subst walk_ref_map.simps, auto simp: Let_def)+

lemma check_chained:
  "chained nodes n ps \<Longrightarrow> sorted_wrt (>) ps \<Longrightarrow> (\<forall>p\<in>set ps. p < below \<and> WAH_TYPE_IS_REF (stk ! p))
   \<Longrightarrow> check_ref_walk nodes stk n below k = Some (k + length ps)"
proof (induction ps arbitrary: n below k)
  case Nil
  then show ?case by (simp add: check_ref_walk.simps)
next
  case (Cons p ps)
  let ?node = "nodes ! (n - 1)"
  have "check_ref_walk nodes stk (rn_parent ?node) p (k + 1) = Some (k + 1 + length ps)"
    using Cons.prems by (intro Cons.IH) auto
  then show ?case using Cons.prems by (subst check_ref_walk.simps) (simp add: Let_def)
qed

text \<open>The arrays of \<open>wah_analyze_stream\<close> describe the captured stack.\<close>

definition tops_ok :: "wah_ref_node list \<Rightarrow> wah_type list \<Rightarrow> nat list \<Rightarrow> bool" where
  "tops_ok nodes ts tops \<longleftrightarrow> length tops = length ts + 1
     \<and> (\<forall>i \<le> length ts. chained nodes (tops ! i) (rev (ref_positions (take i ts))))"

definition capture_inv :: "wah_analysis \<Rightarrow> bool" where
  "capture_inv s \<longleftrightarrow> tops_ok (an_ref_nodes s) (an_captured_types s) (an_captured_tops s) \<and> lwm_ok (an_captured_types s) (an_vctx s)"

lemma tops_ok_take: "tops_ok nodes ts tops \<Longrightarrow> k \<le> length ts \<Longrightarrow> tops_ok nodes (take k ts) (take (k + 1) tops)"
  by (auto simp: tops_ok_def min_def)

lemma tops_ok_last: "tops_ok nodes ts tops \<Longrightarrow> chained nodes (tops ! length ts) (rev (ref_positions ts))"
  by (force simp: tops_ok_def)

lemma tops_ok_snoc:
  assumes "tops_ok nodes ts tops" "prefix nodes nodes'" "chained nodes' n (rev (ref_positions (ts @ [t])))"
  shows "tops_ok nodes' (ts @ [t]) (tops @ [n])"
  using assms by (auto simp: tops_ok_def nth_append le_Suc_eq intro: chained_prefix)

lemma capture_slots_ok:
  "tops_ok nodes ts tops \<Longrightarrow> capture_slots us (length ts) tops nodes = (tops', nodes') \<Longrightarrow>
   tops_ok nodes' (ts @ us) tops' \<and> prefix nodes nodes'"
proof (induction us arbitrary: ts tops nodes)
  case Nil
  then show ?case by simp
next
  case (Cons u us)
  let ?nodes = "if WAH_TYPE_IS_REF u then nodes @ [\<lparr>rn_parent = tops ! length ts, rn_pos = length ts\<rparr>] else nodes"
  let ?n = "if WAH_TYPE_IS_REF u then length nodes + 1 else tops ! length ts"
  have last: "chained nodes (tops ! length ts) (rev (ref_positions ts))" by (rule tops_ok_last) (fact Cons.prems)
  have "tops_ok ?nodes (ts @ [u]) (tops @ [?n])"
  proof (rule tops_ok_snoc)
    show "chained ?nodes ?n (rev (ref_positions (ts @ [u])))"
      using last chained_le [OF last] by (auto simp: chained_append less_Suc_eq_le)
  qed (use Cons.prems in auto)
  from Cons.IH [OF this] Cons.prems(2) show ?case by (auto split: if_splits intro: prefix_order.trans simp: prefix_def)
qed

lemma common_slots_ok:
  assumes "k \<le> length cap" "k \<le> length data" "take k cap = take k data"
  shows "common_slots cap data k \<le> length cap \<and> common_slots cap data k \<le> length data
    \<and> take (common_slots cap data k) cap = take (common_slots cap data k) data"
  using assms
proof (induction cap data k rule: common_slots.induct)
  case (1 cap data k)
  show ?case
  proof (cases "k < length data \<and> k < length cap \<and> cap ! k = data ! k")
    case True
    then show ?thesis using 1 by (simp add: common_slots.simps [of cap data k] take_Suc_conv_app_nth)
  next
    case False
    then have "common_slots cap data k = k" by (subst common_slots.simps) auto
    then show ?thesis using "1.prems" by simp
  qed
qed

text \<open>
  A capture records the reference slots of the operand stack, leaves the earlier nodes as they are and keeps the
  invariant. In unreachable code it records the empty map.
\<close>

lemma capture_ref_map:
  assumes inv: "capture_inv s"
  shows "capture_inv (WAH_CAPTURE_REF_MAP s)" "prefix (an_ref_nodes s) (an_ref_nodes (WAH_CAPTURE_REF_MAP s))"
    "\<exists>n. an_poll_ref_tops (WAH_CAPTURE_REF_MAP s) = an_poll_ref_tops s @ [n] \<and> chained (an_ref_nodes (WAH_CAPTURE_REF_MAP s)) n
       (if vc_unreachable (an_vctx s) then [] else rev (ref_positions (rev (vc_stack (an_vctx s)))))"
proof -
  let ?v = "an_vctx s" let ?cap = "an_captured_types s" let ?data = "rev (vc_stack (an_vctx s))"
  let ?c = "common_slots ?cap ?data (min (vc_lwm ?v) (length ?cap))"
  have c: "?c \<le> length ?cap \<and> ?c \<le> length ?data \<and> take ?c ?cap = take ?c ?data"
    using inv by (intro common_slots_ok) (auto simp: capture_inv_def lwm_ok_def min_def)
  then have data: "take ?c ?cap @ drop ?c ?data = ?data" by simp
  obtain tops nodes where r: "capture_slots (drop ?c ?data) ?c (take (?c + 1) (an_captured_tops s)) (an_ref_nodes s) = (tops, nodes)"
    by (cases "capture_slots (drop ?c ?data) ?c (take (?c + 1) (an_captured_tops s)) (an_ref_nodes s)")
  have ok: "tops_ok nodes ?data tops \<and> prefix (an_ref_nodes s) nodes"
  proof -
    have "tops_ok (an_ref_nodes s) (take ?c ?cap) (take (?c + 1) (an_captured_tops s))"
      using inv c by (intro tops_ok_take) (auto simp: capture_inv_def)
    moreover have "length (take ?c ?cap) = ?c" using c by simp
    ultimately show ?thesis using capture_slots_ok [of _ "take ?c ?cap" _ "drop ?c ?data"] r data by metis
  qed
  show "capture_inv (WAH_CAPTURE_REF_MAP s)" "prefix (an_ref_nodes s) (an_ref_nodes (WAH_CAPTURE_REF_MAP s))"
    using inv ok r data by (auto simp: WAH_CAPTURE_REF_MAP_def capture_inv_def lwm_ok_def Let_def)
  show "\<exists>n. an_poll_ref_tops (WAH_CAPTURE_REF_MAP s) = an_poll_ref_tops s @ [n] \<and> chained (an_ref_nodes (WAH_CAPTURE_REF_MAP s)) n
       (if vc_unreachable ?v then [] else rev (ref_positions ?data))"
    using ok r tops_ok_last [of nodes ?data tops] by (auto simp: WAH_CAPTURE_REF_MAP_def Let_def)
qed

text \<open>The maps of an analysis only grow.\<close>

definition maps_extend :: "wah_analysis \<Rightarrow> wah_analysis \<Rightarrow> bool" where
  "maps_extend s s' \<longleftrightarrow> prefix (an_ref_nodes s) (an_ref_nodes s') \<and> prefix (an_poll_ref_tops s) (an_poll_ref_tops s')"

lemma maps_extend_refl [simp]: "maps_extend s s"
  by (simp add: maps_extend_def)

lemma maps_extend_trans: "maps_extend s t \<Longrightarrow> maps_extend t u \<Longrightarrow> maps_extend s u"
  by (auto simp: maps_extend_def intro: prefix_order.trans)

lemma capture_extends: "capture_inv s \<Longrightarrow> maps_extend s (WAH_CAPTURE_REF_MAP s)"
  using capture_ref_map(2,3) [of s] by (auto simp: maps_extend_def)

lemma capture_inv_frame [simp]:
  "capture_inv (s\<lparr>an_poll_map := k\<rparr>) = capture_inv s" "capture_inv (s\<lparr>an_poll_flags := k\<rparr>) = capture_inv s"
  "capture_inv (s\<lparr>an_is_first_instr := x\<rparr>) = capture_inv s"
  by (simp_all add: capture_inv_def)

lemma maps_extend_frame [simp]:
  "maps_extend u (s\<lparr>an_poll_map := k\<rparr>) = maps_extend u s" "maps_extend u (s\<lparr>an_poll_flags := k\<rparr>) = maps_extend u s"
  "maps_extend u (s\<lparr>an_is_first_instr := x\<rparr>) = maps_extend u s" "maps_extend u (s\<lparr>an_vctx := v\<rparr>) = maps_extend u s"
  by (simp_all add: maps_extend_def)

lemma update_instr_inv [simp]: "capture_inv (update_instr i f s) = capture_inv s" "maps_extend u (update_instr i f s) = maps_extend u s"
  by (simp_all add: update_instr_def capture_inv_def)

lemma poll_inv:
  assumes "capture_inv s" shows "capture_inv (snd (analyze_poll b opc s))" "maps_extend s (snd (analyze_poll b opc s))"
  using assms by (simp_all add: analyze_poll_def Let_def capture_ref_map(1) capture_extends)

lemma mark_inv:
  assumes "capture_inv s" shows "capture_inv (analyze_mark opc k c s)" "maps_extend s (analyze_mark opc k c s)"
proof -
  let ?s = "if length (vc_instrs (an_vctx s)) > k then (update_instr k (mark_instr c (an_poll_flags s)) s)\<lparr>an_poll_flags := 0\<rparr> else s"
  have s: "capture_inv ?s" "maps_extend s ?s" using assms by simp_all
  then show "capture_inv (analyze_mark opc k c s)"
    unfolding analyze_mark_def Let_def by (simp add: capture_ref_map(1))
  have "maps_extend s (WAH_CAPTURE_REF_MAP ?s)"
    using s(2) capture_extends [OF s(1)] by (rule maps_extend_trans)
  then show "maps_extend s (analyze_mark opc k c s)" unfolding analyze_mark_def Let_def by simp
qed

lemma fetch_inv:
  assumes "analyze_fetch b s = Inr (opc, cur_map, t)" "capture_inv s"
  shows "capture_inv t \<and> maps_extend s t"
proof -
  from assms(1) obtain bs m where p: "analyze_poll b opc (s\<lparr>an_vctx := (an_vctx s)\<lparr>vc_code := bs, vc_module := m\<rparr>\<rparr>) = (cur_map, t)"
    by (rule analyze_fetch_elim)
  have "capture_inv (s\<lparr>an_vctx := (an_vctx s)\<lparr>vc_code := bs, vc_module := m\<rparr>\<rparr>)" using assms(2) by (simp add: capture_inv_def)
  from poll_inv [OF this, of b opc] show ?thesis unfolding p by (simp add: maps_extend_def)
qed

lemma instr_inv:
  assumes "analyze_instr b opc cur_map s = Inr s'" "capture_inv s"
  shows "capture_inv s' \<and> maps_extend s s'"
proof -
  from assms(1) obtain v where run: "wah_validate_opcode opc (an_vctx s) = Inr ((), v)"
    and s': "s' = (if b then analyze_mark opc (length (vc_instrs (an_vctx s))) cur_map (s\<lparr>an_vctx := v\<rparr>) else s\<lparr>an_vctx := v\<rparr>)"
    by (rule analyze_instr_elim)
  have "lwm_ok (an_captured_types s) v"
    using assms(2) by (intro v_hoareD [OF mark.base.validate_opcode _ run]) (simp add: capture_inv_def)
  then have "capture_inv (s\<lparr>an_vctx := v\<rparr>)" using assms(2) by (simp add: capture_inv_def)
  from mark_inv [OF this] this show ?thesis unfolding s' by (auto simp: maps_extend_def)
qed

lemma step_inv:
  assumes "analyze_step b expected s = Inr (False, s')" "capture_inv s"
  shows "capture_inv s' \<and> maps_extend s s'"
proof -
  from assms(1) obtain opc cur_map t where f: "analyze_fetch b s = Inr (opc, cur_map, t)" and i: "analyze_instr b opc cur_map t = Inr s'"
    by (rule analyze_step_continue)
  from fetch_inv [OF f assms(2)] instr_inv [OF i] show ?thesis by (blast intro: maps_extend_trans)
qed

lemma with_vctx_extends: "with_vctx m s = Inr s' \<Longrightarrow> maps_extend u s' = maps_extend u s"
  by (auto simp: with_vctx_def res_simps)

lemma last_step_extends:
  assumes "analyze_step b expected s = Inr (True, s')" "capture_inv s"
  shows "maps_extend s s'"
proof -
  from assms(1) obtain cur_map t where f: "analyze_fetch b s = Inr (WAH_OP_END, cur_map, t)" and e: "with_vctx (analyze_end b expected cur_map) t = Inr s'"
    by (rule analyze_step_done)
  from fetch_inv [OF f assms(2)] with_vctx_extends [OF e] show ?thesis by simp
qed

text \<open>The states at the head of the loop, and the state after it.\<close>

inductive analysis_reach :: "bool \<Rightarrow> wah_type \<Rightarrow> wah_validation_context \<Rightarrow> wah_analysis \<Rightarrow> bool" for b expected v where
  start: "analysis_reach b expected v (analysis_init v)"
| step: "analysis_reach b expected v s \<Longrightarrow> analyze_step b expected s = Inr (False, s') \<Longrightarrow> analysis_reach b expected v s'"

lemma init_inv: "vc_lwm v = 0 \<Longrightarrow> capture_inv (analysis_init v)"
  by (simp add: capture_inv_def analysis_init_def tops_ok_def lwm_ok_def)

lemma reach_inv: "analysis_reach b expected v s \<Longrightarrow> vc_lwm v = 0 \<Longrightarrow> capture_inv s"
  by (induction rule: analysis_reach.induct) (auto simp: init_inv dest: step_inv)

lemma stream_step:
  assumes "wah_analyze_stream b expected s = Inr f"
  obtains (last) "analyze_step b expected s = Inr (True, f)" "b \<Longrightarrow> vc_control (an_vctx f) = []"
    | (more) s' where "analyze_step b expected s = Inr (False, s')" "wah_analyze_stream b expected s' = Inr f"
  using assms by (subst (asm) wah_analyze_stream.simps) (auto simp: res_simps split: if_splits sum.splits bool.splits)

lemma stream_extends:
  "wah_analyze_stream b expected s = Inr f \<Longrightarrow> capture_inv s \<Longrightarrow> maps_extend s f"
proof (induction b expected s rule: wah_analyze_stream.induct)
  case (1 b expected s)
  from "1.prems"(1) show ?case
  proof (cases rule: stream_step)
    case last
    then show ?thesis using last_step_extends "1.prems"(2) by blast
  next
    case (more s')
    have "vc_code (an_vctx s) \<noteq> []" using "1.prems"(1) by (subst (asm) wah_analyze_stream.simps) (auto split: if_splits)
    with "1.IH" [OF _ more(1)] more step_inv [OF more(1)] "1.prems"(2) show ?thesis by (blast intro: maps_extend_trans)
  qed
qed

lemma step_code: "analyze_step b expected s = Inr (False, s') \<Longrightarrow> vc_code (an_vctx s) \<noteq> []"
  using analyze_step_shrinks by fastforce

lemma reach_stream: "analysis_reach b expected v s \<Longrightarrow> wah_analyze_stream b expected s = wah_analyze_stream b expected (analysis_init v)"
proof (induction rule: analysis_reach.induct)
  case (step s s')
  then show ?case using step_code [OF step.hyps(2)] wah_analyze_stream.simps [of b expected s] by simp
qed simp

lemma fetched_extends:
  assumes "wah_analyze_stream b expected s = Inr f" "analyze_fetch b s = Inr (opc, k, t)" "capture_inv s"
  shows "maps_extend t f"
  using assms(1)
proof (cases rule: stream_step)
  case last
  from last(1) obtain k' t' where "analyze_fetch b s = Inr (WAH_OP_END, k', t')" "with_vctx (analyze_end b expected k') t' = Inr f"
    by (rule analyze_step_done)
  with assms(2) show ?thesis using with_vctx_extends by fastforce
next
  case (more s')
  from more(1) obtain opc' k' t' where "analyze_fetch b s = Inr (opc', k', t')" "analyze_instr b opc' k' t' = Inr s'"
    by (rule analyze_step_continue)
  with assms(2) have "analyze_instr b opc' k' t = Inr s'" by simp
  with fetch_inv [OF assms(2,3)] have "maps_extend t s'" by (blast dest: instr_inv)
  moreover have "maps_extend s' f"
    using stream_extends [OF more(2)] step_inv [OF more(1) assms(3)] by blast
  ultimately show ?thesis by (rule maps_extend_trans)
qed

text \<open>The reference slots that a capture in state \<open>v\<close> has to list.\<close>

definition live_refs :: "wah_validation_context \<Rightarrow> nat list" where
  "live_refs v = (if vc_unreachable v then [] else ref_positions (rev (vc_stack v)))"

lemma fetch_capture:
  assumes "analyze_fetch b s = Inr (opc, k, t)" "capture_inv s" "an_poll_ref_tops t \<noteq> an_poll_ref_tops s"
  shows "k = length (an_poll_ref_tops s)
    \<and> (\<exists>n. an_poll_ref_tops t = an_poll_ref_tops s @ [n] \<and> chained (an_ref_nodes t) n (rev (live_refs (an_vctx s))))"
proof -
  from assms(1) obtain bs m where p: "analyze_poll b opc (s\<lparr>an_vctx := (an_vctx s)\<lparr>vc_code := bs, vc_module := m\<rparr>\<rparr>) = (k, t)"
    by (rule analyze_fetch_elim)
  let ?s = "s\<lparr>an_vctx := (an_vctx s)\<lparr>vc_code := bs, vc_module := m\<rparr>\<rparr>"
  have "capture_inv ?s" using assms(2) by (simp add: capture_inv_def)
  from capture_ref_map(3) [OF this] obtain n where n: "an_poll_ref_tops (WAH_CAPTURE_REF_MAP ?s) = an_poll_ref_tops s @ [n]"
    "chained (an_ref_nodes (WAH_CAPTURE_REF_MAP ?s)) n (rev (live_refs (an_vctx s)))"
    by (auto simp: live_refs_def split: if_splits)
  with p assms(3) show ?thesis by (auto simp: analyze_poll_def Let_def split: if_splits)
qed

text \<open>What a captured map is worth at the end of the analysis.\<close>

lemma captured_map:
  assumes "vc_lwm v = 0" "analysis_reach b expected v s" "analyze_fetch b s = Inr (opc, k, t)"
    and "an_poll_ref_tops t \<noteq> an_poll_ref_tops s" "wah_analyze_stream b expected (analysis_init v) = Inr f"
  shows "k < length (an_poll_ref_tops f) \<and> chained (an_ref_nodes f) (an_poll_ref_tops f ! k) (rev (live_refs (an_vctx s)))"
proof -
  have inv: "capture_inv s" using assms(1,2) by (blast intro: reach_inv)
  from fetch_capture [OF assms(3) inv assms(4)] obtain n where n: "k = length (an_poll_ref_tops s)" "an_poll_ref_tops t = an_poll_ref_tops s @ [n]"
    "chained (an_ref_nodes t) n (rev (live_refs (an_vctx s)))" by blast
  have "maps_extend t f"
    using fetched_extends [OF _ assms(3) inv, of expected f] assms(5) reach_stream [OF assms(2)] by simp
  with n show ?thesis by (auto simp: maps_extend_def prefix_def nth_append intro: chained_append)
qed

text \<open>C15: The collector finds the references of a suspended frame. Take any map that the analysis of a body captures before
  an instruction. After the analysis the collector's walk over that map, whose loop ends only because of the shape of
  the nodes, returns; it visits exactly the reference slots of the operand stack the validator had at the instruction,
  topmost first, that are below the actual depth of the frame.\<close>

theorem ref_map_walk_returns:
  assumes "vc_lwm v = 0" "analysis_reach True expected v s" "analyze_fetch True s = Inr (opc, k, t)"
    and "an_poll_ref_tops t \<noteq> an_poll_ref_tops s" "wah_analyze_stream True expected (analysis_init v) = Inr f"
  shows "walk_ref_map (an_ref_nodes f) actual_depth (an_poll_ref_tops f ! k) = Some (rev (filter (\<lambda>p. p < actual_depth) (live_refs (an_vctx s))))"
  using captured_map [OF assms] by (auto dest: walk_chained simp: rev_filter)

text \<open>The maps pass their own checker: the walk of \<open>wah_check_ref_map\<close> over a map captured in reachable code accepts it
  for the operand stack at that instruction, so the nodes are in range, the slots descend, each is of a reference type,
  and none is missing.\<close>

lemma ref_map_checked:
  assumes "vc_lwm v = 0" "analysis_reach True expected v s" "analyze_fetch True s = Inr (opc, k, t)"
    and "an_poll_ref_tops t \<noteq> an_poll_ref_tops s" "wah_analyze_stream True expected (analysis_init v) = Inr f"
    and "\<not> vc_unreachable (an_vctx s)"
  shows "wah_check_ref_map (an_poll_ref_tops f) (an_ref_nodes f) k (rev (vc_stack (an_vctx s)))"
proof -
  let ?stk = "rev (vc_stack (an_vctx s))"
  have c: "k < length (an_poll_ref_tops f)" "chained (an_ref_nodes f) (an_poll_ref_tops f ! k) (rev (ref_positions ?stk))"
    using captured_map [OF assms(1-5)] assms(6) by (simp_all add: live_refs_def)
  have "check_ref_walk (an_ref_nodes f) ?stk (an_poll_ref_tops f ! k) (length ?stk) 0 = Some (0 + length (rev (ref_positions ?stk)))"
    by (intro check_chained c) (auto simp: sorted_wrt_rev sorted_ref_positions dest!: ref_positions_bound)
  with c(1) show ?thesis by (simp add: wah_check_ref_map_def length_ref_positions)
qed

section \<open>Function bodies\<close>

record wah_code_body =
  cb_local_count :: nat
  cb_local_runs :: "wah_local_run list"
  cb_max_stack_depth :: nat
  cb_max_frame_slots :: nat
  cb_instrs :: "wah_decoded_instr list"
  cb_poll_ref_tops :: "nat list"
  cb_ref_nodes :: "wah_ref_node list"

text \<open>One entry of the declarations of locals; the state is \<open>total\<close>, the runs so far and the module.\<close>

definition parse_local_decl :: "nat \<times> wah_local_run list \<times> wah_module \<Rightarrow> bytes \<Rightarrow> ((nat \<times> wah_local_run list \<times> wah_module) \<times> bytes) res" where
  "parse_local_decl s bs = (case s of (local_total, runs, m) \<Rightarrow>
    WAH_CHECK (wah_decode_uleb128 bs) (\<lambda>(n, bs).
    WAH_CHECK (wah_decode_val_type m bs) (\<lambda>(t, m, bs).
    WAH_ENSURE (UINT32_MAX - local_total \<ge> unat n) WAH_ERROR_TOO_LARGE (
    let local_total = local_total + unat n in
    WAH_ENSURE (local_total \<le> WAH_MAX_LOCAL_COUNT) WAH_ERROR_TOO_LARGE (
    WAH_ENSURE (t < 0 \<or> WAH_TYIDX t < length (types m)) WAH_ERROR_VALIDATION_FAILED (
    WAH_CHECK (wah_require_type_features m t) (\<lambda>m.
    Inr ((local_total, if unat n > 0 then runs @ [\<lparr>run_end = local_total, run_type = t\<rparr>] else runs, m), bs))))))))"

definition wah_parse_local_decls :: "wah_module \<Rightarrow> bytes \<Rightarrow> ((nat \<times> wah_local_run list \<times> wah_module) \<times> bytes) res" where
  "wah_parse_local_decls m bs =
    WAH_CHECK (wah_decode_and_validate_count 2 bs) (\<lambda>(num_entries, bs).
    repeat_dec num_entries parse_local_decl (0, [], m) bs)"

definition func_body_context :: "wah_module \<Rightarrow> wah_func_type \<Rightarrow> nat \<Rightarrow> wah_local_run list \<Rightarrow> wah_local_inits \<Rightarrow> wah_br_table_labels \<Rightarrow> bytes
    \<Rightarrow> wah_validation_context" where
  "func_body_context m ft local_count runs li bl bs = \<lparr> vc_mode = WAH_ANALYZE_FUNC_BODY, vc_stack = [], vc_lwm = 0, vc_func_type = ft,
     vc_module = m, vc_total_locals = length (ft_param_types ft) + local_count, vc_depth = 0, vc_max_depth = 0, vc_unreachable = False,
     vc_max_global_idx = 0, vc_control = [], vc_local_inits = Some li, vc_labels = Some bl, vc_locals = runs, vc_instrs = [], vc_code = bs \<rparr>"

definition grow_inits :: "nat \<Rightarrow> wah_local_inits \<Rightarrow> wah_local_inits res" where
  "grow_inits total_locals li =
    (if total_locals > length (li_inits li)
     then WAH_CHECK (grow_capacity total_locals (length (li_inits li))) (\<lambda>cap.
       Inr (li\<lparr>li_inits := li_inits li @ replicate (cap - length (li_inits li)) False\<rparr>))
     else Inr li)"

definition analyzed_body :: "nat \<Rightarrow> wah_local_run list \<Rightarrow> wah_analysis \<Rightarrow> wah_code_body" where
  "analyzed_body local_count runs s = \<lparr> cb_local_count = local_count, cb_local_runs = runs, cb_max_stack_depth = vc_max_depth (an_vctx s),
     cb_max_frame_slots = u32_add local_count (vc_max_depth (an_vctx s)), cb_instrs = vc_instrs (an_vctx s),
     cb_poll_ref_tops = an_poll_ref_tops s, cb_ref_nodes = an_ref_nodes s \<rparr>"

text \<open>
  The state of \<open>wah_parse_code_section\<close>: the module, the bodies so far, and the two arrays that all bodies share. The
  instructions stand for the bytecode they are lowered to.
\<close>

record wah_code_parser =
  cp_module :: wah_module
  cp_bodies :: "wah_code_body list"
  cp_inits :: wah_local_inits
  cp_labels :: wah_br_table_labels

definition parse_code_body :: "wah_code_parser \<Rightarrow> bytes \<Rightarrow> (wah_code_parser \<times> bytes) res" where
  "parse_code_body c bs =
    WAH_CHECK (wah_decode_uleb128 bs) (\<lambda>(body_size, bs).
    WAH_ENSURE (unat body_size \<le> length bs) WAH_ERROR_MALFORMED (
    WAH_CHECK (wah_parse_local_decls (cp_module c) (take (unat body_size) bs)) (\<lambda>((local_count, runs, m), code).
    let ft = types m ! (function_type_indices m ! length (cp_bodies c)) in
    WAH_ENSURE (UINT32_MAX - length (ft_param_types ft) \<ge> local_count) WAH_ERROR_TOO_LARGE (
    WAH_ENSURE (length (ft_param_types ft) + local_count \<le> WAH_MAX_LOCAL_COUNT) WAH_ERROR_TOO_LARGE (
    WAH_CHECK (grow_inits (length (ft_param_types ft) + local_count) (cp_inits c)) (\<lambda>li.
    WAH_CHECK (wah_analyze_stream True 0 (analysis_init (func_body_context m ft local_count runs li (cp_labels c) code))) (\<lambda>s.
    Inr (\<lparr> cp_module = vc_module (an_vctx s), cp_bodies = cp_bodies c @ [analyzed_body local_count runs s],
           cp_inits = wah_local_inits_revert 0 (the (vc_local_inits (an_vctx s))), cp_labels = the (vc_labels (an_vctx s)) \<rparr>,
         drop (unat body_size) bs))))))))"

definition br_table_labels_zero :: wah_br_table_labels where
  "br_table_labels_zero = \<lparr>bl_stamps = replicate (WAH_MAX_CONTROL_DEPTH + 1) 0, bl_records = replicate (WAH_MAX_CONTROL_DEPTH + 1) 0, bl_serial = 0\<rparr>"

definition wah_parse_code_section :: "wah_module \<Rightarrow> bytes \<Rightarrow> ((wah_module \<times> wah_code_body list) \<times> bytes) res" where
  "wah_parse_code_section m bs =
    WAH_CHECK (wah_decode_and_validate_count 3 bs) (\<lambda>(count, bs).
    WAH_ENSURE (count = length (function_type_indices m)) WAH_ERROR_MALFORMED (
    WAH_CHECK (repeat_dec count parse_code_body
        \<lparr> cp_module = m, cp_bodies = [], cp_inits = \<lparr>li_inits = [], li_undo = []\<rparr>, cp_labels = br_table_labels_zero \<rparr> bs) (\<lambda>(c, bs).
    Inr ((cp_module c, cp_bodies c), bs))))"

section \<open>What an analysis preserves\<close>

text \<open>
  A property of contexts that validation keeps, and that depends neither on the low-water mark nor on the flags and
  reference maps of the instructions emitted, is kept by the whole analysis.
\<close>

locale analysis_property = validator_property +
  assumes lwm: "P v \<Longrightarrow> P (v\<lparr>vc_lwm := n\<rparr>)"
    and instrs: "P v \<Longrightarrow> map instr_key is = map instr_key (vc_instrs v) \<Longrightarrow> P (v\<lparr>vc_instrs := is\<rparr>)"
    and final_end: "WAH_OP_END \<notin> S"
begin

lemma marks: "marks_only v w \<Longrightarrow> P v \<Longrightarrow> P w"
proof -
  assume "marks_only v w" "P v"
  then have "w = v\<lparr>vc_lwm := vc_lwm w, vc_instrs := vc_instrs w\<rparr>" "map instr_key (vc_instrs w) = map instr_key (vc_instrs (v\<lparr>vc_lwm := vc_lwm w\<rparr>))"
    by (auto elim!: marks_only_obtain simp: marks_only_same(9) [of v w])
  with instrs [OF lwm [OF \<open>P v\<close>]] show "P w" by metis
qed

lemma fetch: "analyze_fetch b s = Inr (opc, k, t) \<Longrightarrow> P (an_vctx s) \<Longrightarrow> P (an_vctx t)"
proof -
  assume P: "P (an_vctx s)" and "analyze_fetch b s = Inr (opc, k, t)"
  from this(2) obtain bs m where d: "wah_decode_opcode (vc_code (an_vctx s)) = Inr (opc, bs)"
    and m: "wah_require_feature (vc_module (an_vctx s)) (wah_opcode_features opc) = Inr m"
    and p: "analyze_poll b opc (s\<lparr>an_vctx := (an_vctx s)\<lparr>vc_code := bs, vc_module := m\<rparr>\<rparr>) = (k, t)"
    by (rule analyze_fetch_elim)
  have "P ((an_vctx s)\<lparr>vc_code := bs, vc_module := m\<rparr>)"
    using P opcode.dec_suffix [OF d] require_feature_frame [OF m] by (intro module code) (auto intro: same_entities_features)
  moreover have "marks_only ((an_vctx s)\<lparr>vc_code := bs, vc_module := m\<rparr>) (an_vctx t)"
    using marks_only_poll [of _ "s\<lparr>an_vctx := (an_vctx s)\<lparr>vc_code := bs, vc_module := m\<rparr>\<rparr>" b opc] p by simp
  ultimately show "P (an_vctx t)" by (rule marks [rotated])
qed

lemma instr: "analyze_instr b opc k s = Inr s' \<Longrightarrow> P (an_vctx s) \<Longrightarrow> P (an_vctx s')"
proof -
  assume P: "P (an_vctx s)" and "analyze_instr b opc k s = Inr s'"
  from this(2) obtain v where run: "wah_validate_opcode opc (an_vctx s) = Inr ((), v)"
    and s': "s' = (if b then analyze_mark opc (length (vc_instrs (an_vctx s))) k (s\<lparr>an_vctx := v\<rparr>) else s\<lparr>an_vctx := v\<rparr>)"
    by (rule analyze_instr_elim)
  have "P v" by (rule v_hoareD [OF validate_opcode P run])
  moreover have "marks_only v (an_vctx (analyze_mark opc (length (vc_instrs (an_vctx s))) k (s\<lparr>an_vctx := v\<rparr>)))"
    by (rule marks_only_mark) simp
  ultimately show "P (an_vctx s')" unfolding s' by (auto intro: marks)
qed

lemma final: "with_vctx (analyze_end b expected k) s = Inr s' \<Longrightarrow> P (an_vctx s) \<Longrightarrow> P (an_vctx s')"
proof -
  have "v_pres P (v_modify (wah_analyzed_append_end n))" for n
    using final_end by (auto intro!: v_hoareI emit simp: v_modify_def wah_analyzed_append_end_def)
  then have "v_pres P (analyze_end b expected k)"
    unfolding analyze_end_def by (intro v_rules pops)
  then show "with_vctx (analyze_end b expected k) s = Inr s' \<Longrightarrow> P (an_vctx s) \<Longrightarrow> P (an_vctx s')"
    by (auto simp: with_vctx_def res_simps dest: v_hoareD)
qed

lemma step: "analyze_step b expected s = Inr (e, s') \<Longrightarrow> P (an_vctx s) \<Longrightarrow> P (an_vctx s')"
  by (cases e) (auto elim!: analyze_step_done analyze_step_continue dest: fetch instr final)

lemma reach: "analysis_reach b expected v s \<Longrightarrow> P v \<Longrightarrow> P (an_vctx s)"
  by (induction rule: analysis_reach.induct) (auto simp: analysis_init_def dest: step)

lemma stream: "wah_analyze_stream b expected s = Inr f \<Longrightarrow> P (an_vctx s) \<Longrightarrow> P (an_vctx f)"
proof (induction b expected s rule: wah_analyze_stream.induct)
  case (1 b expected s)
  from "1.prems"(1) show ?case
  proof (cases rule: stream_step)
    case last
    then show ?thesis using step "1.prems"(2) by blast
  next
    case (more s')
    have "vc_code (an_vctx s) \<noteq> []" using step_code [OF more(1)] .
    with "1.IH" [OF _ more(1)] more step [OF more(1)] "1.prems"(2) show ?thesis by blast
  qed
qed

end

interpretation an_stacks: analysis_property stack_inv "{}"
  by unfold_locales (simp_all add: stack_inv_def undo_len_def)

interpretation an_func: analysis_property "same_function u" "{}" for u
  by unfold_locales simp_all

text \<open>The arrays that all bodies share are still there.\<close>

definition has_shared :: "wah_validation_context \<Rightarrow> bool" where
  "has_shared v \<longleftrightarrow> vc_local_inits v \<noteq> None \<and> vc_labels v \<noteq> None"

interpretation shared: control_free_property has_shared "{}"
proof unfold_locales
  show "v_pres has_shared (PUSH t)" for t by (rule v_hoareI) (simp add: res_simps count_depth_def has_shared_def)
  show "v_pres has_shared POP_INTO" by (rule v_hoareI) (auto simp: res_simps has_shared_def split: if_splits)
qed (auto simp: has_shared_def wah_validation_mark_unreachable_def truncate_eq Let_def wah_validation_init_local_def frame_reset_def
    wah_validation_restore_local_inits_def split: option.splits)

interpretation an_shared: analysis_property has_shared "{}"
  by unfold_locales (simp_all add: has_shared_def)

section \<open>Accepted code\<close>

text \<open>An accepted analysis has a last round, which reads the byte of the terminal \<open>end\<close>.\<close>

lemma stream_last:
  "wah_analyze_stream b expected s = Inr f \<Longrightarrow> analysis_reach b expected v s \<Longrightarrow>
   \<exists>s'. analysis_reach b expected v s' \<and> analyze_step b expected s' = Inr (True, f) \<and> (b \<longrightarrow> vc_control (an_vctx f) = [])"
proof (induction b expected s rule: wah_analyze_stream.induct)
  case (1 b expected s)
  from "1.prems"(1) show ?case
  proof (cases rule: stream_step)
    case last
    then show ?thesis using "1.prems"(2) by blast
  next
    case (more s')
    then show ?thesis using "1.IH" [OF step_code [OF more(1)] more(1)] analysis_reach.step [OF "1.prems"(2) more(1)] by blast
  qed
qed

lemma decode_end: "wah_decode_opcode bs = Inr (WAH_OP_END, r) \<Longrightarrow> bs = 0x0B # r"
proof -
  have "unat b = 11 \<Longrightarrow> b = 11" for b :: "8 word" by (simp add: word_unat_eq_iff)
  then show "wah_decode_opcode bs = Inr (WAH_OP_END, r) \<Longrightarrow> bs = 0x0B # r"
    by (auto simp: wah_decode_opcode_def res_simps split: list.splits if_splits)
qed

lemma with_vctx_run: "with_vctx m s = Inr s' \<Longrightarrow> m (an_vctx s) = Inr ((), an_vctx s')"
  by (auto simp: with_vctx_def res_simps)

lemma last_round:
  assumes "analyze_step b expected s = Inr (True, f)"
  obtains k w where "analyze_end b expected k w = Inr ((), an_vctx f)" "vc_code (an_vctx s) = 0x0B # vc_code w"
    "b \<longrightarrow> vc_control w = []" "vc_control w = vc_control (an_vctx s)" "vc_stack w = vc_stack (an_vctx s)"
    "vc_depth w = vc_depth (an_vctx s)" "vc_unreachable w = vc_unreachable (an_vctx s)" "vc_instrs w = vc_instrs (an_vctx s)"
    "vc_func_type w = vc_func_type (an_vctx s)"
proof -
  from assms obtain k t where f: "analyze_fetch b s = Inr (WAH_OP_END, k, t)" and c: "b \<longrightarrow> vc_control (an_vctx t) = []"
    and e: "with_vctx (analyze_end b expected k) t = Inr f" by (rule analyze_step_done) blast
  from f obtain bs m where d: "wah_decode_opcode (vc_code (an_vctx s)) = Inr (WAH_OP_END, bs)"
    and p: "analyze_poll b WAH_OP_END (s\<lparr>an_vctx := (an_vctx s)\<lparr>vc_code := bs, vc_module := m\<rparr>\<rparr>) = (k, t)" by (rule analyze_fetch_elim)
  let ?v = "(an_vctx s)\<lparr>vc_code := bs, vc_module := m\<rparr>"
  have "marks_only ?v (an_vctx t)"
    using marks_only_poll [of _ "s\<lparr>an_vctx := ?v\<rparr>" b WAH_OP_END] p by simp
  from marks_only_same [OF this] have "vc_code (an_vctx t) = bs" "vc_control (an_vctx t) = vc_control ?v" "vc_stack (an_vctx t) = vc_stack ?v"
    "vc_depth (an_vctx t) = vc_depth ?v" "vc_unreachable (an_vctx t) = vc_unreachable ?v" "same_function ?v (an_vctx t) = same_function ?v ?v"
    by simp_all
  moreover have "vc_instrs (an_vctx t) = vc_instrs ?v" using p by (auto simp: analyze_poll_def WAH_CAPTURE_REF_MAP_def Let_def split: if_splits prod.splits)
  ultimately show ?thesis
    using decode_end [OF d] c by (intro that [OF with_vctx_run [OF e]]) (auto simp: same_function_def)
qed

text \<open>What the terminal \<open>end\<close> of a body checks: the operands that are left are the results of the function.\<close>

lemma analyze_end_body:
  assumes "analyze_end True expected k v = Inr ((), w)" "length (vc_stack v) = vc_depth v" "vc_control v = []"
  shows "vc_depth w = 0" "vc_code v = []" "vc_code w = []" "\<exists>is di. vc_instrs w = is @ [di] \<and> di_opcode di = WAH_OP_END"
    "length (vc_stack v) \<le> length (ft_result_types (vc_func_type v))"
    "list_all2 (matches (vc_module w)) (operands v (length (ft_result_types (vc_func_type v)))) (rev (ft_result_types (vc_func_type v)))"
proof -
  let ?rs = "ft_result_types (vc_func_type v)"
  obtain u where u: "v_seq (map POP (rev ?rs)) v = Inr ((), u)" and w: "vc_depth u = 0" "vc_code u = []" "w = wah_analyzed_append_end k u"
    using assms(1) by (auto simp: analyze_end_def POPS_def v_modify_def res_simps)
  from u pops_eq [OF assms(2), of "rev ?rs"] have m: "list_all2 (matches (vc_module v)) (operands v (length ?rs)) (rev ?rs)"
    and u': "u = without_operands (length ?rs) v" by (auto split: if_splits)
  from u' have same: "vc_module u = vc_module v" "vc_code u = vc_code v" "vc_depth u = vc_depth v - min (length ?rs) (v_avail v)"
    by (simp_all add: without_operands_def Let_def)
  show "vc_depth w = 0" "vc_code v = []" "vc_code w = []" "\<exists>is di. vc_instrs w = is @ [di] \<and> di_opcode di = WAH_OP_END"
    using w same by (simp_all add: wah_analyzed_append_end_def)
  show "length (vc_stack v) \<le> length ?rs"
    using same(3) w(1) assms(2,3) by (simp add: v_avail_def wah_validation_block_base_height_def)
  show "list_all2 (matches (vc_module w)) (operands v (length ?rs)) (rev ?rs)" using m same(1) w(3) by (simp add: wah_analyzed_append_end_def)
qed

lemma analyze_end_const:
  assumes "analyze_end False expected k v = Inr ((), w)"
  shows "vc_depth w = 1" "vc_stack w = vc_stack v" "vc_module w = vc_module v" "vc_code w = vc_code v"
    "\<exists>di. vc_instrs w = vc_instrs v @ [di] \<and> di_opcode di = WAH_OP_END"
    "last (vc_stack v) = WAH_TYPE_BOT \<or> wah_type_is_subtype (last (vc_stack v)) expected (vc_module v)"
  using assms by (auto simp: analyze_end_def wah_analyzed_append_end_def v_modify_def res_simps)

text \<open>C18: An accepted function body is complete, balanced and returns what its type says. If the analysis of a body succeeds, it
  came to a state where only the byte of the final \<open>end\<close> was left, every block was closed and the operands on the
  stack, with bottoms below them in unreachable code, matched the result types of the function one by one, the last
  result on top, with none left over; the final \<open>end\<close> is the last instruction, and the stacks, the function and the
  entities of the module are in order.\<close>

theorem accepted_body_complete:
  assumes "stack_inv v" "wah_analyze_stream True expected (analysis_init v) = Inr f"
  shows "\<exists>s. analysis_reach True expected v s \<and> suffix (vc_code (an_vctx s)) (vc_code v) \<and> vc_code (an_vctx s) = [0x0B]
    \<and> vc_control (an_vctx s) = []
    \<and> list_all2 (matches (vc_module (an_vctx f))) (operands (an_vctx s) (length (ft_result_types (vc_func_type v)))) (rev (ft_result_types (vc_func_type v)))
    \<and> length (vc_stack (an_vctx s)) \<le> length (ft_result_types (vc_func_type v))
    \<and> vc_code (an_vctx f) = [] \<and> vc_control (an_vctx f) = [] \<and> vc_stack (an_vctx f) = []
    \<and> di_opcode (last (vc_instrs (an_vctx f))) = WAH_OP_END \<and> stack_inv (an_vctx f) \<and> same_function v (an_vctx f)"
proof -
  from stream_last [OF assms(2) analysis_reach.start] obtain s where s: "analysis_reach True expected v s"
    "analyze_step True expected s = Inr (True, f)" and c: "vc_control (an_vctx f) = []" by auto
  have inv: "stack_inv (an_vctx s)" "same_function v (an_vctx s)"
    using an_stacks.reach [OF s(1) assms(1)] an_func.reach [OF s(1) same_function_refl] by simp_all
  have fin: "stack_inv (an_vctx f)" "same_function v (an_vctx f)"
    using assms by (auto intro: an_stacks.stream an_func.stream simp: analysis_init_def)
  from s(2) obtain k w where w: "analyze_end True expected k w = Inr ((), an_vctx f)" "vc_code (an_vctx s) = 0x0B # vc_code w"
    "vc_control w = []" "vc_control w = vc_control (an_vctx s)" "vc_stack w = vc_stack (an_vctx s)"
    "vc_depth w = vc_depth (an_vctx s)" "vc_unreachable w = vc_unreachable (an_vctx s)" "vc_func_type w = vc_func_type (an_vctx s)"
    by (rule last_round) blast
  have "length (vc_stack w) = vc_depth w" using inv(1) w(5,6) by (simp add: stack_inv_def)
  note e = analyze_end_body [OF w(1) this w(3)]
  have "vc_func_type w = vc_func_type v" using inv(2) w(8) by (simp add: same_function_def)
  moreover have "operands w n = operands (an_vctx s) n" for n
    using w(4-7) by (simp add: operands_def v_avail_def wah_validation_block_base_height_def)
  ultimately show ?thesis
    using s(1) inv(2) w e fin c by (intro exI [of _ s]) (auto simp: same_function_def stack_inv_def)
qed

section \<open>Constant expressions\<close>

lemma dedup_fold:
  "kept \<noteq> [] \<Longrightarrow> sorted (kept @ xs) \<Longrightarrow> distinct kept \<Longrightarrow>
   (let r = foldl (\<lambda>kept x. if x \<noteq> last kept then kept @ [x] else kept) kept xs in sorted r \<and> distinct r \<and> set r = set kept \<union> set xs)"
proof (induction xs arbitrary: kept)
  case (Cons x xs)
  show ?case
  proof (cases "x = last kept")
    case True
    then show ?thesis using Cons.IH [of kept] Cons.prems by (auto simp: sorted_append Let_def)
  next
    case False
    have "x \<notin> set kept"
    proof
      assume "x \<in> set kept"
      then have "x \<le> last kept" using Cons.prems(1,2)
        by (metis append_butlast_last_id in_set_conv_decomp sorted_append sorted_wrt_append UnE append_is_Nil_conv empty_iff last_in_set
            list.set(1) set_append set_ConsD le_refl)
      moreover have "last kept \<le> x" using Cons.prems(1,2) by (auto simp: sorted_append)
      ultimately show False using False by simp
    qed
    then show ?thesis using Cons.IH [of "kept @ [x]"] Cons.prems False by (auto simp: Let_def)
  qed
qed (simp add: sorted_append)

lemma dedup_sorted_ok: "sorted xs \<Longrightarrow> sorted (dedup_sorted xs) \<and> distinct (dedup_sorted xs) \<and> set (dedup_sorted xs) = set xs"
  using dedup_fold [of "[hd xs]" "tl xs"] by (cases xs) (auto simp: dedup_sorted_def Let_def)

lemma const_expr_entities:
  assumes "wah_compile_const_expr expected g m bs = Inr (deps, m', rest)"
  shows "same_entities m m'" "suffix rest bs"
proof -
  from assms obtain f where run: "wah_analyze_stream False expected (analysis_init (const_expr_context m g bs)) = Inr f"
    and out: "m' = vc_module (an_vctx f)" "rest = vc_code (an_vctx f)"
    by (auto simp: wah_compile_const_expr_def res_simps)
  have "same_function (const_expr_context m g bs) (an_vctx f)" by (rule an_func.stream [OF run]) (simp add: analysis_init_def)
  then show "same_entities m m'" "suffix rest bs" by (simp_all add: out same_function_def const_expr_context_def)
qed

text \<open>
  The validator over a constant expression: apart from what it keeps in every body, each \<open>global.get\<close> that it emits
  names an immutable global of the module below the given limit.
\<close>

definition const_global :: "wah_module \<Rightarrow> nat \<Rightarrow> nat \<Rightarrow> bool" where
  "const_global m g i \<longleftrightarrow> i < g \<and> i < wah_global_index_limit m \<and> \<not> wah_global_is_mutable m i"

definition const_inv :: "wah_module \<Rightarrow> nat \<Rightarrow> wah_validation_context \<Rightarrow> bool" where
  "const_inv m g v \<longleftrightarrow> vc_mode v = WAH_ANALYZE_CONST_EXPR \<and> vc_max_global_idx v = g \<and> same_entities m (vc_module v)
     \<and> (\<forall>k \<in> set (map instr_key (vc_instrs v)). fst k = WAH_OP_GLOBAL_GET \<longrightarrow> const_global m g (imm_u32 (snd k)))"

lemma same_entities_globals:
  "same_entities m m' \<Longrightarrow> wah_global_index_limit m' = wah_global_index_limit m \<and> wah_global_is_mutable m' i = wah_global_is_mutable m i"
  by (auto dest!: same_entities_cases simp: wah_global_index_limit_def wah_global_is_mutable_def)

interpretation const_state: state_property "const_inv m g" for m g
proof unfold_locales
  show "v_pres (const_inv m g) (PUSH t)" for t by (rule v_hoareI) (simp add: res_simps count_depth_def const_inv_def)
  show "v_pres (const_inv m g) POP_INTO" by (rule v_hoareI) (auto simp: res_simps const_inv_def split: if_splits)
qed (auto simp: const_inv_def intro: same_entities_trans)

lemma const_global_get: "v_pres (const_inv m g) (validate_global_get WAH_OP_GLOBAL_GET)"
proof (rule v_hoareI)
  fix v x v' assume P: "const_inv m g v" and run: "validate_global_get WAH_OP_GLOBAL_GET v = Inr (x, v')"
  let ?tail = "\<lambda>i u. v_seq [if vc_mode u = WAH_ANALYZE_CONST_EXPR
      then (if i \<ge> length (global_imports (vc_module u)) then v_require WAH_FEATURE_SHIFT_GC else v_ret ()) else v_ret (),
    PUSH (wah_global_type (vc_module u) i), EMIT_INSTR_EX WAH_OP_GLOBAL_GET (IMM_u32 i)]"
  from run obtain i u where i: "v_u32 v = Inr (i, u)" "i < wah_global_index_limit (vc_module u)"
    "vc_mode u = WAH_ANALYZE_CONST_EXPR \<longrightarrow> i < vc_max_global_idx u \<and> \<not> wah_global_is_mutable (vc_module u) i"
    and k: "?tail i u u = Inr (x, v')"
    by (auto simp: validate_global_get_def res_simps Let_def split: if_splits)
  have u: "const_inv m g u" by (rule v_hoareD [OF const_state.u32 P i(1)])
  with i have g: "const_global m g i" by (auto simp: const_inv_def const_global_def same_entities_globals)
  have "v_pres (const_inv m g) (EMIT_INSTR_EX WAH_OP_GLOBAL_GET (IMM_u32 i))"
    unfolding EMIT_INSTR_EX_def by (rule pres_modify) (use g in \<open>auto simp: const_inv_def imm_u32_def instr_key_def\<close>)
  then have "v_pres (const_inv m g) (?tail i u)" by (intro v_rules const_state.state_prims)
  from v_hoareD [OF this u k] show "const_inv m g v'" .
qed

lemma global_get_case: "wah_opclasses WAH_OP_GLOBAL_GET = WAH_OPCLASS_I" "v_switch validate_cases WAH_OP_GLOBAL_GET = validate_global_get WAH_OP_GLOBAL_GET"
  by (simp_all add: wah_opclasses_def listing_defs cases_defs)

lemma const_validate_global_get: "v_pres (const_inv m g) (wah_validate_opcode WAH_OP_GLOBAL_GET)"
  unfolding wah_validate_opcode_def validate_const_expr_def global_get_case opclass_signature.simps option.case
  by (intro v_rules const_global_get const_state.state_prims)

interpretation const: control_free_property "const_inv m g" "{WAH_OP_GLOBAL_GET}" for m g
proof unfold_locales
  show "v_pres (const_inv m g) (wah_validate_opcode opc)" if "opc \<in> {WAH_OP_GLOBAL_GET}" for opc
    using that const_validate_global_get by simp
qed (auto simp: const_inv_def instr_key_def wah_validation_mark_unreachable_def truncate_eq Let_def wah_validation_init_local_def frame_reset_def
    wah_validation_restore_local_inits_def split: option.splits)

interpretation an_const: analysis_property "const_inv m g" "{WAH_OP_GLOBAL_GET}" for m g
  by unfold_locales (auto simp: const_inv_def)

text \<open>C35: An accepted constant expression is read up to its own \<open>end\<close>: the analysis came to a state whose next byte was that
  \<open>end\<close>, and what follows it is left. It changes nothing of the module but what validation records in it, leaves one value whose type fits the expected one, and its recorded dependencies are the distinct global
  indices it reads, in ascending order, each of them that of an immutable global below the given limit.\<close>

theorem const_expr_accepted:
  assumes "wah_compile_const_expr expected g m bs = Inr (deps, m', rest)"
  shows "\<exists>s f. analysis_reach False expected (const_expr_context m g bs) s
    \<and> (\<exists>pre. bs = pre @ vc_code (an_vctx s)) \<and> vc_code (an_vctx s) = 0x0B # rest
    \<and> wah_analyze_stream False expected (analysis_init (const_expr_context m g bs)) = Inr f
    \<and> (\<exists>t. vc_stack (an_vctx f) = [t] \<and> (t = WAH_TYPE_BOT \<or> wah_type_is_subtype t expected m'))
    \<and> same_entities m m'
    \<and> sorted deps \<and> distinct deps
    \<and> set deps = {imm_u32 (di_imm di) | di. di \<in> set (vc_instrs (an_vctx f)) \<and> di_opcode di = WAH_OP_GLOBAL_GET}
    \<and> (\<forall>d \<in> set deps. d < g \<and> d < wah_global_index_limit m \<and> \<not> wah_global_is_mutable m d)"
proof -
  let ?v = "const_expr_context m g bs"
  from assms obtain f where run: "wah_analyze_stream False expected (analysis_init ?v) = Inr f"
    and out: "deps = wah_collect_global_deps (vc_instrs (an_vctx f))" "m' = vc_module (an_vctx f)" "rest = vc_code (an_vctx f)"
    by (auto simp: wah_compile_const_expr_def res_simps)
  have inv: "stack_inv (an_vctx f)"
    by (rule an_stacks.stream [OF run]) (simp add: stack_inv_def analysis_init_def const_expr_context_def)
  from stream_last [OF run analysis_reach.start] obtain s where s: "analysis_reach False expected ?v s" "analyze_step False expected s = Inr (True, f)"
    by auto
  from s(2) obtain k w where w: "analyze_end False expected k w = Inr ((), an_vctx f)" "vc_code (an_vctx s) = 0x0B # vc_code w"
    by (rule last_round) blast
  note fin = analyze_end_const [OF w(1)]
  have "suffix (vc_code (an_vctx s)) bs"
    using an_func.reach [OF s(1) same_function_refl] by (simp add: same_function_def const_expr_context_def)
  then have code: "\<exists>pre. bs = pre @ vc_code (an_vctx s)" "vc_code (an_vctx s) = 0x0B # rest"
    using w(2) fin(4) out(3) by (simp_all add: suffix_def)
  have type: "\<exists>t. vc_stack (an_vctx f) = [t] \<and> (t = WAH_TYPE_BOT \<or> wah_type_is_subtype t expected m')"
    using inv fin unfolding out by (auto simp: stack_inv_def length_Suc_conv)
  have deps: "sorted deps \<and> distinct deps
      \<and> set deps = {imm_u32 (di_imm di) | di. di \<in> set (vc_instrs (an_vctx f)) \<and> di_opcode di = WAH_OP_GLOBAL_GET}"
    unfolding out wah_collect_global_deps_def
    using dedup_sorted_ok [OF sorted_sort, of "map (\<lambda>di. imm_u32 (di_imm di)) (filter (\<lambda>di. di_opcode di = WAH_OP_GLOBAL_GET) (vc_instrs (an_vctx f)))"]
    by auto
  have "const_inv m g (an_vctx f)" by (rule an_const.stream [OF run]) (simp add: const_inv_def const_expr_context_def analysis_init_def)
  then have "\<forall>d \<in> set deps. d < g \<and> d < wah_global_index_limit m \<and> \<not> wah_global_is_mutable m d"
    using deps by (auto simp: const_inv_def const_global_def instr_key_def)
  then show ?thesis using s(1) code run type deps const_expr_entities(1) [OF assms] by blast
qed

section \<open>Data segments named by the code\<close>

text \<open>
  The instructions that name a data segment: \<open>memory.init\<close> and \<open>data.drop\<close> name one below the number that the code
  requires, \<open>array.new_data\<close> and \<open>array.init_data\<close> one below the number announced before the code.
\<close>

definition data_use_ok :: "nat \<Rightarrow> nat \<Rightarrow> nat \<times> wah_imm \<Rightarrow> bool" where
  "data_use_ok required announced k = (case k of (opc, imm) \<Rightarrow>
    if opc = WAH_OP_MEMORY_INIT then (case imm of IMM_u32_u32 i _ \<Rightarrow> i < required | _ \<Rightarrow> False)
    else if opc = WAH_OP_DATA_DROP then (case imm of IMM_u32 i \<Rightarrow> i < required | _ \<Rightarrow> False)
    else if opc = WAH_OP_ARRAY_NEW_DATA \<or> opc = WAH_OP_ARRAY_INIT_DATA then (case imm of IMM_type_length _ i \<Rightarrow> i < announced | _ \<Rightarrow> False)
    else True)"

abbreviation "data_opcodes \<equiv> {WAH_OP_MEMORY_INIT, WAH_OP_DATA_DROP, WAH_OP_ARRAY_NEW_DATA, WAH_OP_ARRAY_INIT_DATA}"

lemma data_use_mono: "data_use_ok r c k \<Longrightarrow> r \<le> r' \<Longrightarrow> c \<le> c' \<Longrightarrow> data_use_ok r' c' k"
  by (cases k; cases "snd k") (auto simp: data_use_ok_def split: if_splits)

lemma data_use_other: "opc \<notin> data_opcodes \<Longrightarrow> data_use_ok r c (opc, imm)"
  by (simp add: data_use_ok_def)

text \<open>The uses so far are in order, at least \<open>r\<close> segments are required and at least \<open>c\<close> announced.\<close>

definition data_seen :: "nat \<Rightarrow> nat \<Rightarrow> wah_validation_context \<Rightarrow> bool" where
  "data_seen r c v \<longleftrightarrow> r \<le> min_data_segment_count_required (vc_module v) \<and> c \<le> data_segment_count (vc_module v)
     \<and> (\<forall>k \<in> set (map instr_key (vc_instrs v)). data_use_ok (min_data_segment_count_required (vc_module v)) (data_segment_count (vc_module v)) k)"

lemma data_seen_module: "data_seen r c v \<Longrightarrow> same_entities (vc_module v) m \<Longrightarrow> data_seen r c (v\<lparr>vc_module := m\<rparr>)"
  by (auto simp: data_seen_def dest!: same_entities_cases intro: data_use_mono)

interpretation data_state: state_property "data_seen r c" for r c
proof unfold_locales
  show "v_pres (data_seen r c) (PUSH t)" for t by (rule v_hoareI) (simp add: res_simps count_depth_def data_seen_def)
  show "v_pres (data_seen r c) POP_INTO" by (rule v_hoareI) (auto simp: res_simps data_seen_def split: if_splits)
  show "data_seen r c (v\<lparr>vc_code := bs\<rparr>)" if "data_seen r c v" for v bs using that by (simp add: data_seen_def)
qed (rule data_seen_module)

lemma data_emit: "data_use_ok r c (opc, imm) \<Longrightarrow> v_hoare (data_seen r c) (v_seq [EMIT_INSTR_EX opc imm]) (\<lambda>_. data_seen 0 0)"
proof (rule v_hoareI)
  fix v x v' assume use: "data_use_ok r c (opc, imm)" and P: "data_seen r c v" and "v_seq [EMIT_INSTR_EX opc imm] v = Inr (x, v')"
  then have v': "v\<lparr>vc_instrs := vc_instrs v @ [\<lparr>di_opcode = opc, di_flags = (if vc_unreachable v then 2 else 0), di_ref_map = 0, di_imm = imm\<rparr>]\<rparr> = v'"
    by (simp add: v_bind_def EMIT_INSTR_EX_def v_modify_def)
  have "data_use_ok (min_data_segment_count_required (vc_module v)) (data_segment_count (vc_module v)) (opc, imm)"
    by (rule data_use_mono [OF use]) (use P in \<open>simp_all add: data_seen_def\<close>)
  then show "data_seen 0 0 v'" using P by (simp add: data_seen_def v' [symmetric] instr_key_def)
qed

lemma use_data: "v_hoare (data_seen 0 0) (use_data_segment i) (\<lambda>_. data_seen (i + 1) 0)"
proof (rule v_hoareI)
  fix v x v' assume P: "data_seen 0 0 v" and run: "use_data_segment i v = Inr (x, v')"
  from run have v': "v' = v\<lparr>vc_module := if i + 1 > min_data_segment_count_required (vc_module v)
      then (vc_module v)\<lparr>min_data_segment_count_required := i + 1\<rparr> else vc_module v\<rparr>"
    by (auto simp: use_data_segment_def v_mod_def res_simps)
  have "data_seen 0 0 v'" unfolding v' by (rule data_seen_module [OF P]) (simp add: same_entities_data)
  then show "data_seen (i + 1) 0 v'" by (simp add: data_seen_def v')
qed

lemma array_data: "v_hoare (data_seen 0 0) (v_array_segment True i t) (\<lambda>_. data_seen 0 (i + 1))"
  by (rule v_hoareI) (auto simp: v_array_segment_def res_simps data_seen_def)

lemma hoare_seq_Cons: "v_hoare P a (\<lambda>_. Q) \<Longrightarrow> v_hoare Q (v_seq ms) R \<Longrightarrow> v_hoare P (v_seq (a # ms)) R"
  by (simp add: hoare_bind [where Q = "\<lambda>_. Q"])

lemma data_lookups: "v_pres (data_seen r c) (v_memory i)" "v_pres (data_seen r c) (v_type_def k j)"
  unfolding v_memory_def v_type_def_def by (intro v_rules)+

lemmas data_steps = hoare_seq_Cons [OF data_state.pop_match] hoare_seq_Cons [OF data_state.push] hoare_seq_Cons [OF use_data]
  hoare_seq_Cons [OF array_data] hoare_seq_Cons [OF pres_ensure] hoare_seq_Cons [OF pres_ret] data_emit

lemma data_users:
  "v_pres (data_seen 0 0) (validate_memory_init WAH_OP_MEMORY_INIT)" "v_pres (data_seen 0 0) (validate_data_drop WAH_OP_DATA_DROP)"
  "v_pres (data_seen 0 0) (validate_array_new_segment WAH_OP_ARRAY_NEW_DATA)"
  "v_pres (data_seen 0 0) (validate_array_init_segment WAH_OP_ARRAY_INIT_DATA)"
  unfolding validate_memory_init_def validate_data_drop_def validate_array_new_segment_def validate_array_init_segment_def
    simp_thms(6) if_True
  by (intro pres_bind data_state.u32 data_lookups data_steps, simp add: data_use_ok_def)+

lemma data_class:
  "opclass_signature (wah_opclasses WAH_OP_MEMORY_INIT) = None"
  "opclass_signature (wah_opclasses WAH_OP_DATA_DROP) = None"
  "opclass_signature (wah_opclasses WAH_OP_ARRAY_NEW_DATA) = None"
  "opclass_signature (wah_opclasses WAH_OP_ARRAY_INIT_DATA) = None"
  by (simp_all add: wah_opclasses_def listing_defs)

lemma data_switch:
  "v_switch validate_cases WAH_OP_MEMORY_INIT = validate_memory_init WAH_OP_MEMORY_INIT"
  "v_switch validate_cases WAH_OP_DATA_DROP = validate_data_drop WAH_OP_DATA_DROP"
  "v_switch validate_cases WAH_OP_ARRAY_NEW_DATA = validate_array_new_segment WAH_OP_ARRAY_NEW_DATA"
  "v_switch validate_cases WAH_OP_ARRAY_INIT_DATA = validate_array_init_segment WAH_OP_ARRAY_INIT_DATA"
  by (simp_all add: cases_defs)

lemma data_opcodes: "opc \<in> data_opcodes \<Longrightarrow> v_pres (data_seen 0 0) (wah_validate_opcode opc)"
  unfolding wah_validate_opcode_def validate_const_expr_def
  by (elim insertE emptyE) (simp_all only: data_class data_switch option.case, (intro v_rules data_users data_state.state_prims)+)

interpretation data: control_free_property "data_seen 0 0" data_opcodes
proof unfold_locales
  show "v_pres (data_seen 0 0) (wah_validate_opcode opc)" if "opc \<in> data_opcodes" for opc using data_opcodes [OF that] .
qed (auto simp: data_seen_def data_use_other instr_key_def wah_validation_mark_unreachable_def truncate_eq Let_def wah_validation_init_local_def
    frame_reset_def wah_validation_restore_local_inits_def split: option.splits)

interpretation an_data: analysis_property "data_seen 0 0" data_opcodes
  by unfold_locales (auto simp: data_seen_def)

section \<open>Locals\<close>

text \<open>The declarations read one after the other, without checks, and the locals they declare.\<close>

fun decode_decls :: "nat \<Rightarrow> wah_module \<Rightarrow> bytes \<Rightarrow> ((nat \<times> wah_type) list \<times> bytes) res" where
  "decode_decls 0 m bs = Inr ([], bs)"
| "decode_decls (Suc k) m bs =
    WAH_CHECK (wah_decode_uleb128 bs) (\<lambda>(n, bs). WAH_CHECK (wah_decode_val_type m bs) (\<lambda>(t, m, bs).
    WAH_CHECK (wah_require_type_features m t) (\<lambda>m. WAH_CHECK (decode_decls k m bs) (\<lambda>(ds, bs). Inr ((unat n, t) # ds, bs)))))"

definition declared_locals :: "(nat \<times> wah_type) list \<Rightarrow> wah_type list" where
  "declared_locals ds = concat (map (\<lambda>(n, t). replicate n t) ds)"

lemma expand_runs_append:
  "expand_runs p (rs @ [r]) = expand_runs p rs @ replicate (run_end r - (if rs = [] then p else run_end (last rs))) (run_type r)"
  by (induction rs arbitrary: p) auto

text \<open>The runs end where the next one starts, and the last one ends at the number of locals.\<close>

definition runs_ok :: "nat \<Rightarrow> wah_local_run list \<Rightarrow> bool" where
  "runs_ok n runs \<longleftrightarrow> sorted_wrt (<) (0 # map run_end runs) \<and> n = (if runs = [] then 0 else run_end (last runs))"

lemma runs_ok_append: "runs_ok n runs \<Longrightarrow> 0 < k \<Longrightarrow> runs_ok (n + k) (runs @ [\<lparr>run_end = n + k, run_type = t\<rparr>])"
proof -
  assume ok: "runs_ok n runs" "0 < k"
  have "run_end r < n + k" if "r \<in> set runs" for r
  proof -
    have "sorted_wrt (\<lambda>a b. run_end a < run_end b) runs" "runs \<noteq> []" "n = run_end (last runs)"
      using ok that by (auto simp: runs_ok_def sorted_wrt_map)
    then have "run_end r \<le> n" using that
      by (cases runs rule: rev_cases) (auto simp: sorted_wrt_append)
    then show ?thesis using ok(2) by simp
  qed
  then show ?thesis using ok by (auto simp: runs_ok_def sorted_wrt_append)
qed

lemma parse_local_decl_step:
  assumes "parse_local_decl (n, runs, m) bs = Inr ((n', runs', m'), rest)"
  obtains k t bs' m1 where "wah_decode_uleb128 bs = Inr (k, bs')" "wah_decode_val_type m bs' = Inr (t, m1, rest)"
    "wah_require_type_features m1 t = Inr m'" "n' = n + unat k" "n' \<le> WAH_MAX_LOCAL_COUNT" "t < 0 \<or> WAH_TYIDX t < length (types m1)"
    "runs' = (if unat k > 0 then runs @ [\<lparr>run_end = n', run_type = t\<rparr>] else runs)"
  using assms unfolding parse_local_decl_def by (auto simp: res_simps Let_def)

lemma parse_local_decls_runs:
  "repeat_dec c parse_local_decl (n, runs, m) bs = Inr ((n', runs', m'), rest) \<Longrightarrow> runs_ok n runs \<Longrightarrow> n \<le> WAH_MAX_LOCAL_COUNT \<Longrightarrow>
   runs_ok n' runs' \<and> n' \<le> WAH_MAX_LOCAL_COUNT \<and> (\<exists>ds. decode_decls c m bs = Inr (ds, rest) \<and> expand_runs 0 runs' = expand_runs 0 runs @ declared_locals ds)"
proof (induction c arbitrary: n runs m bs)
  case 0
  then show ?case by (simp add: declared_locals_def)
next
  case (Suc c)
  from Suc.prems(1) obtain n1 runs1 m1 bs1 where s: "parse_local_decl (n, runs, m) bs = Inr ((n1, runs1, m1), bs1)"
    and r: "repeat_dec c parse_local_decl (n1, runs1, m1) bs1 = Inr ((n', runs', m'), rest)" by (auto simp: res_simps)
  from s obtain k t bs' m2 where d: "wah_decode_uleb128 bs = Inr (k, bs')" "wah_decode_val_type m bs' = Inr (t, m2, bs1)"
    "wah_require_type_features m2 t = Inr m1" "n1 = n + unat k" "n1 \<le> WAH_MAX_LOCAL_COUNT"
    and runs1: "runs1 = (if unat k > 0 then runs @ [\<lparr>run_end = n1, run_type = t\<rparr>] else runs)"
    by (rule parse_local_decl_step)
  have ok: "runs_ok n1 runs1" using Suc.prems(2) runs_ok_append [of n runs "unat k" t] d(4) runs1 by auto
  have ex: "expand_runs 0 runs1 = expand_runs 0 runs @ replicate (unat k) t"
    using Suc.prems(2) d(4) runs1 by (auto simp: expand_runs_append runs_ok_def)
  from Suc.IH [OF r ok d(5)] show ?case using d(1-3) ex by (auto simp: declared_locals_def)
qed

lemma length_expand_runs: "sorted_wrt (<) (p # map run_end runs) \<Longrightarrow> p + length (expand_runs p runs) = (if runs = [] then p else run_end (last runs))"
proof (induction runs arbitrary: p)
  case (Cons r rs)
  have "run_end r + length (expand_runs (run_end r) rs) = (if rs = [] then run_end r else run_end (last rs))"
    by (rule Cons.IH) (use Cons.prems in auto)
  then show ?case using Cons.prems by (auto split: if_splits dest!: last_in_set)
qed simp

text \<open>The compressed locals of a body mean the declared ones. If the declarations of a body are accepted, then looking up a
  local through the binary search over the runs gives the type that the declarations, written out one local at a time,
  give at that position; the number of locals is that of the written-out list and within the limit.\<close>

lemma local_decls_lookup:
  assumes "wah_parse_local_decls m bs = Inr ((n, runs, m'), rest)"
  shows "n \<le> WAH_MAX_LOCAL_COUNT \<and> (\<exists>c cs ds. wah_decode_and_validate_count 2 bs = Inr (c, cs) \<and> decode_decls c m cs = Inr (ds, rest)
    \<and> length (declared_locals ds) = n \<and> map (wah_local_type runs) [0..<n] = declared_locals ds)"
proof -
  from assms obtain c cs where c: "wah_decode_and_validate_count 2 bs = Inr (c, cs)"
    and r: "repeat_dec c parse_local_decl (0, [], m) cs = Inr ((n, runs, m'), rest)"
    by (auto simp: wah_parse_local_decls_def res_simps)
  from parse_local_decls_runs [OF r] obtain ds where ds: "runs_ok n runs" "n \<le> WAH_MAX_LOCAL_COUNT" "decode_decls c m cs = Inr (ds, rest)"
    "expand_runs 0 runs = declared_locals ds" by (auto simp: runs_ok_def)
  have len: "length (declared_locals ds) = n"
    using ds(1,4) length_expand_runs [of 0 runs] by (auto simp: runs_ok_def)
  have "wah_local_type runs i = declared_locals ds ! i" if "i < n" for i
  proof -
    have "runs \<noteq> []" "i < run_end (last runs)" "sorted (map run_end runs)"
      using that ds(1) by (auto simp: runs_ok_def intro: strict_sorted_imp_sorted split: if_splits)
    from local_type_lookup [OF this(3,1,2)] show ?thesis using ds(4) by simp
  qed
  then have "map (wah_local_type runs) [0..<n] = declared_locals ds"
    using len by (intro nth_equalityI) auto
  with c ds len show ?thesis by blast
qed

section \<open>The code section\<close>

text \<open>The uses of data segments in an analyzed body, against the numbers of the module.\<close>

definition body_data_ok :: "nat \<Rightarrow> nat \<Rightarrow> wah_code_body \<Rightarrow> bool" where
  "body_data_ok required announced b \<longleftrightarrow> (\<forall>di \<in> set (cb_instrs b). data_use_ok required announced (instr_key di))"

abbreviation "module_data_ok m \<equiv> body_data_ok (min_data_segment_count_required m) (data_segment_count m)"

lemma body_data_mono: "body_data_ok r c b \<Longrightarrow> r \<le> r' \<Longrightarrow> c \<le> c' \<Longrightarrow> body_data_ok r' c' b"
  unfolding body_data_ok_def using data_use_mono by blast

lemma module_data_mono: "same_entities m m' \<Longrightarrow> module_data_ok m b \<Longrightarrow> module_data_ok m' b"
  by (auto dest!: same_entities_cases intro: body_data_mono)

text \<open>Between two bodies no local is marked as initialized, whatever the size of the shared array.\<close>

definition code_inv :: "wah_code_parser \<Rightarrow> bool" where
  "code_inv c \<longleftrightarrow> li_undo (cp_inits c) = [] \<and> (\<forall>b \<in> set (li_inits (cp_inits c)). \<not> b) \<and> labels_inv (cp_labels c)"

lemma all_clear: "undo_ok bits [] \<longleftrightarrow> (\<forall>b \<in> set bits. \<not> b)"
  by (auto simp: undo_ok_def in_set_conv_nth)

lemma grow_inits_inv:
  assumes "grow_inits n li = Inr li'" "li_undo li = []" "\<forall>b \<in> set (li_inits li). \<not> b"
  shows "inits_inv n li' \<and> li_undo li' = []"
proof (cases "length (li_inits li) < n")
  case True
  with assms(1) obtain cap where cap: "grow_capacity n (length (li_inits li)) = Inr cap"
    "li' = li\<lparr>li_inits := li_inits li @ replicate (cap - length (li_inits li)) False\<rparr>" by (auto simp: grow_inits_def res_simps)
  with grow_capacity_bounds(1,2) [OF cap(1)] assms(2,3) show ?thesis by (simp add: inits_inv_def all_clear ball_Un)
next
  case False
  then show ?thesis using assms by (simp add: grow_inits_def inits_inv_def all_clear)
qed

lemma local_decls_entities:
  assumes "wah_parse_local_decls m bs = Inr ((n, runs, m'), rest)" shows "same_entities m m'"
proof -
  from assms obtain c cs where r: "repeat_dec c parse_local_decl (0, [], m) cs = Inr ((n, runs, m'), rest)"
    by (auto simp: wah_parse_local_decls_def res_simps)
  have "(\<lambda>(_, _, m'). features_only m m') (n, runs, m')"
  proof (rule repeat_dec_invariant [where P = "\<lambda>s _. (\<lambda>(_, _, m'). features_only m m') s", OF _ r])
    show "(\<lambda>(_, _, m'). features_only m m') s'" if "(\<lambda>(_, _, m'). features_only m m') s" "parse_local_decl s bs = Inr (s', bs')" for s bs s' bs'
      using that by (cases s; cases s') (auto elim!: parse_local_decl_step dest!: val_type_ok require_type_features_frame intro: features_only_trans)
  qed simp
  then show ?thesis by (simp add: same_entities_features)
qed

definition body_type :: "wah_code_parser \<Rightarrow> wah_module \<Rightarrow> wah_func_type" where
  "body_type c m = types m ! (function_type_indices m ! length (cp_bodies c))"

lemma parse_code_body_elim:
  assumes "parse_code_body c bs = Inr (c', rest)"
  obtains sz k n runs m code li s where "wah_decode_uleb128 bs = Inr (sz, k)" "rest = drop (unat sz) k"
    "wah_parse_local_decls (cp_module c) (take (unat sz) k) = Inr ((n, runs, m), code)"
    "length (ft_param_types (body_type c m)) + n \<le> WAH_MAX_LOCAL_COUNT"
    "grow_inits (length (ft_param_types (body_type c m)) + n) (cp_inits c) = Inr li"
    "wah_analyze_stream True 0 (analysis_init (func_body_context m (body_type c m) n runs li (cp_labels c) code)) = Inr s"
    "c' = \<lparr> cp_module = vc_module (an_vctx s), cp_bodies = cp_bodies c @ [analyzed_body n runs s],
       cp_inits = wah_local_inits_revert 0 (the (vc_local_inits (an_vctx s))), cp_labels = the (vc_labels (an_vctx s)) \<rparr>"
  using assms unfolding parse_code_body_def body_type_def [symmetric] by (auto simp: res_simps Let_def)

lemma parse_code_body_count: "parse_code_body c bs = Inr (c', rest) \<Longrightarrow> length (cp_bodies c') = Suc (length (cp_bodies c))"
  by (erule parse_code_body_elim) simp

lemma func_body_start:
  assumes "inits_inv (length (ft_param_types ft) + n) li" "labels_inv bl"
  shows "stack_inv (func_body_context m ft n runs li bl bs)" "has_shared (func_body_context m ft n runs li bl bs)"
  using assms by (simp_all add: stack_inv_def func_body_context_def has_shared_def)

lemma parse_code_body_run:
  assumes "parse_code_body c bs = Inr (c', rest)" "code_inv c"
  shows "code_inv c' \<and> (\<exists>n runs s. cp_bodies c' = cp_bodies c @ [analyzed_body n runs s] \<and> stack_inv (an_vctx s)
    \<and> n \<le> WAH_MAX_LOCAL_COUNT \<and> same_entities (cp_module c) (cp_module c') \<and> module_data_ok (cp_module c') (analyzed_body n runs s))"
proof -
  from assms(1) obtain sz k n runs m code li s where "wah_decode_uleb128 bs = Inr (sz, k)" "rest = drop (unat sz) k"
    and d: "wah_parse_local_decls (cp_module c) (take (unat sz) k) = Inr ((n, runs, m), code)"
    and n: "length (ft_param_types (body_type c m)) + n \<le> WAH_MAX_LOCAL_COUNT"
    and li: "grow_inits (length (ft_param_types (body_type c m)) + n) (cp_inits c) = Inr li"
    and run: "wah_analyze_stream True 0 (analysis_init (func_body_context m (body_type c m) n runs li (cp_labels c) code)) = Inr s"
    and c': "c' = \<lparr> cp_module = vc_module (an_vctx s), cp_bodies = cp_bodies c @ [analyzed_body n runs s],
       cp_inits = wah_local_inits_revert 0 (the (vc_local_inits (an_vctx s))), cp_labels = the (vc_labels (an_vctx s)) \<rparr>"
    by (rule parse_code_body_elim)
  let ?ft = "body_type c m" let ?v = "func_body_context m ?ft n runs li (cp_labels c) code"
  have "inits_inv (length (ft_param_types ?ft) + n) li" "labels_inv (cp_labels c)"
    using grow_inits_inv [OF li] assms(2) by (auto simp: code_inv_def)
  note start = func_body_start [OF this, of m runs code]
  have inv: "stack_inv (an_vctx s)" by (rule an_stacks.stream [OF run]) (use start in \<open>simp add: analysis_init_def\<close>)
  have "has_shared (an_vctx s)" by (rule an_shared.stream [OF run]) (use start in \<open>simp add: analysis_init_def\<close>)
  then obtain li' bl' where sh: "vc_local_inits (an_vctx s) = Some li'" "vc_labels (an_vctx s) = Some bl'" by (auto simp: has_shared_def)
  with inv have "inits_inv (vc_total_locals (an_vctx s)) li'" "labels_inv bl'" by (simp_all add: stack_inv_def)
  with revert_inits [OF this(1), of 0] sh have "code_inv c'"
    unfolding c' code_inv_def by (auto simp: inits_inv_def all_clear [symmetric])
  moreover have "same_entities (cp_module c) (cp_module c')"
  proof -
    have "same_function ?v (an_vctx s)" by (rule an_func.stream [OF run]) (simp add: analysis_init_def)
    then have "same_entities m (cp_module c')" by (simp add: same_function_def func_body_context_def c')
    with local_decls_entities [OF d] show ?thesis by (rule same_entities_trans)
  qed
  moreover have "data_seen 0 0 (an_vctx s)"
    by (rule an_data.stream [OF run]) (simp add: data_seen_def func_body_context_def analysis_init_def)
  then have "module_data_ok (cp_module c') (analyzed_body n runs s)" by (simp add: c' body_data_ok_def data_seen_def analyzed_body_def)
  ultimately show ?thesis using inv n c' by (intro conjI exI [of _ n] exI [of _ runs] exI [of _ s]) auto
qed

text \<open>C34: The shared initialization bits are clear between functions. Validating a body whose shared bits are all 0 leaves
  them all 0 for the next body, with an empty undo list and the branch-table labels in order, however the array was
  grown and whatever locals the body initialized.\<close>

theorem inits_clear_between_functions:
  assumes "parse_code_body c bs = Inr (c', rest)" "code_inv c"
  shows "code_inv c'"
  using parse_code_body_run [OF assms] ..


lemma code_section_ok:
  assumes "wah_parse_code_section m bs = Inr ((m', bodies), rest)"
  shows "length bodies = length (function_type_indices m) \<and> (\<forall>b \<in> set bodies. cb_local_count b \<le> WAH_MAX_LOCAL_COUNT \<and> module_data_ok m' b)
    \<and> same_entities m m'"
proof -
  let ?c = "\<lparr> cp_module = m, cp_bodies = [], cp_inits = \<lparr>li_inits = [], li_undo = []\<rparr>, cp_labels = br_table_labels_zero \<rparr>"
  let ?P = "\<lambda>c (_ :: bytes). code_inv c \<and> (\<forall>b \<in> set (cp_bodies c). cb_local_count b \<le> WAH_MAX_LOCAL_COUNT \<and> module_data_ok (cp_module c) b)
    \<and> same_entities m (cp_module c)"
  from assms obtain cs c where r: "repeat_dec (length (function_type_indices m)) parse_code_body ?c cs = Inr (c, rest)"
    and out: "m' = cp_module c" "bodies = cp_bodies c"
    by (auto simp: wah_parse_code_section_def res_simps)
  have start: "?P ?c cs" by (simp add: code_inv_def labels_inv_def br_table_labels_zero_def)
  have step: "?P c' r'" if P: "?P c r" and run: "parse_code_body c r = Inr (c', r')" for c r c' r'
  proof -
    from P have "code_inv c" by simp
    from parse_code_body_run [OF run this] obtain n runs s where new: "code_inv c'" "cp_bodies c' = cp_bodies c @ [analyzed_body n runs s]"
      "n \<le> WAH_MAX_LOCAL_COUNT" "same_entities (cp_module c) (cp_module c')" "module_data_ok (cp_module c') (analyzed_body n runs s)" by blast
    have "cb_local_count (analyzed_body n runs s) = n" by (simp add: analyzed_body_def)
    then show ?thesis using P new module_data_mono [OF new(4)] by (auto intro: same_entities_trans)
  qed
  have "?P c rest" by (rule repeat_dec_invariant [where P = ?P, OF step r start])
  moreover have "length (cp_bodies c) = length (function_type_indices m)"
    using repeat_dec_measure [where g = "\<lambda>c. length (cp_bodies c)", OF parse_code_body_count r] by simp
  ultimately show ?thesis unfolding out by blast
qed

end
