(* ===== verification/Wah_Analyze_Examples.thy ===== *)
theory Wah_Analyze_Examples
  imports Wah_Analyze
begin

text \<open>
  Runs of the analysis on small inputs: a metered body with a reference on its stack, a constant expression, a list of
  locals and the code section of a module with one empty function. They show that the hypotheses of the theorems of
  \<open>Wah_Analyze\<close> hold of real inputs.
\<close>

text \<open>A metered body that returns a null function reference: \<open>ref.null func; end\<close>.\<close>

definition null_module :: "u64 \<Rightarrow> wah_module" where
  "null_module f = wah_module_zero\<lparr>enabled_features := -1, fuel_metering := True, required_features := f\<rparr>"

definition null_body :: wah_validation_context where
  "null_body = func_body_context (null_module 0) \<lparr>ft_param_types = [], ft_result_types = [-31]\<rparr>
     0 [] \<lparr>li_inits = [], li_undo = []\<rparr> br_table_labels_zero [0xD0, 0x70, 0x0B]"

definition null_mid :: wah_analysis where
  "null_mid = (analysis_init (null_body\<lparr>vc_stack := [-31], vc_depth := 1, vc_max_depth := 1, vc_module := null_module 64, vc_code := [0x0B],
     vc_instrs := [\<lparr>di_opcode = 0xD0, di_flags = 1, di_ref_map = 0, di_imm = IMM_u32 4294967264\<rparr>]\<rparr>))
     \<lparr>an_poll_ref_tops := [0], an_poll_map := 0, an_is_first_instr := False\<rparr>"

lemma ref_null_listing: "wah_opcode_features 0xD0 = 6" "wah_opclasses 0xD0 = WAH_OPCLASS_OWN" "wah_opcode_features 0x0B = 0"
  by (simp_all add: wah_opcode_features_def wah_opclasses_def listing_defs)

lemma ref_null_case: "vc_mode v = WAH_ANALYZE_FUNC_BODY \<Longrightarrow> wah_validate_opcode 0xD0 v = validate_ref_null 0xD0 v"
  by (cases "validate_ref_null 0xD0 v")
    (auto simp: wah_validate_opcode_def ref_null_listing v_bind_def v_ensure_def validate_const_expr_def cases_defs v_switch_def)

lemmas null_eval = analysis_init_def null_body_def func_body_context_def wah_decode_opcode_def ref_null_listing null_module_def
  wah_require_feature_def analyze_poll_def Let_def WAH_CAPTURE_REF_MAP_def common_slots.simps

lemma null_step: "analyze_step True 0 (analysis_init null_body) = Inr (False, null_mid)"
  by (simp add: analyze_step_def analyze_fetch_def null_eval null_mid_def analyze_instr_def with_vctx_def ref_null_case validate_ref_null_def
    v_heap_type_def v_bind_def v_dec_def v_mod_def wah_decode_heap_type_def wah_decode_abstract_heap_byte_def v_type_index_ok_def
    v_ensure_def EMIT_INSTR_EX_def wah_require_type_features_def as_nullable_eq analyze_mark_def update_instr_def mark_instr_def
    WAH_TYPE_IS_REF_def wah_validation_push_type_def wah_type_stack_push_def count_depth_def v_modify_def)

definition null_end :: wah_analysis where
  "null_end = null_mid\<lparr>an_vctx := (an_vctx null_mid)\<lparr>vc_code := [], vc_lwm := 1\<rparr>, an_captured_types := [-31], an_captured_tops := [0, 1],
     an_ref_nodes := [\<lparr>rn_parent = 0, rn_pos = 0\<rparr>], an_poll_ref_tops := [0, 1]\<rparr>"

lemma null_fetch: "analyze_fetch True null_mid = Inr (0x0B, 1, null_end)"
  by (simp add: analyze_fetch_def null_end_def null_mid_def null_eval WAH_TYPE_IS_REF_def wah_opcode_is_call_def wah_opcode_is_resumable_bulk_def)

lemma null_reach: "analysis_reach True 0 null_body null_mid"
  by (rule analysis_reach.step [OF analysis_reach.start null_step])

lemma null_stream: "\<exists>f. wah_analyze_stream True 0 (analysis_init null_body) = Inr f \<and> an_ref_nodes f = [\<lparr>rn_parent = 0, rn_pos = 0\<rparr>]
  \<and> an_poll_ref_tops f = [0, 1] \<and> vc_instrs (an_vctx f) = vc_instrs (an_vctx null_end) @ [\<lparr>di_opcode = 11, di_flags = 0, di_ref_map = 1, di_imm = IMM_none\<rparr>]"
proof -
  have "\<exists>f. analyze_step True 0 null_mid = Inr (True, f) \<and> vc_control (an_vctx f) = [] \<and> an_ref_nodes f = [\<lparr>rn_parent = 0, rn_pos = 0\<rparr>]
      \<and> an_poll_ref_tops f = [0, 1] \<and> vc_instrs (an_vctx f) = vc_instrs (an_vctx null_end) @ [\<lparr>di_opcode = 11, di_flags = 0, di_ref_map = 1, di_imm = IMM_none\<rparr>]"
    unfolding analyze_step_def null_fetch by (simp add: null_end_def null_mid_def null_body_def func_body_context_def analysis_init_def with_vctx_def
        analyze_end_def v_bind_def v_get_def POPS_def wah_validation_pop_and_match_type_def v_ensure_def v_modify_def wah_analyzed_append_end_def
        wah_validation_pop_type_def wah_type_stack_pop_def v_match_def wah_validate_type_match_def wah_type_is_subtype_def
        wah_validation_block_base_height_def wah_validation_at_unreachable_base_def v_ret_def)
  then obtain f where f: "analyze_step True 0 null_mid = Inr (True, f)" "vc_control (an_vctx f) = []" "an_ref_nodes f = [\<lparr>rn_parent = 0, rn_pos = 0\<rparr>]"
      "an_poll_ref_tops f = [0, 1]" "vc_instrs (an_vctx f) = vc_instrs (an_vctx null_end) @ [\<lparr>di_opcode = 11, di_flags = 0, di_ref_map = 1, di_imm = IMM_none\<rparr>]" by blast
  have "vc_code (an_vctx null_mid) \<noteq> []" by (simp add: null_mid_def analysis_init_def)
  then have "wah_analyze_stream True 0 null_mid = Inr f" by (subst wah_analyze_stream.simps) (simp add: f)
  then show ?thesis using f reach_stream [OF null_reach] by auto
qed

theorem ref_map_walk_returns_witness:
  "\<exists>f. wah_analyze_stream True 0 (analysis_init null_body) = Inr f
    \<and> walk_ref_map (an_ref_nodes f) 1 (an_poll_ref_tops f ! 1) = Some [0]"
proof -
  obtain f where f: "wah_analyze_stream True 0 (analysis_init null_body) = Inr f" using null_stream by blast
  have refs: "live_refs (an_vctx null_mid) = [0]"
    by (simp add: live_refs_def null_mid_def null_body_def func_body_context_def analysis_init_def ref_positions_def WAH_TYPE_IS_REF_def)
  have "vc_lwm null_body = 0" "an_poll_ref_tops null_end \<noteq> an_poll_ref_tops null_mid"
    by (simp_all add: null_body_def func_body_context_def null_end_def null_mid_def analysis_init_def)
  from ref_map_walk_returns [OF this(1) null_reach null_fetch this(2) f, of 1] f refs show ?thesis by simp
qed

lemma null_start: "stack_inv null_body"
  by (simp add: stack_inv_def null_body_def func_body_context_def inits_inv_def undo_ok_def labels_inv_def br_table_labels_zero_def)

theorem accepted_body_complete_witness:
  "\<exists>f. wah_analyze_stream True 0 (analysis_init null_body) = Inr f \<and> vc_code (an_vctx f) = [] \<and> vc_stack (an_vctx f) = []"
proof -
  obtain f where f: "wah_analyze_stream True 0 (analysis_init null_body) = Inr f" using null_stream by blast
  from accepted_body_complete [OF null_start f] f show ?thesis by blast
qed

text \<open>A constant expression: \<open>ref.null func; end\<close>.\<close>

definition const_mid :: wah_analysis where
  "const_mid = analysis_init ((const_expr_context (null_module 64) 0 [0x0B, 7])\<lparr>vc_stack := [-31], vc_depth := 1, vc_max_depth := 1,
     vc_instrs := [\<lparr>di_opcode = 0xD0, di_flags = 0, di_ref_map = 0, di_imm = IMM_u32 4294967264\<rparr>]\<rparr>)"

lemma ref_null_const: "vc_mode v = WAH_ANALYZE_CONST_EXPR \<Longrightarrow> wah_validate_opcode 0xD0 v = validate_ref_null 0xD0 v"
  by (cases "validate_ref_null 0xD0 v")
    (auto simp: wah_validate_opcode_def ref_null_listing v_bind_def v_ensure_def v_get_def validate_const_expr_def cases_defs v_switch_def)

lemma const_step: "analyze_step False (-31) (analysis_init (const_expr_context (null_module 0) 0 [0xD0, 0x70, 0x0B, 7])) = Inr (False, const_mid)"
  by (simp add: analyze_step_def analyze_fetch_def null_eval const_mid_def const_expr_context_def analyze_instr_def with_vctx_def ref_null_const
    validate_ref_null_def v_heap_type_def v_bind_def v_dec_def v_mod_def wah_decode_heap_type_def wah_decode_abstract_heap_byte_def v_type_index_ok_def
    v_ensure_def EMIT_INSTR_EX_def wah_require_type_features_def as_nullable_eq
    WAH_TYPE_IS_REF_def wah_validation_push_type_def wah_type_stack_push_def count_depth_def v_modify_def)

lemma const_stream: "wah_analyze_stream False (-31) (analysis_init (const_expr_context (null_module 0) 0 [0xD0, 0x70, 0x0B, 7]))
  = Inr (const_mid\<lparr>an_vctx := wah_analyzed_append_end 0 ((an_vctx const_mid)\<lparr>vc_code := [7]\<rparr>)\<rparr>)"
proof -
  have "analyze_step False (-31) const_mid = Inr (True, const_mid\<lparr>an_vctx := wah_analyzed_append_end 0 ((an_vctx const_mid)\<lparr>vc_code := [7]\<rparr>)\<rparr>)"
    by (simp add: analyze_step_def analyze_fetch_def null_eval const_mid_def const_expr_context_def with_vctx_def analyze_end_def v_bind_def v_get_def
        v_ensure_def v_modify_def wah_type_is_subtype_def)
  moreover have "vc_code (an_vctx const_mid) \<noteq> []" by (simp add: const_mid_def analysis_init_def const_expr_context_def)
  ultimately have "wah_analyze_stream False (-31) const_mid = Inr (const_mid\<lparr>an_vctx := wah_analyzed_append_end 0 ((an_vctx const_mid)\<lparr>vc_code := [7]\<rparr>)\<rparr>)"
    by (subst wah_analyze_stream.simps) simp
  then show ?thesis using const_step by (subst wah_analyze_stream.simps) (simp add: analysis_init_def const_expr_context_def)
qed

theorem const_expr_accepted_witness:
  "wah_compile_const_expr (-31) 0 (null_module 0) [0xD0, 0x70, 0x0B, 7] = Inr ([], null_module 64, [7]) \<and> same_entities (null_module 0) (null_module 64)"
proof -
  have run: "wah_compile_const_expr (-31) 0 (null_module 0) [0xD0, 0x70, 0x0B, 7] = Inr ([], null_module 64, [7])"
    unfolding wah_compile_const_expr_def const_stream by (simp add: wah_analyzed_append_end_def const_mid_def analysis_init_def const_expr_context_def
        wah_collect_global_deps_def dedup_sorted_def)
  with const_expr_accepted [OF run] show ?thesis by blast
qed

text \<open>The code section of a module with one empty function.\<close>

definition empty_module :: wah_module where
  "empty_module = wah_module_zero\<lparr>types := [func_type_zero], function_type_indices := [0]\<rparr>"

definition empty_parser :: wah_code_parser where
  "empty_parser = \<lparr> cp_module = empty_module, cp_bodies = [], cp_inits = \<lparr>li_inits = [], li_undo = []\<rparr>, cp_labels = br_table_labels_zero \<rparr>"

lemma empty_stream:
  "\<exists>s. wah_analyze_stream True 0 (analysis_init (func_body_context empty_module func_type_zero 0 [] \<lparr>li_inits = [], li_undo = []\<rparr> br_table_labels_zero [0x0B])) = Inr s"
  by (subst wah_analyze_stream.simps) (simp add: analyze_step_def analyze_fetch_def null_eval func_type_zero_def with_vctx_def analyze_end_def
      v_bind_def v_get_def POPS_def v_ensure_def v_modify_def wah_analyzed_append_end_def v_ret_def)

lemma empty_code_body: "\<exists>c. parse_code_body empty_parser [2, 0, 0x0B] = Inr (c, [])"
proof -
  have "wah_decode_uleb128 [2, 0, 0x0B] = Inr (2, [0, 0x0B])" "wah_decode_and_validate_count 2 [0, 0x0B] = Inr (0, [0x0B])"
    using uleb_byte [of 2 "[0, 0x0B]"] uleb_byte [of 0 "[0x0B]"] by (simp_all add: wah_decode_and_validate_count_def)
  then show ?thesis using empty_stream
    by (auto simp: parse_code_body_def empty_parser_def wah_parse_local_decls_def empty_module_def func_type_zero_def grow_inits_def)
qed

theorem inits_clear_between_functions_witness:
  "\<exists>c. parse_code_body empty_parser [2, 0, 0x0B] = Inr (c, []) \<and> code_inv c"
proof -
  obtain c where c: "parse_code_body empty_parser [2, 0, 0x0B] = Inr (c, [])" using empty_code_body by blast
  have "code_inv empty_parser" by (simp add: code_inv_def empty_parser_def labels_inv_def br_table_labels_zero_def)
  from inits_clear_between_functions [OF c this] c show ?thesis by blast
qed

end
