(* ===== verification/Wah_Parse.thy ===== *)
theory Wah_Parse
  imports Wah_Analyze "HOL-Library.Multiset"
begin

text \<open>
  The sections of a binary module other than the type and the code section, and the driver \<open>wah_parse_module\<close> that
  checks the header, dispatches the sections in order and makes the final checks. A section parser gets the module
  and the payload and returns the module and what it left of the payload. The arrays that a parser fills and installs
  are appended to in the module; the lowered form of constant expressions is not part of the module.
\<close>

section \<open>Shared pieces\<close>

definition type_in_range :: "wah_module \<Rightarrow> wah_type \<Rightarrow> bool" where
  "type_in_range m t \<longleftrightarrow> t < 0 \<or> WAH_TYIDX t < length (types m)"

text \<open>\<open>if (c) WAH_CHECK(wah_require_feature(module, feature))\<close>.\<close>

definition require_if :: "bool \<Rightarrow> nat \<Rightarrow> wah_module \<Rightarrow> wah_module res" where
  "require_if c feature m = (if c then wah_require_feature m feature else Inr m)"

text \<open>\<open>if (flags & 0x01) \<dots> else UINT64_MAX\<close>: the optional maximum of limits.\<close>

definition decode_max :: "u8 \<Rightarrow> bytes \<Rightarrow> (nat \<times> bytes) res" where
  "decode_max flags bs =
    (if flags AND 0x01 \<noteq> 0 then WAH_CHECK (wah_decode_uleb128_64 bs) (\<lambda>(mx, bs). Inr (unat mx, bs)) else Inr (UINT64_MAX, bs))"

definition memory_page_limit :: "wah_type \<Rightarrow> nat" where
  "memory_page_limit addr_type = (if addr_type = WAH_TYPE_I32 then 65536 else 2 ^ 48)"

text \<open>The flags and limits of a memory; the two address types are decoded alike.\<close>

definition decode_memory_type :: "wah_module \<Rightarrow> bytes \<Rightarrow> (wah_memory_type_t \<times> wah_module \<times> bytes) res" where
  "decode_memory_type m bs =
    WAH_CHECK (read_byte bs) (\<lambda>(flags, bs).
    WAH_CHECK (if flags = 0 \<or> flags = 1 then Inr (WAH_TYPE_I32, m)
               else if flags = 4 \<or> flags = 5 then WAH_CHECK (wah_require_feature m WAH_FEATURE_SHIFT_MEMORY64) (\<lambda>m. Inr (WAH_TYPE_I64, m))
               else Inl WAH_ERROR_MALFORMED) (\<lambda>(addr_type, m).
    WAH_CHECK (wah_decode_uleb128_64 bs) (\<lambda>(mn, bs).
    WAH_CHECK (decode_max flags bs) (\<lambda>(mx, bs).
    let page_limit = memory_page_limit addr_type in
    WAH_ENSURE (unat mn \<le> page_limit) WAH_ERROR_VALIDATION_FAILED (
    WAH_ENSURE (flags AND 0x01 = 0 \<or> mx \<le> page_limit) WAH_ERROR_VALIDATION_FAILED (
    WAH_ENSURE (unat mn \<le> mx) WAH_ERROR_VALIDATION_FAILED (
    Inr (\<lparr>mt_addr_type = addr_type, mt_min_pages = unat mn, mt_max_pages = mx\<rparr>, m, bs))))))))"

text \<open>The element type, and the flags and limits of a table.\<close>

definition decode_table_limits :: "wah_type \<Rightarrow> wah_module \<Rightarrow> bytes \<Rightarrow> (wah_table_type_t \<times> wah_module \<times> bytes) res" where
  "decode_table_limits elem_type m bs =
    WAH_CHECK (read_byte bs) (\<lambda>(flags, bs).
    WAH_ENSURE (flags = 0x00 \<or> flags = 0x01 \<or> flags = 0x04 \<or> flags = 0x05) WAH_ERROR_MALFORMED (
    WAH_CHECK (require_if (flags AND 0x04 \<noteq> 0) WAH_FEATURE_SHIFT_MEMORY64 m) (\<lambda>m.
    WAH_CHECK (wah_decode_uleb128_64 bs) (\<lambda>(mn, bs).
    WAH_CHECK (decode_max flags bs) (\<lambda>(mx, bs).
    WAH_ENSURE (flags AND 0x01 = 0 \<or> flags AND 0x04 \<noteq> 0 \<or> mx \<le> UINT32_MAX) WAH_ERROR_VALIDATION_FAILED (
    WAH_ENSURE (flags AND 0x04 \<noteq> 0 \<or> unat mn \<le> UINT32_MAX) WAH_ERROR_VALIDATION_FAILED (
    WAH_ENSURE (unat mn \<le> mx) WAH_ERROR_VALIDATION_FAILED (
    Inr (\<lparr>tt_elem_type = elem_type, tt_addr_type = (if flags AND 0x04 \<noteq> 0 then WAH_TYPE_I64 else WAH_TYPE_I32),
          tt_min_elements = unat mn, tt_max_elements = mx\<rparr>, m, bs)))))))))"

definition decode_table_type :: "wah_module \<Rightarrow> bytes \<Rightarrow> (wah_table_type_t \<times> wah_module \<times> bytes) res" where
  "decode_table_type m bs =
    WAH_CHECK (wah_decode_ref_type m bs) (\<lambda>(elem_type, m, bs).
    WAH_ENSURE (type_in_range m elem_type) WAH_ERROR_VALIDATION_FAILED (
    WAH_CHECK (if elem_type \<noteq> WAH_TYPE_FUNCREF then wah_require_type_features m elem_type else Inr m) (\<lambda>m.
    decode_table_limits elem_type m bs)))"

definition decode_global_type :: "wah_module \<Rightarrow> bytes \<Rightarrow> ((wah_type \<times> bool) \<times> wah_module \<times> bytes) res" where
  "decode_global_type m bs =
    WAH_CHECK (wah_decode_val_type m bs) (\<lambda>(t, m, bs).
    WAH_ENSURE (type_in_range m t) WAH_ERROR_VALIDATION_FAILED (
    WAH_CHECK (wah_require_type_features m t) (\<lambda>m.
    WAH_CHECK (read_byte bs) (\<lambda>(mut_byte, bs).
    WAH_ENSURE (unat mut_byte \<le> 1) WAH_ERROR_MALFORMED (
    Inr ((t, mut_byte = 1), m, bs))))))"

text \<open>A type index that has to name a function type, and the type of a tag.\<close>

definition decode_func_type_index :: "wah_module \<Rightarrow> bytes \<Rightarrow> (nat \<times> bytes) res" where
  "decode_func_type_index m bs =
    WAH_CHECK (wah_decode_uleb128 bs) (\<lambda>(i, bs).
    WAH_ENSURE (unat i < length (types m)) WAH_ERROR_VALIDATION_FAILED (
    WAH_ENSURE (td_kind (type_defs m ! unat i) = WAH_COMP_FUNC) WAH_ERROR_VALIDATION_FAILED (
    Inr (unat i, bs))))"

definition decode_tag_type :: "wah_module \<Rightarrow> bytes \<Rightarrow> (nat \<times> bytes) res" where
  "decode_tag_type m bs =
    WAH_CHECK (read_byte bs) (\<lambda>(attribute, bs).
    WAH_ENSURE (attribute = 0) WAH_ERROR_MALFORMED (
    WAH_CHECK (decode_func_type_index m bs) (\<lambda>(i, bs).
    WAH_ENSURE (ft_result_types (types m ! i) = []) WAH_ERROR_VALIDATION_FAILED (
    Inr (i, bs)))))"

section \<open>The sections\<close>

definition wah_parse_custom_section :: "wah_module \<Rightarrow> bytes \<Rightarrow> (wah_module \<times> bytes) res" where
  "wah_parse_custom_section m bs =
    WAH_CHECK (wah_decode_uleb128 bs) (\<lambda>(name_len, bs).
    WAH_ENSURE (unat name_len \<le> length bs) WAH_ERROR_UNEXPECTED_EOF (
    WAH_ENSURE (wah_is_valid_utf8 (take (unat name_len) bs)) WAH_ERROR_MALFORMED (Inr (m, []))))"

definition parse_function :: "wah_module \<Rightarrow> bytes \<Rightarrow> (wah_module \<times> bytes) res" where
  "parse_function m bs = WAH_CHECK (decode_func_type_index m bs) (\<lambda>(i, bs).
    Inr (m\<lparr>function_type_indices := function_type_indices m @ [i]\<rparr>, bs))"

definition wah_parse_function_section :: "wah_module \<Rightarrow> bytes \<Rightarrow> (wah_module \<times> bytes) res" where
  "wah_parse_function_section m bs =
    WAH_CHECK (wah_decode_and_validate_count 1 bs) (\<lambda>(count, bs).
    repeat_dec count parse_function (m\<lparr>function_type_indices := []\<rparr>) bs)"

definition parse_global :: "wah_module \<times> nat list list \<Rightarrow> bytes \<Rightarrow> ((wah_module \<times> nat list list) \<times> bytes) res" where
  "parse_global s bs = (case s of (m, deps) \<Rightarrow>
    WAH_CHECK (decode_global_type m bs) (\<lambda>((t, mut), m, bs).
    let i = length (globals m) in
    WAH_CHECK (wah_compile_const_expr t (u32_add (length (global_imports m)) i)
        (m\<lparr>globals := globals m @ [\<lparr>glob_type = t, glob_is_mutable = mut\<rparr>]\<rparr>) bs) (\<lambda>(d, m, bs).
    Inr ((m, deps @ [d]), bs))))"

definition wah_parse_global_section :: "wah_module \<Rightarrow> bytes \<Rightarrow> ((wah_module \<times> nat list list) \<times> bytes) res" where
  "wah_parse_global_section m bs =
    WAH_CHECK (wah_decode_and_validate_count 3 bs) (\<lambda>(count, bs).
    repeat_dec count parse_global (m\<lparr>globals := []\<rparr>, []) bs)"

definition parse_memory :: "wah_module \<Rightarrow> bytes \<Rightarrow> (wah_module \<times> bytes) res" where
  "parse_memory m bs = WAH_CHECK (decode_memory_type m bs) (\<lambda>(mt, m, bs). Inr (m\<lparr>memories := memories m @ [mt]\<rparr>, bs))"

definition wah_parse_memory_section :: "wah_module \<Rightarrow> bytes \<Rightarrow> (wah_module \<times> bytes) res" where
  "wah_parse_memory_section m bs =
    WAH_CHECK (wah_decode_and_validate_count 2 bs) (\<lambda>(count, bs).
    WAH_CHECK (require_if (length (memory_imports m) + count > 1) WAH_FEATURE_SHIFT_MULTI_MEMORY m) (\<lambda>m.
    repeat_dec count parse_memory (m\<lparr>memories := []\<rparr>) bs))"

text \<open>The prefix \<open>0x40 0x00\<close> announces an initializer.\<close>

definition decode_table_prefix :: "wah_module \<Rightarrow> bytes \<Rightarrow> (bool \<times> wah_module \<times> bytes) res" where
  "decode_table_prefix m bs = (case bs of
     [] \<Rightarrow> Inl WAH_ERROR_UNEXPECTED_EOF
   | b # rest \<Rightarrow> if b = 0x40
       then WAH_CHECK (wah_require_feature m WAH_FEATURE_SHIFT_TYPED_FUNCREF) (\<lambda>m.
         WAH_CHECK (read_byte rest) (\<lambda>(z, rest). WAH_ENSURE (z = 0x00) WAH_ERROR_MALFORMED (Inr (True, m, rest))))
       else Inr (False, m, bs))"

definition parse_table :: "wah_module \<Rightarrow> bytes \<Rightarrow> (wah_module \<times> bytes) res" where
  "parse_table m bs =
    WAH_CHECK (decode_table_prefix m bs) (\<lambda>(has_init_expr, m, bs).
    WAH_CHECK (decode_table_type m bs) (\<lambda>(tt, m, bs).
    let m = m\<lparr>tables := tables m @ [tt]\<rparr> in
    if has_init_expr
    then WAH_CHECK (wah_compile_const_expr (tt_elem_type tt) (wah_global_index_limit m) m bs) (\<lambda>(_, m, bs). Inr (m, bs))
    else WAH_ENSURE (WAH_TYPE_IS_NULLABLE (tt_elem_type tt)) WAH_ERROR_VALIDATION_FAILED (Inr (m, bs))))"

definition wah_parse_table_section :: "wah_module \<Rightarrow> bytes \<Rightarrow> (wah_module \<times> bytes) res" where
  "wah_parse_table_section m bs =
    WAH_CHECK (wah_decode_and_validate_count 3 bs) (\<lambda>(count, bs).
    repeat_dec count parse_table (m\<lparr>tables := []\<rparr>) bs)"

definition parse_tag :: "wah_module \<Rightarrow> bytes \<Rightarrow> (wah_module \<times> bytes) res" where
  "parse_tag m bs = WAH_CHECK (decode_tag_type m bs) (\<lambda>(i, bs). Inr (m\<lparr>tags := tags m @ [i]\<rparr>, bs))"

definition wah_parse_tag_section :: "wah_module \<Rightarrow> bytes \<Rightarrow> (wah_module \<times> bytes) res" where
  "wah_parse_tag_section m bs =
    WAH_CHECK (wah_require_feature m WAH_FEATURE_SHIFT_EXCEPTION) (\<lambda>m.
    WAH_CHECK (wah_decode_and_validate_count 2 bs) (\<lambda>(count, bs).
    repeat_dec count parse_tag (m\<lparr>tags := []\<rparr>) bs))"

subsection \<open>Imports\<close>

abbreviation (input) "WAH_KIND_FUNCTION \<equiv> 0 :: nat"
abbreviation (input) "WAH_KIND_TABLE \<equiv> 1 :: nat"
abbreviation (input) "WAH_KIND_MEMORY \<equiv> 2 :: nat"
abbreviation (input) "WAH_KIND_GLOBAL \<equiv> 3 :: nat"
abbreviation (input) "WAH_KIND_TAG \<equiv> 4 :: nat"

text \<open>The five kinds of import; each returns the index of the new entry among the imports of its kind.\<close>

definition import_entity :: "nat \<Rightarrow> wah_import_name \<Rightarrow> wah_module \<Rightarrow> bytes \<Rightarrow> (nat \<times> wah_module \<times> bytes) res" where
  "import_entity kind name m bs =
    (if kind = WAH_KIND_FUNCTION then
       WAH_CHECK (decode_func_type_index m bs) (\<lambda>(i, bs).
       Inr (length (func_imports m), m\<lparr>func_imports := func_imports m @ [\<lparr>fi_name = name, fi_type_index = i\<rparr>]\<rparr>, bs))
     else if kind = WAH_KIND_TABLE then
       WAH_CHECK (decode_table_type m bs) (\<lambda>(tt, m, bs).
       Inr (length (table_imports m), m\<lparr>table_imports := table_imports m @ [\<lparr>ti_name = name, ti_type = tt\<rparr>]\<rparr>, bs))
     else if kind = WAH_KIND_MEMORY then
       WAH_CHECK (require_if (length (memory_imports m) > 0) WAH_FEATURE_SHIFT_MULTI_MEMORY m) (\<lambda>m.
       WAH_CHECK (decode_memory_type m bs) (\<lambda>(mt, m, bs).
       Inr (length (memory_imports m), m\<lparr>memory_imports := memory_imports m @ [\<lparr>mi_name = name, mi_type = mt\<rparr>]\<rparr>, bs)))
     else if kind = WAH_KIND_GLOBAL then
       WAH_CHECK (decode_global_type m bs) (\<lambda>((t, mut), m, bs).
       Inr (length (global_imports m), m\<lparr>global_imports := global_imports m @ [\<lparr>gi_name = name, gi_type = t, gi_is_mutable = mut\<rparr>]\<rparr>, bs))
     else if kind = WAH_KIND_TAG then
       WAH_CHECK (wah_require_feature m WAH_FEATURE_SHIFT_EXCEPTION) (\<lambda>m.
       WAH_CHECK (decode_tag_type m bs) (\<lambda>(i, bs).
       Inr (length (tag_imports m), m\<lparr>tag_imports := tag_imports m @ [\<lparr>tgi_name = name, tgi_type_index = i\<rparr>]\<rparr>, bs)))
     else Inl WAH_ERROR_MALFORMED)"

definition parse_import :: "wah_module \<Rightarrow> bytes \<Rightarrow> (wah_module \<times> bytes) res" where
  "parse_import m bs =
    WAH_CHECK (wah_parse_name bs) (\<lambda>(modname, bs).
    WAH_CHECK (wah_parse_name bs) (\<lambda>(field, bs).
    WAH_CHECK (read_byte bs) (\<lambda>(kind, bs).
    let name = \<lparr>in_module = modname, in_field = field\<rparr> in
    WAH_CHECK (import_entity (unat kind) name m bs) (\<lambda>(i, m, bs).
    Inr (m\<lparr>mod_imports := mod_imports m @ [\<lparr>id_kind = unat kind, id_name = name, id_index = i\<rparr>]\<rparr>, bs)))))"

definition wah_parse_import_section :: "wah_module \<Rightarrow> bytes \<Rightarrow> (wah_module \<times> bytes) res" where
  "wah_parse_import_section m bs =
    WAH_CHECK (wah_decode_and_validate_count 4 bs) (\<lambda>(count, bs).
    if count = 0 then Inr (m, bs)
    else repeat_dec count parse_import (m\<lparr>mod_imports := [], func_imports := [], table_imports := [], memory_imports := [],
      global_imports := [], tag_imports := []\<rparr>) bs)"

subsection \<open>Exports\<close>

text \<open>
  \<open>memcmp\<close> on two byte sequences of the same length: 0 when they are equal, and otherwise of the sign of the
  first difference.
\<close>

fun memcmp :: "bytes \<Rightarrow> bytes \<Rightarrow> int" where
  "memcmp (x # xs) (y # ys) = (if x = y then memcmp xs ys else if x < y then -1 else 1)"
| "memcmp _ _ = 0"

definition wah_export_name_cmp_len :: "wah_export \<Rightarrow> bytes \<Rightarrow> int" where
  "wah_export_name_cmp_len e name =
    (if length (exp_name e) \<noteq> length name then (if length (exp_name e) < length name then -1 else 1) else memcmp (exp_name e) name)"

definition wah_export_name_cmp :: "wah_export \<Rightarrow> wah_export \<Rightarrow> int" where
  "wah_export_name_cmp x y =
    (if length (exp_name x) \<noteq> length (exp_name y) then (if length (exp_name x) < length (exp_name y) then -1 else 1)
     else memcmp (exp_name x) (exp_name y))"

text \<open>The lookup by name in the sorted order of the exports.\<close>

function export_lower_bound_loop :: "wah_module \<Rightarrow> bytes \<Rightarrow> nat \<Rightarrow> nat \<Rightarrow> nat" where
  "export_lower_bound_loop m name lo hi =
    (if lo < hi then
       let mid = lo + (hi - lo) div 2 in
       if wah_export_name_cmp_len (exports m ! (export_order m ! mid)) name < 0
       then export_lower_bound_loop m name (mid + 1) hi
       else export_lower_bound_loop m name lo mid
     else lo)"
  by auto
termination by (relation "measure (\<lambda>(m, name, lo, hi). hi - lo)") auto

declare export_lower_bound_loop.simps [simp del]

definition wah_export_lower_bound :: "wah_module \<Rightarrow> bytes \<Rightarrow> nat" where
  "wah_export_lower_bound m name = export_lower_bound_loop m name 0 (length (exports m))"

definition wah_find_export_by_name :: "wah_module \<Rightarrow> bytes \<Rightarrow> wah_export option" where
  "wah_find_export_by_name m name =
    (let pos = wah_export_lower_bound m name in
     if pos \<ge> length (exports m) then None
     else let e = exports m ! (export_order m ! pos) in if wah_export_name_cmp_len e name = 0 then Some e else None)"

definition wah_find_export :: "wah_module \<Rightarrow> nat \<Rightarrow> wah_import_name \<Rightarrow> wah_export option" where
  "wah_find_export m kind name =
    (case wah_find_export_by_name m (in_field name) of
       None \<Rightarrow> None
     | Some e \<Rightarrow> if exp_kind e = kind then Some e else None)"

text \<open>The check of the index of an export; exporting a function declares it.\<close>

definition check_export :: "nat \<Rightarrow> nat \<Rightarrow> wah_module \<Rightarrow> wah_module res" where
  "check_export kind i m =
    (if kind = WAH_KIND_FUNCTION then
       WAH_ENSURE (i < wah_func_index_limit m) WAH_ERROR_VALIDATION_FAILED (Inr (wah_declare_func m i))
     else if kind = WAH_KIND_TABLE then WAH_ENSURE (i < wah_table_index_limit m) WAH_ERROR_VALIDATION_FAILED (Inr m)
     else if kind = WAH_KIND_MEMORY then WAH_ENSURE (i < wah_memory_index_limit m) WAH_ERROR_VALIDATION_FAILED (Inr m)
     else if kind = WAH_KIND_GLOBAL then
       WAH_ENSURE (i < wah_global_index_limit m) WAH_ERROR_VALIDATION_FAILED (
       require_if (wah_global_is_mutable m i) WAH_FEATURE_SHIFT_MUTABLE_GLOBALS m)
     else if kind = WAH_KIND_TAG then
       WAH_ENSURE (i < u32_add (length (tag_imports m)) (length (tags m))) WAH_ERROR_VALIDATION_FAILED (Inr m)
     else Inl WAH_ERROR_MALFORMED)"

definition parse_export :: "wah_module \<Rightarrow> bytes \<Rightarrow> (wah_module \<times> bytes) res" where
  "parse_export m bs =
    WAH_CHECK (wah_parse_name bs) (\<lambda>(name, bs).
    WAH_CHECK (read_byte bs) (\<lambda>(kind, bs).
    WAH_CHECK (wah_decode_uleb128 bs) (\<lambda>(i, bs).
    WAH_CHECK (check_export (unat kind) (unat i) m) (\<lambda>m.
    Inr (m\<lparr>exports := exports m @ [\<lparr>exp_name = name, exp_kind = unat kind, exp_index = unat i\<rparr>]\<rparr>, bs)))))"

text \<open>
  \<open>qsort\<close> with a comparison function. The order it gives to elements that compare equal is unspecified; here they keep
  their order, and the caller rejects a list that has such elements.
\<close>

fun insert_cmp :: "('a \<Rightarrow> 'a \<Rightarrow> int) \<Rightarrow> 'a \<Rightarrow> 'a list \<Rightarrow> 'a list" where
  "insert_cmp cmp x [] = [x]"
| "insert_cmp cmp x (y # ys) = (if cmp x y \<le> 0 then x # y # ys else y # insert_cmp cmp x ys)"

definition qsort :: "('a \<Rightarrow> 'a \<Rightarrow> int) \<Rightarrow> 'a list \<Rightarrow> 'a list" where
  "qsort cmp xs = foldr (insert_cmp cmp) xs []"

definition cmp_exports :: "wah_module \<Rightarrow> nat \<Rightarrow> nat \<Rightarrow> int" where
  "cmp_exports m i j = wah_export_name_cmp (exports m ! i) (exports m ! j)"

fun has_equal_neighbours :: "('a \<Rightarrow> 'a \<Rightarrow> int) \<Rightarrow> 'a list \<Rightarrow> bool" where
  "has_equal_neighbours cmp (x # y # zs) \<longleftrightarrow> cmp x y = 0 \<or> has_equal_neighbours cmp (y # zs)"
| "has_equal_neighbours cmp _ \<longleftrightarrow> False"

definition sort_exports :: "wah_module \<Rightarrow> wah_module res" where
  "sort_exports m =
    (if length (exports m) > 0 then
       let order = qsort (cmp_exports m) [0..<length (exports m)] in
       WAH_ENSURE (\<not> has_equal_neighbours (cmp_exports m) order) WAH_ERROR_VALIDATION_FAILED (Inr (m\<lparr>export_order := order\<rparr>))
     else Inr m)"

definition wah_parse_export_section :: "wah_module \<Rightarrow> bytes \<Rightarrow> (wah_module \<times> bytes) res" where
  "wah_parse_export_section m bs =
    WAH_CHECK (wah_decode_and_validate_count 3 bs) (\<lambda>(count, bs).
    WAH_CHECK (repeat_dec count parse_export (m\<lparr>exports := []\<rparr>) bs) (\<lambda>(m, bs).
    WAH_CHECK (sort_exports m) (\<lambda>m. Inr (m, bs))))"

subsection \<open>The start function\<close>

definition wah_parse_start_section :: "wah_module \<Rightarrow> bytes \<Rightarrow> (wah_module \<times> bytes) res" where
  "wah_parse_start_section m bs =
    WAH_CHECK (wah_decode_uleb128 bs) (\<lambda>(i, bs).
    let m = m\<lparr>start_function_idx := unat i\<rparr> in
    WAH_ENSURE (unat i < wah_func_index_limit m) WAH_ERROR_VALIDATION_FAILED (
    let type_idx = func_type_index m (unat i) in
    WAH_ENSURE (type_idx < length (types m)) WAH_ERROR_VALIDATION_FAILED (
    let ft = types m ! type_idx in
    WAH_ENSURE (ft_param_types ft = [] \<and> ft_result_types ft = []) WAH_ERROR_VALIDATION_FAILED (
    Inr (m\<lparr>has_start_function := True\<rparr>, bs)))))"

subsection \<open>Element segments\<close>

text \<open>
  One function index, which is declared, or one expression; the expressions of a segment are counted only. The state is the module with
  the elements read so far.
\<close>

definition parse_elem :: "bool \<Rightarrow> wah_type \<Rightarrow> wah_module \<times> nat list \<Rightarrow> bytes \<Rightarrow> ((wah_module \<times> nat list) \<times> bytes) res" where
  "parse_elem is_expr_elem elem_type s bs = (case s of (m, elems) \<Rightarrow>
    if is_expr_elem then
      WAH_CHECK (wah_compile_const_expr elem_type (wah_global_index_limit m) m bs) (\<lambda>(_, m, bs). Inr ((m, elems), bs))
    else
      WAH_CHECK (wah_decode_uleb128 bs) (\<lambda>(i, bs).
      WAH_ENSURE (unat i < wah_func_index_limit m) WAH_ERROR_VALIDATION_FAILED (
      Inr ((wah_declare_func m (unat i), elems @ [unat i]), bs))))"

definition decode_elem_table :: "nat \<Rightarrow> wah_module \<Rightarrow> bytes \<Rightarrow> (nat \<times> bytes) res" where
  "decode_elem_table elem_mode m bs =
    (if elem_mode = 0 then WAH_ENSURE (wah_table_index_limit m > 0) WAH_ERROR_VALIDATION_FAILED (Inr (0, bs))
     else if elem_mode = 2 then
       WAH_CHECK (wah_decode_uleb128 bs) (\<lambda>(i, bs).
       WAH_ENSURE (unat i < wah_table_index_limit m) WAH_ERROR_VALIDATION_FAILED (Inr (unat i, bs)))
     else Inr (0, bs))"

definition decode_elem_type :: "nat \<Rightarrow> bool \<Rightarrow> wah_module \<Rightarrow> bytes \<Rightarrow> (wah_type \<times> wah_module \<times> bytes) res" where
  "decode_elem_type elem_mode is_expr_elem m bs =
    (if elem_mode > 0 then
       if is_expr_elem then
         WAH_CHECK (wah_decode_ref_type m bs) (\<lambda>(t, m, bs).
         WAH_ENSURE (WAH_TYPE_IS_REF t) WAH_ERROR_VALIDATION_FAILED (
         WAH_ENSURE (type_in_range m t) WAH_ERROR_VALIDATION_FAILED (
         WAH_CHECK (if t \<noteq> WAH_TYPE_FUNCREF then wah_require_type_features m t else Inr m) (\<lambda>m. Inr (t, m, bs)))))
       else
         WAH_CHECK (read_byte bs) (\<lambda>(elemkind, bs).
         WAH_ENSURE (elemkind = 0x00) WAH_ERROR_MALFORMED (Inr (WAH_TYPE_FUNCREF, m, bs)))
     else Inr (WAH_TYPE_FUNCREF, m, bs))"

text \<open>Segments of function indices hold no null, so that nullability does not matter for them.\<close>

definition check_elem_type :: "bool \<Rightarrow> wah_type \<Rightarrow> wah_type \<Rightarrow> wah_module \<Rightarrow> unit res" where
  "check_elem_type is_expr_elem elem_type table_type m =
    (if is_expr_elem then wah_validate_type_match elem_type table_type m
     else WAH_ENSURE (wah_type_is_subtype (WAH_TYPE_AS_NON_NULL elem_type) (WAH_TYPE_AS_NON_NULL table_type) m)
       WAH_ERROR_VALIDATION_FAILED (Inr ()))"

definition parse_elem_offset :: "nat \<Rightarrow> wah_module \<Rightarrow> bytes \<Rightarrow> (wah_module \<times> bytes) res" where
  "parse_elem_offset table_idx m bs =
    (let offset_type = (if table_idx < wah_table_index_limit m \<and> tt_addr_type (wah_table_type m table_idx) = WAH_TYPE_I64
                        then WAH_TYPE_I64 else WAH_TYPE_I32) in
     WAH_CHECK (wah_compile_const_expr offset_type (wah_global_index_limit m) m bs) (\<lambda>(_, m, bs). Inr (m, bs)))"

definition parse_elem_header :: "nat \<Rightarrow> bool \<Rightarrow> wah_module \<Rightarrow> bytes \<Rightarrow> ((nat \<times> wah_type) \<times> wah_module \<times> bytes) res" where
  "parse_elem_header elem_mode is_expr_elem m bs =
    (let is_active = (elem_mode = 0 \<or> elem_mode = 2) in
     WAH_CHECK (decode_elem_table elem_mode m bs) (\<lambda>(table_idx, bs).
     WAH_CHECK (if is_active then parse_elem_offset table_idx m bs else Inr (m, bs)) (\<lambda>(m, bs).
     WAH_CHECK (decode_elem_type elem_mode is_expr_elem m bs) (\<lambda>(elem_type, m, bs).
     WAH_CHECK (if is_active then check_elem_type is_expr_elem elem_type (tt_elem_type (wah_table_type m table_idx)) m else Inr ()) (\<lambda>_.
     Inr ((table_idx, elem_type), m, bs))))))"

definition elem_segment :: "nat \<Rightarrow> bool \<Rightarrow> nat \<Rightarrow> wah_type \<Rightarrow> nat \<Rightarrow> nat list \<Rightarrow> wah_element_segment" where
  "elem_segment elem_mode is_expr_elem table_idx elem_type num_elems elems =
    (let is_declarative = (elem_mode = 3) in
     \<lparr> es_is_active = (elem_mode = 0 \<or> elem_mode = 2), es_is_declarative = is_declarative, es_table_idx = table_idx,
       es_num_elems = (if is_declarative then 0 else num_elems), es_is_expr_elem = is_expr_elem, es_elem_type = elem_type,
       es_func_indices = (if is_declarative then [] else elems) \<rparr>)"

definition parse_element_segment :: "wah_module \<Rightarrow> bytes \<Rightarrow> (wah_module \<times> bytes) res" where
  "parse_element_segment m bs =
    WAH_CHECK (wah_decode_uleb128 bs) (\<lambda>(flags, bs).
    WAH_ENSURE (unat flags \<le> 7) WAH_ERROR_MALFORMED (
    let elem_mode = unat (flags AND 3); is_expr_elem = (flags AND 4 \<noteq> 0) in
    WAH_CHECK (require_if (flags \<noteq> 0) WAH_FEATURE_SHIFT_BULK_MEMORY m) (\<lambda>m.
    WAH_CHECK (require_if (elem_mode = 3) WAH_FEATURE_SHIFT_REF_TYPES m) (\<lambda>m.
    WAH_CHECK (parse_elem_header elem_mode is_expr_elem m bs) (\<lambda>((table_idx, elem_type), m, bs).
    WAH_CHECK (wah_decode_and_validate_count 1 bs) (\<lambda>(num_elems, bs).
    WAH_CHECK (repeat_dec num_elems (parse_elem is_expr_elem elem_type) (m, []) bs) (\<lambda>((m, elems), bs).
    Inr (m\<lparr>element_segments := element_segments m @ [elem_segment elem_mode is_expr_elem table_idx elem_type num_elems elems]\<rparr>, bs))))))))"

definition wah_parse_element_section :: "wah_module \<Rightarrow> bytes \<Rightarrow> (wah_module \<times> bytes) res" where
  "wah_parse_element_section m bs =
    WAH_CHECK (wah_decode_and_validate_count 1 bs) (\<lambda>(count, bs).
    repeat_dec count parse_element_segment (m\<lparr>element_segments := []\<rparr>) bs)"

subsection \<open>Data segments\<close>

definition decode_data_memory :: "nat \<Rightarrow> wah_module \<Rightarrow> bytes \<Rightarrow> (nat \<times> bytes) res" where
  "decode_data_memory flags m bs =
    (if flags = 0x00 \<or> flags = 0x01 then Inr (0, bs)
     else if flags = 0x02 then
       WAH_CHECK (wah_decode_uleb128 bs) (\<lambda>(i, bs).
       WAH_ENSURE (unat i < wah_memory_index_limit m) WAH_ERROR_VALIDATION_FAILED (Inr (unat i, bs)))
     else Inl WAH_ERROR_MALFORMED)"

definition parse_data_segment :: "wah_module \<Rightarrow> bytes \<Rightarrow> (wah_module \<times> bytes) res" where
  "parse_data_segment m bs =
    WAH_CHECK (wah_decode_uleb128 bs) (\<lambda>(flags, bs).
    WAH_CHECK (require_if (unat flags \<noteq> 0x00) WAH_FEATURE_SHIFT_BULK_MEMORY m) (\<lambda>m.
    WAH_CHECK (decode_data_memory (unat flags) m bs) (\<lambda>(memory_idx, bs).
    WAH_CHECK (if unat flags = 0x00 \<or> unat flags = 0x02 then
        WAH_ENSURE (memory_idx < wah_memory_index_limit m) WAH_ERROR_VALIDATION_FAILED (
        WAH_CHECK (wah_compile_const_expr (mt_addr_type (wah_memory_type m memory_idx)) (wah_global_index_limit m) m bs) (\<lambda>(_, m, bs). Inr (m, bs)))
      else Inr (m, bs)) (\<lambda>(m, bs).
    WAH_CHECK (wah_decode_uleb128 bs) (\<lambda>(data_len, bs).
    WAH_ENSURE (unat data_len \<le> length bs) WAH_ERROR_UNEXPECTED_EOF (
    Inr (m\<lparr>data_segments := data_segments m @ [\<lparr> ds_flags = unat flags, ds_memory_idx = memory_idx, ds_data = take (unat data_len) bs \<rparr>],
         data_segment_count := data_segment_count m + 1\<rparr>, drop (unat data_len) bs)))))))"

definition wah_parse_data_section :: "wah_module \<Rightarrow> bytes \<Rightarrow> (wah_module \<times> bytes) res" where
  "wah_parse_data_section m bs =
    WAH_CHECK (wah_decode_and_validate_count 2 bs) (\<lambda>(count, bs).
    WAH_ENSURE (has_data_count_section m \<longrightarrow> count = data_segment_count m) WAH_ERROR_MALFORMED (
    if count > 0 then repeat_dec count parse_data_segment (m\<lparr>data_segments := [], data_segment_count := 0\<rparr>) bs else Inr (m, bs)))"

definition wah_parse_datacount_section :: "wah_module \<Rightarrow> bytes \<Rightarrow> (wah_module \<times> bytes) res" where
  "wah_parse_datacount_section m bs =
    WAH_CHECK (wah_require_feature m WAH_FEATURE_SHIFT_BULK_MEMORY) (\<lambda>m.
    WAH_CHECK (wah_decode_uleb128 bs) (\<lambda>(n, bs).
    Inr (m\<lparr>data_segment_count := unat n, has_data_count_section := True\<rparr>, bs)))"

section \<open>The driver\<close>

text \<open>What a parse produces: the module, its bodies, the dependencies of its globals and its functions.\<close>

record wah_function =
  fn_local_idx :: nat
  fn_global_idx :: nat

record wah_parsed_module =
  pm_module :: wah_module
  pm_code_bodies :: "wah_code_body list"
  pm_global_deps :: "nat list list"
  pm_functions :: "wah_function list"

definition wah_read_section_header :: "bytes \<Rightarrow> ((nat \<times> nat) \<times> bytes) res" where
  "wah_read_section_header bs =
    WAH_CHECK (read_byte bs) (\<lambda>(i, bs).
    WAH_CHECK (wah_decode_uleb128 bs) (\<lambda>(sz, bs). Inr ((unat i, unat sz), bs)))"

definition section_order :: "nat list" where
  "section_order = [0, 1, 2, 3, 4, 5, 7, 8, 9, 10, 12, 13, 11, 6]"

definition on_module :: "(wah_module \<Rightarrow> bytes \<Rightarrow> (wah_module \<times> bytes) res) \<Rightarrow> wah_parsed_module \<Rightarrow> bytes \<Rightarrow> (wah_parsed_module \<times> bytes) res" where
  "on_module f p bs = WAH_CHECK (f (pm_module p) bs) (\<lambda>(m, bs). Inr (p\<lparr>pm_module := m\<rparr>, bs))"

definition section_handlers :: "(wah_parsed_module \<Rightarrow> bytes \<Rightarrow> (wah_parsed_module \<times> bytes) res) list" where
  "section_handlers =
    [on_module wah_parse_custom_section, on_module wah_parse_type_section, on_module wah_parse_import_section,
     on_module wah_parse_function_section, on_module wah_parse_table_section, on_module wah_parse_memory_section,
     (\<lambda>p bs. WAH_CHECK (wah_parse_global_section (pm_module p) bs) (\<lambda>((m, deps), bs). Inr (p\<lparr>pm_module := m, pm_global_deps := deps\<rparr>, bs))),
     on_module wah_parse_export_section, on_module wah_parse_start_section, on_module wah_parse_element_section,
     (\<lambda>p bs. WAH_CHECK (wah_parse_code_section (pm_module p) bs) (\<lambda>((m, bodies), bs). Inr (p\<lparr>pm_module := m, pm_code_bodies := bodies\<rparr>, bs))),
     on_module wah_parse_data_section, on_module wah_parse_datacount_section, on_module wah_parse_tag_section]"

text \<open>One round of the loop over the sections; the state has \<open>last_parsed_order\<close>.\<close>

definition parse_section :: "nat \<times> wah_parsed_module \<Rightarrow> bytes \<Rightarrow> ((nat \<times> wah_parsed_module) \<times> bytes) res" where
  "parse_section s bs = (case s of (last_parsed_order, p) \<Rightarrow>
    WAH_CHECK (wah_read_section_header bs) (\<lambda>((section_id, section_size), bs).
    WAH_ENSURE (section_id < length section_order) WAH_ERROR_MALFORMED (
    WAH_CHECK (if section_id \<noteq> 0
               then WAH_ENSURE (section_order ! section_id > last_parsed_order) WAH_ERROR_MALFORMED (Inr (section_order ! section_id))
               else Inr last_parsed_order) (\<lambda>last_parsed_order.
    WAH_ENSURE (section_size \<le> length bs) WAH_ERROR_UNEXPECTED_EOF (
    WAH_CHECK ((section_handlers ! section_id) p (take section_size bs)) (\<lambda>(p, rest).
    WAH_ENSURE (rest = []) WAH_ERROR_MALFORMED (
    Inr ((last_parsed_order, p), drop section_size bs))))))))"

lemma parse_section_shorter:
  assumes "parse_section s bs = Inr (s', rest)" shows "length rest < length bs"
proof -
  from assms obtain h cs where "wah_read_section_header bs = Inr (h, cs)" "length rest \<le> length cs"
    by (cases s) (auto simp: parse_section_def res_simps)
  then show ?thesis by (cases bs) (auto simp: wah_read_section_header_def res_simps dest!: uleb32.dec_shorter)
qed

function parse_sections :: "nat \<times> wah_parsed_module \<Rightarrow> bytes \<Rightarrow> (nat \<times> wah_parsed_module) res" where
  "parse_sections s bs =
    (if bs = [] then Inr s
     else case parse_section s bs of Inl e \<Rightarrow> Inl e | Inr (s', rest) \<Rightarrow> parse_sections s' rest)"
  by pat_completeness auto
termination by (relation "measure (\<lambda>(s, bs). length bs)") (auto dest: parse_section_shorter)

declare parse_sections.simps [simp del]

text \<open>The checks after the last section.\<close>

definition finish_module :: "wah_parsed_module \<Rightarrow> wah_parsed_module res" where
  "finish_module p = (let m = pm_module p in
    WAH_ENSURE (length (function_type_indices m) = length (pm_code_bodies p)) WAH_ERROR_MALFORMED (
    WAH_ENSURE (min_data_segment_count_required m > 0 \<longrightarrow> has_data_count_section m) WAH_ERROR_MALFORMED (
    WAH_ENSURE (data_segment_count m \<ge> min_data_segment_count_required m) WAH_ERROR_VALIDATION_FAILED (
    WAH_ENSURE (has_data_count_section m \<and> data_segment_count m > 0 \<longrightarrow> data_segments m \<noteq> []) WAH_ERROR_MALFORMED (
    WAH_CHECK (require_if (list_ex (\<lambda>ft. length (ft_result_types ft) > 1) (types m)) WAH_FEATURE_SHIFT_MULTI_VALUE m) (\<lambda>m.
    WAH_CHECK (require_if (list_ex gi_is_mutable (global_imports m)) WAH_FEATURE_SHIFT_MUTABLE_GLOBALS m) (\<lambda>m.
    WAH_CHECK (require_if (wah_table_index_limit m > 1) WAH_FEATURE_SHIFT_REF_TYPES m) (\<lambda>m.
    Inr (p\<lparr>pm_module := m, pm_functions := map (\<lambda>i. \<lparr>fn_local_idx = i, fn_global_idx = u32_add (length (func_imports m)) i\<rparr>)
      [0..<length (function_type_indices m)]\<rparr>)))))))))"

text \<open>The options that are in the model; a null pointer is \<open>None\<close>.\<close>

record wah_parse_options =
  po_features :: u64
  po_enable_fuel_metering :: bool

abbreviation (input) "WAH_FEATURE_ALL \<equiv> 0xFFFF :: u64"

definition requested_features :: "wah_parse_options option \<Rightarrow> u64" where
  "requested_features opts = (case opts of None \<Rightarrow> WAH_FEATURE_ALL | Some opt \<Rightarrow> if po_features opt \<noteq> 0 then po_features opt else WAH_FEATURE_ALL)"

definition initial_module :: "wah_parse_options option \<Rightarrow> wah_module" where
  "initial_module opts = wah_module_zero\<lparr> enabled_features := wah_feature_closure (requested_features opts) AND WAH_FEATURE_ALL,
     fuel_metering := (case opts of None \<Rightarrow> False | Some opt \<Rightarrow> po_enable_fuel_metering opt) \<rparr>"

definition wah_parse_module :: "wah_parse_options option \<Rightarrow> bytes \<Rightarrow> wah_parsed_module res" where
  "wah_parse_module opts bs =
    WAH_ENSURE (length bs \<ge> 8) WAH_ERROR_UNEXPECTED_EOF (
    WAH_ENSURE (wah_read_u32_le bs = 0x6D736100) WAH_ERROR_INVALID_MAGIC_NUMBER (
    WAH_ENSURE (wah_read_u32_le (drop 4 bs) = 0x01) WAH_ERROR_INVALID_VERSION (
    WAH_CHECK (parse_sections (0, \<lparr> pm_module = initial_module opts, pm_code_bodies = [], pm_global_deps = [], pm_functions = [] \<rparr>) (drop 8 bs)) (\<lambda>(_, p).
    finish_module p))))"

section \<open>Lookup of exports\<close>

text \<open>What a comparison function has to satisfy for \<open>qsort\<close>.\<close>

locale comparison =
  fixes cmp :: "'a \<Rightarrow> 'a \<Rightarrow> int"
  assumes swap: "cmp x y < 0 \<longleftrightarrow> cmp y x > 0"
    and trans: "cmp x y \<le> 0 \<Longrightarrow> cmp y z \<le> 0 \<Longrightarrow> cmp x z \<le> 0"
begin

lemma total_le: "\<not> cmp x y \<le> 0 \<Longrightarrow> cmp y x \<le> 0"
  using swap [of y x] by simp

lemma strict_trans: "cmp x y < 0 \<Longrightarrow> cmp y z < 0 \<Longrightarrow> cmp x z < 0"
  using trans [of x y z] trans [of z x y] swap [of x y] swap [of z x] swap [of y z] swap [of x z]
  by (metis linorder_not_le nle_le order_less_imp_le)

lemma mset_insert: "mset (insert_cmp cmp x ys) = add_mset x (mset ys)"
  by (induction ys) auto

lemma set_insert_cmp: "set (insert_cmp cmp x ys) = insert x (set ys)"
  using mset_insert [of x ys] by (metis set_mset_add_mset_insert set_mset_mset)

lemma sorted_insert: "sorted_wrt (\<lambda>x y. cmp x y \<le> 0) ys \<Longrightarrow> sorted_wrt (\<lambda>x y. cmp x y \<le> 0) (insert_cmp cmp x ys)"
  by (induction ys) (auto simp: set_insert_cmp dest: total_le intro: trans)

lemma mset_qsort: "mset (qsort cmp xs) = mset xs"
  unfolding qsort_def by (induction xs) (auto simp: mset_insert)

lemma sorted_qsort: "sorted_wrt (\<lambda>x y. cmp x y \<le> 0) (qsort cmp xs)"
  unfolding qsort_def by (induction xs) (auto simp: sorted_insert)


lemma strictly_sorted:
  "sorted_wrt (\<lambda>x y. cmp x y \<le> 0) xs \<Longrightarrow> \<not> has_equal_neighbours cmp xs \<Longrightarrow> sorted_wrt (\<lambda>x y. cmp x y < 0) xs"
proof (induction xs)
  case (Cons x xs)
  show ?case
  proof (cases xs)
    case (Cons y ys)
    with Cons.prems Cons.IH have "cmp x y < 0" "sorted_wrt (\<lambda>x y. cmp x y < 0) (y # ys)" by auto
    then show ?thesis using \<open>xs = y # ys\<close> by (auto intro: strict_trans)
  qed simp
qed simp

end

definition name_cmp :: "bytes \<Rightarrow> bytes \<Rightarrow> int" where
  "name_cmp x y = (if length x \<noteq> length y then (if length x < length y then -1 else 1) else memcmp x y)"

lemma export_cmp: "wah_export_name_cmp x y = name_cmp (exp_name x) (exp_name y)" "wah_export_name_cmp_len x n = name_cmp (exp_name x) n"
  by (simp_all add: wah_export_name_cmp_def wah_export_name_cmp_len_def name_cmp_def)

lemma memcmp_eq: "length x = length y \<Longrightarrow> memcmp x y = 0 \<longleftrightarrow> x = y"
  by (induction x y rule: list_induct2) auto

lemma memcmp_swap: "length x = length y \<Longrightarrow> memcmp x y < 0 \<longleftrightarrow> memcmp y x > 0"
  by (induction x y rule: list_induct2) auto

lemma memcmp_trans: "length x = length y \<Longrightarrow> length y = length z \<Longrightarrow> memcmp x y \<le> 0 \<Longrightarrow> memcmp y z \<le> 0 \<Longrightarrow> memcmp x z \<le> 0"
  by (induction x y z rule: list_induct3) (auto split: if_splits)

interpretation names: comparison name_cmp
proof unfold_locales
  show "name_cmp x y < 0 \<longleftrightarrow> name_cmp y x > 0" for x y by (auto simp: name_cmp_def memcmp_swap)
  show "name_cmp x z \<le> 0" if "name_cmp x y \<le> 0" "name_cmp y z \<le> 0" for x y z
    using that memcmp_trans [of x y z] by (auto simp: name_cmp_def split: if_splits)
qed

lemma name_cmp_eq: "name_cmp x y = 0 \<longleftrightarrow> x = y"
  by (auto simp: name_cmp_def memcmp_eq split: if_splits)

interpretation exps: comparison "cmp_exports m" for m
  by unfold_locales (auto simp: cmp_exports_def export_cmp names.swap intro: names.trans)

text \<open>The order by name lists every export once, with strictly ascending names.\<close>

definition export_order_ok :: "wah_module \<Rightarrow> bool" where
  "export_order_ok m \<longleftrightarrow> length (export_order m) = length (exports m) \<and> set (export_order m) = {0..<length (exports m)}
     \<and> sorted_wrt (\<lambda>i j. cmp_exports m i j < 0) (export_order m)"

lemma sort_exports_ok:
  assumes "sort_exports m = Inr m'" "exports m \<noteq> []"
  shows "export_order_ok m' \<and> exports m' = exports m"
proof -
  let ?o = "qsort (cmp_exports m) [0..<length (exports m)]"
  from assms have m': "m' = m\<lparr>export_order := ?o\<rparr>" "\<not> has_equal_neighbours (cmp_exports m) ?o"
    by (auto simp: sort_exports_def Let_def res_simps)
  have eq: "mset ?o = mset [0..<length (exports m)]" by (rule exps.mset_qsort)
  have "length ?o = length (exports m)" "set ?o = {0..<length (exports m)}"
    using mset_eq_length [OF eq] mset_eq_setD [OF eq] by simp_all
  moreover have "sorted_wrt (\<lambda>i j. cmp_exports m i j < 0) ?o" by (intro exps.strictly_sorted exps.sorted_qsort m'(2))
  moreover have "cmp_exports m' = cmp_exports m" by (intro ext) (simp add: cmp_exports_def m')
  ultimately show ?thesis by (simp add: export_order_ok_def m'(1))
qed

text \<open>The binary search: everything before the result is smaller than the name, and nothing from the result on.\<close>

lemma lower_bound_loop:
  assumes "\<And>i j. i \<le> j \<Longrightarrow> j < n \<Longrightarrow> wah_export_name_cmp_len (exports m ! (export_order m ! j)) name < 0
      \<Longrightarrow> wah_export_name_cmp_len (exports m ! (export_order m ! i)) name < 0"
    and "lo \<le> hi" "hi \<le> n" "\<And>j. j < lo \<Longrightarrow> wah_export_name_cmp_len (exports m ! (export_order m ! j)) name < 0"
    and "\<And>j. hi \<le> j \<Longrightarrow> j < n \<Longrightarrow> \<not> wah_export_name_cmp_len (exports m ! (export_order m ! j)) name < 0"
  shows "\<And>j. j < n \<Longrightarrow> j < export_lower_bound_loop m name lo hi \<longleftrightarrow> wah_export_name_cmp_len (exports m ! (export_order m ! j)) name < 0"
  using assms
proof (induction m name lo hi rule: export_lower_bound_loop.induct)
  case (1 m name lo hi)
  let ?mid = "lo + (hi - lo) div 2" let ?lt = "\<lambda>j. wah_export_name_cmp_len (exports m ! (export_order m ! j)) name < 0"
  note mono = "1.prems"(2)
  show ?case
  proof (cases "lo < hi")
    case False
    then have "export_lower_bound_loop m name lo hi = lo" by (subst export_lower_bound_loop.simps) simp
    then show ?thesis using "1.prems" False by (metis le_neq_implies_less linorder_not_less)
  next
    case True
    then have mid: "?mid < hi" "lo \<le> ?mid" by auto
    show ?thesis
    proof (cases "?lt ?mid")
      case lt: True
      have "export_lower_bound_loop m name lo hi = export_lower_bound_loop m name (?mid + 1) hi"
        using True lt by (subst export_lower_bound_loop.simps) (simp add: Let_def)
      moreover have "?lt j" if "j < ?mid + 1" for j using mono [of j ?mid] that lt mid "1.prems"(4) by auto
      ultimately show ?thesis using "1.IH"(1) [OF True refl lt "1.prems"(1) mono _ "1.prems"(4) _ "1.prems"(6)] mid by auto
    next
      case ge: False
      have "export_lower_bound_loop m name lo hi = export_lower_bound_loop m name lo ?mid"
        using True ge by (subst export_lower_bound_loop.simps) (simp add: Let_def)
      moreover have "\<not> ?lt j" if "?mid \<le> j" "j < n" for j using mono [of ?mid j] that ge by auto
      ultimately show ?thesis using "1.IH"(2) [OF True refl ge "1.prems"(1) mono _ _ "1.prems"(5)] mid "1.prems"(4) by auto
    qed
  qed
qed

lemma name_cmp_refl [simp]: "name_cmp x x = 0"
  by (simp add: name_cmp_eq)

lemma sorted_cmp_mono:
  assumes "export_order_ok m" "i \<le> j" "j < length (exports m)" "wah_export_name_cmp_len (exports m ! (export_order m ! j)) name < 0"
  shows "wah_export_name_cmp_len (exports m ! (export_order m ! i)) name < 0"
proof (cases "i = j")
  case False
  with assms have "cmp_exports m (export_order m ! i) (export_order m ! j) < 0"
    by (auto simp: export_order_ok_def intro: sorted_wrt_nth_less)
  with assms(4) show ?thesis by (auto simp: cmp_exports_def export_cmp intro: names.strict_trans)
qed (use assms in simp)

lemma lower_bound_spec:
  assumes "export_order_ok m" "j < length (exports m)"
  shows "j < wah_export_lower_bound m name \<longleftrightarrow> name_cmp (exp_name (exports m ! (export_order m ! j))) name < 0"
  unfolding wah_export_lower_bound_def export_cmp(2) [symmetric]
  by (rule lower_bound_loop [of "length (exports m)"]) (use assms sorted_cmp_mono in auto)

lemma order_covers: "export_order_ok m \<Longrightarrow> i < length (exports m) \<Longrightarrow> \<exists>j < length (exports m). export_order m ! j = i"
  unfolding export_order_ok_def by (metis atLeastLessThan_iff in_set_conv_nth zero_le)

lemma find_some:
  assumes "export_order_ok m" "e \<in> set (exports m)" "exp_name e = name"
  shows "wah_find_export_by_name m name = Some e"
proof -
  let ?pos = "wah_export_lower_bound m name" let ?at = "\<lambda>j. exports m ! (export_order m ! j)"
  from assms(2) obtain i where i: "i < length (exports m)" "exports m ! i = e" by (auto simp: in_set_conv_nth)
  from order_covers [OF assms(1) i(1)] obtain j where j: "j < length (exports m)" "export_order m ! j = i" by blast
  have "\<not> j < ?pos" using lower_bound_spec [OF assms(1) j(1), of name] j i assms(3) by simp
  moreover have "\<not> ?pos < j"
  proof
    assume lt: "?pos < j"
    then have "cmp_exports m (export_order m ! ?pos) (export_order m ! j) < 0"
      using assms(1) j(1) by (auto simp: export_order_ok_def intro: sorted_wrt_nth_less)
    then have "?pos < ?pos" using lower_bound_spec [OF assms(1), of ?pos name] lt j i assms(3) by (simp add: cmp_exports_def export_cmp)
    then show False by simp
  qed
  ultimately have "?pos = j" by simp
  then show ?thesis using j i assms(3) by (simp add: wah_find_export_by_name_def export_cmp name_cmp_eq)
qed

lemma find_none:
  assumes "export_order_ok m" "\<And>e. e \<in> set (exports m) \<Longrightarrow> exp_name e \<noteq> name"
  shows "wah_find_export_by_name m name = None"
proof (cases "wah_export_lower_bound m name < length (exports m)")
  case True
  then have "export_order m ! wah_export_lower_bound m name < length (exports m)"
    using assms(1) by (metis atLeastLessThan_iff export_order_ok_def nth_mem)
  then show ?thesis using assms(2) True by (auto simp: wah_find_export_by_name_def export_cmp name_cmp_eq Let_def)
qed (simp add: wah_find_export_by_name_def)

lemma order_strict: "export_order_ok m \<Longrightarrow> a < b \<Longrightarrow> b < length (exports m) \<Longrightarrow>
    exp_name (exports m ! (export_order m ! a)) \<noteq> exp_name (exports m ! (export_order m ! b))"
  using sorted_wrt_nth_less [of "\<lambda>i j. cmp_exports m i j < 0" "export_order m" a b] by (auto simp: export_order_ok_def cmp_exports_def export_cmp)

lemma distinct_names: "export_order_ok m \<Longrightarrow> distinct (map exp_name (exports m))"
  unfolding distinct_conv_nth
proof (intro allI impI)
  fix i j assume ok: "export_order_ok m" and ij: "i < length (map exp_name (exports m))" "j < length (map exp_name (exports m))" "i \<noteq> j"
  then obtain a b where ab: "a < length (exports m)" "export_order m ! a = i" "b < length (exports m)" "export_order m ! b = j"
    using order_covers by (metis length_map)
  with ij(3) consider "a < b" | "b < a" by (metis linorder_neqE_nat)
  then have "exp_name (exports m ! i) \<noteq> exp_name (exports m ! j)"
    using order_strict [OF ok, of a b] order_strict [OF ok, of b a] ab by cases auto
  then show "map exp_name (exports m) ! i \<noteq> map exp_name (exports m) ! j" using ij by simp
qed

text \<open>C16: Export names are unique, and the lookup is a search of the list: after an export section is accepted, no two exports
  have the same name, and the binary search in the sorted order finds for every name what a linear search over the
  exports finds.\<close>

theorem export_lookup:
  assumes "wah_parse_export_section m bs = Inr (m', rest)"
  shows "distinct (map exp_name (exports m')) \<and> wah_find_export_by_name m' name = find (\<lambda>e. exp_name e = name) (exports m')"
proof (cases "exports m' = []")
  case True
  then show ?thesis by (simp add: wah_find_export_by_name_def)
next
  case False
  from assms obtain m1 cs where s: "sort_exports m1 = Inr m'" by (auto simp: wah_parse_export_section_def res_simps)
  then have "exports m1 \<noteq> []" using False by (auto simp: sort_exports_def)
  with sort_exports_ok [OF s] have ok: "export_order_ok m'" by simp
  show ?thesis
  proof (cases "find (\<lambda>e. exp_name e = name) (exports m')")
    case None
    then have "exp_name e \<noteq> name" if "e \<in> set (exports m')" for e using that by (auto simp: find_None_iff)
    from find_none [OF ok this] None show ?thesis using distinct_names [OF ok] by simp
  next
    case (Some e)
    then have "e \<in> set (exports m')" "exp_name e = name" by (auto simp: find_Some_iff)
    with Some show ?thesis using find_some [OF ok] distinct_names [OF ok] by simp
  qed
qed

end
