(* ===== verification/Wah_Parse_Inv.thy ===== *)
theory Wah_Parse_Inv
  imports Wah_Parse
begin

text \<open>
  A module that \<open>wah_parse_module\<close> accepts is well formed: the indices in its declarations, which later stages follow
  without a check, are in range, and its code names only data segments that exist. The proof goes section by section; that a section cannot invalidate what an earlier one established rests on
  the order of the sections, which the driver enforces.
\<close>

section \<open>Well-formed modules\<close>

definition func_type_ok :: "wah_module \<Rightarrow> nat \<Rightarrow> bool" where
  "func_type_ok m i \<longleftrightarrow> i < length (types m) \<and> td_kind (type_defs m ! i) = WAH_COMP_FUNC"

definition tag_type_ok :: "wah_module \<Rightarrow> nat \<Rightarrow> bool" where
  "tag_type_ok m i \<longleftrightarrow> func_type_ok m i \<and> ft_result_types (types m ! i) = []"

definition memory_ok :: "wah_memory_type_t \<Rightarrow> bool" where
  "memory_ok mt \<longleftrightarrow> mt_addr_type mt \<in> {WAH_TYPE_I32, WAH_TYPE_I64} \<and> mt_min_pages mt \<le> wah_memory_max_pages mt"

definition table_ok :: "wah_module \<Rightarrow> wah_table_type_t \<Rightarrow> bool" where
  "table_ok m tt \<longleftrightarrow> WAH_TYPE_IS_REF (tt_elem_type tt) \<and> type_in_range m (tt_elem_type tt)
     \<and> tt_addr_type tt \<in> {WAH_TYPE_I32, WAH_TYPE_I64} \<and> tt_min_elements tt \<le> wah_table_max_size tt"

definition global_type_ok :: "wah_module \<Rightarrow> wah_type \<Rightarrow> bool" where
  "global_type_ok m t \<longleftrightarrow> wah_is_val_type t \<and> type_in_range m t"

definition types_wf :: "wah_module \<Rightarrow> bool" where
  "types_wf m \<longleftrightarrow> wf_types m \<and> length (types m) = length (type_defs m)"

lemma types_wf_cong: "types m' = types m \<Longrightarrow> type_defs m' = type_defs m \<Longrightarrow> types_wf m' = types_wf m"
  by (simp add: types_wf_def wf_types_def wf_group_def wf_refs_def type_refs_def)

definition imports_wf :: "wah_module \<Rightarrow> bool" where
  "imports_wf m \<longleftrightarrow> (\<forall>f \<in> set (func_imports m). func_type_ok m (fi_type_index f)) \<and> (\<forall>t \<in> set (table_imports m). table_ok m (ti_type t))
     \<and> (\<forall>t \<in> set (memory_imports m). memory_ok (mi_type t)) \<and> (\<forall>g \<in> set (global_imports m). global_type_ok m (gi_type g))
     \<and> (\<forall>t \<in> set (tag_imports m). tag_type_ok m (tgi_type_index t))"

definition defs_wf :: "wah_module \<Rightarrow> bool" where
  "defs_wf m \<longleftrightarrow> (\<forall>i \<in> set (function_type_indices m). func_type_ok m i) \<and> (\<forall>t \<in> set (tables m). table_ok m t)
     \<and> (\<forall>t \<in> set (memories m). memory_ok t) \<and> (\<forall>i \<in> set (tags m). tag_type_ok m i) \<and> (\<forall>g \<in> set (globals m). global_type_ok m (glob_type g))"

text \<open>The entry an import description points to has the name of the description.\<close>

definition import_name_at :: "wah_module \<Rightarrow> nat \<Rightarrow> nat \<Rightarrow> wah_import_name option" where
  "import_name_at m kind i =
    (if kind = WAH_KIND_FUNCTION \<and> i < length (func_imports m) then Some (fi_name (func_imports m ! i))
     else if kind = WAH_KIND_TABLE \<and> i < length (table_imports m) then Some (ti_name (table_imports m ! i))
     else if kind = WAH_KIND_MEMORY \<and> i < length (memory_imports m) then Some (mi_name (memory_imports m ! i))
     else if kind = WAH_KIND_GLOBAL \<and> i < length (global_imports m) then Some (gi_name (global_imports m ! i))
     else if kind = WAH_KIND_TAG \<and> i < length (tag_imports m) then Some (tgi_name (tag_imports m ! i)) else None)"

definition descs_wf :: "wah_module \<Rightarrow> bool" where
  "descs_wf m \<longleftrightarrow> (\<forall>d \<in> set (mod_imports m). import_name_at m (id_kind d) (id_index d) = Some (id_name d))"

definition export_ok :: "wah_module \<Rightarrow> wah_export \<Rightarrow> bool" where
  "export_ok m e \<longleftrightarrow> exp_index e < (if exp_kind e = WAH_KIND_FUNCTION then wah_func_index_limit m
     else if exp_kind e = WAH_KIND_TABLE then wah_table_index_limit m
     else if exp_kind e = WAH_KIND_MEMORY then wah_memory_index_limit m
     else if exp_kind e = WAH_KIND_GLOBAL then wah_global_index_limit m
     else if exp_kind e = WAH_KIND_TAG then u32_add (length (tag_imports m)) (length (tags m)) else 0)"

definition start_ok :: "wah_module \<Rightarrow> bool" where
  "start_ok m \<longleftrightarrow> (has_start_function m \<longrightarrow> start_function_idx m < wah_func_index_limit m
     \<and> wah_resolve_func_type m (start_function_idx m) = func_type_zero)"

text \<open>
  The elements of an active segment go into its table: their type is one of the table's, and unless they are function
  indices, which are never null, a table without nulls gets none.
\<close>

definition element_fits :: "wah_module \<Rightarrow> bool \<Rightarrow> wah_type \<Rightarrow> nat \<Rightarrow> bool" where
  "element_fits m is_expr t i \<longleftrightarrow> i < wah_table_index_limit m
     \<and> wah_type_is_subtype (WAH_TYPE_AS_NON_NULL t) (WAH_TYPE_AS_NON_NULL (tt_elem_type (wah_table_type m i))) m
     \<and> (is_expr \<and> WAH_TYPE_IS_NULLABLE t \<longrightarrow> WAH_TYPE_IS_NULLABLE (tt_elem_type (wah_table_type m i)))"

definition element_ok :: "wah_module \<Rightarrow> wah_element_segment \<Rightarrow> bool" where
  "element_ok m s \<longleftrightarrow> WAH_TYPE_IS_REF (es_elem_type s) \<and> type_in_range m (es_elem_type s)
     \<and> (es_is_active s \<longrightarrow> element_fits m (es_is_expr_elem s) (es_elem_type s) (es_table_idx s))
     \<and> (\<forall>i \<in> set (es_func_indices s). i < wah_func_index_limit m)
     \<and> (es_is_expr_elem s \<or> es_num_elems s = length (es_func_indices s))"

definition data_ok :: "wah_module \<Rightarrow> wah_data_segment \<Rightarrow> bool" where
  "data_ok m s \<longleftrightarrow> ds_flags s \<le> 2 \<and> (ds_flags s \<noteq> 1 \<longrightarrow> ds_memory_idx s < wah_memory_index_limit m)"

definition uses_wf :: "wah_module \<Rightarrow> bool" where
  "uses_wf m \<longleftrightarrow> (\<forall>e \<in> set (exports m). export_ok m e) \<and> start_ok m \<and> (\<forall>s \<in> set (element_segments m). element_ok m s)
     \<and> (\<forall>s \<in> set (data_segments m). data_ok m s)"

lemmas entity_defs = func_type_ok_def tag_type_ok_def table_ok_def global_type_ok_def type_in_range_def

section \<open>What the sections leave alone\<close>

lemma same_entities_wf:
  assumes "same_entities m m'"
  shows "imports_wf m' = imports_wf m" "defs_wf m' = defs_wf m" "descs_wf m' = descs_wf m"
proof -
  from assms obtain f d n where m': "m' = m\<lparr>required_features := f, declared_funcs := d, min_data_segment_count_required := n\<rparr>"
    using same_entities_cases by blast
  show "imports_wf m' = imports_wf m" "defs_wf m' = defs_wf m" unfolding m' by (simp_all add: imports_wf_def defs_wf_def entity_defs)
  show "descs_wf m' = descs_wf m" unfolding m' by (simp add: descs_wf_def import_name_at_def)
qed

text \<open>The type section only touches the types, their metadata and the required features.\<close>

definition but_types :: "wah_module \<Rightarrow> wah_module" where
  "but_types m = m\<lparr>types := [], type_defs := [], types_cap := 0, canonical_map := None, typeidx_to_repr := None, repr_infos := [],
     required_features := 0\<rparr>"

lemma features_but_types: "features_only m m' \<Longrightarrow> but_types m' = but_types m"
proof -
  assume "features_only m m'"
  then obtain f where "m' = m\<lparr>required_features := f\<rparr>" unfolding features_only_def by blast
  then show ?thesis by (simp add: but_types_def)
qed

lemma val_types_frame: "decode_val_types n m bs = Inr ((ts, m'), r) \<Longrightarrow> features_only m m'"
proof -
  assume run: "decode_val_types n m bs = Inr ((ts, m'), r)"
  have "features_only m (snd (ts, m'))"
    by (rule repeat_dec_invariant [where P = "\<lambda>s _. features_only m (snd s)", OF _ run [unfolded decode_val_types_def]])
      (auto simp: res_simps dest!: val_type_frame intro: features_only_trans)
  then show ?thesis by simp
qed

lemma func_type_frame: "wah_parse_func_type m bs = Inr (ft, m', r) \<Longrightarrow> features_only m m'"
  by (auto simp: wah_parse_func_type_def res_simps dest!: val_types_frame intro: features_only_trans)

lemma field_frame: "decode_field (td, m) bs = Inr ((td', m'), r) \<Longrightarrow> features_only m m'"
  by (auto simp: decode_field_def res_simps dest: storage_type_frame)

lemma struct_type_frame: "wah_parse_struct_type td m bs = Inr (td', m', r) \<Longrightarrow> features_only m m'"
proof -
  assume "wah_parse_struct_type td m bs = Inr (td', m', r)"
  then obtain n cs where run: "repeat_dec n (\<lambda>(td, m) bs.
      WAH_CHECK (decode_field (td, m) bs) (\<lambda>((td, m), bs).
      let t = last (td_field_types td) in
      Inr ((if WAH_TYPE_IS_REF t \<and> \<not> WAH_TYPE_IS_NULLABLE t then td\<lparr>td_non_defaultable := True\<rparr> else td, m), bs))) (td, m) cs = Inr ((td', m'), r)"
    by (auto simp: wah_parse_struct_type_def res_simps)
  have "features_only m (snd (td', m'))"
    by (rule repeat_dec_invariant [where P = "\<lambda>s _. features_only m (snd s)", OF _ run])
      (auto simp: res_simps Let_def dest!: field_frame intro: features_only_trans)
  then show ?thesis by simp
qed

lemma sub_type_frame: "wah_parse_sub_type i ft td m bs = Inr (ft', td', m', r) \<Longrightarrow> features_only m m'"
  by (auto simp: wah_parse_sub_type_def wah_parse_composite_type_def wah_parse_array_type_def res_simps Let_def split: if_splits
      dest: func_type_frame struct_type_frame field_frame)

lemma type_member_frame: "parse_type_member g m bs = Inr (m', r) \<Longrightarrow> but_types m' = but_types m"
proof -
  assume "parse_type_member g m bs = Inr (m', r)"
  then obtain m1 ft td m2 m3 where 1: "wah_type_section_ensure_capacity m (length (type_defs m) + 1) = Inr m1"
    and 2: "wah_parse_sub_type (length (type_defs m)) (types (wah_type_section_init_slot m1) ! length (type_defs m))
      (type_defs (wah_type_section_init_slot m1) ! length (type_defs m)) (wah_type_section_init_slot m1) bs = Inr (ft, td, m2, r)"
    and 3: "m3 = m2\<lparr>types := (types m2)[length (type_defs m) := ft], type_defs := (type_defs m2)[length (type_defs m) := td]\<rparr>"
    and 4: "features_only m3 m'"
    by (auto simp: parse_type_member_def Let_def res_simps split: if_splits dest: require_feature_frame)
  have "but_types m1 = but_types m" using 1 by (auto simp: wah_type_section_ensure_capacity_def res_simps but_types_def split: if_splits)
  moreover have "but_types (wah_type_section_init_slot m1) = but_types m1" by (simp add: wah_type_section_init_slot_def but_types_def)
  moreover have "but_types m2 = but_types (wah_type_section_init_slot m1)" by (rule features_but_types [OF sub_type_frame [OF 2]])
  moreover have "but_types m3 = but_types m2" by (simp add: 3 but_types_def)
  ultimately show ?thesis using features_but_types [OF 4] by simp
qed

lemma rec_entry_frame: "parse_rec_entry m bs = Inr (m', r) \<Longrightarrow> but_types m' = but_types m"
proof -
  have group: "but_types (m\<lparr>type_defs := tds\<rparr>) = but_types m" for m tds by (simp add: but_types_def)
  have "but_types m2 = but_types m1" if "repeat_dec n (parse_type_member g) m1 cs = Inr (m2, cs')" for n g m1 m2 cs cs'
    by (rule repeat_dec_invariant [where P = "\<lambda>m _. but_types m = but_types m1", OF _ that]) (auto dest: type_member_frame)
  then show "parse_rec_entry m bs = Inr (m', r) \<Longrightarrow> but_types m' = but_types m"
    by (auto simp: parse_rec_entry_def Let_def res_simps group split: if_splits
        dest!: type_member_frame features_but_types [OF require_feature_frame])
qed

lemma build_repr_frame: "build_repr i m = Inr m' \<Longrightarrow> but_types m' = but_types m"
  by (auto simp: build_repr_def wah_module_alloc_repr_def Let_def res_simps but_types_def split: option.splits)

lemma check_subtype_frame: "check_declared_subtype i m = Inr m' \<Longrightarrow> m' = m"
  by (auto simp: check_declared_subtype_def res_simps split: option.splits)

lemma metadata_frame: "wah_module_build_type_metadata m = Inr m' \<Longrightarrow> but_types m' = but_types m"
proof -
  assume run: "wah_module_build_type_metadata m = Inr m'"
  let ?m = "(wah_module_clear_type_metadata m)\<lparr>canonical_map := Some (wah_build_canonical_map (wah_module_clear_type_metadata m))\<rparr>"
  show ?thesis
  proof (cases "type_defs m = []")
    case True
    then show ?thesis using run by (auto simp: wah_module_build_type_metadata_def wah_module_clear_type_metadata_def but_types_def)
  next
    case False
    then obtain m1 where 1: "fold_res check_declared_subtype [0..<length (type_defs m)] ?m = Inr m1"
      and 2: "fold_res build_repr [0..<length (type_defs m)] (m1\<lparr>typeidx_to_repr := Some (replicate (length (type_defs m)) WAH_REPR_NONE)\<rparr>) = Inr m'"
      using run by (auto simp: wah_module_build_type_metadata_def wah_module_clear_type_metadata_def Let_def res_simps)
    have "m1 = ?m"
      by (rule fold_res_invariant [where P = "\<lambda>m1. m1 = ?m", OF _ 1]) (auto dest: check_subtype_frame)
    moreover have "but_types m' = but_types (m1\<lparr>typeidx_to_repr := Some (replicate (length (type_defs m)) WAH_REPR_NONE)\<rparr>)"
      by (rule fold_res_invariant [where P = "\<lambda>m'. but_types m' = but_types (m1\<lparr>typeidx_to_repr := Some (replicate (length (type_defs m)) WAH_REPR_NONE)\<rparr>)", OF _ 2])
        (auto dest: build_repr_frame)
    ultimately show ?thesis by (simp add: but_types_def wah_module_clear_type_metadata_def)
  qed
qed

lemma type_section_frame: "wah_parse_type_section m bs = Inr (m', r) \<Longrightarrow> but_types m' = but_types m"
proof -
  let ?m0 = "m\<lparr>types := [], type_defs := [], types_cap := 0\<rparr>"
  assume "wah_parse_type_section m bs = Inr (m', r)"
  then obtain n cs m1 m2 where p: "repeat_dec n parse_rec_entry ?m0 cs = Inr (m1, r)"
    "fold_res check_type_entry [0..<length (type_defs m1)] m1 = Inr m2" "wah_module_build_type_metadata m2 = Inr m'"
    by (auto simp: wah_parse_type_section_def res_simps)
  have "but_types m1 = but_types ?m0"
    by (rule repeat_dec_invariant [where P = "\<lambda>m _. but_types m = but_types ?m0", OF _ p(1)]) (auto dest: rec_entry_frame)
  moreover have "but_types m2 = but_types m1" using check_entries_ok [OF p(2)] features_but_types by blast
  ultimately show ?thesis using metadata_frame [OF p(3)] by (simp add: but_types_def)
qed

section \<open>The pieces\<close>

lemma require_if_frame: "require_if c k m = Inr m' \<Longrightarrow> features_only m m'"
  by (auto simp: require_if_def split: if_splits dest: require_feature_frame)

lemma max_pages_limit: "wah_memory_max_pages mt = min (memory_page_limit (mt_addr_type mt)) (mt_max_pages mt)"
  by (simp add: wah_memory_max_pages_def memory_page_limit_def Let_def min_def)

lemma decode_memory_type_ok:
  assumes "decode_memory_type m bs = Inr (mt, m', r)"
  shows "features_only m m' \<and> memory_ok mt"
  using assms
  by (auto simp: decode_memory_type_def res_simps Let_def memory_ok_def max_pages_limit split: if_splits dest: require_feature_frame)

lemma decode_table_limits_ok:
  assumes "decode_table_limits t m bs = Inr (tt, m', r)"
  shows "features_only m m'" "tt_elem_type tt = t" "tt_addr_type tt \<in> {WAH_TYPE_I32, WAH_TYPE_I64}" "tt_min_elements tt \<le> wah_table_max_size tt"
proof -
  have u64: "unat mn \<le> UINT64_MAX" for mn :: u64 using unsigned_less [of mn, where 'a = nat] by simp
  show "features_only m m'" "tt_elem_type tt = t" "tt_addr_type tt \<in> {WAH_TYPE_I32, WAH_TYPE_I64}"
    using assms by (auto simp: decode_table_limits_def res_simps dest: require_if_frame)
  show "tt_min_elements tt \<le> wah_table_max_size tt"
    using assms u64 by (auto simp: decode_table_limits_def require_if_def res_simps wah_table_max_size_def Let_def split: if_splits)
qed

lemma decode_table_type_ok:
  assumes "decode_table_type m bs = Inr (tt, m', r)"
  shows "features_only m m' \<and> table_ok m tt"
proof -
  from assms obtain t m1 cs m2 where d: "wah_decode_ref_type m bs = Inr (t, m1, cs)" "type_in_range m1 t"
    "(if t \<noteq> WAH_TYPE_FUNCREF then wah_require_type_features m1 t else Inr m1) = Inr m2" and l: "decode_table_limits t m2 cs = Inr (tt, m', r)"
    unfolding decode_table_type_def by (auto simp: res_simps simp del: if_split)
  have f1: "features_only m m1" by (rule ref_type_frame [OF d(1)])
  have f2: "features_only m1 m2" using d(3) by (auto split: if_splits dest: require_type_features_frame)
  have "table_ok m tt"
    using ref_type_wf [OF d(1)] d(2) features_onlyD(1) [OF f1] decode_table_limits_ok(2-4) [OF l] by (auto simp: table_ok_def type_in_range_def)
  then show ?thesis using f1 f2 decode_table_limits_ok(1) [OF l] by (blast intro: features_only_trans)
qed

lemma decode_global_type_ok:
  assumes "decode_global_type m bs = Inr ((t, mut), m', r)"
  shows "features_only m m' \<and> global_type_ok m t"
proof -
  from assms obtain m1 cs where d: "wah_decode_val_type m bs = Inr (t, m1, cs)" "type_in_range m1 t" "wah_require_type_features m1 t = Inr m'"
    by (auto simp: decode_global_type_def res_simps)
  from val_type_ok [OF d(1)] have f: "wah_is_val_type t" "features_only m m1" by simp_all
  have "features_only m m'" using f(2) require_type_features_frame [OF d(3)] by (rule features_only_trans)
  then show ?thesis using f(1) d(2) features_onlyD(1) [OF f(2)] by (simp add: global_type_ok_def type_in_range_def)
qed

lemma decode_func_type_index_ok: "decode_func_type_index m bs = Inr (i, r) \<Longrightarrow> func_type_ok m i"
  by (auto simp: decode_func_type_index_def res_simps func_type_ok_def)

lemma decode_tag_type_ok: "decode_tag_type m bs = Inr (i, r) \<Longrightarrow> tag_type_ok m i"
  by (auto simp: decode_tag_type_def res_simps tag_type_ok_def dest: decode_func_type_index_ok)

lemma entity_ok_cong:
  assumes "types m' = types m" "type_defs m' = type_defs m"
  shows "func_type_ok m' = func_type_ok m" "tag_type_ok m' = tag_type_ok m" "table_ok m' = table_ok m" "global_type_ok m' = global_type_ok m"
  using assms by (auto simp: entity_defs)

lemma ok_frame:
  "func_type_ok (m\<lparr>function_type_indices := a\<rparr>) = func_type_ok m" "tag_type_ok (m\<lparr>tags := a\<rparr>) = tag_type_ok m"
  "table_ok (m\<lparr>tables := b\<rparr>) = table_ok m" "global_type_ok (m\<lparr>globals := g\<rparr>) = global_type_ok m"
  by (rule entity_ok_cong; simp)+

lemma same_entities_types: "same_entities m m' \<Longrightarrow> types m' = types m \<and> type_defs m' = type_defs m"
  by (drule same_entities_cases) auto

lemma ok_same:
  assumes "same_entities m m'"
  shows "func_type_ok m' = func_type_ok m" "tag_type_ok m' = tag_type_ok m" "table_ok m' = table_ok m" "global_type_ok m' = global_type_ok m"
  using same_entities_types [OF assms] by (auto intro!: entity_ok_cong)

section \<open>The sections that define entities\<close>

text \<open>
  A section that fills one array: the rounds append entries that are in order, and change nothing else. \<open>upd\<close> sets the
  array and \<open>get\<close> reads it.
\<close>

locale array_section =
  fixes upd :: "'a list \<Rightarrow> wah_module \<Rightarrow> wah_module" and get :: "wah_module \<Rightarrow> 'a list"
    and item :: "wah_module \<Rightarrow> bytes \<Rightarrow> (wah_module \<times> bytes) res" and ok :: "wah_module \<Rightarrow> 'a \<Rightarrow> bool"
  assumes item: "item m bs = Inr (m', r) \<Longrightarrow> \<exists>x. same_entities (upd (get m @ [x]) m) m' \<and> ok m x"
    and get_upd: "get (upd xs m) = xs"
    and upd_upd: "upd xs (upd ys m) = upd xs m"
    and upd_same: "same_entities m m' \<Longrightarrow> same_entities (upd xs m) (upd xs m')"
    and get_same: "same_entities m m' \<Longrightarrow> get m' = get m"
    and ok_upd: "ok (upd xs m) = ok m"
    and ok_same: "same_entities m m' \<Longrightarrow> ok m' = ok m"
begin

lemma items:
  assumes "repeat_dec n item m0 bs = Inr (m', r)" "same_entities (upd [] m) m0"
  shows "\<exists>xs. same_entities (upd xs m) m' \<and> length xs = n \<and> (\<forall>x \<in> set xs. ok m x)"
proof -
  have "\<exists>ys. same_entities (upd (xs @ ys) m) m' \<and> length ys = n \<and> (\<forall>x \<in> set ys. ok m x)"
    if "repeat_dec n item m1 bs = Inr (m', r)" "same_entities (upd xs m) m1" for m1 xs bs
    using that
  proof (induction n arbitrary: m1 xs bs)
    case 0
    then show ?case by simp
  next
    case (Suc n)
    from Suc.prems(1) obtain m2 cs where i: "item m1 bs = Inr (m2, cs)" and run: "repeat_dec n item m2 cs = Inr (m', r)" by (auto simp: res_simps)
    from item [OF i] obtain x where x: "same_entities (upd (get m1 @ [x]) m1) m2" "ok m1 x" by blast
    have g: "get m1 = xs" using get_same [OF Suc.prems(2)] by (simp add: get_upd)
    have "ok m x" using x(2) ok_same [OF Suc.prems(2)] by (simp add: ok_upd)
    moreover have "same_entities (upd (xs @ [x]) m) m2"
      using same_entities_trans [OF upd_same [OF Suc.prems(2), of "xs @ [x]"] x(1) [unfolded g]] by (simp add: upd_upd)
    ultimately obtain ys where "same_entities (upd ((xs @ [x]) @ ys) m) m'" "length ys = n" "\<forall>x \<in> set ys. ok m x" "ok m x"
      using Suc.IH [OF run, of "xs @ [x]"] by blast
    then show ?case by (intro exI [of _ "x # ys"]) simp
  qed
  from this [of m0 bs "[]"] assms show ?thesis by simp
qed

end

lemma same_entitiesE:
  assumes "same_entities m m'"
  obtains f d n where "m' = m\<lparr>required_features := f, declared_funcs := d, min_data_segment_count_required := n\<rparr>"
    "min_data_segment_count_required m \<le> n"
  using same_entities_cases [OF assms] by blast

lemma same_entities_arrays:
  assumes "same_entities m m'"
  shows "same_entities (m\<lparr>function_type_indices := a\<rparr>) (m'\<lparr>function_type_indices := a\<rparr>)" "same_entities (m\<lparr>tables := b\<rparr>) (m'\<lparr>tables := b\<rparr>)"
    "same_entities (m\<lparr>memories := c\<rparr>) (m'\<lparr>memories := c\<rparr>)" "same_entities (m\<lparr>tags := a\<rparr>) (m'\<lparr>tags := a\<rparr>)"
    "same_entities (m\<lparr>globals := g\<rparr>) (m'\<lparr>globals := g\<rparr>)" "same_entities (m\<lparr>element_segments := e\<rparr>) (m'\<lparr>element_segments := e\<rparr>)"
    "same_entities (m\<lparr>exports := x\<rparr>) (m'\<lparr>exports := x\<rparr>)"
    "function_type_indices m' = function_type_indices m" "tables m' = tables m" "memories m' = memories m" "tags m' = tags m"
    "globals m' = globals m" "element_segments m' = element_segments m" "exports m' = exports m"
proof -
  from assms obtain f d n where m': "m' = m\<lparr>required_features := f, declared_funcs := d, min_data_segment_count_required := n\<rparr>"
    and le: "min_data_segment_count_required m \<le> n" by (rule same_entitiesE)
  show "same_entities (m\<lparr>function_type_indices := a\<rparr>) (m'\<lparr>function_type_indices := a\<rparr>)" "same_entities (m\<lparr>tables := b\<rparr>) (m'\<lparr>tables := b\<rparr>)"
    "same_entities (m\<lparr>memories := c\<rparr>) (m'\<lparr>memories := c\<rparr>)" "same_entities (m\<lparr>tags := a\<rparr>) (m'\<lparr>tags := a\<rparr>)"
    "same_entities (m\<lparr>globals := g\<rparr>) (m'\<lparr>globals := g\<rparr>)" "same_entities (m\<lparr>element_segments := e\<rparr>) (m'\<lparr>element_segments := e\<rparr>)"
    "same_entities (m\<lparr>exports := x\<rparr>) (m'\<lparr>exports := x\<rparr>)"
    unfolding m' using le by (simp_all add: same_entities_def)
  show "function_type_indices m' = function_type_indices m" "tables m' = tables m" "memories m' = memories m" "tags m' = tags m"
    "globals m' = globals m" "element_segments m' = element_segments m" "exports m' = exports m"
    unfolding m' by simp_all
qed

interpretation fn_sec: array_section "\<lambda>xs m. m\<lparr>function_type_indices := xs\<rparr>" function_type_indices parse_function func_type_ok
proof unfold_locales
  show "\<exists>x. same_entities (m\<lparr>function_type_indices := function_type_indices m @ [x]\<rparr>) m' \<and> func_type_ok m x" if "parse_function m bs = Inr (m', r)" for m bs m' r
    using that by (auto simp: parse_function_def res_simps dest!: decode_func_type_index_ok) (use same_entities_refl in blast)
qed (simp_all add: same_entities_arrays ok_same ok_frame)

interpretation tag_sec: array_section "\<lambda>xs m. m\<lparr>tags := xs\<rparr>" tags parse_tag tag_type_ok
proof unfold_locales
  show "\<exists>x. same_entities (m\<lparr>tags := tags m @ [x]\<rparr>) m' \<and> tag_type_ok m x" if "parse_tag m bs = Inr (m', r)" for m bs m' r
    using that by (auto simp: parse_tag_def res_simps dest!: decode_tag_type_ok) (use same_entities_refl in blast)
qed (simp_all add: same_entities_arrays ok_same ok_frame)

interpretation mem_sec: array_section "\<lambda>xs m. m\<lparr>memories := xs\<rparr>" memories parse_memory "\<lambda>_. memory_ok"
proof unfold_locales
  fix m bs m' r assume "parse_memory m bs = Inr (m', r)"
  then obtain mt m1 where d: "decode_memory_type m bs = Inr (mt, m1, r)" and m': "m' = m1\<lparr>memories := memories m1 @ [mt]\<rparr>"
    by (auto simp: parse_memory_def res_simps)
  from decode_memory_type_ok [OF d] have "same_entities m m1" "memory_ok mt" by (auto intro: same_entities_features)
  then show "\<exists>x. same_entities (m\<lparr>memories := memories m @ [x]\<rparr>) m' \<and> memory_ok x"
    unfolding m' by (intro exI [of _ mt]) (simp add: same_entities_arrays)
qed (simp_all add: same_entities_arrays)

lemma table_prefix_frame: "decode_table_prefix m bs = Inr (b, m', r) \<Longrightarrow> features_only m m'"
  by (auto simp: decode_table_prefix_def res_simps split: list.splits if_splits dest: require_feature_frame)

interpretation tab_sec: array_section "\<lambda>xs m. m\<lparr>tables := xs\<rparr>" tables parse_table table_ok
proof unfold_locales
  fix m bs m' r assume "parse_table m bs = Inr (m', r)"
  then obtain b m1 cs tt m2 cs' where p: "decode_table_prefix m bs = Inr (b, m1, cs)" "decode_table_type m1 cs = Inr (tt, m2, cs')"
    and e: "same_entities (m2\<lparr>tables := tables m2 @ [tt]\<rparr>) m'"
    by (auto simp: parse_table_def res_simps Let_def split: if_splits dest: const_expr_entities(1))
  have 1: "same_entities m m1" using table_prefix_frame [OF p(1)] by (rule same_entities_features)
  have 2: "same_entities m1 m2" "table_ok m1 tt" using decode_table_type_ok [OF p(2)] by (auto intro: same_entities_features)
  have m: "same_entities m m2" using 1 2(1) by (rule same_entities_trans)
  then have "same_entities (m\<lparr>tables := tables m @ [tt]\<rparr>) m'"
    using same_entities_trans [OF same_entities_arrays(2) [OF m] e] by (simp add: same_entities_arrays)
  moreover have "table_ok m tt" using 2(2) ok_same(3) [OF 1] by simp
  ultimately show "\<exists>x. same_entities (m\<lparr>tables := tables m @ [x]\<rparr>) m' \<and> table_ok m x" by blast
qed (simp_all add: same_entities_arrays ok_same ok_frame)

definition parse_global_only :: "wah_module \<Rightarrow> bytes \<Rightarrow> (wah_module \<times> bytes) res" where
  "parse_global_only m bs = WAH_CHECK (parse_global (m, []) bs) (\<lambda>((m, _), bs). Inr (m, bs))"

lemma parse_global_only:
  "repeat_dec n parse_global (m, ds) bs = Inr ((m', ds'), r) \<Longrightarrow> repeat_dec n parse_global_only m bs = Inr (m', r) \<and> length ds' = length ds + n"
proof (induction n arbitrary: m ds bs)
  case (Suc n)
  from Suc.prems obtain m1 ds1 cs where g: "parse_global (m, ds) bs = Inr ((m1, ds1), cs)" "repeat_dec n parse_global (m1, ds1) cs = Inr ((m', ds'), r)"
    by (auto simp: res_simps)
  then have "parse_global_only m bs = Inr (m1, cs)" "length ds1 = Suc (length ds)"
    by (auto simp: parse_global_only_def parse_global_def res_simps Let_def)
  with Suc.IH [OF g(2)] show ?case by simp
qed simp

interpretation glob_sec: array_section "\<lambda>xs m. m\<lparr>globals := xs\<rparr>" globals parse_global_only "\<lambda>m g. global_type_ok m (glob_type g)"
proof unfold_locales
  fix m bs m' r assume "parse_global_only m bs = Inr (m', r)"
  then obtain t mut m1 cs where p: "decode_global_type m bs = Inr ((t, mut), m1, cs)"
    and e: "same_entities (m1\<lparr>globals := globals m1 @ [\<lparr>glob_type = t, glob_is_mutable = mut\<rparr>]\<rparr>) m'"
    by (auto simp: parse_global_only_def parse_global_def res_simps Let_def dest: const_expr_entities(1))
  have m: "same_entities m m1" "global_type_ok m t" using decode_global_type_ok [OF p] by (auto intro: same_entities_features)
  then have "same_entities (m\<lparr>globals := globals m @ [\<lparr>glob_type = t, glob_is_mutable = mut\<rparr>]\<rparr>) m'"
    using same_entities_trans [OF same_entities_arrays(5) [OF m(1)] e] by (simp add: same_entities_arrays)
  then show "\<exists>x. same_entities (m\<lparr>globals := globals m @ [x]\<rparr>) m' \<and> global_type_ok m (glob_type x)"
    using m(2) by (intro exI [of _ "\<lparr>glob_type = t, glob_is_mutable = mut\<rparr>"]) simp
qed (simp_all add: same_entities_arrays ok_same ok_frame)

section \<open>The import section\<close>

definition but_imports :: "wah_module \<Rightarrow> wah_module" where
  "but_imports m = m\<lparr>mod_imports := [], func_imports := [], table_imports := [], memory_imports := [], global_imports := [], tag_imports := [],
     required_features := 0\<rparr>"

lemma features_onlyE:
  assumes "features_only m m'" obtains f where "m' = m\<lparr>required_features := f\<rparr>"
  using assms unfolding features_only_def by blast

lemmas import_defs = import_entity_def imports_wf_def import_name_at_def but_imports_def entity_defs

text \<open>An imported entity is in order, gets an index with its name, and leaves the others where they are.\<close>

lemma import_func_ok:
  assumes "import_entity WAH_KIND_FUNCTION name m bs = Inr (i, m', r)" "imports_wf m"
  shows "imports_wf m' \<and> import_name_at m' WAH_KIND_FUNCTION i = Some name \<and> but_imports m' = but_imports m \<and> mod_imports m' = mod_imports m
    \<and> (\<forall>k j n. import_name_at m k j = Some n \<longrightarrow> import_name_at m' k j = Some n)"
proof -
  from assms(1) obtain ti where d: "decode_func_type_index m bs = Inr (ti, r)" and i: "i = length (func_imports m)"
    and m': "m' = m\<lparr>func_imports := func_imports m @ [\<lparr>fi_name = name, fi_type_index = ti\<rparr>]\<rparr>"
    by (auto simp: import_entity_def res_simps)
  from decode_func_type_index_ok [OF d] assms(2) show ?thesis unfolding m' i by (auto simp: import_defs nth_append split: if_splits)
qed

lemma import_table_ok:
  assumes "import_entity WAH_KIND_TABLE name m bs = Inr (i, m', r)" "imports_wf m"
  shows "imports_wf m' \<and> import_name_at m' WAH_KIND_TABLE i = Some name \<and> but_imports m' = but_imports m \<and> mod_imports m' = mod_imports m
    \<and> (\<forall>k j n. import_name_at m k j = Some n \<longrightarrow> import_name_at m' k j = Some n)"
proof -
  from assms(1) obtain tt m1 where d: "decode_table_type m bs = Inr (tt, m1, r)" and i: "i = length (table_imports m1)"
    and m': "m' = m1\<lparr>table_imports := table_imports m1 @ [\<lparr>ti_name = name, ti_type = tt\<rparr>]\<rparr>"
    by (auto simp: import_entity_def res_simps)
  from decode_table_type_ok [OF d] obtain f where f: "m1 = m\<lparr>required_features := f\<rparr>" "table_ok m tt" by (auto elim: features_onlyE)
  then show ?thesis using assms(2) unfolding m' i by (auto simp: import_defs nth_append split: if_splits)
qed

lemma import_memory_ok:
  assumes "import_entity WAH_KIND_MEMORY name m bs = Inr (i, m', r)" "imports_wf m"
  shows "imports_wf m' \<and> import_name_at m' WAH_KIND_MEMORY i = Some name \<and> but_imports m' = but_imports m \<and> mod_imports m' = mod_imports m
    \<and> (\<forall>k j n. import_name_at m k j = Some n \<longrightarrow> import_name_at m' k j = Some n)"
proof -
  from assms(1) obtain mt m0 m1 where f0: "features_only m m0" and d: "decode_memory_type m0 bs = Inr (mt, m1, r)" and i: "i = length (memory_imports m1)"
    and m': "m' = m1\<lparr>memory_imports := memory_imports m1 @ [\<lparr>mi_name = name, mi_type = mt\<rparr>]\<rparr>"
    by (auto simp: import_entity_def res_simps dest: require_if_frame)
  have "features_only m m1" "memory_ok mt" using decode_memory_type_ok [OF d] f0 by (auto intro: features_only_trans)
  then obtain f where f: "m1 = m\<lparr>required_features := f\<rparr>" "memory_ok mt" by (auto elim: features_onlyE)
  then show ?thesis using assms(2) unfolding m' i by (auto simp: import_defs nth_append split: if_splits)
qed

lemma import_global_ok:
  assumes "import_entity WAH_KIND_GLOBAL name m bs = Inr (i, m', r)" "imports_wf m"
  shows "imports_wf m' \<and> import_name_at m' WAH_KIND_GLOBAL i = Some name \<and> but_imports m' = but_imports m \<and> mod_imports m' = mod_imports m
    \<and> (\<forall>k j n. import_name_at m k j = Some n \<longrightarrow> import_name_at m' k j = Some n)"
proof -
  from assms(1) obtain t mut m1 where d: "decode_global_type m bs = Inr ((t, mut), m1, r)" and i: "i = length (global_imports m1)"
    and m': "m' = m1\<lparr>global_imports := global_imports m1 @ [\<lparr>gi_name = name, gi_type = t, gi_is_mutable = mut\<rparr>]\<rparr>"
    by (auto simp: import_entity_def res_simps)
  from decode_global_type_ok [OF d] obtain f where f: "m1 = m\<lparr>required_features := f\<rparr>" "global_type_ok m t" by (auto elim: features_onlyE)
  then show ?thesis using assms(2) unfolding m' i by (auto simp: import_defs nth_append split: if_splits)
qed

lemma import_tag_ok:
  assumes "import_entity WAH_KIND_TAG name m bs = Inr (i, m', r)" "imports_wf m"
  shows "imports_wf m' \<and> import_name_at m' WAH_KIND_TAG i = Some name \<and> but_imports m' = but_imports m \<and> mod_imports m' = mod_imports m
    \<and> (\<forall>k j n. import_name_at m k j = Some n \<longrightarrow> import_name_at m' k j = Some n)"
proof -
  from assms(1) obtain ti m1 where f0: "features_only m m1" and d: "decode_tag_type m1 bs = Inr (ti, r)" and i: "i = length (tag_imports m1)"
    and m': "m' = m1\<lparr>tag_imports := tag_imports m1 @ [\<lparr>tgi_name = name, tgi_type_index = ti\<rparr>]\<rparr>"
    by (auto simp: import_entity_def res_simps dest: require_feature_frame)
  from f0 decode_tag_type_ok [OF d] obtain f where f: "m1 = m\<lparr>required_features := f\<rparr>" "tag_type_ok m1 ti" by (auto elim: features_onlyE)
  then show ?thesis using assms(2) unfolding m' i by (auto simp: import_defs nth_append split: if_splits)
qed

lemma import_entity_kind: "import_entity kind name m bs = Inr x \<Longrightarrow> kind \<in> {0, 1, 2, 3, 4}"
  by (auto simp: import_entity_def split: if_splits)

lemma import_entity_ok:
  assumes "import_entity kind name m bs = Inr (i, m', r)" "imports_wf m"
  shows "imports_wf m' \<and> import_name_at m' kind i = Some name \<and> but_imports m' = but_imports m \<and> mod_imports m' = mod_imports m
    \<and> (\<forall>k j n. import_name_at m k j = Some n \<longrightarrow> import_name_at m' k j = Some n)"
proof -
  from import_entity_kind [OF assms(1)] have "kind = 0 \<or> kind = 1 \<or> kind = 2 \<or> kind = 3 \<or> kind = 4" by simp
  then show ?thesis
  proof (elim disjE)
    assume k: "kind = 0" show ?thesis unfolding k by (rule import_func_ok [OF assms(1) [unfolded k] assms(2)])
  next
    assume k: "kind = 1" show ?thesis unfolding k by (rule import_table_ok [OF assms(1) [unfolded k] assms(2)])
  next
    assume k: "kind = 2" show ?thesis unfolding k by (rule import_memory_ok [OF assms(1) [unfolded k] assms(2)])
  next
    assume k: "kind = 3" show ?thesis unfolding k by (rule import_global_ok [OF assms(1) [unfolded k] assms(2)])
  next
    assume k: "kind = 4" show ?thesis unfolding k by (rule import_tag_ok [OF assms(1) [unfolded k] assms(2)])
  qed
qed

lemma parse_import_ok:
  assumes "parse_import m bs = Inr (m', r)" "imports_wf m" "descs_wf m"
  shows "imports_wf m' \<and> descs_wf m' \<and> but_imports m' = but_imports m"
proof -
  from assms(1) obtain kind name cs i m1 where e: "import_entity kind name m cs = Inr (i, m1, r)"
    and m': "m' = m1\<lparr>mod_imports := mod_imports m1 @ [\<lparr>id_kind = kind, id_name = name, id_index = i\<rparr>]\<rparr>"
    by (auto simp: parse_import_def res_simps Let_def)
  have upd: "import_name_at (m1\<lparr>mod_imports := ds\<rparr>) = import_name_at m1" "imports_wf (m1\<lparr>mod_imports := ds\<rparr>) = imports_wf m1"
    "but_imports (m1\<lparr>mod_imports := ds\<rparr>) = but_imports m1" for ds
    by (auto simp: import_name_at_def imports_wf_def but_imports_def entity_defs fun_eq_iff)
  show ?thesis using import_entity_ok [OF e assms(2)] assms(3) unfolding m' by (auto simp: upd descs_wf_def)
qed

lemma import_section_ok:
  assumes "wah_parse_import_section m bs = Inr (m', r)" "imports_wf m" "descs_wf m"
  shows "imports_wf m' \<and> descs_wf m' \<and> but_imports m' = but_imports m"
proof -
  let ?m = "m\<lparr>mod_imports := [], func_imports := [], table_imports := [], memory_imports := [], global_imports := [], tag_imports := []\<rparr>"
  from assms(1) consider "m' = m" | n cs where "repeat_dec n parse_import ?m cs = Inr (m', r)"
    by (auto simp: wah_parse_import_section_def res_simps split: if_splits)
  then show ?thesis
  proof cases
    case 2
    have "imports_wf ?m \<and> descs_wf ?m \<and> but_imports ?m = but_imports m" by (simp add: imports_wf_def descs_wf_def but_imports_def)
    then show ?thesis
      by (intro repeat_dec_invariant [where P = "\<lambda>m' _. imports_wf m' \<and> descs_wf m' \<and> but_imports m' = but_imports m", OF _ 2])
        (auto dest: parse_import_ok)
  qed (use assms in simp)
qed

section \<open>The sections that use entities\<close>

lemma limits_cong:
  assumes "func_imports m' = func_imports m" "table_imports m' = table_imports m" "memory_imports m' = memory_imports m"
    "global_imports m' = global_imports m" "tag_imports m' = tag_imports m" "function_type_indices m' = function_type_indices m"
    "tables m' = tables m" "memories m' = memories m" "globals m' = globals m" "tags m' = tags m"
    "types m' = types m" "type_defs m' = type_defs m" "canonical_map m' = canonical_map m"
  shows "wah_func_index_limit m' = wah_func_index_limit m" "wah_table_index_limit m' = wah_table_index_limit m"
    "wah_memory_index_limit m' = wah_memory_index_limit m" "wah_global_index_limit m' = wah_global_index_limit m"
    "export_ok m' = export_ok m" "element_ok m' = element_ok m" "data_ok m' = data_ok m" "element_fits m' = element_fits m"
proof -
  show l: "wah_func_index_limit m' = wah_func_index_limit m" "wah_table_index_limit m' = wah_table_index_limit m"
    "wah_memory_index_limit m' = wah_memory_index_limit m" "wah_global_index_limit m' = wah_global_index_limit m"
    using assms by (simp_all add: wah_func_index_limit_def wah_table_index_limit_def wah_memory_index_limit_def wah_global_index_limit_def)
  have "wah_table_type m' i = wah_table_type m i" for i using assms by (simp add: wah_table_type_def)
  then show fits: "element_fits m' = element_fits m" using l subtype_cong [OF assms(12,13)] by (simp add: element_fits_def fun_eq_iff)
  show "export_ok m' = export_ok m" "element_ok m' = element_ok m" "data_ok m' = data_ok m"
    using assms l fits by (auto simp: export_ok_def element_ok_def data_ok_def fun_eq_iff type_in_range_def)
qed

lemma limits_same:
  assumes "same_entities m m'"
  shows "wah_func_index_limit m' = wah_func_index_limit m" "wah_table_index_limit m' = wah_table_index_limit m"
    "wah_memory_index_limit m' = wah_memory_index_limit m" "wah_global_index_limit m' = wah_global_index_limit m"
    "export_ok m' = export_ok m" "element_ok m' = element_ok m" "data_ok m' = data_ok m" "element_fits m' = element_fits m"
  using assms by (auto elim!: same_entitiesE intro!: limits_cong)

lemma same_entities_uses: "same_entities m m' \<Longrightarrow> uses_wf m' = uses_wf m"
proof -
  assume same: "same_entities m m'"
  then obtain f d n where m': "m' = m\<lparr>required_features := f, declared_funcs := d, min_data_segment_count_required := n\<rparr>"
    using same_entities_cases by blast
  have "start_ok m' = start_ok m" by (simp add: m' start_ok_def wah_func_index_limit_def wah_resolve_func_type_def func_type_index_def)
  moreover have "exports m' = exports m" "element_segments m' = element_segments m" "data_segments m' = data_segments m" by (simp_all add: m')
  ultimately show ?thesis using limits_same [OF same] by (simp add: uses_wf_def)
qed

lemma limits_frame:
  "export_ok (m\<lparr>exports := x\<rparr>) = export_ok m" "element_ok (m\<lparr>element_segments := e\<rparr>) = element_ok m"
  by (rule limits_cong; simp)+

lemma check_export_ok:
  assumes "check_export kind i m = Inr m'"
  shows "same_entities m m' \<and> export_ok m \<lparr>exp_name = n, exp_kind = kind, exp_index = i\<rparr>"
  using assms
  by (auto simp: check_export_def export_ok_def res_simps same_entities_declare split: if_splits
      dest!: require_if_frame intro: same_entities_features)

interpretation exp_sec: array_section "\<lambda>xs m. m\<lparr>exports := xs\<rparr>" exports parse_export export_ok
proof unfold_locales
  fix m bs m' r assume "parse_export m bs = Inr (m', r)"
  then obtain name kind i m1 where c: "check_export kind i m = Inr m1"
    and m': "m' = m1\<lparr>exports := exports m1 @ [\<lparr>exp_name = name, exp_kind = kind, exp_index = i\<rparr>]\<rparr>"
    by (auto simp: parse_export_def res_simps)
  from check_export_ok [OF c, of name] have "same_entities m m1" "export_ok m \<lparr>exp_name = name, exp_kind = kind, exp_index = i\<rparr>" by blast+
  then show "\<exists>x. same_entities (m\<lparr>exports := exports m @ [x]\<rparr>) m' \<and> export_ok m x"
    unfolding m' by (intro exI [of _ "\<lparr>exp_name = name, exp_kind = kind, exp_index = i\<rparr>"]) (simp add: same_entities_arrays)
qed (simp_all add: same_entities_arrays limits_same limits_frame)

lemma parse_elem_ok:
  assumes "repeat_dec n (parse_elem x t) (m, []) bs = Inr ((m', elems), r)"
  shows "same_entities m m' \<and> (\<forall>i \<in> set elems. i < wah_func_index_limit m) \<and> (x \<or> length elems = n)"
proof -
  let ?P = "\<lambda>s (_ :: bytes). same_entities m (fst s) \<and> (\<forall>i \<in> set (snd s). i < wah_func_index_limit m)"
  have step: "?P s' cs'" if "?P s cs" "parse_elem x t s cs = Inr (s', cs')" for s cs s' cs'
    using that limits_same(1) [of m "fst s"]
    by (cases s) (auto simp: parse_elem_def res_simps split: if_splits dest!: const_expr_entities(1)
        intro: same_entities_trans [OF _ same_entities_declare] same_entities_trans)
  have start: "?P (m, []) bs" by simp
  have "?P (m', elems) r" by (rule repeat_dec_invariant [where P = ?P, OF step assms start])
  moreover have "length (snd (m', elems)) = length (snd (m, [] :: nat list)) + n" if "\<not> x"
    by (rule repeat_dec_measure [where g = "\<lambda>s. length (snd s)", OF _ assms]) (use that in \<open>auto simp: parse_elem_def res_simps split: if_splits\<close>)
  ultimately show ?thesis by auto
qed

lemma elem_table_ok: "decode_elem_table k m bs = Inr (i, r) \<Longrightarrow> k = 0 \<or> k = 2 \<Longrightarrow> i < wah_table_index_limit m"
  by (auto simp: decode_elem_table_def res_simps split: if_splits)

lemma elem_type_ok:
  assumes "decode_elem_type k x m bs = Inr (t, m', r)"
  shows "same_entities m m'" "WAH_TYPE_IS_REF t \<and> type_in_range m t"
proof -
  have "features_only m m'"
    using assms by (auto simp: decode_elem_type_def res_simps split: if_splits dest!: ref_type_frame require_type_features_frame intro: features_only_trans)
  then show "same_entities m m'" by (rule same_entities_features)
  show "WAH_TYPE_IS_REF t \<and> type_in_range m t"
    using assms by (auto simp: decode_elem_type_def res_simps WAH_TYPE_IS_REF_def type_in_range_def split: if_splits
        dest!: ref_type_frame features_onlyD(1))
qed

lemma check_elem_type_ok:
  assumes "check_elem_type x t tt m = Inr u" "WAH_TYPE_IS_REF t"
  shows "wah_type_is_subtype (WAH_TYPE_AS_NON_NULL t) (WAH_TYPE_AS_NON_NULL tt) m \<and> (x \<and> WAH_TYPE_IS_NULLABLE t \<longrightarrow> WAH_TYPE_IS_NULLABLE tt)"
  using assms by (auto simp: check_elem_type_def wah_validate_type_match_def res_simps WAH_TYPE_IS_REF_def split: if_splits)

text \<open>The header of a segment: whatever its flags, the element type is a reference type that exists, and an active segment fits.\<close>

lemma elem_header_ok:
  assumes "parse_elem_header k x m bs = Inr ((i, t), m', r)"
  shows "same_entities m m' \<and> WAH_TYPE_IS_REF t \<and> type_in_range m t \<and> (k = 0 \<or> k = 2 \<longrightarrow> element_fits m x t i)"
proof -
  from assms obtain cs m1 cs1 cs2 where d: "decode_elem_table k m bs = Inr (i, cs)"
    "(if k = 0 \<or> k = 2 then parse_elem_offset i m cs else Inr (m, cs)) = Inr (m1, cs1)" "decode_elem_type k x m1 cs1 = Inr (t, m', cs2)"
    and c: "(if k = 0 \<or> k = 2 then check_elem_type x t (tt_elem_type (wah_table_type m' i)) m' else Inr ()) = Inr ()"
    unfolding parse_elem_header_def Let_def by (auto simp: res_simps simp del: if_split)
  have 1: "same_entities m m1" using d(2) by (auto simp: parse_elem_offset_def Let_def res_simps split: if_splits dest: const_expr_entities(1))
  have t: "WAH_TYPE_IS_REF t" "type_in_range m t"
    using elem_type_ok(2) [OF d(3)] same_entities_types [OF 1] by (simp_all add: type_in_range_def)
  have same: "same_entities m m'" using 1 elem_type_ok(1) [OF d(3)] by (rule same_entities_trans)
  have "element_fits m x t i" if "k = 0 \<or> k = 2"
  proof -
    have "element_fits m' x t i"
      using check_elem_type_ok [OF _ t(1), of x "tt_elem_type (wah_table_type m' i)" m' "()"] c that elem_table_ok [OF d(1) that] limits_same(2) [OF same] by (simp add: element_fits_def)
    then show ?thesis using limits_same(8) [OF same] by simp
  qed
  then show ?thesis using same t by blast
qed

interpretation elem_sec: array_section "\<lambda>xs m. m\<lparr>element_segments := xs\<rparr>" element_segments parse_element_segment element_ok
proof unfold_locales
  fix m bs m' r assume "parse_element_segment m bs = Inr (m', r)"
  then obtain k x c cs m1 m2 i t m3 cs1 n cs2 m4 elems where f: "require_if c WAH_FEATURE_SHIFT_BULK_MEMORY m = Inr m1"
      "require_if (k = 3) WAH_FEATURE_SHIFT_REF_TYPES m1 = Inr m2"
    and h: "parse_elem_header k x m2 cs = Inr ((i, t), m3, cs1)" and es: "repeat_dec n (parse_elem x t) (m3, []) cs2 = Inr ((m4, elems), r)"
    and m': "m' = m4\<lparr>element_segments := element_segments m4 @ [elem_segment k x i t n elems]\<rparr>"
    unfolding parse_element_segment_def Let_def by (auto simp: res_simps)
  have 1: "same_entities m m2" using f by (auto dest!: require_if_frame intro: features_only_trans same_entities_features)
  have 3: "same_entities m m3" using 1 elem_header_ok [OF h] by (blast intro: same_entities_trans)
  have 4: "same_entities m m4" using 3 parse_elem_ok [OF es] by (blast intro: same_entities_trans)
  show "\<exists>x. same_entities (m\<lparr>element_segments := element_segments m @ [x]\<rparr>) m' \<and> element_ok m x"
    using elem_header_ok [OF h] parse_elem_ok [OF es] limits_same(8) [OF 1] limits_same(1) [OF 3] same_entities_types [OF 1] 4 unfolding m'
    by (intro exI [of _ "elem_segment k x i t n elems"]) (auto simp: same_entities_arrays element_ok_def elem_segment_def Let_def type_in_range_def)
qed (simp_all add: same_entities_arrays limits_same limits_frame)

lemma same_entities_segments:
  assumes "same_entities m m'"
  shows "same_entities (m\<lparr>data_segments := xs, data_segment_count := n\<rparr>) (m'\<lparr>data_segments := xs, data_segment_count := n\<rparr>)"
    "data_segments m' = data_segments m" "data_segment_count m' = data_segment_count m"
proof -
  from assms obtain f d k where m': "m' = m\<lparr>required_features := f, declared_funcs := d, min_data_segment_count_required := k\<rparr>"
    and le: "min_data_segment_count_required m \<le> k" by (rule same_entitiesE)
  show "same_entities (m\<lparr>data_segments := xs, data_segment_count := n\<rparr>) (m'\<lparr>data_segments := xs, data_segment_count := n\<rparr>)"
    "data_segments m' = data_segments m" "data_segment_count m' = data_segment_count m"
    unfolding m' using le by (simp_all add: same_entities_def)
qed

lemma data_memory_ok: "decode_data_memory k m bs = Inr (i, r) \<Longrightarrow> k \<le> 2 \<and> (k = 2 \<longrightarrow> i < wah_memory_index_limit m)"
  by (auto simp: decode_data_memory_def res_simps split: if_splits)

lemma data_segment_ok:
  assumes "parse_data_segment m bs = Inr (m', r)"
  shows "\<exists>x. data_ok m x \<and> same_entities (m\<lparr>data_segments := data_segments m @ [x], data_segment_count := data_segment_count m + 1\<rparr>) m'"
proof -
  from assms obtain k m1 cs i cs1 m2 cs2 d where f: "require_if (k \<noteq> 0) WAH_FEATURE_SHIFT_BULK_MEMORY m = Inr m1"
    and i: "decode_data_memory k m1 cs = Inr (i, cs1)"
    and e: "(if k = 0x00 \<or> k = 0x02 then WAH_ENSURE (i < wah_memory_index_limit m1) WAH_ERROR_VALIDATION_FAILED (
        WAH_CHECK (wah_compile_const_expr (mt_addr_type (wah_memory_type m1 i)) (wah_global_index_limit m1) m1 cs1) (\<lambda>(_, m, bs). Inr (m, bs)))
      else Inr (m1, cs1)) = Inr (m2, cs2)"
    and m': "m' = m2\<lparr>data_segments := data_segments m2 @ [\<lparr> ds_flags = k, ds_memory_idx = i, ds_data = d \<rparr>], data_segment_count := data_segment_count m2 + 1\<rparr>"
    unfolding parse_data_segment_def by (auto simp: res_simps simp del: if_split)
  have 1: "same_entities m m1" using f by (auto dest!: require_if_frame intro: same_entities_features)
  have 2: "same_entities m1 m2" "k = 0 \<or> k = 2 \<longrightarrow> i < wah_memory_index_limit m1"
    using e by (auto simp: res_simps split: if_splits dest: const_expr_entities(1))
  have m2: "same_entities m m2" using 1 2(1) by (rule same_entities_trans)
  have "data_ok m \<lparr> ds_flags = k, ds_memory_idx = i, ds_data = d \<rparr>"
    using data_memory_ok [OF i] 2(2) limits_same(3) [OF 1] by (auto simp: data_ok_def)
  moreover have "same_entities (m\<lparr>data_segments := data_segments m @ [\<lparr> ds_flags = k, ds_memory_idx = i, ds_data = d \<rparr>], data_segment_count := data_segment_count m + 1\<rparr>) m'"
    unfolding m' using same_entities_segments [OF m2] by simp
  ultimately show ?thesis by blast
qed

lemma data_section_ok:
  assumes "wah_parse_data_section m bs = Inr (m', r)"
  shows "m' = m \<and> (has_data_count_section m \<longrightarrow> data_segment_count m = 0)
    \<or> (\<exists>xs. same_entities (m\<lparr>data_segments := xs, data_segment_count := length xs\<rparr>) m' \<and> (\<forall>x \<in> set xs. data_ok m x)
        \<and> (has_data_count_section m \<longrightarrow> data_segment_count m = length xs))"
proof -
  let ?m = "\<lambda>xs. m\<lparr>data_segments := xs, data_segment_count := length xs\<rparr>"
  let ?P = "\<lambda>m' (_ :: bytes). \<exists>xs. same_entities (?m xs) m' \<and> (\<forall>x \<in> set xs. data_ok m x)"
  from assms consider "m' = m" "has_data_count_section m \<longrightarrow> data_segment_count m = 0"
    | n cs where "repeat_dec n parse_data_segment (?m []) cs = Inr (m', r)" "has_data_count_section m \<longrightarrow> data_segment_count m = n"
    by (auto simp: wah_parse_data_section_def res_simps split: if_splits)
  then show ?thesis
  proof cases
    case 2
    have step: "?P m2 cs2" if P: "?P m1 cs1" and run: "parse_data_segment m1 cs1 = Inr (m2, cs2)" for m1 cs1 m2 cs2
    proof -
      from P obtain xs where xs: "same_entities (?m xs) m1" "\<forall>x \<in> set xs. data_ok m x" by blast
      from data_segment_ok [OF run] obtain x where x: "data_ok m1 x"
        "same_entities (m1\<lparr>data_segments := data_segments m1 @ [x], data_segment_count := data_segment_count m1 + 1\<rparr>) m2" by blast
      have "data_ok m1 = data_ok (?m xs)" by (rule limits_same [OF xs(1)])
      also have "\<dots> = data_ok m" by (rule limits_cong) simp_all
      finally have "data_ok m x" using x(1) by simp
      moreover have "same_entities (?m (xs @ [x])) m2"
        using same_entities_trans [OF same_entities_segments(1) [OF xs(1)] x(2)] same_entities_segments(2,3) [OF xs(1)] by simp
      ultimately show ?thesis using xs(2) by (intro exI [of _ "xs @ [x]"]) auto
    qed
    have start: "?P (?m []) cs" by (intro exI [of _ "[]"]) simp
    have "?P m' r" by (rule repeat_dec_invariant [where P = ?P, OF step 2(1) start])
    then obtain xs where xs: "same_entities (?m xs) m'" "\<forall>x \<in> set xs. data_ok m x" by blast
    have "length (data_segments m2) = Suc (length (data_segments m1))" if "parse_data_segment m1 cs1 = Inr (m2, cs2)" for m1 cs1 m2 cs2
      using data_segment_ok [OF that] by (auto dest!: same_entities_cases)
    from repeat_dec_measure [where g = "\<lambda>m. length (data_segments m)", OF this 2(1)] have "length (data_segments m') = n" by simp
    moreover have "data_segments m' = xs" using xs(1) by (auto dest!: same_entities_cases)
    ultimately show ?thesis using xs 2(2) by blast
  qed simp
qed

section \<open>The order of the sections\<close>

definition module_wf :: "wah_module \<Rightarrow> bool" where
  "module_wf m \<longleftrightarrow> types_wf m \<and> imports_wf m \<and> descs_wf m \<and> defs_wf m \<and> uses_wf m"

text \<open>The announced number of data segments becomes the actual one in the data section.\<close>

definition data_stage :: "nat \<Rightarrow> wah_module \<Rightarrow> bool" where
  "data_stage k m \<longleftrightarrow> (k < 11 \<longrightarrow> \<not> has_data_count_section m) \<and> (k < 13 \<longrightarrow> data_segments m = [] \<and> (\<not> has_data_count_section m \<longrightarrow> data_segment_count m = 0))
     \<and> (13 \<le> k \<longrightarrow> data_segment_count m = length (data_segments m))"

text \<open>After the sections up to order \<open>k\<close>: what they established holds, and what comes later is still empty.\<close>

definition stage :: "nat \<Rightarrow> wah_module \<Rightarrow> bool" where
  "stage k m \<longleftrightarrow> module_wf m
     \<and> (k < 2 \<longrightarrow> mod_imports m = [] \<and> func_imports m = [] \<and> table_imports m = [] \<and> memory_imports m = [] \<and> global_imports m = [] \<and> tag_imports m = [])
     \<and> (k < 3 \<longrightarrow> function_type_indices m = []) \<and> (k < 4 \<longrightarrow> tables m = []) \<and> (k < 5 \<longrightarrow> memories m = []) \<and> (k < 6 \<longrightarrow> tags m = [])
     \<and> (k < 7 \<longrightarrow> globals m = []) \<and> (k < 8 \<longrightarrow> exports m = []) \<and> (k < 9 \<longrightarrow> \<not> has_start_function m)
     \<and> (k < 10 \<longrightarrow> element_segments m = []) \<and> data_stage k m"

lemma stage_mono: "stage k m \<Longrightarrow> k \<le> k' \<Longrightarrow> k' < 13 \<Longrightarrow> stage k' m"
  by (auto simp: stage_def data_stage_def)

lemma stage_same: "same_entities m m' \<Longrightarrow> stage k m' = stage k m"
proof -
  assume same: "same_entities m m'"
  then obtain f d n where m': "m' = m\<lparr>required_features := f, declared_funcs := d, min_data_segment_count_required := n\<rparr>" by (rule same_entitiesE)
  have "types_wf m' = types_wf m" by (rule types_wf_cong) (simp_all add: m')
  then have "module_wf m' = module_wf m" using same_entities_wf [OF same] same_entities_uses [OF same] by (simp add: module_wf_def)
  then show ?thesis unfolding stage_def data_stage_def by (simp add: m')
qed

lemma uses_wf_empty: "exports m = [] \<Longrightarrow> \<not> has_start_function m \<Longrightarrow> element_segments m = [] \<Longrightarrow> data_segments m = [] \<Longrightarrow> uses_wf m"
  by (simp add: uses_wf_def start_ok_def)

lemma wf_cong:
  assumes "types m' = types m" "type_defs m' = type_defs m" "mod_imports m' = mod_imports m" "func_imports m' = func_imports m"
    "table_imports m' = table_imports m" "memory_imports m' = memory_imports m" "global_imports m' = global_imports m" "tag_imports m' = tag_imports m"
  shows "imports_wf m' = imports_wf m" "descs_wf m' = descs_wf m" "types_wf m' = types_wf m"
proof -
  show "types_wf m' = types_wf m" by (rule types_wf_cong) fact+
  show "imports_wf m' = imports_wf m" using assms entity_ok_cong [OF assms(1,2)] by (simp add: imports_wf_def)
  have "import_name_at m' = import_name_at m" using assms by (intro ext) (simp add: import_name_at_def)
  then show "descs_wf m' = descs_wf m" using assms by (simp add: descs_wf_def)
qed

text \<open>A new array of definitions, before anything uses it.\<close>

lemma stage_defs:
  assumes "stage k m" "k < n" "n \<le> 7" "types m' = types m" "type_defs m' = type_defs m" "mod_imports m' = mod_imports m" "func_imports m' = func_imports m"
    "table_imports m' = table_imports m" "memory_imports m' = memory_imports m" "global_imports m' = global_imports m" "tag_imports m' = tag_imports m"
    "exports m' = exports m" "has_start_function m' = has_start_function m" "element_segments m' = element_segments m" "data_segments m' = data_segments m"
    "has_data_count_section m' = has_data_count_section m" "data_segment_count m' = data_segment_count m" "defs_wf m'" "2 \<le> n" "n < 3 \<longrightarrow> function_type_indices m' = []" "n < 4 \<longrightarrow> tables m' = []" "n < 5 \<longrightarrow> memories m' = []"
    "n < 6 \<longrightarrow> tags m' = []" "n < 7 \<longrightarrow> globals m' = []"
  shows "stage n m'"
proof -
  have "uses_wf m'" using assms(1-3,12-15) by (intro uses_wf_empty) (auto simp: stage_def data_stage_def)
  moreover have "data_stage n m'" using assms(1-3,15-17) by (auto simp: stage_def data_stage_def)
  moreover have "imports_wf m' = imports_wf m" "descs_wf m' = descs_wf m" "types_wf m' = types_wf m" by (rule wf_cong; fact)+
  ultimately show ?thesis using assms by (auto simp: stage_def module_wf_def)
qed

lemma defs_wf_array:
  assumes "stage k m"
  shows "\<forall>i \<in> set fs. func_type_ok m i \<Longrightarrow> defs_wf (m\<lparr>function_type_indices := fs\<rparr>)"
    "\<forall>t \<in> set ts. table_ok m t \<Longrightarrow> defs_wf (m\<lparr>tables := ts\<rparr>)"
    "\<forall>t \<in> set ms. memory_ok t \<Longrightarrow> defs_wf (m\<lparr>memories := ms\<rparr>)"
    "\<forall>i \<in> set tgs. tag_type_ok m i \<Longrightarrow> defs_wf (m\<lparr>tags := tgs\<rparr>)"
    "\<forall>g \<in> set vs. global_type_ok m (glob_type g) \<Longrightarrow> defs_wf (m\<lparr>globals := vs\<rparr>)"
  using assms by (simp_all add: stage_def module_wf_def defs_wf_def entity_defs)

lemma stage_functions: "stage k m \<Longrightarrow> k < 3 \<Longrightarrow> \<forall>i \<in> set xs. func_type_ok m i \<Longrightarrow> stage 3 (m\<lparr>function_type_indices := xs\<rparr>)"
  by (rule stage_defs [of k m 3], assumption, assumption) (use defs_wf_array(1) in \<open>auto simp: stage_def\<close>)

lemma stage_tables: "stage k m \<Longrightarrow> k < 4 \<Longrightarrow> \<forall>t \<in> set xs. table_ok m t \<Longrightarrow> stage 4 (m\<lparr>tables := xs\<rparr>)"
  by (rule stage_defs [of k m 4], assumption, assumption) (use defs_wf_array(2) in \<open>auto simp: stage_def\<close>)

lemma stage_memories: "stage k m \<Longrightarrow> k < 5 \<Longrightarrow> \<forall>t \<in> set xs. memory_ok t \<Longrightarrow> stage 5 (m\<lparr>memories := xs\<rparr>)"
  by (rule stage_defs [of k m 5], assumption, assumption) (use defs_wf_array(3) in \<open>auto simp: stage_def\<close>)

lemma stage_tags: "stage k m \<Longrightarrow> k < 6 \<Longrightarrow> \<forall>t \<in> set xs. tag_type_ok m t \<Longrightarrow> stage 6 (m\<lparr>tags := xs\<rparr>)"
  by (rule stage_defs [of k m 6], assumption, assumption) (use defs_wf_array(4) in \<open>auto simp: stage_def\<close>)

lemma stage_globals: "stage k m \<Longrightarrow> k < 7 \<Longrightarrow> \<forall>g \<in> set xs. global_type_ok m (glob_type g) \<Longrightarrow> stage 7 (m\<lparr>globals := xs\<rparr>)"
  by (rule stage_defs [of k m 7], assumption, assumption) (use defs_wf_array(5) in \<open>auto simp: stage_def\<close>)

text \<open>The sections after the definitions change nothing that an earlier section established.\<close>

lemma stage_uses:
  assumes "stage k m" "k < n" "8 \<le> n" "types m' = types m" "type_defs m' = type_defs m" "mod_imports m' = mod_imports m" "func_imports m' = func_imports m"
    "table_imports m' = table_imports m" "memory_imports m' = memory_imports m" "global_imports m' = global_imports m" "tag_imports m' = tag_imports m"
    "function_type_indices m' = function_type_indices m" "tables m' = tables m" "memories m' = memories m" "tags m' = tags m" "globals m' = globals m"
    "uses_wf m'" "n < 9 \<longrightarrow> \<not> has_start_function m'" "n < 10 \<longrightarrow> element_segments m' = []" "data_stage n m'"
  shows "stage n m'"
proof -
  have "imports_wf m' = imports_wf m" "descs_wf m' = descs_wf m" "types_wf m' = types_wf m" by (rule wf_cong; fact)+
  moreover have "defs_wf m' = defs_wf m" using assms(12-16) entity_ok_cong [OF assms(4,5)] by (simp add: defs_wf_def)
  ultimately show ?thesis using assms by (auto simp: stage_def module_wf_def)
qed

lemma start_ok_cong:
  assumes "func_imports m' = func_imports m" "function_type_indices m' = function_type_indices m" "types m' = types m"
    "has_start_function m' = has_start_function m" "start_function_idx m' = start_function_idx m"
  shows "start_ok m' = start_ok m"
  using assms by (simp add: start_ok_def wah_func_index_limit_def wah_resolve_func_type_def func_type_index_def)

lemma stage_exports:
  assumes "stage k m" "k < 8" "\<forall>e \<in> set xs. export_ok m e" shows "stage 8 (m\<lparr>exports := xs, export_order := o'\<rparr>)"
proof (rule stage_uses [OF assms(1,2)])
  have "export_ok (m\<lparr>exports := xs, export_order := o'\<rparr>) = export_ok m" by (rule limits_cong) simp_all
  then show "uses_wf (m\<lparr>exports := xs, export_order := o'\<rparr>)" using assms by (simp add: uses_wf_def start_ok_def stage_def data_stage_def)
qed (use assms in \<open>simp_all add: stage_def data_stage_def\<close>)

lemma stage_elements:
  assumes "stage k m" "k < 10" "\<forall>s \<in> set xs. element_ok m s" shows "stage 10 (m\<lparr>element_segments := xs\<rparr>)"
proof (rule stage_uses [OF assms(1,2)])
  let ?m = "m\<lparr>element_segments := xs\<rparr>"
  have "export_ok ?m = export_ok m" "element_ok ?m = element_ok m" "data_ok ?m = data_ok m" "start_ok ?m = start_ok m"
    by (rule limits_cong start_ok_cong; simp)+
  then show "uses_wf ?m" using assms by (simp add: uses_wf_def stage_def module_wf_def)
qed (use assms in \<open>simp_all add: stage_def data_stage_def\<close>)

lemma stage_data:
  assumes "stage k m" "k < 13" "\<forall>s \<in> set xs. data_ok m s" shows "stage 13 (m\<lparr>data_segments := xs, data_segment_count := length xs\<rparr>)"
proof (rule stage_uses [OF assms(1,2)])
  let ?m = "m\<lparr>data_segments := xs, data_segment_count := length xs\<rparr>"
  have "export_ok ?m = export_ok m" "element_ok ?m = element_ok m" "data_ok ?m = data_ok m" "start_ok ?m = start_ok m"
    by (rule limits_cong start_ok_cong; simp)+
  then show "uses_wf ?m" using assms by (simp add: uses_wf_def stage_def module_wf_def)
qed (simp_all add: data_stage_def)

lemma stage_datacount:
  assumes "stage k m" "k < 11" shows "stage 11 (m\<lparr>data_segment_count := n, has_data_count_section := True\<rparr>)"
proof (rule stage_uses [OF assms(1,2)])
  let ?m = "m\<lparr>data_segment_count := n, has_data_count_section := True\<rparr>"
  have "export_ok ?m = export_ok m" "element_ok ?m = element_ok m" "data_ok ?m = data_ok m" "start_ok ?m = start_ok m"
    by (rule limits_cong start_ok_cong; simp)+
  then show "uses_wf ?m" using assms by (simp add: uses_wf_def stage_def module_wf_def)
qed (use assms in \<open>simp_all add: stage_def data_stage_def\<close>)

lemma start_index_frame:
  "wah_func_index_limit (m\<lparr>start_function_idx := i\<rparr>) = wah_func_index_limit m" "func_type_index (m\<lparr>start_function_idx := i\<rparr>) = func_type_index m"
  by (auto simp: wah_func_index_limit_def func_type_index_def fun_eq_iff)

lemma stage_start:
  assumes "stage k m" "k < 9" "wah_parse_start_section m bs = Inr (m', r)" shows "stage 9 m'"
proof (rule stage_uses [OF assms(1,2)])
  from assms(3) obtain i where i: "i < wah_func_index_limit m" "ft_param_types (wah_resolve_func_type m i) = []" "ft_result_types (wah_resolve_func_type m i) = []"
    and m': "m' = m\<lparr>start_function_idx := i, has_start_function := True\<rparr>"
    by (auto simp: wah_parse_start_section_def Let_def res_simps start_index_frame wah_resolve_func_type_def)
  then have zero: "wah_resolve_func_type m i = func_type_zero" by (cases "wah_resolve_func_type m i") (simp add: func_type_zero_def)
  have "export_ok m' = export_ok m" "element_ok m' = element_ok m" "data_ok m' = data_ok m" "wah_func_index_limit m' = wah_func_index_limit m"
    unfolding m' by (rule limits_cong; simp)+
  moreover have "wah_resolve_func_type m' = wah_resolve_func_type m" by (intro ext) (simp add: m' wah_resolve_func_type_def func_type_index_def)
  ultimately show "uses_wf m'" using assms(1) i zero by (simp add: uses_wf_def start_ok_def stage_def module_wf_def m')
  show "types m' = types m" "type_defs m' = type_defs m" "mod_imports m' = mod_imports m" "func_imports m' = func_imports m"
    "table_imports m' = table_imports m" "memory_imports m' = memory_imports m" "global_imports m' = global_imports m" "tag_imports m' = tag_imports m"
    "function_type_indices m' = function_type_indices m" "tables m' = tables m" "memories m' = memories m" "tags m' = tags m" "globals m' = globals m"
    "(9::nat) < 10 \<longrightarrow> element_segments m' = []" "data_stage 9 m'"
    using assms(1,2) by (simp_all add: m' stage_def data_stage_def)
qed simp_all

lemma but_imports_fields:
  assumes "but_imports m' = but_imports m"
  shows "types m' = types m" "type_defs m' = type_defs m" "function_type_indices m' = function_type_indices m" "tables m' = tables m"
    "memories m' = memories m" "tags m' = tags m" "globals m' = globals m" "exports m' = exports m" "has_start_function m' = has_start_function m"
    "element_segments m' = element_segments m" "data_segments m' = data_segments m"
    "has_data_count_section m' = has_data_count_section m" "data_segment_count m' = data_segment_count m"
  using arg_cong [OF assms, of has_data_count_section] arg_cong [OF assms, of data_segment_count] arg_cong [OF assms, of types] arg_cong [OF assms, of type_defs] arg_cong [OF assms, of function_type_indices] arg_cong [OF assms, of tables] arg_cong [OF assms, of memories] arg_cong [OF assms, of tags] arg_cong [OF assms, of globals] arg_cong [OF assms, of exports] arg_cong [OF assms, of has_start_function] arg_cong [OF assms, of element_segments] arg_cong [OF assms, of data_segments]
  by (simp_all add: but_imports_def)

lemma but_types_fields:
  assumes "but_types m' = but_types m"
  shows "mod_imports m' = mod_imports m" "func_imports m' = func_imports m" "table_imports m' = table_imports m" "memory_imports m' = memory_imports m"
    "global_imports m' = global_imports m" "tag_imports m' = tag_imports m" "function_type_indices m' = function_type_indices m" "tables m' = tables m"
    "memories m' = memories m" "tags m' = tags m" "globals m' = globals m" "exports m' = exports m" "has_start_function m' = has_start_function m"
    "element_segments m' = element_segments m" "data_segments m' = data_segments m"
    "has_data_count_section m' = has_data_count_section m" "data_segment_count m' = data_segment_count m"
  using arg_cong [OF assms, of has_data_count_section] arg_cong [OF assms, of data_segment_count] arg_cong [OF assms, of mod_imports] arg_cong [OF assms, of func_imports] arg_cong [OF assms, of table_imports] arg_cong [OF assms, of memory_imports] arg_cong [OF assms, of global_imports] arg_cong [OF assms, of tag_imports] arg_cong [OF assms, of function_type_indices] arg_cong [OF assms, of tables] arg_cong [OF assms, of memories] arg_cong [OF assms, of tags] arg_cong [OF assms, of globals] arg_cong [OF assms, of exports] arg_cong [OF assms, of has_start_function] arg_cong [OF assms, of element_segments] arg_cong [OF assms, of data_segments]
  by (simp_all add: but_types_def)

lemma stage_types:
  assumes "stage 0 m" "but_types m' = but_types m" "types_wf m'" shows "stage (Suc 0) m'"
proof -
  note e = but_types_fields [OF assms(2)]
  have "imports_wf m'" "descs_wf m'" "defs_wf m'" using assms(1) e by (simp_all add: imports_wf_def descs_wf_def defs_wf_def stage_def)
  moreover have "uses_wf m'" using assms(1) e by (intro uses_wf_empty) (simp_all add: stage_def data_stage_def)
  ultimately show ?thesis using assms(1,3) e by (simp add: stage_def module_wf_def data_stage_def)
qed

lemma stage_imports:
  assumes "stage k m" "k < 2" "imports_wf m'" "descs_wf m'" "but_imports m' = but_imports m" shows "stage 2 m'"
proof -
  note e = but_imports_fields [OF assms(5)]
  have "defs_wf m'" using assms(1,2) e by (simp add: defs_wf_def stage_def)
  moreover have "uses_wf m'" using assms(1,2) e by (intro uses_wf_empty) (simp_all add: stage_def data_stage_def)
  moreover have "data_stage 2 m'" using assms(1,2) e by (simp add: stage_def data_stage_def)
  moreover have "types_wf m' = types_wf m" by (rule types_wf_cong) (fact e)+
  ultimately show ?thesis using assms e by (simp add: stage_def module_wf_def)
qed

section \<open>Each section and its stage\<close>

lemma custom_stage: "wah_parse_custom_section m bs = Inr (m', r) \<Longrightarrow> stage k m \<Longrightarrow> stage k m'"
  by (auto simp: wah_parse_custom_section_def res_simps)

lemma type_stage: "wah_parse_type_section m bs = Inr (m', r) \<Longrightarrow> stage 0 m \<Longrightarrow> stage (Suc 0) m'"
  using type_section_ok(1,2) by (intro stage_types type_section_frame) (auto simp: types_wf_def types_inv_def)

lemma code_stage: "wah_parse_code_section m bs = Inr ((m', bodies), r) \<Longrightarrow> stage k m \<Longrightarrow> k < 12 \<Longrightarrow> stage 12 m'"
  using code_section_ok [of m bs m' bodies r] stage_mono [of k m 12] stage_same [of m m' 12] by simp

lemma import_stage: "wah_parse_import_section m bs = Inr (m', r) \<Longrightarrow> stage k m \<Longrightarrow> k < 2 \<Longrightarrow> stage 2 m'"
  using import_section_ok [of m bs m' r] stage_imports [of k m m'] by (simp add: stage_def module_wf_def)

lemma function_stage:
  assumes "wah_parse_function_section m bs = Inr (m', r)" "stage k m" "k < 3" shows "stage 3 m'"
proof -
  from assms(1) obtain n cs where "repeat_dec n parse_function (m\<lparr>function_type_indices := []\<rparr>) cs = Inr (m', r)"
    by (auto simp: wah_parse_function_section_def res_simps)
  from fn_sec.items [OF this, of m] obtain xs where xs: "same_entities (m\<lparr>function_type_indices := xs\<rparr>) m'" "\<forall>i \<in> set xs. func_type_ok m i" by auto
  from stage_functions [OF assms(2,3) xs(2)] show ?thesis by (simp add: stage_same [OF xs(1)])
qed

lemma table_stage:
  assumes "wah_parse_table_section m bs = Inr (m', r)" "stage k m" "k < 4" shows "stage 4 m'"
proof -
  from assms(1) obtain n cs where "repeat_dec n parse_table (m\<lparr>tables := []\<rparr>) cs = Inr (m', r)"
    by (auto simp: wah_parse_table_section_def res_simps)
  from tab_sec.items [OF this, of m] obtain xs where xs: "same_entities (m\<lparr>tables := xs\<rparr>) m'" "\<forall>t \<in> set xs. table_ok m t" by auto
  from stage_tables [OF assms(2,3) xs(2)] show ?thesis by (simp add: stage_same [OF xs(1)])
qed

lemma memory_stage:
  assumes "wah_parse_memory_section m bs = Inr (m', r)" "stage k m" "k < 5" shows "stage 5 m'"
proof -
  from assms(1) obtain n cs c m1 where f: "require_if c WAH_FEATURE_SHIFT_MULTI_MEMORY m = Inr m1"
    and run: "repeat_dec n parse_memory (m1\<lparr>memories := []\<rparr>) cs = Inr (m', r)"
    by (auto simp: wah_parse_memory_section_def res_simps)
  have "same_entities (m\<lparr>memories := []\<rparr>) (m1\<lparr>memories := []\<rparr>)"
    by (intro same_entities_arrays same_entities_features require_if_frame [OF f])
  from mem_sec.items [OF run this] obtain xs where xs: "same_entities (m\<lparr>memories := xs\<rparr>) m'" "\<forall>t \<in> set xs. memory_ok t" by auto
  from stage_memories [OF assms(2,3) xs(2)] show ?thesis by (simp add: stage_same [OF xs(1)])
qed

lemma tag_stage:
  assumes "wah_parse_tag_section m bs = Inr (m', r)" "stage k m" "k < 6" shows "stage 6 m'"
proof -
  from assms(1) obtain n cs m1 where f: "wah_require_feature m WAH_FEATURE_SHIFT_EXCEPTION = Inr m1"
    and run: "repeat_dec n parse_tag (m1\<lparr>tags := []\<rparr>) cs = Inr (m', r)"
    by (auto simp: wah_parse_tag_section_def res_simps)
  have "same_entities (m\<lparr>tags := []\<rparr>) (m1\<lparr>tags := []\<rparr>)"
    by (intro same_entities_arrays same_entities_features require_feature_frame [OF f])
  from tag_sec.items [OF run this] obtain xs where xs: "same_entities (m\<lparr>tags := xs\<rparr>) m'" "\<forall>t \<in> set xs. tag_type_ok m t" by auto
  from stage_tags [OF assms(2,3) xs(2)] show ?thesis by (simp add: stage_same [OF xs(1)])
qed

lemma global_stage:
  assumes "wah_parse_global_section m bs = Inr ((m', deps), r)" "stage k m" "k < 7" shows "stage 7 m' \<and> length deps = length (globals m')"
proof -
  from assms(1) obtain n cs where "repeat_dec n parse_global (m\<lparr>globals := []\<rparr>, []) cs = Inr ((m', deps), r)"
    by (auto simp: wah_parse_global_section_def res_simps)
  from parse_global_only [OF this] have run: "repeat_dec n parse_global_only (m\<lparr>globals := []\<rparr>) cs = Inr (m', r)" and n: "length deps = n" by simp_all
  from glob_sec.items [OF run, of m] obtain xs where xs: "same_entities (m\<lparr>globals := xs\<rparr>) m'" "\<forall>g \<in> set xs. global_type_ok m (glob_type g)"
    "length xs = n" by auto
  have "globals m' = xs" using same_entities_arrays(12) [OF xs(1)] by simp
  with stage_globals [OF assms(2,3) xs(2)] n xs(3) show ?thesis by (simp add: stage_same [OF xs(1)])
qed

lemma export_stage:
  assumes "wah_parse_export_section m bs = Inr (m', r)" "stage k m" "k < 8" shows "stage 8 m'"
proof -
  from assms(1) obtain n cs m1 where run: "repeat_dec n parse_export (m\<lparr>exports := []\<rparr>) cs = Inr (m1, r)" and s: "sort_exports m1 = Inr m'"
    by (auto simp: wah_parse_export_section_def res_simps)
  from exp_sec.items [OF run, of m] obtain xs where xs: "same_entities (m\<lparr>exports := xs\<rparr>) m1" "\<forall>e \<in> set xs. export_ok m e" by auto
  obtain f d j where m1: "m1 = m\<lparr>exports := xs, required_features := f, declared_funcs := d, min_data_segment_count_required := j\<rparr>"
    and le: "min_data_segment_count_required m \<le> j" using same_entities_cases [OF xs(1)] by auto
  obtain o' where "m' = m1\<lparr>export_order := o'\<rparr>"
    using s that [of "export_order m1"] by (auto simp: sort_exports_def Let_def res_simps split: if_splits)
  then have "same_entities (m\<lparr>exports := xs, export_order := o'\<rparr>) m'" using le by (simp add: m1 same_entities_def)
  from stage_same [OF this] stage_exports [OF assms(2,3) xs(2)] show ?thesis by simp
qed

lemma element_stage:
  assumes "wah_parse_element_section m bs = Inr (m', r)" "stage k m" "k < 10" shows "stage 10 m'"
proof -
  from assms(1) obtain n cs where "repeat_dec n parse_element_segment (m\<lparr>element_segments := []\<rparr>) cs = Inr (m', r)"
    by (auto simp: wah_parse_element_section_def res_simps)
  from elem_sec.items [OF this, of m] obtain xs where xs: "same_entities (m\<lparr>element_segments := xs\<rparr>) m'" "\<forall>s \<in> set xs. element_ok m s" by auto
  from stage_elements [OF assms(2,3) xs(2)] show ?thesis by (simp add: stage_same [OF xs(1)])
qed

lemma datacount_stage:
  assumes "wah_parse_datacount_section m bs = Inr (m', r)" "stage k m" "k < 11" shows "stage 11 m'"
proof -
  from assms(1) obtain n m1 where f: "wah_require_feature m WAH_FEATURE_SHIFT_BULK_MEMORY = Inr m1"
    and m': "m' = m1\<lparr>data_segment_count := n, has_data_count_section := True\<rparr>"
    by (auto simp: wah_parse_datacount_section_def res_simps)
  have "stage k m1" using assms(2) stage_same [OF same_entities_features [OF require_feature_frame [OF f]]] by simp
  from stage_datacount [OF this assms(3)] show ?thesis by (simp add: m')
qed

lemma data_section_stage:
  assumes "wah_parse_data_section m bs = Inr (m', r)" "stage k m" "k < 13" shows "stage 13 m'"
proof -
  from data_section_ok [OF assms(1)] consider (same) "m' = m" "has_data_count_section m \<longrightarrow> data_segment_count m = 0"
    | (segments) xs where "same_entities (m\<lparr>data_segments := xs, data_segment_count := length xs\<rparr>) m'" "\<forall>x \<in> set xs. data_ok m x" by blast
  then show ?thesis
  proof cases
    case same
    have "stage 12 m" using stage_mono [OF assms(2)] assms(3) by simp
    then show ?thesis using same by (cases "has_data_count_section m") (simp_all add: stage_def data_stage_def)
  next
    case segments
    with stage_data [OF assms(2,3)] show ?thesis by (simp add: stage_same)
  qed
qed

text \<open>
  The segments that the bodies name: the code section checks them against the announced number and raises the required
  number, and the data section, which comes later, keeps the announced number.
\<close>

lemma data_section_counts:
  assumes "wah_parse_data_section m bs = Inr (m', r)" "data_stage k m" "k < 13"
  shows "min_data_segment_count_required m \<le> min_data_segment_count_required m' \<and> data_segment_count m \<le> data_segment_count m'"
  using data_section_ok [OF assms(1)] assms(2,3) by (auto simp: data_stage_def dest!: same_entities_cases)

definition bodies_ok :: "nat \<Rightarrow> wah_parsed_module \<Rightarrow> bool" where
  "bodies_ok k p \<longleftrightarrow> (k < 12 \<longrightarrow> pm_code_bodies p = []) \<and> (\<forall>b \<in> set (pm_code_bodies p). module_data_ok (pm_module p) b)"

lemma early_bodies: "bodies_ok k p \<Longrightarrow> k < 12 \<Longrightarrow> pm_code_bodies p' = pm_code_bodies p \<Longrightarrow> bodies_ok k' p'"
  by (simp add: bodies_ok_def)

section \<open>The driver\<close>

text \<open>The bodies and the dependencies of the globals come with the module.\<close>

lemma section_stage:
  assumes "(section_handlers ! i) p bs = Inr (p', r)" "i < 14" "stage k (pm_module p)" "i = 0 \<longrightarrow> k' = k" "i \<noteq> 0 \<longrightarrow> k < section_order ! i \<and> k' = section_order ! i"
  shows "stage k' (pm_module p')"
proof -
  have "i \<in> {0, 1, 2, 3, 4, 5, 6, 7, 8, 9, 10, 11, 12, 13}" using assms(2) by (simp only: insert_iff empty_iff) presburger
  then show ?thesis
    using assms(1,3-5)
    by (auto simp: section_handlers_def section_order_def on_module_def res_simps)
      (blast dest: custom_stage type_stage import_stage function_stage table_stage memory_stage tag_stage global_stage export_stage stage_start
        element_stage datacount_stage data_section_stage code_stage)+
qed

lemma on_module_bodies: "on_module f p bs = Inr (p', r) \<Longrightarrow> pm_code_bodies p' = pm_code_bodies p \<and> f (pm_module p) bs = Inr (pm_module p', r)"
  by (auto simp: on_module_def res_simps)

lemma section_bodies:
  assumes "(section_handlers ! i) p bs = Inr (p', r)" "i < 14" "stage k (pm_module p)" "i = 0 \<longrightarrow> k' = k" "i \<noteq> 0 \<longrightarrow> k < section_order ! i \<and> k' = section_order ! i"
    and bodies: "bodies_ok k p"
  shows "bodies_ok k' p'"
proof -
  have "i \<in> {0, 1, 2, 3, 4, 5, 6, 7, 8, 9, 10, 11, 12, 13}" using assms(2) by (simp only: insert_iff empty_iff) presburger
  then consider "i = 0" | "i = 10" | "i = 11" | "i \<in> {1, 2, 3, 4, 5, 6, 7, 8, 9, 12, 13}" by blast
  then show ?thesis
  proof cases
    case 1
    then show ?thesis using assms(1,4) bodies
      by (auto simp: section_handlers_def wah_parse_custom_section_def res_simps bodies_ok_def dest!: on_module_bodies)
  next
    case 2
    then obtain m' bodies' where c: "wah_parse_code_section (pm_module p) bs = Inr ((m', bodies'), r)" and p': "p' = p\<lparr>pm_module := m', pm_code_bodies := bodies'\<rparr>"
      using assms(1) by (auto simp: section_handlers_def res_simps)
    then show ?thesis using code_section_ok [OF c] 2 assms(5) by (simp add: bodies_ok_def section_order_def)
  next
    case 3
    then have d: "wah_parse_data_section (pm_module p) bs = Inr (pm_module p', r)" "pm_code_bodies p' = pm_code_bodies p"
      using assms(1) by (auto simp: section_handlers_def dest!: on_module_bodies)
    have k: "k < 13" "k' = 13" using 3 assms(5) by (simp_all add: section_order_def)
    have "data_stage k (pm_module p)" using assms(3) by (simp add: stage_def)
    note le = data_section_counts [OF d(1) this k(1)]
    have "module_data_ok (pm_module p') b" if "b \<in> set (pm_code_bodies p')" for b
      by (rule body_data_mono [of "min_data_segment_count_required (pm_module p)" "data_segment_count (pm_module p)"]) (use that bodies d(2) le in \<open>simp_all add: bodies_ok_def\<close>)
    then show ?thesis using k(2) by (simp add: bodies_ok_def)
  next
    case 4
    have "pm_code_bodies p' = pm_code_bodies p"
      using 4 assms(1) by (auto simp: section_handlers_def res_simps dest!: on_module_bodies)
    moreover have "k < 12" using 4 assms(5) by (auto simp: section_order_def)
    ultimately show ?thesis using bodies by (blast intro: early_bodies)
  qed
qed

lemma parse_section_stage:
  assumes "parse_section (k, p) bs = Inr ((k', p'), rest)" "stage k (pm_module p)"
  shows "stage k' (pm_module p')" "bodies_ok k p \<Longrightarrow> bodies_ok k' p'"
proof -
  from assms(1) obtain i sz cs r where h: "i < length section_order"
    and k': "(if i \<noteq> 0 then WAH_ENSURE (section_order ! i > k) WAH_ERROR_MALFORMED (Inr (section_order ! i)) else Inr k) = Inr k'"
    and run: "(section_handlers ! i) p (take sz cs) = Inr (p', r)"
    unfolding parse_section_def by (auto simp: res_simps simp del: if_split)
  have i: "i < 14" "i = 0 \<longrightarrow> k' = k" "i \<noteq> 0 \<longrightarrow> k < section_order ! i \<and> k' = section_order ! i"
    using h k' by (auto simp: section_order_def res_simps split: if_splits)
  show "stage k' (pm_module p')" by (rule section_stage [OF run i(1) assms(2) i(2,3)])
  show "bodies_ok k' p'" if "bodies_ok k p" by (rule section_bodies [OF run i(1) assms(2) i(2,3) that])
qed

lemma parse_sections_stage:
  "parse_sections s bs = Inr s' \<Longrightarrow> stage (fst s) (pm_module (snd s)) \<Longrightarrow> bodies_ok (fst s) (snd s) \<Longrightarrow>
   stage (fst s') (pm_module (snd s')) \<and> bodies_ok (fst s') (snd s')"
proof (induction s bs rule: parse_sections.induct)
  case (1 s bs)
  show ?case
  proof (cases "bs = []")
    case True
    then show ?thesis using "1.prems" by (simp add: parse_sections.simps)
  next
    case False
    with "1.prems"(1) obtain t rest where t: "parse_section s bs = Inr (t, rest)" "parse_sections t rest = Inr s'"
      by (subst (asm) parse_sections.simps) (auto split: sum.splits)
    have "stage (fst t) (pm_module (snd t))" "bodies_ok (fst t) (snd t)"
      using parse_section_stage [of "fst s" "snd s" bs "fst t" "snd t" rest] t(1) "1.prems"(2,3) by simp_all
    then show ?thesis using "1.IH" [OF False t(1) refl t(2)] by simp
  qed
qed

lemma initial_stage: "stage 0 (initial_module opts)"
  by (simp add: stage_def module_wf_def types_wf_def wf_types_def imports_wf_def descs_wf_def defs_wf_def uses_wf_def start_ok_def initial_module_def
      wah_module_zero_def data_stage_def)

lemma finish_module_ok:
  assumes "finish_module p = Inr p'"
  shows "same_entities (pm_module p) (pm_module p') \<and> pm_code_bodies p' = pm_code_bodies p \<and> pm_global_deps p' = pm_global_deps p
    \<and> length (function_type_indices (pm_module p)) = length (pm_code_bodies p)
    \<and> length (pm_functions p') = length (function_type_indices (pm_module p'))"
proof -
  have "features_only (pm_module p) (pm_module p')"
    using assms by (auto simp: finish_module_def Let_def res_simps dest!: require_if_frame intro: features_only_trans)
  then show ?thesis using assms same_entities_features by (auto simp: finish_module_def Let_def res_simps)
qed

text \<open>C14: The declarations of a module that \<open>wah_parse_module\<close> accepts are well formed, whatever the order and contents of its
  sections: the type table is well formed; every function, import and tag has a function type that exists; the types of
  tables and globals exist; the limits of memories and tables are in range; import descriptions and the per-kind
  entries agree on the names; the indices of exports, of the start function, of the tables of active element segments, of
  the functions in element segments and of the memories of active data segments are below their limits; the element type
  of every element segment is a reference type that exists and, where the segment is active, fits the type of its table;
  the start function takes and returns nothing; and there is one body and one function for every declared function.\<close>

theorem parse_module_wf:
  assumes "wah_parse_module opts bs = Inr p"
  shows "module_wf (pm_module p) \<and> length (pm_code_bodies p) = length (function_type_indices (pm_module p))
    \<and> length (pm_functions p) = length (function_type_indices (pm_module p))"
proof -
  let ?p0 = "\<lparr> pm_module = initial_module opts, pm_code_bodies = [], pm_global_deps = [], pm_functions = [] \<rparr>"
  from assms obtain k p1 where run: "parse_sections (0, ?p0) (drop 8 bs) = Inr (k, p1)" and fin: "finish_module p1 = Inr p"
    by (auto simp: wah_parse_module_def res_simps)
  have st: "stage k (pm_module p1)" using parse_sections_stage [OF run] initial_stage by (simp add: bodies_ok_def)
  note fin' = finish_module_ok [OF fin]
  have "stage k (pm_module p)" using st fin' stage_same [of "pm_module p1" "pm_module p" k] by blast
  then show ?thesis using fin' same_entities_arrays(8) [of "pm_module p1" "pm_module p"] by (simp add: stage_def)
qed

lemma finish_module_data:
  assumes "finish_module p = Inr p'"
  shows "min_data_segment_count_required (pm_module p') \<le> data_segment_count (pm_module p')
    \<and> (has_data_count_section (pm_module p') \<and> data_segment_count (pm_module p') > 0 \<longrightarrow> data_segments (pm_module p') \<noteq> [])"
proof -
  have "features_only (pm_module p) (pm_module p')"
    using assms by (auto simp: finish_module_def Let_def res_simps dest!: require_if_frame intro: features_only_trans)
  then obtain f where "pm_module p' = (pm_module p)\<lparr>required_features := f\<rparr>" by (rule features_onlyE)
  then show ?thesis using assms by (auto simp: finish_module_def Let_def res_simps)
qed

text \<open>C19: The data segments are the ones the code was validated against. In an accepted module \<open>data_segment_count\<close> is the
  number of parsed segments, whether or not a data count section announced it, and every \<open>memory.init\<close>, \<open>data.drop\<close>,
  \<open>array.new_data\<close> and \<open>array.init_data\<close> in a body names a segment that exists, although the bodies come before the
  segments: the first two against the number the bodies require, the others against the announced one.\<close>

theorem data_segments_consistent:
  assumes "wah_parse_module opts bs = Inr p"
  shows "data_segment_count (pm_module p) = length (data_segments (pm_module p))
    \<and> (\<forall>b \<in> set (pm_code_bodies p). body_data_ok (length (data_segments (pm_module p))) (length (data_segments (pm_module p))) b)"
proof -
  let ?p0 = "\<lparr> pm_module = initial_module opts, pm_code_bodies = [], pm_global_deps = [], pm_functions = [] \<rparr>" and ?m = "pm_module p"
  from assms obtain k p1 where run: "parse_sections (0, ?p0) (drop 8 bs) = Inr (k, p1)" and fin: "finish_module p1 = Inr p"
    by (auto simp: wah_parse_module_def res_simps)
  have st: "stage k (pm_module p1)" "bodies_ok k p1" using parse_sections_stage [OF run] initial_stage by (simp_all add: bodies_ok_def)
  note fin' = finish_module_ok [OF fin] finish_module_data [OF fin]
  have "data_stage k ?m" using fin' st(1) stage_same [of "pm_module p1" ?m k] by (simp add: stage_def)
  then have count: "data_segment_count ?m = length (data_segments ?m)"
    using fin' by (cases "k < 13"; cases "has_data_count_section ?m") (auto simp: data_stage_def)
  have "module_data_ok ?m b" if "b \<in> set (pm_code_bodies p)" for b
    using that st(2) fin' by (auto simp: bodies_ok_def intro: module_data_mono)
  then show ?thesis using count fin' by (auto intro: body_data_mono)
qed

section \<open>The sequence of sections\<close>

text \<open>The ids of the sections of a binary, found by skipping from header to header.\<close>

function section_ids :: "bytes \<Rightarrow> nat list option" where
  "section_ids bs =
    (if bs = [] then Some []
     else case wah_read_section_header bs of
       Inl e \<Rightarrow> None
     | Inr ((i, sz), rest) \<Rightarrow> if sz \<le> length rest then map_option (Cons i) (section_ids (drop sz rest)) else None)"
  by pat_completeness auto
termination
  by (relation "measure length") (auto simp: wah_read_section_header_def res_simps dest!: uleb32.dec_shorter)

declare section_ids.simps [simp del]

lemma parse_section_header:
  assumes "parse_section (k, p) bs = Inr ((k', p'), rest)"
  obtains i sz cs where "wah_read_section_header bs = Inr ((i, sz), cs)" "i < 14" "sz \<le> length cs" "rest = drop sz cs"
    "i = 0 \<and> k' = k \<or> i \<noteq> 0 \<and> k < section_order ! i \<and> k' = section_order ! i"
  using assms unfolding parse_section_def by (auto simp: res_simps section_order_def split: if_splits)

lemma parse_sections_ids:
  "parse_sections s bs = Inr s' \<Longrightarrow> \<exists>ids. section_ids bs = Some ids \<and> (\<forall>i \<in> set ids. i < 14)
    \<and> sorted_wrt (<) (fst s # map ((!) section_order) (filter (\<lambda>i. i \<noteq> 0) ids))"
proof (induction s bs rule: parse_sections.induct)
  case (1 s bs)
  show ?case
  proof (cases "bs = []")
    case True
    then show ?thesis by (simp add: section_ids.simps)
  next
    case False
    with "1.prems" obtain t rest where t: "parse_section s bs = Inr (t, rest)" "parse_sections t rest = Inr s'"
      by (subst (asm) parse_sections.simps) (auto split: sum.splits)
    from "1.IH" [OF False t(1) refl t(2)] obtain ids where ids: "section_ids rest = Some ids" "\<forall>i \<in> set ids. i < 14"
      "sorted_wrt (<) (fst t # map ((!) section_order) (filter (\<lambda>i. i \<noteq> 0) ids))" by blast
    from t(1) obtain i sz cs where h: "wah_read_section_header bs = Inr ((i, sz), cs)" "i < 14" "sz \<le> length cs" "rest = drop sz cs"
      "i = 0 \<and> fst t = fst s \<or> i \<noteq> 0 \<and> fst s < section_order ! i \<and> fst t = section_order ! i"
      using parse_section_header [of "fst s" "snd s" bs "fst t" "snd t" rest] by auto
    have "section_ids bs = Some (i # ids)" using False h(1,3,4) ids(1) by (subst section_ids.simps) simp
    moreover have "sorted_wrt (<) (fst s # map ((!) section_order) (filter (\<lambda>i. i \<noteq> 0) (i # ids)))" using h(5) ids(3) by auto
    ultimately show ?thesis using h(2) ids(2) by auto
  qed
qed

text \<open>C17: Sections come in order, each at most once: the sections of an accepted binary have known ids, and the orders of those
  that are not custom sections strictly increase, so that no section other than a custom one is repeated.\<close>

theorem sections_in_order:
  assumes "wah_parse_module opts bs = Inr p"
  shows "\<exists>ids. section_ids (drop 8 bs) = Some ids \<and> (\<forall>i \<in> set ids. i < 14)
    \<and> sorted_wrt (<) (map ((!) section_order) (filter (\<lambda>i. i \<noteq> 0) ids)) \<and> distinct (filter (\<lambda>i. i \<noteq> 0) ids)"
proof -
  from assms obtain s p0 where "parse_sections (0, p0) (drop 8 bs) = Inr s" by (auto simp: wah_parse_module_def res_simps)
  from parse_sections_ids [OF this] obtain ids where ids: "section_ids (drop 8 bs) = Some ids" "\<forall>i \<in> set ids. i < 14"
    "sorted_wrt (<) (map ((!) section_order) (filter (\<lambda>i. i \<noteq> 0) ids))" by auto
  have "distinct (map ((!) section_order) (filter (\<lambda>i. i \<noteq> 0) ids))" using ids(3) by (simp add: strict_sorted_iff)
  then show ?thesis using ids by (auto simp: distinct_map)
qed

end
