(* ===== verification/Wah_Parse_Examples.thy ===== *)
theory Wah_Parse_Examples
  imports Wah_Parse_Inv
begin

text \<open>
  A binary with a memory, an export and a data count, parsed step by step: the theorems of \<open>Wah_Parse\<close> and
  \<open>Wah_Parse_Inv\<close> apply to it.
\<close>


text \<open>A memory of one page, exported as \<open>m\<close>, and a data count of 0.\<close>

definition demo_binary :: bytes where
  "demo_binary = [0x00, 0x61, 0x73, 0x6D, 0x01, 0x00, 0x00, 0x00, 0x05, 0x03, 0x01, 0x00, 0x01, 0x07, 0x05, 0x01, 0x01, 0x6D, 0x02, 0x00, 0x0C, 0x01, 0x00]"

definition demo_memory :: wah_memory_type_t where
  "demo_memory = \<lparr>mt_addr_type = -2, mt_min_pages = 1, mt_max_pages = UINT64_MAX\<rparr>"

definition demo_mem_module :: wah_module where
  "demo_mem_module = (initial_module None)\<lparr>memories := [demo_memory]\<rparr>"

definition demo_exp_module :: wah_module where
  "demo_exp_module = demo_mem_module\<lparr>exports := [\<lparr>exp_name = [0x6D], exp_kind = 2, exp_index = 0\<rparr>], export_order := [0]\<rparr>"

lemma small_uleb [simp]: "wah_decode_uleb128 (0 # bs) = Inr (0, bs)" "wah_decode_uleb128 (1 # bs) = Inr (1, bs)"
  "wah_decode_uleb128 (3 # bs) = Inr (3, bs)" "wah_decode_uleb128 (5 # bs) = Inr (5, bs)"
  using uleb_byte [of 0 bs] uleb_byte [of 1 bs] uleb_byte [of 3 bs] uleb_byte [of 5 bs] by simp_all

lemma small_uleb_64: "wah_decode_uleb128_64 (1 # bs) = Inr (1, bs)"
proof -
  have "uleb128_64_loop (Suc 9) 0 0 (1 # bs) = Inr (1, bs)" by (subst uleb128_64_loop.simps) simp
  then show ?thesis by (simp add: wah_decode_uleb128_64_def)
qed

lemma demo_memory_section: "wah_parse_memory_section (initial_module None) [1, 0, 1] = Inr (demo_mem_module, [])"
  by (simp add: wah_parse_memory_section_def wah_decode_and_validate_count_def initial_module_def wah_module_zero_def require_if_def parse_memory_def
      decode_memory_type_def decode_max_def memory_page_limit_def demo_mem_module_def demo_memory_def small_uleb_64)

lemma demo_mem_limit: "wah_memory_index_limit demo_mem_module = 1"
  by (simp add: wah_memory_index_limit_def u32_add_def demo_mem_module_def initial_module_def wah_module_zero_def)

lemma demo_export_section: "wah_parse_export_section demo_mem_module [1, 1, 0x6D, 2, 0] = Inr (demo_exp_module, [])"
proof -
  have limit: "wah_memory_index_limit (demo_mem_module\<lparr>exports := []\<rparr>) = 1"
    using demo_mem_limit by (simp add: wah_memory_index_limit_def)
  have entry: "parse_export (demo_mem_module\<lparr>exports := []\<rparr>) [1, 0x6D, 2, 0]
      = Inr (demo_mem_module\<lparr>exports := [\<lparr>exp_name = [0x6D], exp_kind = 2, exp_index = 0\<rparr>]\<rparr>, [])"
    by (simp add: parse_export_def wah_parse_name_def check_export_def limit)
  have sort: "sort_exports (demo_mem_module\<lparr>exports := [\<lparr>exp_name = [0x6D], exp_kind = 2, exp_index = 0\<rparr>]\<rparr>) = Inr demo_exp_module"
    by (simp add: sort_exports_def qsort_def demo_exp_module_def)
  show ?thesis by (simp add: wah_parse_export_section_def wah_decode_and_validate_count_def entry sort)
qed

definition demo_parsed :: wah_parsed_module where
  "demo_parsed = \<lparr> pm_module = demo_exp_module\<lparr>required_features := 32, data_segment_count := 0, has_data_count_section := True\<rparr>,
     pm_code_bodies = [], pm_global_deps = [], pm_functions = [] \<rparr>"

lemma demo_features: "enabled_features demo_exp_module AND 32 \<noteq> 0" "required_features demo_exp_module = 0"
  by (simp_all add: demo_exp_module_def demo_mem_module_def initial_module_def wah_module_zero_def requested_features_def wah_feature_closure_def)

lemma demo_datacount_section: "wah_parse_datacount_section demo_exp_module [0] = Inr (pm_module demo_parsed, [])"
  using demo_features by (simp add: wah_parse_datacount_section_def wah_require_feature_def Let_def demo_parsed_def)

abbreviation demo_state :: "wah_module \<Rightarrow> wah_parsed_module" where
  "demo_state m \<equiv> \<lparr> pm_module = m, pm_code_bodies = [], pm_global_deps = [], pm_functions = [] \<rparr>"

lemma demo_step_1: "parse_section (0, demo_state (initial_module None)) (5 # 3 # 1 # 0 # 1 # bs) = Inr ((5, demo_state demo_mem_module), bs)"
  by (simp add: parse_section_def wah_read_section_header_def section_order_def section_handlers_def on_module_def demo_memory_section)

lemma demo_step_2: "parse_section (5, demo_state demo_mem_module) (7 # 5 # 1 # 1 # 0x6D # 2 # 0 # bs) = Inr ((8, demo_state demo_exp_module), bs)"
  by (simp add: parse_section_def wah_read_section_header_def section_order_def section_handlers_def on_module_def demo_export_section)

lemma demo_step_3: "parse_section (8, demo_state demo_exp_module) [12, 1, 0] = Inr ((11, demo_parsed), [])"
  by (simp add: parse_section_def wah_read_section_header_def section_order_def section_handlers_def on_module_def demo_datacount_section)
    (simp add: demo_parsed_def)

lemma demo_finish: "finish_module demo_parsed = Inr demo_parsed"
  by (simp add: finish_module_def demo_parsed_def demo_exp_module_def demo_mem_module_def initial_module_def wah_module_zero_def require_if_def
      wah_table_index_limit_def u32_add_def)

lemma demo_parse: "wah_parse_module None demo_binary = Inr demo_parsed"
proof -
  have "parse_sections (0, demo_state (initial_module None)) (drop 8 demo_binary) = Inr (11, demo_parsed)"
    by (simp add: demo_binary_def parse_sections.simps demo_step_1 demo_step_2 demo_step_3)
  then show ?thesis by (simp add: wah_parse_module_def demo_finish) (simp add: demo_binary_def wah_read_u32_le_def)
qed

theorem parse_module_wf_witness: "wah_parse_module None demo_binary = Inr demo_parsed \<and> module_wf (pm_module demo_parsed)"
  using parse_module_wf [OF demo_parse] demo_parse by blast

theorem data_segments_consistent_witness:
  "wah_parse_module None demo_binary = Inr demo_parsed \<and> data_segment_count (pm_module demo_parsed) = length (data_segments (pm_module demo_parsed))"
  using data_segments_consistent [OF demo_parse] demo_parse by blast

theorem sections_in_order_witness:
  "\<exists>ids. section_ids (drop 8 demo_binary) = Some ids \<and> sorted_wrt (<) (map ((!) section_order) (filter (\<lambda>i. i \<noteq> 0) ids))"
  using sections_in_order [OF demo_parse] by blast

theorem export_lookup_witness:
  "wah_parse_export_section demo_mem_module [1, 1, 0x6D, 2, 0] = Inr (demo_exp_module, [])
    \<and> wah_find_export_by_name demo_exp_module [0x6D] = Some \<lparr>exp_name = [0x6D], exp_kind = 2, exp_index = 0\<rparr>"
  using export_lookup [OF demo_export_section, of "[0x6D]"] demo_export_section by (simp add: demo_exp_module_def)

end
