(* ===== verification/Wah_Runtime.thy ===== *)
theory Wah_Runtime
  imports Wah_Parse
begin

text \<open>
  The state of running contexts, as far as the garbage collector reads and writes it: values, objects with their
  tagged headers, heaps, call frames, tables, pins, links between contexts.

  Pointers are kept as addresses. An object is named by the address of its header, a reference by the address of the
  payload after it; \<open>NULL\<close> is 0. Value slots (operands, locals, globals, table elements) live in one memory, so that
  a pointer to a slot, such as the indirection of an imported mutable global, is an address in it. Contexts and heaps
  are named by numbers. Only the fields that these operations use are in the records.
\<close>

section \<open>Values and references\<close>

type_synonym wah_value = "128 word"

definition value_ref :: "wah_value \<Rightarrow> u64" where
  "value_ref v = ucast v"

abbreviation (input) "WAH_I31_TAG \<equiv> 1 :: u64"

definition wah_ref_is_i31 :: "u64 \<Rightarrow> bool" where
  "wah_ref_is_i31 ref \<longleftrightarrow> ref AND WAH_I31_TAG \<noteq> 0"

definition wah_ref_make_i31 :: "u32 \<Rightarrow> u64" where
  "wah_ref_make_i31 val = push_bit 1 (ucast (val AND 0x7FFFFFFF)) OR WAH_I31_TAG"

definition wah_ref_i31_get_u :: "u64 \<Rightarrow> u32" where
  "wah_ref_i31_get_u ref = ucast (drop_bit 1 ref) AND 0x7FFFFFFF"

definition wah_ref_i31_get_s :: "u64 \<Rightarrow> u32" where
  "wah_ref_i31_get_s ref =
    (let val = wah_ref_i31_get_u ref in if val AND 0x40000000 \<noteq> 0 then val OR 0x80000000 else val)"

section \<open>Objects\<close>

abbreviation (input) "WAH_REPR_HOST \<equiv> -0x42 :: int"

text \<open>The sizes of \<open>wah_gc_object_t\<close>, \<open>wah_value_t\<close>, \<open>wah_exception_t\<close> and \<open>wah_gc_array_body_t\<close>.\<close>

abbreviation (input) "GC_HEADER_SIZE \<equiv> 24 :: nat"
abbreviation (input) "VALUE_SIZE \<equiv> 16 :: nat"
abbreviation (input) "EXCEPTION_FIELDS_SIZE \<equiv> 16 :: nat"
abbreviation (input) "ARRAY_BODY_SIZE \<equiv> 8 :: nat"

text \<open>An object is its header and the bytes after it.\<close>

record wah_gc_object =
  go_next_tagged :: u64
  go_repr_id :: int
  go_size_bytes :: nat
  go_module :: "wah_module option"
  go_payload :: bytes

abbreviation (input) "WAH_GC_TAG_MARK \<equiv> 1 :: u64"
abbreviation (input) "WAH_GC_TAG_AUX \<equiv> 2 :: u64"
abbreviation (input) "WAH_GC_TAG_MASK \<equiv> 3 :: u64"

definition wah_gc_next :: "wah_gc_object \<Rightarrow> u64" where
  "wah_gc_next ob = go_next_tagged ob AND NOT WAH_GC_TAG_MASK"

definition wah_gc_set_next :: "u64 \<Rightarrow> wah_gc_object \<Rightarrow> wah_gc_object" where
  "wah_gc_set_next next ob = ob\<lparr>go_next_tagged := next OR (go_next_tagged ob AND WAH_GC_TAG_MASK)\<rparr>"

definition wah_gc_marked :: "wah_gc_object \<Rightarrow> bool" where
  "wah_gc_marked ob \<longleftrightarrow> go_next_tagged ob AND WAH_GC_TAG_MARK \<noteq> 0"

definition wah_gc_set_mark :: "bool \<Rightarrow> wah_gc_object \<Rightarrow> wah_gc_object" where
  "wah_gc_set_mark marked ob = ob\<lparr>go_next_tagged :=
     if marked then go_next_tagged ob OR WAH_GC_TAG_MARK else go_next_tagged ob AND NOT WAH_GC_TAG_MARK\<rparr>"

definition wah_gc_gray :: "wah_gc_object \<Rightarrow> bool" where
  "wah_gc_gray ob \<longleftrightarrow> go_next_tagged ob AND WAH_GC_TAG_AUX \<noteq> 0"

definition wah_gc_set_gray :: "bool \<Rightarrow> wah_gc_object \<Rightarrow> wah_gc_object" where
  "wah_gc_set_gray gray ob = ob\<lparr>go_next_tagged :=
     if gray then go_next_tagged ob OR WAH_GC_TAG_AUX else go_next_tagged ob AND NOT WAH_GC_TAG_AUX\<rparr>"

definition wah_gc_header :: "u64 \<Rightarrow> u64" where
  "wah_gc_header payload = payload - of_nat GC_HEADER_SIZE"

definition wah_gc_payload :: "u64 \<Rightarrow> u64" where
  "wah_gc_payload obj = obj + of_nat GC_HEADER_SIZE"

definition wah_repr_field_is_ref :: "wah_repr_field \<Rightarrow> bool" where
  "wah_repr_field_is_ref f \<longleftrightarrow> rf_repr_id f = WAH_REPR_REF \<or> rf_repr_id f \<ge> 0"

definition wah_module_typeidx_to_repr :: "wah_module \<Rightarrow> nat \<Rightarrow> int" where
  "wah_module_typeidx_to_repr m typeidx =
    (case typeidx_to_repr m of None \<Rightarrow> WAH_REPR_NONE
     | Some rs \<Rightarrow> if typeidx \<ge> length (types m) then WAH_REPR_NONE else rs ! typeidx)"

definition wah_repr_info_get :: "wah_module \<Rightarrow> int \<Rightarrow> wah_repr_info option" where
  "wah_repr_info_get m repr_id =
    (if repr_id < 0 \<or> nat repr_id \<ge> length (repr_infos m) then None else Some (repr_infos m ! nat repr_id))"

section \<open>Heaps\<close>

datatype wah_gc_phase = WAH_GC_PHASE_IDLE | WAH_GC_PHASE_MARK | WAH_GC_PHASE_SWEEP

text \<open>A function as the runtime calls it. The types are those of a host function.\<close>

record wah_function_inst =
  fi_is_host :: bool
  fi_param_types :: "wah_type list"
  fi_result_types :: "wah_type list"
  fi_local_idx :: nat
  fi_module :: "wah_parsed_module option"

record wah_gc_state =
  gc_all_objects :: u64
  gc_phase :: wah_gc_phase
  gc_object_count :: u32
  gc_exception_count :: u32
  gc_allocated_bytes :: u64
  gc_allocation_threshold :: u64
  gc_other_heap_bytes :: u64
  gc_pending :: bool
  gc_owner :: nat
  gc_gc_dependents :: "nat list"
  gc_host_call :: "(wah_function_inst \<times> nat) option"

section \<open>Contexts\<close>

datatype wah_exec_state = WAH_EXEC_READY | WAH_EXEC_RUNNING | WAH_EXEC_SUSPENDED | WAH_EXEC_FINISHED | WAH_EXEC_TRAPPED

record wah_call_frame =
  fr_code :: "wah_code_body option"
  fr_locals :: nat
  fr_func_idx :: nat
  fr_module :: wah_parsed_module
  fr_poll_idx :: nat

record wah_table_inst =
  tb_entries :: nat
  tb_size :: nat
  tb_is_imported :: bool

record wah_pin_slot =
  ps_value :: wah_value
  ps_module :: "(u64 \<times> wah_module) option"
  ps_type :: wah_type
  ps_generation :: u32
  ps_next_free :: nat

record wah_pin_table =
  pt_slots :: "wah_pin_slot list"
  pt_free_head :: nat

record wah_linked_module =
  lm_module :: wah_parsed_module
  lm_ctx :: "nat option"
  lm_owns_ctx :: bool

record wah_exec_lifecycle =
  lc_state :: wah_exec_state
  lc_entry_result_count :: nat
  lc_entry_fn :: "wah_function_inst option"
  lc_base_sp :: nat
  lc_base_call_depth :: nat

text \<open>The frames are listed from the oldest, as \<open>WAH_FRAME\<close> numbers them.\<close>

record wah_exec_context =
  ec_sp :: nat
  ec_frames :: "wah_call_frame list"
  ec_poll_flag :: bool
  ec_globals :: nat
  ec_module :: wah_parsed_module
  ec_tables :: "wah_table_inst list"
  ec_linked_modules :: "wah_linked_module list"
  ec_is_instantiated :: bool
  ec_may_share_refs :: bool
  ec_poisoned :: bool
  ec_pending_exception :: u64
  ec_gc :: "nat option"
  ec_max_memory_bytes :: u64
  ec_memory_bytes_committed :: u64
  ec_pins :: "wah_pin_table option"
  ec_lifecycle :: wah_exec_lifecycle
  ec_dependents :: "nat list"

text \<open>
  Everything the collector can reach: the objects of all heaps and the headers of function holders, the heaps, the
  contexts, and the memory of value slots.
\<close>

type_synonym objects = "u64 \<rightharpoonup> wah_gc_object"

record wah_world =
  w_objects :: objects
  w_heaps :: "nat \<Rightarrow> wah_gc_state"
  w_ctxs :: "nat \<Rightarrow> wah_exec_context"
  w_slots :: "nat \<Rightarrow> wah_value"

section \<open>The memory budget\<close>

definition wah_budget_check :: "wah_exec_context \<Rightarrow> u64 \<Rightarrow> bool" where
  "wah_budget_check c additional \<longleftrightarrow>
    (if ec_max_memory_bytes c = - 1 then True
     else if ec_memory_bytes_committed c > ec_max_memory_bytes c then False
     else additional \<le> ec_max_memory_bytes c - ec_memory_bytes_committed c)"

definition wah_budget_charge :: "u64 \<Rightarrow> wah_exec_context \<Rightarrow> wah_exec_context" where
  "wah_budget_charge n c = c\<lparr>ec_memory_bytes_committed := ec_memory_bytes_committed c + n\<rparr>"

definition wah_budget_release :: "u64 \<Rightarrow> wah_exec_context \<Rightarrow> wah_exec_context" where
  "wah_budget_release n c = c\<lparr>ec_memory_bytes_committed := ec_memory_bytes_committed c - n\<rparr>"

definition update_ctx :: "nat \<Rightarrow> (wah_exec_context \<Rightarrow> wah_exec_context) \<Rightarrow> wah_world \<Rightarrow> wah_world" where
  "update_ctx i f w = w\<lparr>w_ctxs := (w_ctxs w)(i := f (w_ctxs w i))\<rparr>"

definition update_heap :: "nat \<Rightarrow> (wah_gc_state \<Rightarrow> wah_gc_state) \<Rightarrow> wah_world \<Rightarrow> wah_world" where
  "update_heap h f w = w\<lparr>w_heaps := (w_heaps w)(h := f (w_heaps w h))\<rparr>"

section \<open>Roots\<close>

text \<open>
  \<open>wah_gc_enumerate_roots\<close> and its helpers call a visitor on every slot that may hold a reference; here they list the
  references in these slots in the order of the visits. Reading a slot at \<open>p + i\<close> is \<open>slot_ref w p i\<close>.
\<close>

definition slot_ref :: "wah_world \<Rightarrow> nat \<Rightarrow> nat \<Rightarrow> u64" where
  "slot_ref w p i = value_ref (w_slots w (p + VALUE_SIZE * i))"

definition typed_slots :: "wah_world \<Rightarrow> nat \<Rightarrow> wah_type list \<Rightarrow> u64 list" where
  "typed_slots w p ts = [slot_ref w p i. i \<leftarrow> [0..<length ts], WAH_TYPE_IS_REF (ts ! i)]"

definition wah_gc_visit_module_globals :: "wah_world \<Rightarrow> wah_module \<Rightarrow> nat \<Rightarrow> u64 list" where
  "wah_gc_visit_module_globals w m gp = concat (map (\<lambda>i.
     if \<not> WAH_TYPE_IS_REF (wah_global_type m i) then []
     else if i < length (global_imports m) \<and> gi_is_mutable (global_imports m ! i)
     then (if slot_ref w gp i \<noteq> 0 then [slot_ref w (unat (slot_ref w gp i)) 0] else [])
     else [slot_ref w gp i]) [0..<wah_global_index_limit m])"

definition wah_gc_visit_pins :: "wah_exec_context \<Rightarrow> u64 list" where
  "wah_gc_visit_pins c = (case ec_pins c of None \<Rightarrow> []
     | Some pins \<Rightarrow> [value_ref (ps_value s). s \<leftarrow> pt_slots pins, value_ref (ps_value s) \<noteq> 0])"

definition wah_local_run_start :: "wah_local_run list \<Rightarrow> nat \<Rightarrow> nat" where
  "wah_local_run_start runs ri = (if ri = 0 then 0 else run_end (runs ! (ri - 1)))"

definition frame_roots :: "wah_world \<Rightarrow> wah_exec_context \<Rightarrow> nat \<Rightarrow> u64 list option" where
  "frame_roots w c d = (let frame = ec_frames c ! d in
    case fr_code frame of
      None \<Rightarrow> Some []
    | Some code \<Rightarrow>
        let m = pm_module (fr_module frame);
            params = ft_param_types (types m ! (function_type_indices m ! fr_func_idx frame));
            runs = cb_local_runs code;
            declared = [slot_ref w (fr_locals frame) (length params + i).
                         ri \<leftarrow> [0..<length runs], WAH_TYPE_IS_REF (run_type (runs ! ri)),
                         i \<leftarrow> [wah_local_run_start runs ri..<run_end (runs ! ri)]];
            operand_base = fr_locals frame + VALUE_SIZE * (length params + cb_local_count code);
            next_frame_base = (if d + 1 < length (ec_frames c) then fr_locals (ec_frames c ! (d + 1)) else ec_sp c);
            actual_depth = (if next_frame_base > operand_base then (next_frame_base - operand_base) div VALUE_SIZE else 0)
        in Option.bind
             (if fr_poll_idx frame < length (cb_poll_ref_tops code)
              then walk_ref_map (cb_ref_nodes code) actual_depth (cb_poll_ref_tops code ! fr_poll_idx frame)
              else Some [])
             (\<lambda>ps. Some (typed_slots w (fr_locals frame) params @ declared @ map (slot_ref w operand_base) ps)))"

definition wah_entry_result_types :: "wah_exec_context \<Rightarrow> wah_type list option" where
  "wah_entry_result_types c = (case lc_entry_fn (ec_lifecycle c) of None \<Rightarrow> None
     | Some fn \<Rightarrow>
         if fi_is_host fn then Some (fi_result_types fn)
         else let m = pm_module (case fi_module fn of None \<Rightarrow> ec_module c | Some pm \<Rightarrow> pm)
              in Some (ft_result_types (types m ! (function_type_indices m ! fi_local_idx fn))))"

definition host_entry_roots :: "wah_world \<Rightarrow> wah_exec_context \<Rightarrow> u64 list" where
  "host_entry_roots w c = (let lc = ec_lifecycle c in
    case lc_entry_fn lc of None \<Rightarrow> []
    | Some fn \<Rightarrow>
        if fi_is_host fn \<and> (lc_state lc = WAH_EXEC_SUSPENDED \<or> lc_state lc = WAH_EXEC_RUNNING)
        then typed_slots w (lc_base_sp lc) (fi_param_types fn)
           @ typed_slots w (lc_base_sp lc + VALUE_SIZE * length (fi_param_types fn)) (fi_result_types fn)
        else [])"

definition host_call_roots :: "wah_world \<Rightarrow> nat \<Rightarrow> u64 list" where
  "host_call_roots w i = (case ec_gc (w_ctxs w i) of None \<Rightarrow> []
     | Some h \<Rightarrow> (case gc_host_call (w_heaps w h) of None \<Rightarrow> []
         | Some (fn, results) \<Rightarrow> if gc_owner (w_heaps w h) = i then typed_slots w results (fi_result_types fn) else []))"

definition finished_roots :: "wah_world \<Rightarrow> wah_exec_context \<Rightarrow> u64 list" where
  "finished_roots w c = (let n = lc_entry_result_count (ec_lifecycle c) in
    if lc_state (ec_lifecycle c) = WAH_EXEC_FINISHED
    then (case wah_entry_result_types c of None \<Rightarrow> [] | Some ts \<Rightarrow> typed_slots w (ec_sp c - VALUE_SIZE * n) (take n ts))
    else [])"

text \<open>The globals of linked modules follow those of the primary one in the same array.\<close>

fun linked_global_roots :: "wah_world \<Rightarrow> nat \<Rightarrow> wah_linked_module list \<Rightarrow> u64 list" where
  "linked_global_roots w g_ptr [] = []"
| "linked_global_roots w g_ptr (lm # lms) =
    (let m = pm_module (lm_module lm); n = wah_global_index_limit m in
     (if n > 0 \<and> (lm_ctx lm = None \<or> lm_owns_ctx lm) then wah_gc_visit_module_globals w m g_ptr else [])
     @ linked_global_roots w (g_ptr + VALUE_SIZE * n) lms)"

definition table_roots :: "wah_world \<Rightarrow> wah_module \<Rightarrow> wah_table_inst list \<Rightarrow> u64 list" where
  "table_roots w m ts = [slot_ref w (tb_entries (ts ! t)) e.
     t \<leftarrow> [0..<length ts], \<not> tb_is_imported (ts ! t) \<and> WAH_TYPE_IS_REF (tt_elem_type (wah_table_type m t)),
     e \<leftarrow> [0..<tb_size (ts ! t)]]"

definition wah_gc_enumerate_roots :: "wah_world \<Rightarrow> nat \<Rightarrow> u64 list option" where
  "wah_gc_enumerate_roots w i = (let c = w_ctxs w i; m = pm_module (ec_module c);
      live_depth = (if lc_state (ec_lifecycle c) = WAH_EXEC_TRAPPED then lc_base_call_depth (ec_lifecycle c) else length (ec_frames c)) in
    Option.bind (those (map (frame_roots w c) [0..<live_depth])) (\<lambda>frames.
    Some (concat frames @ host_entry_roots w c @ host_call_roots w i @ finished_roots w c
      @ wah_gc_visit_module_globals w m (ec_globals c)
      @ linked_global_roots w (ec_globals c + VALUE_SIZE * wah_global_index_limit m) (ec_linked_modules c)
      @ wah_gc_visit_pins c @ table_roots w m (ec_tables c)
      @ concat (map (\<lambda>lm. case lm_ctx lm of Some l \<Rightarrow>
            if lm_owns_ctx lm then table_roots w (pm_module (lm_module lm)) (ec_tables (w_ctxs w l)) else []
          | None \<Rightarrow> []) (ec_linked_modules c))
      @ (if ec_pending_exception c \<noteq> 0 then [wah_gc_payload (ec_pending_exception c)] else []))))"

end
