(* ===== verification/Wah_GC.thy ===== *)
theory Wah_GC
  imports Wah_Runtime "HOL-Library.Monad_Syntax"
begin

text \<open>
  The mark and sweep collector. Objects of a heap are chained through their headers, whose two low bits say whether an
  object is marked and whether it is gray, that is marked but not scanned because the worklist could not grow.

  An operation returns \<open>None\<close> if it reads an address without an object or bytes outside of a payload, or if its loop
  does not end; that it returns \<open>Some\<close> is its memory safety and termination. The answers of the allocator to
  requests to grow are an argument, a list of booleans, one for each request; when it runs out, requests fail.
\<close>

section \<open>Allocation\<close>

abbreviation (input) "WAH_GC_DEFAULT_THRESHOLD \<equiv> 256 * 1024 :: u64"

text \<open>
  The allocator's answer is the address of the new block, or \<open>None\<close> if it fails.
\<close>

definition wah_gc_alloc :: "u64 option \<Rightarrow> nat \<Rightarrow> wah_module option \<Rightarrow> int \<Rightarrow> nat \<Rightarrow> wah_world \<Rightarrow> u64 \<times> wah_world" where
  "wah_gc_alloc answer i module repr_id payload_size w =
    (case ec_gc (w_ctxs w i) of None \<Rightarrow> (0, w)
     | Some h \<Rightarrow>
        let gc = w_heaps w h; total = GC_HEADER_SIZE + payload_size in
        if payload_size > UINT32_MAX - GC_HEADER_SIZE then (0, w)
        else if \<not> wah_budget_check (w_ctxs w (gc_owner gc)) (of_nat total) then (0, w)
        else case answer of None \<Rightarrow> (0, w)
        | Some obj \<Rightarrow>
            let ob = wah_gc_set_next (gc_all_objects gc) \<lparr> go_next_tagged = 0, go_repr_id = repr_id, go_size_bytes = total,
                       go_module = module, go_payload = replicate payload_size 0 \<rparr>;
                gc = gc\<lparr> gc_all_objects := obj, gc_object_count := gc_object_count gc + 1,
                         gc_allocated_bytes := gc_allocated_bytes gc + of_nat total \<rparr>;
                full = gc_allocated_bytes gc \<ge> gc_allocation_threshold gc;
                w = w\<lparr> w_objects := (w_objects w)(obj \<mapsto> ob),
                       w_heaps := (w_heaps w)(h := gc\<lparr>gc_pending := full \<or> gc_pending gc\<rparr>) \<rparr>;
                w = update_ctx (gc_owner gc) (wah_budget_charge (of_nat total)) w
            in (wah_gc_payload obj, update_ctx i (\<lambda>c. c\<lparr>ec_poll_flag := full \<or> ec_poll_flag c\<rparr>) w))"

definition wah_gc_alloc_struct :: "u64 option \<Rightarrow> nat \<Rightarrow> wah_module \<Rightarrow> int \<Rightarrow> wah_repr_info \<Rightarrow> wah_world \<Rightarrow> u64 \<times> wah_world" where
  "wah_gc_alloc_struct answer i m repr_id info w = wah_gc_alloc answer i (Some m) repr_id (ri_size info) w"

definition set_array_length :: "u64 \<Rightarrow> nat \<Rightarrow> objects \<Rightarrow> objects" where
  "set_array_length obj len objs =
    objs(obj := map_option (\<lambda>ob. ob\<lparr>go_payload := wah_write_u32_le (of_nat len) @ drop 4 (go_payload ob)\<rparr>) (objs obj))"

definition wah_gc_alloc_array :: "u64 option \<Rightarrow> nat \<Rightarrow> wah_module \<Rightarrow> int \<Rightarrow> wah_repr_info \<Rightarrow> nat \<Rightarrow> wah_world \<Rightarrow> u64 \<times> wah_world" where
  "wah_gc_alloc_array answer i m repr_id info len w =
    (let payload64 = ARRAY_BODY_SIZE + ri_size info * len in
     if payload64 > UINT32_MAX then (0, w)
     else case wah_gc_alloc answer i (Some m) repr_id payload64 w of (p, w) \<Rightarrow>
       if p \<noteq> 0 then (p, w\<lparr>w_objects := set_array_length (wah_gc_header p) len (w_objects w)\<rparr>) else (p, w))"

definition wah_gc_alloc_host :: "u64 option \<Rightarrow> nat \<Rightarrow> nat \<Rightarrow> wah_world \<Rightarrow> u64 \<times> wah_world" where
  "wah_gc_alloc_host answer i n w =
    (if ec_poisoned (w_ctxs w i) \<or> n > UINT32_MAX then (0, w) else wah_gc_alloc answer i None WAH_REPR_HOST n w)"

definition wah_gc_alloc_exception :: "u64 option \<Rightarrow> nat \<Rightarrow> nat \<Rightarrow> wah_world \<Rightarrow> u64 \<times> wah_world" where
  "wah_gc_alloc_exception answer i value_count w =
    (let payload64 = EXCEPTION_FIELDS_SIZE + value_count * (VALUE_SIZE + 4) in
     if payload64 > UINT32_MAX then (0, w)
     else case wah_gc_alloc answer i None WAH_TYPE_EXN payload64 w of (p, w) \<Rightarrow>
       if p = 0 then (0, w)
       else (wah_gc_header p, case ec_gc (w_ctxs w i) of None \<Rightarrow> w
               | Some h \<Rightarrow> update_heap h (\<lambda>gc. gc\<lparr>gc_exception_count := gc_exception_count gc + 1\<rparr>) w))"

section \<open>Marking\<close>

text \<open>The worklist: its items from the top, its capacity, and whether objects were left gray.\<close>

record wah_gc_worklist =
  wl_items :: "u64 list"
  wl_cap :: u32
  wl_overflow :: bool
  wl_grants :: "bool list"

type_synonym mark_state = "objects \<times> wah_gc_worklist"

definition granted :: "bool list \<Rightarrow> bool" where
  "granted answers \<longleftrightarrow> answers \<noteq> [] \<and> hd answers"

definition wah_gc_mark_object :: "u64 \<Rightarrow> mark_state \<Rightarrow> mark_state option" where
  "wah_gc_mark_object obj s = (case s of (objs, wl) \<Rightarrow>
    if obj = 0 then Some s
    else do {
      ob \<leftarrow> objs obj;
      if wah_gc_marked ob then Some s
      else
        let ob = wah_gc_set_mark True ob in
        if of_nat (length (wl_items wl)) \<ge> wl_cap wl then
          let new_cap = (if wl_cap wl \<noteq> 0 then wl_cap wl * 2 else 256) in
          if new_cap < wl_cap wl then Some (objs(obj \<mapsto> wah_gc_set_gray True ob), wl\<lparr>wl_overflow := True\<rparr>)
          else if \<not> granted (wl_grants wl)
          then Some (objs(obj \<mapsto> wah_gc_set_gray True ob), wl\<lparr>wl_overflow := True, wl_grants := tl (wl_grants wl)\<rparr>)
          else Some (objs(obj \<mapsto> ob), wl\<lparr>wl_cap := new_cap, wl_items := obj # wl_items wl, wl_grants := tl (wl_grants wl)\<rparr>)
        else Some (objs(obj \<mapsto> ob), wl\<lparr>wl_items := obj # wl_items wl\<rparr>)
    })"

definition wah_gc_mark_ref :: "u64 \<Rightarrow> mark_state \<Rightarrow> mark_state option" where
  "wah_gc_mark_ref ref s = (if ref = 0 \<or> wah_ref_is_i31 ref then Some s else wah_gc_mark_object (wah_gc_header ref) s)"

text \<open>Running a body that may fail over a list.\<close>

primrec fold_opt :: "('a \<Rightarrow> 's \<Rightarrow> 's option) \<Rightarrow> 'a list \<Rightarrow> 's \<Rightarrow> 's option" where
  "fold_opt f [] s = Some s"
| "fold_opt f (x # xs) s = Option.bind (f x s) (fold_opt f xs)"

text \<open>
  The references that \<open>wah_gc_scan_object\<close> follows, read from the payload at the offsets of the representation. The
  product of index and element size is taken in 32 bits, as in the code.
\<close>

definition read_at :: "nat \<Rightarrow> nat \<Rightarrow> bytes \<Rightarrow> bytes option" where
  "read_at n off bs = (if off + n \<le> length bs then Some (take n (drop off bs)) else None)"

definition read_ref :: "bytes \<Rightarrow> nat \<Rightarrow> u64 option" where
  "read_ref bs off = map_option wah_read_u64_le (read_at 8 off bs)"

definition read_u32 :: "bytes \<Rightarrow> nat \<Rightarrow> u32 option" where
  "read_u32 bs off = map_option wah_read_u32_le (read_at 4 off bs)"

definition wah_exception_value_types :: "bytes \<Rightarrow> nat \<Rightarrow> nat \<Rightarrow> wah_type option" where
  "wah_exception_value_types bs value_count i =
    map_option (\<lambda>t. sint t) (read_u32 bs (EXCEPTION_FIELDS_SIZE + value_count * VALUE_SIZE + 4 * i))"

definition exception_refs :: "bytes \<Rightarrow> u64 list option" where
  "exception_refs bs = do {
     value_count \<leftarrow> map_option unat (read_u32 bs 12);
     types \<leftarrow> those (map (wah_exception_value_types bs value_count) [0..<value_count]);
     those (map (\<lambda>i. read_ref bs (EXCEPTION_FIELDS_SIZE + i * VALUE_SIZE))
             (filter (\<lambda>i. WAH_TYPE_IS_REF (types ! i)) [0..<value_count]))
   }"

definition array_elem_offset :: "wah_repr_info \<Rightarrow> nat \<Rightarrow> nat" where
  "array_elem_offset info i =
    ARRAY_BODY_SIZE + unat (of_nat i * of_nat (ri_size info) :: u32) + rf_offset (ri_fields info ! 0)"

definition object_refs :: "wah_module \<Rightarrow> wah_gc_object \<Rightarrow> u64 list option" where
  "object_refs fallback ob =
    (if go_repr_id ob = WAH_TYPE_EXN then exception_refs (go_payload ob)
     else if go_repr_id ob < 0 then Some []
     else case wah_repr_info_get (case go_module ob of None \<Rightarrow> fallback | Some m \<Rightarrow> m) (go_repr_id ob) of
       None \<Rightarrow> Some []
     | Some info \<Rightarrow>
         (case ri_type info of
            WAH_REPR_STRUCT \<Rightarrow>
              those (map (\<lambda>f. read_ref (go_payload ob) (rf_offset f)) (filter wah_repr_field_is_ref (ri_fields info)))
          | WAH_REPR_ARRAY \<Rightarrow>
              if ri_fields info = [] \<or> \<not> wah_repr_field_is_ref (ri_fields info ! 0) then Some []
              else do {
                len \<leftarrow> map_option unat (read_u32 (go_payload ob) 0);
                those (map (\<lambda>i. read_ref (go_payload ob) (array_elem_offset info i)) [0..<len])
              }))"

definition wah_gc_scan_object :: "wah_module \<Rightarrow> u64 \<Rightarrow> mark_state \<Rightarrow> mark_state option" where
  "wah_gc_scan_object fallback obj s = do {
     ob \<leftarrow> fst s obj;
     refs \<leftarrow> object_refs fallback ob;
     fold_opt wah_gc_mark_ref refs s
   }"

text \<open>The loop over the objects of a heap, in which the next object is read after the body.\<close>

partial_function (option) for_objects :: "(u64 \<Rightarrow> 's \<Rightarrow> 's option) \<Rightarrow> ('s \<Rightarrow> objects) \<Rightarrow> u64 \<Rightarrow> 's \<Rightarrow> 's option" where
  "for_objects body objs obj s =
    (if obj = 0 then Some s
     else Option.bind (body obj s) (\<lambda>s.
          Option.bind (objs s obj) (\<lambda>ob. for_objects body objs (wah_gc_next ob) s)))"

declare for_objects.simps [code]

definition clear_tags :: "u64 \<Rightarrow> objects \<Rightarrow> objects option" where
  "clear_tags obj objs = do { ob \<leftarrow> objs obj; Some (objs(obj \<mapsto> wah_gc_set_gray False (wah_gc_set_mark False ob))) }"

definition scan_if_gray :: "wah_module \<Rightarrow> u64 \<Rightarrow> mark_state \<Rightarrow> mark_state option" where
  "scan_if_gray fallback obj s = do {
     ob \<leftarrow> fst s obj;
     if wah_gc_gray ob then wah_gc_scan_object fallback obj ((fst s)(obj \<mapsto> wah_gc_set_gray False ob), snd s) else Some s
   }"

partial_function (option) mark_drain :: "wah_module \<Rightarrow> mark_state \<Rightarrow> mark_state option" where
  "mark_drain fallback s =
    (case wl_items (snd s) of [] \<Rightarrow> Some s
     | obj # items \<Rightarrow>
         Option.bind (wah_gc_scan_object fallback obj (fst s, (snd s)\<lparr>wl_items := items\<rparr>)) (mark_drain fallback))"

declare mark_drain.simps [code]

text \<open>The loop that scans until nothing remains; \<open>heads\<close> are the first objects of the heaps of the domain.\<close>

partial_function (option) mark_loop :: "wah_module \<Rightarrow> u64 list \<Rightarrow> mark_state \<Rightarrow> mark_state option" where
  "mark_loop fallback heads s =
    Option.bind (mark_drain fallback s) (\<lambda>s.
      if \<not> wl_overflow (snd s) then Some s
      else Option.bind (fold_opt (for_objects (scan_if_gray fallback) fst) heads (fst s, (snd s)\<lparr>wl_overflow := False\<rparr>))
             (mark_loop fallback heads))"

declare mark_loop.simps [code]

section \<open>The domain\<close>

text \<open>
  The contexts linked with a context in either direction, found by extending a list while going through it. The list
  starts with room for \<open>WAH_GC_INLINE_DOMAIN_SIZE\<close> contexts; the second component is its capacity.
\<close>

type_synonym domain_state = "nat list \<times> u32 \<times> bool list"

abbreviation (input) "WAH_GC_INLINE_DOMAIN_SIZE \<equiv> 8 :: u32"

definition wah_gc_domain_add :: "nat option \<Rightarrow> domain_state \<Rightarrow> domain_state res" where
  "wah_gc_domain_add c s = (case c of None \<Rightarrow> Inr s
    | Some c \<Rightarrow> (case s of (d, cap, grants) \<Rightarrow>
        if c \<in> set d then Inr s
        else if of_nat (length d) \<ge> cap
        then WAH_ENSURE (granted grants) WAH_ERROR_OUT_OF_MEMORY (Inr (d @ [c], cap * 2, tl grants))
        else Inr (d @ [c], cap, grants)))"

definition domain_neighbours :: "wah_world \<Rightarrow> nat \<Rightarrow> nat option list" where
  "domain_neighbours w i = (let c = w_ctxs w i in
     map lm_ctx (ec_linked_modules c) @ map Some (ec_dependents c)
     @ (case ec_gc c of None \<Rightarrow> [] | Some h \<Rightarrow> map Some (gc_gc_dependents (w_heaps w h))))"

partial_function (option) domain_loop :: "(nat \<Rightarrow> nat option list) \<Rightarrow> nat \<Rightarrow> domain_state \<Rightarrow> domain_state res option" where
  "domain_loop neighbours k s =
    (if k \<ge> length (fst s) then Some (Inr s)
     else case fold_res wah_gc_domain_add (neighbours (fst s ! k)) s of
       Inl e \<Rightarrow> Some (Inl e)
     | Inr s \<Rightarrow> domain_loop neighbours (k + 1) s)"

declare domain_loop.simps [code]

definition wah_gc_collect_domain :: "wah_world \<Rightarrow> nat \<Rightarrow> bool list \<Rightarrow> domain_state res option" where
  "wah_gc_collect_domain w i grants =
    (case wah_gc_domain_add (Some i) ([], WAH_GC_INLINE_DOMAIN_SIZE, grants) of
       Inl e \<Rightarrow> Some (Inl e) | Inr s \<Rightarrow> domain_loop (domain_neighbours w) 0 s)"

definition wah_gc_domain_first_heap :: "wah_world \<Rightarrow> nat list \<Rightarrow> nat \<Rightarrow> bool" where
  "wah_gc_domain_first_heap w domain i \<longleftrightarrow> ec_gc (w_ctxs w (domain ! i)) \<noteq> None
     \<and> list_all (\<lambda>j. ec_gc (w_ctxs w (domain ! j)) \<noteq> ec_gc (w_ctxs w (domain ! i))) [0..<i]"

definition domain_heaps :: "wah_world \<Rightarrow> nat list \<Rightarrow> nat list" where
  "domain_heaps w domain = map (\<lambda>i. the (ec_gc (w_ctxs w (domain ! i)))) (filter (wah_gc_domain_first_heap w domain) [0..<length domain])"

definition domain_roots :: "wah_world \<Rightarrow> nat \<Rightarrow> nat list \<Rightarrow> u64 list option" where
  "domain_roots w ctx domain = map_option concat (those (map (\<lambda>i.
     if i \<noteq> ctx \<and> \<not> ec_is_instantiated (w_ctxs w i) \<and> \<not> ec_may_share_refs (w_ctxs w i)
     then Some (wah_gc_visit_pins (w_ctxs w i)) else wah_gc_enumerate_roots w i) domain))"

section \<open>A collection\<close>

definition wah_gc_step_mark :: "nat \<Rightarrow> bool list \<Rightarrow> wah_world \<Rightarrow> (bool \<times> wah_world) option" where
  "wah_gc_step_mark i grants w = do {
     let h = the (ec_gc (w_ctxs w i));
     r \<leftarrow> wah_gc_collect_domain w i grants;
     case r of
       Inl e \<Rightarrow> Some (False, update_heap h (\<lambda>gc. gc\<lparr>gc_phase := WAH_GC_PHASE_IDLE\<rparr>) w)
     | Inr (domain, cap, grants) \<Rightarrow> do {
         let hs = domain_heaps w domain;
         let other = sum_list (map (\<lambda>h. gc_allocated_bytes (w_heaps w h)) (filter (\<lambda>h'. h' \<noteq> h) hs));
         let heads = map (\<lambda>h. gc_all_objects (w_heaps w h)) hs;
         objs \<leftarrow> fold_opt (for_objects clear_tags id) heads (w_objects w);
         roots \<leftarrow> domain_roots w i domain;
         let wl = \<lparr> wl_items = [], wl_cap = 0, wl_overflow = False, wl_grants = grants \<rparr>;
         s \<leftarrow> fold_opt wah_gc_mark_ref roots (objs, wl);
         s \<leftarrow> mark_loop (pm_module (ec_module (w_ctxs w i))) heads s;
         Some (True, update_heap h (\<lambda>gc. gc\<lparr>gc_other_heap_bytes := other, gc_phase := WAH_GC_PHASE_SWEEP\<rparr>) (w\<lparr>w_objects := fst s\<rparr>))
       }
   }"

text \<open>
  The loops that unlink objects: \<open>drop_it\<close> says which. \<open>wah_free\<close> removes the object from the memory of objects.
\<close>

definition unlink_object :: "nat \<Rightarrow> u64 \<Rightarrow> u64 \<Rightarrow> wah_gc_object \<Rightarrow> wah_world \<Rightarrow> wah_world option" where
  "unlink_object h prev obj ob w = do {
     w \<leftarrow> (if prev \<noteq> 0
           then do { p \<leftarrow> w_objects w prev; Some (w\<lparr>w_objects := (w_objects w)(prev \<mapsto> wah_gc_set_next (wah_gc_next ob) p)\<rparr>) }
           else Some (update_heap h (\<lambda>gc. gc\<lparr>gc_all_objects := wah_gc_next ob\<rparr>) w));
     let w = update_heap h (\<lambda>gc. gc\<lparr> gc_allocated_bytes := gc_allocated_bytes gc - of_nat (go_size_bytes ob),
               gc_object_count := gc_object_count gc - 1,
               gc_exception_count := if go_repr_id ob = WAH_TYPE_EXN then gc_exception_count gc - 1 else gc_exception_count gc \<rparr>) w;
     let w = update_ctx (gc_owner (w_heaps w h)) (wah_budget_release (of_nat (go_size_bytes ob))) w;
     Some (w\<lparr>w_objects := (w_objects w)(obj := None)\<rparr>)
   }"

partial_function (option) sweep_loop :: "(wah_gc_object \<Rightarrow> bool) \<Rightarrow> nat \<Rightarrow> u64 \<Rightarrow> u64 \<Rightarrow> wah_world \<Rightarrow> wah_world option" where
  "sweep_loop drop_it h prev obj w =
    (if obj = 0 then Some w
     else Option.bind (w_objects w obj) (\<lambda>ob.
       if drop_it ob then Option.bind (unlink_object h prev obj ob w) (sweep_loop drop_it h prev (wah_gc_next ob))
       else sweep_loop drop_it h obj (wah_gc_next ob) w))"

declare sweep_loop.simps [code]

definition next_threshold :: "wah_gc_state \<Rightarrow> u64" where
  "next_threshold gc = (let t = gc_allocated_bytes gc * 2 + gc_other_heap_bytes gc in
     if t < WAH_GC_DEFAULT_THRESHOLD then WAH_GC_DEFAULT_THRESHOLD else t)"

definition wah_gc_step_sweep :: "nat \<Rightarrow> wah_world \<Rightarrow> wah_world option" where
  "wah_gc_step_sweep i w = do {
     let h = the (ec_gc (w_ctxs w i));
     w \<leftarrow> sweep_loop (\<lambda>ob. \<not> wah_gc_marked ob) h 0 (gc_all_objects (w_heaps w h)) w;
     Some (update_heap h (\<lambda>gc. gc\<lparr>gc_phase := WAH_GC_PHASE_IDLE, gc_allocation_threshold := next_threshold gc\<rparr>) w)
   }"

definition wah_gc_step :: "nat \<Rightarrow> bool list \<Rightarrow> wah_world \<Rightarrow> wah_world option" where
  "wah_gc_step i grants w = (case ec_gc (w_ctxs w i) of None \<Rightarrow> Some w
    | Some h \<Rightarrow>
      (case gc_phase (w_heaps w h) of
         WAH_GC_PHASE_SWEEP \<Rightarrow> wah_gc_step_sweep i w
       | phase \<Rightarrow> do {
           let w = (if phase = WAH_GC_PHASE_IDLE then update_heap h (\<lambda>gc. gc\<lparr>gc_phase := WAH_GC_PHASE_MARK\<rparr>) w else w);
           (marked, w) \<leftarrow> wah_gc_step_mark i grants w;
           if marked then wah_gc_step_sweep i w else Some w
         }))"

definition wah_gc_sweep_unreachable_exceptions :: "nat \<Rightarrow> bool list \<Rightarrow> wah_world \<Rightarrow> wah_world option" where
  "wah_gc_sweep_unreachable_exceptions i grants w = (case ec_gc (w_ctxs w i) of None \<Rightarrow> Some w
    | Some h \<Rightarrow>
      if gc_exception_count (w_heaps w h) = 0 then Some w
      else do {
        (marked, w) \<leftarrow> wah_gc_step_mark i grants w;
        if \<not> marked then Some w
        else do {
          w \<leftarrow> sweep_loop (\<lambda>ob. \<not> wah_gc_marked ob \<and> go_repr_id ob = WAH_TYPE_EXN) h 0 (gc_all_objects (w_heaps w h)) w;
          Some (update_heap h (\<lambda>gc. gc\<lparr>gc_phase := WAH_GC_PHASE_IDLE\<rparr>) w)
        }
      })"

text \<open>Freeing all objects, ending a heap, and the consistency check of a heap.\<close>

partial_function (option) free_objects :: "u64 \<Rightarrow> objects \<Rightarrow> objects option" where
  "free_objects obj objs =
    (if obj = 0 then Some objs
     else Option.bind (objs obj) (\<lambda>ob. free_objects (wah_gc_next ob) (objs(obj := None))))"

declare free_objects.simps [code]

definition wah_gc_free_all_objects :: "nat \<Rightarrow> wah_world \<Rightarrow> wah_world option" where
  "wah_gc_free_all_objects h w = do {
     objs \<leftarrow> free_objects (gc_all_objects (w_heaps w h)) (w_objects w);
     Some (update_heap h (\<lambda>gc. gc\<lparr>gc_all_objects := 0, gc_object_count := 0, gc_exception_count := 0, gc_allocated_bytes := 0\<rparr>)
             (w\<lparr>w_objects := objs\<rparr>))
   }"

definition wah_gc_start :: "nat \<Rightarrow> nat \<Rightarrow> wah_world \<Rightarrow> wah_world res" where
  "wah_gc_start h i w =
    WAH_ENSURE (\<not> ec_poisoned (w_ctxs w i)) WAH_ERROR_MISUSE (
    if ec_gc (w_ctxs w i) \<noteq> None then Inr w
    else Inr (update_ctx i (\<lambda>c. c\<lparr>ec_gc := Some h\<rparr>) (w\<lparr>w_heaps := (w_heaps w)(h :=
      \<lparr> gc_all_objects = 0, gc_phase = WAH_GC_PHASE_IDLE, gc_object_count = 0, gc_exception_count = 0, gc_allocated_bytes = 0,
        gc_allocation_threshold = WAH_GC_DEFAULT_THRESHOLD, gc_other_heap_bytes = 0, gc_pending = False, gc_owner = i,
        gc_gc_dependents = [], gc_host_call = None \<rparr>)\<rparr>)))"

definition wah_gc_end :: "nat \<Rightarrow> wah_world \<Rightarrow> wah_world option" where
  "wah_gc_end i w = (case ec_gc (w_ctxs w i) of None \<Rightarrow> Some w
    | Some h \<Rightarrow> do {
        w \<leftarrow> wah_gc_free_all_objects h (update_ctx (gc_owner (w_heaps w h)) (wah_budget_release (gc_allocated_bytes (w_heaps w h))) w);
        Some (update_ctx i (\<lambda>c. c\<lparr>ec_gc := None\<rparr>) w)
      })"

partial_function (option) verify_loop :: "objects \<Rightarrow> u32 \<Rightarrow> u64 \<Rightarrow> u32 \<Rightarrow> u64 \<Rightarrow> (u32 \<times> u64) option option" where
  "verify_loop objs object_count obj counted counted_bytes =
    (if obj = 0 then Some (Some (counted, counted_bytes))
     else Option.bind (objs obj) (\<lambda>ob.
       if counted + 1 > object_count + 1 then Some None
       else verify_loop objs object_count (wah_gc_next ob) (counted + 1) (counted_bytes + of_nat (go_size_bytes ob))))"

declare verify_loop.simps [code]

definition wah_gc_verify_heap :: "nat \<Rightarrow> wah_world \<Rightarrow> bool option" where
  "wah_gc_verify_heap i w = (case ec_gc (w_ctxs w i) of None \<Rightarrow> Some True
    | Some h \<Rightarrow> (let gc = w_heaps w h in
        map_option (\<lambda>r. r = Some (gc_object_count gc, gc_allocated_bytes gc))
          (verify_loop (w_objects w) (gc_object_count gc) (gc_all_objects gc) 0 0)))"


text \<open>The contexts that import from the heap's owner; \<open>grown\<close> says whether the array could grow when it had to.\<close>

definition wah_gc_register_dependent :: "bool \<Rightarrow> nat \<Rightarrow> wah_gc_state \<Rightarrow> wah_gc_state res" where
  "wah_gc_register_dependent grown dep gc =
    (if dep \<in> set (gc_gc_dependents gc) then Inr gc
     else WAH_ENSURE grown WAH_ERROR_OUT_OF_MEMORY (Inr (gc\<lparr>gc_gc_dependents := gc_gc_dependents gc @ [dep]\<rparr>)))"

fun index_of :: "'a \<Rightarrow> 'a list \<Rightarrow> nat option" where
  "index_of x [] = None"
| "index_of x (y # ys) = (if y = x then Some 0 else map_option Suc (index_of x ys))"

definition wah_gc_unregister_dependent :: "nat \<Rightarrow> wah_gc_state \<Rightarrow> wah_gc_state" where
  "wah_gc_unregister_dependent dep gc = (case index_of dep (gc_gc_dependents gc) of None \<Rightarrow> gc
    | Some i \<Rightarrow> gc\<lparr>gc_gc_dependents := butlast ((gc_gc_dependents gc)[i := last (gc_gc_dependents gc)])\<rparr>)"

end
