(* ===== verification/Wah_GC_Inv.thy ===== *)
theory Wah_GC_Inv
  imports Wah_GC
begin

text \<open>
  Correctness of the collector: marking is exact and safe whatever the allocator answers, a sweep keeps exactly the
  marked objects and its accounts, an allocation changes nothing that is alive, and the domain is the set of contexts
  linked with the collecting one.
\<close>

section \<open>Tagged headers\<close>

text \<open>
  A header packs the link to the next object and two flags. What the collector relies on is that each of the three
  can be written without disturbing the others.
\<close>

locale tagged_link =
  fixes nxt :: "'o \<Rightarrow> 'a" and set_nxt :: "'a \<Rightarrow> 'o \<Rightarrow> 'o" and aligned :: "'a \<Rightarrow> bool"
    and marked :: "'o \<Rightarrow> bool" and set_marked :: "bool \<Rightarrow> 'o \<Rightarrow> 'o"
    and gray :: "'o \<Rightarrow> bool" and set_gray :: "bool \<Rightarrow> 'o \<Rightarrow> 'o"
  assumes nxt_aligned: "aligned (nxt ob)"
    and nxt_set: "aligned a \<Longrightarrow> nxt (set_nxt a ob) = a"
    and nxt_marked: "nxt (set_marked b ob) = nxt ob"
    and nxt_gray: "nxt (set_gray b ob) = nxt ob"
    and marked_set: "marked (set_marked b ob) = b"
    and marked_gray: "marked (set_gray b ob) = marked ob"
    and marked_nxt: "aligned a \<Longrightarrow> marked (set_nxt a ob) = marked ob"
    and gray_set: "gray (set_gray b ob) = b"
    and gray_marked: "gray (set_marked b ob) = gray ob"
    and gray_nxt: "aligned a \<Longrightarrow> gray (set_nxt a ob) = gray ob"
begin

lemmas tag_laws = nxt_marked nxt_gray marked_set marked_gray gray_set gray_marked

lemma relink: "nxt (set_nxt (nxt ob') ob) = nxt ob'" "marked (set_nxt (nxt ob') ob) = marked ob" "gray (set_nxt (nxt ob') ob) = gray ob"
  using nxt_aligned by (simp_all add: nxt_set marked_nxt gray_nxt)

end

definition tag_aligned :: "u64 \<Rightarrow> bool" where
  "tag_aligned a \<longleftrightarrow> a AND WAH_GC_TAG_MASK = 0"

lemma tag_bits: "bit (1 :: u64) n \<longleftrightarrow> n = 0" "bit (2 :: u64) n \<longleftrightarrow> n = 1" "bit (3 :: u64) n \<longleftrightarrow> n < 2"
proof -
  show "bit (1 :: u64) n \<longleftrightarrow> n = 0" by (simp add: bit_1_iff)
  show "bit (2 :: u64) n \<longleftrightarrow> n = 1" using bit_exp_iff [of 1 n, where ?'a = "64 word"] by auto
  show "bit (3 :: u64) n \<longleftrightarrow> n < 2" using bit_mask_iff [of 2 n, where ?'a = "64 word"] by (auto simp: mask_eq_exp_minus_1)
qed

lemma and_zero_bits: "(a AND b :: u64) = 0 \<longleftrightarrow> (\<forall>n. \<not> (bit a n \<and> bit b n))"
proof
  assume z: "a AND b = 0"
  show "\<forall>n. \<not> (bit a n \<and> bit b n)"
  proof
    fix n
    have "\<not> bit (a AND b) n" unfolding z by simp
    then show "\<not> (bit a n \<and> bit b n)" by (simp add: bit_and_iff)
  qed
qed (simp add: bit_eq_iff bit_and_iff)

lemma header_bits:
  "wah_gc_marked ob \<longleftrightarrow> bit (go_next_tagged ob) 0" "wah_gc_gray ob \<longleftrightarrow> bit (go_next_tagged ob) 1"
  "tag_aligned a \<longleftrightarrow> \<not> bit a 0 \<and> \<not> bit a 1"
  unfolding wah_gc_marked_def wah_gc_gray_def tag_aligned_def and_zero_bits tag_bits less_2_cases_iff by (auto intro: gr0I)

lemma flag_bits:
  "bit (x OR 1 :: u64) n \<longleftrightarrow> n = 0 \<or> bit x n" "bit (x AND NOT 1 :: u64) n \<longleftrightarrow> n \<noteq> 0 \<and> bit x n"
  "bit (x OR 2 :: u64) n \<longleftrightarrow> n = 1 \<or> bit x n" "bit (x AND NOT 2 :: u64) n \<longleftrightarrow> n \<noteq> 1 \<and> bit x n"
  "bit (x AND NOT 3 :: u64) n \<longleftrightarrow> 2 \<le> n \<and> bit x n"
  unfolding bit_or_iff bit_and_iff bit_not_iff tag_bits by (auto dest: bit_imp_le_length simp: impossible_bit)

lemma link_bits:
  "bit (wah_gc_next ob) n \<longleftrightarrow> 2 \<le> n \<and> bit (go_next_tagged ob) n"
  "bit (go_next_tagged (wah_gc_set_next a ob)) n \<longleftrightarrow> bit a n \<or> n < 2 \<and> bit (go_next_tagged ob) n"
  "bit (go_next_tagged (wah_gc_set_mark b ob)) n \<longleftrightarrow> (if n = 0 then b else bit (go_next_tagged ob) n)"
  "bit (go_next_tagged (wah_gc_set_gray b ob)) n \<longleftrightarrow> (if n = 1 then b else bit (go_next_tagged ob) n)"
proof -
  show "bit (wah_gc_next ob) n \<longleftrightarrow> 2 \<le> n \<and> bit (go_next_tagged ob) n"
    unfolding wah_gc_next_def by (rule flag_bits)
  have "go_next_tagged (wah_gc_set_next a ob) = a OR (go_next_tagged ob AND 3)" by (simp add: wah_gc_set_next_def)
  then show "bit (go_next_tagged (wah_gc_set_next a ob)) n \<longleftrightarrow> bit a n \<or> n < 2 \<and> bit (go_next_tagged ob) n"
    using tag_bits(3) [of n] by (auto simp only: bit_or_iff bit_and_iff)
  have "go_next_tagged (wah_gc_set_mark b ob) = (if b then go_next_tagged ob OR 1 else go_next_tagged ob AND NOT 1)"
    by (simp add: wah_gc_set_mark_def)
  then show "bit (go_next_tagged (wah_gc_set_mark b ob)) n \<longleftrightarrow> (if n = 0 then b else bit (go_next_tagged ob) n)"
    using flag_bits(1,2) [of "go_next_tagged ob" n] by (cases b) (simp_all only: if_True if_False split: if_splits, auto)
  have "go_next_tagged (wah_gc_set_gray b ob) = (if b then go_next_tagged ob OR 2 else go_next_tagged ob AND NOT 2)"
    by (simp add: wah_gc_set_gray_def)
  then show "bit (go_next_tagged (wah_gc_set_gray b ob)) n \<longleftrightarrow> (if n = 1 then b else bit (go_next_tagged ob) n)"
    using flag_bits(3,4) [of "go_next_tagged ob" n] by (cases b) (simp_all only: if_True if_False split: if_splits, auto)
qed

lemma aligned_next: "\<not> bit a 0 \<Longrightarrow> \<not> bit a (Suc 0) \<Longrightarrow> bit (a :: u64) n \<Longrightarrow> 2 \<le> n"
  by (cases n; cases "n - 1") auto

interpretation hdr: tagged_link wah_gc_next wah_gc_set_next tag_aligned wah_gc_marked wah_gc_set_mark wah_gc_gray wah_gc_set_gray
  by unfold_locales
    (auto simp: header_bits link_bits intro!: bit_eqI intro: aligned_next)

lemmas hdr_simps [simp] = hdr.tag_laws hdr.relink

text \<open>Objects that differ in their flags only, and memories of such objects.\<close>

definition same_but_flags :: "wah_gc_object \<Rightarrow> wah_gc_object \<Rightarrow> bool" where
  "same_but_flags ob ob' \<longleftrightarrow> wah_gc_next ob' = wah_gc_next ob \<and> ob'\<lparr>go_next_tagged := 0\<rparr> = ob\<lparr>go_next_tagged := 0\<rparr>"

definition flags_only :: "objects \<Rightarrow> objects \<Rightarrow> bool" where
  "flags_only objs objs' \<longleftrightarrow> (\<forall>x. rel_option same_but_flags (objs x) (objs' x))"

lemma same_but_flags_refl [simp]: "same_but_flags ob ob"
  by (simp add: same_but_flags_def)

lemma same_but_flags_trans: "same_but_flags a b \<Longrightarrow> same_but_flags b c \<Longrightarrow> same_but_flags a c"
  by (simp add: same_but_flags_def)

lemma same_but_flags_set [simp]:
  "same_but_flags ob (wah_gc_set_mark b ob') \<longleftrightarrow> same_but_flags ob ob'" "same_but_flags ob (wah_gc_set_gray b ob') \<longleftrightarrow> same_but_flags ob ob'"
proof -
  have "(wah_gc_set_mark b ob')\<lparr>go_next_tagged := 0\<rparr> = ob'\<lparr>go_next_tagged := 0\<rparr>" "(wah_gc_set_gray b ob')\<lparr>go_next_tagged := 0\<rparr> = ob'\<lparr>go_next_tagged := 0\<rparr>"
    by (simp_all add: wah_gc_set_mark_def wah_gc_set_gray_def)
  then show "same_but_flags ob (wah_gc_set_mark b ob') \<longleftrightarrow> same_but_flags ob ob'" "same_but_flags ob (wah_gc_set_gray b ob') \<longleftrightarrow> same_but_flags ob ob'"
    by (simp_all add: same_but_flags_def)
qed

lemma same_but_flags_fields:
  assumes "same_but_flags ob ob'"
  shows "wah_gc_next ob' = wah_gc_next ob" "go_repr_id ob' = go_repr_id ob" "go_size_bytes ob' = go_size_bytes ob"
    "go_module ob' = go_module ob" "go_payload ob' = go_payload ob"
proof -
  from assms have n: "wah_gc_next ob' = wah_gc_next ob" and e: "ob'\<lparr>go_next_tagged := 0\<rparr> = ob\<lparr>go_next_tagged := 0\<rparr>"
    by (simp_all add: same_but_flags_def)
  show "wah_gc_next ob' = wah_gc_next ob" by (rule n)
  show "go_repr_id ob' = go_repr_id ob" "go_size_bytes ob' = go_size_bytes ob" "go_module ob' = go_module ob" "go_payload ob' = go_payload ob"
    using e by (cases ob; cases ob'; simp)+
qed

lemma flags_only_refl [simp]: "flags_only objs objs"
  by (simp add: flags_only_def option.rel_refl)

lemma flags_only_trans: "flags_only a b \<Longrightarrow> flags_only b c \<Longrightarrow> flags_only a c"
  unfolding flags_only_def by (metis (no_types, opaque_lifting) option.rel_cases option.rel_inject(2) option.simps(3) same_but_flags_trans)

lemma flags_onlyD:
  assumes "flags_only objs objs'"
  shows "objs x = Some ob \<Longrightarrow> \<exists>ob'. objs' x = Some ob' \<and> same_but_flags ob ob'" "dom objs' = dom objs"
    "objs' x = Some ob' \<Longrightarrow> \<exists>ob. objs x = Some ob \<and> same_but_flags ob ob'"
proof -
  have r: "rel_option same_but_flags (objs y) (objs' y)" for y using assms by (simp add: flags_only_def)
  show "objs x = Some ob \<Longrightarrow> \<exists>ob'. objs' x = Some ob' \<and> same_but_flags ob ob'" using r [of x] by (auto elim: option.rel_cases)
  show "objs' x = Some ob' \<Longrightarrow> \<exists>ob. objs x = Some ob \<and> same_but_flags ob ob'" using r [of x] by (auto elim: option.rel_cases)
  show "dom objs' = dom objs" using r by (force simp: dom_def elim: option.rel_cases)
qed

lemma flags_only_upd: "objs x = Some ob \<Longrightarrow> same_but_flags ob ob' \<Longrightarrow> flags_only objs (objs(x \<mapsto> ob'))"
  by (simp add: flags_only_def option.rel_refl)

lemma flags_only_change: "flags_only objs0 objs \<Longrightarrow> objs x = Some ob \<Longrightarrow> same_but_flags ob ob' \<Longrightarrow> flags_only objs0 (objs(x \<mapsto> ob'))"
  using flags_only_trans [of objs0 objs "objs(x \<mapsto> ob')"] flags_only_upd [of objs x ob ob'] by blast

lemma same_but_flags_refs: "same_but_flags ob ob' \<Longrightarrow> object_refs m ob' = object_refs m ob"
  unfolding object_refs_def by (simp only: same_but_flags_fields)

section \<open>Chains of objects\<close>

primrec obj_list :: "objects \<Rightarrow> u64 \<Rightarrow> u64 list \<Rightarrow> bool" where
  "obj_list objs p [] \<longleftrightarrow> p = 0"
| "obj_list objs p (x # xs) \<longleftrightarrow> p = x \<and> x \<noteq> 0 \<and> (\<exists>ob. objs x = Some ob \<and> obj_list objs (wah_gc_next ob) xs)"

lemma obj_list_dom: "obj_list objs p xs \<Longrightarrow> set xs \<subseteq> dom objs"
  by (induction xs arbitrary: p) auto

lemma obj_list_flags: "flags_only objs objs' \<Longrightarrow> obj_list objs p xs \<Longrightarrow> obj_list objs' p xs"
proof (induction xs arbitrary: p)
  case (Cons x xs)
  then show ?case using flags_onlyD(1) [of objs objs' x] by (fastforce dest: same_but_flags_fields(1))
qed simp

lemma fold_opt_ok:
  assumes "\<And>x xs s. P (x # xs) s \<Longrightarrow> \<exists>s'. f x s = Some s' \<and> P xs s'" and "P xs s"
  shows "\<exists>s'. fold_opt f xs s = Some s' \<and> P [] s'"
  using assms(2)
proof (induction xs arbitrary: s)
  case (Cons x xs)
  from assms(1) [OF Cons.prems] obtain s' where "f x s = Some s'" "P xs s'" by blast
  with Cons.IH [of s'] show ?case by simp
qed simp

lemma fold_opt_append: "fold_opt f (xs @ ys) s = Option.bind (fold_opt f xs s) (fold_opt f ys)"
  by (induction xs arbitrary: s) (auto split: bind_splits)

text \<open>A loop over a chain whose body changes flags only is a loop over its list.\<close>

lemma for_objects_list:
  assumes flags: "\<And>x s s'. body x s = Some s' \<Longrightarrow> flags_only (objs s) (objs s')"
  shows "obj_list (objs s) p xs \<Longrightarrow> for_objects body objs p s = fold_opt body xs s"
proof (induction xs arbitrary: p s)
  case Nil
  then show ?case by (subst for_objects.simps) simp
next
  case (Cons x xs)
  then obtain ob where ob: "p = x" "x \<noteq> 0" "objs s x = Some ob" "obj_list (objs s) (wah_gc_next ob) xs" by auto
  show ?case
  proof (cases "body x s")
    case None
    with ob show ?thesis by (subst for_objects.simps) simp
  next
    case (Some s')
    from flags [OF Some] ob(3) obtain ob' where ob': "objs s' x = Some ob'" "wah_gc_next ob' = wah_gc_next ob"
      by (auto dest!: flags_onlyD(1) dest: same_but_flags_fields(1))
    have "obj_list (objs s') (wah_gc_next ob') xs" using obj_list_flags [OF flags [OF Some] ob(4)] ob'(2) by simp
    from Cons.IH [OF this] Some ob ob' show ?thesis by (subst for_objects.simps) simp
  qed
qed

lemma fold_opt_flags:
  assumes "\<And>x s s'. f x s = Some s' \<Longrightarrow> flags_only (objs s) (objs s')"
  shows "fold_opt f xs s = Some s' \<Longrightarrow> flags_only (objs s) (objs s')"
proof (induction xs arbitrary: s)
  case (Cons x xs)
  then obtain t where "f x s = Some t" "fold_opt f xs t = Some s'" by (auto split: bind_splits)
  with Cons.IH [of t] assms show ?case by (blast intro: flags_only_trans)
qed simp

lemma for_chains_list:
  assumes flags: "\<And>x s s'. body x s = Some s' \<Longrightarrow> flags_only (objs s) (objs s')"
  shows "list_all2 (obj_list (objs s)) ps xss \<Longrightarrow> fold_opt (for_objects body objs) ps s = fold_opt body (concat xss) s"
proof (induction ps xss arbitrary: s rule: list_induct2')
  case (2 p ps)
  then show ?case by simp
next
  case (4 p ps xs xss)
  then have one: "for_objects body objs p s = fold_opt body xs s" using for_objects_list [of body objs, OF flags] by simp
  show ?case
  proof (cases "fold_opt body xs s")
    case (Some t)
    have "flags_only (objs s) (objs t)" by (rule fold_opt_flags [of body objs, OF flags Some])
    then have "list_all2 (obj_list (objs t)) ps xss" using "4.prems" by (auto elim!: list_all2_mono intro: obj_list_flags)
    with "4.IH" Some one show ?thesis by (simp add: fold_opt_append)
  qed (simp add: one fold_opt_append)
qed simp_all

section \<open>Reachability\<close>

definition ref_target :: "u64 \<Rightarrow> u64 option" where
  "ref_target r = (if r = 0 \<or> wah_ref_is_i31 r \<or> wah_gc_header r = 0 then None else Some (wah_gc_header r))"

definition refs_at :: "wah_module \<Rightarrow> objects \<Rightarrow> u64 \<Rightarrow> u64 list option" where
  "refs_at m objs x = Option.bind (objs x) (object_refs m)"

definition points_to :: "wah_module \<Rightarrow> objects \<Rightarrow> u64 \<Rightarrow> u64 \<Rightarrow> bool" where
  "points_to m objs x y \<longleftrightarrow> (\<exists>refs r. refs_at m objs x = Some refs \<and> r \<in> set refs \<and> ref_target r = Some y)"

text \<open>The objects that a program can still get at: from a root, through references in objects.\<close>

inductive gc_reachable :: "wah_module \<Rightarrow> objects \<Rightarrow> u64 list \<Rightarrow> u64 \<Rightarrow> bool" for m objs roots where
  root: "r \<in> set roots \<Longrightarrow> ref_target r = Some x \<Longrightarrow> gc_reachable m objs roots x"
| step: "gc_reachable m objs roots x \<Longrightarrow> points_to m objs x y \<Longrightarrow> gc_reachable m objs roots y"

lemma refs_at_flags: "flags_only objs objs' \<Longrightarrow> refs_at m objs' x = refs_at m objs x"
  using flags_onlyD(1,3) [of objs objs' x] by (cases "objs x"; cases "objs' x") (auto simp: refs_at_def dest: same_but_flags_refs)

text \<open>
  What marking needs of the memory: the objects \<open>H\<close> of the heaps of the domain have payloads that fit their
  representation, and a reference in a root or in one of these objects leads to another of them or to the header of a
  function, which has no references.
\<close>

definition leaf :: "wah_module \<Rightarrow> objects \<Rightarrow> u64 \<Rightarrow> bool" where
  "leaf m objs x \<longleftrightarrow> refs_at m objs x = Some []"

definition heap_closed :: "wah_module \<Rightarrow> objects \<Rightarrow> u64 set \<Rightarrow> u64 list \<Rightarrow> bool" where
  "heap_closed m objs H roots \<longleftrightarrow> finite (dom objs)
     \<and> (\<forall>x \<in> H. refs_at m objs x \<noteq> None)
     \<and> (\<forall>x \<in> H. \<forall>y. points_to m objs x y \<longrightarrow> y \<in> H \<or> leaf m objs y)
     \<and> (\<forall>r \<in> set roots. \<forall>y. ref_target r = Some y \<longrightarrow> y \<in> H \<or> leaf m objs y)"

lemma refs_at_dom: "refs_at m objs x \<noteq> None \<Longrightarrow> x \<in> dom objs"
  by (cases "objs x") (auto simp: refs_at_def)

section \<open>Marking\<close>

definition marked_at :: "objects \<Rightarrow> u64 \<Rightarrow> bool" where
  "marked_at objs x \<longleftrightarrow> (\<exists>ob. objs x = Some ob \<and> wah_gc_marked ob)"

definition gray_at :: "objects \<Rightarrow> u64 \<Rightarrow> bool" where
  "gray_at objs x \<longleftrightarrow> (\<exists>ob. objs x = Some ob \<and> wah_gc_gray ob)"

lemma marked_at_upd [simp]:
  "marked_at (objs(x \<mapsto> ob)) y \<longleftrightarrow> (if y = x then wah_gc_marked ob else marked_at objs y)"
  "gray_at (objs(x \<mapsto> ob)) y \<longleftrightarrow> (if y = x then wah_gc_gray ob else gray_at objs y)"
  by (auto simp: marked_at_def gray_at_def)

text \<open>
  The invariant of marking. \<open>X\<close> are objects whose references are being scanned, \<open>Y\<close> objects that the pass over the
  heaps has yet to visit. A marked object that is neither on the worklist, nor gray, nor being scanned has marked
  successors.
\<close>

definition mark_base :: "wah_module \<Rightarrow> objects \<Rightarrow> u64 set \<Rightarrow> u64 list \<Rightarrow> mark_state \<Rightarrow> bool" where
  "mark_base m objs0 H roots s \<longleftrightarrow> flags_only objs0 (fst s)
     \<and> (\<forall>x \<in> set (wl_items (snd s)). marked_at (fst s) x \<and> (x \<in> H \<or> leaf m objs0 x))
     \<and> (\<forall>x \<in> H. gray_at (fst s) x \<longrightarrow> marked_at (fst s) x)
     \<and> (\<forall>x \<in> H. marked_at (fst s) x \<longrightarrow> gc_reachable m objs0 roots x)"

definition mark_scanned :: "wah_module \<Rightarrow> objects \<Rightarrow> u64 set \<Rightarrow> u64 set \<Rightarrow> mark_state \<Rightarrow> bool" where
  "mark_scanned m objs0 H X s \<longleftrightarrow>
     (\<forall>x \<in> H - X. marked_at (fst s) x \<longrightarrow> x \<notin> set (wl_items (snd s)) \<longrightarrow> \<not> gray_at (fst s) x \<longrightarrow>
        (\<forall>y. points_to m objs0 x y \<longrightarrow> marked_at (fst s) y))"

definition mark_inv :: "wah_module \<Rightarrow> objects \<Rightarrow> u64 set \<Rightarrow> u64 list \<Rightarrow> u64 set \<Rightarrow> u64 set \<Rightarrow> mark_state \<Rightarrow> bool" where
  "mark_inv m objs0 H roots X Y s \<longleftrightarrow> mark_base m objs0 H roots s \<and> mark_scanned m objs0 H X s
     \<and> (\<forall>x \<in> H. gray_at (fst s) x \<longrightarrow> x \<in> Y \<or> wl_overflow (snd s))"

lemma mark_invD:
  assumes "mark_inv m objs0 H roots X Y s"
  shows "flags_only objs0 (fst s)" "x \<in> set (wl_items (snd s)) \<Longrightarrow> marked_at (fst s) x \<and> (x \<in> H \<or> leaf m objs0 x)"
    "x \<in> H \<Longrightarrow> gray_at (fst s) x \<Longrightarrow> marked_at (fst s) x" "x \<in> H \<Longrightarrow> marked_at (fst s) x \<Longrightarrow> gc_reachable m objs0 roots x"
    "x \<in> H \<Longrightarrow> gray_at (fst s) x \<Longrightarrow> x \<in> Y \<or> wl_overflow (snd s)"
    "x \<in> H \<Longrightarrow> x \<notin> X \<Longrightarrow> marked_at (fst s) x \<Longrightarrow> x \<notin> set (wl_items (snd s)) \<Longrightarrow> \<not> gray_at (fst s) x \<Longrightarrow> points_to m objs0 x y \<Longrightarrow> marked_at (fst s) y"
  using assms by (simp_all add: mark_inv_def mark_base_def mark_scanned_def)

lemma mark_inv_scanned:
  assumes "mark_inv m objs0 H roots {x} Y s" "\<And>y. points_to m objs0 x y \<Longrightarrow> marked_at (fst s) y"
  shows "mark_inv m objs0 H roots {} Y s"
proof -
  have "mark_scanned m objs0 H {} s" using assms(2) mark_invD(6) [OF assms(1)] unfolding mark_scanned_def by blast
  then show ?thesis using assms(1) by (simp add: mark_inv_def)
qed

lemma mark_inv_pop:
  assumes "mark_inv m objs0 H roots {} Y (objs, wl)" "wl_items wl = x # items"
  shows "mark_inv m objs0 H roots {x} Y (objs, wl\<lparr>wl_items := items\<rparr>)"
proof -
  have "mark_scanned m objs0 H {x} (objs, wl\<lparr>wl_items := items\<rparr>)"
    unfolding mark_scanned_def using mark_invD(6) [OF assms(1)] assms(2) by (metis Diff_iff empty_iff fst_conv insertCI set_ConsD snd_conv
        wah_gc_worklist.select_convs(1) wah_gc_worklist.surjective wah_gc_worklist.update_convs(1))
  then show ?thesis using assms by (simp add: mark_inv_def mark_base_def)
qed

lemma mark_inv_visited:
  assumes "mark_inv m objs0 H roots {} (set (x # xs)) s" "\<not> gray_at (fst s) x"
  shows "mark_inv m objs0 H roots {} (set xs) s"
proof -
  have "\<forall>y \<in> H. gray_at (fst s) y \<longrightarrow> y \<in> set xs \<or> wl_overflow (snd s)" using mark_invD(5) [OF assms(1)] assms(2) by (metis set_ConsD)
  then show ?thesis using assms(1) by (simp add: mark_inv_def)
qed

lemma mark_inv_ungray:
  assumes inv: "mark_inv m objs0 H roots {} (set (x # xs)) (objs, wl)" and ob: "objs x = Some ob" "wah_gc_marked ob"
  shows "mark_inv m objs0 H roots {x} (set xs) (objs(x \<mapsto> wah_gc_set_gray False ob), wl)"
proof -
  let ?s = "(objs(x \<mapsto> wah_gc_set_gray False ob), wl)"
  have same: "marked_at (fst ?s) y \<longleftrightarrow> marked_at objs y" for y using ob by (simp add: marked_at_def)
  have flags: "flags_only objs0 (fst ?s)"
    using flags_only_change [of objs0 objs x ob "wah_gc_set_gray False ob"] mark_invD(1) [OF inv] ob by simp
  have "mark_base m objs0 H roots ?s" using flags inv same by (simp add: mark_inv_def mark_base_def)
  moreover have "mark_scanned m objs0 H {x} ?s"
    unfolding mark_scanned_def same using mark_invD(6) [OF inv] by simp blast
  moreover have "\<forall>y \<in> H. gray_at (fst ?s) y \<longrightarrow> y \<in> set xs \<or> wl_overflow wl" using mark_invD(5) [OF inv] by auto
  ultimately show ?thesis by (simp add: mark_inv_def)
qed

lemma mark_inv_push:
  assumes inv: "mark_inv m objs0 H roots X Y (objs, wl)" and ob: "objs x = Some ob" "\<not> marked_at objs x"
    and x: "x \<in> H \<or> leaf m objs0 x" "gc_reachable m objs0 roots x" and wl: "wl_items wl' = x # wl_items wl" "wl_overflow wl' = wl_overflow wl"
  shows "mark_inv m objs0 H roots X Y (objs(x \<mapsto> wah_gc_set_mark True ob), wl')"
proof -
  let ?s = "(objs(x \<mapsto> wah_gc_set_mark True ob), wl')"
  have gray: "gray_at (fst ?s) y \<longleftrightarrow> gray_at objs y" for y using ob by (simp add: gray_at_def)
  have flags: "flags_only objs0 (fst ?s)" using flags_only_change [of objs0 objs x ob "wah_gc_set_mark True ob"] mark_invD(1) [OF inv] ob by simp
  have "mark_base m objs0 H roots ?s" using flags inv gray x wl by (simp add: mark_inv_def mark_base_def)
  moreover have "mark_scanned m objs0 H X ?s" unfolding mark_scanned_def gray using mark_invD(6) [OF inv] wl by simp blast
  ultimately show ?thesis using inv gray wl by (simp add: mark_inv_def)
qed

lemma mark_inv_gray:
  assumes inv: "mark_inv m objs0 H roots X Y (objs, wl)" and ob: "objs x = Some ob"
    and x: "gc_reachable m objs0 roots x" and wl: "wl_items wl' = wl_items wl" "wl_overflow wl'"
  shows "mark_inv m objs0 H roots X Y (objs(x \<mapsto> wah_gc_set_gray True (wah_gc_set_mark True ob)), wl')"
proof -
  let ?g = "wah_gc_set_gray True (wah_gc_set_mark True ob)"
  let ?s = "(objs(x \<mapsto> ?g), wl')"
  have flags: "flags_only objs0 (fst ?s)" using flags_only_change [of objs0 objs x ob ?g] mark_invD(1) [OF inv] ob by simp
  have "mark_base m objs0 H roots ?s" using flags inv x wl by (simp add: mark_inv_def mark_base_def)
  moreover have "mark_scanned m objs0 H X ?s" unfolding mark_scanned_def using mark_invD(6) [OF inv] wl by simp blast
  ultimately show ?thesis using wl by (simp add: mark_inv_def)
qed

definition unmarked :: "objects \<Rightarrow> u64 set" where
  "unmarked objs = {x \<in> dom objs. \<not> marked_at objs x}"

definition mark_measure :: "u64 set \<Rightarrow> mark_state \<Rightarrow> nat" where
  "mark_measure H s = 2 * card (unmarked (fst s)) + length (wl_items (snd s)) + card {x \<in> H. gray_at (fst s) x}"

text \<open>The two outcomes of marking an object that is not marked: it goes on the worklist or turns gray.\<close>

lemma mark_object_unmarked:
  assumes "objs x = Some ob" "x \<noteq> 0" "\<not> wah_gc_marked ob"
  shows "\<exists>objs' wl'. wah_gc_mark_object x (objs, wl) = Some (objs', wl')
    \<and> (objs' = objs(x \<mapsto> wah_gc_set_mark True ob) \<and> wl_items wl' = x # wl_items wl \<and> wl_overflow wl' = wl_overflow wl
       \<or> objs' = objs(x \<mapsto> wah_gc_set_gray True (wah_gc_set_mark True ob)) \<and> wl_items wl' = wl_items wl \<and> wl_overflow wl')"
  using assms by (simp add: wah_gc_mark_object_def Let_def)

lemma mark_object_cases:
  assumes "objs x = Some ob" "x \<noteq> 0"
  obtains (same) "marked_at objs x" "wah_gc_mark_object x (objs, wl) = Some (objs, wl)"
  | (push) wl' where "\<not> marked_at objs x" "wah_gc_mark_object x (objs, wl) = Some (objs(x \<mapsto> wah_gc_set_mark True ob), wl')"
      "wl_items wl' = x # wl_items wl" "wl_overflow wl' = wl_overflow wl"
  | (gray) wl' where "\<not> marked_at objs x"
      "wah_gc_mark_object x (objs, wl) = Some (objs(x \<mapsto> wah_gc_set_gray True (wah_gc_set_mark True ob)), wl')"
      "wl_items wl' = wl_items wl" "wl_overflow wl'"
proof (cases "wah_gc_marked ob")
  case True
  with assms same show ?thesis by (simp add: marked_at_def wah_gc_mark_object_def)
next
  case False
  then have "\<not> marked_at objs x" using assms(1) by (simp add: marked_at_def)
  with mark_object_unmarked [where objs = objs and x = x and ob = ob and wl = wl, OF assms False] push gray show ?thesis by blast
qed

lemma unmarked_mark:
  assumes "objs x = Some ob" "\<not> marked_at objs x" "finite (dom objs)" "wah_gc_marked ob'"
  shows "card (unmarked objs) = Suc (card (unmarked (objs(x \<mapsto> ob'))))"
proof -
  have "unmarked objs = insert x (unmarked (objs(x \<mapsto> ob')))" "x \<notin> unmarked (objs(x \<mapsto> ob'))"
    using assms by (auto simp: unmarked_def)
  moreover have "finite (unmarked (objs(x \<mapsto> ob')))" using assms(3) by (auto simp: unmarked_def intro: finite_subset [of _ "insert x (dom objs)"])
  ultimately show ?thesis by simp
qed

lemma gray_card_le:
  assumes "finite H"
  shows "card {y \<in> H. gray_at (objs(x \<mapsto> ob)) y} \<le> Suc (card {y \<in> H. gray_at objs y})"
proof -
  have "{y \<in> H. gray_at (objs(x \<mapsto> ob)) y} \<subseteq> insert x {y \<in> H. gray_at objs y}" by auto
  moreover have "finite (insert x {y \<in> H. gray_at objs y})" using assms by simp
  ultimately have "card {y \<in> H. gray_at (objs(x \<mapsto> ob)) y} \<le> card (insert x {y \<in> H. gray_at objs y})" by (rule card_mono [rotated])
  also have "\<dots> \<le> Suc (card {y \<in> H. gray_at objs y})" by (rule card_insert_le_m1) simp_all
  finally show ?thesis .
qed

text \<open>Marking the target of a reference keeps the invariant and either changes nothing or makes progress.\<close>

definition mark_progress :: "u64 set \<Rightarrow> mark_state \<Rightarrow> mark_state \<Rightarrow> bool" where
  "mark_progress H s s' \<longleftrightarrow> (s' = s \<or> mark_measure H s' < mark_measure H s) \<and> (\<forall>x. marked_at (fst s) x \<longrightarrow> marked_at (fst s') x)"

lemma mark_progress_refl [simp]: "mark_progress H s s"
  by (simp add: mark_progress_def)

lemma mark_progress_trans: "mark_progress H s t \<Longrightarrow> mark_progress H t u \<Longrightarrow> mark_progress H s u"
  by (auto simp: mark_progress_def)

lemma mark_ref_step:
  assumes inv: "mark_inv m objs0 H roots X Y s" and closed: "heap_closed m objs0 H roots"
    and target: "\<And>y. ref_target r = Some y \<Longrightarrow> (y \<in> H \<or> leaf m objs0 y) \<and> gc_reachable m objs0 roots y"
  shows "\<exists>s'. wah_gc_mark_ref r s = Some s' \<and> mark_inv m objs0 H roots X Y s' \<and> mark_progress H s s'
    \<and> (\<forall>y. ref_target r = Some y \<longrightarrow> marked_at (fst s') y)"
proof (cases "ref_target r")
  case None
  then have "wah_gc_mark_ref r s = Some s" by (auto simp: ref_target_def wah_gc_mark_ref_def wah_gc_mark_object_def split: if_splits)
  then show ?thesis using inv None by simp
next
  case (Some x)
  then have x: "x \<noteq> 0" "wah_gc_mark_ref r s = wah_gc_mark_object x s" by (auto simp: ref_target_def wah_gc_mark_ref_def split: if_splits)
  obtain objs wl where s: "s = (objs, wl)" by (cases s)
  have flags: "flags_only objs0 objs" using mark_invD(1) [OF inv] by (simp add: s)
  have fin: "finite (dom objs)" "finite H"
    using closed flags_onlyD(2) [OF flags] by (auto simp: heap_closed_def dest!: refs_at_dom intro: finite_subset [of H "dom objs"])
  have tx: "x \<in> H \<or> leaf m objs0 x" "gc_reachable m objs0 roots x" using target [OF Some] by auto
  have "x \<in> dom objs0" using tx(1) closed refs_at_dom [of m objs0 x] by (auto simp: heap_closed_def leaf_def)
  then obtain ob where ob: "objs x = Some ob" using flags_onlyD(2) [OF flags] by blast
  from ob x(1) show ?thesis
  proof (cases rule: mark_object_cases [where wl = wl])
    case same
    then show ?thesis using inv x Some s by auto
  next
    case (push wl')
    let ?o = "objs(x \<mapsto> wah_gc_set_mark True ob)"
    have "mark_inv m objs0 H roots X Y (?o, wl')" using mark_inv_push [where ob = ob] inv ob push tx by (simp add: s)
    moreover have "card {y \<in> H. gray_at ?o y} = card {y \<in> H. gray_at objs y}"
      using ob by (intro arg_cong [where f = card]) (auto simp: gray_at_def)
    ultimately show ?thesis using push x s Some unmarked_mark [of objs x ob, OF ob push(1) fin(1), of "wah_gc_set_mark True ob"]
      by (auto simp: mark_progress_def mark_measure_def)
  next
    case (gray wl')
    let ?g = "wah_gc_set_gray True (wah_gc_set_mark True ob)"
    have "mark_inv m objs0 H roots X Y (objs(x \<mapsto> ?g), wl')" using mark_inv_gray [where ob = ob] inv ob gray tx by (simp add: s)
    then show ?thesis using gray x s Some unmarked_mark [of objs x ob, OF ob gray(1) fin(1), of ?g] gray_card_le [OF fin(2), of objs x ?g]
      by (auto simp: mark_progress_def mark_measure_def)
  qed
qed

lemma mark_refs_step:
  assumes closed: "heap_closed m objs0 H roots"
    and target: "\<And>r y. r \<in> set refs \<Longrightarrow> ref_target r = Some y \<Longrightarrow> (y \<in> H \<or> leaf m objs0 y) \<and> gc_reachable m objs0 roots y"
    and inv: "mark_inv m objs0 H roots X Y s"
  shows "\<exists>s'. fold_opt wah_gc_mark_ref refs s = Some s' \<and> mark_inv m objs0 H roots X Y s' \<and> mark_progress H s s'
    \<and> (\<forall>r \<in> set refs. \<forall>y. ref_target r = Some y \<longrightarrow> marked_at (fst s') y)"
  using target inv
proof (induction refs arbitrary: s)
  case (Cons r refs)
  from mark_ref_step [OF Cons.prems(2) closed, of r] Cons.prems(1)
  obtain t where t: "wah_gc_mark_ref r s = Some t" "mark_inv m objs0 H roots X Y t" "mark_progress H s t"
    "\<forall>y. ref_target r = Some y \<longrightarrow> marked_at (fst t) y" by force
  from Cons.IH [OF _ t(2)] Cons.prems(1) obtain u where u: "fold_opt wah_gc_mark_ref refs t = Some u" "mark_inv m objs0 H roots X Y u"
    "mark_progress H t u" "\<forall>r \<in> set refs. \<forall>y. ref_target r = Some y \<longrightarrow> marked_at (fst u) y" by force
  then show ?case using t mark_progress_trans [OF t(3) u(3)] by (auto simp: mark_progress_def)
qed simp

lemma scan_object_step:
  assumes closed: "heap_closed m objs0 H roots" and inv: "mark_inv m objs0 H roots {x} Y s"
    and x: "x \<in> H \<or> leaf m objs0 x" "marked_at (fst s) x"
  shows "\<exists>s'. wah_gc_scan_object m x s = Some s' \<and> mark_inv m objs0 H roots {} Y s' \<and> mark_progress H s s'"
proof -
  have flags: "flags_only objs0 (fst s)" and reach: "x \<in> H \<Longrightarrow> gc_reachable m objs0 roots x"
    using mark_invD(1,4) [OF inv] x(2) by simp_all
  obtain refs where refs: "refs_at m objs0 x = Some refs" using x(1) closed by (auto simp: heap_closed_def leaf_def)
  then have scan: "wah_gc_scan_object m x s = fold_opt wah_gc_mark_ref refs s"
    using refs_at_flags [OF flags, of m x] by (cases "fst s x") (auto simp: wah_gc_scan_object_def refs_at_def)
  have target: "(y \<in> H \<or> leaf m objs0 y) \<and> gc_reachable m objs0 roots y" if "r \<in> set refs" "ref_target r = Some y" for r y
  proof -
    have "points_to m objs0 x y" "x \<in> H" using that refs x(1) by (auto simp: points_to_def leaf_def)
    then show ?thesis using closed reach by (auto simp: heap_closed_def intro: gc_reachable.step)
  qed
  from mark_refs_step [OF closed _ inv, of refs] target obtain s' where s': "fold_opt wah_gc_mark_ref refs s = Some s'"
    "mark_inv m objs0 H roots {x} Y s'" "mark_progress H s s'" "\<forall>r \<in> set refs. \<forall>y. ref_target r = Some y \<longrightarrow> marked_at (fst s') y" by blast
  have "mark_inv m objs0 H roots {} Y s'"
    using s'(4) refs by (intro mark_inv_scanned [OF s'(2)]) (auto simp: points_to_def)
  then show ?thesis using s'(1,3) scan by auto
qed

lemma mark_drain_ok:
  assumes closed: "heap_closed m objs0 H roots"
  shows "mark_inv m objs0 H roots {} Y s \<Longrightarrow>
    \<exists>s'. mark_drain m s = Some s' \<and> mark_inv m objs0 H roots {} Y s' \<and> mark_progress H s s' \<and> wl_items (snd s') = []"
proof (induction "mark_measure H s" arbitrary: s rule: less_induct)
  case less
  obtain objs wl where s: "s = (objs, wl)" by (cases s)
  show ?case
  proof (cases "wl_items wl")
    case Nil
    then show ?thesis using less.prems by (subst mark_drain.simps) (simp add: s)
  next
    case (Cons x items)
    let ?s = "(objs, wl\<lparr>wl_items := items\<rparr>)"
    have inv: "mark_inv m objs0 H roots {x} Y ?s" using less.prems Cons by (simp add: s mark_inv_pop)
    have x: "x \<in> H \<or> leaf m objs0 x" "marked_at objs x" using mark_invD(2) [OF less.prems, of x] Cons by (simp_all add: s)
    have pop: "mark_progress H s ?s" using Cons by (simp add: s mark_progress_def mark_measure_def)
    from scan_object_step [OF closed inv x(1)] x(2) obtain t where t: "wah_gc_scan_object m x ?s = Some t"
      "mark_inv m objs0 H roots {} Y t" "mark_progress H ?s t" by auto
    have less': "mark_measure H t < mark_measure H s" using t(3) Cons by (auto simp: s mark_progress_def mark_measure_def)
    from less.hyps [OF less' t(2)] obtain u where "mark_drain m t = Some u" "mark_inv m objs0 H roots {} Y u" "mark_progress H t u"
      "wl_items (snd u) = []" by blast
    moreover have "mark_drain m s = mark_drain m t" using Cons t(1) by (subst mark_drain.simps) (simp add: s)
    ultimately show ?thesis using mark_progress_trans [OF pop mark_progress_trans [OF t(3), of u]] by auto
  qed
qed

lemma scan_if_gray_step:
  assumes closed: "heap_closed m objs0 H roots" and inv: "mark_inv m objs0 H roots {} (set (x # xs)) s" and x: "x \<in> H"
  shows "\<exists>s'. scan_if_gray m x s = Some s' \<and> mark_inv m objs0 H roots {} (set xs) s' \<and> mark_progress H s s'"
proof -
  obtain objs wl where s: "s = (objs, wl)" by (cases s)
  have flags: "flags_only objs0 objs" using mark_invD(1) [OF inv] by (simp add: s)
  have fin: "finite H" using closed by (auto simp: heap_closed_def dest!: refs_at_dom intro: finite_subset [of H "dom objs0"])
  have "x \<in> dom objs0" using closed x refs_at_dom [of m objs0 x] by (auto simp: heap_closed_def)
  then obtain ob where ob: "objs x = Some ob" using flags_onlyD(2) [OF flags] by blast
  show ?thesis
  proof (cases "wah_gc_gray ob")
    case False
    then have "mark_inv m objs0 H roots {} (set xs) s" 
      using ob by (intro mark_inv_visited [OF inv]) (simp add: s gray_at_def)
    then show ?thesis using False ob by (simp add: scan_if_gray_def s)
  next
    case True
    let ?s = "(objs(x \<mapsto> wah_gc_set_gray False ob), wl)"
    have gx: "gray_at objs x" using True ob by (simp add: gray_at_def)
    then have mx: "wah_gc_marked ob" using mark_invD(3) [OF inv, of x] x ob by (simp add: s marked_at_def)
    have same: "marked_at (fst ?s) y \<longleftrightarrow> marked_at objs y" for y using mx ob by (auto simp: marked_at_def)
    have inv': "mark_inv m objs0 H roots {x} (set xs) ?s" using inv ob mx by (simp add: s mark_inv_ungray)
    from scan_object_step [OF closed inv'] x mx obtain t where t: "wah_gc_scan_object m x ?s = Some t"
      "mark_inv m objs0 H roots {} (set xs) t" "mark_progress H ?s t" by auto
    have "{y \<in> H. gray_at objs y} = insert x {y \<in> H. gray_at (fst ?s) y}" using gx x by auto
    then have "card {y \<in> H. gray_at objs y} = Suc (card {y \<in> H. gray_at (fst ?s) y})" using fin by simp
    moreover have "unmarked (fst ?s) = unmarked objs" using same ob by (auto simp: unmarked_def)
    ultimately have "mark_progress H s ?s" using same by (simp add: mark_progress_def mark_measure_def s)
    then show ?thesis using t True ob mark_progress_trans [OF _ t(3)] by (auto simp: scan_if_gray_def s)
  qed
qed

lemma mark_ref_flags: "wah_gc_mark_ref r s = Some s' \<Longrightarrow> flags_only (fst s) (fst s')"
proof (cases "r = 0 \<or> wah_ref_is_i31 r \<or> wah_gc_header r = 0")
  case False
  obtain objs wl where s: "s = (objs, wl)" by (cases s)
  assume "wah_gc_mark_ref r s = Some s'"
  with False have run: "wah_gc_mark_object (wah_gc_header r) (objs, wl) = Some s'" by (simp add: wah_gc_mark_ref_def s)
  then obtain ob where ob: "objs (wah_gc_header r) = Some ob" using False by (auto simp: wah_gc_mark_object_def split: bind_splits)
  have nz: "wah_gc_header r \<noteq> 0" using False by simp
  have set: "flags_only objs (objs(wah_gc_header r \<mapsto> wah_gc_set_mark True ob))"
    "flags_only objs (objs(wah_gc_header r \<mapsto> wah_gc_set_gray True (wah_gc_set_mark True ob)))"
    using ob by (auto intro!: flags_only_upd [of objs "wah_gc_header r" ob])
  from ob nz show ?thesis using run set by (cases rule: mark_object_cases [where wl = wl]) (auto simp: s)
qed (auto simp: wah_gc_mark_ref_def wah_gc_mark_object_def split: if_splits prod.splits)

lemma scan_flags: "wah_gc_scan_object m x s = Some s' \<Longrightarrow> flags_only (fst s) (fst s')"
proof -
  assume "wah_gc_scan_object m x s = Some s'"
  then obtain refs where "fold_opt wah_gc_mark_ref refs s = Some s'" by (auto simp: wah_gc_scan_object_def split: bind_splits)
  then show ?thesis by (rule fold_opt_flags [where objs = fst, rotated]) (rule mark_ref_flags)
qed

lemma scan_if_gray_flags: "scan_if_gray m x s = Some s' \<Longrightarrow> flags_only (fst s) (fst s')"
proof -
  assume run: "scan_if_gray m x s = Some s'"
  then obtain ob where ob: "fst s x = Some ob" by (auto simp: scan_if_gray_def split: bind_splits)
  show ?thesis
  proof (cases "wah_gc_gray ob")
    case True
    have "flags_only (fst s) ((fst s)(x \<mapsto> wah_gc_set_gray False ob))" using flags_only_upd [of "fst s" x ob "wah_gc_set_gray False ob"] ob by simp
    moreover have "flags_only ((fst s)(x \<mapsto> wah_gc_set_gray False ob)) (fst s')"
      using run True ob scan_flags [of m x "((fst s)(x \<mapsto> wah_gc_set_gray False ob), snd s)" s'] by (simp add: scan_if_gray_def)
    ultimately show ?thesis by (rule flags_only_trans)
  qed (use run ob in \<open>simp add: scan_if_gray_def\<close>)
qed

lemma mark_pass_ok:
  assumes closed: "heap_closed m objs0 H roots" and chains: "list_all2 (obj_list objs0) heads xss" and H: "H = set (concat xss)"
    and inv: "mark_inv m objs0 H roots {} H s"
  shows "\<exists>s'. fold_opt (for_objects (scan_if_gray m) fst) heads s = Some s' \<and> mark_inv m objs0 H roots {} {} s' \<and> mark_progress H s s'"
proof -
  have "flags_only objs0 (fst s)" by (rule mark_invD(1) [OF inv])
  then have "list_all2 (obj_list (fst s)) heads xss" using chains by (auto elim!: list_all2_mono intro: obj_list_flags)
  then have eq: "fold_opt (for_objects (scan_if_gray m) fst) heads s = fold_opt (scan_if_gray m) (concat xss) s"
    by (rule for_chains_list [where objs = fst, rotated]) (rule scan_if_gray_flags)
  let ?P = "\<lambda>rem t. set rem \<subseteq> H \<and> mark_inv m objs0 H roots {} (set rem) t \<and> mark_progress H s t"
  have "\<exists>s'. fold_opt (scan_if_gray m) (concat xss) s = Some s' \<and> ?P [] s'"
  proof (rule fold_opt_ok)
    show "?P (concat xss) s" using inv H by simp
    show "\<exists>s'. scan_if_gray m x t = Some s' \<and> ?P xs s'" if "?P (x # xs) t" for x xs t
      using that scan_if_gray_step [OF closed, of x xs t] mark_progress_trans [of H s t] by auto
  qed
  then show ?thesis using eq by auto
qed

lemma mark_loop_ok:
  assumes closed: "heap_closed m objs0 H roots" and chains: "list_all2 (obj_list objs0) heads xss" and H: "H = set (concat xss)"
  shows "mark_inv m objs0 H roots {} {} s \<Longrightarrow> \<exists>s'. mark_loop m heads s = Some s' \<and> mark_inv m objs0 H roots {} {} s'
    \<and> wl_items (snd s') = [] \<and> \<not> wl_overflow (snd s') \<and> (\<forall>x. marked_at (fst s) x \<longrightarrow> marked_at (fst s') x)"
proof (induction "mark_measure H s" arbitrary: s rule: less_induct)
  case less
  from mark_drain_ok [OF closed less.prems] obtain t where t: "mark_drain m s = Some t" "mark_inv m objs0 H roots {} {} t"
    "mark_progress H s t" "wl_items (snd t) = []" by blast
  show ?case
  proof (cases "wl_overflow (snd t)")
    case False
    then show ?thesis using t by (subst mark_loop.simps) (auto simp: mark_progress_def)
  next
    case True
    let ?t = "(fst t, (snd t)\<lparr>wl_overflow := False\<rparr>)"
    have inv: "mark_inv m objs0 H roots {} H ?t" using t(2) by (simp add: mark_inv_def mark_base_def mark_scanned_def)
    have same: "mark_measure H ?t = mark_measure H t" by (simp add: mark_measure_def)
    from mark_pass_ok [OF closed chains H inv] obtain u where u: "fold_opt (for_objects (scan_if_gray m) fst) heads ?t = Some u"
      "mark_inv m objs0 H roots {} {} u" "mark_progress H ?t u" by blast
    have loop: "mark_loop m heads s = mark_loop m heads u" using t(1) True u(1) by (subst mark_loop.simps) simp
    have mono: "marked_at (fst s) x \<longrightarrow> marked_at (fst u) x" for x using t(3) u(3) by (auto simp: mark_progress_def)
    show ?thesis
    proof (cases "u = ?t")
      case True
      then have "mark_loop m heads u = Some u" using t(4) by (subst mark_loop.simps, subst mark_drain.simps) simp
      then show ?thesis using loop u(2) mono True t(4) by simp
    next
      case False
      then have "mark_measure H u < mark_measure H s" using u(3) t(3) same by (auto simp: mark_progress_def)
      from less.hyps [OF this u(2)] show ?thesis using loop mono by auto
    qed
  qed
qed

text \<open>When nothing is pending, the marked objects are the reachable ones.\<close>

lemma marks_exact:
  assumes closed: "heap_closed m objs0 H roots" and inv: "mark_inv m objs0 H roots {} {} s"
    and idle: "wl_items (snd s) = []" "\<not> wl_overflow (snd s)" and rooted: "\<forall>r \<in> set roots. \<forall>y. ref_target r = Some y \<longrightarrow> marked_at (fst s) y"
    and x: "x \<in> H"
  shows "marked_at (fst s) x \<longleftrightarrow> gc_reachable m objs0 roots x"
proof
  assume "marked_at (fst s) x"
  then show "gc_reachable m objs0 roots x" using mark_invD(4) [OF inv x] by simp
next
  have "(y \<in> H \<or> leaf m objs0 y) \<and> marked_at (fst s) y" if "gc_reachable m objs0 roots y" for y
    using that
  proof induction
    case (root r y)
    then show ?case using rooted closed by (auto simp: heap_closed_def)
  next
    case (step y z)
    then have "y \<in> H" by (auto simp: leaf_def points_to_def)
    moreover have "\<not> gray_at (fst s) y" using mark_invD(5) [OF inv \<open>y \<in> H\<close>] idle by auto
    ultimately have "marked_at (fst s) z" using mark_invD(6) [OF inv \<open>y \<in> H\<close>] step idle by simp
    then show ?case using closed \<open>y \<in> H\<close> step(2) by (auto simp: heap_closed_def)
  qed
  then show "gc_reachable m objs0 roots x \<Longrightarrow> marked_at (fst s) x" by blast
qed

section \<open>The domain\<close>

definition linked_to :: "wah_world \<Rightarrow> nat \<Rightarrow> nat \<Rightarrow> bool" where
  "linked_to w i j \<longleftrightarrow> (let c = w_ctxs w i in
     (\<exists>lm \<in> set (ec_linked_modules c). lm_ctx lm = Some j) \<or> j \<in> set (ec_dependents c)
     \<or> (\<exists>h. ec_gc c = Some h \<and> j \<in> set (gc_gc_dependents (w_heaps w h))))"

lemma linked_to_neighbour: "linked_to w i j \<longleftrightarrow> Some j \<in> set (domain_neighbours w i)"
  by (auto simp: linked_to_def domain_neighbours_def Let_def split: option.splits) (metis image_eqI)+

definition link_domain :: "wah_world \<Rightarrow> nat \<Rightarrow> nat set" where
  "link_domain w i = {j. (linked_to w)\<^sup>*\<^sup>* i j}"

lemma domain_add_ok:
  assumes "wah_gc_domain_add c s = Inr s'" "distinct (fst s)" "length (fst s) \<le> 8 \<longrightarrow> fst (snd s) = 8"
  shows "distinct (fst s') \<and> prefix (fst s) (fst s') \<and> set (fst s') = set (fst s) \<union> set_option c
    \<and> (length (fst s') \<le> 8 \<longrightarrow> fst (snd s') = 8)"
  using assms by (auto simp: wah_gc_domain_add_def WAH_ENSURE_def word_le_nat_alt unat_of_nat split: option.splits prod.splits if_splits)

lemma domain_adds_ok:
  "fold_res wah_gc_domain_add cs s = Inr s' \<Longrightarrow> distinct (fst s) \<Longrightarrow> length (fst s) \<le> 8 \<longrightarrow> fst (snd s) = 8 \<Longrightarrow>
    distinct (fst s') \<and> prefix (fst s) (fst s') \<and> set (fst s') = set (fst s) \<union> {c. Some c \<in> set cs} \<and> (length (fst s') \<le> 8 \<longrightarrow> fst (snd s') = 8)"
proof (induction cs arbitrary: s)
  case (Cons c cs)
  then obtain t where t: "wah_gc_domain_add c s = Inr t" "fold_res wah_gc_domain_add cs t = Inr s'" by (auto simp: res_simps)
  note a = domain_add_ok [OF t(1) Cons.prems(2,3)]
  have "distinct (fst s') \<and> prefix (fst t) (fst s') \<and> set (fst s') = set (fst t) \<union> {c. Some c \<in> set cs} \<and> (length (fst s') \<le> 8 \<longrightarrow> fst (snd s') = 8)"
    using a by (intro Cons.IH [OF t(2)]) auto
  then show ?case using a prefix_order.trans [of "fst s" "fst t" "fst s'"] by (cases c) auto
qed simp

lemma domain_add_room:
  assumes "length (fst s) \<le> 7 \<or> set_option c \<subseteq> set (fst s)" "length (fst s) \<le> 8 \<longrightarrow> fst (snd s) = 8"
  shows "\<exists>s'. wah_gc_domain_add c s = Inr s'"
proof (cases c)
  case (Some j)
  obtain d cap grants where s: "s = (d, cap, grants)" by (cases s)
  have "\<not> (8 :: u32) \<le> of_nat (length d)" if "length d \<le> 7" using that by (simp add: word_le_nat_alt unat_of_nat)
  then show ?thesis using assms by (auto simp: wah_gc_domain_add_def Some s)
qed (cases s, simp add: wah_gc_domain_add_def)

lemma domain_adds_room:
  assumes "finite R" "card R \<le> 8"
  shows "set (fst s) \<subseteq> R \<Longrightarrow> {c. Some c \<in> set cs} \<subseteq> R \<Longrightarrow> distinct (fst s) \<Longrightarrow> length (fst s) \<le> 8 \<longrightarrow> fst (snd s) = 8 \<Longrightarrow>
    \<exists>s'. fold_res wah_gc_domain_add cs s = Inr s'"
proof (induction cs arbitrary: s)
  case Nil
  show ?case by (cases s) simp
next
  case (Cons c cs)
  have "length (fst s) \<le> 7 \<or> set_option c \<subseteq> set (fst s)"
  proof (rule ccontr)
    assume "\<not> ?thesis"
    then obtain j where "c = Some j" "j \<notin> set (fst s)" "8 \<le> length (fst s)" by (cases c) auto
    moreover have "insert j (set (fst s)) \<subseteq> R" using Cons.prems(1,2) \<open>c = Some j\<close> by auto
    ultimately have "9 \<le> card R" using card_mono [OF assms(1), of "insert j (set (fst s))"] Cons.prems(3) by (simp add: distinct_card)
    then show False using assms(2) by simp
  qed
  then obtain t where t: "wah_gc_domain_add c s = Inr t" using domain_add_room Cons.prems(4) by blast
  note a = domain_add_ok [OF t Cons.prems(3,4)]
  have "set_option c \<subseteq> R" using Cons.prems(2) by (cases c) auto
  then have "\<exists>s'. fold_res wah_gc_domain_add cs t = Inr s'" using a Cons.prems(1,2) by (intro Cons.IH) auto
  then show ?case using t by simp
qed

definition domain_inv :: "wah_world \<Rightarrow> nat \<Rightarrow> nat \<Rightarrow> domain_state \<Rightarrow> bool" where
  "domain_inv w i k s \<longleftrightarrow> distinct (fst s) \<and> i \<in> set (fst s) \<and> set (fst s) \<subseteq> link_domain w i
     \<and> (\<forall>x \<in> set (take k (fst s)). \<forall>j. linked_to w x j \<longrightarrow> j \<in> set (fst s)) \<and> (length (fst s) \<le> 8 \<longrightarrow> fst (snd s) = 8)"

lemma link_domain_step: "x \<in> link_domain w i \<Longrightarrow> linked_to w x j \<Longrightarrow> j \<in> link_domain w i"
  by (auto simp: link_domain_def)

lemma domain_inv_step:
  assumes inv: "domain_inv w i k s" and k: "k < length (fst s)"
    and run: "fold_res wah_gc_domain_add (domain_neighbours w (fst s ! k)) s = Inr s'"
  shows "domain_inv w i (k + 1) s'"
proof -
  let ?x = "fst s ! k"
  have a: "distinct (fst s')" "prefix (fst s) (fst s')" "set (fst s') = set (fst s) \<union> {j. linked_to w ?x j}"
    "length (fst s') \<le> 8 \<longrightarrow> fst (snd s') = 8"
    using domain_adds_ok [OF run] inv by (simp_all add: domain_inv_def linked_to_neighbour)
  have "take (k + 1) (fst s') = take k (fst s) @ [?x]" using a(2) k by (auto simp: prefix_def take_Suc_conv_app_nth nth_append)
  moreover have "?x \<in> link_domain w i" using inv k by (auto simp: domain_inv_def)
  ultimately show ?thesis using inv a by (auto simp: domain_inv_def intro: link_domain_step)
qed

lemma domain_length:
  assumes "domain_inv w i k s" "finite (link_domain w i)"
  shows "length (fst s) \<le> card (link_domain w i)"
  using assms card_mono [of "link_domain w i" "set (fst s)"] by (simp add: domain_inv_def distinct_card)

lemma domain_loop_ok:
  assumes fin: "finite (link_domain w i)"
  shows "domain_inv w i k s \<Longrightarrow> \<exists>r. domain_loop (domain_neighbours w) k s = Some r \<and> (\<forall>s'. r = Inr s' \<longrightarrow> domain_inv w i (length (fst s')) s')
    \<and> (card (link_domain w i) \<le> 8 \<longrightarrow> (\<exists>s'. r = Inr s'))"
proof (induction "card (link_domain w i) - k" arbitrary: k s rule: less_induct)
  case less
  show ?case
  proof (cases "k < length (fst s)")
    case False
    then have "domain_inv w i (length (fst s)) s" using less.prems by (simp add: domain_inv_def)
    then show ?thesis using False by (cases s; subst domain_loop.simps) simp
  next
    case True
    let ?adds = "fold_res wah_gc_domain_add (domain_neighbours w (fst s ! k)) s"
    show ?thesis
    proof (cases ?adds)
      case (Inl e)
      have "fst s ! k \<in> link_domain w i" using less.prems True by (auto simp: domain_inv_def)
      then have "{c. Some c \<in> set (domain_neighbours w (fst s ! k))} \<subseteq> link_domain w i"
        using link_domain_step [of "fst s ! k" w i] by (auto simp: linked_to_neighbour)
      then have "\<not> card (link_domain w i) \<le> 8"
        using domain_adds_room [OF fin, of s "domain_neighbours w (fst s ! k)"] less.prems Inl by (auto simp: domain_inv_def)
      then show ?thesis using Inl True by (subst domain_loop.simps) simp
    next
      case (Inr t)
      have inv: "domain_inv w i (k + 1) t" by (rule domain_inv_step [OF less.prems True Inr])
      have "card (link_domain w i) - (k + 1) < card (link_domain w i) - k" using True domain_length [OF less.prems fin] by simp
      from less.hyps [OF this inv] have IH: "\<exists>r. domain_loop (domain_neighbours w) (k + 1) t = Some r \<and> (\<forall>s'. r = Inr s' \<longrightarrow> domain_inv w i (length (fst s')) s')
        \<and> (card (link_domain w i) \<le> 8 \<longrightarrow> (\<exists>s'. r = Inr s'))" .
      have "domain_loop (domain_neighbours w) k s = domain_loop (domain_neighbours w) (k + 1) t" using True Inr by (subst domain_loop.simps) simp
      then show ?thesis using IH by simp
    qed
  qed
qed

lemma domain_inv_complete:
  assumes "domain_inv w i (length (fst s)) s"
  shows "set (fst s) = link_domain w i"
proof
  show "link_domain w i \<subseteq> set (fst s)"
  proof
    fix j
    assume "j \<in> link_domain w i"
    then have "(linked_to w)\<^sup>*\<^sup>* i j" by (simp add: link_domain_def)
    then show "j \<in> set (fst s)" using assms by (induction rule: rtranclp_induct) (auto simp: domain_inv_def)
  qed
qed (use assms in \<open>simp add: domain_inv_def\<close>)

lemma collect_domain_ok:
  assumes "finite (link_domain w i)"
  shows "\<exists>r. wah_gc_collect_domain w i grants = Some r \<and> (\<forall>d c g. r = Inr (d, c, g) \<longrightarrow> distinct d \<and> set d = link_domain w i)
    \<and> (card (link_domain w i) \<le> 8 \<longrightarrow> (\<exists>s'. r = Inr s'))"
proof -
  have start: "wah_gc_domain_add (Some i) ([], 8, grants) = Inr ([i], 8, grants)" by (simp add: wah_gc_domain_add_def)
  have "domain_inv w i 0 ([i], 8, grants)" by (simp add: domain_inv_def link_domain_def)
  from domain_loop_ok [OF assms this] obtain r where r: "domain_loop (domain_neighbours w) 0 ([i], 8, grants) = Some r"
    "\<forall>s'. r = Inr s' \<longrightarrow> domain_inv w i (length (fst s')) s'" "card (link_domain w i) \<le> 8 \<longrightarrow> (\<exists>s'. r = Inr s')" by blast
  have "distinct d \<and> set d = link_domain w i" if "r = Inr (d, c, g)" for d c g
    using that r(2) domain_inv_complete [of w i "(d, c, g)"] by (simp add: domain_inv_def)
  then show ?thesis using start r(1,3) by (auto simp: wah_gc_collect_domain_def)
qed

section \<open>The mark phase\<close>

lemma clear_tags_flags: "clear_tags x objs = Some objs' \<Longrightarrow> flags_only objs objs'"
  by (auto simp: clear_tags_def split: bind_splits intro!: flags_only_upd)

lemma clear_ok:
  assumes chains: "list_all2 (obj_list objs) heads xss"
  shows "\<exists>objs'. fold_opt (for_objects clear_tags id) heads objs = Some objs' \<and> flags_only objs objs'
    \<and> (\<forall>x \<in> set (concat xss). \<not> marked_at objs' x \<and> \<not> gray_at objs' x)"
proof -
  have eq: "fold_opt (for_objects clear_tags id) heads objs = fold_opt clear_tags (concat xss) objs"
    by (rule for_chains_list [where objs = id]) (use chains clear_tags_flags in auto)
  have dom: "set (concat xss) \<subseteq> dom objs"
    using chains by (induction rule: list_all2_induct) (use obj_list_dom in auto)
  let ?P = "\<lambda>rem t. set rem \<subseteq> dom objs \<and> flags_only objs t \<and> (\<forall>x \<in> set (concat xss). x \<notin> set rem \<longrightarrow> \<not> marked_at t x \<and> \<not> gray_at t x)"
  have "\<exists>t. fold_opt clear_tags (concat xss) objs = Some t \<and> ?P [] t"
  proof (rule fold_opt_ok)
    show "?P (concat xss) objs" using dom by simp
    show "\<exists>t'. clear_tags x t = Some t' \<and> ?P xs t'" if P: "?P (x # xs) t" for x xs t
    proof -
      from P have "x \<in> dom t" using flags_onlyD(2) [of objs t] by simp
      then obtain ob where ob: "t x = Some ob" by blast
      then have run: "clear_tags x t = Some (t(x \<mapsto> wah_gc_set_gray False (wah_gc_set_mark False ob)))" by (simp add: clear_tags_def)
      show ?thesis using P ob by (auto simp: run intro: flags_only_change)
    qed
  qed
  then show ?thesis using eq by auto
qed

text \<open>Well-formed heaps: the objects of a heap form a list, and its counters count them.\<close>

definition size_at :: "objects \<Rightarrow> u64 \<Rightarrow> u64" where
  "size_at objs x = of_nat (go_size_bytes (the (objs x)))"

definition exn_at :: "objects \<Rightarrow> u64 \<Rightarrow> bool" where
  "exn_at objs x \<longleftrightarrow> go_repr_id (the (objs x)) = WAH_TYPE_EXN"

definition heap_wf :: "wah_world \<Rightarrow> nat \<Rightarrow> u64 list \<Rightarrow> bool" where
  "heap_wf w h xs \<longleftrightarrow> tag_aligned (gc_all_objects (w_heaps w h)) \<and> obj_list (w_objects w) (gc_all_objects (w_heaps w h)) xs
     \<and> gc_object_count (w_heaps w h) = of_nat (length xs)
     \<and> gc_allocated_bytes (w_heaps w h) = sum_list (map (size_at (w_objects w)) xs)
     \<and> gc_exception_count (w_heaps w h) = of_nat (length (filter (exn_at (w_objects w)) xs))"

text \<open>
  A domain fit for collection: \<open>L\<close> gives the objects of each of its heaps, the roots of its contexts can be
  enumerated, and references stay among the objects of the domain and function headers.
\<close>

abbreviation (input) ctx_module :: "wah_world \<Rightarrow> nat \<Rightarrow> wah_module" where
  "ctx_module w i \<equiv> pm_module (ec_module (w_ctxs w i))"

definition domain_objects :: "wah_world \<Rightarrow> nat list \<Rightarrow> (nat \<Rightarrow> u64 list) \<Rightarrow> u64 set" where
  "domain_objects w domain L = set (concat (map L (domain_heaps w domain)))"

definition domain_ok :: "wah_world \<Rightarrow> nat \<Rightarrow> nat list \<Rightarrow> (nat \<Rightarrow> u64 list) \<Rightarrow> u64 list \<Rightarrow> bool" where
  "domain_ok w i domain L roots \<longleftrightarrow> finite (link_domain w i) \<and> list_all (\<lambda>h. heap_wf w h (L h)) (domain_heaps w domain)
     \<and> domain_roots w i domain = Some roots
     \<and> heap_closed (ctx_module w i) (w_objects w) (domain_objects w domain L) roots"

lemma domain_chains:
  "list_all (\<lambda>h. heap_wf w h (L h)) hs \<Longrightarrow> list_all2 (obj_list (w_objects w)) (map (\<lambda>h. gc_all_objects (w_heaps w h)) hs) (map L hs)"
  by (induction hs) (auto simp: heap_wf_def)

lemma mark_start:
  assumes "flags_only objs0 objs" "\<forall>x \<in> H. \<not> marked_at objs x \<and> \<not> gray_at objs x" "wl_items wl = []"
  shows "mark_inv m objs0 H roots {} {} (objs, wl)"
  using assms by (simp add: mark_inv_def mark_base_def mark_scanned_def)

definition marks_reachable :: "wah_world \<Rightarrow> nat \<Rightarrow> nat list \<Rightarrow> (nat \<Rightarrow> u64 list) \<Rightarrow> u64 list \<Rightarrow> wah_world \<Rightarrow> bool" where
  "marks_reachable w i domain L roots w' \<longleftrightarrow> flags_only (w_objects w) (w_objects w')
     \<and> (\<forall>x \<in> domain_objects w domain L. marked_at (w_objects w') x \<longleftrightarrow> gc_reachable (ctx_module w i) (w_objects w) roots x)"

lemma step_mark_ok:
  assumes dom: "wah_gc_collect_domain w i grants = Some (Inr (domain, cap, grants'))" and ok: "domain_ok w i domain L roots"
  defines "h \<equiv> the (ec_gc (w_ctxs w i))"
  defines "other \<equiv> sum_list (map (\<lambda>h. gc_allocated_bytes (w_heaps w h)) (filter (\<lambda>h'. h' \<noteq> h) (domain_heaps w domain)))"
  shows "\<exists>objs. wah_gc_step_mark i grants w =
      Some (True, update_heap h (\<lambda>gc. gc\<lparr>gc_other_heap_bytes := other, gc_phase := WAH_GC_PHASE_SWEEP\<rparr>) (w\<lparr>w_objects := objs\<rparr>))
    \<and> marks_reachable w i domain L roots (w\<lparr>w_objects := objs\<rparr>)"
proof -
  let ?m = "ctx_module w i" and ?hs = "domain_heaps w domain" and ?H = "domain_objects w domain L"
  let ?heads = "map (\<lambda>h. gc_all_objects (w_heaps w h)) ?hs" and ?wl = "\<lparr> wl_items = [], wl_cap = 0, wl_overflow = False, wl_grants = grants' \<rparr>"
  have closed: "heap_closed ?m (w_objects w) ?H roots" and roots: "domain_roots w i domain = Some roots"
    and chains: "list_all2 (obj_list (w_objects w)) ?heads (map L ?hs)"
    using ok domain_chains by (auto simp: domain_ok_def)
  from clear_ok [OF chains] obtain objs where clear: "fold_opt (for_objects clear_tags id) ?heads (w_objects w) = Some objs"
    "flags_only (w_objects w) objs" "\<forall>x \<in> ?H. \<not> marked_at objs x \<and> \<not> gray_at objs x" unfolding domain_objects_def by blast
  have start: "mark_inv ?m (w_objects w) ?H roots {} {} (objs, ?wl)" using clear(2,3) by (intro mark_start) simp_all
  have target: "(y \<in> ?H \<or> leaf ?m (w_objects w) y) \<and> gc_reachable ?m (w_objects w) roots y" if "r \<in> set roots" "ref_target r = Some y" for r y
    using that closed by (auto simp: heap_closed_def intro: gc_reachable.root)
  from mark_refs_step [OF closed _ start, of roots] target obtain s where s: "fold_opt wah_gc_mark_ref roots (objs, ?wl) = Some s"
    "mark_inv ?m (w_objects w) ?H roots {} {} s" "\<forall>r \<in> set roots. \<forall>y. ref_target r = Some y \<longrightarrow> marked_at (fst s) y" by blast
  from mark_loop_ok [OF closed chains _ s(2)] obtain t where t: "mark_loop ?m ?heads s = Some t" "mark_inv ?m (w_objects w) ?H roots {} {} t"
    "wl_items (snd t) = []" "\<not> wl_overflow (snd t)" "\<forall>x. marked_at (fst s) x \<longrightarrow> marked_at (fst t) x" unfolding domain_objects_def by blast
  have "\<forall>x \<in> ?H. marked_at (fst t) x \<longleftrightarrow> gc_reachable ?m (w_objects w) roots x"
    using s(3) t(5) by (intro ballI marks_exact [OF closed t(2-4)]) auto
  then have "marks_reachable w i domain L roots (w\<lparr>w_objects := fst t\<rparr>)" using mark_invD(1) [OF t(2)] by (simp add: marks_reachable_def)
  moreover have "wah_gc_step_mark i grants w =
      Some (True, update_heap h (\<lambda>gc. gc\<lparr>gc_other_heap_bytes := other, gc_phase := WAH_GC_PHASE_SWEEP\<rparr>) (w\<lparr>w_objects := fst t\<rparr>))"
    using dom clear(1) roots s(1) t(1) by (simp add: wah_gc_step_mark_def h_def other_def Let_def)
  ultimately show ?thesis by blast
qed

section \<open>The sweep\<close>

lemma obj_list_tail: "obj_list objs p (xs @ ys) \<Longrightarrow> \<exists>q. obj_list objs q ys"
  by (induction xs arbitrary: p) auto

lemma obj_list_unique: "obj_list objs p xs \<Longrightarrow> obj_list objs p ys \<Longrightarrow> ys = xs"
proof (induction xs arbitrary: p ys)
  case Nil
  then show ?case by (cases ys) auto
next
  case (Cons x xs)
  then show ?case by (cases ys) auto
qed

lemma obj_list_distinct: "obj_list objs p xs \<Longrightarrow> distinct xs"
proof (induction xs arbitrary: p)
  case (Cons x xs)
  have "x \<notin> set xs"
  proof
    assume "x \<in> set xs"
    then obtain us vs where xs: "xs = us @ x # vs" by (meson split_list)
    obtain q where q: "obj_list objs q (x # vs)" using obj_list_tail [of objs p "x # us" "x # vs"] Cons.prems xs by auto
    with Cons.prems have "obj_list objs x (x # vs)" "obj_list objs x (x # xs)" by auto
    from obj_list_unique [OF this] xs show False by simp
  qed
  then show ?case using Cons by auto
qed simp

lemma obj_list_upd [simp]: "x \<notin> set xs \<Longrightarrow> obj_list (objs(x := v)) p xs \<longleftrightarrow> obj_list objs p xs"
  by (induction xs arbitrary: p) auto

lemma obj_list_relink:
  "obj_list objs p (ds @ d # x # xs) \<Longrightarrow> distinct (ds @ d # x # xs) \<Longrightarrow> objs d = Some od \<Longrightarrow> objs x = Some ob \<Longrightarrow>
    obj_list (objs(d \<mapsto> wah_gc_set_next (wah_gc_next ob) od)) p (ds @ d # xs)"
  by (induction ds arbitrary: p) auto

text \<open>What a sweep keeps of an object that stays: everything but the link.\<close>

definition same_but_link :: "wah_gc_object \<Rightarrow> wah_gc_object \<Rightarrow> bool" where
  "same_but_link ob ob' \<longleftrightarrow> wah_gc_marked ob' = wah_gc_marked ob \<and> wah_gc_gray ob' = wah_gc_gray ob
     \<and> go_repr_id ob' = go_repr_id ob \<and> go_size_bytes ob' = go_size_bytes ob \<and> go_module ob' = go_module ob \<and> go_payload ob' = go_payload ob"

lemma same_but_link_refl [simp]: "same_but_link ob ob"
  by (simp add: same_but_link_def)

lemma same_but_link_trans: "same_but_link a b \<Longrightarrow> same_but_link b c \<Longrightarrow> same_but_link a c"
  by (simp add: same_but_link_def)

lemma same_but_link_relink [simp]: "same_but_link ob (wah_gc_set_next (wah_gc_next ob') ob)"
  by (simp add: same_but_link_def) (simp add: wah_gc_set_next_def)

definition kept_at :: "objects \<Rightarrow> objects \<Rightarrow> u64 \<Rightarrow> bool" where
  "kept_at objs objs' x \<longleftrightarrow> (\<exists>ob ob'. objs x = Some ob \<and> objs' x = Some ob' \<and> same_but_link ob ob')"

definition swept :: "(wah_gc_object \<Rightarrow> bool) \<Rightarrow> objects \<Rightarrow> u64 list \<Rightarrow> u64 list" where
  "swept drop_it objs xs = filter (\<lambda>x. drop_it (the (objs x))) xs"

definition unswept :: "(wah_gc_object \<Rightarrow> bool) \<Rightarrow> objects \<Rightarrow> u64 list \<Rightarrow> u64 list" where
  "unswept drop_it objs xs = filter (\<lambda>x. \<not> drop_it (the (objs x))) xs"

text \<open>
  The effect of a sweep of heap \<open>h\<close> that drops the objects \<open>ds\<close>: only the list and the counters of the heap, the memory of
  its objects, and the budget of its owner change.
\<close>

definition gc_frame :: "wah_gc_state \<Rightarrow> wah_gc_state" where
  "gc_frame gc = gc\<lparr>gc_all_objects := 0, gc_object_count := 0, gc_exception_count := 0, gc_allocated_bytes := 0\<rparr>"

definition sweep_frame :: "nat \<Rightarrow> u64 list \<Rightarrow> wah_world \<Rightarrow> wah_world \<Rightarrow> bool" where
  "sweep_frame h ds w w' \<longleftrightarrow> w_slots w' = w_slots w \<and> (\<forall>k. k \<noteq> h \<longrightarrow> w_heaps w' k = w_heaps w k)
     \<and> gc_frame (w_heaps w' h) = gc_frame (w_heaps w h)
     \<and> w_ctxs w' = (w_ctxs w)(gc_owner (w_heaps w h) :=
          wah_budget_release (sum_list (map (size_at (w_objects w)) ds)) (w_ctxs w (gc_owner (w_heaps w h))))"

lemma budget_release_simps: "wah_budget_release 0 c = c" "wah_budget_release m (wah_budget_release n c) = wah_budget_release (n + m) c"
  by (simp_all add: wah_budget_release_def algebra_simps)

lemma gc_frame_owner: "gc_frame gc' = gc_frame gc \<Longrightarrow> gc_owner gc' = gc_owner gc"
  by (cases gc; cases gc') (simp add: gc_frame_def)

lemma accounts_cong:
  assumes "\<And>x. x \<in> set xs \<Longrightarrow> kept_at objs objs' x"
  shows "map (size_at objs') xs = map (size_at objs) xs" "filter (exn_at objs') xs = filter (exn_at objs) xs"
  using assms by (force simp: kept_at_def size_at_def exn_at_def same_but_link_def intro: filter_cong)+

text \<open>Unlinking one object: \<open>prev\<close> is the last object kept so far.\<close>

lemma unlink_ok:
  assumes wf: "heap_wf w h (ds @ x # xs)" and prev: "prev = (if ds = [] then 0 else last ds)" and ob: "w_objects w x = Some ob"
  shows "\<exists>w'. unlink_object h prev x ob w = Some w' \<and> heap_wf w' h (ds @ xs) \<and> sweep_frame h [x] w w'
    \<and> w_objects w' x = None \<and> (\<forall>y. y \<noteq> x \<longrightarrow> y \<notin> set ds \<longrightarrow> w_objects w' y = w_objects w y) \<and> (\<forall>y \<in> set ds. kept_at (w_objects w) (w_objects w') y)"
proof -
  let ?objs = "w_objects w" and ?gc = "w_heaps w h"
  have chain: "obj_list ?objs (gc_all_objects ?gc) (ds @ x # xs)" using wf by (simp add: heap_wf_def)
  have dist: "distinct (ds @ x # xs)" by (rule obj_list_distinct [OF chain])
  have dom: "set (ds @ x # xs) \<subseteq> dom ?objs" by (rule obj_list_dom [OF chain])
  define objs1 where "objs1 = (if ds = [] then ?objs else ?objs(last ds \<mapsto> wah_gc_set_next (wah_gc_next ob) (the (?objs (last ds)))))"
  define head where "head = (if ds = [] then wah_gc_next ob else gc_all_objects ?gc)"
  define gc' where "gc' = ?gc\<lparr>gc_all_objects := head, gc_allocated_bytes := gc_allocated_bytes ?gc - of_nat (go_size_bytes ob),
    gc_object_count := gc_object_count ?gc - 1,
    gc_exception_count := if go_repr_id ob = WAH_TYPE_EXN then gc_exception_count ?gc - 1 else gc_exception_count ?gc\<rparr>"
  define w' where "w' = w\<lparr>w_objects := objs1(x := None), w_heaps := (w_heaps w)(h := gc'),
    w_ctxs := (w_ctxs w)(gc_owner ?gc := wah_budget_release (of_nat (go_size_bytes ob)) (w_ctxs w (gc_owner ?gc)))\<rparr>"
  have nz: "last ds \<noteq> 0" "\<exists>o'. ?objs (last ds) = Some o'" if "ds \<noteq> []"
  proof -
    have "last ds \<in> set ds" using that by simp
    then show "\<exists>o'. ?objs (last ds) = Some o'" using dom by auto
    have "0 \<notin> set ys" if "obj_list ?objs p ys" for p ys using that by (induction ys arbitrary: p) auto
    from this [OF chain] \<open>last ds \<in> set ds\<close> show "last ds \<noteq> 0" by auto
  qed
  have run: "unlink_object h prev x ob w = Some w'"
    using prev nz by (cases "ds = []")
      (auto simp: unlink_object_def w'_def gc'_def head_def objs1_def update_heap_def update_ctx_def Let_def)
  have chain': "obj_list (objs1(x := None)) head (ds @ xs)"
  proof (cases "ds = []")
    case True
    then show ?thesis using chain dist ob by (auto simp: objs1_def head_def)
  next
    case False
    then obtain es d where ds: "ds = es @ [d]" by (metis rev_exhaust)
    obtain od where od: "?objs d = Some od" using nz(2) [OF False] ds by auto
    have "obj_list (?objs(d \<mapsto> wah_gc_set_next (wah_gc_next ob) od)) (gc_all_objects ?gc) (es @ d # xs)"
      using chain dist ob od by (intro obj_list_relink) (auto simp: ds)
    moreover have "x \<notin> set (es @ d # xs)" using dist ds by auto
    ultimately show ?thesis using False od by (simp add: objs1_def head_def ds del: set_append)
  qed
  have kept: "kept_at ?objs (w_objects w') y" if "y \<in> set ds \<union> set xs" for y
  proof -
    have "y \<noteq> x" "y \<in> dom ?objs" using that dist dom by auto
    then show ?thesis using nz by (auto simp: kept_at_def w'_def objs1_def)
  qed
  have eqs: "map (size_at (w_objects w')) (ds @ xs) = map (size_at ?objs) (ds @ xs)"
    "filter (exn_at (w_objects w')) (ds @ xs) = filter (exn_at ?objs) (ds @ xs)" using kept by (intro accounts_cong; simp)+
  have sums: "sum_list (map (size_at (w_objects w')) (ds @ xs)) = sum_list (map (size_at ?objs) (ds @ xs))"
    "length (filter (exn_at (w_objects w')) (ds @ xs)) = length (filter (exn_at ?objs) (ds @ xs))"
    unfolding eqs by (rule refl)+
  have at_x: "size_at ?objs x = of_nat (go_size_bytes ob)" "exn_at ?objs x \<longleftrightarrow> go_repr_id ob = WAH_TYPE_EXN"
    using ob by (simp_all add: size_at_def exn_at_def)
  have "tag_aligned head" using wf hdr.nxt_aligned by (simp add: head_def heap_wf_def)
  then have "heap_wf w' h (ds @ xs)"
    unfolding heap_wf_def sums using wf chain' at_x by (simp add: w'_def gc'_def heap_wf_def)
  moreover have "sweep_frame h [x] w w'" using ob by (auto simp: sweep_frame_def w'_def gc'_def gc_frame_def size_at_def)
  moreover have "\<forall>y. y \<noteq> x \<longrightarrow> y \<notin> set ds \<longrightarrow> w_objects w' y = ?objs y" by (auto simp: w'_def objs1_def)
  ultimately show ?thesis using run kept by (auto simp: w'_def)
qed

lemma kept_trans: "kept_at a b x \<Longrightarrow> kept_at b c x \<Longrightarrow> kept_at a c x"
proof -
  assume "kept_at a b x" "kept_at b c x"
  then obtain oa ob oc where "a x = Some oa" "c x = Some oc" "same_but_link oa ob" "same_but_link ob oc" by (auto simp: kept_at_def)
  then show ?thesis unfolding kept_at_def using same_but_link_trans by blast
qed

lemma sweep_frame_trans:
  assumes "sweep_frame h [x] w v" "sweep_frame h ds v w'" "\<And>y. y \<in> set ds \<Longrightarrow> w_objects v y = w_objects w y"
  shows "sweep_frame h (x # ds) w w'"
proof -
  have "gc_owner (w_heaps v h) = gc_owner (w_heaps w h)" 
    using assms(1) gc_frame_owner [of "w_heaps v h" "w_heaps w h"] by (simp add: sweep_frame_def)
  moreover have "sum_list (map (size_at (w_objects v)) ds) = sum_list (map (size_at (w_objects w)) ds)"
    using assms(3) by (intro arg_cong [where f = sum_list]) (simp add: size_at_def)
  ultimately show ?thesis using assms(1,2) by (simp add: sweep_frame_def budget_release_simps)
qed

lemma sweep_loop_ok:
  "heap_wf w h (ds @ xs) \<Longrightarrow> prev = (if ds = [] then 0 else last ds) \<Longrightarrow> obj = (case xs of [] \<Rightarrow> 0 | x # _ \<Rightarrow> x) \<Longrightarrow>
    \<exists>w'. sweep_loop drop_it h prev obj w = Some w' \<and> heap_wf w' h (ds @ unswept drop_it (w_objects w) xs)
      \<and> sweep_frame h (swept drop_it (w_objects w) xs) w w'
      \<and> (\<forall>y. y \<notin> set (ds @ xs) \<longrightarrow> w_objects w' y = w_objects w y)
      \<and> (\<forall>y \<in> set (ds @ unswept drop_it (w_objects w) xs). kept_at (w_objects w) (w_objects w') y)
      \<and> (\<forall>y \<in> set (swept drop_it (w_objects w) xs). w_objects w' y = None)"
proof (induction xs arbitrary: ds prev obj w)
  case Nil
  have "\<forall>y \<in> set ds. kept_at (w_objects w) (w_objects w) y"
    using obj_list_dom [of "w_objects w" "gc_all_objects (w_heaps w h)" ds] Nil.prems(1) by (force simp: heap_wf_def kept_at_def)
  then show ?case using Nil by (subst sweep_loop.simps) (simp add: swept_def unswept_def sweep_frame_def budget_release_simps)
next
  case (Cons x xs)
  let ?objs = "w_objects w"
  have chain: "obj_list ?objs (gc_all_objects (w_heaps w h)) (ds @ x # xs)" using Cons.prems(1) by (simp add: heap_wf_def)
  have dist: "distinct (ds @ x # xs)" and dom: "set (ds @ x # xs) \<subseteq> dom ?objs"
    using obj_list_distinct [OF chain] obj_list_dom [OF chain] .
  obtain q where "obj_list ?objs q (x # xs)" using obj_list_tail [OF chain] by blast
  then obtain ob where ob: "?objs x = Some ob" "x \<noteq> 0" "wah_gc_next ob = (case xs of [] \<Rightarrow> 0 | y # _ \<Rightarrow> y)" by (cases xs) auto
  have obj: "obj = x" using Cons.prems(3) by simp
  show ?case
  proof (cases "drop_it ob")
    case False
    have wf: "heap_wf w h ((ds @ [x]) @ xs)" using Cons.prems(1) by simp
    have sets: "swept drop_it ?objs (x # xs) = swept drop_it ?objs xs" "unswept drop_it ?objs (x # xs) = x # unswept drop_it ?objs xs"
      using False ob(1) by (simp_all add: swept_def unswept_def)
    have "sweep_loop drop_it h prev obj w = sweep_loop drop_it h x (wah_gc_next ob) w"
      using ob False obj by (subst sweep_loop.simps) simp
    with Cons.IH [OF wf _ ob(3), of x] show ?thesis unfolding sets by simp
  next
    case True
    from unlink_ok [OF Cons.prems(1,2) ob(1)] obtain v where v: "unlink_object h prev x ob w = Some v" "heap_wf v h (ds @ xs)"
      "sweep_frame h [x] w v" "w_objects v x = None" "\<forall>y. y \<noteq> x \<longrightarrow> y \<notin> set ds \<longrightarrow> w_objects v y = ?objs y"
      "\<forall>y \<in> set ds. kept_at ?objs (w_objects v) y" by blast
    have same: "w_objects v y = ?objs y" if "y \<in> set xs" for y using v(5) that dist by auto
    have sets: "swept drop_it ?objs (x # xs) = x # swept drop_it (w_objects v) xs"
      "unswept drop_it ?objs (x # xs) = unswept drop_it (w_objects v) xs"
      using True ob(1) same by (auto simp: swept_def unswept_def intro: filter_cong)
    from Cons.IH [OF v(2) Cons.prems(2) ob(3)] obtain w' where w': "sweep_loop drop_it h prev (wah_gc_next ob) v = Some w'"
      "heap_wf w' h (ds @ unswept drop_it (w_objects v) xs)" "sweep_frame h (swept drop_it (w_objects v) xs) v w'"
      "\<forall>y. y \<notin> set (ds @ xs) \<longrightarrow> w_objects w' y = w_objects v y"
      "\<forall>y \<in> set (ds @ unswept drop_it (w_objects v) xs). kept_at (w_objects v) (w_objects w') y"
      "\<forall>y \<in> set (swept drop_it (w_objects v) xs). w_objects w' y = None" by blast
    have run: "sweep_loop drop_it h prev obj w = Some w'" using ob True obj v(1) w'(1) by (subst sweep_loop.simps) simp
    have frame: "sweep_frame h (x # swept drop_it (w_objects v) xs) w w'"
      using same by (intro sweep_frame_trans [OF v(3) w'(3)]) (simp add: swept_def)
    have outside: "\<forall>y. y \<notin> set (ds @ x # xs) \<longrightarrow> w_objects w' y = ?objs y" using w'(4) v(5) by simp
    have gone: "\<forall>y \<in> set (x # swept drop_it (w_objects v) xs). w_objects w' y = None" using w'(4,6) v(4) dist by simp
    have kept: "kept_at ?objs (w_objects w') y" if "y \<in> set (ds @ unswept drop_it (w_objects v) xs)" for y
    proof (cases "y \<in> set ds")
      case True
      then have "kept_at ?objs (w_objects v) y" "kept_at (w_objects v) (w_objects w') y" using v(6) w'(5) by simp_all
      then show ?thesis by (rule kept_trans)
    next
      case False
      then have "w_objects v y = ?objs y" using that same by (simp add: unswept_def)
      moreover have "kept_at (w_objects v) (w_objects w') y" using w'(5) that by blast
      ultimately show ?thesis by (simp add: kept_at_def)
    qed
    show ?thesis unfolding sets using run w'(2) frame outside kept gone by blast
  qed
qed

lemma heap_wf_head: "heap_wf w h xs \<Longrightarrow> gc_all_objects (w_heaps w h) = (case xs of [] \<Rightarrow> 0 | x # _ \<Rightarrow> x)"
  by (cases xs) (auto simp: heap_wf_def)

lemmas sweep_heap_ok = sweep_loop_ok [where ds = "[]", simplified]

end
