(* ===== verification/Wah_GC_Collect.thy ===== *)
theory Wah_GC_Collect
  imports Wah_GC_Inv
begin

text \<open>
  Collections as a whole: that a step frees exactly the unreachable objects of a heap, that the sweep of exceptions frees
  exactly the unreachable exceptions, what allocations do, the consistency check, and the end of a heap. The
  invariant of a heap is \<open>heap_wf\<close>; \<open>collected\<close> and \<open>allocated\<close> are the contracts.
\<close>

section \<open>A collection\<close>

lemma update_heap_simps [simp]:
  "w_objects (update_heap h f w) = w_objects w" "w_ctxs (update_heap h f w) = w_ctxs w" "w_slots (update_heap h f w) = w_slots w"
  "w_heaps (update_heap h f w) = (w_heaps w)(h := f (w_heaps w h))"
  by (simp_all add: update_heap_def)

text \<open>Roots and domain do not depend on the phase of a heap.\<close>

lemma slot_roots_cong:
  assumes "w_slots w' = w_slots w"
  shows "slot_ref w' = slot_ref w" "typed_slots w' = typed_slots w" "wah_gc_visit_module_globals w' = wah_gc_visit_module_globals w"
    "frame_roots w' = frame_roots w" "host_entry_roots w' = host_entry_roots w" "finished_roots w' = finished_roots w"
    "linked_global_roots w' = linked_global_roots w" "table_roots w' = table_roots w"
proof -
  show s: "slot_ref w' = slot_ref w" by (intro ext) (simp add: slot_ref_def assms)
  show t: "typed_slots w' = typed_slots w" by (intro ext) (unfold typed_slots_def s, rule refl)
  show g: "wah_gc_visit_module_globals w' = wah_gc_visit_module_globals w" by (intro ext) (unfold wah_gc_visit_module_globals_def s, rule refl)
  show "frame_roots w' = frame_roots w" by (intro ext) (unfold frame_roots_def s t, rule refl)
  show "host_entry_roots w' = host_entry_roots w" by (intro ext) (unfold host_entry_roots_def t, rule refl)
  show "finished_roots w' = finished_roots w" by (intro ext) (unfold finished_roots_def t, rule refl)
  have "linked_global_roots w' p lms = linked_global_roots w p lms" for p lms by (induction lms arbitrary: p) (simp_all add: g Let_def)
  then show "linked_global_roots w' = linked_global_roots w" by (intro ext)
  show "table_roots w' = table_roots w" by (intro ext) (unfold table_roots_def s, rule refl)
qed

lemma phase_frame:
  fixes p w h
  defines "w' \<equiv> update_heap h (\<lambda>gc. gc\<lparr>gc_phase := p\<rparr>) w"
  shows "domain_roots w' = domain_roots w" "wah_gc_collect_domain w' = wah_gc_collect_domain w" "link_domain w' = link_domain w"
    "domain_heaps w' = domain_heaps w" "heap_wf w' = heap_wf w"
proof -
  have same: "w_ctxs w' = w_ctxs w" "w_slots w' = w_slots w" by (simp_all add: w'_def)
  note cong = slot_roots_cong [OF same(2)]
  have host: "host_call_roots w' = host_call_roots w"
    unfolding host_call_roots_def [abs_def] cong same by (intro ext) (simp add: w'_def split: option.split)
  have enum: "wah_gc_enumerate_roots w' = wah_gc_enumerate_roots w"
    unfolding wah_gc_enumerate_roots_def [abs_def] cong host same by (rule refl)
  show "domain_roots w' = domain_roots w" unfolding domain_roots_def [abs_def] enum same by (rule refl)
  have n: "domain_neighbours w' = domain_neighbours w" by (intro ext) (auto simp: domain_neighbours_def w'_def Let_def split: option.splits)
  show "wah_gc_collect_domain w' = wah_gc_collect_domain w" unfolding wah_gc_collect_domain_def [abs_def] n by (rule refl)
  have "linked_to w' = linked_to w" using n by (intro ext) (simp add: linked_to_neighbour)
  then show "link_domain w' = link_domain w" by (intro ext) (simp add: link_domain_def)
  have "wah_gc_domain_first_heap w' = wah_gc_domain_first_heap w" by (intro ext) (simp add: wah_gc_domain_first_heap_def w'_def)
  then show "domain_heaps w' = domain_heaps w" by (intro ext) (simp add: domain_heaps_def w'_def)
  show "heap_wf w' = heap_wf w" by (intro ext) (simp add: heap_wf_def w'_def)
qed

lemma first_heap_exists:
  "j < length d \<Longrightarrow> ec_gc (w_ctxs w (d ! j)) = Some h \<Longrightarrow> h \<in> set (domain_heaps w d)"
proof (induction j rule: less_induct)
  case (less j)
  show ?case
  proof (cases "wah_gc_domain_first_heap w d j")
    case True
    then show ?thesis using less.prems by (force simp: domain_heaps_def)
  next
    case False
    then obtain k where "k < j" "ec_gc (w_ctxs w (d ! k)) = Some h"
      using less.prems by (auto simp: wah_gc_domain_first_heap_def list_all_iff)
    then show ?thesis using less.IH less.prems(1) by simp
  qed
qed

lemma own_heap_in_domain:
  assumes "wah_gc_collect_domain w i grants = Some (Inr (d, c, g))" "finite (link_domain w i)" "ec_gc (w_ctxs w i) = Some h"
  shows "h \<in> set (domain_heaps w d)"
proof -
  have "set d = link_domain w i" using collect_domain_ok [OF assms(2), of grants] assms(1) by auto
  then have "i \<in> set d" by (simp add: link_domain_def)
  then show ?thesis using assms(3) first_heap_exists [of _ d w h] by (auto simp: in_set_conv_nth)
qed

definition same_contents_at :: "objects \<Rightarrow> objects \<Rightarrow> u64 \<Rightarrow> bool" where
  "same_contents_at objs objs' x \<longleftrightarrow> (\<exists>ob ob'. objs x = Some ob \<and> objs' x = Some ob' \<and> ob'\<lparr>go_next_tagged := 0\<rparr> = ob\<lparr>go_next_tagged := 0\<rparr>)"

lemma same_contents_kept:
  assumes "flags_only objs objs1" "kept_at objs1 objs2 x"
  shows "same_contents_at objs objs2 x"
proof -
  from assms(2) obtain o1 o2 where o: "objs1 x = Some o1" "objs2 x = Some o2" "same_but_link o1 o2" by (auto simp: kept_at_def)
  from flags_onlyD(3) [OF assms(1) o(1)] obtain ob where ob: "objs x = Some ob" "same_but_flags ob o1" by blast
  have "o2\<lparr>go_next_tagged := 0\<rparr> = o1\<lparr>go_next_tagged := 0\<rparr>" using o(3) by (cases o1; cases o2) (simp add: same_but_link_def)
  then show ?thesis using o ob by (auto simp: same_contents_at_def same_but_flags_def)
qed

lemma flags_accounts:
  assumes "flags_only objs objs'" "set xs \<subseteq> dom objs"
  shows "map (size_at objs') xs = map (size_at objs) xs" "filter (exn_at objs') xs = filter (exn_at objs) xs"
proof -
  have "size_at objs' x = size_at objs x \<and> exn_at objs' x = exn_at objs x" if x: "x \<in> set xs" for x
  proof -
    obtain ob where ob: "objs x = Some ob" using assms(2) x by blast
    from flags_onlyD(1) [OF assms(1) ob] obtain ob' where ob': "objs' x = Some ob'" "same_but_flags ob ob'" by blast
    show ?thesis using ob ob'(1) same_but_flags_fields [OF ob'(2)] by (simp add: size_at_def exn_at_def)
  qed
  then show "map (size_at objs') xs = map (size_at objs) xs" "filter (exn_at objs') xs = filter (exn_at objs) xs"
    by (auto intro: filter_cong)
qed

lemma heap_wf_flags:
  assumes "heap_wf w h xs" "flags_only (w_objects w) objs" "gc_all_objects gc' = gc_all_objects (w_heaps w h)"
    "gc_object_count gc' = gc_object_count (w_heaps w h)" "gc_allocated_bytes gc' = gc_allocated_bytes (w_heaps w h)"
    "gc_exception_count gc' = gc_exception_count (w_heaps w h)"
  shows "heap_wf (w\<lparr>w_objects := objs, w_heaps := (w_heaps w)(h := gc')\<rparr>) h xs"
proof -
  have chain: "obj_list (w_objects w) (gc_all_objects (w_heaps w h)) xs" using assms(1) by (simp add: heap_wf_def)
  note acc = flags_accounts [OF assms(2) obj_list_dom [OF chain]]
  show ?thesis using assms obj_list_flags [OF assms(2) chain] by (simp add: heap_wf_def acc)
qed

text \<open>The effect of a collection on the heap \<open>h\<close> with the objects \<open>xs\<close>, of which those that are \<open>alive\<close> stay.\<close>

definition collected :: "nat \<Rightarrow> u64 list \<Rightarrow> (u64 \<Rightarrow> bool) \<Rightarrow> u64 set \<Rightarrow> wah_world \<Rightarrow> wah_world \<Rightarrow> bool" where
  "collected h xs alive H w w' \<longleftrightarrow> heap_wf w' h (filter alive xs)
     \<and> (\<forall>x \<in> set xs. \<not> alive x \<longrightarrow> w_objects w' x = None)
     \<and> (\<forall>x \<in> H. alive x \<longrightarrow> same_contents_at (w_objects w) (w_objects w') x)
     \<and> w_ctxs w' = (w_ctxs w)(gc_owner (w_heaps w h) :=
          wah_budget_release (sum_list (map (size_at (w_objects w)) (filter (\<lambda>x. \<not> alive x) xs))) (w_ctxs w (gc_owner (w_heaps w h))))"

lemma collected_phase:
  assumes "collected h xs alive H w v" "\<And>gc. gc_all_objects (f gc) = gc_all_objects gc" "\<And>gc. gc_object_count (f gc) = gc_object_count gc"
    "\<And>gc. gc_allocated_bytes (f gc) = gc_allocated_bytes gc" "\<And>gc. gc_exception_count (f gc) = gc_exception_count gc"
  shows "collected h xs alive H w (update_heap h f v)"
  using assms by (simp add: collected_def heap_wf_def)

text \<open>
  The loop that unlinks objects, run on a heap whose flags a marking set: \<open>other\<close> and \<open>p\<close> are what the marking
  wrote beside them.
\<close>

lemma sweep_after_mark:
  fixes other p
  assumes wf: "heap_wf w h xs" and xs: "set xs \<subseteq> H" and H: "H \<subseteq> dom (w_objects w)" and flags: "flags_only (w_objects w) objs"
    and drop_it: "\<And>x ob. x \<in> H \<Longrightarrow> objs x = Some ob \<Longrightarrow> drop_it ob \<longleftrightarrow> \<not> alive x"
  defines "v \<equiv> update_heap h (\<lambda>gc. gc\<lparr>gc_other_heap_bytes := other, gc_phase := p\<rparr>) (w\<lparr>w_objects := objs\<rparr>)"
  shows "\<exists>w'. sweep_loop drop_it h 0 (gc_all_objects (w_heaps v h)) v = Some w' \<and> collected h xs alive H w w'"
proof -
  have v: "v = w\<lparr>w_objects := objs, w_heaps := (w_heaps w)(h := (w_heaps w h)\<lparr>gc_other_heap_bytes := other, gc_phase := p\<rparr>)\<rparr>"
    by (simp add: v_def update_heap_def)
  have objs: "\<exists>ob. objs x = Some ob" if "x \<in> H" for x using that H flags_onlyD(2) [OF flags] by blast
  have "drop_it (the (objs x)) \<longleftrightarrow> \<not> alive x" if "x \<in> set xs" for x
    using objs [of x] drop_it [of x] that xs by auto
  then have sets: "unswept drop_it objs xs = filter alive xs" "swept drop_it objs xs = filter (\<lambda>x. \<not> alive x) xs"
    unfolding unswept_def swept_def by (auto intro: filter_cong)
  have acc: "map (size_at objs) (filter (\<lambda>x. \<not> alive x) xs) = map (size_at (w_objects w)) (filter (\<lambda>x. \<not> alive x) xs)"
    by (rule flags_accounts [OF flags]) (use xs H in auto)
  have wf': "heap_wf v h xs" unfolding v by (rule heap_wf_flags [OF wf flags]) simp_all
  have vs: "w_objects v = objs" "w_ctxs v = w_ctxs w" "gc_owner (w_heaps v h) = gc_owner (w_heaps w h)" by (simp_all add: v)
  from sweep_heap_ok [OF wf' refl heap_wf_head [OF wf'], of drop_it] obtain w' where
    w': "sweep_loop drop_it h 0 (gc_all_objects (w_heaps v h)) v = Some w'" "heap_wf w' h (filter alive xs)"
    "sweep_frame h (filter (\<lambda>x. \<not> alive x) xs) v w'" "\<forall>y. y \<notin> set xs \<longrightarrow> w_objects w' y = objs y"
    "\<forall>y \<in> set (filter alive xs). kept_at objs (w_objects w') y" "\<forall>y \<in> set (filter (\<lambda>x. \<not> alive x) xs). w_objects w' y = None"
    unfolding vs sets by blast
  have "same_contents_at (w_objects w) (w_objects w') x" if x: "x \<in> H" "alive x" for x
  proof (rule same_contents_kept [OF flags])
    obtain ob where "objs x = Some ob" using objs [OF x(1)] by blast
    then have "kept_at objs (w_objects w') x" if "x \<notin> set xs" using w'(4) that by (auto simp: kept_at_def)
    then show "kept_at objs (w_objects w') x" using w'(5) x(2) by (cases "x \<in> set xs") auto
  qed
  moreover have "w_ctxs w' = (w_ctxs w)(gc_owner (w_heaps w h) := wah_budget_release
      (sum_list (map (size_at (w_objects w)) (filter (\<lambda>x. \<not> alive x) xs))) (w_ctxs w (gc_owner (w_heaps w h))))"
    using w'(3) by (simp add: sweep_frame_def vs acc)
  ultimately have "collected h xs alive H w w'" using w'(2,6) by (auto simp: collected_def)
  then show ?thesis using w'(1) by blast
qed

text \<open>What marking and the two sweeps share: the loop that follows a marking.\<close>

lemma heap_closed_dom:
  assumes "heap_closed m objs H roots"
  shows "H \<subseteq> dom objs"
proof
  fix x assume "x \<in> H"
  then have "refs_at m objs x \<noteq> None" using assms by (auto simp: heap_closed_def)
  then show "x \<in> dom objs" by (rule refs_at_dom)
qed

lemma mark_then_sweep:
  fixes only
  assumes gc: "ec_gc (w_ctxs w i) = Some h"
    and dom: "wah_gc_collect_domain w i grants = Some (Inr (domain, cap, grants'))" and ok: "domain_ok w i domain L roots"
    and only: "\<And>ob ob'. same_but_flags ob ob' \<Longrightarrow> only ob' = only ob"
  defines "alive \<equiv> \<lambda>x. gc_reachable (ctx_module w i) (w_objects w) roots x \<or> \<not> only (the (w_objects w x))"
  shows "\<exists>v w'. wah_gc_step_mark i grants w = Some (True, v)
    \<and> sweep_loop (\<lambda>ob. \<not> wah_gc_marked ob \<and> only ob) h 0 (gc_all_objects (w_heaps v h)) v = Some w'
    \<and> collected h (L h) alive (domain_objects w domain L) w w'"
proof -
  let ?H = "domain_objects w domain L" and ?drop = "\<lambda>ob. \<not> wah_gc_marked ob \<and> only ob"
  from step_mark_ok [OF dom ok] gc obtain other objs where mark: "wah_gc_step_mark i grants w =
      Some (True, update_heap h (\<lambda>gc. gc\<lparr>gc_other_heap_bytes := other, gc_phase := WAH_GC_PHASE_SWEEP\<rparr>) (w\<lparr>w_objects := objs\<rparr>))"
    "marks_reachable w i domain L roots (w\<lparr>w_objects := objs\<rparr>)" by auto
  have "h \<in> set (domain_heaps w domain)" using own_heap_in_domain [OF dom _ gc] ok by (simp add: domain_ok_def)
  then have own: "heap_wf w h (L h)" "set (L h) \<subseteq> ?H" using ok by (auto simp: domain_ok_def list_all_iff domain_objects_def)
  have H: "?H \<subseteq> dom (w_objects w)" using ok by (intro heap_closed_dom [of "ctx_module w i" _ _ roots]) (simp add: domain_ok_def)
  have flags: "flags_only (w_objects w) objs" using mark(2) by (simp add: marks_reachable_def)
  have drop_it: "?drop ob \<longleftrightarrow> \<not> alive x" if x: "x \<in> ?H" "objs x = Some ob" for x ob
  proof -
    have "wah_gc_marked ob \<longleftrightarrow> gc_reachable (ctx_module w i) (w_objects w) roots x"
      using mark(2) x by (auto simp: marks_reachable_def marked_at_def)
    moreover obtain ob0 where "w_objects w x = Some ob0" "same_but_flags ob0 ob" using flags_onlyD(3) [OF flags x(2)] by blast
    ultimately show ?thesis using only by (auto simp: alive_def)
  qed
  from sweep_after_mark [OF own H flags, of ?drop alive WAH_GC_PHASE_SWEEP other] drop_it mark(1) show ?thesis by blast
qed

lemma update_same_phase:
  assumes "gc_phase (w_heaps w h) = p"
  shows "update_heap h (\<lambda>gc. gc\<lparr>gc_phase := p\<rparr>) w = w"
proof -
  have "(w_heaps w h)\<lparr>gc_phase := p\<rparr> = w_heaps w h" using assms by (cases "w_heaps w h") simp
  then show ?thesis by (cases w) (simp add: update_heap_def)
qed

lemma gc_step_collects:
  assumes gc: "ec_gc (w_ctxs w i) = Some h" and phase: "gc_phase (w_heaps w h) \<noteq> WAH_GC_PHASE_SWEEP"
    and dom: "wah_gc_collect_domain w i grants = Some (Inr (domain, cap, grants'))" and ok: "domain_ok w i domain L roots"
  shows "\<exists>w'. wah_gc_step i grants w = Some w' \<and> gc_phase (w_heaps w' h) = WAH_GC_PHASE_IDLE
    \<and> collected h (L h) (gc_reachable (ctx_module w i) (w_objects w) roots) (domain_objects w domain L) w w'"
proof -
  let ?w1 = "update_heap h (\<lambda>gc. gc\<lparr>gc_phase := WAH_GC_PHASE_MARK\<rparr>) w" and ?H = "domain_objects w domain L"
  let ?alive = "gc_reachable (ctx_module w i) (w_objects w) roots"
  have w1: "(if gc_phase (w_heaps w h) = WAH_GC_PHASE_IDLE then ?w1 else w) = ?w1"
    using phase update_same_phase [of w h] by (cases "gc_phase (w_heaps w h)") simp_all
  note frame = phase_frame [of h WAH_GC_PHASE_MARK w]
  have objs: "domain_objects ?w1 domain L = ?H" by (simp add: domain_objects_def frame)
  have ok1: "domain_ok ?w1 i domain L roots" and dom1: "wah_gc_collect_domain ?w1 i grants = Some (Inr (domain, cap, grants'))"
    and gc1: "ec_gc (w_ctxs ?w1 i) = Some h" using ok dom gc by (simp_all add: domain_ok_def frame objs)
  from mark_then_sweep [OF gc1 dom1 ok1, of "\<lambda>_. True"] obtain v w' where v: "wah_gc_step_mark i grants ?w1 = Some (True, v)"
    "sweep_loop (\<lambda>ob. \<not> wah_gc_marked ob) h 0 (gc_all_objects (w_heaps v h)) v = Some w'" "collected h (L h) ?alive ?H ?w1 w'"
    unfolding objs by auto
  let ?w2 = "update_heap h (\<lambda>gc. gc\<lparr>gc_phase := WAH_GC_PHASE_IDLE, gc_allocation_threshold := next_threshold gc\<rparr>) w'"
  have "ec_gc (w_ctxs v i) = Some h" using step_mark_ok [OF dom1 ok1] v(1) gc by auto
  then have "wah_gc_step i grants w = Some ?w2"
    using gc phase v(1,2) w1 by (cases "gc_phase (w_heaps w h)") (simp_all add: wah_gc_step_def wah_gc_step_sweep_def)
  moreover have "collected h (L h) ?alive ?H w ?w2"
    using v(3) by (intro collected_phase) (simp_all add: collected_def)
  ultimately show ?thesis by simp
qed

lemma sweep_exceptions_ok:
  assumes gc: "ec_gc (w_ctxs w i) = Some h" and count: "gc_exception_count (w_heaps w h) \<noteq> 0"
    and dom: "wah_gc_collect_domain w i grants = Some (Inr (domain, cap, grants'))" and ok: "domain_ok w i domain L roots"
  shows "\<exists>w'. wah_gc_sweep_unreachable_exceptions i grants w = Some w' \<and> gc_phase (w_heaps w' h) = WAH_GC_PHASE_IDLE
    \<and> collected h (L h) (\<lambda>x. gc_reachable (ctx_module w i) (w_objects w) roots x \<or> \<not> exn_at (w_objects w) x)
        (domain_objects w domain L) w w'"
proof -
  have only: "(go_repr_id ob' = WAH_TYPE_EXN) = (go_repr_id ob = WAH_TYPE_EXN)" if "same_but_flags ob ob'" for ob ob'
    using same_but_flags_fields [OF that] by simp
  from mark_then_sweep [OF gc dom ok, of "\<lambda>ob. go_repr_id ob = WAH_TYPE_EXN", OF only] obtain v w' where
    v: "wah_gc_step_mark i grants w = Some (True, v)"
    "sweep_loop (\<lambda>ob. \<not> wah_gc_marked ob \<and> go_repr_id ob = WAH_TYPE_EXN) h 0 (gc_all_objects (w_heaps v h)) v = Some w'"
    "collected h (L h) (\<lambda>x. gc_reachable (ctx_module w i) (w_objects w) roots x \<or> \<not> exn_at (w_objects w) x) (domain_objects w domain L) w w'"
    unfolding exn_at_def by blast
  have "wah_gc_sweep_unreachable_exceptions i grants w = Some (update_heap h (\<lambda>gc. gc\<lparr>gc_phase := WAH_GC_PHASE_IDLE\<rparr>) w')"
    using gc count v(1,2) by (simp add: wah_gc_sweep_unreachable_exceptions_def)
  then show ?thesis using collected_phase [OF v(3), of "\<lambda>gc. gc\<lparr>gc_phase := WAH_GC_PHASE_IDLE\<rparr>"] by simp
qed

section \<open>Allocation and the consistency check\<close>

lemma size_at_Some: "objs x = Some ob \<Longrightarrow> size_at objs x = of_nat (go_size_bytes ob)"
  by (simp add: size_at_def)

lemma verify_loop_ok:
  "obj_list objs p xs \<Longrightarrow> unat c + length xs \<le> unat n \<Longrightarrow> unat n < 2 ^ 32 - 1 \<Longrightarrow>
    verify_loop objs n p c b = Some (Some (c + of_nat (length xs), b + sum_list (map (size_at objs) xs)))"
proof (induction xs arbitrary: p c b)
  case Nil
  then show ?case by (subst verify_loop.simps) simp
next
  case (Cons x xs)
  then obtain ob where ob: "p = x" "x \<noteq> 0" "objs x = Some ob" "obj_list objs (wah_gc_next ob) xs" by auto
  have c: "unat (c + 1) = unat c + 1" using Cons.prems(2,3) by (subst unat_add_lem [THEN iffD1]) simp_all
  have n: "unat (n + 1) = unat n + 1" using Cons.prems(3) by (subst unat_add_lem [THEN iffD1]) simp_all
  have "\<not> n + 1 < c + 1" using Cons.prems(2) c n by (simp add: word_less_nat_alt)
  then have "verify_loop objs n p c b = verify_loop objs n (wah_gc_next ob) (c + 1) (b + of_nat (go_size_bytes ob))"
    using ob by (subst verify_loop.simps) simp
  also have "\<dots> = Some (Some (c + 1 + of_nat (length xs), b + of_nat (go_size_bytes ob) + sum_list (map (size_at objs) xs)))"
    using Cons.prems c by (intro Cons.IH [OF ob(4)]) simp_all
  finally show ?case using size_at_Some [of objs x, OF ob(3)] by (simp add: algebra_simps)
qed

lemma verify_ok:
  assumes "ec_gc (w_ctxs w i) = Some h" "heap_wf w h xs" "length xs < 2 ^ 32 - 1"
  shows "wah_gc_verify_heap i w = Some True"
proof -
  have n: "unat (gc_object_count (w_heaps w h)) = length xs" using assms(2,3) by (simp add: heap_wf_def unat_of_nat)
  have "verify_loop (w_objects w) (gc_object_count (w_heaps w h)) (gc_all_objects (w_heaps w h)) 0 0
      = Some (Some (0 + of_nat (length xs), 0 + sum_list (map (size_at (w_objects w)) xs)))"
    using assms(2,3) n by (intro verify_loop_ok) (simp_all add: heap_wf_def)
  then show ?thesis using assms(1,2) by (simp add: wah_gc_verify_heap_def heap_wf_def)
qed

text \<open>
  What an allocation that succeeds does: the block becomes the first object of the heap, unmarked and with the given
  payload; no other object changes; its size is charged to the owner, whose limit is respected.
\<close>

definition new_object :: "u64 \<Rightarrow> int \<Rightarrow> u8 list \<Rightarrow> wah_world \<Rightarrow> wah_world \<Rightarrow> bool" where
  "new_object obj repr_id payload w w' \<longleftrightarrow>
     (\<exists>ob. w_objects w' = (w_objects w)(obj \<mapsto> ob) \<and> go_repr_id ob = repr_id \<and> go_payload ob = payload
       \<and> go_size_bytes ob = GC_HEADER_SIZE + length payload \<and> \<not> wah_gc_marked ob \<and> \<not> wah_gc_gray ob)"

definition charged :: "nat \<Rightarrow> nat \<Rightarrow> wah_world \<Rightarrow> wah_world \<Rightarrow> bool" where
  "charged o' n w w' \<longleftrightarrow> (let c = w_ctxs w o'; c' = w_ctxs w' o' in
     ec_memory_bytes_committed c' = ec_memory_bytes_committed c + of_nat n
     \<and> (ec_max_memory_bytes c \<noteq> - 1 \<longrightarrow> ec_memory_bytes_committed c' \<le> ec_max_memory_bytes c))"

definition allocated :: "nat \<Rightarrow> u64 list \<Rightarrow> u64 \<Rightarrow> int \<Rightarrow> u8 list \<Rightarrow> wah_world \<Rightarrow> wah_world \<Rightarrow> bool" where
  "allocated h xs obj repr_id payload w w' \<longleftrightarrow> heap_wf w' h (obj # xs) \<and> new_object obj repr_id payload w w'
     \<and> charged (gc_owner (w_heaps w h)) (GC_HEADER_SIZE + length payload) w w'"

definition fresh_block :: "u64 \<Rightarrow> wah_world \<Rightarrow> bool" where
  "fresh_block obj w \<longleftrightarrow> obj \<noteq> 0 \<and> tag_aligned obj \<and> unat obj + GC_HEADER_SIZE < 2 ^ 64 \<and> w_objects w obj = None"

lemma unat_lt64: "unat (x :: u64) < 2 ^ 64"
  using unsigned_less [of x] by simp

lemma budget_fits:
  assumes "wah_budget_check c n" "ec_max_memory_bytes c \<noteq> - 1"
  shows "ec_memory_bytes_committed c + n \<le> ec_max_memory_bytes c"
proof -
  let ?k = "ec_memory_bytes_committed c" and ?m = "ec_max_memory_bytes c"
  have le: "?k \<le> ?m" and n: "n \<le> ?m - ?k" using assms by (auto simp: wah_budget_check_def split: if_splits)
  have "unat ?k + unat n \<le> unat ?m" using le n by (simp add: word_le_nat_alt unat_sub)
  moreover from this have "unat (?k + n) = unat ?k + unat n" using unat_lt64 [of ?m] by (subst unat_add_lem [symmetric]) simp
  ultimately show ?thesis by (simp add: word_le_nat_alt)
qed

lemma same_objects_accounts:
  assumes "\<And>x. x \<in> set xs \<Longrightarrow> objs' x = objs x"
  shows "map (size_at objs') xs = map (size_at objs) xs" "filter (exn_at objs') xs = filter (exn_at objs) xs"
  using assms by (auto simp: size_at_def exn_at_def intro: filter_cong)

lemma wf_heap_new:
  assumes wf: "heap_wf w h xs" and fresh: "fresh_block obj w"
    and ob: "w_objects w' = (w_objects w)(obj \<mapsto> ob)" "wah_gc_next ob = gc_all_objects (w_heaps w h)"
    and gc': "gc_all_objects (w_heaps w' h) = obj" "gc_object_count (w_heaps w' h) = gc_object_count (w_heaps w h) + 1"
      "gc_allocated_bytes (w_heaps w' h) = gc_allocated_bytes (w_heaps w h) + of_nat (go_size_bytes ob)"
      "gc_exception_count (w_heaps w' h) = gc_exception_count (w_heaps w h) + (if go_repr_id ob = WAH_TYPE_EXN then 1 else 0)"
  shows "heap_wf w' h (obj # xs)"
proof -
  have chain: "obj_list (w_objects w) (gc_all_objects (w_heaps w h)) xs" using wf by (simp add: heap_wf_def)
  have new: "obj \<notin> set xs" using obj_list_dom [OF chain] fresh by (auto simp: fresh_block_def)
  have same: "w_objects w' x = w_objects w x" if "x \<in> set xs" for x using new that by (auto simp: ob(1))
  have eqs: "map (size_at (w_objects w')) xs = map (size_at (w_objects w)) xs" "filter (exn_at (w_objects w')) xs = filter (exn_at (w_objects w)) xs"
    using same_objects_accounts [OF same] by simp_all
  have "size_at (w_objects w') obj = of_nat (go_size_bytes ob)" "exn_at (w_objects w') obj \<longleftrightarrow> go_repr_id ob = WAH_TYPE_EXN"
    by (simp_all add: ob(1) size_at_def exn_at_def)
  moreover have "obj_list (w_objects w') (gc_all_objects (w_heaps w' h)) (obj # xs)"
    using chain new fresh by (simp add: ob gc'(1) fresh_block_def)
  ultimately show ?thesis unfolding heap_wf_def using wf fresh by (simp add: eqs gc' heap_wf_def fresh_block_def algebra_simps)
qed


text \<open>An allocation either changes nothing or is the one above, but for the count of exceptions.\<close>

definition exn_uncounted :: "int \<Rightarrow> nat \<Rightarrow> wah_world \<Rightarrow> wah_world" where
  "exn_uncounted repr_id h w = (if repr_id = WAH_TYPE_EXN then update_heap h (\<lambda>gc. gc\<lparr>gc_exception_count := gc_exception_count gc + 1\<rparr>) w else w)"

lemma payload_nonnull:
  assumes "fresh_block obj w"
  shows "wah_gc_payload obj \<noteq> 0" "wah_gc_header (wah_gc_payload obj) = obj"
proof -
  have "unat (obj + 24) = unat obj + 24" using assms by (subst unat_add_lem [THEN iffD1]) (simp_all add: fresh_block_def)
  then show "wah_gc_payload obj \<noteq> 0" by (auto simp: wah_gc_payload_def)
qed (simp add: wah_gc_payload_def wah_gc_header_def)

lemma fresh_header:
  assumes "tag_aligned a" "go_next_tagged ob = 0"
  shows "\<not> wah_gc_marked (wah_gc_set_next a ob)" "\<not> wah_gc_gray (wah_gc_set_next a ob)" "wah_gc_next (wah_gc_set_next a ob) = a"
  using assms by (simp_all add: hdr.nxt_set hdr.marked_nxt hdr.gray_nxt) (simp_all add: wah_gc_marked_def wah_gc_gray_def)

lemma set_next_fields [simp]:
  "go_repr_id (wah_gc_set_next a ob) = go_repr_id ob" "go_size_bytes (wah_gc_set_next a ob) = go_size_bytes ob"
  "go_payload (wah_gc_set_next a ob) = go_payload ob"
  by (simp_all add: wah_gc_set_next_def)

definition alloc_refused :: "u64 option \<Rightarrow> nat \<Rightarrow> nat \<Rightarrow> wah_world \<Rightarrow> bool" where
  "alloc_refused answer h n w \<longleftrightarrow> n > UINT32_MAX - GC_HEADER_SIZE
     \<or> \<not> wah_budget_check (w_ctxs w (gc_owner (w_heaps w h))) (of_nat (GC_HEADER_SIZE + n)) \<or> answer = None"

lemma alloc_cases:
  assumes gc: "ec_gc (w_ctxs w i) = Some h" and wf: "heap_wf w h xs" and fresh: "\<forall>obj. answer = Some obj \<longrightarrow> fresh_block obj w"
    and r: "wah_gc_alloc answer i m repr_id n w = (p, w')"
  shows "if alloc_refused answer h n w then p = 0 \<and> w' = w
    else \<exists>obj. answer = Some obj \<and> p = wah_gc_payload obj \<and> new_object obj repr_id (replicate n 0) w w'
      \<and> charged (gc_owner (w_heaps w h)) (GC_HEADER_SIZE + n) w w' \<and> heap_wf (exn_uncounted repr_id h w') h (obj # xs)
      \<and> ec_gc (w_ctxs w' i) = Some h"
proof (cases "alloc_refused answer h n w")
  case True
  then show ?thesis using gc r by (auto simp: alloc_refused_def wah_gc_alloc_def Let_def split: option.splits if_splits)
next
  case False
  then obtain obj where obj: "answer = Some obj" "\<not> n > UINT32_MAX - GC_HEADER_SIZE"
    "wah_budget_check (w_ctxs w (gc_owner (w_heaps w h))) (of_nat (GC_HEADER_SIZE + n))" by (auto simp: alloc_refused_def)
  have f: "fresh_block obj w" using fresh obj(1) by simp
  define ob where "ob = wah_gc_set_next (gc_all_objects (w_heaps w h)) \<lparr> go_next_tagged = 0, go_repr_id = repr_id,
    go_size_bytes = GC_HEADER_SIZE + n, go_module = m, go_payload = replicate n 0 \<rparr>"
  have al: "tag_aligned (gc_all_objects (w_heaps w h))" using wf by (simp add: heap_wf_def)
  have ob: "go_repr_id ob = repr_id" "go_size_bytes ob = GC_HEADER_SIZE + n" "go_payload ob = replicate n 0"
    "\<not> wah_gc_marked ob" "\<not> wah_gc_gray ob" "wah_gc_next ob = gc_all_objects (w_heaps w h)"
    using fresh_header [OF al] by (simp_all add: ob_def)
  have p: "p = wah_gc_payload obj" and objs: "w_objects w' = (w_objects w)(obj \<mapsto> ob)"
    using r gc obj by (auto simp: wah_gc_alloc_def Let_def update_ctx_def ob_def)
  have heap: "gc_all_objects (w_heaps w' h) = obj" "gc_object_count (w_heaps w' h) = gc_object_count (w_heaps w h) + 1"
      "gc_allocated_bytes (w_heaps w' h) = gc_allocated_bytes (w_heaps w h) + of_nat (go_size_bytes ob)"
      "gc_exception_count (w_heaps w' h) = gc_exception_count (w_heaps w h)"
    unfolding ob(2) using r gc obj by (auto simp: wah_gc_alloc_def Let_def update_ctx_def)
  have ctx: "ec_memory_bytes_committed (w_ctxs w' (gc_owner (w_heaps w h))) =
      ec_memory_bytes_committed (w_ctxs w (gc_owner (w_heaps w h))) + of_nat (GC_HEADER_SIZE + n)" "ec_gc (w_ctxs w' i) = Some h"
    using r gc obj by (auto simp: wah_gc_alloc_def Let_def update_ctx_def wah_budget_charge_def)
  have "heap_wf (exn_uncounted repr_id h w') h (obj # xs)"
    by (rule wf_heap_new [OF wf f, where ob = ob]) (simp_all add: exn_uncounted_def objs heap ob)
  moreover have "charged (gc_owner (w_heaps w h)) (GC_HEADER_SIZE + n) w w'"
    using ctx(1) budget_fits [OF obj(3)] by (simp add: charged_def Let_def)
  ultimately show ?thesis using False obj(1) p objs ob ctx(2) by (auto simp: new_object_def)
qed

lemma new_object_wf:
  assumes "heap_wf w' h xs" "w_objects w'' = (w_objects w')(obj \<mapsto> ob')" "w_objects w' obj = Some ob" "w_heaps w'' = w_heaps w'"
    "go_next_tagged ob' = go_next_tagged ob" "go_repr_id ob' = go_repr_id ob" "go_size_bytes ob' = go_size_bytes ob"
  shows "heap_wf w'' h xs"
proof -
  have "size_at (w_objects w'') = size_at (w_objects w')" "exn_at (w_objects w'') = exn_at (w_objects w')"
    using assms by (auto simp: size_at_def exn_at_def fun_eq_iff)
  moreover have "obj_list (w_objects w'') p ys" if "obj_list (w_objects w') p ys" for p ys
    using that assms by (induction ys arbitrary: p) (auto simp: wah_gc_next_def)
  ultimately show ?thesis using assms(1,4) by (simp add: heap_wf_def)
qed


definition alloc_result :: "u64 option \<Rightarrow> nat \<Rightarrow> u64 list \<Rightarrow> int \<Rightarrow> u8 list \<Rightarrow> wah_world \<Rightarrow> u64 \<times> wah_world \<Rightarrow> bool" where
  "alloc_result answer h xs repr_id payload w r \<longleftrightarrow> (case r of (p, w') \<Rightarrow>
     if alloc_refused answer h (length payload) w then p = 0 \<and> w' = w
     else \<exists>obj. answer = Some obj \<and> p = wah_gc_payload obj \<and> allocated h xs obj repr_id payload w w')"

lemma alloc_plain_ok:
  assumes "ec_gc (w_ctxs w i) = Some h" "heap_wf w h xs" "\<forall>obj. answer = Some obj \<longrightarrow> fresh_block obj w" "repr_id \<noteq> WAH_TYPE_EXN"
  shows "alloc_result answer h xs repr_id (replicate n 0) w (wah_gc_alloc answer i m repr_id n w)"
  using alloc_cases [OF assms(1-3), of m repr_id n] assms(4)
  by (cases "wah_gc_alloc answer i m repr_id n w") (auto simp: alloc_result_def allocated_def exn_uncounted_def split: if_splits)

lemma alloc_array_ok:
  assumes gc: "ec_gc (w_ctxs w i) = Some h" and wf: "heap_wf w h xs" and fresh: "\<forall>obj. answer = Some obj \<longrightarrow> fresh_block obj w"
    and repr: "repr_id \<noteq> WAH_TYPE_EXN"
  shows "alloc_result answer h xs repr_id (wah_write_u32_le (of_nat len) @ replicate (4 + ri_size info * len) 0) w
    (wah_gc_alloc_array answer i m repr_id info len w)"
proof -
  let ?n = "ARRAY_BODY_SIZE + ri_size info * len"
  obtain p w1 where r: "wah_gc_alloc answer i (Some m) repr_id ?n w = (p, w1)" by fastforce
  have len: "length (wah_write_u32_le (of_nat len)) = 4" by (simp add: wah_write_u32_le_def)
  show ?thesis
  proof (cases "alloc_refused answer h ?n w")
    case True
    then have "p = 0 \<and> w1 = w" using alloc_cases [OF gc wf fresh r] by simp
    then show ?thesis using True r len by (simp add: alloc_result_def wah_gc_alloc_array_def)
  next
    case False
    then obtain obj where obj: "answer = Some obj" "p = wah_gc_payload obj" "new_object obj repr_id (replicate ?n 0) w w1"
      "charged (gc_owner (w_heaps w h)) (GC_HEADER_SIZE + ?n) w w1" "heap_wf w1 h (obj # xs)"
      using alloc_cases [OF gc wf fresh r] repr by (auto simp: exn_uncounted_def)
    have f: "fresh_block obj w" using fresh obj(1) by simp
    from obj(3) obtain ob where ob: "w_objects w1 = (w_objects w)(obj \<mapsto> ob)" "go_repr_id ob = repr_id" "go_payload ob = replicate ?n 0"
      "go_size_bytes ob = GC_HEADER_SIZE + ?n" "\<not> wah_gc_marked ob" "\<not> wah_gc_gray ob" by (auto simp: new_object_def)
    let ?ob = "ob\<lparr>go_payload := wah_write_u32_le (of_nat len) @ replicate (4 + ri_size info * len) 0\<rparr>"
    let ?w = "w1\<lparr>w_objects := (w_objects w1)(obj \<mapsto> ?ob)\<rparr>"
    have "wah_gc_alloc_array answer i m repr_id info len w = (p, ?w)"
      using r False obj(2) payload_nonnull [OF f] ob(1,3) by (simp add: wah_gc_alloc_array_def alloc_refused_def set_array_length_def)
    moreover have "heap_wf ?w h (obj # xs)" by (rule new_object_wf [OF obj(5), where obj = obj and ob = ob and ob' = ?ob]) (simp_all add: ob(1))
    moreover have "new_object obj repr_id (wah_write_u32_le (of_nat len) @ replicate (4 + ri_size info * len) 0) w ?w"
      using ob len unfolding new_object_def by (intro exI [of _ ?ob]) (simp add: wah_gc_marked_def wah_gc_gray_def)
    moreover have "charged (gc_owner (w_heaps w h)) (GC_HEADER_SIZE + ?n) w ?w" using obj(4) by (simp add: charged_def)
    ultimately show ?thesis using False obj(1,2) len by (simp add: alloc_result_def allocated_def)
  qed
qed

lemma alloc_exception_ok:
  assumes gc: "ec_gc (w_ctxs w i) = Some h" and wf: "heap_wf w h xs" and fresh: "\<forall>obj. answer = Some obj \<longrightarrow> fresh_block obj w"
    and r: "wah_gc_alloc_exception answer i n w = (p, w')"
  defines "payload \<equiv> replicate (EXCEPTION_FIELDS_SIZE + n * (VALUE_SIZE + 4)) 0"
  shows "if alloc_refused answer h (length payload) w then p = 0 \<and> w' = w
    else answer = Some p \<and> allocated h xs p WAH_TYPE_EXN payload w w'"
proof -
  let ?n = "EXCEPTION_FIELDS_SIZE + n * (VALUE_SIZE + 4)"
  obtain q w1 where q: "wah_gc_alloc answer i None WAH_TYPE_EXN ?n w = (q, w1)" by fastforce
  show ?thesis
  proof (cases "alloc_refused answer h ?n w")
    case True
    then have "q = 0 \<and> w1 = w" using alloc_cases [OF gc wf fresh q] by simp
    then show ?thesis using True r q by (auto simp: payload_def wah_gc_alloc_exception_def Let_def split: if_splits)
  next
    case False
    then obtain obj where obj: "answer = Some obj" "q = wah_gc_payload obj" "new_object obj WAH_TYPE_EXN payload w w1"
      "charged (gc_owner (w_heaps w h)) (GC_HEADER_SIZE + ?n) w w1"
      "heap_wf (exn_uncounted WAH_TYPE_EXN h w1) h (obj # xs)" "ec_gc (w_ctxs w1 i) = Some h"
      using alloc_cases [OF gc wf fresh q] by (auto simp: payload_def)
    have f: "fresh_block obj w" using fresh obj(1) by simp
    have "p = obj" "w' = exn_uncounted WAH_TYPE_EXN h w1"
      using r q False obj(2,6) payload_nonnull [OF f] by (auto simp: wah_gc_alloc_exception_def alloc_refused_def exn_uncounted_def)
    then show ?thesis using obj False by (simp add: payload_def allocated_def new_object_def charged_def exn_uncounted_def)
  qed
qed

section \<open>Ending a heap\<close>

lemma free_objects_ok:
  "obj_list objs p xs \<Longrightarrow> \<exists>objs'. free_objects p objs = Some objs' \<and> (\<forall>x. objs' x = (if x \<in> set xs then None else objs x))"
proof (induction xs arbitrary: p objs)
  case Nil
  then show ?case by (subst free_objects.simps) simp
next
  case (Cons x xs)
  then obtain ob where ob: "p = x" "x \<noteq> 0" "objs x = Some ob" "obj_list objs (wah_gc_next ob) xs" by auto
  have "x \<notin> set xs" using obj_list_distinct [OF Cons.prems] by simp
  then have "obj_list (objs(x := None)) (wah_gc_next ob) xs" using ob(4) by simp
  from Cons.IH [OF this] obtain objs' where objs': "free_objects (wah_gc_next ob) (objs(x := None)) = Some objs'"
    "\<forall>y. objs' y = (if y \<in> set xs then None else (objs(x := None)) y)" by blast
  have "free_objects p objs = Some objs'" using ob(1-3) objs'(1) by (subst free_objects.simps) simp
  moreover have "objs' y = (if y \<in> set (x # xs) then None else objs y)" for y using objs'(2) [rule_format, of y] by simp
  ultimately show ?case by blast
qed

lemma gc_end_ok:
  assumes gc: "ec_gc (w_ctxs w i) = Some h" and wf: "heap_wf w h xs" and owner: "gc_owner (w_heaps w h) = i"
  shows "\<exists>w'. wah_gc_end i w = Some w' \<and> (\<forall>x. w_objects w' x = (if x \<in> set xs then None else w_objects w x)) \<and> heap_wf w' h []
    \<and> w_ctxs w' = (w_ctxs w)(i := wah_budget_release (sum_list (map (size_at (w_objects w)) xs)) (w_ctxs w i)\<lparr>ec_gc := None\<rparr>)"
proof -
  have chain: "obj_list (w_objects w) (gc_all_objects (w_heaps w h)) xs" and bytes: "gc_allocated_bytes (w_heaps w h) = sum_list (map (size_at (w_objects w)) xs)"
    using wf by (simp_all add: heap_wf_def)
  from free_objects_ok [OF chain] obtain objs where objs: "free_objects (gc_all_objects (w_heaps w h)) (w_objects w) = Some objs"
    "\<forall>x. objs x = (if x \<in> set xs then None else w_objects w x)" by blast
  show ?thesis using gc owner objs bytes
    by (simp add: wah_gc_end_def wah_gc_free_all_objects_def update_ctx_def update_heap_def heap_wf_def tag_aligned_def wah_budget_release_def)
qed

section \<open>Dependents\<close>

lemma index_of_mem: "x \<in> set xs \<Longrightarrow> \<exists>i < length xs. index_of x xs = Some i \<and> xs ! i = x"
  by (induction xs) auto

lemma index_of_None: "index_of x xs = None \<longleftrightarrow> x \<notin> set xs"
  by (induction xs) auto

lemma swap_remove_set:
  assumes "distinct xs" "i < length xs"
  shows "set (butlast (xs[i := last xs])) = set xs - {xs ! i} \<and> distinct (butlast (xs[i := last xs]))"
proof -
  obtain ys y where xs: "xs = ys @ [y]" using assms(2) by (cases xs rule: rev_cases) auto
  show ?thesis
  proof (cases "i < length ys")
    case True
    then have "butlast (xs[i := last xs]) = ys[i := y]" by (simp add: xs list_update_append)
    moreover have "distinct ys" "y \<notin> set ys" using assms(1) by (simp_all add: xs)
    ultimately show ?thesis using True by (auto simp: xs nth_append set_update_distinct distinct_list_update)
  next
    case False
    then have "i = length ys" using assms(2) by (simp add: xs)
    then show ?thesis using assms(1) by (auto simp: xs list_update_append)
  qed
qed

lemma dependents_ok:
  assumes "distinct (gc_gc_dependents gc)"
  shows "wah_gc_register_dependent True dep gc = Inr gc' \<Longrightarrow> distinct (gc_gc_dependents gc') \<and> set (gc_gc_dependents gc') = insert dep (set (gc_gc_dependents gc))"
    "distinct (gc_gc_dependents (wah_gc_unregister_dependent dep gc)) \<and> set (gc_gc_dependents (wah_gc_unregister_dependent dep gc)) = set (gc_gc_dependents gc) - {dep}"
proof -
  show "wah_gc_register_dependent True dep gc = Inr gc' \<Longrightarrow> distinct (gc_gc_dependents gc') \<and> set (gc_gc_dependents gc') = insert dep (set (gc_gc_dependents gc))"
    using assms by (auto simp: wah_gc_register_dependent_def split: if_splits)
  show "distinct (gc_gc_dependents (wah_gc_unregister_dependent dep gc)) \<and> set (gc_gc_dependents (wah_gc_unregister_dependent dep gc)) = set (gc_gc_dependents gc) - {dep}"
  proof (cases "dep \<in> set (gc_gc_dependents gc)")
    case True
    then obtain i where "i < length (gc_gc_dependents gc)" "index_of dep (gc_gc_dependents gc) = Some i" "gc_gc_dependents gc ! i = dep"
      using index_of_mem by metis
    then show ?thesis using swap_remove_set [OF assms] by (simp add: wah_gc_unregister_dependent_def)
  qed (use assms in \<open>simp add: wah_gc_unregister_dependent_def index_of_None [symmetric]\<close>)
qed

section \<open>Properties\<close>

text \<open>C6: the domain of a context, collected by extending a list while going through it, is computed in finite time and
  without repetition, and holds exactly the contexts linked to it, directly or not, in either direction. It can only fail when
  memory is short, which never happens with at most eight contexts.\<close>

theorem gc_domain_complete:
  assumes "finite (link_domain w i)"
  shows "\<exists>r. wah_gc_collect_domain w i grants = Some r \<and> (\<forall>d c g. r = Inr (d, c, g) \<longrightarrow> distinct d \<and> set d = link_domain w i)
    \<and> (card (link_domain w i) \<le> 8 \<longrightarrow> (\<exists>s'. r = Inr s'))"
  using assms by (rule collect_domain_ok)

text \<open>C5: marking terminates, reads no freed or foreign memory, and marks exactly the reachable objects of the domain, whatever
  the allocator answers when the worklist asks to grow: objects left gray are found again. It changes no object but for
  its flags.\<close>

theorem gc_mark_exact:
  assumes "wah_gc_collect_domain w i grants = Some (Inr (domain, cap, grants'))" "domain_ok w i domain L roots"
  shows "\<exists>w'. wah_gc_step_mark i grants w = Some (True, w') \<and> marks_reachable w i domain L roots w'"
proof -
  from step_mark_ok [OF assms] obtain v other objs where "wah_gc_step_mark i grants w = Some (True, update_heap v other (w\<lparr>w_objects := objs\<rparr>))"
    "marks_reachable w i domain L roots (w\<lparr>w_objects := objs\<rparr>)" by blast
  then show ?thesis by (simp add: marks_reachable_def)
qed

text \<open>C4: a collection step, from a heap that is not already being swept, terminates and frees exactly the unreachable objects of
  the context's own heap: reachable objects of the whole domain keep their contents, the heap's list and counters match the
  objects left, and the owner's budget gets back the bytes freed.\<close>

theorem gc_step_correct:
  assumes "ec_gc (w_ctxs w i) = Some h" "gc_phase (w_heaps w h) \<noteq> WAH_GC_PHASE_SWEEP"
    "wah_gc_collect_domain w i grants = Some (Inr (domain, cap, grants'))" "domain_ok w i domain L roots"
  shows "\<exists>w'. wah_gc_step i grants w = Some w' \<and> gc_phase (w_heaps w' h) = WAH_GC_PHASE_IDLE
    \<and> collected h (L h) (gc_reachable (ctx_module w i) (w_objects w) roots) (domain_objects w domain L) w w'"
  using assms by (rule gc_step_collects)

text \<open>C36: the sweep of exceptions after a cancellation frees the unreachable exceptions and nothing else.\<close>

theorem gc_sweep_exceptions_correct:
  assumes "ec_gc (w_ctxs w i) = Some h" "gc_exception_count (w_heaps w h) \<noteq> 0"
    "wah_gc_collect_domain w i grants = Some (Inr (domain, cap, grants'))" "domain_ok w i domain L roots"
  shows "\<exists>w'. wah_gc_sweep_unreachable_exceptions i grants w = Some w' \<and> gc_phase (w_heaps w' h) = WAH_GC_PHASE_IDLE
    \<and> collected h (L h) (\<lambda>x. gc_reachable (ctx_module w i) (w_objects w) roots x \<or> \<not> exn_at (w_objects w) x)
        (domain_objects w domain L) w w'"
  using assms by (rule sweep_exceptions_ok)

text \<open>C7: allocating an array or an exception changes nothing if the payload is too large, the memory limit would be exceeded or
  the allocator fails, and returns null then; otherwise the block is the new first object of the heap, unmarked, zeroed but
  for the length of an array, its bytes are charged to the owner, whose limit is respected, and the heap stays
  well-formed.\<close>

theorem gc_allocation_correct:
  assumes "ec_gc (w_ctxs w i) = Some h" "heap_wf w h xs" "\<forall>obj. answer = Some obj \<longrightarrow> fresh_block obj w" "repr_id \<noteq> WAH_TYPE_EXN"
    "wah_gc_alloc_exception answer i n w = (p, w')"
  defines "payload \<equiv> replicate (EXCEPTION_FIELDS_SIZE + n * (VALUE_SIZE + 4)) 0"
  shows "alloc_result answer h xs repr_id (wah_write_u32_le (of_nat len) @ replicate (4 + ri_size info * len) 0) w
      (wah_gc_alloc_array answer i m repr_id info len w)
    \<and> (if alloc_refused answer h (length payload) w then p = 0 \<and> w' = w
       else answer = Some p \<and> allocated h xs p WAH_TYPE_EXN payload w w')"
  unfolding payload_def by (intro conjI alloc_array_ok [OF assms(1-4)] alloc_exception_ok [OF assms(1-3,5)])

text \<open>The debugging check of a heap accepts every well-formed heap, and ending a heap frees all its objects, leaves it empty
  and gives the bytes back to the owner.\<close>

lemma gc_verify_end:
  assumes "ec_gc (w_ctxs w i) = Some h" "heap_wf w h xs" "gc_owner (w_heaps w h) = i" "length xs < 2 ^ 32 - 1"
  shows "wah_gc_verify_heap i w = Some True
    \<and> (\<exists>w'. wah_gc_end i w = Some w' \<and> (\<forall>x. w_objects w' x = (if x \<in> set xs then None else w_objects w x)) \<and> heap_wf w' h []
        \<and> w_ctxs w' = (w_ctxs w)(i := wah_budget_release (sum_list (map (size_at (w_objects w)) xs)) (w_ctxs w i)\<lparr>ec_gc := None\<rparr>))"
  using verify_ok [OF assms(1,2,4)] gc_end_ok [OF assms(1-3)] by blast

end
