(* ===== verification/Wah_GC_Examples.thy ===== *)
theory Wah_GC_Examples
  imports Wah_GC_Collect
begin

text \<open>
  A context with a heap of four objects: a structure with a reference to a host object, pinned by the host, and an exception
  and a host object that nothing refers to.
\<close>

definition ex_module :: wah_parsed_module where
  "ex_module = \<lparr> pm_module = wah_module_zero\<lparr>repr_infos := [\<lparr> ri_type = WAH_REPR_STRUCT, ri_typeidx = 0, ri_size = 8,
       ri_fields = [\<lparr>rf_offset = 0, rf_repr_id = WAH_REPR_REF\<rparr>] \<rparr>]\<rparr>,
     pm_code_bodies = [], pm_global_deps = [], pm_functions = [] \<rparr>"

definition ex_objects :: objects where
  "ex_objects = [0x400 \<mapsto> \<lparr> go_next_tagged = 0x300, go_repr_id = WAH_REPR_HOST, go_size_bytes = 24, go_module = None, go_payload = [] \<rparr>,
     0x300 \<mapsto> \<lparr> go_next_tagged = 0x100, go_repr_id = WAH_TYPE_EXN, go_size_bytes = 40, go_module = None, go_payload = replicate 16 0 \<rparr>,
     0x100 \<mapsto> \<lparr> go_next_tagged = 0x200, go_repr_id = 0, go_size_bytes = 32, go_module = None, go_payload = [0x18, 2, 0, 0, 0, 0, 0, 0] \<rparr>,
     0x200 \<mapsto> \<lparr> go_next_tagged = 0, go_repr_id = WAH_REPR_HOST, go_size_bytes = 24, go_module = None, go_payload = [] \<rparr>]"

definition ex_heap :: wah_gc_state where
  "ex_heap = \<lparr> gc_all_objects = 0x400, gc_phase = WAH_GC_PHASE_IDLE, gc_object_count = 4, gc_exception_count = 1, gc_allocated_bytes = 120,
     gc_allocation_threshold = WAH_GC_DEFAULT_THRESHOLD, gc_other_heap_bytes = 0, gc_pending = False, gc_owner = 0,
     gc_gc_dependents = [], gc_host_call = None \<rparr>"

definition ex_context :: wah_exec_context where
  "ex_context = \<lparr> ec_sp = 0, ec_frames = [], ec_poll_flag = False, ec_globals = 0, ec_module = ex_module, ec_tables = [],
     ec_linked_modules = [], ec_is_instantiated = True, ec_may_share_refs = False, ec_poisoned = False, ec_pending_exception = 0,
     ec_gc = Some 0, ec_max_memory_bytes = 1000, ec_memory_bytes_committed = 120,
     ec_pins = Some \<lparr> pt_slots = [\<lparr> ps_value = 0x118, ps_module = None, ps_type = WAH_TYPE_ANY, ps_generation = 0, ps_next_free = 0 \<rparr>],
                      pt_free_head = 0 \<rparr>,
     ec_lifecycle = \<lparr> lc_state = WAH_EXEC_READY, lc_entry_result_count = 0, lc_entry_fn = None, lc_base_sp = 0, lc_base_call_depth = 0 \<rparr>,
     ec_dependents = [] \<rparr>"

definition ex_world :: wah_world where
  "ex_world = \<lparr> w_objects = ex_objects, w_heaps = (\<lambda>_. ex_heap), w_ctxs = (\<lambda>_. ex_context), w_slots = (\<lambda>_. 0) \<rparr>"

lemma ex_world_sel [simp]:
  "w_objects ex_world = ex_objects" "w_heaps ex_world h = ex_heap" "w_ctxs ex_world i = ex_context" "w_slots ex_world p = 0"
  by (simp_all add: ex_world_def)

lemma ex_context_sel [simp]:
  "ec_gc ex_context = Some 0" "ec_linked_modules ex_context = []" "ec_dependents ex_context = []" "ec_module ex_context = ex_module"
  "ec_memory_bytes_committed ex_context = 120" "ec_max_memory_bytes ex_context = 1000"
  by (simp_all add: ex_context_def)

lemma ex_heap_sel [simp]:
  "gc_all_objects ex_heap = 0x400" "gc_phase ex_heap = WAH_GC_PHASE_IDLE" "gc_object_count ex_heap = 4" "gc_exception_count ex_heap = 1"
  "gc_allocated_bytes ex_heap = 120" "gc_owner ex_heap = 0" "gc_gc_dependents ex_heap = []" "gc_host_call ex_heap = None"
  by (simp_all add: ex_heap_def)

lemma ex_neighbours: "domain_neighbours ex_world i = []"
  by (simp add: domain_neighbours_def)

lemma ex_link_domain: "link_domain ex_world i = {i}"
proof -
  have "j = i" if "(linked_to ex_world)\<^sup>*\<^sup>* i j" for j
    using that by (induction rule: rtranclp_induct) (simp_all add: linked_to_neighbour ex_neighbours)
  then show ?thesis by (auto simp: link_domain_def)
qed

lemma ex_domain: "wah_gc_collect_domain ex_world 0 grants = Some (Inr ([0], 8, grants))"
  by (simp add: wah_gc_collect_domain_def wah_gc_domain_add_def domain_loop.simps [of _ 0] domain_loop.simps [of _ "Suc 0"] ex_neighbours)

lemma ex_next:
  assumes "(a, b) \<in> {(0, 0), (0x100, 0x100), (0x200, 0x200), (0x300, 0x300)}"
  shows "wah_gc_next \<lparr> go_next_tagged = a, go_repr_id = r, go_size_bytes = n, go_module = m, go_payload = p \<rparr> = b"
  using assms by (auto simp: wah_gc_next_def)

lemma ex_heap_wf: "heap_wf ex_world 0 [0x400, 0x300, 0x100, 0x200]"
  by (simp add: heap_wf_def ex_objects_def ex_next size_at_def exn_at_def tag_aligned_def)

lemma ex_domain_heaps: "domain_heaps ex_world [0] = [0]"
  by (simp add: domain_heaps_def wah_gc_domain_first_heap_def)

lemma ex_roots: "domain_roots ex_world 0 [0] = Some [0x118]"
  by (simp add: domain_roots_def wah_gc_enumerate_roots_def Let_def host_entry_roots_def host_call_roots_def finished_roots_def
    wah_gc_visit_module_globals_def wah_gc_visit_pins_def table_roots_def ex_context_def ex_module_def wah_module_zero_def
    wah_global_index_limit_def u32_add_def value_ref_def)

lemma ex_refs: "refs_at (pm_module ex_module) ex_objects x = (if x = 0x100 then Some [0x218] else if x \<in> {0x200, 0x300, 0x400} then Some [] else None)"
  by (simp add: refs_at_def ex_objects_def object_refs_def exception_refs_def read_u32_def read_at_def ex_module_def wah_repr_info_get_def
    wah_repr_field_is_ref_def read_ref_def wah_read_u64_le_def wah_read_u32_le_def)

lemma ex_points: "points_to (pm_module ex_module) ex_objects x y \<longleftrightarrow> x = 0x100 \<and> y = 0x200"
  by (auto simp: points_to_def ex_refs ref_target_def wah_ref_is_i31_def wah_gc_header_def split: if_splits)

lemma ex_reachable: "gc_reachable (pm_module ex_module) ex_objects [0x118] x \<longleftrightarrow> x = 0x100 \<or> x = 0x200"
proof
  show "gc_reachable (pm_module ex_module) ex_objects [0x118] x \<Longrightarrow> x = 0x100 \<or> x = 0x200"
    by (induction rule: gc_reachable.induct) (auto simp: ex_points ref_target_def wah_gc_header_def split: if_splits)
  have r: "gc_reachable (pm_module ex_module) ex_objects [0x118] 0x100"
    by (rule gc_reachable.root [of "0x118"]) (simp_all add: ref_target_def wah_ref_is_i31_def wah_gc_header_def)
  then have "gc_reachable (pm_module ex_module) ex_objects [0x118] 0x200" by (rule gc_reachable.step) (simp add: ex_points)
  then show "x = 0x100 \<or> x = 0x200 \<Longrightarrow> gc_reachable (pm_module ex_module) ex_objects [0x118] x" using r by auto
qed

definition ex_lists :: "nat \<Rightarrow> u64 list" where
  "ex_lists h = [0x400, 0x300, 0x100, 0x200]"

lemma ex_domain_objects: "domain_objects ex_world [0] ex_lists = {0x400, 0x300, 0x100, 0x200}"
  by (simp add: domain_objects_def ex_domain_heaps ex_lists_def)

lemma ex_domain_ok: "domain_ok ex_world 0 [0] ex_lists [0x118]"
proof -
  have "finite (dom ex_objects)" by (simp add: ex_objects_def)
  then have "heap_closed (pm_module ex_module) ex_objects (domain_objects ex_world [0] ex_lists) [0x118]"
    by (auto simp: heap_closed_def ex_domain_objects ex_refs ex_points ref_target_def wah_gc_header_def split: if_splits)
  then show ?thesis by (simp add: domain_ok_def ex_link_domain ex_domain_heaps ex_lists_def [abs_def] ex_heap_wf ex_roots)
qed

section \<open>The collector at work\<close>

theorem gc_domain_complete_witness: "\<exists>s'. wah_gc_collect_domain ex_world 0 [] = Some (Inr s') \<and> set (fst s') = {0}"
  using gc_domain_complete [of ex_world 0 "[]"] by (auto simp: ex_link_domain)

theorem gc_mark_exact_witness:
  "\<exists>w'. wah_gc_step_mark 0 [] ex_world = Some (True, w') \<and> marked_at (w_objects w') 0x200 \<and> \<not> marked_at (w_objects w') 0x400"
  using gc_mark_exact [OF ex_domain ex_domain_ok, of "[]"]
  by (auto simp: marks_reachable_def ex_domain_objects ex_reachable)

theorem gc_step_correct_witness:
  "\<exists>w'. wah_gc_step 0 [] ex_world = Some w' \<and> heap_wf w' 0 [0x100, 0x200] \<and> w_objects w' 0x300 = None \<and> w_objects w' 0x400 = None
    \<and> same_contents_at ex_objects (w_objects w') 0x200 \<and> ec_memory_bytes_committed (w_ctxs w' 0) = 56"
proof -
  have sum: "size_at ex_objects 0x400 = 24" "size_at ex_objects 0x300 = 40" by (simp_all add: size_at_def ex_objects_def)
  show ?thesis
    using gc_step_correct [of ex_world 0 0 "[]", OF _ _ ex_domain ex_domain_ok]
    by (auto simp: collected_def ex_domain_objects ex_reachable ex_lists_def wah_budget_release_def sum)
qed

theorem gc_sweep_exceptions_correct_witness:
  "\<exists>w'. wah_gc_sweep_unreachable_exceptions 0 [] ex_world = Some w' \<and> heap_wf w' 0 [0x400, 0x100, 0x200] \<and> w_objects w' 0x300 = None"
proof -
  have exn: "exn_at ex_objects 0x300" "\<not> exn_at ex_objects 0x400" by (simp_all add: exn_at_def ex_objects_def)
  show ?thesis
    using gc_sweep_exceptions_correct [of ex_world 0 0 "[]", OF _ _ ex_domain ex_domain_ok]
    by (auto simp: collected_def ex_domain_objects ex_reachable ex_lists_def exn)
qed

lemma ex_fresh: "fresh_block 0x500 ex_world"
  by (simp add: fresh_block_def tag_aligned_def ex_objects_def)

theorem gc_allocation_correct_witness:
  "\<exists>w'. wah_gc_alloc_exception (Some 0x500) 0 2 ex_world = (0x500, w') \<and> heap_wf w' 0 [0x500, 0x400, 0x300, 0x100, 0x200]"
proof -
  obtain p w' where r: "wah_gc_alloc_exception (Some 0x500) 0 2 ex_world = (p, w')" by fastforce
  have "\<not> alloc_refused (Some 0x500) 0 56 ex_world" by (simp add: alloc_refused_def wah_budget_check_def)
  then show ?thesis
    using gc_allocation_correct [OF _ ex_heap_wf _ _ r, of 0 0] ex_fresh r by (auto simp: allocated_def)
qed

end
