(* ===== verification/Wah_Memo.thy ===== *)
theory Wah_Memo
  imports Wah_Types
begin

text \<open>
  The memo of the type equality check: pairs of recursion groups found equal, in a hash table with linear probing that doubles
  when it is half full. The answers of the allocator to requests to grow the table are an argument, a list of
  booleans, one for each request; when it runs out, requests fail. An operation returns \<open>None\<close> if a probe never ends, which the
  proofs exclude. Two locales carry the proofs: \<open>linear_probing\<close>, of a table with a first slot for every key, and
  \<open>memo_table\<close>, of what a check that remembers positive answers needs of its memo.
\<close>

section \<open>The memo of equal groups\<close>

record wah_type_eq_memo =
  memo_keys :: "u64 list"
  memo_count :: u32
  memo_oom :: bool
  memo_grants :: "bool list"

definition wah_type_eq_memo_key :: "nat \<Rightarrow> nat \<Rightarrow> u64" where
  "wah_type_eq_memo_key rga_s rgb_s = (push_bit 32 (of_nat rga_s) OR of_nat rgb_s) + 1"

definition memo_mask :: "nat \<Rightarrow> u32 \<Rightarrow> u32" where
  "memo_mask cap i = i AND (of_nat cap - 1)"

definition memo_hash :: "nat \<Rightarrow> u64 \<Rightarrow> u32" where
  "memo_hash cap key = memo_mask cap (ucast (drop_bit 32 (key * 0x9e3779b97f4a7c15)))"

text \<open>The loop visits a slot again after as many rounds as there are slots, so it ends within them or never.\<close>

fun memo_probe :: "nat \<Rightarrow> u64 list \<Rightarrow> u64 \<Rightarrow> u32 \<Rightarrow> u32 option" where
  "memo_probe 0 ks key i = None"
| "memo_probe (Suc rounds) ks key i =
    (if ks ! unat i \<noteq> 0 \<and> ks ! unat i \<noteq> key then memo_probe rounds ks key (memo_mask (length ks) (i + 1)) else Some i)"

definition wah_type_eq_memo_slot :: "u64 list \<Rightarrow> u64 \<Rightarrow> nat option" where
  "wah_type_eq_memo_slot ks key = map_option unat (memo_probe (length ks) ks key (memo_hash (length ks) key))"

definition wah_type_eq_memo_has :: "wah_type_eq_memo \<Rightarrow> u64 \<Rightarrow> bool option" where
  "wah_type_eq_memo_has memo key =
    (if memo_keys memo = [] then Some False
     else map_option (\<lambda>i. memo_keys memo ! i = key) (wah_type_eq_memo_slot (memo_keys memo) key))"

fun memo_rehash :: "u64 list \<Rightarrow> u64 list \<Rightarrow> u64 list option" where
  "memo_rehash [] grown = Some grown"
| "memo_rehash (k # ks) grown =
    (if k \<noteq> 0 then Option.bind (wah_type_eq_memo_slot grown k) (\<lambda>i. memo_rehash ks (grown[i := k])) else memo_rehash ks grown)"

definition memo_insert :: "u64 \<Rightarrow> wah_type_eq_memo \<Rightarrow> (bool \<times> wah_type_eq_memo) option" where
  "memo_insert key memo = map_option (\<lambda>i.
     (True, if memo_keys memo ! i = 0 then memo\<lparr>memo_keys := (memo_keys memo)[i := key], memo_count := memo_count memo + 1\<rparr> else memo))
     (wah_type_eq_memo_slot (memo_keys memo) key)"

definition wah_type_eq_memo_add :: "u64 \<Rightarrow> wah_type_eq_memo \<Rightarrow> (bool \<times> wah_type_eq_memo) option" where
  "wah_type_eq_memo_add key memo =
    (let cap = of_nat (length (memo_keys memo)) :: u32 in
     if (memo_count memo + 1) * 2 > cap then
       let new_cap = (if cap \<noteq> 0 then cap * 2 else 64) in
       if new_cap < cap then Some (False, memo\<lparr>memo_oom := True\<rparr>)
       else case memo_grants memo of
         True # grants \<Rightarrow> Option.bind (memo_rehash (memo_keys memo) (replicate (unat new_cap) 0))
                            (\<lambda>ks. memo_insert key (memo\<lparr>memo_keys := ks, memo_grants := grants\<rparr>))
       | gr \<Rightarrow> Some (False, memo\<lparr>memo_oom := True, memo_grants := tl gr\<rparr>)
     else memo_insert key memo)"

section \<open>Linear probing\<close>

text \<open>
  A table of nonzero keys with linear probing from a first slot: a key lies behind occupied slots only, counted from its
  first slot, and no key lies in two slots.
\<close>

locale linear_probing =
  fixes first :: "nat \<Rightarrow> u64 \<Rightarrow> nat" and size_ok :: "nat \<Rightarrow> bool"
  assumes size_pos: "size_ok n \<Longrightarrow> 0 < n"
    and first_less: "size_ok n \<Longrightarrow> first n key < n"
begin

definition slot_at :: "u64 list \<Rightarrow> u64 \<Rightarrow> nat \<Rightarrow> nat" where
  "slot_at ks key j = (first (length ks) key + j) mod length ks"

definition probe_inv :: "u64 list \<Rightarrow> bool" where
  "probe_inv ks \<longleftrightarrow> size_ok (length ks)
     \<and> (\<forall>p < length ks. ks ! p \<noteq> 0 \<longrightarrow> (\<forall>j < length ks. slot_at ks (ks ! p) j = p \<longrightarrow> (\<forall>i < j. ks ! slot_at ks (ks ! p) i \<noteq> 0)))
     \<and> (\<forall>p < length ks. \<forall>q < length ks. ks ! p \<noteq> 0 \<longrightarrow> ks ! p = ks ! q \<longrightarrow> p = q)"

lemma slot_less: "probe_inv ks \<Longrightarrow> slot_at ks key j < length ks"
  using size_pos [of "length ks"] by (simp add: slot_at_def probe_inv_def)

lemma slot_reach:
  assumes inv: "probe_inv ks" and p: "p < length ks"
  shows "\<exists>j < length ks. slot_at ks key j = p"
proof -
  let ?n = "length ks" and ?s = "first (length ks) key"
  have s: "?s < ?n" using inv first_less by (simp add: probe_inv_def)
  show ?thesis
  proof (cases "?s \<le> p")
    case True
    then show ?thesis using p by (intro exI [of _ "p - ?s"]) (simp add: slot_at_def)
  next
    case False
    then have "(?s + (?n - ?s + p)) mod ?n = p" "?n - ?s + p < ?n" using s p by simp_all
    then show ?thesis unfolding slot_at_def by blast
  qed
qed

lemma slot_inj:
  assumes inv: "probe_inv ks" and ij: "i < length ks" "j < length ks" "slot_at ks key i = slot_at ks key j"
  shows "i = j"
proof -
  have "(first (length ks) key + i) mod length ks = (first (length ks) key + j) mod length ks" using ij(3) by (simp add: slot_at_def)
  then have "i mod length ks = j mod length ks" by (simp add: nat_mod_eq_iff algebra_simps)
  then show ?thesis using ij by simp
qed

lemma slot_next: "Suc (slot_at ks key j) mod length ks = slot_at ks key (Suc j)"
  by (simp add: slot_at_def mod_Suc_eq)

definition stops :: "u64 list \<Rightarrow> u64 \<Rightarrow> nat \<Rightarrow> bool" where
  "stops ks key j \<longleftrightarrow> ks ! slot_at ks key j = 0 \<or> ks ! slot_at ks key j = key"

definition keys_of :: "u64 list \<Rightarrow> u64 set" where
  "keys_of ks = set ks - {0}"

lemma free_slot:
  assumes inv: "probe_inv ks" and room: "card (keys_of ks) < length ks"
  shows "\<exists>p < length ks. ks ! p = 0"
proof (rule ccontr)
  assume "\<not> ?thesis"
  then have nz: "\<forall>p < length ks. ks ! p \<noteq> 0" by blast
  then have "distinct ks" using inv by (auto simp: distinct_conv_nth probe_inv_def)
  moreover have "keys_of ks = set ks" using nz by (auto simp: keys_of_def in_set_conv_nth)
  ultimately show False using room by (simp add: distinct_card)
qed

lemma stop_exists:
  assumes "probe_inv ks" "card (keys_of ks) < length ks"
  shows "\<exists>j < length ks. stops ks key j"
proof -
  obtain p where "p < length ks" "ks ! p = 0" using free_slot [OF assms] by blast
  then show ?thesis using slot_reach [OF assms(1)] by (metis stops_def)
qed

text \<open>The slot of the first stop holds the key if the table does, and is free otherwise.\<close>

lemma stop_lookup:
  assumes inv: "probe_inv ks" and key: "key \<noteq> 0" and J: "J < length ks" "stops ks key J" "\<And>i. i < J \<Longrightarrow> \<not> stops ks key i"
  shows "ks ! slot_at ks key J = (if key \<in> keys_of ks then key else 0)"
proof (cases "key \<in> keys_of ks")
  case True
  then obtain p where p: "p < length ks" "ks ! p = key" by (auto simp: keys_of_def in_set_conv_nth)
  then obtain j where j: "j < length ks" "slot_at ks key j = p" using slot_reach [OF inv] by blast
  have "J \<le> j" using J(3) [of j] j p by (auto simp: stops_def not_less [symmetric])
  moreover have "ks ! slot_at ks key i \<noteq> 0" if "i < j" for i
    using inv p key j that unfolding probe_inv_def by blast
  ultimately have "J = j \<or> ks ! slot_at ks key J = key" using J(2) unfolding stops_def by (metis le_neq_implies_less)
  then show ?thesis using True p j by auto
next
  case False
  then have "ks ! slot_at ks key J \<noteq> key" using nth_mem [OF slot_less [OF inv, of key J]] key by (auto simp: keys_of_def)
  then show ?thesis using J(2) False by (simp add: stops_def)
qed

lemma stop_insert:
  assumes inv: "probe_inv ks" and key: "key \<noteq> 0" and J: "J < length ks" "stops ks key J" "\<And>i. i < J \<Longrightarrow> \<not> stops ks key i"
  shows "probe_inv (ks[slot_at ks key J := key])" "keys_of (ks[slot_at ks key J := key]) = insert key (keys_of ks)"
proof -
  let ?p = "slot_at ks key J" and ?ks = "ks[slot_at ks key J := key]"
  have p: "?p < length ks" by (rule slot_less [OF inv])
  have slot: "slot_at ?ks = slot_at ks" by (intro ext) (simp add: slot_at_def)
  have at: "ks ! ?p = (if key \<in> keys_of ks then key else 0)" by (rule stop_lookup [OF inv key J])
  have nz: "?ks ! q \<noteq> 0" if "ks ! q \<noteq> 0" for q using that key p by (cases "q = ?p") auto
  have other: "ks ! q \<noteq> key" if "q < length ks" "q \<noteq> ?p" for q
  proof
    assume q: "ks ! q = key"
    then have "key \<in> keys_of ks" using that key by (auto simp: keys_of_def)
    then have "ks ! ?p = key" using at by simp
    then show False using inv q key that p by (auto simp: probe_inv_def)
  qed
  have "size_ok (length ?ks)" using inv by (simp add: probe_inv_def)
  moreover have "?ks ! slot_at ?ks (?ks ! q) i \<noteq> 0"
    if q: "q < length ?ks" "?ks ! q \<noteq> 0" "j < length ?ks" "slot_at ?ks (?ks ! q) j = q" "i < j" for q j i
  proof (cases "q = ?p")
    case True
    then have "j = J" using q p J(1) slot_inj [OF inv, of j J key] by (simp add: slot)
    then have "\<not> stops ks key i" using J(3) q(5) by simp
    then show ?thesis using nz True p by (simp add: slot stops_def)
  next
    case False
    then have "ks ! slot_at ks (ks ! q) i \<noteq> 0" using inv q by (auto simp: slot probe_inv_def)
    then show ?thesis using nz False by (simp add: slot)
  qed
  moreover have "q = r" if q: "q < length ?ks" "r < length ?ks" "?ks ! q \<noteq> 0" "?ks ! q = ?ks ! r" for q r
  proof (cases "q = ?p \<or> r = ?p")
    case True
    then show ?thesis using q other [of q] other [of r] p by (auto simp: nth_list_update split: if_splits)
  next
    case False
    then have "ks ! q \<noteq> 0" "ks ! q = ks ! r" using q by auto
    then show ?thesis using inv q(1,2) unfolding probe_inv_def by simp
  qed
  ultimately show "probe_inv ?ks" unfolding probe_inv_def by blast
  show "keys_of ?ks = insert key (keys_of ks)"
  proof (cases "key \<in> keys_of ks")
    case True
    then have "?ks = ks" using at by (metis list_update_id)
    then show ?thesis using True by auto
  next
    case False
    then have z: "ks ! ?p = 0" using at by simp
    have "x \<in> set ?ks" if "x \<in> set ks" "x \<noteq> 0" for x
      using that z p by (metis in_set_conv_nth length_list_update nth_list_update_neq)
    then show ?thesis using set_update_memI [OF p, of key] set_update_subset_insert [of ks ?p key] key by (auto simp: keys_of_def)
  qed
qed

lemma empty_table: "size_ok n \<Longrightarrow> probe_inv (replicate n 0)" "keys_of (replicate n 0) = {}"
  by (auto simp: probe_inv_def keys_of_def)

end

text \<open>The sizes of the table are powers of two, so masking is taking the remainder.\<close>

definition table_size :: "nat \<Rightarrow> bool" where
  "table_size n \<longleftrightarrow> (\<exists>e \<le> 31. n = 2 ^ e)"

lemma memo_mask_mod:
  assumes "table_size n"
  shows "unat (memo_mask n i) = unat i mod n"
proof -
  obtain e where e: "e \<le> 31" "n = 2 ^ e" using assms by (auto simp: table_size_def)
  have "memo_mask n i = take_bit e i"
    by (simp add: memo_mask_def e(2) take_bit_eq_mask mask_eq_exp_minus_1)
  then have "unat (memo_mask n i) = take_bit e (unat i)" by (simp only: unsigned_take_bit_eq)
  then show ?thesis by (simp only: e(2) take_bit_eq_mod)
qed

abbreviation memo_first :: "nat \<Rightarrow> u64 \<Rightarrow> nat" where
  "memo_first n key \<equiv> unat (memo_hash n key)"

interpretation probing: linear_probing memo_first table_size
proof
  show "0 < n" if "table_size n" for n using that by (auto simp: table_size_def)
  then show "memo_first n key < n" if "table_size n" for n key using that by (simp add: memo_hash_def memo_mask_mod)
qed

lemma table_size_less: "table_size n \<Longrightarrow> n < 2 ^ 32"
  using power_increasing [of _ 31 "2 :: nat"] by (fastforce simp: table_size_def)

lemma table_size_le: "table_size n \<Longrightarrow> n \<le> 2 ^ 31"
  using power_increasing [of _ 31 "2 :: nat"] by (fastforce simp: table_size_def)

lemma probe_finds:
  assumes inv: "probing.probe_inv ks" and k: "stop - j < rounds" "j \<le> stop" "stop < length ks" "probing.stops ks key stop"
    "\<And>i. i < stop \<Longrightarrow> \<not> probing.stops ks key i" and i: "unat i = probing.slot_at ks key j"
  shows "map_option unat (memo_probe rounds ks key i) = Some (probing.slot_at ks key stop)"
  using k i
proof (induction rounds arbitrary: j i)
  case (Suc rounds)
  show ?case
  proof (cases "j = stop")
    case True
    then show ?thesis using Suc.prems by (auto simp: probing.stops_def)
  next
    case False
    then have lt: "j < stop" "\<not> probing.stops ks key j" using Suc.prems by auto
    have size: "table_size (length ks)" using inv by (simp add: probing.probe_inv_def)
    have "probing.slot_at ks key j < length ks" by (rule probing.slot_less [OF inv])
    then have "unat (i + 1) = unat i + 1" using Suc.prems(6) table_size_less [OF size] by (simp add: unat_word_ariths)
    then have "unat (memo_mask (length ks) (i + 1)) = probing.slot_at ks key (Suc j)"
      using Suc.prems(6) by (simp add: memo_mask_mod [OF size] probing.slot_next)
    from Suc.IH [OF _ _ Suc.prems(3-5) this] show ?thesis using Suc.prems lt by (simp add: probing.stops_def)
  qed
qed simp

lemma memo_slot_ok:
  assumes inv: "probing.probe_inv ks" and room: "card (probing.keys_of ks) < length ks" and key: "key \<noteq> 0"
  shows "\<exists>i < length ks. wah_type_eq_memo_slot ks key = Some i \<and> ks ! i = (if key \<in> probing.keys_of ks then key else 0)
    \<and> probing.probe_inv (ks[i := key]) \<and> probing.keys_of (ks[i := key]) = insert key (probing.keys_of ks)"
proof -
  define stop where "stop = (LEAST j. probing.stops ks key j)"
  obtain j where j: "j < length ks" "probing.stops ks key j" using probing.stop_exists [OF inv room] by blast
  have stop2: "probing.stops ks key stop" unfolding stop_def by (rule LeastI) (rule j(2))
  have "stop \<le> j" unfolding stop_def by (rule Least_le) (rule j(2))
  then have stop1: "stop < length ks" using j(1) by simp
  have stop3: "\<not> probing.stops ks key i" if "i < stop" for i using that unfolding stop_def by (rule not_less_Least)
  note stop = stop1 stop2 stop3
  have first: "unat (memo_hash (length ks) key) = probing.slot_at ks key 0"
    using inv probing.first_less [of "length ks" key] by (simp add: probing.slot_at_def probing.probe_inv_def)
  have "wah_type_eq_memo_slot ks key = Some (probing.slot_at ks key stop)"
    unfolding wah_type_eq_memo_slot_def using stop by (intro probe_finds [OF inv _ _ _ _ _ first]) auto
  then show ?thesis using probing.slot_less [OF inv] probing.stop_lookup [OF inv key stop] probing.stop_insert [OF inv key stop] by blast
qed

lemma rehash_ok:
  "probing.probe_inv g \<Longrightarrow> card (probing.keys_of g \<union> probing.keys_of ks) < length g \<Longrightarrow>
    \<exists>g'. memo_rehash ks g = Some g' \<and> probing.probe_inv g' \<and> length g' = length g \<and> probing.keys_of g' = probing.keys_of g \<union> probing.keys_of ks"
proof (induction ks arbitrary: g)
  case Nil
  then show ?case by (simp add: probing.keys_of_def)
next
  case (Cons k ks)
  show ?case
  proof (cases "k = 0")
    case True
    then have "probing.keys_of (k # ks) = probing.keys_of ks" by (auto simp: probing.keys_of_def)
    then show ?thesis using Cons True by simp
  next
    case False
    have keys: "probing.keys_of (k # ks) = insert k (probing.keys_of ks)" using False by (auto simp: probing.keys_of_def)
    have "card (probing.keys_of g) \<le> card (probing.keys_of g \<union> probing.keys_of (k # ks))"
      by (intro card_mono) (auto simp: probing.keys_of_def)
    then have "card (probing.keys_of g) < length g" using Cons.prems(2) by linarith
    from memo_slot_ok [OF Cons.prems(1) this False] obtain i where i: "i < length g" "wah_type_eq_memo_slot g k = Some i"
      "probing.probe_inv (g[i := k])" "probing.keys_of (g[i := k]) = insert k (probing.keys_of g)" by blast
    have "probing.keys_of (g[i := k]) \<union> probing.keys_of ks = probing.keys_of g \<union> probing.keys_of (k # ks)" by (simp add: i(4) keys)
    then show ?thesis using Cons.IH [OF i(3)] Cons.prems(2) i(2) False by simp
  qed
qed

section \<open>Checks with a memo\<close>

type_synonym 'm check = "'m \<Rightarrow> (bool \<times> 'm) option"

definition check_and :: "'m check \<Rightarrow> 'm check \<Rightarrow> 'm check" where
  "check_and c d m = Option.bind (c m) (\<lambda>(b, m). if b then d m else Some (False, m))"

primrec check_all :: "('a \<Rightarrow> 'm check) \<Rightarrow> 'a list \<Rightarrow> 'm check" where
  "check_all c [] m = Some (True, m)"
| "check_all c (x # xs) m = check_and (c x) (check_all c xs) m"

definition check_memoized :: "('m \<Rightarrow> 'k \<Rightarrow> bool option) \<Rightarrow> ('k \<Rightarrow> 'm check) \<Rightarrow> 'k \<Rightarrow> 'm check \<Rightarrow> 'm check" where
  "check_memoized has add key c m = Option.bind (has m key) (\<lambda>hit. if hit then Some (True, m) else check_and c (add key) m)"

text \<open>
  What the checks need of a memo: a set of keys, some of which are valid, to which keys can be added unless memory is short,
  which is then remembered. A check implements two conditions if it ends, and its answer is between them unless memory
  is short: a positive answer implies \<open>S\<close>, and \<open>R\<close> implies a positive answer.
\<close>

locale memo_table =
  fixes has :: "'m \<Rightarrow> 'k \<Rightarrow> bool option" and add :: "'k \<Rightarrow> 'm check"
    and contents :: "'m \<Rightarrow> 'k set" and inv :: "'m \<Rightarrow> bool" and failed :: "'m \<Rightarrow> bool" and valid :: "'k \<Rightarrow> bool"
  assumes has_ok: "inv m \<Longrightarrow> valid key \<Longrightarrow> has m key = Some (key \<in> contents m)"
    and add_ok: "inv m \<Longrightarrow> valid key \<Longrightarrow> \<exists>b m'. add key m = Some (b, m') \<and> inv m' \<and> contents m' = contents m \<union> (if b then {key} else {})
      \<and> (failed m' \<longleftrightarrow> failed m \<or> \<not> b)"
begin

definition sound :: "('k \<Rightarrow> bool) \<Rightarrow> 'm \<Rightarrow> bool" where
  "sound good m \<longleftrightarrow> inv m \<and> (\<forall>key \<in> contents m. good key)"

definition check_ok :: "('k \<Rightarrow> bool) \<Rightarrow> 'm check \<Rightarrow> bool \<Rightarrow> bool \<Rightarrow> bool" where
  "check_ok good c R S \<longleftrightarrow> (\<forall>m. sound good m \<longrightarrow>
     (\<exists>b m'. c m = Some (b, m') \<and> sound good m' \<and> (b \<longrightarrow> S) \<and> (R \<longrightarrow> b \<or> failed m') \<and> (failed m \<longrightarrow> failed m')))"

lemma check_pure: "(b \<Longrightarrow> S) \<Longrightarrow> (R \<Longrightarrow> b) \<Longrightarrow> check_ok good (\<lambda>m. Some (b, m)) R S"
  by (simp add: check_ok_def)

lemma check_weaken: "check_ok good c R S \<Longrightarrow> (R' \<Longrightarrow> R) \<Longrightarrow> (S \<Longrightarrow> S') \<Longrightarrow> check_ok good c R' S'"
  unfolding check_ok_def by (metis (no_types))

lemma check_conj:
  assumes c: "check_ok good c R S" and d: "check_ok good d R' S'"
  shows "check_ok good (check_and c d) (R \<and> R') (S \<and> S')"
  unfolding check_ok_def
proof (intro allI impI)
  fix m assume m: "sound good m"
  obtain b m1 where b: "c m = Some (b, m1)" "sound good m1" "b \<longrightarrow> S" "R \<longrightarrow> b \<or> failed m1" "failed m \<longrightarrow> failed m1"
    using c m unfolding check_ok_def by blast
  obtain b' m2 where b': "d m1 = Some (b', m2)" "sound good m2" "b' \<longrightarrow> S'" "R' \<longrightarrow> b' \<or> failed m2" "failed m1 \<longrightarrow> failed m2"
    using d b(2) unfolding check_ok_def by blast
  show "\<exists>b m'. check_and c d m = Some (b, m') \<and> sound good m' \<and> (b \<longrightarrow> S \<and> S') \<and> (R \<and> R' \<longrightarrow> b \<or> failed m') \<and> (failed m \<longrightarrow> failed m')"
    using b b' by (cases b) (auto simp: check_and_def)
qed

lemma check_list:
  assumes "\<And>x. x \<in> set xs \<Longrightarrow> check_ok good (c x) (R x) (S x)"
  shows "check_ok good (check_all c xs) (\<forall>x \<in> set xs. R x) (\<forall>x \<in> set xs. S x)"
  using assms
proof (induction xs)
  case Nil
  show ?case by (auto simp: check_ok_def)
next
  case (Cons x xs)
  have eq: "check_all c (x # xs) = check_and (c x) (check_all c xs)" by (rule ext) simp
  have "check_ok good (check_and (c x) (check_all c xs)) (R x \<and> (\<forall>x \<in> set xs. R x)) (S x \<and> (\<forall>x \<in> set xs. S x))"
    using Cons by (intro check_conj) simp_all
  then show ?case unfolding eq by (rule check_weaken) simp_all
qed

lemma check_memo:
  assumes c: "check_ok good c R S" and key: "valid key" and good: "good key \<longleftrightarrow> S"
  shows "check_ok good (check_memoized has add key c) R S"
  unfolding check_ok_def
proof (intro allI impI)
  fix m assume m: "sound good m"
  then have has: "has m key = Some (key \<in> contents m)" using has_ok key by (simp add: sound_def)
  obtain b m1 where b: "c m = Some (b, m1)" "sound good m1" "b \<longrightarrow> S" "R \<longrightarrow> b \<or> failed m1" "failed m \<longrightarrow> failed m1"
    using c m unfolding check_ok_def by blast
  obtain a m2 where a: "add key m1 = Some (a, m2)" "inv m2" "contents m2 = contents m1 \<union> (if a then {key} else {})"
    "failed m2 \<longleftrightarrow> failed m1 \<or> \<not> a" using add_ok key b(2) unfolding sound_def by blast
  show "\<exists>b m'. check_memoized has add key c m = Some (b, m') \<and> sound good m' \<and> (b \<longrightarrow> S) \<and> (R \<longrightarrow> b \<or> failed m') \<and> (failed m \<longrightarrow> failed m')"
  proof (cases "key \<in> contents m")
    case True
    then show ?thesis using m good by (auto simp: check_memoized_def has sound_def)
  next
    case False
    then show ?thesis using b a good by (cases b) (auto simp: check_memoized_def check_and_def has sound_def)
  qed
qed

end

text \<open>The memo of the code is such a table: it is less than half full, so that probing ends.\<close>

abbreviation memo_contents :: "wah_type_eq_memo \<Rightarrow> u64 set" where
  "memo_contents memo \<equiv> probing.keys_of (memo_keys memo)"

definition memo_wf :: "wah_type_eq_memo \<Rightarrow> bool" where
  "memo_wf memo \<longleftrightarrow> unat (memo_count memo) = card (memo_contents memo)
     \<and> (memo_keys memo \<noteq> [] \<longrightarrow> probing.probe_inv (memo_keys memo) \<and> 2 * card (memo_contents memo) \<le> length (memo_keys memo))"

lemma memo_has_ok:
  assumes "memo_wf memo" "key \<noteq> 0"
  shows "wah_type_eq_memo_has memo key = Some (key \<in> memo_contents memo)"
proof (cases "memo_keys memo = []")
  case True
  then show ?thesis by (simp add: wah_type_eq_memo_has_def probing.keys_of_def)
next
  case False
  then have inv: "probing.probe_inv (memo_keys memo)" "2 * card (memo_contents memo) \<le> length (memo_keys memo)"
    using assms(1) by (auto simp: memo_wf_def)
  have "0 < length (memo_keys memo)" using False by simp
  then have room: "card (memo_contents memo) < length (memo_keys memo)" using inv(2) by linarith
  from memo_slot_ok [OF inv(1) room assms(2)] show ?thesis using False assms(2) by (auto simp: wah_type_eq_memo_has_def)
qed

lemma memo_insert_ok:
  assumes inv: "probing.probe_inv (memo_keys memo)" and count: "unat (memo_count memo) = card (memo_contents memo)"
    and room: "2 * (card (memo_contents memo) + 1) \<le> length (memo_keys memo)" and key: "key \<noteq> 0"
  shows "\<exists>memo'. memo_insert key memo = Some (True, memo') \<and> memo_wf memo' \<and> memo_contents memo' = insert key (memo_contents memo)
    \<and> memo_oom memo' = memo_oom memo"
proof -
  have size: "table_size (length (memo_keys memo))" using inv by (simp add: probing.probe_inv_def)
  have "card (memo_contents memo) < length (memo_keys memo)" using room by simp
  from memo_slot_ok [OF inv this key] obtain i where i: "i < length (memo_keys memo)" "wah_type_eq_memo_slot (memo_keys memo) key = Some i"
    "memo_keys memo ! i = (if key \<in> memo_contents memo then key else 0)" "probing.probe_inv ((memo_keys memo)[i := key])"
    "probing.keys_of ((memo_keys memo)[i := key]) = insert key (memo_contents memo)" by blast
  show ?thesis
  proof (cases "key \<in> memo_contents memo")
    case True
    then show ?thesis using i key inv count room by (auto simp: memo_insert_def memo_wf_def)
  next
    case False
    have "unat (memo_count memo + 1) = unat (memo_count memo) + 1"
      using count room table_size_less [OF size] by (simp add: unat_word_ariths)
    moreover have "finite (memo_contents memo)" by (simp add: probing.keys_of_def)
    ultimately show ?thesis using False i count room by (auto simp: memo_insert_def memo_wf_def)
  qed
qed

lemma grown_table:
  assumes wf: "memo_wf memo" and full: "(memo_count memo + 1) * 2 > (of_nat (length (memo_keys memo)) :: u32)"
    and new_cap: "new_cap = (if of_nat (length (memo_keys memo)) \<noteq> (0 :: u32) then of_nat (length (memo_keys memo)) * 2 else 64)"
      "\<not> new_cap < (of_nat (length (memo_keys memo)) :: u32)"
  shows "table_size (unat new_cap) \<and> 2 * (card (memo_contents memo) + 1) \<le> unat new_cap \<and> length (memo_keys memo) \<le> unat new_cap"
proof (cases "memo_keys memo = []")
  case True
  then show ?thesis using new_cap by (auto simp: table_size_def probing.keys_of_def intro: exI [of _ 6])
next
  case False
  then have size: "table_size (length (memo_keys memo))" and half: "2 * card (memo_contents memo) \<le> length (memo_keys memo)"
    using wf by (auto simp: memo_wf_def probing.probe_inv_def)
  then obtain e where e: "e \<le> 31" "length (memo_keys memo) = 2 ^ e" by (auto simp: table_size_def)
  have cap: "unat (of_nat (length (memo_keys memo)) :: u32) = 2 ^ e" using table_size_less [OF size] by (simp only: e(2) [symmetric] unat_of_nat) simp
  then have nz: "of_nat (length (memo_keys memo)) \<noteq> (0 :: u32)" by auto
  have "e \<noteq> 31"
  proof
    assume "e = 31"
    then have "new_cap = 0" using new_cap(1) nz e by simp
    then show False using new_cap(2) nz word_gt_0 by auto
  qed
  then have lt: "e < 31" using e(1) by simp
  then have "(2 :: nat) ^ e \<le> 2 ^ 30" by (intro power_increasing) auto
  then have "unat new_cap = 2 ^ Suc e" using new_cap(1) nz cap by (simp add: unat_word_ariths)
  moreover have "c + 1 \<le> x" if "1 \<le> x" "2 * c \<le> x" for c x :: nat using that by presburger
  from this [of "2 ^ e" "card (memo_contents memo)"] have "card (memo_contents memo) + 1 \<le> 2 ^ e" using half e(2) by simp
  ultimately show ?thesis using lt half e by (auto simp: table_size_def intro: exI [of _ "Suc e"])
qed

lemma memo_add_ok:
  assumes wf: "memo_wf memo" and key: "key \<noteq> 0"
  shows "\<exists>b memo'. wah_type_eq_memo_add key memo = Some (b, memo') \<and> memo_wf memo'
    \<and> memo_contents memo' = memo_contents memo \<union> (if b then {key} else {}) \<and> (memo_oom memo' \<longleftrightarrow> memo_oom memo \<or> \<not> b)"
proof -
  let ?cap = "of_nat (length (memo_keys memo)) :: u32"
  define new_cap where "new_cap = (if ?cap \<noteq> 0 then ?cap * 2 else 64)"
  have count: "unat (memo_count memo) = card (memo_contents memo)" using wf by (simp add: memo_wf_def)
  have refused: ?thesis if "wah_type_eq_memo_add key memo = Some (False, memo\<lparr>memo_oom := True, memo_grants := g\<rparr>)" for g
    using that wf by (auto simp: memo_wf_def)
  consider (room) "\<not> (memo_count memo + 1) * 2 > ?cap" | (wrap) "(memo_count memo + 1) * 2 > ?cap" "new_cap < ?cap"
    | (grow) "(memo_count memo + 1) * 2 > ?cap" "\<not> new_cap < ?cap" by blast
  then show ?thesis
  proof cases
    case room
    have ne: "memo_keys memo \<noteq> []"
    proof
      assume "memo_keys memo = []"
      then have "memo_count memo = 0" using count by (simp add: probing.keys_of_def unat_eq_0)
      then show False using room \<open>memo_keys memo = []\<close> by simp
    qed
    then have inv: "probing.probe_inv (memo_keys memo)" "2 * card (memo_contents memo) \<le> length (memo_keys memo)"
      using wf by (simp_all add: memo_wf_def)
    then have "length (memo_keys memo) \<le> 2 ^ 31" by (simp add: probing.probe_inv_def table_size_le del: power_numeral)
    then have "2 * (card (memo_contents memo) + 1) \<le> length (memo_keys memo)"
      using room inv(2) count by (simp add: word_less_nat_alt unat_word_ariths unat_of_nat)
    from memo_insert_ok [OF inv(1) count this key] show ?thesis using room by (auto simp: wah_type_eq_memo_add_def)
  next
    case wrap
    then have "wah_type_eq_memo_add key memo = Some (False, memo\<lparr>memo_oom := True\<rparr>)"
      by (simp add: wah_type_eq_memo_add_def Let_def new_cap_def)
    then show ?thesis using wf by (auto simp: memo_wf_def)
  next
    case grow
    note table = grown_table [OF wf grow(1) new_cap_def grow(2)]
    let ?zeros = "replicate (unat new_cap) (0 :: u64)"
    have "probing.probe_inv ?zeros" "probing.keys_of ?zeros = {}" using table probing.empty_table by auto
    moreover from this have "card (probing.keys_of ?zeros \<union> memo_contents memo) < length ?zeros" using table by simp
    ultimately obtain ks where ks: "memo_rehash (memo_keys memo) ?zeros = Some ks" "probing.probe_inv ks" "length ks = unat new_cap"
      "probing.keys_of ks = memo_contents memo" using rehash_ok [of ?zeros "memo_keys memo"] by auto
    show ?thesis
    proof (cases "memo_grants memo")
      case (Cons b g)
      have "\<exists>memo'. memo_insert key (memo\<lparr>memo_keys := ks, memo_grants := g\<rparr>) = Some (True, memo') \<and> memo_wf memo'
          \<and> memo_contents memo' = insert key (memo_contents memo) \<and> memo_oom memo' = memo_oom memo"
        using memo_insert_ok [of "memo\<lparr>memo_keys := ks, memo_grants := g\<rparr>" key] ks table count key by simp
      then show ?thesis using grow Cons ks(1) refused [of g]
        by (cases b) (auto simp: wah_type_eq_memo_add_def Let_def new_cap_def)
    qed (use grow refused [of "[]"] in \<open>simp add: wah_type_eq_memo_add_def Let_def new_cap_def\<close>)
  qed
qed

interpretation memo: memo_table wah_type_eq_memo_has wah_type_eq_memo_add memo_contents memo_wf memo_oom "\<lambda>key. key \<noteq> 0"
  by unfold_locales (simp_all add: memo_has_ok memo_add_ok)

section \<open>Properties\<close>

text \<open>C38: the memo of equal groups is a set: a key is found exactly if it was added, adding keeps the others through
  growing and rehashing, and neither a lookup nor an addition probes forever.\<close>

theorem type_eq_memo_set:
  assumes "memo_wf memo" "key \<noteq> 0"
  shows "wah_type_eq_memo_has memo key = Some (key \<in> memo_contents memo)
    \<and> (\<exists>b memo'. wah_type_eq_memo_add key memo = Some (b, memo') \<and> memo_wf memo'
         \<and> memo_contents memo' = memo_contents memo \<union> (if b then {key} else {}) \<and> (memo_oom memo' \<longleftrightarrow> memo_oom memo \<or> \<not> b))"
  using memo_has_ok [OF assms] memo_add_ok [OF assms] by simp

definition demo_memo :: wah_type_eq_memo where
  "demo_memo = \<lparr> memo_keys = [], memo_count = 0, memo_oom = False, memo_grants = [True] \<rparr>"

theorem type_eq_memo_set_witness:
  "wah_type_eq_memo_has demo_memo 7 = Some False
    \<and> (\<exists>b memo'. wah_type_eq_memo_add 7 demo_memo = Some (b, memo') \<and> (b \<longrightarrow> memo_contents memo' = {7}))"
proof -
  have "memo_contents demo_memo = {}" "memo_wf demo_memo" by (simp_all add: demo_memo_def probing.keys_of_def memo_wf_def)
  with type_eq_memo_set [of demo_memo 7] show ?thesis by auto
qed

end
