(* ===== verification/Wah_Cross.thy ===== *)
theory Wah_Cross
  imports Wah_Memo
begin

text \<open>
  Equality and subtyping of types of different modules. Recursion groups are compared structurally, types outside of the
  groups recursively up to a depth, and pairs of groups found equal are remembered in the memo. A module is given with
  its address, by which the code tells whether two modules are the same. The subtype checks of a context go through a
  cache of fixed size.
\<close>

type_synonym module_ref = "u64 \<times> wah_module"

section \<open>Equality of types of two modules\<close>

abbreviation (input) "WAH_MAX_TYPE_RECURSION_DEPTH \<equiv> 256 :: nat"

definition canon :: "wah_module \<Rightarrow> nat \<Rightarrow> nat" where
  "canon m i = (case canonical_map m of None \<Rightarrow> i | Some cm \<Rightarrow> cm ! i)"

type_synonym eq_check = "wah_type_eq_memo check"

text \<open>
  \<open>deeper\<close> is \<open>wah_cross_module_rec_group_eq\<close> one level deeper, or \<open>None\<close> if the depth is at its limit. The arguments
  of a group check are the starts and sizes of the two groups.
\<close>

type_synonym group_check = "nat \<Rightarrow> nat \<Rightarrow> nat \<Rightarrow> nat \<Rightarrow> eq_check"

definition wah_cross_module_ref_in_recgroup ::
  "group_check option \<Rightarrow> module_ref \<Rightarrow> module_ref \<Rightarrow> nat \<Rightarrow> nat \<Rightarrow> nat \<Rightarrow> nat \<Rightarrow> wah_type \<Rightarrow> wah_type \<Rightarrow> eq_check" where
  "wah_cross_module_ref_in_recgroup deeper ma mb rga_s rga_n rgb_s rgb_n ta tb =
    (if ta = tb \<and> ta < 0 then (\<lambda>memo. Some (True, memo))
     else if ta < 0 \<or> tb < 0 then (\<lambda>memo. Some (ta = tb, memo))
     else if WAH_TYPE_IS_NULLABLE ta \<noteq> WAH_TYPE_IS_NULLABLE tb then (\<lambda>memo. Some (False, memo))
     else
       let ca = canon (snd ma) (WAH_TYIDX ta); cb = canon (snd mb) (WAH_TYIDX tb);
           a_in = (rga_s \<le> ca \<and> ca < rga_s + rga_n); b_in = (rgb_s \<le> cb \<and> cb < rgb_s + rgb_n) in
       if a_in \<and> b_in then (\<lambda>memo. Some (ca - rga_s = cb - rgb_s, memo))
       else if a_in \<or> b_in then (\<lambda>memo. Some (False, memo))
       else if fst ma = fst mb \<and> ca = cb then (\<lambda>memo. Some (True, memo))
       else case deeper of
         None \<Rightarrow> (\<lambda>memo. Some (False, memo))
       | Some group_eq \<Rightarrow>
           let da = type_defs (snd ma) ! ca; db = type_defs (snd mb) ! cb in
           if td_rec_group_size da \<noteq> td_rec_group_size db then (\<lambda>memo. Some (False, memo))
           else if ca - td_rec_group_start da \<noteq> cb - td_rec_group_start db then (\<lambda>memo. Some (False, memo))
           else check_memoized wah_type_eq_memo_has wah_type_eq_memo_add
                  (wah_type_eq_memo_key (td_rec_group_start da) (td_rec_group_start db))
                  (group_eq (td_rec_group_start da) (td_rec_group_size da) (td_rec_group_start db) (td_rec_group_size db)))"

text \<open>\<open>ref_eq\<close> is \<open>wah_cross_module_ref_in_recgroup\<close> for the groups and depth of the caller.\<close>

definition wah_cross_module_type_eq_in_recgroup ::
  "(wah_type \<Rightarrow> wah_type \<Rightarrow> eq_check) \<Rightarrow> wah_module \<Rightarrow> wah_module \<Rightarrow> nat \<Rightarrow> nat \<Rightarrow> eq_check" where
  "wah_cross_module_type_eq_in_recgroup ref_eq ma mb ia ib =
    (let da = type_defs ma ! ia; db = type_defs mb ! ib; no = (\<lambda>memo. Some (False, memo)) in
     if td_kind da \<noteq> td_kind db then no
     else if td_is_final da \<noteq> td_is_final db then no
     else check_and
       (case (td_supertype da, td_supertype db) of
          (None, None) \<Rightarrow> (\<lambda>memo. Some (True, memo))
        | (Some sa, Some sb) \<Rightarrow> ref_eq (WAH_TYPE_FROM_IDX sa False) (WAH_TYPE_FROM_IDX sb False)
        | _ \<Rightarrow> no)
       (if td_kind da = WAH_COMP_FUNC then
          let fa = types ma ! ia; fb = types mb ! ib in
          if length (ft_param_types fa) \<noteq> length (ft_param_types fb) \<or> length (ft_result_types fa) \<noteq> length (ft_result_types fb) then no
          else check_and (check_all (\<lambda>j. ref_eq (ft_param_types fa ! j) (ft_param_types fb ! j)) [0..<length (ft_param_types fa)])
                 (check_all (\<lambda>j. ref_eq (ft_result_types fa ! j) (ft_result_types fb ! j)) [0..<length (ft_result_types fa)])
        else
          if length (td_field_types da) \<noteq> length (td_field_types db) then no
          else check_all (\<lambda>j. check_and (ref_eq (td_field_types da ! j) (td_field_types db ! j))
                 (\<lambda>memo. Some (td_field_mutables da ! j = td_field_mutables db ! j, memo))) [0..<length (td_field_types da)]))"

definition rec_group_eq_body :: "group_check option \<Rightarrow> module_ref \<Rightarrow> module_ref \<Rightarrow> group_check" where
  "rec_group_eq_body deeper ma mb rga_s rga_n rgb_s rgb_n =
    (if rga_n \<noteq> rgb_n then (\<lambda>memo. Some (False, memo))
     else if fst ma = fst mb \<and> rga_s = rgb_s then (\<lambda>memo. Some (True, memo))
     else check_all (\<lambda>k. wah_cross_module_type_eq_in_recgroup
            (wah_cross_module_ref_in_recgroup deeper ma mb rga_s rga_n rgb_s rgb_n) (snd ma) (snd mb) (rga_s + k) (rgb_s + k)) [0..<rga_n])"

text \<open>The number of levels left to \<open>WAH_MAX_TYPE_RECURSION_DEPTH\<close> decreases with each.\<close>

primrec rec_group_eq_levels :: "module_ref \<Rightarrow> module_ref \<Rightarrow> nat \<Rightarrow> group_check" where
  "rec_group_eq_levels ma mb 0 = rec_group_eq_body None ma mb"
| "rec_group_eq_levels ma mb (Suc levels) = rec_group_eq_body (Some (rec_group_eq_levels ma mb levels)) ma mb"

definition wah_cross_module_rec_group_eq :: "module_ref \<Rightarrow> module_ref \<Rightarrow> nat \<Rightarrow> group_check" where
  "wah_cross_module_rec_group_eq ma mb depth = rec_group_eq_levels ma mb (WAH_MAX_TYPE_RECURSION_DEPTH - depth)"

text \<open>The state of a check: whether memory was short, and the answers of the allocator left.\<close>

type_synonym alloc_state = "bool \<times> bool list"

definition wah_cross_module_type_ref_eq_oom :: "module_ref \<Rightarrow> wah_type \<Rightarrow> module_ref \<Rightarrow> wah_type \<Rightarrow> alloc_state check" where
  "wah_cross_module_type_ref_eq_oom ma ta mb tb st =
    (if ta = tb \<and> ta < 0 then Some (True, st)
     else if ta < 0 \<or> tb < 0 then Some (ta = tb, st)
     else if WAH_TYPE_IS_NULLABLE ta \<noteq> WAH_TYPE_IS_NULLABLE tb then Some (False, st)
     else
       let ca = canon (snd ma) (WAH_TYIDX ta); cb = canon (snd mb) (WAH_TYIDX tb) in
       if fst ma = fst mb \<and> ca = cb then Some (True, st)
       else
         let da = type_defs (snd ma) ! ca; db = type_defs (snd mb) ! cb;
             rga_s = td_rec_group_start da; rga_n = td_rec_group_size da;
             rgb_s = td_rec_group_start db; rgb_n = td_rec_group_size db in
         if rga_n \<noteq> rgb_n then Some (False, st)
         else if ca - rga_s \<noteq> cb - rgb_s then Some (False, st)
         else map_option (\<lambda>(eq, memo). (eq, memo_oom memo \<or> fst st, memo_grants memo))
                (wah_cross_module_rec_group_eq ma mb 0 rga_s rga_n rgb_s rgb_n
                   \<lparr> memo_keys = [], memo_count = 0, memo_oom = False, memo_grants = snd st \<rparr>))"

definition check_or :: "'m check \<Rightarrow> 'm check \<Rightarrow> 'm check" where
  "check_or c d m = Option.bind (c m) (\<lambda>(b, m). if b then Some (True, m) else d m)"

text \<open>Supertypes have smaller indices, so the number of types bounds the walk.\<close>

fun cross_super_walk :: "nat \<Rightarrow> module_ref \<Rightarrow> nat \<Rightarrow> module_ref \<Rightarrow> wah_type \<Rightarrow> alloc_state check" where
  "cross_super_walk 0 sub_m t sup_m sup_nn st = None"
| "cross_super_walk (Suc n) sub_m t sup_m sup_nn st =
    (case td_supertype (type_defs (snd sub_m) ! t) of
       None \<Rightarrow> Some (False, st)
     | Some s \<Rightarrow> check_or (wah_cross_module_type_ref_eq_oom sub_m (WAH_TYPE_FROM_IDX s False) sup_m sup_nn)
                  (cross_super_walk n sub_m s sup_m sup_nn) st)"

definition wah_cross_module_subtype_oom :: "module_ref \<Rightarrow> wah_type \<Rightarrow> module_ref \<Rightarrow> wah_type \<Rightarrow> alloc_state check" where
  "wah_cross_module_subtype_oom sub_m sub_t sup_m sup_t =
    (if sub_t = sup_t \<and> fst sub_m = fst sup_m then (\<lambda>st. Some (True, st))
     else if WAH_TYPE_IS_NULLABLE sub_t \<and> \<not> WAH_TYPE_IS_NULLABLE sup_t then (\<lambda>st. Some (False, st))
     else check_or (wah_cross_module_type_ref_eq_oom sub_m sub_t sup_m sup_t)
       (if sub_t < 0 \<or> sup_t < 0 then (\<lambda>st. Some (wah_type_is_subtype sub_t sup_t (snd (if sub_t < 0 then sup_m else sub_m)), st))
        else
          let sub_nn = WAH_TYPE_AS_NON_NULL sub_t; sup_nn = WAH_TYPE_AS_NON_NULL sup_t in
          check_or
            (if sub_nn \<noteq> sub_t \<or> sup_nn \<noteq> sup_t then wah_cross_module_type_ref_eq_oom sub_m sub_nn sup_m sup_nn else (\<lambda>st. Some (False, st)))
            (cross_super_walk (length (type_defs (snd sub_m))) sub_m (WAH_TYIDX sub_t) sup_m sup_nn)))"

definition wah_cross_module_subtype :: "bool list \<Rightarrow> module_ref \<Rightarrow> wah_type \<Rightarrow> module_ref \<Rightarrow> wah_type \<Rightarrow> bool option" where
  "wah_cross_module_subtype grants sub_m sub_t sup_m sup_t = map_option fst (wah_cross_module_subtype_oom sub_m sub_t sup_m sup_t (False, grants))"

section \<open>The cache of subtype checks\<close>

abbreviation (input) "WAH_TYPE_CHECK_CACHE_SIZE \<equiv> 64 :: nat"

text \<open>\<open>None\<close> stands for an entry that is not valid; the modules of an entry are their addresses.\<close>

record wah_type_check_cache_entry =
  ce_sub_module :: u64
  ce_sup_module :: u64
  ce_sub_type :: wah_type
  ce_sup_type :: wah_type
  ce_is_subtype :: bool

type_synonym type_check_cache = "wah_type_check_cache_entry option list"

definition wah_type_check_cache_slot :: "u64 \<Rightarrow> wah_type \<Rightarrow> u64 \<Rightarrow> wah_type \<Rightarrow> nat" where
  "wah_type_check_cache_slot sub_m sub_t sup_m sup_t =
    unat (drop_bit 4 sub_m XOR (drop_bit 9 sup_m * 0x9e3779b97f4a7c15)
      XOR (ucast (of_int sub_t :: u32) * 0xbf58476d1ce4e5b9) XOR (ucast (of_int sup_t :: u32) * 0x94d049bb133111eb)) mod WAH_TYPE_CHECK_CACHE_SIZE"

definition wah_cross_module_subtype_cached ::
  "module_ref \<Rightarrow> wah_type \<Rightarrow> module_ref \<Rightarrow> wah_type \<Rightarrow> (type_check_cache \<times> bool list) check" where
  "wah_cross_module_subtype_cached sub_m sub_t sup_m sup_t st =
    (let slot = wah_type_check_cache_slot (fst sub_m) sub_t (fst sup_m) sup_t;
         miss = Option.bind (wah_cross_module_subtype_oom sub_m sub_t sup_m sup_t (False, snd st)) (\<lambda>(b, oom, grants).
           if oom then Some (b, fst st, grants)
           else Some (b, (fst st)[slot := Some \<lparr> ce_sub_module = fst sub_m, ce_sup_module = fst sup_m, ce_sub_type = sub_t,
                                                 ce_sup_type = sup_t, ce_is_subtype = b \<rparr>], grants)) in
     case fst st ! slot of
       Some e \<Rightarrow>
         if ce_sub_module e = fst sub_m \<and> ce_sup_module e = fst sup_m \<and> ce_sub_type e = sub_t \<and> ce_sup_type e = sup_t
         then Some (ce_is_subtype e, st) else miss
     | None \<Rightarrow> miss)"

text \<open>Whether a host function fits a function type of a module, by its parameters and results.\<close>

definition wah_host_func_matches ::
  "wah_type list \<Rightarrow> wah_type list \<Rightarrow> module_ref \<Rightarrow> module_ref \<Rightarrow> nat \<Rightarrow> (type_check_cache \<times> bool list) check" where
  "wah_host_func_matches param_types result_types fn_module m type_idx =
    (let ft = types (snd m) ! type_idx in
     if length (ft_param_types ft) \<noteq> length param_types \<or> length (ft_result_types ft) \<noteq> length result_types
     then (\<lambda>st. Some (False, st))
     else check_and
       (check_all (\<lambda>i. wah_cross_module_subtype_cached m (ft_param_types ft ! i) fn_module (param_types ! i)) [0..<length (ft_param_types ft)])
       (check_all (\<lambda>i. wah_cross_module_subtype_cached fn_module (result_types ! i) m (ft_result_types ft ! i)) [0..<length (ft_result_types ft)]))"

section \<open>Structural equality\<close>

text \<open>
  The reference definition, without shortcuts, memo and depth: references into the groups compared agree in their position,
  other ones lead to groups that are related by \<open>deeper\<close>.
\<close>

definition in_group :: "nat \<Rightarrow> nat \<Rightarrow> nat \<Rightarrow> bool" where
  "in_group s n i \<longleftrightarrow> s \<le> i \<and> i < s + n"

definition same_place :: "wah_module \<Rightarrow> wah_module \<Rightarrow> nat \<Rightarrow> nat \<Rightarrow> bool" where
  "same_place ma mb ca cb \<longleftrightarrow> gz ma ca = gz mb cb \<and> ca - gs ma ca = cb - gs mb cb"

definition ref_same :: "(nat \<Rightarrow> nat \<Rightarrow> nat \<Rightarrow> bool) \<Rightarrow> wah_module \<Rightarrow> wah_module \<Rightarrow> nat \<Rightarrow> nat \<Rightarrow> nat \<Rightarrow> wah_type \<Rightarrow> wah_type \<Rightarrow> bool" where
  "ref_same deeper ma mb sa sb n ta tb \<longleftrightarrow>
    (if ta < 0 \<or> tb < 0 then ta = tb
     else (WAH_TYPE_IS_NULLABLE ta \<longleftrightarrow> WAH_TYPE_IS_NULLABLE tb)
       \<and> (let ca = canon ma (WAH_TYIDX ta); cb = canon mb (WAH_TYIDX tb) in
          if in_group sa n ca \<or> in_group sb n cb then in_group sa n ca \<and> in_group sb n cb \<and> ca - sa = cb - sb
          else same_place ma mb ca cb \<and> deeper (gs ma ca) (gs mb cb) (gz ma ca)))"

definition type_same :: "(wah_type \<Rightarrow> wah_type \<Rightarrow> bool) \<Rightarrow> wah_module \<Rightarrow> wah_module \<Rightarrow> nat \<Rightarrow> nat \<Rightarrow> bool" where
  "type_same ref ma mb ia ib \<longleftrightarrow> (let da = type_defs ma ! ia; db = type_defs mb ! ib; fa = types ma ! ia; fb = types mb ! ib in
     td_kind da = td_kind db \<and> td_is_final da = td_is_final db
     \<and> rel_option (\<lambda>s s'. ref (WAH_TYPE_FROM_IDX s False) (WAH_TYPE_FROM_IDX s' False)) (td_supertype da) (td_supertype db)
     \<and> (if td_kind da = WAH_COMP_FUNC
        then list_all2 ref (ft_param_types fa) (ft_param_types fb) \<and> list_all2 ref (ft_result_types fa) (ft_result_types fb)
        else list_all2 ref (td_field_types da) (td_field_types db)
          \<and> (\<forall>j < length (td_field_types da). td_field_mutables da ! j = td_field_mutables db ! j)))"

lemma ref_same_mono [mono]: "deeper \<le> deeper' \<Longrightarrow> ref_same deeper ma mb sa sb n ta tb \<longrightarrow> ref_same deeper' ma mb sa sb n ta tb"
  by (auto simp: ref_same_def Let_def le_fun_def)

lemma type_same_mono [mono]:
  assumes "\<And>ta tb. ref ta tb \<longrightarrow> ref' ta tb"
  shows "type_same ref ma mb ia ib \<longrightarrow> type_same ref' ma mb ia ib"
proof
  assume "type_same ref ma mb ia ib"
  moreover have "list_all2 ref xs ys \<Longrightarrow> list_all2 ref' xs ys" for xs ys using assms by (auto elim: list_all2_mono)
  moreover have "rel_option (\<lambda>s s'. ref (f s) (f s')) x y \<Longrightarrow> rel_option (\<lambda>s s'. ref' (f s) (f s')) x y" for f :: "nat \<Rightarrow> wah_type" and x y
    using assms by (auto elim: option.rel_mono_strong)
  ultimately show "type_same ref' ma mb ia ib" by (simp add: type_same_def Let_def split: if_splits)
qed

text \<open>Groups are equal if all their types are: to a depth, and without a bound.\<close>

definition group_same_step :: "(nat \<Rightarrow> nat \<Rightarrow> nat \<Rightarrow> bool) \<Rightarrow> wah_module \<Rightarrow> wah_module \<Rightarrow> nat \<Rightarrow> nat \<Rightarrow> nat \<Rightarrow> bool" where
  "group_same_step deeper ma mb sa sb n \<longleftrightarrow> (\<forall>k < n. type_same (ref_same deeper ma mb sa sb n) ma mb (sa + k) (sb + k))"

lemma group_same_step_mono [mono]:
  assumes "deeper \<le> deeper'"
  shows "group_same_step deeper ma mb sa sb n \<longrightarrow> group_same_step deeper' ma mb sa sb n"
  unfolding group_same_step_def using type_same_mono ref_same_mono [OF assms] by (metis (no_types))

primrec group_same :: "nat \<Rightarrow> wah_module \<Rightarrow> wah_module \<Rightarrow> nat \<Rightarrow> nat \<Rightarrow> nat \<Rightarrow> bool" where
  "group_same 0 ma mb = group_same_step (\<lambda>_ _ _. False) ma mb"
| "group_same (Suc levels) ma mb = group_same_step (group_same levels ma mb) ma mb"

inductive group_iso :: "wah_module \<Rightarrow> wah_module \<Rightarrow> nat \<Rightarrow> nat \<Rightarrow> nat \<Rightarrow> bool" for ma mb where
  group: "group_same_step (group_iso ma mb) ma mb sa sb n \<Longrightarrow> group_iso ma mb sa sb n"

inductive_simps group_iso_iff: "group_iso ma mb sa sb n"

lemma group_same_iso: "group_same levels ma mb sa sb n \<Longrightarrow> group_iso ma mb sa sb n"
proof (induction levels arbitrary: sa sb n)
  case 0
  then show ?case using group_same_step_mono [of "\<lambda>_ _ _. False" "group_iso ma mb"] by (auto intro: group_iso.group simp: le_fun_def)
next
  case (Suc levels)
  then have "group_same levels ma mb \<le> group_iso ma mb" by (auto simp: le_fun_def)
  then show ?case using Suc.prems group_same_step_mono by (auto intro: group_iso.group)
qed

definition type_iso :: "wah_module \<Rightarrow> wah_type \<Rightarrow> wah_module \<Rightarrow> wah_type \<Rightarrow> bool" where
  "type_iso ma ta mb tb \<longleftrightarrow>
    (if ta < 0 \<or> tb < 0 then ta = tb
     else (WAH_TYPE_IS_NULLABLE ta \<longleftrightarrow> WAH_TYPE_IS_NULLABLE tb)
       \<and> (let ca = canon ma (WAH_TYIDX ta); cb = canon mb (WAH_TYIDX tb) in
          same_place ma mb ca cb \<and> group_iso ma mb (gs ma ca) (gs mb cb) (gz ma ca)))"

section \<open>Correctness of the check\<close>

text \<open>The modules the checks are used on, and addresses that tell modules apart.\<close>

definition cross_wf :: "wah_module \<Rightarrow> bool" where
  "cross_wf m \<longleftrightarrow> wf_types m \<and> (canonical_map m = None \<or> canonical_map m = Some (wah_build_canonical_map m))"

definition modules_ok :: "module_ref \<Rightarrow> module_ref \<Rightarrow> bool" where
  "modules_ok ma mb \<longleftrightarrow> cross_wf (snd ma) \<and> cross_wf (snd mb) \<and> (fst ma = fst mb \<longrightarrow> ma = mb)"

lemma canon_le:
  assumes "cross_wf m" "i < length (type_defs m)"
  shows "canon m i \<le> i"
  using assms canonical_map_ok [of m] canon_okD [of m "wah_build_canonical_map m" i]
  by (auto simp: cross_wf_def canon_def canon_entry_ok_def)

text \<open>The references of a type, its supertype among them, are to earlier groups or the own one.\<close>

definition all_refs :: "wah_module \<Rightarrow> nat \<Rightarrow> wah_type set" where
  "all_refs m i = set (type_refs m i) \<union> (\<lambda>s. WAH_TYPE_FROM_IDX s False) ` set_option (td_supertype (type_defs m ! i))"

definition ref_below :: "wah_module \<Rightarrow> nat \<Rightarrow> wah_type \<Rightarrow> bool" where
  "ref_below m b t \<longleftrightarrow> t < 0 \<or> WAH_TYIDX t < b"

lemma all_refs_below:
  assumes wf: "wf_types m" and i: "i < length (type_defs m)" and t: "t \<in> all_refs m i"
  shows "ref_below m (gs m i + gz m i) t"
proof -
  note D = wf_typesD [OF wf i]
  consider (direct) "t \<in> set (type_refs m i)" | (super) s where "td_supertype (type_defs m ! i) = Some s" "t = WAH_TYPE_FROM_IDX s False"
    using t by (auto simp: all_refs_def)
  then show ?thesis
  proof cases
    case direct
    then show ?thesis using D(8) [of t] by (cases "t < 0") (auto simp: ref_below_def)
  next
    case super
    then have "s < i" "s \<le> WAH_MAX_TYPE_INDEX" using D(5,9) by (auto intro: order_trans less_imp_le)
    then show ?thesis using super(2) D(2) by (auto simp: ref_below_def tyidx_from_idx)
  qed
qed

lemma cross_group_member:
  assumes wf: "wf_types m" and i: "i < length (type_defs m)" and k: "k < gz m i"
  shows "gs m i + k < length (type_defs m)" "gs m (gs m i + k) = gs m i" "gz m (gs m i + k) = gz m i"
  using wf_typesD(3) [OF wf i] wf_typesD(4) [OF wf i, of "gs m i + k"] k by auto

lemma ref_canon:
  assumes wf: "cross_wf m" and i: "i < length (type_defs m)" and t: "ref_below m (gs m i + gz m i) t" "0 \<le> t"
  defines "c \<equiv> canon m (WAH_TYIDX t)"
  shows "c < length (type_defs m)" "\<not> in_group (gs m i) (gz m i) c \<Longrightarrow> gs m c < gs m i"
proof -
  have wt: "wf_types m" using wf by (simp add: cross_wf_def)
  have "WAH_TYIDX t < gs m i + gz m i" using t by (simp add: ref_below_def)
  moreover from this have "WAH_TYIDX t < length (type_defs m)" using wf_typesD(3) [OF wt i] by simp
  ultimately have c: "c < gs m i + gz m i" "c < length (type_defs m)" using canon_le [OF wf] unfolding c_def by (meson le_less_trans)+
  then show "c < length (type_defs m)" by simp
  assume "\<not> in_group (gs m i) (gz m i) c"
  then have "c < gs m i" using c(1) by (simp add: in_group_def)
  then show "gs m c < gs m i" using wf_typesD(1) [OF wt c(2)] by simp
qed

lemma type_same_strong:
  assumes "type_same ref ma mb ia ib" "\<And>ta tb. ta \<in> all_refs ma ia \<Longrightarrow> tb \<in> all_refs mb ib \<Longrightarrow> ref ta tb \<Longrightarrow> ref' ta tb"
  shows "type_same ref' ma mb ia ib"
proof -
  have "list_all2 ref' xs ys" if "list_all2 ref xs ys" "set xs \<subseteq> all_refs ma ia" "set ys \<subseteq> all_refs mb ib" for xs ys
    using that assms(2) by (auto elim!: list.rel_mono_strong)
  moreover have "rel_option (\<lambda>s s'. ref' (WAH_TYPE_FROM_IDX s False) (WAH_TYPE_FROM_IDX s' False)) (td_supertype (type_defs ma ! ia)) (td_supertype (type_defs mb ! ib))"
    using assms by (auto simp: type_same_def Let_def all_refs_def elim!: option.rel_mono_strong)
  ultimately show ?thesis using assms(1) by (auto simp: type_same_def Let_def all_refs_def type_refs_def split: if_splits)
qed

lemma type_same_refl:
  assumes "\<And>t. t \<in> all_refs m i \<Longrightarrow> ref t t"
  shows "type_same ref m m i i"
  using assms by (auto simp: type_same_def Let_def all_refs_def type_refs_def intro!: list.rel_refl_strong option.rel_refl_strong)

lemma group_iso_refl:
  assumes "cross_wf m" "i < length (type_defs m)"
  shows "group_iso m m (gs m i) (gs m i) (gz m i)"
  using assms(2)
proof (induction "gs m i" arbitrary: i rule: less_induct)
  case less
  have wt: "wf_types m" using assms(1) by (simp add: cross_wf_def)
  let ?s = "gs m i" and ?n = "gz m i"
  have "ref_same (group_iso m m) m m ?s ?s ?n t t" if t: "ref_below m (?s + ?n) t" for t
  proof (cases "0 \<le> t")
    case True
    note c = ref_canon [OF assms(1) less.prems t True]
    show ?thesis using True less.hyps [OF c(2) c(1)] by (auto simp: ref_same_def Let_def same_place_def)
  qed (simp add: ref_same_def)
  then have "type_same (ref_same (group_iso m m) m m ?s ?s ?n) m m (?s + k) (?s + k)" if "k < ?n" for k
    using all_refs_below [OF wt] cross_group_member [OF wt less.prems that] by (intro type_same_refl) metis
  then show ?case by (intro group_iso.group) (simp add: group_same_step_def)
qed

text \<open>References lead to groups that start earlier, so the start of a group bounds the depth.\<close>

lemma group_iso_levels:
  assumes "cross_wf ma" "i < length (type_defs ma)" "group_iso ma mb (gs ma i) sb (gz ma i)" "gs ma i \<le> levels"
  shows "group_same levels ma mb (gs ma i) sb (gz ma i)"
  using assms(2-4)
proof (induction "gs ma i" arbitrary: i sb levels rule: less_induct)
  case less
  have wt: "wf_types ma" using assms(1) by (simp add: cross_wf_def)
  let ?s = "gs ma i" and ?n = "gz ma i"
  define deeper where "deeper = (case levels of 0 \<Rightarrow> (\<lambda>_ _ _. False) | Suc l \<Rightarrow> group_same l ma mb)"
  have ref: "ref_same deeper ma mb ?s sb ?n ta tb" if t: "ref_below ma (?s + ?n) ta" and iso: "ref_same (group_iso ma mb) ma mb ?s sb ?n ta tb" for ta tb
  proof (cases "ta < 0 \<or> tb < 0 \<or> in_group ?s ?n (canon ma (WAH_TYIDX ta))")
    case True
    then show ?thesis using iso by (auto simp: ref_same_def Let_def)
  next
    case False
    let ?c = "canon ma (WAH_TYIDX ta)"
    have c: "?c < length (type_defs ma)" "gs ma ?c < ?s" using ref_canon [OF assms(1) less.prems(1) t] False by auto
    then obtain l where l: "levels = Suc l" "gs ma ?c \<le> l" using less.prems(3) by (cases levels) auto
    have "deeper (gs ma ?c) sb' (gz ma ?c)" if "group_iso ma mb (gs ma ?c) sb' (gz ma ?c)" for sb'
      using less.hyps [OF c(2,1) that l(2)] by (simp add: deeper_def l(1))
    then show ?thesis using iso False by (auto simp: ref_same_def Let_def split: if_splits)
  qed
  have "type_same (ref_same deeper ma mb ?s sb ?n) ma mb (?s + k) (sb + k)" if k: "k < ?n" for k
  proof -
    have "type_same (ref_same (group_iso ma mb) ma mb ?s sb ?n) ma mb (?s + k) (sb + k)"
      using less.prems(2) k by (simp add: group_iso_iff [of ma mb ?s] group_same_step_def)
    then show ?thesis using ref all_refs_below [OF wt] cross_group_member [OF wt less.prems(1) k] by (elim type_same_strong) metis
  qed
  then have "group_same_step deeper ma mb ?s sb ?n" by (simp add: group_same_step_def)
  then show ?case by (cases levels) (simp_all add: deeper_def)
qed

text \<open>Keys of different pairs of groups are different and not zero.\<close>

lemma memo_key_unat:
  assumes "a < 2 ^ 31" "b < 2 ^ 31"
  shows "unat (wah_type_eq_memo_key a b) = a * 2 ^ 32 + b + 1"
proof -
  let ?a = "of_nat a :: u64" and ?b = "of_nat b :: u64"
  have "of_nat b = take_bit 32 ?b" using assms(2) by (simp add: take_bit_eq_mod [symmetric] unat_of_nat word_unat_eq_iff unsigned_take_bit_eq take_bit_nat_eq_self)
  then have "push_bit 32 ?a AND ?b = 0" by (metis (no_types) bit_eqI bit_and_iff bit_0_eq bit_push_bit_iff bit_take_bit_iff bot_apply not_le bot_bool_def)
  then have "wah_type_eq_memo_key a b = push_bit 32 ?a + ?b + 1" by (simp add: wah_type_eq_memo_key_def disjunctive_add_eq_or)
  also have "\<dots> = of_nat (a * 2 ^ 32 + b + 1)" by (simp add: push_bit_eq_mult)
  finally have "unat (wah_type_eq_memo_key a b) = (a * 2 ^ 32 + b + 1) mod 2 ^ 64" by (simp only: unat_of_nat) simp
  then show ?thesis using assms by simp
qed

lemma memo_key_nonzero: "a < 2 ^ 31 \<Longrightarrow> b < 2 ^ 31 \<Longrightarrow> wah_type_eq_memo_key a b \<noteq> 0"
  using memo_key_unat [of a b] by (auto simp: unat_eq_0)

lemma memo_key_inj:
  assumes "wah_type_eq_memo_key a b = wah_type_eq_memo_key a' b'" "a < 2 ^ 31" "b < 2 ^ 31" "a' < 2 ^ 31" "b' < 2 ^ 31"
  shows "a = a' \<and> b = b'"
proof -
  have "a * 2 ^ 32 + b = a' * 2 ^ 32 + b'" using assms memo_key_unat [of a b] memo_key_unat [of a' b'] by simp
  then have "(a * 2 ^ 32 + b) div 2 ^ 32 = (a' * 2 ^ 32 + b') div 2 ^ 32" "(a * 2 ^ 32 + b) mod 2 ^ 32 = (a' * 2 ^ 32 + b') mod 2 ^ 32" by simp_all
  then show ?thesis using assms by simp
qed

text \<open>A key in the memo stands for a pair of equal groups.\<close>

definition equal_groups_key :: "wah_module \<Rightarrow> wah_module \<Rightarrow> u64 \<Rightarrow> bool" where
  "equal_groups_key ma mb key \<longleftrightarrow> (\<exists>sa sb. sa < 2 ^ 31 \<and> sb < 2 ^ 31 \<and> key = wah_type_eq_memo_key sa sb \<and> group_iso ma mb sa sb (gz ma sa))"

lemma equal_groups_key_iff:
  assumes "sa < 2 ^ 31" "sb < 2 ^ 31"
  shows "equal_groups_key ma mb (wah_type_eq_memo_key sa sb) \<longleftrightarrow> group_iso ma mb sa sb (gz ma sa)"
  using assms memo_key_inj [OF _ assms] unfolding equal_groups_key_def by blast

lemma type_count: "wf_types m \<Longrightarrow> i < length (type_defs m) \<Longrightarrow> gs m i < 2 ^ 31"
  using wf_typesD(1,9) [of m i] by (auto simp: WAH_MAX_TYPE_INDEX_def)

text \<open>What a check of groups one level deeper has to fulfil.\<close>

definition deeper_ok :: "module_ref \<Rightarrow> module_ref \<Rightarrow> group_check option \<Rightarrow> (nat \<Rightarrow> nat \<Rightarrow> nat \<Rightarrow> bool) \<Rightarrow> bool" where
  "deeper_ok ma mb deeper R \<longleftrightarrow> (case deeper of None \<Rightarrow> \<forall>sa sb n. \<not> R sa sb n
    | Some g \<Rightarrow> \<forall>ca < length (type_defs (snd ma)). \<forall>cb < length (type_defs (snd mb)). gz (snd ma) ca = gz (snd mb) cb \<longrightarrow>
        memo.check_ok (equal_groups_key (snd ma) (snd mb)) (g (gs (snd ma) ca) (gz (snd ma) ca) (gs (snd mb) cb) (gz (snd mb) cb))
          (R (gs (snd ma) ca) (gs (snd mb) cb) (gz (snd ma) ca)) (group_iso (snd ma) (snd mb) (gs (snd ma) ca) (gs (snd mb) cb) (gz (snd ma) ca)))"

lemma ref_in_recgroup_ok:
  assumes ok: "modules_ok ma mb" and deeper: "deeper_ok ma mb deeper R"
    and a: "0 \<le> ta \<Longrightarrow> canon (snd ma) (WAH_TYIDX ta) < length (type_defs (snd ma))"
    and b: "0 \<le> tb \<Longrightarrow> canon (snd mb) (WAH_TYIDX tb) < length (type_defs (snd mb))"
  shows "memo.check_ok (equal_groups_key (snd ma) (snd mb)) (wah_cross_module_ref_in_recgroup deeper ma mb sa n sb n ta tb)
    (ref_same R (snd ma) (snd mb) sa sb n ta tb) (ref_same (group_iso (snd ma) (snd mb)) (snd ma) (snd mb) sa sb n ta tb)"
proof (cases "ta < 0 \<or> tb < 0 \<or> odd ta \<noteq> odd tb")
  case True
  then show ?thesis
    by (auto simp: wah_cross_module_ref_in_recgroup_def ref_same_def intro: memo.check_pure)
next
  case False
  let ?a = "snd ma" and ?b = "snd mb"
  define ca cb where c: "ca = canon ?a (WAH_TYIDX ta)" "cb = canon ?b (WAH_TYIDX tb)"
  have wf: "wf_types ?a" "wf_types ?b" "cross_wf ?a" using ok by (simp_all add: modules_ok_def cross_wf_def)
  have cl: "ca < length (type_defs ?a)" "cb < length (type_defs ?b)" using a b False by (simp_all add: c)
  have same: "ref_same D ?a ?b sa sb n ta tb \<longleftrightarrow> (if in_group sa n ca \<or> in_group sb n cb then in_group sa n ca \<and> in_group sb n cb \<and> ca - sa = cb - sb
      else same_place ?a ?b ca cb \<and> D (gs ?a ca) (gs ?b cb) (gz ?a ca))" for D
    using False by (simp add: ref_same_def c Let_def)
  have run: "wah_cross_module_ref_in_recgroup deeper ma mb sa n sb n ta tb =
      (if in_group sa n ca \<and> in_group sb n cb then (\<lambda>memo. Some (ca - sa = cb - sb, memo))
       else if in_group sa n ca \<or> in_group sb n cb then (\<lambda>memo. Some (False, memo))
       else if fst ma = fst mb \<and> ca = cb then (\<lambda>memo. Some (True, memo))
       else case deeper of None \<Rightarrow> (\<lambda>memo. Some (False, memo))
       | Some g \<Rightarrow> if \<not> same_place ?a ?b ca cb then (\<lambda>memo. Some (False, memo))
           else check_memoized wah_type_eq_memo_has wah_type_eq_memo_add (wah_type_eq_memo_key (gs ?a ca) (gs ?b cb))
                  (g (gs ?a ca) (gz ?a ca) (gs ?b cb) (gz ?b cb)))"
    using False by (auto simp: wah_cross_module_ref_in_recgroup_def c in_group_def same_place_def Let_def split: option.splits)
  show ?thesis
  proof (cases "in_group sa n ca \<or> in_group sb n cb \<or> fst ma = fst mb \<and> ca = cb")
    case True
    have "?a = ?b" if "fst ma = fst mb" using ok that by (auto simp: modules_ok_def)
    then show ?thesis unfolding run same using True group_iso_refl [OF wf(3) cl(1)]
      by (auto simp: same_place_def intro!: memo.check_pure)
  next
    case out: False
    show ?thesis
    proof (cases deeper)
      case None
      then show ?thesis unfolding run same using out deeper by (auto simp: deeper_ok_def intro!: memo.check_pure)
    next
      case (Some g)
      show ?thesis
      proof (cases "same_place ?a ?b ca cb")
        case True
        have g: "memo.check_ok (equal_groups_key ?a ?b) (g (gs ?a ca) (gz ?a ca) (gs ?b cb) (gz ?b cb))
            (R (gs ?a ca) (gs ?b cb) (gz ?a ca)) (group_iso ?a ?b (gs ?a ca) (gs ?b cb) (gz ?a ca))"
          using deeper cl True by (simp add: deeper_ok_def Some same_place_def)
        have s: "gs ?a ca < 2 ^ 31" "gs ?b cb < 2 ^ 31" using type_count wf cl by blast+
        have z: "gz ?a (gs ?a ca) = gz ?a ca" using wf_typesD(1,2) [OF wf(1) cl(1)] wf_typesD(4) [OF wf(1) cl(1), of "gs ?a ca"] by simp
        have "memo.check_ok (equal_groups_key ?a ?b) (check_memoized wah_type_eq_memo_has wah_type_eq_memo_add
            (wah_type_eq_memo_key (gs ?a ca) (gs ?b cb)) (g (gs ?a ca) (gz ?a ca) (gs ?b cb) (gz ?b cb)))
            (R (gs ?a ca) (gs ?b cb) (gz ?a ca)) (group_iso ?a ?b (gs ?a ca) (gs ?b cb) (gz ?a ca))"
          using memo.check_memo [OF g memo_key_nonzero [OF s]] equal_groups_key_iff [OF s, of ?a ?b] by (simp add: z)
        then show ?thesis unfolding run same using out True by (auto simp: Some)
      next
        case False
        then show ?thesis unfolding run same using out by (auto simp: Some intro!: memo.check_pure)
      qed
    qed
  qed
qed

lemma list_all2_nth_iff:
  "length xs = length ys \<Longrightarrow> (\<forall>j \<in> set [0..<length xs]. P (xs ! j) (ys ! j)) \<longleftrightarrow> list_all2 P xs ys"
  by (auto simp: list_all2_conv_all_nth)

lemma type_eq_in_recgroup_ok:
  assumes ref: "\<And>ta tb. ta \<in> all_refs ma ia \<Longrightarrow> tb \<in> all_refs mb ib \<Longrightarrow> memo.check_ok good (ref_eq ta tb) (R ta tb) (S ta tb)"
  shows "memo.check_ok good (wah_cross_module_type_eq_in_recgroup ref_eq ma mb ia ib) (type_same R ma mb ia ib) (type_same S ma mb ia ib)"
proof (cases "td_kind (type_defs ma ! ia) = td_kind (type_defs mb ! ib) \<and> td_is_final (type_defs ma ! ia) = td_is_final (type_defs mb ! ib)")
  case False
  then show ?thesis by (auto simp: wah_cross_module_type_eq_in_recgroup_def type_same_def Let_def intro!: memo.check_pure)
next
  case True
  let ?da = "type_defs ma ! ia" and ?db = "type_defs mb ! ib" and ?fa = "types ma ! ia" and ?fb = "types mb ! ib"
  let ?no = "\<lambda>memo. Some (False, memo) :: (bool \<times> wah_type_eq_memo) option"
  let ?sup = "\<lambda>P. rel_option (\<lambda>s s'. P (WAH_TYPE_FROM_IDX s False) (WAH_TYPE_FROM_IDX s' False)) (td_supertype ?da) (td_supertype ?db)"
  have sup: "memo.check_ok good (case (td_supertype ?da, td_supertype ?db) of (None, None) \<Rightarrow> (\<lambda>memo. Some (True, memo))
      | (Some sa, Some sb) \<Rightarrow> ref_eq (WAH_TYPE_FROM_IDX sa False) (WAH_TYPE_FROM_IDX sb False) | _ \<Rightarrow> ?no) (?sup R) (?sup S)"
    using ref by (cases "td_supertype ?da"; cases "td_supertype ?db") (auto simp: all_refs_def intro!: memo.check_pure)
  have lists: "memo.check_ok good (check_all (\<lambda>j. ref_eq (xs ! j) (ys ! j)) [0..<length xs]) (list_all2 R xs ys) (list_all2 S xs ys)"
    if "length xs = length ys" "set xs \<subseteq> all_refs ma ia" "set ys \<subseteq> all_refs mb ib" for xs ys
    unfolding list_all2_nth_iff [OF that(1), symmetric] using that by (intro memo.check_list ref) (auto intro: nth_mem)
  show ?thesis
  proof (cases "td_kind ?da = WAH_COMP_FUNC")
    case func: True
    have "memo.check_ok good (if length (ft_param_types ?fa) \<noteq> length (ft_param_types ?fb) \<or> length (ft_result_types ?fa) \<noteq> length (ft_result_types ?fb) then ?no
        else check_and (check_all (\<lambda>j. ref_eq (ft_param_types ?fa ! j) (ft_param_types ?fb ! j)) [0..<length (ft_param_types ?fa)])
               (check_all (\<lambda>j. ref_eq (ft_result_types ?fa ! j) (ft_result_types ?fb ! j)) [0..<length (ft_result_types ?fa)]))
        (list_all2 R (ft_param_types ?fa) (ft_param_types ?fb) \<and> list_all2 R (ft_result_types ?fa) (ft_result_types ?fb))
        (list_all2 S (ft_param_types ?fa) (ft_param_types ?fb) \<and> list_all2 S (ft_result_types ?fa) (ft_result_types ?fb))"
    proof (cases "length (ft_param_types ?fa) = length (ft_param_types ?fb) \<and> length (ft_result_types ?fa) = length (ft_result_types ?fb)")
      case len: True
      have "set (ft_param_types ?fa) \<subseteq> all_refs ma ia" "set (ft_result_types ?fa) \<subseteq> all_refs ma ia"
        "set (ft_param_types ?fb) \<subseteq> all_refs mb ib" "set (ft_result_types ?fb) \<subseteq> all_refs mb ib"
        using func True by (auto simp: all_refs_def type_refs_def)
      from memo.check_conj [OF lists [OF _ this(1,3)] lists [OF _ this(2,4)]] show ?thesis using len by simp
    qed (auto dest: list_all2_lengthD intro!: memo.check_pure)
    from memo.check_conj [OF sup this] show ?thesis
      using True func by (simp add: wah_cross_module_type_eq_in_recgroup_def type_same_def Let_def)
  next
    case data: False
    let ?mut = "\<forall>j \<in> set [0..<length (td_field_types ?da)]. td_field_mutables ?da ! j = td_field_mutables ?db ! j"
    have sub: "set (td_field_types ?da) \<subseteq> all_refs ma ia" "set (td_field_types ?db) \<subseteq> all_refs mb ib"
      using data True by (auto simp: all_refs_def type_refs_def)
    have "memo.check_ok good (if length (td_field_types ?da) \<noteq> length (td_field_types ?db) then ?no
        else check_all (\<lambda>j. check_and (ref_eq (td_field_types ?da ! j) (td_field_types ?db ! j))
               (\<lambda>memo. Some (td_field_mutables ?da ! j = td_field_mutables ?db ! j, memo))) [0..<length (td_field_types ?da)])
        (list_all2 R (td_field_types ?da) (td_field_types ?db) \<and> ?mut) (list_all2 S (td_field_types ?da) (td_field_types ?db) \<and> ?mut)"
    proof (cases "length (td_field_types ?da) = length (td_field_types ?db)")
      case len: True
      have "memo.check_ok good (check_all (\<lambda>j. check_and (ref_eq (td_field_types ?da ! j) (td_field_types ?db ! j))
            (\<lambda>memo. Some (td_field_mutables ?da ! j = td_field_mutables ?db ! j, memo))) [0..<length (td_field_types ?da)])
          (\<forall>j \<in> set [0..<length (td_field_types ?da)]. R (td_field_types ?da ! j) (td_field_types ?db ! j) \<and> td_field_mutables ?da ! j = td_field_mutables ?db ! j)
          (\<forall>j \<in> set [0..<length (td_field_types ?da)]. S (td_field_types ?da ! j) (td_field_types ?db ! j) \<and> td_field_mutables ?da ! j = td_field_mutables ?db ! j)"
        using sub len by (intro memo.check_list memo.check_conj ref memo.check_pure) auto
      then show ?thesis using len unfolding list_all2_nth_iff [OF len, symmetric] ball_conj_distrib by simp
    qed (auto dest: list_all2_lengthD intro!: memo.check_pure)
    from memo.check_conj [OF sup this] show ?thesis
      using True data by (simp add: wah_cross_module_type_eq_in_recgroup_def type_same_def Let_def Ball_def)
  qed
qed

lemma rec_group_eq_body_ok:
  assumes ok: "modules_ok ma mb" and deeper: "deeper_ok ma mb deeper R"
    and c: "ca < length (type_defs (snd ma))" "cb < length (type_defs (snd mb))" "gz (snd ma) ca = gz (snd mb) cb"
  shows "memo.check_ok (equal_groups_key (snd ma) (snd mb))
    (rec_group_eq_body deeper ma mb (gs (snd ma) ca) (gz (snd ma) ca) (gs (snd mb) cb) (gz (snd mb) cb))
    (group_same_step R (snd ma) (snd mb) (gs (snd ma) ca) (gs (snd mb) cb) (gz (snd ma) ca))
    (group_iso (snd ma) (snd mb) (gs (snd ma) ca) (gs (snd mb) cb) (gz (snd ma) ca))"
proof (cases "fst ma = fst mb \<and> gs (snd ma) ca = gs (snd mb) cb")
  case True
  then have "snd ma = snd mb" "cross_wf (snd ma)" using ok by (auto simp: modules_ok_def)
  then show ?thesis using True c group_iso_refl [of "snd ma" ca] by (auto simp: rec_group_eq_body_def intro!: memo.check_pure)
next
  case False
  let ?a = "snd ma" and ?b = "snd mb" and ?n = "gz (snd ma) ca" and ?sa = "gs (snd ma) ca" and ?sb = "gs (snd mb) cb"
  let ?good = "equal_groups_key ?a ?b" and ?ref = "wah_cross_module_ref_in_recgroup deeper ma mb (gs (snd ma) ca) (gz (snd ma) ca) (gs (snd mb) cb) (gz (snd ma) ca)"
  have wf: "wf_types ?a" "wf_types ?b" "cross_wf ?a" "cross_wf ?b" using ok by (simp_all add: modules_ok_def cross_wf_def)
  have member: "memo.check_ok ?good (wah_cross_module_type_eq_in_recgroup ?ref ?a ?b (?sa + k) (?sb + k))
      (type_same (ref_same R ?a ?b ?sa ?sb ?n) ?a ?b (?sa + k) (?sb + k))
      (type_same (ref_same (group_iso ?a ?b) ?a ?b ?sa ?sb ?n) ?a ?b (?sa + k) (?sb + k))" if k: "k < ?n" for k
  proof (rule type_eq_in_recgroup_ok)
    fix ta tb assume t: "ta \<in> all_refs ?a (?sa + k)" "tb \<in> all_refs ?b (?sb + k)"
    note A = cross_group_member [OF wf(1) c(1) k]
    have kb: "k < gz ?b cb" using k c(3) by simp
    note B = cross_group_member [OF wf(2) c(2) kb]
    have "ref_below ?a (?sa + ?n) ta" using all_refs_below [OF wf(1) A(1) t(1)] A(2,3) by simp
    moreover have "ref_below ?b (?sb + gz ?b cb) tb" using all_refs_below [OF wf(2) B(1) t(2)] B(2,3) by simp
    ultimately show "memo.check_ok ?good (?ref ta tb) (ref_same R ?a ?b ?sa ?sb ?n ta tb) (ref_same (group_iso ?a ?b) ?a ?b ?sa ?sb ?n ta tb)"
      using ref_canon(1) [OF wf(3) c(1)] ref_canon(1) [OF wf(4) c(2)] by (intro ref_in_recgroup_ok [OF ok deeper]) auto
  qed
  have "memo.check_ok ?good (check_all (\<lambda>k. wah_cross_module_type_eq_in_recgroup ?ref ?a ?b (?sa + k) (?sb + k)) [0..<?n])
      (\<forall>k \<in> set [0..<?n]. type_same (ref_same R ?a ?b ?sa ?sb ?n) ?a ?b (?sa + k) (?sb + k))
      (\<forall>k \<in> set [0..<?n]. type_same (ref_same (group_iso ?a ?b) ?a ?b ?sa ?sb ?n) ?a ?b (?sa + k) (?sb + k))"
    using member by (intro memo.check_list) simp
  moreover have "rec_group_eq_body deeper ma mb ?sa ?n ?sb (gz ?b cb) =
      check_all (\<lambda>k. wah_cross_module_type_eq_in_recgroup ?ref ?a ?b (?sa + k) (?sb + k)) [0..<?n]"
    by (simp only: rec_group_eq_body_def c(3) False if_False not_True_eq_False simp_thms)
  ultimately show ?thesis by (simp add: group_iso_iff [of ?a ?b ?sa] group_same_step_def Ball_def)
qed

lemma levels_ok:
  assumes ok: "modules_ok ma mb"
    and c: "ca < length (type_defs (snd ma))" "cb < length (type_defs (snd mb))" "gz (snd ma) ca = gz (snd mb) cb"
  shows "memo.check_ok (equal_groups_key (snd ma) (snd mb))
    (rec_group_eq_levels ma mb levels (gs (snd ma) ca) (gz (snd ma) ca) (gs (snd mb) cb) (gz (snd mb) cb))
    (group_same levels (snd ma) (snd mb) (gs (snd ma) ca) (gs (snd mb) cb) (gz (snd ma) ca))
    (group_iso (snd ma) (snd mb) (gs (snd ma) ca) (gs (snd mb) cb) (gz (snd ma) ca))"
  using c
proof (induction levels arbitrary: ca cb)
  case 0
  then show ?case using rec_group_eq_body_ok [OF ok, of None "\<lambda>_ _ _. False" ca cb] by (simp add: deeper_ok_def)
next
  case (Suc levels)
  have "deeper_ok ma mb (Some (rec_group_eq_levels ma mb levels)) (group_same levels (snd ma) (snd mb))"
    using Suc.IH by (simp add: deeper_ok_def)
  from rec_group_eq_body_ok [OF ok this Suc.prems] show ?case by simp
qed

text \<open>Modules whose equal groups are nested within the limit of the check; few types are enough.\<close>

definition within_depth :: "wah_module \<Rightarrow> wah_module \<Rightarrow> bool" where
  "within_depth ma mb \<longleftrightarrow> (\<forall>i < length (type_defs ma). \<forall>sb. group_iso ma mb (gs ma i) sb (gz ma i) \<longrightarrow>
     group_same WAH_MAX_TYPE_RECURSION_DEPTH ma mb (gs ma i) sb (gz ma i))"

lemma within_depth_few:
  assumes "cross_wf ma" "length (type_defs ma) \<le> WAH_MAX_TYPE_RECURSION_DEPTH"
  shows "within_depth ma mb"
  unfolding within_depth_def
proof (intro allI impI)
  fix i sb assume i: "i < length (type_defs ma)" "group_iso ma mb (gs ma i) sb (gz ma i)"
  have "gs ma i \<le> i" using assms(1) i(1) wf_typesD(1) by (simp add: cross_wf_def)
  then show "group_same WAH_MAX_TYPE_RECURSION_DEPTH ma mb (gs ma i) sb (gz ma i)"
    using assms i by (intro group_iso_levels) auto
qed

text \<open>A type that a module can refer to.\<close>

definition type_in :: "wah_module \<Rightarrow> wah_type \<Rightarrow> bool" where
  "type_in m t \<longleftrightarrow> t < 0 \<or> concrete_type m t"

lemma type_in_from_idx: "s < length (type_defs m) \<Longrightarrow> s \<le> WAH_MAX_TYPE_INDEX \<Longrightarrow> type_in m (WAH_TYPE_FROM_IDX s False)"
  by (simp add: type_in_def concrete_type_def tyidx_from_idx from_idx_nonneg) (simp add: from_idx_eq WAH_MAX_TYPE_INDEX_def)

definition check_between :: "alloc_state check \<Rightarrow> bool \<Rightarrow> bool \<Rightarrow> bool" where
  "check_between c R S \<longleftrightarrow> (\<forall>st. \<exists>b st'. c st = Some (b, st') \<and> (b \<longrightarrow> S) \<and> (R \<longrightarrow> b \<or> fst st') \<and> (fst st \<longrightarrow> fst st'))"

lemma between_pure: "(b \<Longrightarrow> S) \<Longrightarrow> (R \<Longrightarrow> b) \<Longrightarrow> check_between (\<lambda>st. Some (b, st)) R S"
  by (auto simp: check_between_def)

lemma between_or:
  assumes c: "check_between c R S" and d: "check_between d R' S'"
  shows "check_between (check_or c d) (R \<or> R') (S \<or> S')"
  unfolding check_between_def
proof
  fix st
  obtain b s1 where b: "c st = Some (b, s1)" "b \<longrightarrow> S" "R \<longrightarrow> b \<or> fst s1" "fst st \<longrightarrow> fst s1" using c unfolding check_between_def by blast
  obtain b' s2 where b': "d s1 = Some (b', s2)" "b' \<longrightarrow> S'" "R' \<longrightarrow> b' \<or> fst s2" "fst s1 \<longrightarrow> fst s2" using d unfolding check_between_def by blast
  show "\<exists>b st'. check_or c d st = Some (b, st') \<and> (b \<longrightarrow> S \<or> S') \<and> (R \<or> R' \<longrightarrow> b \<or> fst st') \<and> (fst st \<longrightarrow> fst st')"
    using b b' by (cases b) (auto simp: check_or_def)
qed

lemma type_ref_eq_ok:
  assumes ok: "modules_ok ma mb" and t: "type_in (snd ma) ta" "type_in (snd mb) tb"
  shows "check_between (wah_cross_module_type_ref_eq_oom ma ta mb tb) (within_depth (snd ma) (snd mb) \<and> type_iso (snd ma) ta (snd mb) tb)
    (type_iso (snd ma) ta (snd mb) tb)"
proof (cases "ta < 0 \<or> tb < 0 \<or> odd ta \<noteq> odd tb")
  case True
  then show ?thesis by (auto simp: check_between_def wah_cross_module_type_ref_eq_oom_def type_iso_def)
next
  case False
  let ?a = "snd ma" and ?b = "snd mb"
  define ca cb where c: "ca = canon ?a (WAH_TYIDX ta)" "cb = canon ?b (WAH_TYIDX tb)"
  have wf: "cross_wf ?a" "cross_wf ?b" using ok by (simp_all add: modules_ok_def)
  have cl: "ca < length (type_defs ?a)" "cb < length (type_defs ?b)"
    using t False canon_le [OF wf(1)] canon_le [OF wf(2)] unfolding c type_in_def concrete_type_def by (meson le_less_trans)+
  have iso: "type_iso ?a ta ?b tb \<longleftrightarrow> same_place ?a ?b ca cb \<and> group_iso ?a ?b (gs ?a ca) (gs ?b cb) (gz ?a ca)"
    using False by (simp add: type_iso_def c Let_def)
  let ?memo = "\<lambda>gr. \<lparr> memo_keys = [], memo_count = 0, memo_oom = False, memo_grants = gr \<rparr>"
  let ?check = "\<lambda>st. map_option (\<lambda>(eq, memo). (eq, memo_oom memo \<or> fst st, memo_grants memo))
      (wah_cross_module_rec_group_eq ma mb 0 (gs ?a ca) (gz ?a ca) (gs ?b cb) (gz ?b cb) (?memo (snd st)))"
  have run: "wah_cross_module_type_ref_eq_oom ma ta mb tb st = (if fst ma = fst mb \<and> ca = cb then Some (True, st)
      else if \<not> same_place ?a ?b ca cb then Some (False, st) else ?check st)" for st
    using False by (simp add: wah_cross_module_type_ref_eq_oom_def c same_place_def Let_def)
  show ?thesis
  proof (cases "fst ma = fst mb \<and> ca = cb \<or> \<not> same_place ?a ?b ca cb")
    case True
    have "?a = ?b" if "fst ma = fst mb" using ok that by (auto simp: modules_ok_def)
    then have same: "type_iso ?a ta ?b tb \<longleftrightarrow> fst ma = fst mb \<and> ca = cb"
      using True group_iso_refl [OF wf(1) cl(1)] by (auto simp: iso same_place_def)
    have "wah_cross_module_type_ref_eq_oom ma ta mb tb = (\<lambda>st. Some (fst ma = fst mb \<and> ca = cb, st))"
      using True by (intro ext) (auto simp: run)
    then show ?thesis unfolding same by (simp add: between_pure)
  next
    case False
    have depth: "group_same 256 ?a ?b (gs ?a ca) (gs ?b cb) (gz ?a ca)" if "within_depth ?a ?b" "group_iso ?a ?b (gs ?a ca) (gs ?b cb) (gz ?a ca)"
      using that cl(1) by (simp add: within_depth_def)
    have "memo.sound good (?memo gr)" for good gr unfolding memo.sound_def by (simp add: memo_wf_def probing.keys_of_def)
    then have start: "memo.sound (equal_groups_key ?a ?b) (?memo gr)" for gr by blast
    have "memo.check_ok (equal_groups_key ?a ?b) (wah_cross_module_rec_group_eq ma mb 0 (gs ?a ca) (gz ?a ca) (gs ?b cb) (gz ?b cb))
        (group_same 256 ?a ?b (gs ?a ca) (gs ?b cb) (gz ?a ca)) (group_iso ?a ?b (gs ?a ca) (gs ?b cb) (gz ?a ca))"
      using levels_ok [OF ok cl, of 256] False by (simp add: wah_cross_module_rec_group_eq_def same_place_def)
    note result = this [unfolded memo.check_ok_def, rule_format, OF start]
    have "check_between ?check (within_depth ?a ?b \<and> group_iso ?a ?b (gs ?a ca) (gs ?b cb) (gz ?a ca))
        (group_iso ?a ?b (gs ?a ca) (gs ?b cb) (gz ?a ca))" unfolding check_between_def
    proof
      fix st :: alloc_state
      from result [of "snd st"] obtain b m' where r: "wah_cross_module_rec_group_eq ma mb 0 (gs ?a ca) (gz ?a ca) (gs ?b cb) (gz ?b cb) (?memo (snd st)) = Some (b, m')"
        "b \<longrightarrow> group_iso ?a ?b (gs ?a ca) (gs ?b cb) (gz ?a ca)" "group_same 256 ?a ?b (gs ?a ca) (gs ?b cb) (gz ?a ca) \<longrightarrow> b \<or> memo_oom m'" by blast
      then have "?check st = Some (b, memo_oom m' \<or> fst st, memo_grants m')" by simp
      then show "\<exists>b st'. ?check st = Some (b, st') \<and> (b \<longrightarrow> group_iso ?a ?b (gs ?a ca) (gs ?b cb) (gz ?a ca))
          \<and> (within_depth ?a ?b \<and> group_iso ?a ?b (gs ?a ca) (gs ?b cb) (gz ?a ca) \<longrightarrow> b \<or> fst st') \<and> (fst st \<longrightarrow> fst st')"
        using r(2,3) depth by (intro exI conjI) (assumption, auto)
    qed
    moreover have "wah_cross_module_type_ref_eq_oom ma ta mb tb = ?check" using False by (intro ext) (auto simp: run)
    moreover have "type_iso ?a ta ?b tb \<longleftrightarrow> group_iso ?a ?b (gs ?a ca) (gs ?b cb) (gz ?a ca)" using False by (simp add: iso)
    ultimately show ?thesis by simp
  qed
qed

section \<open>Subtyping and its cache\<close>

text \<open>The supertypes of a type along the declared chain are compared up to structural equality.\<close>

definition cross_subtype :: "module_ref \<Rightarrow> wah_type \<Rightarrow> module_ref \<Rightarrow> wah_type \<Rightarrow> bool" where
  "cross_subtype sub_m s sup_m t \<longleftrightarrow> s = t \<and> fst sub_m = fst sup_m
     \<or> \<not> (WAH_TYPE_IS_NULLABLE s \<and> \<not> WAH_TYPE_IS_NULLABLE t)
       \<and> (type_iso (snd sub_m) s (snd sup_m) t
          \<or> (if s < 0 \<or> t < 0 then wah_type_is_subtype s t (snd (if s < 0 then sup_m else sub_m))
             else type_iso (snd sub_m) (WAH_TYPE_AS_NON_NULL s) (snd sup_m) (WAH_TYPE_AS_NON_NULL t)
               \<or> (\<exists>u. super_of (snd sub_m) (WAH_TYIDX s) u
                    \<and> type_iso (snd sub_m) (WAH_TYPE_FROM_IDX u False) (snd sup_m) (WAH_TYPE_AS_NON_NULL t))))"

lemma super_of_iff:
  "super_of m t u \<longleftrightarrow> (\<exists>s. td_supertype (type_defs m ! t) = Some s \<and> (u = s \<or> super_of m s u))"
  by (auto elim: super_of.cases intro: super_of.intros)

lemma cross_super_walk_ok:
  assumes ok: "modules_ok ma mb" and b: "type_in (snd mb) tb" and t: "t < n" "t < length (type_defs (snd ma))"
  defines "S \<equiv> \<exists>u. super_of (snd ma) t u \<and> type_iso (snd ma) (WAH_TYPE_FROM_IDX u False) (snd mb) tb"
  shows "check_between (cross_super_walk n ma t mb tb) (within_depth (snd ma) (snd mb) \<and> S) S"
  using t unfolding S_def
proof (induction n arbitrary: t)
  case (Suc n)
  have wf: "wf_types (snd ma)" using ok by (simp add: modules_ok_def cross_wf_def)
  show ?case
  proof (cases "td_supertype (type_defs (snd ma) ! t)")
    case None
    then have "cross_super_walk (Suc n) ma t mb tb = (\<lambda>st. Some (False, st))" by (intro ext) simp
    moreover have "\<not> super_of (snd ma) t u" for u using None by (simp add: super_of_iff [of _ t])
    ultimately show ?thesis by (simp add: between_pure)
  next
    case (Some s)
    let ?iso = "\<lambda>u. type_iso (snd ma) (WAH_TYPE_FROM_IDX u False) (snd mb) tb"
    have s: "s < t" "s \<le> WAH_MAX_TYPE_INDEX" using wf_typesD(5,9) [OF wf Suc.prems(2)] Some by auto
    then have "type_in (snd ma) (WAH_TYPE_FROM_IDX s False)" using Suc.prems(2) by (simp add: type_in_from_idx)
    from between_or [OF type_ref_eq_ok [OF ok this b] Suc.IH [of s]] s Suc.prems
    have "check_between (check_or (wah_cross_module_type_ref_eq_oom ma (WAH_TYPE_FROM_IDX s False) mb tb) (cross_super_walk n ma s mb tb))
        (within_depth (snd ma) (snd mb) \<and> (?iso s \<or> (\<exists>u. super_of (snd ma) s u \<and> ?iso u))) (?iso s \<or> (\<exists>u. super_of (snd ma) s u \<and> ?iso u))"
      by (simp add: conj_disj_distribL)
    moreover have "cross_super_walk (Suc n) ma t mb tb =
        check_or (wah_cross_module_type_ref_eq_oom ma (WAH_TYPE_FROM_IDX s False) mb tb) (cross_super_walk n ma s mb tb)"
      using Some by (intro ext) simp
    moreover have "(\<exists>u. super_of (snd ma) t u \<and> ?iso u) \<longleftrightarrow> ?iso s \<or> (\<exists>u. super_of (snd ma) s u \<and> ?iso u)"
      using Some by (auto simp: super_of_iff [of _ t])
    ultimately show ?thesis by simp
  qed
qed simp

lemma cross_subtype_ok:
  assumes ok: "modules_ok ma mb" and t: "type_in (snd ma) s" "type_in (snd mb) t"
  shows "check_between (wah_cross_module_subtype_oom ma s mb t) (within_depth (snd ma) (snd mb) \<and> cross_subtype ma s mb t) (cross_subtype ma s mb t)"
proof (cases "s = t \<and> fst ma = fst mb \<or> odd s \<and> even t")
  case True
  then have "wah_cross_module_subtype_oom ma s mb t = (\<lambda>st. Some (s = t \<and> fst ma = fst mb, st))"
    by (auto simp: wah_cross_module_subtype_oom_def)
  moreover have "cross_subtype ma s mb t \<longleftrightarrow> s = t \<and> fst ma = fst mb" using True by (auto simp: cross_subtype_def)
  ultimately show ?thesis by (simp add: between_pure)
next
  case False
  let ?depth = "within_depth (snd ma) (snd mb)" and ?iso = "type_iso (snd ma)" and ?nn = "WAH_TYPE_AS_NON_NULL"
  note eq = type_ref_eq_ok [OF ok t]
  show ?thesis
  proof (cases "s < 0 \<or> t < 0")
    case neg: True
    let ?sub = "wah_type_is_subtype s t (snd (if s < 0 then mb else ma))"
    have "wah_cross_module_subtype_oom ma s mb t = check_or (wah_cross_module_type_ref_eq_oom ma s mb t) (\<lambda>st. Some (?sub, st))"
      using False neg by (auto simp: wah_cross_module_subtype_oom_def)
    moreover have "cross_subtype ma s mb t \<longleftrightarrow> ?iso s (snd mb) t \<or> ?sub" using False neg by (auto simp: cross_subtype_def)
    moreover have "check_between (\<lambda>st. Some (?sub, st)) (?depth \<and> ?sub) ?sub" by (simp add: between_pure)
    ultimately show ?thesis using between_or [OF eq] by (simp add: conj_disj_distribL)
  next
    case pos: False
    have nn: "type_in (snd ma) (?nn s)" "type_in (snd mb) (?nn t)" "WAH_TYIDX s < length (type_defs (snd ma))"
      using t pos concrete_non_null(4) by (auto simp: type_in_def concrete_type_def)
    let ?super = "\<exists>u. super_of (snd ma) (WAH_TYIDX s) u \<and> ?iso (WAH_TYPE_FROM_IDX u False) (snd mb) (?nn t)"
    let ?strip = "if ?nn s \<noteq> s \<or> ?nn t \<noteq> t then wah_cross_module_type_ref_eq_oom ma (?nn s) mb (?nn t) else (\<lambda>st. Some (False, st))"
    have strip: "check_between ?strip (?depth \<and> (?nn s \<noteq> s \<or> ?nn t \<noteq> t) \<and> ?iso (?nn s) (snd mb) (?nn t)) ((?nn s \<noteq> s \<or> ?nn t \<noteq> t) \<and> ?iso (?nn s) (snd mb) (?nn t))"
      using type_ref_eq_ok [OF ok nn(1,2)] by (auto intro: between_pure)
    note walk = cross_super_walk_ok [OF ok nn(2) nn(3) nn(3)]
    have "wah_cross_module_subtype_oom ma s mb t = check_or (wah_cross_module_type_ref_eq_oom ma s mb t)
        (check_or ?strip (cross_super_walk (length (type_defs (snd ma))) ma (WAH_TYIDX s) mb (?nn t)))"
      using False pos by (auto simp: wah_cross_module_subtype_oom_def Let_def)
    moreover have "cross_subtype ma s mb t \<longleftrightarrow> ?iso s (snd mb) t \<or> ((?nn s \<noteq> s \<or> ?nn t \<noteq> t) \<and> ?iso (?nn s) (snd mb) (?nn t)) \<or> ?super"
      using False pos by (auto simp: cross_subtype_def)
    ultimately show ?thesis using between_or [OF eq between_or [OF strip walk]] by (simp add: conj_disj_distribL)
  qed
qed

text \<open>The modules in use, by their addresses.\<close>

type_synonym module_store = "u64 \<rightharpoonup> wah_module"

definition store_ok :: "module_store \<Rightarrow> bool" where
  "store_ok mods \<longleftrightarrow> (\<forall>m \<in> ran mods. cross_wf m)"

text \<open>A stored answer is right: a positive one always, a negative one when the groups of its two modules are nested
  within the recursion limit of the comparison.\<close>

definition cache_sound :: "module_store \<Rightarrow> type_check_cache \<Rightarrow> bool" where
  "cache_sound mods cache \<longleftrightarrow> length cache = WAH_TYPE_CHECK_CACHE_SIZE
     \<and> (\<forall>e. Some e \<in> set cache \<longrightarrow> (\<exists>ms mt. mods (ce_sub_module e) = Some ms \<and> mods (ce_sup_module e) = Some mt
          \<and> (ce_is_subtype e \<longrightarrow> cross_subtype (ce_sub_module e, ms) (ce_sub_type e) (ce_sup_module e, mt) (ce_sup_type e))
          \<and> (within_depth ms mt \<and> cross_subtype (ce_sub_module e, ms) (ce_sub_type e) (ce_sup_module e, mt) (ce_sup_type e)
              \<longrightarrow> ce_is_subtype e)))"

definition in_store :: "module_store \<Rightarrow> module_ref \<Rightarrow> bool" where
  "in_store mods m \<longleftrightarrow> mods (fst m) = Some (snd m)"

lemma store_modules_ok:
  assumes "store_ok mods" "in_store mods ma" "in_store mods mb"
  shows "modules_ok ma mb"
proof -
  have r: "snd ma \<in> ran mods" "snd mb \<in> ran mods" using assms(2,3) by (auto simp: in_store_def ran_def)
  have "ma = mb" if "fst ma = fst mb" using assms(2,3) that by (simp add: in_store_def prod_eq_iff)
  then show ?thesis using r assms(1) by (simp add: store_ok_def modules_ok_def)
qed

lemma subtype_cached_ok:
  assumes store: "store_ok mods" "in_store mods ma" "in_store mods mb" and t: "type_in (snd ma) s" "type_in (snd mb) t"
    and cache: "cache_sound mods (fst st)"
  shows "\<exists>b st'. wah_cross_module_subtype_cached ma s mb t st = Some (b, st') \<and> cache_sound mods (fst st')
    \<and> (b \<longrightarrow> cross_subtype ma s mb t)
    \<and> (within_depth (snd ma) (snd mb) \<and> cross_subtype ma s mb t \<and> \<not> b \<longrightarrow> fst st' = fst st)"
proof -
  let ?slot = "wah_type_check_cache_slot (fst ma) s (fst mb) t"
  have slot: "?slot < length (fst st)" using cache by (simp add: cache_sound_def wah_type_check_cache_slot_def)
  define hit where "hit = (\<lambda>e :: wah_type_check_cache_entry. ce_sub_module e = fst ma \<and> ce_sup_module e = fst mb \<and> ce_sub_type e = s \<and> ce_sup_type e = t)"
  show ?thesis
  proof (cases "\<exists>e. fst st ! ?slot = Some e \<and> hit e")
    case True
    then obtain e where e: "fst st ! ?slot = Some e" "hit e" by blast
    then have "Some e \<in> set (fst st)" using slot by (metis nth_mem)
    then have "(ce_is_subtype e \<longrightarrow> cross_subtype ma s mb t)
        \<and> (within_depth (snd ma) (snd mb) \<and> cross_subtype ma s mb t \<longrightarrow> ce_is_subtype e)"
      using cache e(2) store(2,3) unfolding cache_sound_def hit_def in_store_def by (metis option.inject prod.collapse)
    then show ?thesis using e cache by (auto simp: wah_cross_module_subtype_cached_def hit_def)
  next
    case False
    from cross_subtype_ok [OF store_modules_ok [OF store] t]
    obtain b oom grants where r: "wah_cross_module_subtype_oom ma s mb t (False, snd st) = Some (b, oom, grants)"
      "b \<longrightarrow> cross_subtype ma s mb t" "within_depth (snd ma) (snd mb) \<and> cross_subtype ma s mb t \<longrightarrow> b \<or> oom" unfolding check_between_def by (metis fst_conv surj_pair)
    let ?e = "\<lparr> ce_sub_module = fst ma, ce_sup_module = fst mb, ce_sub_type = s, ce_sup_type = t, ce_is_subtype = b \<rparr>"
    let ?cache = "if oom then fst st else (fst st)[?slot := Some ?e]"
    have "wah_cross_module_subtype_cached ma s mb t st = Some (b, ?cache, grants)"
      using False r(1) by (auto simp: wah_cross_module_subtype_cached_def hit_def Let_def split: option.split)
    moreover have "cache_sound mods ?cache"
    proof (cases oom)
      case False
      then have "(b \<longrightarrow> cross_subtype ma s mb t) \<and> (within_depth (snd ma) (snd mb) \<and> cross_subtype ma s mb t \<longrightarrow> b)" using r by blast
      then show ?thesis using False cache store(2,3) set_update_subset_insert [of "fst st" ?slot "Some ?e"]
        by (auto simp: cache_sound_def in_store_def subset_iff)
    qed (use cache in simp)
    ultimately show ?thesis using r by auto
  qed
qed

text \<open>A host function is accepted only where its parameters are supertypes and its results subtypes.\<close>

definition check_sound :: "('m \<Rightarrow> bool) \<Rightarrow> 'm check \<Rightarrow> bool \<Rightarrow> bool" where
  "check_sound P c S \<longleftrightarrow> (\<forall>st. P st \<longrightarrow> (\<exists>b st'. c st = Some (b, st') \<and> P st' \<and> (b \<longrightarrow> S)))"

lemma check_sound_and: "check_sound P c S \<Longrightarrow> check_sound P d S' \<Longrightarrow> check_sound P (check_and c d) (S \<and> S')"
  unfolding check_sound_def
proof (intro allI impI)
  assume c: "\<forall>st. P st \<longrightarrow> (\<exists>b st'. c st = Some (b, st') \<and> P st' \<and> (b \<longrightarrow> S))"
    and d: "\<forall>st. P st \<longrightarrow> (\<exists>b st'. d st = Some (b, st') \<and> P st' \<and> (b \<longrightarrow> S'))"
  fix st assume "P st"
  with c obtain b s1 where b: "c st = Some (b, s1)" "P s1" "b \<longrightarrow> S" by blast
  with d obtain b' s2 where "d s1 = Some (b', s2)" "P s2" "b' \<longrightarrow> S'" by blast
  then show "\<exists>b st'. check_and c d st = Some (b, st') \<and> P st' \<and> (b \<longrightarrow> S \<and> S')" using b by (cases b) (auto simp: check_and_def)
qed

lemma check_sound_all: "(\<And>x. x \<in> set xs \<Longrightarrow> check_sound P (c x) (S x)) \<Longrightarrow> check_sound P (check_all c xs) (\<forall>x \<in> set xs. S x)"
proof (induction xs)
  case Nil
  show ?case by (auto simp: check_sound_def)
next
  case (Cons x xs)
  have "check_all c (x # xs) = check_and (c x) (check_all c xs)" by (rule ext) simp
  moreover have "check_sound P (check_and (c x) (check_all c xs)) (S x \<and> (\<forall>x \<in> set xs. S x))" using Cons by (intro check_sound_and) simp_all
  ultimately show ?case by simp
qed

lemma host_func_matches_ok:
  assumes store: "store_ok mods" "in_store mods fm" "in_store mods m" and idx: "idx < length (types (snd m))"
    and ts: "list_all (type_in (snd fm)) (ps @ rs)" "list_all (type_in (snd m)) (ft_param_types (types (snd m) ! idx) @ ft_result_types (types (snd m) ! idx))"
  shows "check_sound (\<lambda>st. cache_sound mods (fst st)) (wah_host_func_matches ps rs fm m idx)
    (list_all2 (\<lambda>t p. cross_subtype m t fm p) (ft_param_types (types (snd m) ! idx)) ps
      \<and> list_all2 (\<lambda>r t. cross_subtype fm r m t) rs (ft_result_types (types (snd m) ! idx)))"
proof -
  let ?ft = "types (snd m) ! idx" and ?P = "\<lambda>st :: type_check_cache \<times> bool list. cache_sound mods (fst st)"
  have one: "check_sound ?P (wah_cross_module_subtype_cached ma s mb t) (cross_subtype ma s mb t)"
    if "in_store mods ma" "in_store mods mb" "type_in (snd ma) s" "type_in (snd mb) t" for ma s mb t
    unfolding check_sound_def using subtype_cached_ok [OF store(1) that] by blast
  show ?thesis
  proof (cases "length (ft_param_types ?ft) = length ps \<and> length (ft_result_types ?ft) = length rs")
    case True
    have "check_sound ?P (check_all (\<lambda>i. wah_cross_module_subtype_cached m (ft_param_types ?ft ! i) fm (ps ! i)) [0..<length (ft_param_types ?ft)])
        (\<forall>i \<in> set [0..<length (ft_param_types ?ft)]. cross_subtype m (ft_param_types ?ft ! i) fm (ps ! i))"
      using store ts True by (intro check_sound_all one) (auto simp: list_all_iff)
    moreover have "check_sound ?P (check_all (\<lambda>i. wah_cross_module_subtype_cached fm (rs ! i) m (ft_result_types ?ft ! i)) [0..<length (ft_result_types ?ft)])
        (\<forall>i \<in> set [0..<length (ft_result_types ?ft)]. cross_subtype fm (rs ! i) m (ft_result_types ?ft ! i))"
      using store ts True by (intro check_sound_all one) (auto simp: list_all_iff)
    ultimately have "check_sound ?P (wah_host_func_matches ps rs fm m idx) ((\<forall>i \<in> set [0..<length (ft_param_types ?ft)]. cross_subtype m (ft_param_types ?ft ! i) fm (ps ! i))
        \<and> (\<forall>i \<in> set [0..<length (ft_result_types ?ft)]. cross_subtype fm (rs ! i) m (ft_result_types ?ft ! i)))"
      using True by (simp add: wah_host_func_matches_def Let_def check_sound_and)
    then show ?thesis using True by (simp add: list_all2_conv_all_nth Ball_def)
  next
    case False
    then show ?thesis by (auto simp: wah_host_func_matches_def Let_def check_sound_def)
  qed
qed

section \<open>Properties\<close>

text \<open>C11: the subtype check between types of two modules always ends, whatever the allocator answers; if it accepts,
  the types are in the subtype relation given by structural equality of recursion groups, declared supertypes
  and the abstract hierarchy; and if it rejects related types, memory was short or groups are nested too deeply.\<close>

theorem cross_module_subtype_correct:
  assumes "modules_ok ma mb" "type_in (snd ma) s" "type_in (snd mb) t"
  shows "\<exists>b oom grants'. wah_cross_module_subtype_oom ma s mb t (False, grants) = Some (b, oom, grants')
    \<and> (b \<longrightarrow> cross_subtype ma s mb t) \<and> (within_depth (snd ma) (snd mb) \<and> cross_subtype ma s mb t \<longrightarrow> b \<or> oom)"
  using cross_subtype_ok [OF assms] unfolding check_between_def by (metis fst_conv surj_pair)

text \<open>C37: the cache of subtype checks keeps its stored answers right, whatever the allocator answers. A positive
  answer, stored or given, is always right. A stored negative answer is right for two modules whose groups are
  nested within the recursion limit of the comparison; for such modules a negative answer that is wrong, because
  memory was short, leaves the cache as it was.\<close>

theorem subtype_cache_transparent:
  assumes "store_ok mods" "in_store mods ma" "in_store mods mb" "type_in (snd ma) s" "type_in (snd mb) t" "cache_sound mods (fst st)"
  shows "\<exists>b st'. wah_cross_module_subtype_cached ma s mb t st = Some (b, st') \<and> cache_sound mods (fst st')
    \<and> (b \<longrightarrow> cross_subtype ma s mb t)
    \<and> (within_depth (snd ma) (snd mb) \<and> cross_subtype ma s mb t \<and> \<not> b \<longrightarrow> fst st' = fst st)"
  using assms by (rule subtype_cached_ok)

section \<open>Two modules\<close>

text \<open>The module of the canonicalization example, and another one with its first type only.\<close>

definition other_module :: wah_module where
  "other_module = wah_module_zero\<lparr>types := [\<lparr>ft_param_types = [], ft_result_types = []\<rparr>], type_defs := [demo_struct None 0]\<rparr>"

lemma other_wf: "wf_types other_module"
  by (auto simp: wf_types_def wf_group_def wf_refs_def type_refs_def other_module_def demo_struct_def)

lemma demo_cross_wf: "cross_wf demo_module" "cross_wf other_module"
  by (simp_all add: cross_wf_def demo_wf other_wf demo_canon) (simp_all add: demo_module_def other_module_def wah_module_zero_def)

lemma demo_modules_ok: "modules_ok (1, demo_module) (2, other_module)"
  by (simp add: modules_ok_def demo_cross_wf)

lemma demo_types: "type_in demo_module 2" "type_in other_module 0"
  by (simp_all add: type_in_def concrete_type_def tyidx_eq) (simp_all add: demo_module_def other_module_def)

lemma demo_check: "wah_cross_module_subtype_oom (1, demo_module) 2 (2, other_module) 0 (False, []) = Some (True, False, [])"
  by code_simp

theorem cross_module_subtype_correct_witness: "cross_subtype (1, demo_module) 2 (2, other_module) 0"
  using cross_module_subtype_correct [OF demo_modules_ok, of 2 0 "[]"] demo_types by (auto simp: demo_check)

definition demo_store :: module_store where
  "demo_store = [1 \<mapsto> demo_module, 2 \<mapsto> other_module]"

lemma demo_store_ok: "store_ok demo_store"
proof -
  have "m = demo_module \<or> m = other_module" if "m \<in> ran demo_store" for m using that by (auto simp: demo_store_def ran_def split: if_splits)
  then show ?thesis using demo_cross_wf unfolding store_ok_def by metis
qed

theorem subtype_cache_transparent_witness:
  "\<exists>b st'. wah_cross_module_subtype_cached (1, demo_module) 2 (2, other_module) 0 (replicate 64 None, []) = Some (b, st')
    \<and> cache_sound demo_store (fst st')"
proof -
  have "cache_sound demo_store (fst (replicate 64 None, []))" by (simp add: cache_sound_def)
  from subtype_cache_transparent [OF demo_store_ok _ _ _ _ this, of "(1, demo_module)" "(2, other_module)" 2 0] demo_types
  show ?thesis by (auto simp: in_store_def demo_store_def)
qed

end
