(* ===== verification/Wah_Pins.thy ===== *)
theory Wah_Pins
  imports Wah_GC_Collect Wah_Cross
begin

text \<open>
  References that the host keeps: a table of slots with a free list through them, and references that name a slot and
  its generation, which changes on every release. The operations work on the table of a context, \<open>None\<close> if it has none
  yet; the values of host parameters and results go through them.
\<close>

section \<open>The table of pinned references\<close>

abbreviation (input) "WAH_PIN_TAG \<equiv> 2 :: u64"
abbreviation (input) "WAH_PIN_SLOT_BITS \<equiv> 32 :: nat"
abbreviation (input) "WAH_PIN_GEN_MASK \<equiv> 2 ^ 30 - 1 :: u32"

definition wah_pinned_slot :: "wah_pin_table option \<Rightarrow> u64 \<Rightarrow> nat option" where
  "wah_pinned_slot pins pinned_ref = (case pins of None \<Rightarrow> None
    | Some pt \<Rightarrow>
        if pinned_ref AND 3 \<noteq> WAH_PIN_TAG then None
        else
          let bits = drop_bit 2 pinned_ref; slot = take_bit WAH_PIN_SLOT_BITS bits; generation = drop_bit WAH_PIN_SLOT_BITS bits in
          if unat slot \<ge> length (pt_slots pt) then None
          else let s = pt_slots pt ! unat slot in
            if value_ref (ps_value s) \<noteq> 0 \<and> ucast (ps_generation s) = generation then Some (unat slot) else None)"

definition wah_host_object_accepts :: "wah_type \<Rightarrow> bool" where
  "wah_host_object_accepts t \<longleftrightarrow> WAH_TYPE_AS_NON_NULL t = WAH_TYPE_EXTERN \<or> WAH_TYPE_AS_NON_NULL t = WAH_TYPE_ANY"

definition wah_pin_accepts :: "bool list \<Rightarrow> wah_pin_slot \<Rightarrow> module_ref \<Rightarrow> wah_type \<Rightarrow> bool option" where
  "wah_pin_accepts grants s m t = (case ps_module s of
      None \<Rightarrow> Some (wah_host_object_accepts t)
    | Some sm \<Rightarrow> wah_cross_module_subtype grants sm (ps_type s) m t)"

text \<open>
  Whether the table, if there is none, can be allocated, and the result of growing the array of slots are arguments. The
  array holds at most \<open>UINT32_MAX\<close> slots.
\<close>

definition pin_reference :: "nat \<Rightarrow> u32 \<Rightarrow> u64" where
  "pin_reference slot generation = push_bit 2 (push_bit WAH_PIN_SLOT_BITS (ucast generation) OR of_nat slot) OR WAH_PIN_TAG"

definition wah_pin ::
  "bool \<Rightarrow> unit res \<Rightarrow> wah_value \<Rightarrow> module_ref option \<Rightarrow> wah_type \<Rightarrow> wah_pin_table option \<Rightarrow> u64 res \<times> wah_pin_table option" where
  "wah_pin table_ok grown v m t pins =
    (let pt = (case pins of Some pt \<Rightarrow> pt | None \<Rightarrow> \<lparr> pt_slots = [], pt_free_head = 0 \<rparr>) in
     if pins = None \<and> \<not> table_ok then (Inl WAH_ERROR_OUT_OF_MEMORY, None)
     else if pt_free_head pt \<noteq> 0 then
       let slot = pt_free_head pt - 1; s = pt_slots pt ! slot in
       (Inr (pin_reference slot (ps_generation s)),
        Some \<lparr> pt_slots = (pt_slots pt)[slot := s\<lparr>ps_value := v, ps_module := m, ps_type := t, ps_next_free := 0\<rparr>],
               pt_free_head = ps_next_free s \<rparr>)
     else if length (pt_slots pt) \<ge> 2 ^ WAH_PIN_SLOT_BITS then (Inl WAH_ERROR_TOO_LARGE, Some pt)
     else if length (pt_slots pt) + 1 > UINT32_MAX then (Inl WAH_ERROR_TOO_LARGE, Some pt)
     else case grown of
       Inl e \<Rightarrow> (Inl e, Some pt)
     | Inr _ \<Rightarrow>
         (Inr (pin_reference (length (pt_slots pt)) 0),
          Some (pt\<lparr>pt_slots := pt_slots pt @ [\<lparr> ps_value = v, ps_module = m, ps_type = t, ps_generation = 0, ps_next_free = 0 \<rparr>]\<rparr>)))"

definition wah_unpin :: "u64 \<Rightarrow> wah_pin_table option \<Rightarrow> bool \<times> wah_pin_table option" where
  "wah_unpin pinned_ref pins =
    (if pinned_ref = 0 then (True, pins)
     else case wah_pinned_slot pins pinned_ref of None \<Rightarrow> (False, pins)
     | Some slot \<Rightarrow>
         let pt = the pins; s = pt_slots pt ! slot in
         (True, Some \<lparr> pt_slots = (pt_slots pt)[slot := s\<lparr>ps_value := 0, ps_generation := (ps_generation s + 1) AND WAH_PIN_GEN_MASK,
                                                          ps_next_free := pt_free_head pt\<rparr>],
                       pt_free_head = slot + 1 \<rparr>))"

section \<open>References from and to the host\<close>

definition load_host_param :: "bool list \<Rightarrow> wah_pin_table option \<Rightarrow> module_ref \<Rightarrow> wah_type \<Rightarrow> wah_value \<Rightarrow> wah_value res option" where
  "load_host_param grants pins m t v =
    (if WAH_TYPE_IS_REF t \<and> value_ref v = 0 \<and> \<not> WAH_TYPE_IS_NULLABLE t then Some (Inl WAH_ERROR_MISUSE)
     else if WAH_TYPE_IS_REF t \<and> value_ref v \<noteq> 0 then
       if value_ref v AND 1 \<noteq> 0 then Some (Inl WAH_ERROR_MISUSE)
       else if value_ref v AND 3 = WAH_PIN_TAG then
         (case wah_pinned_slot pins (value_ref v) of
            None \<Rightarrow> Some (Inl WAH_ERROR_MISUSE)
          | Some i \<Rightarrow> let s = pt_slots (the pins) ! i in
              map_option (\<lambda>ok. if ok then Inr (ps_value s) else Inl WAH_ERROR_MISUSE) (wah_pin_accepts grants s m t))
       else Some (if wah_host_object_accepts t then Inr v else Inl WAH_ERROR_MISUSE)
     else Some (Inr v))"

fun wah_load_host_params ::
  "(nat \<Rightarrow> bool list) \<Rightarrow> wah_pin_table option \<Rightarrow> module_ref \<Rightarrow> wah_type list \<Rightarrow> wah_value list \<Rightarrow> wah_value list res option" where
  "wah_load_host_params answers pins m (t # ts) (v # vs) =
    (case load_host_param (answers 0) pins m t v of
       None \<Rightarrow> None
     | Some (Inl e) \<Rightarrow> Some (Inl e)
     | Some (Inr x) \<Rightarrow> map_option (map_sum id ((#) x)) (wah_load_host_params (\<lambda>i. answers (i + 1)) pins m ts vs))"
| "wah_load_host_params answers pins m _ _ = Some (Inr [])"

definition wah_sanitize_host_ref :: "objects \<Rightarrow> u64 \<Rightarrow> u64 option" where
  "wah_sanitize_host_ref objs ref =
    (if ref = 0 then Some ref
     else if wah_ref_is_i31 ref then Some (- 1)
     else map_option (\<lambda>ob. if go_repr_id ob \<noteq> WAH_REPR_HOST then - 1 else ref) (objs (wah_gc_header ref)))"

definition wah_pin_ref :: "bool \<Rightarrow> unit res \<Rightarrow> objects \<Rightarrow> u64 \<Rightarrow> wah_pin_table option \<Rightarrow> (u64 res \<times> wah_pin_table option) option" where
  "wah_pin_ref table_ok grown objs host_ref pins =
    (if host_ref = 0 then Some (Inr 0, pins)
     else if host_ref AND 3 \<noteq> 0 then Some (Inl WAH_ERROR_MISUSE, pins)
     else map_option (\<lambda>ob. if go_repr_id ob \<noteq> WAH_REPR_HOST then (Inl WAH_ERROR_MISUSE, pins)
       else wah_pin table_ok grown (ucast host_ref) None WAH_TYPE_ANY pins) (objs (wah_gc_header host_ref)))"

definition wah_unpin_ref :: "u64 \<Rightarrow> wah_pin_table option \<Rightarrow> unit res \<times> wah_pin_table option" where
  "wah_unpin_ref pinned_ref pins = (case wah_unpin pinned_ref pins of (ok, pins) \<Rightarrow> (if ok then Inr () else Inl WAH_ERROR_MISUSE, pins))"

text \<open>The reference stored as a result of a host function, or \<open>WAH_ERROR_MISUSE\<close>, with which the call traps.\<close>

definition wah_result_ref :: "bool list \<Rightarrow> wah_pin_table option \<Rightarrow> module_ref \<Rightarrow> wah_type \<Rightarrow> u64 \<Rightarrow> u64 res option" where
  "wah_result_ref grants pins m t v =
    (if v AND 1 \<noteq> 0 then Some (Inl WAH_ERROR_MISUSE)
     else if v AND 3 = WAH_PIN_TAG then
       (case wah_pinned_slot pins v of
          None \<Rightarrow> Some (Inl WAH_ERROR_MISUSE)
        | Some i \<Rightarrow> let s = pt_slots (the pins) ! i in
            map_option (\<lambda>ok. if ok then Inr (value_ref (ps_value s)) else Inl WAH_ERROR_MISUSE) (wah_pin_accepts grants s m t))
     else if v \<noteq> 0 \<and> \<not> wah_host_object_accepts t then Some (Inl WAH_ERROR_MISUSE)
     else Some (Inr v))"

section \<open>References name slots\<close>

lemma pin_bits:
  assumes "slot < 2 ^ 32" "generation < 2 ^ 30"
  shows "drop_bit 2 (pin_reference slot generation) = push_bit 32 (ucast generation) OR of_nat slot"
    "take_bit 32 (push_bit 32 (ucast generation) OR of_nat slot :: u64) = of_nat slot"
    "drop_bit 32 (push_bit 32 (ucast generation) OR of_nat slot :: u64) = ucast generation"
    "pin_reference slot generation AND 3 = 2"
proof -
  have gb: "n < 30" if "bit generation n" for n
    using that nat_bit_bound [of "unat generation" 30 n] assms(2) by (simp add: word_less_nat_alt bit_unsigned_iff)
  have sb: "n < 32" if "bit slot n" for n using that nat_bit_bound [OF assms(1)] by blast
  have s: "bit (of_nat slot :: u64) n \<longleftrightarrow> n < 32 \<and> bit slot n" for n
    using sb [of n] by (auto simp: bit_of_nat_iff)
  have g: "bit (ucast generation :: u64) n \<longleftrightarrow> n < 30 \<and> bit generation n" for n
    using gb [of n] by (auto simp: bit_unsigned_iff)
  show "drop_bit 2 (pin_reference slot generation) = push_bit 32 (ucast generation) OR of_nat slot"
    by (rule bit_eqI) (auto simp: pin_reference_def bit_simps s g dest: gb sb)
  show "take_bit 32 (push_bit 32 (ucast generation) OR of_nat slot :: u64) = of_nat slot"
    by (rule bit_eqI) (auto simp: bit_simps s g dest: gb sb)
  show "drop_bit 32 (push_bit 32 (ucast generation) OR of_nat slot :: u64) = ucast generation"
    by (rule bit_eqI) (auto simp: bit_simps s g dest: gb sb)
  show "pin_reference slot generation AND 3 = 2"
  proof (rule bit_eqI)
    fix n
    show "bit (pin_reference slot generation AND 3) n \<longleftrightarrow> bit (2 :: u64) n"
      unfolding pin_reference_def bit_and_iff bit_or_iff bit_push_bit_iff tag_bits by auto
  qed
qed

text \<open>A reference is valid if its slot is taken and of its generation.\<close>

definition slot_live :: "wah_pin_slot \<Rightarrow> bool" where
  "slot_live s \<longleftrightarrow> value_ref (ps_value s) \<noteq> 0"

lemma ucast_inj64: "(ucast (a :: u32) :: u64) = ucast b \<longleftrightarrow> a = b"
proof -
  have "(ucast (ucast x :: u64) :: u32) = x" for x :: u32 by (rule bit_word_eqI) (simp add: bit_unsigned_iff)
  then show ?thesis by metis
qed

lemma pinned_slot_reference:
  assumes "slot < 2 ^ 32" "generation < 2 ^ 30"
  shows "wah_pinned_slot (Some pt) (pin_reference slot generation) = Some i \<longleftrightarrow>
    i = slot \<and> slot < length (pt_slots pt) \<and> slot_live (pt_slots pt ! slot) \<and> ps_generation (pt_slots pt ! slot) = generation"
proof -
  have n: "unat (of_nat slot :: u64) = slot" using assms(1) by (simp add: unat_of_nat)
  have inj: "(ucast g :: u64) = ucast generation \<longleftrightarrow> g = generation" for g :: u32 by (rule ucast_inj64)
  show ?thesis unfolding wah_pinned_slot_def pin_bits [OF assms] Let_def by (auto simp: n inj slot_live_def pin_bits [OF assms])
qed

lemma pinned_slot_cases:
  assumes "wah_pinned_slot pins r = Some i"
  obtains pt where "pins = Some pt" "i < length (pt_slots pt)" "slot_live (pt_slots pt ! i)" "i < 2 ^ 32"
    "r AND 3 = 2" "unat (take_bit 32 (drop_bit 2 r)) = i" "ucast (ps_generation (pt_slots pt ! i)) = drop_bit 32 (drop_bit 2 r)"
proof -
  obtain pt where pt: "pins = Some pt" using assms by (cases pins) (auto simp: wah_pinned_slot_def)
  have "unat (take_bit 32 (drop_bit 2 r)) < 2 ^ 32" using take_bit_nat_less_exp [of 32 "unat (drop_bit 2 r)"] by (simp add: unsigned_take_bit_eq)
  then show thesis using assms pt by (intro that [OF pt]) (auto simp: wah_pinned_slot_def Let_def slot_live_def split: if_splits)
qed

lemma reference_of_slot:
  assumes "wah_pinned_slot (Some pt) r = Some i" "ps_generation (pt_slots pt ! i) < 2 ^ 30"
  shows "r = pin_reference i (ps_generation (pt_slots pt ! i))"
proof -
  from assms(1) have r: "r AND 3 = 2" "unat (take_bit 32 (drop_bit 2 r)) = i" "ucast (ps_generation (pt_slots pt ! i)) = drop_bit 32 (drop_bit 2 r)"
    by (auto elim: pinned_slot_cases)
  have low: "bit r n = bit (2 :: u64) n" if "n < 2" for n
    using that r(1) by (metis bit_and_iff tag_bits(3))
  have slot: "of_nat i = take_bit 32 (drop_bit 2 r)" using r(2) by (metis of_nat_unat ucast_id)
  have a: "bit (of_nat i :: u64) n \<longleftrightarrow> n < 32 \<and> bit r (n + 2)" for n unfolding slot by (simp add: bit_take_bit_iff bit_drop_bit_eq add.commute)
  have b: "bit (ucast (ps_generation (pt_slots pt ! i)) :: u64) n \<longleftrightarrow> bit r (n + 34)" for n
    unfolding r(3) by (simp add: bit_drop_bit_eq add.commute add.left_commute)
  show ?thesis
  proof (rule bit_word_eqI)
    fix n assume n: "n < LENGTH(64)"
    show "bit r n \<longleftrightarrow> bit (pin_reference i (ps_generation (pt_slots pt ! i))) n"
    proof (cases "n < 2")
      case True
      then show ?thesis using low n by (auto simp: pin_reference_def bit_or_iff bit_push_bit_iff)
    next
      case False
      then obtain k where k: "n = k + 2" by (metis add.commute le_Suc_ex not_less)
      have "bit (2 :: u64) n \<longleftrightarrow> False" unfolding tag_bits using False by simp
      moreover have "k - 32 + 34 = k + 2" if "\<not> k < 32" using that by simp
      ultimately show ?thesis using n a [of k] b [of "k - 32"] by (cases "k < 32") (auto simp: pin_reference_def bit_or_iff bit_push_bit_iff k)
    qed
  qed
qed

section \<open>Well-formed tables\<close>

text \<open>The free list goes through exactly the slots that are not taken.\<close>

fun free_list :: "wah_pin_slot list \<Rightarrow> nat \<Rightarrow> nat list \<Rightarrow> bool" where
  "free_list ss h [] \<longleftrightarrow> h = 0"
| "free_list ss h (i # is') \<longleftrightarrow> h = Suc i \<and> i < length ss \<and> free_list ss (ps_next_free (ss ! i)) is'"

definition pins_wf :: "wah_pin_table \<Rightarrow> bool" where
  "pins_wf pt \<longleftrightarrow> length (pt_slots pt) \<le> UINT32_MAX \<and> list_all (\<lambda>s. ps_generation s < 2 ^ 30) (pt_slots pt)
     \<and> (\<exists>xs. free_list (pt_slots pt) (pt_free_head pt) xs \<and> distinct xs \<and> set xs = {i. i < length (pt_slots pt) \<and> \<not> slot_live (pt_slots pt ! i)})"

lemma free_list_upd: "i \<notin> set xs \<Longrightarrow> free_list (ss[i := s]) h xs \<longleftrightarrow> free_list ss h xs"
  by (induction xs arbitrary: h) auto

lemma free_list_append: "set xs \<subseteq> {..<length ss} \<Longrightarrow> free_list (ss @ [s]) h xs \<longleftrightarrow> free_list ss h xs"
  by (induction xs arbitrary: h) (auto simp: nth_append)

lemma pins_wf_slot:
  assumes "pins_wf pt" "i < length (pt_slots pt)"
  shows "i < 2 ^ 32" "ps_generation (pt_slots pt ! i) < 2 ^ 30"
  using assms by (auto simp: pins_wf_def list_all_length)

text \<open>What a valid reference stands for.\<close>

definition pinned :: "wah_pin_table option \<Rightarrow> u64 \<Rightarrow> wah_pin_slot option" where
  "pinned pins r = map_option (\<lambda>i. pt_slots (the pins) ! i) (wah_pinned_slot pins r)"

definition pin_contents :: "wah_pin_slot \<Rightarrow> wah_value \<times> module_ref option \<times> wah_type" where
  "pin_contents s = (ps_value s, ps_module s, ps_type s)"

abbreviation pins_ok :: "wah_pin_table option \<Rightarrow> bool" where
  "pins_ok \<equiv> pred_option pins_wf"

text \<open>
  Taking slot \<open>i\<close>, which is free or the one after the last, for a reference of its generation: the reference becomes
  valid, all other references keep what they stand for.
\<close>

definition takes_slot :: "nat \<Rightarrow> u32 \<Rightarrow> wah_value \<times> module_ref option \<times> wah_type \<Rightarrow> wah_pin_table \<Rightarrow> wah_pin_table \<Rightarrow> bool" where
  "takes_slot i g x pt pt' \<longleftrightarrow> pins_wf pt' \<and> i < length (pt_slots pt') \<and> pin_contents (pt_slots pt' ! i) = x \<and> ps_generation (pt_slots pt' ! i) = g
     \<and> length (pt_slots pt) \<le> length (pt_slots pt') \<and> (i < length (pt_slots pt) \<longrightarrow> \<not> slot_live (pt_slots pt ! i) \<and> ps_generation (pt_slots pt ! i) = g)
     \<and> (\<forall>j < length (pt_slots pt'). j \<noteq> i \<longrightarrow> j < length (pt_slots pt) \<and> pt_slots pt' ! j = pt_slots pt ! j)"

lemma pin_takes_slot:
  assumes wf: "pins_wf pt" and live: "value_ref v \<noteq> 0" and r: "wah_pin table_ok grown v m t (Some pt) = (Inr r, pins')"
  shows "\<exists>i g pt'. r = pin_reference i g \<and> pins' = Some pt' \<and> takes_slot i g (v, m, t) pt pt'"
proof -
  let ?ss = "pt_slots pt"
  obtain xs where xs: "free_list ?ss (pt_free_head pt) xs" "distinct xs" "set xs = {i. i < length ?ss \<and> \<not> slot_live (?ss ! i)}"
    using wf by (auto simp: pins_wf_def)
  show ?thesis
  proof (cases "pt_free_head pt")
    case 0
    let ?s = "\<lparr> ps_value = v, ps_module = m, ps_type = t, ps_generation = 0, ps_next_free = 0 \<rparr>"
    let ?pt = "pt\<lparr>pt_slots := ?ss @ [?s]\<rparr>"
    have p: "r = pin_reference (length ?ss) 0" "pins' = Some ?pt" "length ?ss + 1 \<le> UINT32_MAX"
      using r 0 by (auto simp: wah_pin_def Let_def split: if_splits sum.splits)
    have nil: "xs = []" using xs(1) 0 by (cases xs) auto
    have "free_list (?ss @ [?s]) (pt_free_head pt) []" using 0 by simp
    moreover have "{i. i < length (?ss @ [?s]) \<and> \<not> slot_live ((?ss @ [?s]) ! i)} = {}"
      using xs(3) nil live by (auto simp: nth_append slot_live_def less_Suc_eq)
    ultimately have "pins_wf ?pt" using wf p(3) unfolding pins_wf_def by (auto intro!: exI [of _ "[]"])
    then have "takes_slot (length ?ss) 0 (v, m, t) pt ?pt" by (auto simp: takes_slot_def pin_contents_def nth_append)
    then show ?thesis using p by blast
  next
    case (Suc i)
    then obtain ys where ys: "xs = i # ys" "i < length ?ss" "free_list ?ss (ps_next_free (?ss ! i)) ys" using xs(1) by (cases xs) auto
    let ?s = "(?ss ! i)\<lparr>ps_value := v, ps_module := m, ps_type := t, ps_next_free := 0\<rparr>"
    let ?pt = "\<lparr> pt_slots = ?ss[i := ?s], pt_free_head = ps_next_free (?ss ! i) \<rparr>"
    have p: "r = pin_reference i (ps_generation (?ss ! i))" "pins' = Some ?pt" using r Suc by (auto simp: wah_pin_def Let_def)
    have free: "free_list (?ss[i := ?s]) (ps_next_free (?ss ! i)) ys" using ys xs(2) by (simp add: free_list_upd)
    have set: "set ys = {j. j < length (?ss[i := ?s]) \<and> \<not> slot_live (?ss[i := ?s] ! j)}"
    proof -
      have "slot_live ?s" using live by (simp add: slot_live_def)
      moreover have "set ys = set xs - {i}" using ys xs(2) by auto
      ultimately show ?thesis using xs(3) ys(2) by (auto simp: nth_list_update)
    qed
    have "pins_wf ?pt" using wf free set xs(2) ys(1,2) unfolding pins_wf_def
      by (auto simp: list_all_length nth_list_update)
    moreover have "\<not> slot_live (?ss ! i)" using xs(3) ys(1) by auto
    ultimately have "takes_slot i (ps_generation (?ss ! i)) (v, m, t) pt ?pt" using ys(2) by (auto simp: takes_slot_def pin_contents_def)
    then show ?thesis using p by blast
  qed
qed

lemma pinned_slot_None_iff:
  assumes wf: "pins_wf pt"
  shows "wah_pinned_slot (Some pt) r = Some i \<longleftrightarrow> i < length (pt_slots pt) \<and> slot_live (pt_slots pt ! i) \<and> r = pin_reference i (ps_generation (pt_slots pt ! i))"
proof
  assume r: "wah_pinned_slot (Some pt) r = Some i"
  then have i: "i < length (pt_slots pt)" "slot_live (pt_slots pt ! i)" by (auto elim: pinned_slot_cases)
  then show "i < length (pt_slots pt) \<and> slot_live (pt_slots pt ! i) \<and> r = pin_reference i (ps_generation (pt_slots pt ! i))"
    using reference_of_slot [OF r] pins_wf_slot [OF wf] by simp
next
  assume i: "i < length (pt_slots pt) \<and> slot_live (pt_slots pt ! i) \<and> r = pin_reference i (ps_generation (pt_slots pt ! i))"
  then show "wah_pinned_slot (Some pt) r = Some i"
    using pins_wf_slot [OF wf] pinned_slot_reference [of i "ps_generation (pt_slots pt ! i)" pt i] by simp
qed

lemma reference_inj:
  assumes "pin_reference i g = pin_reference j h" "i < 2 ^ 32" "j < 2 ^ 32" "g < 2 ^ 30" "h < 2 ^ 30"
  shows "i = j \<and> g = h"
proof -
  note p = pin_bits [OF assms(2,4)] and q = pin_bits [OF assms(3,5)]
  have eq: "push_bit 32 (ucast g) OR of_nat i = (push_bit 32 (ucast h) OR of_nat j :: u64)" using p(1) q(1) assms(1) by simp
  have "(of_nat i :: u64) = of_nat j" using p(2) q(2) eq by simp
  moreover have "unat (of_nat i :: u64) = i" "unat (of_nat j :: u64) = j" using assms(2,3) by (simp_all add: unat_of_nat)
  moreover have "(ucast g :: u64) = ucast h" using p(3) q(3) eq by simp
  ultimately show ?thesis using ucast_inj64 by metis
qed

text \<open>The contract of pinning and releasing in terms of valid references.\<close>

lemma takes_slot_pinned:
  assumes wf: "pins_wf pt" and t: "takes_slot i g x pt pt'" and live: "value_ref (fst x) \<noteq> 0"
  defines "r \<equiv> pin_reference i g"
  shows "map_option pin_contents (pinned (Some pt') r) = Some x" "pinned (Some pt) r = None"
    "r' \<noteq> r \<Longrightarrow> pinned (Some pt') r' = pinned (Some pt) r'"
proof -
  have wf': "pins_wf pt'" and i: "i < length (pt_slots pt')" "pin_contents (pt_slots pt' ! i) = x" "ps_generation (pt_slots pt' ! i) = g"
    and old: "i < length (pt_slots pt) \<longrightarrow> \<not> slot_live (pt_slots pt ! i) \<and> ps_generation (pt_slots pt ! i) = g"
      "length (pt_slots pt) \<le> length (pt_slots pt')"
      "\<And>j. j < length (pt_slots pt') \<Longrightarrow> j \<noteq> i \<Longrightarrow> j < length (pt_slots pt) \<and> pt_slots pt' ! j = pt_slots pt ! j"
    using t by (auto simp: takes_slot_def)
  have live_i: "slot_live (pt_slots pt' ! i)" using i(2) live by (auto simp: slot_live_def pin_contents_def)
  have rng: "i < 2 ^ 32" "g < 2 ^ 30" using pins_wf_slot [OF wf' i(1)] i(3) by simp_all
  have "wah_pinned_slot (Some pt') r = Some i" using i live_i by (simp add: pinned_slot_None_iff [OF wf'] r_def)
  then show "map_option pin_contents (pinned (Some pt') r) = Some x" using i(2) by (simp add: pinned_def)
  have "wah_pinned_slot (Some pt) r \<noteq> Some j" for j
    using old(1) reference_inj [of i g j "ps_generation (pt_slots pt ! j)"] rng pins_wf_slot [OF wf, of j]
    by (auto simp: pinned_slot_None_iff [OF wf] r_def)
  then have "wah_pinned_slot (Some pt) r = None" by (metis option.exhaust)
  then show "pinned (Some pt) r = None" by (simp add: pinned_def)
  assume r': "r' \<noteq> r"
  have same: "wah_pinned_slot (Some pt') r' = Some j \<longleftrightarrow> wah_pinned_slot (Some pt) r' = Some j" for j
  proof (cases "j = i")
    case True
    then show ?thesis using r' old(1) i(3) by (auto simp: pinned_slot_None_iff [OF wf] pinned_slot_None_iff [OF wf'] r_def)
  next
    case False
    then show ?thesis using old(2) old(3) [of j] by (auto simp: pinned_slot_None_iff [OF wf] pinned_slot_None_iff [OF wf'] order.strict_trans2)
  qed
  show "pinned (Some pt') r' = pinned (Some pt) r'"
  proof (cases "wah_pinned_slot (Some pt) r'")
    case (Some j)
    then have "j < length (pt_slots pt)" "slot_live (pt_slots pt ! j)" by (simp_all add: pinned_slot_None_iff [OF wf])
    then have "pt_slots pt' ! j = pt_slots pt ! j" using old by (cases "j = i") auto
    then show ?thesis using Some same by (simp add: pinned_def)
  next
    case None
    then have "wah_pinned_slot (Some pt') r' = None" using same by (metis option.exhaust)
    then show ?thesis using None by (simp add: pinned_def)
  qed
qed

lemma unpin_releases:
  assumes wf: "pins_wf pt" and r: "wah_pinned_slot (Some pt) r = Some i"
  shows "\<exists>pt'. wah_unpin r (Some pt) = (True, Some pt') \<and> pins_wf pt' \<and> length (pt_slots pt') = length (pt_slots pt)
    \<and> \<not> slot_live (pt_slots pt' ! i) \<and> unat (ps_generation (pt_slots pt' ! i)) = (unat (ps_generation (pt_slots pt ! i)) + 1) mod 2 ^ 30
    \<and> (\<forall>j. j \<noteq> i \<longrightarrow> pt_slots pt' ! j = pt_slots pt ! j)"
proof -
  let ?ss = "pt_slots pt"
  have i: "i < length ?ss" "slot_live (?ss ! i)" "r \<noteq> 0" using r by (auto elim: pinned_slot_cases)
  let ?s = "(?ss ! i)\<lparr>ps_value := 0, ps_generation := (ps_generation (?ss ! i) + 1) AND WAH_PIN_GEN_MASK, ps_next_free := pt_free_head pt\<rparr>"
  let ?pt = "\<lparr> pt_slots = ?ss[i := ?s], pt_free_head = Suc i \<rparr>"
  have run: "wah_unpin r (Some pt) = (True, Some ?pt)" using i(3) r by (simp add: wah_unpin_def Let_def)
  have mask: "x AND WAH_PIN_GEN_MASK = take_bit 30 x" for x :: u32 by (simp only: take_bit_eq_mask mask_eq_exp_minus_1)
  have "unat (ps_generation (?ss ! i)) < 2 ^ 30" using pins_wf_slot(2) [OF wf i(1)] by (simp add: word_less_nat_alt)
  then have suc: "unat (ps_generation (?ss ! i) + 1) = unat (ps_generation (?ss ! i)) + 1" by (simp add: unat_word_ariths)
  have gen: "unat (ps_generation ?s) = (unat (ps_generation (?ss ! i)) + 1) mod 2 ^ 30"
  proof -
    have "ps_generation ?s = take_bit 30 (ps_generation (?ss ! i) + 1)" unfolding mask [symmetric] by simp
    then show ?thesis by (simp only: unsigned_take_bit_eq suc) (simp add: take_bit_eq_mod)
  qed
  then have small: "ps_generation ?s < 2 ^ 30" by (simp add: word_less_nat_alt)
  obtain xs where xs: "free_list ?ss (pt_free_head pt) xs" "distinct xs" "set xs = {i. i < length ?ss \<and> \<not> slot_live (?ss ! i)}"
    using wf by (auto simp: pins_wf_def)
  have new: "i \<notin> set xs" using xs(3) i(2) by simp
  have dead: "\<not> slot_live ?s" by (simp add: slot_live_def value_ref_def)
  have "free_list (?ss[i := ?s]) (Suc i) (i # xs)" using xs(1) i(1) new by (simp add: free_list_upd)
  moreover have "set (i # xs) = {j. j < length (?ss[i := ?s]) \<and> \<not> slot_live (?ss[i := ?s] ! j)}"
    using xs(3) i(1) dead by (auto simp: nth_list_update)
  moreover have "list_all (\<lambda>s. ps_generation s < 2 ^ 30) (?ss[i := ?s])"
    using wf small set_update_subset_insert [of ?ss i ?s] unfolding pins_wf_def list_all_iff by blast
  moreover have "distinct (i # xs)" "length (?ss[i := ?s]) \<le> UINT32_MAX" using xs(2) new wf by (simp_all add: pins_wf_def)
  ultimately have "pins_wf ?pt" unfolding pins_wf_def wah_pin_table.select_convs by blast
  then show ?thesis using run i(1) dead gen by auto
qed

lemma unpin_pinned:
  assumes wf: "pins_wf pt" and r: "pinned (Some pt) r \<noteq> None"
  shows "\<exists>pt'. wah_unpin r (Some pt) = (True, Some pt') \<and> pins_wf pt' \<and> pinned (Some pt') r = None
    \<and> (\<forall>r'. r' \<noteq> r \<longrightarrow> pinned (Some pt') r' = pinned (Some pt) r')"
proof -
  obtain i where i: "wah_pinned_slot (Some pt) r = Some i" using r by (auto simp: pinned_def)
  have ri: "r = pin_reference i (ps_generation (pt_slots pt ! i))" "i < length (pt_slots pt)" using i by (simp_all add: pinned_slot_None_iff [OF wf])
  from unpin_releases [OF wf i] obtain pt' where pt': "wah_unpin r (Some pt) = (True, Some pt')" "pins_wf pt'"
    "length (pt_slots pt') = length (pt_slots pt)" "\<not> slot_live (pt_slots pt' ! i)" "\<forall>j. j \<noteq> i \<longrightarrow> pt_slots pt' ! j = pt_slots pt ! j" by blast
  have same: "wah_pinned_slot (Some pt') r' = Some j \<longleftrightarrow> r' \<noteq> r \<and> wah_pinned_slot (Some pt) r' = Some j" for r' j
  proof (cases "j = i")
    case True
    then show ?thesis using pt'(4) ri by (auto simp: pinned_slot_None_iff [OF wf] pinned_slot_None_iff [OF pt'(2)])
  next
    case False
    then have "r' \<noteq> r" if "wah_pinned_slot (Some pt) r' = Some j" using that i by auto
    then show ?thesis using False pt'(3,5) by (auto simp: pinned_slot_None_iff [OF wf] pinned_slot_None_iff [OF pt'(2)])
  qed
  have "wah_pinned_slot (Some pt') r = None" using same [of r] by (metis option.exhaust)
  moreover have "pinned (Some pt') r' = pinned (Some pt) r'" if "r' \<noteq> r" for r'
  proof (cases "wah_pinned_slot (Some pt) r'")
    case None
    then have "wah_pinned_slot (Some pt') r' = None" using same [of r'] by (metis option.exhaust option.simps(3))
    then show ?thesis using None by (simp add: pinned_def)
  next
    case (Some j)
    then have "j \<noteq> i" using that ri by (auto simp: pinned_slot_None_iff [OF wf])
    then show ?thesis using Some same [of r' j] that pt'(5) by (simp add: pinned_def)
  qed
  ultimately show ?thesis using pt'(1,2) by (auto simp: pinned_def)
qed

section \<open>Runs of a host\<close>

text \<open>Sequences of attempts to pin and to release, with the number of the latter.\<close>

inductive pin_run :: "wah_pin_table \<Rightarrow> nat \<Rightarrow> wah_pin_table \<Rightarrow> bool" for pt where
  start: "pin_run pt 0 pt"
| pin: "pin_run pt n p \<Longrightarrow> value_ref v \<noteq> 0 \<Longrightarrow> wah_pin table_ok grown v m t (Some p) = (res, Some p') \<Longrightarrow> pin_run pt n p'"
| unpin: "pin_run pt n p \<Longrightarrow> wah_unpin r (Some p) = (ok, Some p') \<Longrightarrow> pin_run pt (Suc n) p'"

lemma pin_failed: "wah_pin table_ok grown v m t (Some p) = (Inl e, pins') \<Longrightarrow> pins' = Some p"
  by (auto simp: wah_pin_def Let_def split: if_splits sum.splits)

lemma pin_run_generation:
  assumes "pin_run pt n pt'" "pins_wf pt" "i < length (pt_slots pt)"
  shows "pins_wf pt' \<and> i < length (pt_slots pt')
    \<and> (\<exists>k \<le> n. unat (ps_generation (pt_slots pt' ! i)) = (unat (ps_generation (pt_slots pt ! i)) + k) mod 2 ^ 30)"
  using assms
proof (induction rule: pin_run.induct)
  case start
  then show ?case using pins_wf_slot(2) by (auto simp: word_less_nat_alt intro!: exI [of _ 0])
next
  case (pin n p v table_ok grown m t res p')
  show ?case
  proof (cases res)
    case (Inl e)
    then show ?thesis using pin pin_failed by blast
  next
    case (Inr r)
    from pin_takes_slot [OF _ pin.hyps(2), of p table_ok grown m t r "Some p'"] pin Inr obtain j g where "takes_slot j g (v, m, t) p p'" by auto
    then have "pins_wf p'" "length (pt_slots p) \<le> length (pt_slots p')" "ps_generation (pt_slots p' ! i) = ps_generation (pt_slots p ! i)"
      using pin.IH [OF pin.prems] unfolding takes_slot_def by (metis order.strict_trans2)+
    then show ?thesis using pin.IH [OF pin.prems] by auto
  qed
next
  case (unpin n p r ok p')
  from unpin.IH [OF unpin.prems] obtain k where k: "pins_wf p" "i < length (pt_slots p)" "k \<le> n"
    "unat (ps_generation (pt_slots p ! i)) = (unat (ps_generation (pt_slots pt ! i)) + k) mod 2 ^ 30" by blast
  show ?case
  proof (cases "r = 0 \<or> wah_pinned_slot (Some p) r = None")
    case True
    then have "p' = p" using unpin.hyps(2) by (auto simp: wah_unpin_def split: if_splits)
    then show ?thesis using k by (metis le_SucI)
  next
    case False
    then obtain j where "wah_pinned_slot (Some p) r = Some j" by auto
    from unpin_releases [OF k(1) this] unpin.hyps(2) have p': "pins_wf p'" "length (pt_slots p') = length (pt_slots p)"
      "unat (ps_generation (pt_slots p' ! j)) = (unat (ps_generation (pt_slots p ! j)) + 1) mod 2 ^ 30"
      "\<forall>l. l \<noteq> j \<longrightarrow> pt_slots p' ! l = pt_slots p ! l" by auto
    show ?thesis
    proof (cases "i = j")
      case True
      have "unat (ps_generation (pt_slots p' ! i)) = (unat (ps_generation (pt_slots pt ! i)) + Suc k) mod 2 ^ 30"
        using p'(3) k(4) True by (simp add: mod_Suc_eq)
      then show ?thesis using p' k by (metis Suc_le_mono)
    next
      case False
      then show ?thesis using p' k by (metis le_SucI)
    qed
  qed
qed

section \<open>Host parameters\<close>

lemma map_sum_Inr: "map_sum f g z = Inr y \<longleftrightarrow> (\<exists>x. z = Inr x \<and> y = g x)"
  by (cases z) auto

lemma load_params_length: "wah_load_host_params answers pins m ts vs = Some (Inr xs) \<Longrightarrow> length ts = length vs \<Longrightarrow> length xs = length vs"
  by (induction answers pins m ts vs arbitrary: xs rule: wah_load_host_params.induct) (auto split: option.splits sum.splits simp: map_sum_Inr)

lemma load_params_nth:
  "wah_load_host_params answers pins m ts vs = Some (Inr xs) \<Longrightarrow> length ts = length vs \<Longrightarrow> i < length ts \<Longrightarrow>
    load_host_param (answers i) pins m (ts ! i) (vs ! i) = Some (Inr (xs ! i))"
proof (induction answers pins m ts vs arbitrary: xs i rule: wah_load_host_params.induct)
  case (1 answers pins m t ts v vs)
  then obtain x ys where x: "load_host_param (answers 0) pins m t v = Some (Inr x)"
    "wah_load_host_params (\<lambda>i. answers (i + 1)) pins m ts vs = Some (Inr ys)" "xs = x # ys"
    by (auto split: option.splits sum.splits simp: map_sum_Inr)
  show ?case
  proof (cases i)
    case (Suc j)
    then show ?thesis using 1 x by simp
  qed (use x in simp)
qed simp_all

lemma pin_accepts_sound:
  assumes "wah_pin_accepts grants s m t = Some True" "type_in (snd m) t"
    "pred_option (\<lambda>sm. modules_ok sm m \<and> type_in (snd sm) (ps_type s)) (ps_module s)"
  shows "case ps_module s of None \<Rightarrow> wah_host_object_accepts t | Some sm \<Rightarrow> cross_subtype sm (ps_type s) m t"
proof (cases "ps_module s")
  case None
  then show ?thesis using assms(1) by (simp add: wah_pin_accepts_def)
next
  case (Some sm)
  then have "wah_cross_module_subtype grants sm (ps_type s) m t = Some True" "modules_ok sm m" "type_in (snd sm) (ps_type s)"
    using assms by (simp_all add: wah_pin_accepts_def)
  then have "cross_subtype sm (ps_type s) m t"
    using cross_subtype_ok [of sm m "ps_type s" t] assms(2) unfolding check_between_def wah_cross_module_subtype_def
    by (metis (no_types, lifting) fst_conv option.inject option.map(2))
  then show ?thesis by (simp add: Some)
qed

lemma load_param_safe:
  assumes load: "load_host_param grants pins m t v = Some (Inr x)" and ref: "WAH_TYPE_IS_REF t"
    and mods: "pred_option (\<lambda>pt. \<forall>s \<in> set (pt_slots pt). pred_option (\<lambda>sm. modules_ok sm m \<and> type_in (snd sm) (ps_type s)) (ps_module s)) pins"
    and t: "type_in (snd m) t"
  shows "if value_ref v = 0 then WAH_TYPE_IS_NULLABLE t \<and> x = v
     else value_ref v AND 1 = 0
       \<and> (if value_ref v AND 3 = 2
          then \<exists>s. pinned pins (value_ref v) = Some s \<and> x = ps_value s
            \<and> (case ps_module s of None \<Rightarrow> wah_host_object_accepts t | Some sm \<Rightarrow> cross_subtype sm (ps_type s) m t)
          else wah_host_object_accepts t \<and> x = v)"
proof (cases "value_ref v \<noteq> 0 \<and> value_ref v AND 1 = 0 \<and> value_ref v AND 3 = 2")
  case True
  then obtain i where i: "wah_pinned_slot pins (value_ref v) = Some i" "wah_pin_accepts grants (pt_slots (the pins) ! i) m t = Some True"
    "x = ps_value (pt_slots (the pins) ! i)"
    using load ref by (auto simp: load_host_param_def Let_def split: option.splits if_splits)
  obtain pt where "pins = Some pt" "i < length (pt_slots pt)" using i(1) by (auto elim: pinned_slot_cases)
  then have "pred_option (\<lambda>sm. modules_ok sm m \<and> type_in (snd sm) (ps_type (pt_slots (the pins) ! i))) (ps_module (pt_slots (the pins) ! i))"
    using mods nth_mem by simp
  then show ?thesis using True i pin_accepts_sound [OF i(2) t] by (simp add: pinned_def)
next
  case False
  then show ?thesis using load ref by (auto simp: load_host_param_def split: if_splits)
qed

section \<open>Properties\<close>

text \<open>C39: pinning a reference gives a new reference that stands for it, with its module and type, until it is released; no
  other pinned reference changes its meaning, and an attempt that fails changes none.\<close>

theorem pin_keeps_references:
  assumes "pins_wf pt" "value_ref v \<noteq> 0" "wah_pin table_ok grown v m t (Some pt) = (res, pins')"
  shows "case res of
      Inl e \<Rightarrow> pins' = Some pt
    | Inr r \<Rightarrow> pins_ok pins' \<and> pinned (Some pt) r = None \<and> map_option pin_contents (pinned pins' r) = Some (v, m, t)
        \<and> (\<forall>r'. r' \<noteq> r \<longrightarrow> pinned pins' r' = pinned (Some pt) r')"
proof (cases res)
  case (Inl e)
  then show ?thesis using assms(3) pin_failed by simp
next
  case (Inr r)
  with pin_takes_slot [OF assms(1,2)] assms(3) obtain i g pt' where
    p: "r = pin_reference i g" "pins' = Some pt'" "takes_slot i g (v, m, t) pt pt'" by blast
  have "pins_wf pt'" using p(3) by (simp add: takes_slot_def)
  then show ?thesis using takes_slot_pinned [OF assms(1) p(3)] assms(2) p Inr by simp
qed

text \<open>C12: a released reference is no longer valid, releasing changes no other reference, and the released one stays invalid
  through any sequence of fewer than \<open>2 ^ 30 - 1\<close> further releases and any number of pins.\<close>

theorem released_reference_stale:
  assumes "pins_wf pt" "pinned (Some pt) r \<noteq> None"
  shows "\<exists>pt'. wah_unpin r (Some pt) = (True, Some pt') \<and> pins_wf pt'
    \<and> (\<forall>r'. r' \<noteq> r \<longrightarrow> pinned (Some pt') r' = pinned (Some pt) r')
    \<and> (\<forall>n p. pin_run pt' n p \<longrightarrow> n < 2 ^ 30 - 1 \<longrightarrow> pinned (Some p) r = None)"
proof -
  obtain i where i: "wah_pinned_slot (Some pt) r = Some i" using assms(2) by (auto simp: pinned_def)
  have ri: "r = pin_reference i (ps_generation (pt_slots pt ! i))" "i < length (pt_slots pt)"
    using i by (simp_all add: pinned_slot_None_iff [OF assms(1)])
  from unpin_releases [OF assms(1) i] obtain pt' where pt': "wah_unpin r (Some pt) = (True, Some pt')" "pins_wf pt'"
    "length (pt_slots pt') = length (pt_slots pt)"
    "unat (ps_generation (pt_slots pt' ! i)) = (unat (ps_generation (pt_slots pt ! i)) + 1) mod 2 ^ 30" by blast
  have "pinned (Some p) r = None" if run: "pin_run pt' n p" "n < 2 ^ 30 - 1" for n p
  proof -
    let ?g = "unat (ps_generation (pt_slots pt ! i))"
    obtain k where k: "k \<le> n" "pins_wf p" "unat (ps_generation (pt_slots p ! i)) = ((?g + 1) mod 2 ^ 30 + k) mod 2 ^ 30"
      using pin_run_generation [OF run(1) pt'(2), of i] ri(2) pt'(3,4) by auto
    then have gen: "unat (ps_generation (pt_slots p ! i)) = (?g + (k + 1)) mod 2 ^ 30" by (simp add: mod_simps)
    have g: "?g < 2 ^ 30" using pins_wf_slot(2) [OF assms(1) ri(2)] by (simp add: word_less_nat_alt)
    have "(a + b) mod 2 ^ 30 \<noteq> a" if "a < 2 ^ 30" "0 < b" "b < 2 ^ 30" for a b :: nat
      using that by (cases "a + b < 2 ^ 30") (auto simp: mod_if)
    then have ne: "ps_generation (pt_slots p ! i) \<noteq> ps_generation (pt_slots pt ! i)" using gen g k(1) run(2) by (metis add_gr_0 less_diff_conv order_le_less_trans zero_less_one)
    have "wah_pinned_slot (Some p) r \<noteq> Some j" for j
    proof
      assume "wah_pinned_slot (Some p) r = Some j"
      then have j: "j < length (pt_slots p)" "r = pin_reference j (ps_generation (pt_slots p ! j))" by (simp_all add: pinned_slot_None_iff [OF k(2)])
      have "i = j \<and> ps_generation (pt_slots pt ! i) = ps_generation (pt_slots p ! j)"
        using ri j pins_wf_slot [OF assms(1) ri(2)] pins_wf_slot [OF k(2) j(1)] by (intro reference_inj) simp_all
      then show False using ne by auto
    qed
    then have "wah_pinned_slot (Some p) r = None" by (metis option.exhaust)
    then show ?thesis by (simp add: pinned_def)
  qed
  then show ?thesis using unpin_pinned [OF assms] pt' by auto
qed

text \<open>C13: parameters given by the host are accepted only if they are safe: a reference parameter is null where the type
  allows it, a host object where the type takes one, or a currently pinned reference whose type is a subtype; the value stored is then
  the pinned one. Other parameters pass unchanged.\<close>

theorem host_params_safe:
  assumes "wah_load_host_params answers pins m ts vs = Some (Inr xs)" "length ts = length vs" "i < length ts" "WAH_TYPE_IS_REF (ts ! i)"
    "pred_option (\<lambda>pt. \<forall>s \<in> set (pt_slots pt). pred_option (\<lambda>sm. modules_ok sm m \<and> type_in (snd sm) (ps_type s)) (ps_module s)) pins"
    "type_in (snd m) (ts ! i)"
  shows "length xs = length vs \<and>
    (if value_ref (vs ! i) = 0 then WAH_TYPE_IS_NULLABLE (ts ! i) \<and> xs ! i = vs ! i
     else value_ref (vs ! i) AND 1 = 0
       \<and> (if value_ref (vs ! i) AND 3 = 2
          then \<exists>s. pinned pins (value_ref (vs ! i)) = Some s \<and> xs ! i = ps_value s
            \<and> (case ps_module s of None \<Rightarrow> wah_host_object_accepts (ts ! i) | Some sm \<Rightarrow> cross_subtype sm (ps_type s) m (ts ! i))
          else wah_host_object_accepts (ts ! i) \<and> xs ! i = vs ! i))"
proof -
  have len: "length xs = length vs" using load_params_length assms(1,2) by blast
  have step: "load_host_param (answers i) pins m (ts ! i) (vs ! i) = Some (Inr (xs ! i))"
    using load_params_nth [OF assms(1-3)] .
  show ?thesis using len load_param_safe [OF step assms(4-6)] by simp
qed

section \<open>A table at work\<close>

definition ex_pins :: wah_pin_table where
  "ex_pins = \<lparr> pt_slots = [\<lparr> ps_value = 0x118, ps_module = None, ps_type = WAH_TYPE_ANY, ps_generation = 5, ps_next_free = 0 \<rparr>], pt_free_head = 0 \<rparr>"

lemma ex_pins_wf: "pins_wf ex_pins"
  by (auto simp: pins_wf_def ex_pins_def slot_live_def value_ref_def intro!: exI [of _ "[]"])

lemma ex_pins_pinned: "pinned (Some ex_pins) (pin_reference 0 5) = Some (pt_slots ex_pins ! 0)"
proof -
  have "wah_pinned_slot (Some ex_pins) (pin_reference 0 5) = Some 0"
    by (simp add: pinned_slot_None_iff [OF ex_pins_wf]) (simp add: ex_pins_def slot_live_def value_ref_def)
  then show ?thesis by (simp add: pinned_def)
qed

theorem pin_keeps_references_witness:
  "\<exists>r pins'. wah_pin True (Inr ()) 0x200 None WAH_TYPE_ANY (Some ex_pins) = (Inr r, pins')
    \<and> map_option pin_contents (pinned pins' r) = Some (0x200, None, WAH_TYPE_ANY)"
proof -
  obtain r pins' where r: "wah_pin True (Inr ()) 0x200 None WAH_TYPE_ANY (Some ex_pins) = (Inr r, pins')"
    by (simp add: wah_pin_def ex_pins_def)
  moreover have "value_ref 0x200 \<noteq> 0" by (simp add: value_ref_def)
  ultimately show ?thesis using pin_keeps_references [OF ex_pins_wf _ r] by auto
qed

theorem released_reference_stale_witness:
  "\<exists>pt'. wah_unpin (pin_reference 0 5) (Some ex_pins) = (True, Some pt') \<and> pinned (Some pt') (pin_reference 0 5) = None"
  using released_reference_stale [OF ex_pins_wf, of "pin_reference 0 5"] ex_pins_pinned pin_run.start by fastforce

theorem host_params_safe_witness:
  "\<exists>xs. wah_load_host_params (\<lambda>_. []) (Some ex_pins) (1, demo_module) [WAH_TYPE_ANY] [ucast (pin_reference 0 5)] = Some (Inr xs)
    \<and> xs ! 0 = 0x118 \<and> wah_host_object_accepts WAH_TYPE_ANY"
proof -
  have run: "wah_load_host_params (\<lambda>_. []) (Some ex_pins) (1, demo_module) [WAH_TYPE_ANY] [ucast (pin_reference 0 5)] = Some (Inr [0x118])"
    by code_simp
  have r: "value_ref (ucast (pin_reference 0 5)) = pin_reference 0 5" "pin_reference 0 5 \<noteq> 0" "pin_reference 0 5 AND 3 = 2" by code_simp+
  have any: "WAH_TYPE_IS_REF WAH_TYPE_ANY" "type_in demo_module WAH_TYPE_ANY" by (simp_all add: WAH_TYPE_IS_REF_def type_in_def)
  have mods: "\<forall>s \<in> set (pt_slots ex_pins). pred_option (\<lambda>sm. modules_ok sm (1, demo_module) \<and> type_in (snd sm) (ps_type s)) (ps_module s)"
    by (simp add: ex_pins_def)
  from host_params_safe [OF run, of 0] any mods r ex_pins_pinned run show ?thesis by (auto simp: ex_pins_def)
qed

end
