(* ===== verification/Wah_Link.thy ===== *)
theory Wah_Link
  imports Wah_Cross Wah_GC
begin

text \<open>
  Linking: finding the module an import names, following exports that are imports themselves to the function, global,
  table or memory they stand for, checking its type against the one the importer declares, and binding it.

  A context is seen here with what linking reads and writes of it. Modules and contexts are named by their addresses, 0 being
  \<open>NULL\<close> for modules. The answers of the allocator to the subtype checks are an argument, a list for each check; an
  operation returns \<open>None\<close> if a check does not end, which the theorems exclude.
\<close>

section \<open>The state\<close>

text \<open>The fields of \<open>wah_function_t\<close> that linking uses; a function not bound yet is zero.\<close>

record wah_bound_function =
  bf_is_host :: bool
  bf_param_types :: "wah_type list"
  bf_result_types :: "wah_type list"
  bf_local_idx :: nat
  bf_global_idx :: nat
  bf_module :: u64
  bf_ctx :: "nat option"

definition wah_bound_function_zero :: wah_bound_function where
  "wah_bound_function_zero = \<lparr> bf_is_host = False, bf_param_types = [], bf_result_types = [], bf_local_idx = 0, bf_global_idx = 0,
     bf_module = 0, bf_ctx = None \<rparr>"

text \<open>A module with its local functions, those of the binary followed by those of the host.\<close>

record link_module =
  lk_module :: wah_module
  lk_functions :: "wah_bound_function list"

record link_entry =
  le_name :: bytes
  le_module :: u64
  le_ctx :: "nat option"
  le_owns_ctx :: bool

record link_context =
  lx_module :: u64
  lx_linked_modules :: "link_entry list"
  lx_function_table :: "wah_bound_function list"
  lx_ready :: bool
  lx_is_instantiated :: bool
  lx_instantiate_failed :: bool
  lx_poisoned :: bool
  lx_enabled_features :: u64
  lx_gc :: "nat option"
  lx_dependents :: "nat list"

record link_world =
  lw_modules :: "u64 \<Rightarrow> link_module"
  lw_ctxs :: "nat \<Rightarrow> link_context"
  lw_heaps :: "nat \<Rightarrow> wah_gc_state"

definition module_at :: "link_world \<Rightarrow> u64 \<Rightarrow> wah_module" where
  "module_at w p = lk_module (lw_modules w p)"

definition ref_at :: "link_world \<Rightarrow> u64 \<Rightarrow> module_ref" where
  "ref_at w p = (p, module_at w p)"

section \<open>Following exports\<close>

definition wah_find_linked_module :: "link_context \<Rightarrow> wah_import_name \<Rightarrow> link_entry option" where
  "wah_find_linked_module c name = find (\<lambda>lm. le_name lm = in_module name) (lx_linked_modules c)"

definition wah_is_owned_linked_ctx :: "link_context \<Rightarrow> nat \<Rightarrow> bool" where
  "wah_is_owned_linked_ctx c k = (case find (\<lambda>lm. le_ctx lm = Some k) (lx_linked_modules c) of None \<Rightarrow> False | Some lm \<Rightarrow> le_owns_ctx lm)"

definition wah_link_namespace :: "link_world \<Rightarrow> nat \<Rightarrow> nat option \<Rightarrow> nat" where
  "wah_link_namespace w ns linked_ctx =
    (case linked_ctx of
       None \<Rightarrow> ns
     | Some k \<Rightarrow> if k = ns \<or> wah_is_owned_linked_ctx (lw_ctxs w ns) k then ns else k)"

text \<open>The four resolvers differ in the kind of export they look for, the imports and local definitions they count, the
  check of an index found, and in what an import of an instantiated context stands for already.\<close>

record export_resolver =
  er_kind :: nat
  er_imports :: "wah_module \<Rightarrow> wah_import_name list"
  er_local_count :: "link_module \<Rightarrow> nat"
  er_index_ok :: "wah_module \<Rightarrow> nat \<Rightarrow> bool"
  er_resolved :: "link_world \<Rightarrow> nat option \<Rightarrow> nat \<Rightarrow> wah_bound_function option"

text \<open>Where a chain ends: a local definition with its module, context, local and global index, or a bound import.\<close>

datatype export_target =
  Local_Export u64 "nat option" nat nat
| Bound_Import wah_bound_function

primrec resolve_export :: "nat \<Rightarrow> export_resolver \<Rightarrow> link_world \<Rightarrow> nat \<Rightarrow> u64 \<Rightarrow> nat option \<Rightarrow> nat \<Rightarrow> export_target res" where
  "resolve_export 0 R w ns linked linked_ctx idx = Inl WAH_ERROR_LINK_FAILED"
| "resolve_export (Suc depth) R w ns linked linked_ctx idx =
    (let imports = er_imports R (module_at w linked); ns' = wah_link_namespace w ns linked_ctx in
     if idx \<ge> length imports then
       WAH_ENSURE (idx - length imports < er_local_count R (lw_modules w linked)) WAH_ERROR_LINK_FAILED
         (Inr (Local_Export linked linked_ctx (idx - length imports) idx))
     else case er_resolved R w linked_ctx idx of
       Some f \<Rightarrow> Inr (Bound_Import f)
     | None \<Rightarrow>
         (case wah_find_linked_module (lw_ctxs w ns') (imports ! idx) of
            None \<Rightarrow> Inl WAH_ERROR_LINK_FAILED
          | Some lm \<Rightarrow>
              (case wah_find_export (module_at w (le_module lm)) (er_kind R) (imports ! idx) of
                 None \<Rightarrow> Inl WAH_ERROR_LINK_FAILED
               | Some e \<Rightarrow> WAH_ENSURE (er_index_ok R (module_at w (le_module lm)) (exp_index e)) WAH_ERROR_LINK_FAILED
                   (resolve_export depth R w ns' (le_module lm) (le_ctx lm) (exp_index e)))))"

abbreviation (input) "WAH_REEXPORT_MAX_DEPTH \<equiv> 64 :: nat"

definition resolved_function :: "link_world \<Rightarrow> nat option \<Rightarrow> nat \<Rightarrow> wah_bound_function option" where
  "resolved_function w linked_ctx idx =
    (case linked_ctx of
       None \<Rightarrow> None
     | Some k \<Rightarrow>
         let table = lx_function_table (lw_ctxs w k) in
         if idx < length table \<and> (bf_module (table ! idx) \<noteq> 0 \<or> bf_is_host (table ! idx)) then Some (table ! idx) else None)"

definition function_resolver :: export_resolver where
  "function_resolver = \<lparr> er_kind = 0, er_imports = map fi_name \<circ> func_imports, er_local_count = length \<circ> lk_functions,
     er_index_ok = (\<lambda>m idx. True), er_resolved = resolved_function \<rparr>"

definition global_resolver :: export_resolver where
  "global_resolver = \<lparr> er_kind = 3, er_imports = map gi_name \<circ> global_imports, er_local_count = length \<circ> globals \<circ> lk_module,
     er_index_ok = (\<lambda>m idx. idx < wah_global_index_limit m), er_resolved = (\<lambda>w c idx. None) \<rparr>"

definition table_resolver :: export_resolver where
  "table_resolver = \<lparr> er_kind = 1, er_imports = map ti_name \<circ> table_imports, er_local_count = length \<circ> tables \<circ> lk_module,
     er_index_ok = (\<lambda>m idx. idx < wah_table_index_limit m), er_resolved = (\<lambda>w c idx. None) \<rparr>"

definition memory_resolver :: export_resolver where
  "memory_resolver = \<lparr> er_kind = 2, er_imports = map mi_name \<circ> memory_imports, er_local_count = length \<circ> memories \<circ> lk_module,
     er_index_ok = (\<lambda>m idx. idx < wah_memory_index_limit m), er_resolved = (\<lambda>w c idx. None) \<rparr>"

text \<open>What the resolver of functions hands out: provider, its context, the local index, the function and the global index.\<close>

definition wah_resolve_function_export ::
  "link_world \<Rightarrow> nat \<Rightarrow> u64 \<Rightarrow> nat option \<Rightarrow> nat \<Rightarrow> (u64 \<times> nat option \<times> nat \<times> wah_bound_function \<times> nat) res" where
  "wah_resolve_function_export w ctx linked linked_ctx func_idx =
    WAH_CHECK (resolve_export WAH_REEXPORT_MAX_DEPTH function_resolver w ctx linked linked_ctx func_idx) (\<lambda>target. Inr (
      case target of
        Local_Export p c l g \<Rightarrow> (p, c, l, lk_functions (lw_modules w p) ! l, g)
      | Bound_Import f \<Rightarrow> (bf_module f, bf_ctx f, bf_local_idx f, f, bf_global_idx f)))"

definition local_target :: "export_target \<Rightarrow> u64 \<times> nat option \<times> nat \<times> nat" where
  "local_target target =
    (case target of Local_Export p c l g \<Rightarrow> (p, c, l, g) | Bound_Import f \<Rightarrow> (bf_module f, bf_ctx f, bf_local_idx f, bf_global_idx f))"

definition wah_resolve_global_export :: "link_world \<Rightarrow> nat \<Rightarrow> u64 \<Rightarrow> nat option \<Rightarrow> nat \<Rightarrow> (u64 \<times> nat option \<times> nat \<times> nat) res" where
  "wah_resolve_global_export w ctx linked linked_ctx global_idx =
    WAH_CHECK (resolve_export WAH_REEXPORT_MAX_DEPTH global_resolver w ctx linked linked_ctx global_idx) (\<lambda>target. Inr (local_target target))"

definition wah_resolve_table_export :: "link_world \<Rightarrow> nat \<Rightarrow> u64 \<Rightarrow> nat option \<Rightarrow> nat \<Rightarrow> (u64 \<times> nat option \<times> nat) res" where
  "wah_resolve_table_export w ctx linked linked_ctx table_idx =
    WAH_CHECK (resolve_export WAH_REEXPORT_MAX_DEPTH table_resolver w ctx linked linked_ctx table_idx) (\<lambda>target. Inr (
      let (p, c, l, g) = local_target target in (p, c, g)))"

definition wah_resolve_memory_export :: "link_world \<Rightarrow> nat \<Rightarrow> u64 \<Rightarrow> nat option \<Rightarrow> nat \<Rightarrow> (u64 \<times> nat option \<times> nat) res" where
  "wah_resolve_memory_export w ctx linked linked_ctx mem_idx =
    WAH_CHECK (resolve_export WAH_REEXPORT_MAX_DEPTH memory_resolver w ctx linked linked_ctx mem_idx) (\<lambda>target. Inr (
      let (p, c, l, g) = local_target target in (p, c, g)))"

section \<open>Checking and binding imports\<close>

text \<open>A sequence of checks that stops at the first failed one.\<close>

primrec ensure_all :: "bool option list \<Rightarrow> wah_error \<Rightarrow> unit res option" where
  "ensure_all [] e = Some (Inr ())"
| "ensure_all (c # cs) e = Option.bind c (\<lambda>ok. if ok then ensure_all cs e else Some (Inl e))"

definition wah_cross_module_type_ref_eq :: "bool list \<Rightarrow> module_ref \<Rightarrow> wah_type \<Rightarrow> module_ref \<Rightarrow> wah_type \<Rightarrow> bool option" where
  "wah_cross_module_type_ref_eq grants ma ta mb tb = map_option fst (wah_cross_module_type_ref_eq_oom ma ta mb tb (False, grants))"

definition wah_validate_function_import_type ::
  "(nat \<Rightarrow> bool list) \<Rightarrow> module_ref \<Rightarrow> nat \<Rightarrow> module_ref \<Rightarrow> nat \<Rightarrow> wah_bound_function \<Rightarrow> unit res option" where
  "wah_validate_function_import_type answers importer import_type_idx provider provider_local_idx src =
    (if \<not> import_type_idx < length (type_defs (snd importer)) then Some (Inl WAH_ERROR_LINK_FAILED)
     else if bf_is_host src then
       let import_type = types (snd importer) ! import_type_idx;
           ps = ft_param_types import_type; rs = ft_result_types import_type in
       if length ps \<noteq> length (bf_param_types src) \<or> length rs \<noteq> length (bf_result_types src) then Some (Inl WAH_ERROR_LINK_FAILED)
       else ensure_all
         (map (\<lambda>p. wah_cross_module_subtype (answers p) importer (ps ! p) provider (bf_param_types src ! p)) [0..<length ps]
          @ map (\<lambda>r. wah_cross_module_subtype (answers (length ps + r)) provider (bf_result_types src ! r) importer (rs ! r)) [0..<length rs])
         WAH_ERROR_LINK_FAILED
     else if \<not> provider_local_idx < length (function_type_indices (snd provider)) then Some (Inl WAH_ERROR_LINK_FAILED)
     else
       let src_type_idx = function_type_indices (snd provider) ! provider_local_idx in
       if \<not> src_type_idx < length (type_defs (snd provider)) then Some (Inl WAH_ERROR_LINK_FAILED)
       else ensure_all [wah_cross_module_subtype (answers 0) provider (WAH_TYPE_FROM_IDX src_type_idx False)
                          importer (WAH_TYPE_FROM_IDX import_type_idx False)] WAH_ERROR_LINK_FAILED)"

definition wah_bind_function_import_slot ::
  "u64 \<Rightarrow> nat option \<Rightarrow> wah_export \<Rightarrow> nat \<Rightarrow> wah_bound_function \<Rightarrow> nat \<Rightarrow> wah_bound_function" where
  "wah_bind_function_import_slot provider provider_ctx exp provider_local_idx src importer_ctx =
    (let f = src\<lparr>bf_global_idx := exp_index exp, bf_module := provider\<rparr> in
     if \<not> bf_is_host src then f\<lparr>bf_local_idx := provider_local_idx, bf_ctx := provider_ctx\<rparr>
     else if bf_ctx f = None then f\<lparr>bf_ctx := Some importer_ctx\<rparr>
     else f)"

text \<open>Binding one import of a function: \<open>found\<close> is the module that the name of the import stands for.\<close>

definition bind_function_import ::
  "(nat \<Rightarrow> bool list) \<Rightarrow> link_world \<Rightarrow> nat \<Rightarrow> u64 \<Rightarrow> wah_func_import \<Rightarrow> (u64 \<times> nat option) option \<Rightarrow> wah_bound_function res option" where
  "bind_function_import answers w ctx importer fi found =
    (case found of
       None \<Rightarrow> Some (Inl WAH_ERROR_LINK_FAILED)
     | Some (linked, linked_ctx) \<Rightarrow>
         (case wah_find_export (module_at w linked) 0 (fi_name fi) of
            None \<Rightarrow> Some (Inl WAH_ERROR_LINK_FAILED)
          | Some e \<Rightarrow>
              (case wah_resolve_function_export w ctx linked linked_ctx (exp_index e) of
                 Inl err \<Rightarrow> Some (Inl err)
               | Inr (provider, provider_ctx, local_idx, src, global_idx) \<Rightarrow>
                   map_option (\<lambda>r. WAH_CHECK r (\<lambda>_. Inr (wah_bind_function_import_slot provider provider_ctx e local_idx src ctx)))
                     (wah_validate_function_import_type answers (ref_at w importer) (fi_type_index fi) (ref_at w provider) local_idx src))))"

definition update_link_ctx :: "nat \<Rightarrow> (link_context \<Rightarrow> link_context) \<Rightarrow> link_world \<Rightarrow> link_world" where
  "update_link_ctx k f w = w\<lparr>lw_ctxs := (lw_ctxs w)(k := f (lw_ctxs w k))\<rparr>"

text \<open>The loop over the imports of the primary module, which writes each slot as it goes.\<close>

primrec bind_primary_imports :: "(nat \<Rightarrow> nat \<Rightarrow> bool list) \<Rightarrow> nat \<Rightarrow> nat list \<Rightarrow> link_world \<Rightarrow> link_world res option" where
  "bind_primary_imports answers ctx [] w = Some (Inr w)"
| "bind_primary_imports answers ctx (i # is) w =
    (let c = lw_ctxs w ctx; fi = func_imports (module_at w (lx_module c)) ! i in
     Option.bind (bind_function_import (answers i) w ctx (lx_module c) fi
                    (map_option (\<lambda>lm. (le_module lm, le_ctx lm)) (wah_find_linked_module c (fi_name fi))))
       (\<lambda>r. case r of
          Inl err \<Rightarrow> Some (Inl err)
        | Inr f \<Rightarrow> bind_primary_imports answers ctx is
            (update_link_ctx ctx (\<lambda>c. c\<lparr>lx_function_table := (lx_function_table c)[i := f]\<rparr>) w)))"

definition wah_resolve_primary_func_imports :: "(nat \<Rightarrow> nat \<Rightarrow> bool list) \<Rightarrow> nat \<Rightarrow> link_world \<Rightarrow> link_world res option" where
  "wah_resolve_primary_func_imports answers ctx w =
    bind_primary_imports answers ctx [0..<length (func_imports (module_at w (lx_module (lw_ctxs w ctx))))] w"

definition wah_validate_global_import_type ::
  "(nat \<Rightarrow> bool list) \<Rightarrow> module_ref \<Rightarrow> wah_type \<Rightarrow> bool \<Rightarrow> module_ref \<Rightarrow> wah_type \<Rightarrow> bool \<Rightarrow> unit res option" where
  "wah_validate_global_import_type answers provider provider_type provider_mutable importer import_type import_mutable =
    ensure_all [wah_cross_module_subtype (answers 0) provider provider_type importer import_type,
                Some (provider_mutable = import_mutable),
                if \<not> import_mutable then Some True else wah_cross_module_subtype (answers 1) importer import_type provider provider_type]
      WAH_ERROR_LINK_FAILED"

section \<open>Linking modules and contexts\<close>

definition update_link_heap :: "nat \<Rightarrow> (wah_gc_state \<Rightarrow> wah_gc_state) \<Rightarrow> link_world \<Rightarrow> link_world" where
  "update_link_heap h f w = w\<lparr>lw_heaps := (lw_heaps w)(h := f (lw_heaps w h))\<rparr>"

definition wah_register_dependent :: "bool \<Rightarrow> nat \<Rightarrow> link_context \<Rightarrow> link_context res" where
  "wah_register_dependent grown consumer provider =
    (if consumer \<in> set (lx_dependents provider) then Inr provider
     else WAH_ENSURE grown WAH_ERROR_OUT_OF_MEMORY (Inr (provider\<lparr>lx_dependents := lx_dependents provider @ [consumer]\<rparr>)))"

definition wah_check_linked_module :: "link_world \<Rightarrow> link_context \<Rightarrow> u64 \<Rightarrow> nat option \<Rightarrow> unit res" where
  "wah_check_linked_module w c md linked_ctx =
    WAH_ENSURE (md \<noteq> lx_module c) WAH_ERROR_MISUSE (
    WAH_ENSURE (list_all (\<lambda>lm. le_module lm = md \<longrightarrow> linked_ctx \<noteq> None \<and> le_ctx lm \<noteq> None
        \<and> (le_ctx lm \<noteq> linked_ctx \<or> length (lk_functions (lw_modules w md)) = length (function_type_indices (module_at w md))))
      (lx_linked_modules c)) WAH_ERROR_MISUSE (Inr ()))"

definition add_linked_module :: "nat \<Rightarrow> link_entry \<Rightarrow> link_world \<Rightarrow> link_world" where
  "add_linked_module ctx lm = update_link_ctx ctx (\<lambda>c. c\<lparr>lx_linked_modules := lx_linked_modules c @ [lm]\<rparr>)"

text \<open>The checks that linking a module and linking a context share, from the duplicate name on; \<open>cap\<close> is the answer to the
  request for one more entry and \<open>copied\<close> whether the name was copied.\<close>

definition link_checks :: "unit res \<Rightarrow> bool \<Rightarrow> link_world \<Rightarrow> link_context \<Rightarrow> bytes \<Rightarrow> u64 \<Rightarrow> nat option \<Rightarrow> unit res" where
  "link_checks cap copied w c name md linked_ctx =
    (if list_ex (\<lambda>lm. le_name lm = name) (lx_linked_modules c) then Inl WAH_ERROR_VALIDATION_FAILED
     else WAH_CHECK (wah_check_linked_module w c md linked_ctx) (\<lambda>_.
       WAH_ENSURE (required_features (module_at w md) AND NOT (lx_enabled_features c) = 0) WAH_ERROR_DISABLED_FEATURE (
       WAH_CHECK cap (\<lambda>_. WAH_ENSURE copied WAH_ERROR_OUT_OF_MEMORY (Inr ())))))"

definition wah_link_module :: "unit res \<Rightarrow> bool \<Rightarrow> nat \<Rightarrow> bytes option \<Rightarrow> u64 \<Rightarrow> link_world \<Rightarrow> link_world res" where
  "wah_link_module cap copied ctx name md w =
    (let c = lw_ctxs w ctx in
     WAH_ENSURE (name \<noteq> None) WAH_ERROR_MISUSE (
     WAH_ENSURE (md \<noteq> 0) WAH_ERROR_MISUSE (
     WAH_ENSURE (\<not> lx_poisoned c) WAH_ERROR_MISUSE (
     WAH_ENSURE (\<not> lx_is_instantiated c \<and> \<not> lx_instantiate_failed c) WAH_ERROR_MISUSE (
     WAH_ENSURE (lx_ready c) WAH_ERROR_MISUSE (
     WAH_CHECK (link_checks cap copied w c (the name) md None) (\<lambda>_.
       Inr (add_linked_module ctx \<lparr> le_name = the name, le_module = md, le_ctx = None, le_owns_ctx = False \<rparr> w))))))))"

text \<open>Registering the context that links at the heap and at the context linked, undone where the second fails.\<close>

definition register_heap_link :: "bool \<Rightarrow> nat \<Rightarrow> link_context \<Rightarrow> link_world \<Rightarrow> link_world res" where
  "register_heap_link grown ctx c w =
    (case lx_gc c of
       None \<Rightarrow> Inr w
     | Some h \<Rightarrow> WAH_CHECK (wah_gc_register_dependent grown ctx (lw_heaps w h)) (\<lambda>gc. Inr (update_link_heap h (\<lambda>_. gc) w)))"

definition unregister_heap_link :: "nat \<Rightarrow> link_context \<Rightarrow> link_world \<Rightarrow> link_world \<Rightarrow> link_world" where
  "unregister_heap_link ctx c before w =
    (case lx_gc c of
       None \<Rightarrow> w
     | Some h \<Rightarrow>
         if length (gc_gc_dependents (lw_heaps w h)) > length (gc_gc_dependents (lw_heaps before h))
         then update_link_heap h (wah_gc_unregister_dependent ctx) w else w)"

definition register_link :: "bool \<Rightarrow> bool \<Rightarrow> nat \<Rightarrow> nat \<Rightarrow> link_world \<Rightarrow> unit res \<times> link_world" where
  "register_link heap_grown grown ctx k w =
    (case register_heap_link heap_grown ctx (lw_ctxs w k) w of
       Inl e \<Rightarrow> (Inl e, w)
     | Inr w1 \<Rightarrow>
         (case wah_register_dependent grown ctx (lw_ctxs w1 k) of
            Inr c \<Rightarrow> (Inr (), update_link_ctx k (\<lambda>_. c) w1)
          | Inl e \<Rightarrow> (Inl e, unregister_heap_link ctx (lw_ctxs w k) w w1)))"

definition wah_link_context ::
  "unit res \<Rightarrow> bool \<Rightarrow> bool \<Rightarrow> bool \<Rightarrow> nat \<Rightarrow> bytes option \<Rightarrow> nat option \<Rightarrow> link_world \<Rightarrow> unit res \<times> link_world" where
  "wah_link_context cap copied heap_grown grown ctx name linked_ctx w =
    (let c = lw_ctxs w ctx; k = the linked_ctx; lc = lw_ctxs w k;
         checked = WAH_ENSURE (name \<noteq> None) WAH_ERROR_MISUSE (
           WAH_ENSURE (linked_ctx \<noteq> None) WAH_ERROR_MISUSE (
           WAH_ENSURE (\<not> lx_poisoned c \<and> \<not> lx_poisoned lc) WAH_ERROR_MISUSE (
           WAH_ENSURE (\<not> lx_is_instantiated c \<and> \<not> lx_instantiate_failed c) WAH_ERROR_MISUSE (
           WAH_ENSURE (lx_ready c) WAH_ERROR_MISUSE (
           WAH_ENSURE (lx_is_instantiated lc) WAH_ERROR_MISUSE (
           link_checks cap copied w c (the name) (lx_module lc) linked_ctx)))))) in
     case checked of
       Inl e \<Rightarrow> (Inl e, w)
     | Inr _ \<Rightarrow>
         (case register_link heap_grown grown ctx k w of
            (Inl e, w') \<Rightarrow> (Inl e, w')
          | (Inr _, w') \<Rightarrow> (Inr (), add_linked_module ctx
              \<lparr> le_name = the name, le_module = lx_module lc, le_ctx = linked_ctx, le_owns_ctx = False \<rparr> w')))"

section \<open>Chains of exports\<close>

text \<open>One step from an imported export to the export that its import names, and what an export stands for in the end.\<close>

type_synonym export_place = "nat \<times> u64 \<times> nat option \<times> nat"

inductive export_step :: "export_resolver \<Rightarrow> link_world \<Rightarrow> export_place \<Rightarrow> export_place \<Rightarrow> bool" for R w where
  step: "idx < length (er_imports R (module_at w p)) \<Longrightarrow> er_resolved R w c idx = None
    \<Longrightarrow> wah_find_linked_module (lw_ctxs w (wah_link_namespace w ns c)) (er_imports R (module_at w p) ! idx) = Some lm
    \<Longrightarrow> wah_find_export (module_at w (le_module lm)) (er_kind R) (er_imports R (module_at w p) ! idx) = Some e
    \<Longrightarrow> er_index_ok R (module_at w (le_module lm)) (exp_index e)
    \<Longrightarrow> export_step R w (ns, p, c, idx) (wah_link_namespace w ns c, le_module lm, le_ctx lm, exp_index e)"

inductive export_end :: "export_resolver \<Rightarrow> link_world \<Rightarrow> export_place \<Rightarrow> export_target \<Rightarrow> bool" for R w where
  local_end: "length (er_imports R (module_at w p)) \<le> idx \<Longrightarrow> idx - length (er_imports R (module_at w p)) < er_local_count R (lw_modules w p)
    \<Longrightarrow> export_end R w (ns, p, c, idx) (Local_Export p c (idx - length (er_imports R (module_at w p))) idx)"
| bound_end: "idx < length (er_imports R (module_at w p)) \<Longrightarrow> er_resolved R w c idx = Some f \<Longrightarrow> export_end R w (ns, p, c, idx) (Bound_Import f)"

inductive_cases export_stepE: "export_step R w (ns, p, c, idx) y"
inductive_cases export_endE: "export_end R w (ns, p, c, idx) t"

text \<open>\<open>stands_for R w n x t\<close>: after \<open>n\<close> steps from \<open>x\<close> the chain ends at \<open>t\<close>.\<close>

primrec stands_for :: "export_resolver \<Rightarrow> link_world \<Rightarrow> nat \<Rightarrow> export_place \<Rightarrow> export_target \<Rightarrow> bool" where
  "stands_for R w 0 x t \<longleftrightarrow> export_end R w x t"
| "stands_for R w (Suc n) x t \<longleftrightarrow> (\<exists>y. export_step R w x y \<and> stands_for R w n y t)"

lemma export_step_fun: "export_step R w x y \<Longrightarrow> export_step R w x z \<Longrightarrow> y = z"
  by (cases x) (auto elim!: export_stepE)

lemma export_end_no_step: "export_end R w x t \<Longrightarrow> \<not> export_step R w x y"
  by (cases x) (auto elim!: export_stepE export_endE)

lemma export_end_fun: "export_end R w x t \<Longrightarrow> export_end R w x u \<Longrightarrow> t = u"
  by (cases x) (auto elim!: export_endE)

lemma resolve_step:
  assumes "export_step R w (ns, p, c, idx) (ns', p', c', idx')"
  shows "resolve_export (Suc d) R w ns p c idx = resolve_export d R w ns' p' c' idx'"
  using assms by (auto elim!: export_stepE simp: Let_def)

lemma resolve_end: "export_end R w (ns, p, c, idx) t \<Longrightarrow> resolve_export (Suc d) R w ns p c idx = Inr t"
  by (auto elim!: export_endE simp: Let_def)

lemma resolve_cases:
  assumes "resolve_export (Suc d) R w ns p c idx = Inr t"
  obtains "export_end R w (ns, p, c, idx) t"
  | ns' p' c' idx' where "export_step R w (ns, p, c, idx) (ns', p', c', idx')"
proof (cases "idx < length (er_imports R (module_at w p))")
  case False
  then have "export_end R w (ns, p, c, idx) t" using assms export_end.local_end [of R w p idx ns c]
    by (auto simp: Let_def res_simps)
  then show thesis by (rule that(1))
next
  case idx: True
  show thesis
  proof (cases "er_resolved R w c idx")
    case None
    from assms idx None obtain lm e where "wah_find_linked_module (lw_ctxs w (wah_link_namespace w ns c)) (er_imports R (module_at w p) ! idx) = Some lm"
      "wah_find_export (module_at w (le_module lm)) (er_kind R) (er_imports R (module_at w p) ! idx) = Some e"
      "er_index_ok R (module_at w (le_module lm)) (exp_index e)"
      by (auto simp: Let_def res_simps split: option.splits)
    from export_step.step [OF idx None this] show thesis by (rule that(2))
  next
    case (Some f)
    then have "export_end R w (ns, p, c, idx) t" using assms idx export_end.bound_end [OF idx Some] by (auto simp: Let_def)
    then show thesis by (rule that(1))
  qed
qed

lemma resolve_export_ok: "resolve_export d R w ns p c idx = Inr t \<longleftrightarrow> (\<exists>n < d. stands_for R w n (ns, p, c, idx) t)"
proof (induction d arbitrary: ns p c idx)
  case (Suc d)
  show ?case
  proof
    assume r: "resolve_export (Suc d) R w ns p c idx = Inr t"
    then show "\<exists>n < Suc d. stands_for R w n (ns, p, c, idx) t"
    proof (cases rule: resolve_cases)
      case 1
      then show ?thesis by (intro exI [of _ 0]) simp
    next
      case (2 ns' p' c' idx')
      with r resolve_step have "resolve_export d R w ns' p' c' idx' = Inr t" by metis
      then obtain n where "n < d" "stands_for R w n (ns', p', c', idx') t" using Suc.IH by blast
      then show ?thesis using 2 by (intro exI [of _ "Suc n"]) auto
    qed
  next
    assume "\<exists>n < Suc d. stands_for R w n (ns, p, c, idx) t"
    then obtain n where n: "n < Suc d" "stands_for R w n (ns, p, c, idx) t" by blast
    show "resolve_export (Suc d) R w ns p c idx = Inr t"
    proof (cases n)
      case 0
      then show ?thesis using n(2) resolve_end by simp
    next
      case (Suc m)
      then obtain ns' p' c' idx' where "export_step R w (ns, p, c, idx) (ns', p', c', idx')" "stands_for R w m (ns', p', c', idx') t"
        using n(2) by auto
      then show ?thesis using Suc.IH resolve_step Suc n(1) by (metis Suc_less_eq)
    qed
  qed
qed simp

lemma resolve_export_error: "resolve_export d R w ns p c idx = Inl e \<Longrightarrow> e = WAH_ERROR_LINK_FAILED"
  by (induction d arbitrary: ns p c idx) (auto simp: Let_def res_simps split: option.splits if_splits)

lemma stands_for_fun: "stands_for R w n x t \<Longrightarrow> stands_for R w m x u \<Longrightarrow> t = u"
proof (induction n arbitrary: x m)
  case 0
  then show ?case by (cases m) (auto dest: export_end_fun export_end_no_step)
next
  case (Suc n)
  then obtain y where y: "export_step R w x y" "stands_for R w n y t" by auto
  with Suc.prems(2) obtain k where "m = Suc k" by (cases m) (auto dest: export_end_no_step)
  with Suc.prems(2) obtain z where "export_step R w x z" "stands_for R w k z u" by auto
  then show ?case using Suc.IH y export_step_fun by metis
qed

text \<open>On a cycle of imports no export stands for anything.\<close>

lemma stands_for_shift:
  "stands_for R w m a t \<Longrightarrow> (export_step R w ^^ j) a b \<Longrightarrow> j \<le> m \<and> stands_for R w (m - j) b t"
proof (induction j arbitrary: a m)
  case (Suc j)
  obtain a' where a': "export_step R w a a'" "(export_step R w ^^ j) a' b" using Suc.prems(2) by (metis relpowp_Suc_E2)
  from Suc.prems(1) a'(1) obtain m' where m: "m = Suc m'" by (cases m) (auto dest: export_end_no_step)
  with Suc.prems(1) a'(1) have "stands_for R w m' a' t" by (auto dest: export_step_fun)
  from Suc.IH [OF this a'(2)] show ?case using m by simp
qed simp

lemma cycle_no_end:
  assumes "(export_step R w)\<^sup>+\<^sup>+ x x"
  shows "\<not> stands_for R w n x t"
proof (induction n rule: less_induct)
  case (less n)
  obtain k where k: "k > 0" "(export_step R w ^^ k) x x" using assms by (auto simp: tranclp_power)
  have "\<not> (k \<le> n \<and> stands_for R w (n - k) x t)" using less.IH [of "n - k"] k(1) by auto
  then show ?case using stands_for_shift k(2) by metis
qed

lemma cycle_rejected:
  assumes "(export_step R w)\<^sup>+\<^sup>+ (ns, p, c, idx) (ns, p, c, idx)"
  shows "resolve_export d R w ns p c idx = Inl WAH_ERROR_LINK_FAILED"
proof (cases "resolve_export d R w ns p c idx")
  case (Inl e)
  then show ?thesis using resolve_export_error by metis
next
  case (Inr t)
  then show ?thesis using cycle_no_end [OF assms] resolve_export_ok by metis
qed

section \<open>Imported functions have their declared types\<close>

text \<open>A module fit for linking: its types are well formed, its functions are those of the binary followed by those of the host,
  and the types they name exist.\<close>

definition sig_in :: "wah_module \<Rightarrow> wah_type list \<Rightarrow> wah_type list \<Rightarrow> bool" where
  "sig_in m ps rs \<longleftrightarrow> list_all (type_in m) (ps @ rs)"

definition link_module_ok :: "link_module \<Rightarrow> bool" where
  "link_module_ok lk \<longleftrightarrow>
    (let m = lk_module lk; n = length (function_type_indices m) in
     cross_wf m \<and> length (types m) = length (type_defs m) \<and> length (type_defs m) \<le> WAH_MAX_TYPE_INDEX + 1
     \<and> (\<forall>ft \<in> set (types m). sig_in m (ft_param_types ft) (ft_result_types ft))
     \<and> list_all (\<lambda>t. t < length (type_defs m)) (function_type_indices m)
     \<and> n \<le> length (lk_functions lk)
     \<and> (\<forall>i < length (lk_functions lk). let f = lk_functions lk ! i in
          (bf_is_host f \<longleftrightarrow> n \<le> i) \<and> (bf_is_host f \<longrightarrow> sig_in m (bf_param_types f) (bf_result_types f))))"

text \<open>A function bound to an import names a module and, unless it is a function of the host, a function of that module's binary.\<close>

definition bound_ok :: "link_world \<Rightarrow> wah_bound_function \<Rightarrow> bool" where
  "bound_ok w f \<longleftrightarrow> bf_module f \<noteq> 0
     \<and> (if bf_is_host f then sig_in (module_at w (bf_module f)) (bf_param_types f) (bf_result_types f)
        else bf_local_idx f < length (function_type_indices (module_at w (bf_module f))))"

text \<open>The function is of the type the importer declares, or of a subtype.\<close>

definition import_matches :: "link_world \<Rightarrow> u64 \<Rightarrow> nat \<Rightarrow> wah_bound_function \<Rightarrow> bool" where
  "import_matches w importer t f \<longleftrightarrow>
    (let p = ref_at w (bf_module f); m = ref_at w importer; ft = types (snd m) ! t in
     if bf_is_host f then list_all2 (\<lambda>s p'. cross_subtype m s p p') (ft_param_types ft) (bf_param_types f)
       \<and> list_all2 (\<lambda>r s. cross_subtype p r m s) (bf_result_types f) (ft_result_types ft)
     else cross_subtype p (WAH_TYPE_FROM_IDX (function_type_indices (snd p) ! bf_local_idx f) False) m (WAH_TYPE_FROM_IDX t False))"

definition slot_unbound :: "wah_bound_function \<Rightarrow> bool" where
  "slot_unbound f \<longleftrightarrow> bf_module f = 0 \<and> \<not> bf_is_host f"

definition link_world_ok :: "link_world \<Rightarrow> bool" where
  "link_world_ok w \<longleftrightarrow> (\<forall>p. link_module_ok (lw_modules w p))
     \<and> (\<forall>k. (\<forall>lm \<in> set (lx_linked_modules (lw_ctxs w k)). le_module lm \<noteq> 0)
          \<and> (\<forall>i < length (func_imports (module_at w (lx_module (lw_ctxs w k)))). i < length (lx_function_table (lw_ctxs w k)) \<longrightarrow>
               slot_unbound (lx_function_table (lw_ctxs w k) ! i) \<or> bound_ok w (lx_function_table (lw_ctxs w k) ! i))
          \<and> (\<forall>lm \<in> set (lx_linked_modules (lw_ctxs w k)). \<forall>c. le_ctx lm = Some c \<longrightarrow> le_module lm = lx_module (lw_ctxs w c)))"

lemma ensure_all_ok:
  assumes "\<And>c. c \<in> set cs \<Longrightarrow> c \<noteq> None"
  shows "ensure_all cs e = Some (if list_all (\<lambda>c. c = Some True) cs then Inr () else Inl e)"
  using assms by (induction cs) (auto simp: bind_eq_Some_conv)

lemma refs_ok: "link_world_ok w \<Longrightarrow> modules_ok (ref_at w p) (ref_at w q)"
  by (auto simp: modules_ok_def ref_at_def link_world_ok_def link_module_ok_def Let_def module_at_def)

lemma cross_module_subtype_ok:
  assumes "modules_ok ma mb" "type_in (snd ma) s" "type_in (snd mb) t"
  shows "\<exists>b. wah_cross_module_subtype grants ma s mb t = Some b \<and> (b \<longrightarrow> cross_subtype ma s mb t)"
proof -
  from cross_subtype_ok [OF assms] obtain b st where "wah_cross_module_subtype_oom ma s mb t (False, grants) = Some (b, st)" "b \<longrightarrow> cross_subtype ma s mb t"
    unfolding check_between_def by blast
  then show ?thesis by (simp add: wah_cross_module_subtype_def)
qed

lemma idx_type_in:
  "link_module_ok lk \<Longrightarrow> t < length (type_defs (lk_module lk)) \<Longrightarrow> type_in (lk_module lk) (WAH_TYPE_FROM_IDX t False)"
  by (intro type_in_from_idx) (auto simp: link_module_ok_def Let_def)

text \<open>The source of a binding: a function of the provider under its local index, or one bound already.\<close>

definition source_ok :: "link_world \<Rightarrow> u64 \<Rightarrow> nat \<Rightarrow> wah_bound_function \<Rightarrow> bool" where
  "source_ok w p l src \<longleftrightarrow> p \<noteq> 0 \<and> (bf_is_host src \<longrightarrow> sig_in (module_at w p) (bf_param_types src) (bf_result_types src))"

lemma host_checks_ok:
  fixes a :: "nat \<Rightarrow> bool list"
  assumes w: "link_world_ok w" and len: "length ps = length qs"
    and ps: "list_all (type_in (module_at w p)) ps" and qs: "list_all (type_in (module_at w q)) qs"
  defines "cs \<equiv> map (\<lambda>i. wah_cross_module_subtype (a i) (ref_at w p) (ps ! i) (ref_at w q) (qs ! i)) [0..<length ps]"
  shows "c \<in> set cs \<Longrightarrow> c \<noteq> None" "list_all (\<lambda>c. c = Some True) cs \<Longrightarrow> list_all2 (\<lambda>s t. cross_subtype (ref_at w p) s (ref_at w q) t) ps qs"
proof -
  have *: "\<exists>b. wah_cross_module_subtype (a i) (ref_at w p) (ps ! i) (ref_at w q) (qs ! i) = Some b
      \<and> (b \<longrightarrow> cross_subtype (ref_at w p) (ps ! i) (ref_at w q) (qs ! i))" if "i < length ps" for i
    using that len ps qs by (intro cross_module_subtype_ok [OF refs_ok [OF w]]) (auto simp: ref_at_def list_all_length)
  then show "c \<in> set cs \<Longrightarrow> c \<noteq> None" unfolding cs_def by fastforce
  show "list_all (\<lambda>c. c = Some True) cs \<Longrightarrow> list_all2 (\<lambda>s t. cross_subtype (ref_at w p) s (ref_at w q) t) ps qs"
    using * len unfolding cs_def by (fastforce simp: list_all_length list_all2_conv_all_nth)
qed

lemma validate_function_import_ok:
  assumes w: "link_world_ok w" and src: "source_ok w p l src"
  shows "\<exists>r. wah_validate_function_import_type answers (ref_at w importer) t (ref_at w p) l src = Some r
    \<and> (r = Inr () \<longrightarrow> bound_ok w (wah_bind_function_import_slot p pc e l src ctx)
         \<and> import_matches w importer t (wah_bind_function_import_slot p pc e l src ctx))
    \<and> (\<forall>err. r = Inl err \<longrightarrow> err = WAH_ERROR_LINK_FAILED)"
proof -
  let ?f = "wah_bind_function_import_slot p pc e l src ctx" and ?m = "module_at w importer" and ?q = "module_at w p"
  have f: "bf_module ?f = p" "bf_is_host ?f = bf_is_host src" "bf_param_types ?f = bf_param_types src" "bf_result_types ?f = bf_result_types src"
    "\<not> bf_is_host src \<Longrightarrow> bf_local_idx ?f = l" by (simp_all add: wah_bind_function_import_slot_def Let_def)
  have ok: "link_module_ok (lw_modules w x)" for x using w by (simp add: link_world_ok_def)
  show ?thesis
  proof (cases "t < length (type_defs ?m)")
    case False
    then show ?thesis by (simp add: wah_validate_function_import_type_def ref_at_def)
  next
    case t: True
    show ?thesis
    proof (cases "bf_is_host src")
      case host: True
      let ?ft = "types ?m ! t"
      have len: "length (types ?m) = length (type_defs ?m)" "\<forall>ft \<in> set (types ?m). sig_in ?m (ft_param_types ft) (ft_result_types ft)"
        using ok [of importer] by (simp_all add: link_module_ok_def Let_def module_at_def)
      then have "?ft \<in> set (types ?m)" using t by (metis nth_mem)
      then have sig: "sig_in ?m (ft_param_types ?ft) (ft_result_types ?ft)" using len(2) by blast
      have sig': "sig_in ?q (bf_param_types src) (bf_result_types src)" "p \<noteq> 0" using src host by (simp_all add: source_ok_def)
      show ?thesis
      proof (cases "length (ft_param_types ?ft) = length (bf_param_types src) \<and> length (ft_result_types ?ft) = length (bf_result_types src)")
        case False
        then show ?thesis using t host by (auto simp: wah_validate_function_import_type_def ref_at_def Let_def)
      next
        case lens: True
        note P = host_checks_ok [OF w conjunct1 [OF lens], where p = importer and q = p and a = answers] and R = host_checks_ok [OF w conjunct2 [OF lens, symmetric], where p = p and q = importer and a = "\<lambda>r. answers (length (ft_param_types ?ft) + r)"]
        have "list_all (type_in ?m) (ft_param_types ?ft)" "list_all (type_in ?q) (bf_param_types src)"
          "list_all (type_in ?q) (bf_result_types src)" "list_all (type_in ?m) (ft_result_types ?ft)"
          using sig sig' by (simp_all add: sig_in_def)
        note P = P [OF this(1,2)] and R = R [OF this(3,4)]
        let ?cs = "map (\<lambda>i. wah_cross_module_subtype (answers i) (ref_at w importer) (ft_param_types ?ft ! i) (ref_at w p) (bf_param_types src ! i)) [0..<length (ft_param_types ?ft)]
          @ map (\<lambda>i. wah_cross_module_subtype (answers (length (ft_param_types ?ft) + i)) (ref_at w p) (bf_result_types src ! i) (ref_at w importer) (ft_result_types ?ft ! i)) [0..<length (bf_result_types src)]"
        have run: "wah_validate_function_import_type answers (ref_at w importer) t (ref_at w p) l src = ensure_all ?cs WAH_ERROR_LINK_FAILED"
          using t host lens unfolding wah_validate_function_import_type_def Let_def by (simp add: ref_at_def)
        have "ensure_all ?cs WAH_ERROR_LINK_FAILED = Some (if list_all (\<lambda>c. c = Some True) ?cs then Inr () else Inl WAH_ERROR_LINK_FAILED)"
          using P(1) R(1) by (intro ensure_all_ok) (metis (no_types, lifting) Un_iff set_append)
        moreover have "import_matches w importer t ?f" if "list_all (\<lambda>c. c = Some True) ?cs"
          using that P(2) R(2) host by (simp add: import_matches_def f ref_at_def Let_def)
        moreover have "bound_ok w ?f" using sig' host by (simp add: bound_ok_def f)
        ultimately show ?thesis unfolding run by auto
      qed
    next
      case wasm: False
      show ?thesis
      proof (cases "l < length (function_type_indices ?q)")
        case False
        then show ?thesis using t wasm by (simp add: wah_validate_function_import_type_def ref_at_def)
      next
        case l: True
        let ?s = "function_type_indices ?q ! l"
        have s: "?s < length (type_defs ?q)" using ok [of p] l by (auto simp: link_module_ok_def Let_def module_at_def list_all_length)
        have "type_in ?q (WAH_TYPE_FROM_IDX ?s False)" "type_in ?m (WAH_TYPE_FROM_IDX t False)"
          using idx_type_in [OF ok [of p]] idx_type_in [OF ok [of importer]] s t by (simp_all add: module_at_def)
        then obtain b where b: "wah_cross_module_subtype (answers 0) (ref_at w p) (WAH_TYPE_FROM_IDX ?s False) (ref_at w importer) (WAH_TYPE_FROM_IDX t False) = Some b"
          "b \<longrightarrow> cross_subtype (ref_at w p) (WAH_TYPE_FROM_IDX ?s False) (ref_at w importer) (WAH_TYPE_FROM_IDX t False)"
          using cross_module_subtype_ok [OF refs_ok [OF w]] by (metis ref_at_def snd_conv)
        have "wah_validate_function_import_type answers (ref_at w importer) t (ref_at w p) l src = Some (if b then Inr () else Inl WAH_ERROR_LINK_FAILED)"
          using t wasm l s b(1) by (simp add: wah_validate_function_import_type_def ref_at_def Let_def)
        moreover have "import_matches w importer t ?f" if b using that b(2) wasm by (simp add: import_matches_def f ref_at_def Let_def)
        moreover have "bound_ok w ?f" using src wasm l by (simp add: bound_ok_def source_ok_def f)
        ultimately show ?thesis by auto
      qed
    qed
  qed
qed

text \<open>An imported global has the declared mutability and a type that allows what the importer may do: reading, and writing where it
  is mutable.\<close>

lemma validate_global_import_ok:
  assumes w: "link_world_ok w" and t: "type_in (module_at w p) pt" "type_in (module_at w q) it"
  shows "\<exists>r. wah_validate_global_import_type answers (ref_at w p) pt pm (ref_at w q) it im = Some r
    \<and> (r = Inr () \<longrightarrow> pm = im \<and> cross_subtype (ref_at w p) pt (ref_at w q) it \<and> (im \<longrightarrow> cross_subtype (ref_at w q) it (ref_at w p) pt))"
proof -
  have t': "type_in (snd (ref_at w p)) pt" "type_in (snd (ref_at w q)) it" using t by (simp_all add: ref_at_def)
  obtain a b where "wah_cross_module_subtype (answers 0) (ref_at w p) pt (ref_at w q) it = Some a" "a \<longrightarrow> cross_subtype (ref_at w p) pt (ref_at w q) it"
    "wah_cross_module_subtype (answers 1) (ref_at w q) it (ref_at w p) pt = Some b" "b \<longrightarrow> cross_subtype (ref_at w q) it (ref_at w p) pt"
    using cross_module_subtype_ok [OF refs_ok [OF w] t'] cross_module_subtype_ok [OF refs_ok [OF w] t'(2,1)] by blast
  then show ?thesis by (auto simp: wah_validate_global_import_type_def)
qed

text \<open>Places of a chain: the module is there, and it is the module of its context.\<close>

definition place_ok :: "link_world \<Rightarrow> export_place \<Rightarrow> bool" where
  "place_ok w x \<longleftrightarrow> (case x of (ns, p, c, idx) \<Rightarrow> p \<noteq> 0 \<and> (\<forall>k. c = Some k \<longrightarrow> p = lx_module (lw_ctxs w k)))"

lemma find_linked_in: "wah_find_linked_module c name = Some lm \<Longrightarrow> lm \<in> set (lx_linked_modules c) \<and> le_name lm = in_module name"
  by (auto simp: wah_find_linked_module_def find_Some_iff)

lemma found_place_ok:
  assumes "link_world_ok w" "wah_find_linked_module (lw_ctxs w k) name = Some lm"
  shows "place_ok w (ns, le_module lm, le_ctx lm, idx)"
proof -
  have "lm \<in> set (lx_linked_modules (lw_ctxs w k))" using find_linked_in [OF assms(2)] by simp
  then have "le_module lm \<noteq> 0" "\<forall>c. le_ctx lm = Some c \<longrightarrow> le_module lm = lx_module (lw_ctxs w c)"
    using assms(1) unfolding link_world_ok_def by blast+
  then show ?thesis by (simp add: place_ok_def)
qed

lemma place_ok_step: "link_world_ok w \<Longrightarrow> export_step R w x y \<Longrightarrow> place_ok w y"
  by (cases x) (auto elim!: export_stepE intro: found_place_ok)

lemma stands_for_end:
  assumes "link_world_ok w" "place_ok w x" "stands_for R w n x t"
  shows "\<exists>y. place_ok w y \<and> export_end R w y t"
  using assms(2,3)
proof (induction n arbitrary: x)
  case (Suc n)
  then obtain y where "export_step R w x y" "stands_for R w n y t" by auto
  then show ?case using Suc.IH place_ok_step [OF assms(1)] by blast
qed auto

lemma resolve_function_ok:
  assumes w: "link_world_ok w" and x: "place_ok w (ns, p, c, idx)" and r: "wah_resolve_function_export w ns p c idx = Inr (q, qc, l, src, g)"
  shows "source_ok w q l src"
proof -
  from r obtain t where t: "resolve_export WAH_REEXPORT_MAX_DEPTH function_resolver w ns p c idx = Inr t"
    "(q, qc, l, src, g) = (case t of Local_Export p c l g \<Rightarrow> (p, c, l, lk_functions (lw_modules w p) ! l, g)
      | Bound_Import f \<Rightarrow> (bf_module f, bf_ctx f, bf_local_idx f, f, bf_global_idx f))"
    by (auto simp: wah_resolve_function_export_def res_simps)
  then obtain n where "stands_for function_resolver w n (ns, p, c, idx) t" using resolve_export_ok by metis
  then obtain ns' p' c' idx' where e: "place_ok w (ns', p', c', idx')" "export_end function_resolver w (ns', p', c', idx') t"
    using stands_for_end [OF w x] by (metis surj_pair)
  let ?n = "length (func_imports (module_at w p'))"
  have "(?n \<le> idx' \<and> idx' - ?n < length (lk_functions (lw_modules w p')) \<and> t = Local_Export p' c' (idx' - ?n) idx')
    \<or> (\<exists>f. idx' < ?n \<and> resolved_function w c' idx' = Some f \<and> t = Bound_Import f)"
    using e(2) by (auto elim!: export_endE simp: function_resolver_def)
  then show ?thesis
  proof (elim disjE exE)
    assume l: "?n \<le> idx' \<and> idx' - ?n < length (lk_functions (lw_modules w p')) \<and> t = Local_Export p' c' (idx' - ?n) idx'"
    then have "q = p'" "src = lk_functions (lw_modules w p') ! l" "l < length (lk_functions (lw_modules w p'))"
      using t(2) by simp_all
    moreover have "link_module_ok (lw_modules w p')" "p' \<noteq> 0" using w e(1) by (simp_all add: link_world_ok_def place_ok_def)
    ultimately show ?thesis by (auto simp: source_ok_def link_module_ok_def Let_def module_at_def)
  next
    fix f
    assume bound_end: "idx' < ?n \<and> resolved_function w c' idx' = Some f \<and> t = Bound_Import f"
    then obtain k where k: "c' = Some k" "idx' < length (lx_function_table (lw_ctxs w k))" "f = lx_function_table (lw_ctxs w k) ! idx'"
      "\<not> slot_unbound f"
      by (auto simp: function_resolver_def resolved_function_def Let_def slot_unbound_def split: option.splits if_splits)
    have "p' = lx_module (lw_ctxs w k)" using e(1) k(1) by (simp add: place_ok_def)
    then have "idx' < length (func_imports (module_at w (lx_module (lw_ctxs w k))))" using bound_end by (simp add: function_resolver_def)
    then have "bound_ok w f" using w k(2-4) unfolding link_world_ok_def by blast
    then show ?thesis using t(2) bound_end by (auto simp: source_ok_def bound_ok_def)
  qed
qed

lemma resolve_function_error: "wah_resolve_function_export w ns p c idx = Inl e \<Longrightarrow> e = WAH_ERROR_LINK_FAILED"
  by (auto simp: wah_resolve_function_export_def WAH_CHECK_eq_Inl dest: resolve_export_error)

lemma bind_function_import_ok:
  assumes w: "link_world_ok w" and found: "\<And>p c. found = Some (p, c) \<Longrightarrow> place_ok w (ctx, p, c, 0)"
  shows "\<exists>r. bind_function_import answers w ctx importer fi found = Some r
    \<and> (\<forall>f. r = Inr f \<longrightarrow> bound_ok w f \<and> import_matches w importer (fi_type_index fi) f)
    \<and> (\<forall>err. r = Inl err \<longrightarrow> err = WAH_ERROR_LINK_FAILED)"
proof (cases found)
  case None
  then show ?thesis by (simp add: bind_function_import_def)
next
  case (Some pc)
  obtain p c where pc: "pc = (p, c)" by (cases pc)
  show ?thesis
  proof (cases "wah_find_export (module_at w p) 0 (fi_name fi)")
    case None
    then show ?thesis by (simp add: bind_function_import_def Some pc)
  next
    case e: (Some e)
    have place: "place_ok w (ctx, p, c, exp_index e)" using found [of p c] Some pc by (simp add: place_ok_def)
    show ?thesis
    proof (cases "wah_resolve_function_export w ctx p c (exp_index e)")
      case (Inl err)
      then show ?thesis using resolve_function_error by (simp add: bind_function_import_def Some pc e)
    next
      case (Inr y)
      obtain q qc l src g where y: "y = (q, qc, l, src, g)" by (metis surj_pair)
      have src: "source_ok w q l src" using resolve_function_ok [OF w place] Inr y by simp
      from validate_function_import_ok [OF w src, of answers importer "fi_type_index fi" qc e ctx] obtain r where
        r: "wah_validate_function_import_type answers (ref_at w importer) (fi_type_index fi) (ref_at w q) l src = Some r"
        "r = Inr () \<Longrightarrow> bound_ok w (wah_bind_function_import_slot q qc e l src ctx)
           \<and> import_matches w importer (fi_type_index fi) (wah_bind_function_import_slot q qc e l src ctx)"
        "\<And>err. r = Inl err \<Longrightarrow> err = WAH_ERROR_LINK_FAILED" by blast
      have "bind_function_import answers w ctx importer fi found
          = Some (WAH_CHECK r (\<lambda>_. Inr (wah_bind_function_import_slot q qc e l src ctx)))"
        using Inr r(1) by (simp add: bind_function_import_def Some pc e y)
      then show ?thesis using r(2,3) by (cases r) auto
    qed
  qed
qed

definition set_function_table :: "nat \<Rightarrow> wah_bound_function list \<Rightarrow> link_world \<Rightarrow> link_world" where
  "set_function_table ctx table = update_link_ctx ctx (\<lambda>c. c\<lparr>lx_function_table := table\<rparr>)"

lemma set_table_simps [simp]:
  "lw_modules (set_function_table ctx table w) = lw_modules w"
  "lx_function_table (lw_ctxs (set_function_table ctx table w) ctx) = table"
  "lx_module (lw_ctxs (set_function_table ctx table w) k) = lx_module (lw_ctxs w k)"
  "lx_linked_modules (lw_ctxs (set_function_table ctx table w) k) = lx_linked_modules (lw_ctxs w k)"
  "k \<noteq> ctx \<Longrightarrow> lw_ctxs (set_function_table ctx table w) k = lw_ctxs w k"
  "module_at (set_function_table ctx table w) = module_at w"
  "ref_at (set_function_table ctx table w) = ref_at w"
  "set_function_table ctx t2 (set_function_table ctx table w) = set_function_table ctx t2 w"
  by (auto simp: set_function_table_def update_link_ctx_def module_at_def ref_at_def fun_eq_iff)

lemma set_table_props [simp]:
  "bound_ok (set_function_table ctx table w) = bound_ok w"
  "import_matches (set_function_table ctx table w) = import_matches w"
  by (simp_all add: bound_ok_def import_matches_def fun_eq_iff)

lemma set_table_ok:
  assumes w: "link_world_ok w" and "i < length (lx_function_table (lw_ctxs w ctx))" "bound_ok w f"
  shows "link_world_ok (set_function_table ctx ((lx_function_table (lw_ctxs w ctx))[i := f]) w)" (is "link_world_ok ?w")
proof -
  have "slot_unbound (lx_function_table (lw_ctxs ?w k) ! j) \<or> bound_ok w (lx_function_table (lw_ctxs ?w k) ! j)"
    if "j < length (func_imports (module_at w (lx_module (lw_ctxs w k))))" "j < length (lx_function_table (lw_ctxs ?w k))" for k j
    using that assms by (cases "k = ctx"; cases "i = j") (auto simp: link_world_ok_def)
  then show ?thesis using w unfolding link_world_ok_def by simp
qed

lemma bind_primary_imports_ok:
  assumes "link_world_ok w" "\<forall>i \<in> set is. i < length (lx_function_table (lw_ctxs w ctx))" "distinct is"
  shows "\<exists>r. bind_primary_imports answers ctx is w = Some r \<and> (\<forall>err. r = Inl err \<longrightarrow> err = WAH_ERROR_LINK_FAILED)
    \<and> (\<forall>w'. r = Inr w' \<longrightarrow> link_world_ok w' \<and> (\<exists>table. w' = set_function_table ctx table w
         \<and> length table = length (lx_function_table (lw_ctxs w ctx))
         \<and> (\<forall>i. i \<notin> set is \<longrightarrow> table ! i = lx_function_table (lw_ctxs w ctx) ! i)
         \<and> (\<forall>i \<in> set is. bound_ok w (table ! i)
              \<and> import_matches w (lx_module (lw_ctxs w ctx)) (fi_type_index (func_imports (module_at w (lx_module (lw_ctxs w ctx))) ! i)) (table ! i))))"
  using assms
proof (induction "is" arbitrary: w)
  case Nil
  have "w = set_function_table ctx (lx_function_table (lw_ctxs w ctx)) w" by (simp add: set_function_table_def update_link_ctx_def)
  then show ?case using Nil by fastforce
next
  case (Cons i "is")
  let ?c = "lw_ctxs w ctx"
  let ?fi = "func_imports (module_at w (lx_module ?c)) ! i"
  let ?bind = "bind_function_import (answers i) w ctx (lx_module ?c) ?fi
    (map_option (\<lambda>lm. (le_module lm, le_ctx lm)) (wah_find_linked_module ?c (fi_name ?fi)))"
  have place: "place_ok w (ctx, p, c, 0)" if "map_option (\<lambda>lm. (le_module lm, le_ctx lm)) (wah_find_linked_module ?c (fi_name ?fi)) = Some (p, c)" for p c
    using that found_place_ok [OF Cons.prems(1)] by auto
  from bind_function_import_ok [OF Cons.prems(1) place, where answers = "answers i" and importer = "lx_module ?c" and fi = ?fi] obtain r where
    r: "?bind = Some r" "\<And>f. r = Inr f \<Longrightarrow> bound_ok w f \<and> import_matches w (lx_module ?c) (fi_type_index ?fi) f"
    "\<And>err. r = Inl err \<Longrightarrow> err = WAH_ERROR_LINK_FAILED" by blast
  show ?case
  proof (cases r)
    case (Inl err)
    then show ?thesis using r by (auto simp: Let_def)
  next
    case (Inr f)
    let ?w = "set_function_table ctx ((lx_function_table ?c)[i := f]) w"
    have f: "bound_ok w f" "import_matches w (lx_module ?c) (fi_type_index ?fi) f" using r(2) Inr by auto
    have ok: "link_world_ok ?w" using set_table_ok [OF Cons.prems(1) _ f(1)] Cons.prems(2) by simp
    have run: "bind_primary_imports answers ctx (i # is) w = bind_primary_imports answers ctx is ?w"
      using r(1) Inr by (simp add: Let_def set_function_table_def update_link_ctx_def)
    have "\<forall>j \<in> set is. j < length (lx_function_table (lw_ctxs ?w ctx))" "distinct is" using Cons.prems(2,3) by simp_all
    from Cons.IH [OF ok this] obtain r' where r': "bind_primary_imports answers ctx is ?w = Some r'"
      "\<forall>err. r' = Inl err \<longrightarrow> err = WAH_ERROR_LINK_FAILED"
      "\<forall>w'. r' = Inr w' \<longrightarrow> link_world_ok w' \<and> (\<exists>table. w' = set_function_table ctx table w
         \<and> length table = length (lx_function_table ?c) \<and> (\<forall>j. j \<notin> set is \<longrightarrow> table ! j = (lx_function_table ?c)[i := f] ! j)
         \<and> (\<forall>j \<in> set is. bound_ok w (table ! j)
              \<and> import_matches w (lx_module ?c) (fi_type_index (func_imports (module_at w (lx_module ?c)) ! j)) (table ! j)))"
      by auto
    have i: "i \<notin> set is" "i < length (lx_function_table ?c)" using Cons.prems(2,3) by simp_all
    have "\<forall>w'. r' = Inr w' \<longrightarrow> link_world_ok w' \<and> (\<exists>table. w' = set_function_table ctx table w
         \<and> length table = length (lx_function_table ?c) \<and> (\<forall>j. j \<notin> set (i # is) \<longrightarrow> table ! j = lx_function_table ?c ! j)
         \<and> (\<forall>j \<in> set (i # is). bound_ok w (table ! j)
              \<and> import_matches w (lx_module ?c) (fi_type_index (func_imports (module_at w (lx_module ?c)) ! j)) (table ! j)))"
    proof (intro allI impI conjI)
      fix w'
      assume "r' = Inr w'"
      with r'(3) obtain table where t: "link_world_ok w'" "w' = set_function_table ctx table w" "length table = length (lx_function_table ?c)"
        "\<forall>j. j \<notin> set is \<longrightarrow> table ! j = (lx_function_table ?c)[i := f] ! j"
        "\<forall>j \<in> set is. bound_ok w (table ! j) \<and> import_matches w (lx_module ?c) (fi_type_index (func_imports (module_at w (lx_module ?c)) ! j)) (table ! j)"
        by blast
      show "link_world_ok w'" by (rule t(1))
      have "table ! i = f" using t(4) i by simp
      then show "\<exists>table. w' = set_function_table ctx table w
         \<and> length table = length (lx_function_table ?c) \<and> (\<forall>j. j \<notin> set (i # is) \<longrightarrow> table ! j = lx_function_table ?c ! j)
         \<and> (\<forall>j \<in> set (i # is). bound_ok w (table ! j)
              \<and> import_matches w (lx_module ?c) (fi_type_index (func_imports (module_at w (lx_module ?c)) ! j)) (table ! j))"
        using t f by (intro exI [of _ table]) auto
    qed
    then show ?thesis unfolding run using r'(1,2) by blast
  qed
qed

section \<open>The links of a context\<close>

text \<open>Entries of the same module are of contexts, and alias one only if it has no functions of the host.\<close>

definition alias_ok :: "link_world \<Rightarrow> link_entry \<Rightarrow> link_entry \<Rightarrow> bool" where
  "alias_ok w a b \<longleftrightarrow> (le_module a = le_module b \<longrightarrow> le_ctx a \<noteq> None \<and> le_ctx b \<noteq> None
     \<and> (le_ctx a = le_ctx b \<longrightarrow> length (lk_functions (lw_modules w (le_module a))) = length (function_type_indices (module_at w (le_module a)))))"

definition entry_ok :: "link_world \<Rightarrow> nat \<Rightarrow> link_entry \<Rightarrow> bool" where
  "entry_ok w k lm \<longleftrightarrow> le_module lm \<noteq> 0 \<and> le_module lm \<noteq> lx_module (lw_ctxs w k)
     \<and> (\<forall>c. le_ctx lm = Some c \<longrightarrow> lx_is_instantiated (lw_ctxs w c) \<and> le_module lm = lx_module (lw_ctxs w c)
          \<and> k \<in> set (lx_dependents (lw_ctxs w c)) \<and> (\<forall>h. lx_gc (lw_ctxs w c) = Some h \<longrightarrow> k \<in> set (gc_gc_dependents (lw_heaps w h))))"

definition links_ok :: "link_world \<Rightarrow> nat \<Rightarrow> bool" where
  "links_ok w k \<longleftrightarrow> (let ls = lx_linked_modules (lw_ctxs w k) in
     distinct (map le_name ls) \<and> list_all (entry_ok w k) ls \<and> sorted_wrt (alias_ok w) ls)"

text \<open>What linking keeps of a world: nothing is taken away, and only \<open>ctx\<close> gets an entry.\<close>

definition links_kept :: "link_world \<Rightarrow> link_world \<Rightarrow> bool" where
  "links_kept w w' \<longleftrightarrow> lw_modules w' = lw_modules w
     \<and> (\<forall>k. lx_module (lw_ctxs w' k) = lx_module (lw_ctxs w k) \<and> lx_gc (lw_ctxs w' k) = lx_gc (lw_ctxs w k)
          \<and> lx_is_instantiated (lw_ctxs w' k) = lx_is_instantiated (lw_ctxs w k)
          \<and> set (lx_dependents (lw_ctxs w k)) \<subseteq> set (lx_dependents (lw_ctxs w' k)))
     \<and> (\<forall>h. set (gc_gc_dependents (lw_heaps w h)) \<subseteq> set (gc_gc_dependents (lw_heaps w' h)))"

lemma links_kept_entry: "links_kept w w' \<Longrightarrow> entry_ok w k lm \<Longrightarrow> entry_ok w' k lm"
  unfolding links_kept_def entry_ok_def by (metis subsetD)

lemma links_kept_ok:
  assumes "links_kept w w'" "links_ok w k" "lx_linked_modules (lw_ctxs w' k) = lx_linked_modules (lw_ctxs w k)"
  shows "links_ok w' k"
proof -
  have "alias_ok w' = alias_ok w" using assms(1) by (simp add: links_kept_def alias_ok_def module_at_def fun_eq_iff)
  then show ?thesis using assms links_kept_entry [OF assms(1)] by (auto simp: links_ok_def Let_def list_all_iff)
qed

lemma links_kept_refl: "links_kept w w"
  by (simp add: links_kept_def)

lemma links_kept_trans: "links_kept u v \<Longrightarrow> links_kept v w \<Longrightarrow> links_kept u w"
  unfolding links_kept_def by (metis subset_trans)

lemma add_linked_simps [simp]:
  "lw_modules (add_linked_module ctx lm w) = lw_modules w"
  "lw_heaps (add_linked_module ctx lm w) = lw_heaps w"
  "lx_linked_modules (lw_ctxs (add_linked_module ctx lm w) ctx) = lx_linked_modules (lw_ctxs w ctx) @ [lm]"
  "k \<noteq> ctx \<Longrightarrow> lx_linked_modules (lw_ctxs (add_linked_module ctx lm w) k) = lx_linked_modules (lw_ctxs w k)"
  "lx_module (lw_ctxs (add_linked_module ctx lm w) k) = lx_module (lw_ctxs w k)"
  "lx_gc (lw_ctxs (add_linked_module ctx lm w) k) = lx_gc (lw_ctxs w k)"
  "lx_dependents (lw_ctxs (add_linked_module ctx lm w) k) = lx_dependents (lw_ctxs w k)"
  "lx_is_instantiated (lw_ctxs (add_linked_module ctx lm w) k) = lx_is_instantiated (lw_ctxs w k)"
  by (auto simp: add_linked_module_def update_link_ctx_def)

lemma link_checks_ok:
  assumes "link_checks cap copied w c name md lc = Inr u"
  shows "\<forall>lm \<in> set (lx_linked_modules c). le_name lm \<noteq> name" "md \<noteq> lx_module c"
    "\<forall>lm \<in> set (lx_linked_modules c). alias_ok w lm \<lparr> le_name = name, le_module = md, le_ctx = lc, le_owns_ctx = False \<rparr>"
  using assms by (auto simp: link_checks_def wah_check_linked_module_def res_simps list_ex_iff list_all_iff alias_ok_def split: if_splits)

lemma find_app: "find P (xs @ ys) = (case find P xs of None \<Rightarrow> find P ys | Some x \<Rightarrow> Some x)"
  by (induction xs) auto

text \<open>An entry that passed the checks, and whose context is registered, can be added.\<close>

lemma add_linked_ok:
  assumes ok: "\<forall>k. links_ok w k" and checks: "link_checks cap copied w (lw_ctxs w ctx) name md lc = Inr u"
    and kept: "links_kept w w1" "\<forall>k. lx_linked_modules (lw_ctxs w1 k) = lx_linked_modules (lw_ctxs w k)"
  defines "lm \<equiv> \<lparr> le_name = name, le_module = md, le_ctx = lc, le_owns_ctx = False \<rparr>"
  defines "w' \<equiv> add_linked_module ctx lm w1"
  assumes entry: "entry_ok w1 ctx lm"
  shows "\<forall>k. links_ok w' k"
    "wah_find_linked_module (lw_ctxs w' ctx) n = (if in_module n = name then Some lm else wah_find_linked_module (lw_ctxs w ctx) n)"
proof -
  note C = link_checks_ok [OF checks]
  have kept': "links_kept w1 w'" by (simp add: w'_def links_kept_def)
  have aok: "alias_ok w' = alias_ok w" using kept(1) by (simp add: links_kept_def alias_ok_def module_at_def fun_eq_iff w'_def)
  have ls: "lx_linked_modules (lw_ctxs w' ctx) = lx_linked_modules (lw_ctxs w ctx) @ [lm]" using kept(2) by (simp add: w'_def)
  show "\<forall>k. links_ok w' k"
  proof
    fix k
    show "links_ok w' k"
    proof (cases "k = ctx")
      case True
      have "links_ok w ctx" using ok by blast
      then have "list_all (entry_ok w' ctx) (lx_linked_modules (lw_ctxs w ctx))" "distinct (map le_name (lx_linked_modules (lw_ctxs w ctx)))"
        "sorted_wrt (alias_ok w) (lx_linked_modules (lw_ctxs w ctx))"
        using links_kept_entry [OF links_kept_trans [OF kept(1) kept']] by (auto simp: links_ok_def Let_def list_all_iff)
      moreover have "entry_ok w' ctx lm" using links_kept_entry [OF kept' entry] .
      moreover have "name \<notin> le_name ` set (lx_linked_modules (lw_ctxs w ctx))" using C(1) by auto
      ultimately show ?thesis using C(3) True by (auto simp: links_ok_def Let_def ls aok sorted_wrt_append lm_def)
    next
      case False
      then show ?thesis using ok kept(2) links_kept_ok [OF links_kept_trans [OF kept(1) kept'], of k] by (simp add: w'_def)
    qed
  qed
  show "wah_find_linked_module (lw_ctxs w' ctx) n = (if in_module n = name then Some lm else wah_find_linked_module (lw_ctxs w ctx) n)"
  proof (cases "in_module n = name")
    case True
    then have "find (\<lambda>lm. le_name lm = name) (lx_linked_modules (lw_ctxs w ctx)) = None" using C(1) by (auto simp: find_None_iff)
    then show ?thesis using True by (simp add: wah_find_linked_module_def ls find_app lm_def)
  next
    case False
    then show ?thesis by (simp add: wah_find_linked_module_def ls find_app lm_def split: option.split)
  qed
qed

lemma link_module_adds:
  assumes "\<forall>k. links_ok w k" "wah_link_module cap copied ctx (Some name) md w = Inr w'"
  shows "\<forall>k. links_ok w' k"
    "wah_find_linked_module (lw_ctxs w' ctx) n
       = (if in_module n = name then Some \<lparr> le_name = name, le_module = md, le_ctx = None, le_owns_ctx = False \<rparr>
          else wah_find_linked_module (lw_ctxs w ctx) n)"
proof -
  let ?lm = "\<lparr> le_name = name, le_module = md, le_ctx = None, le_owns_ctx = False \<rparr>"
  from assms(2) obtain u where u: "link_checks cap copied w (lw_ctxs w ctx) name md None = Inr u" "md \<noteq> 0"
    and w': "w' = add_linked_module ctx ?lm w" by (auto simp: wah_link_module_def Let_def res_simps)
  have "entry_ok w ctx ?lm" using u link_checks_ok(2) [OF u(1)] by (simp add: entry_ok_def)
  from add_linked_ok [OF assms(1) u(1) links_kept_refl _ this] show "\<forall>k. links_ok w' k"
    "wah_find_linked_module (lw_ctxs w' ctx) n = (if in_module n = name then Some ?lm else wah_find_linked_module (lw_ctxs w ctx) n)"
    unfolding w' by simp_all
qed

lemma index_of_append: "x \<notin> set xs \<Longrightarrow> index_of x (xs @ [x]) = Some (length xs)"
  by (induction xs) auto

lemma unregister_new: "dep \<notin> set (gc_gc_dependents gc) \<Longrightarrow>
   wah_gc_unregister_dependent dep (gc\<lparr>gc_gc_dependents := gc_gc_dependents gc @ [dep]\<rparr>) = gc"
  by (simp add: wah_gc_unregister_dependent_def index_of_append)

text \<open>A failed registration leaves the world as it was.\<close>

lemma register_heap_ok:
  assumes "register_heap_link g ctx c w = Inr w1"
  shows "unregister_heap_link ctx c w w1 = w" "lw_ctxs w1 = lw_ctxs w" "links_kept w w1"
    "lx_gc c = Some h \<Longrightarrow> ctx \<in> set (gc_gc_dependents (lw_heaps w1 h))"
proof -
  have "w1 = w \<and> (\<forall>h. lx_gc c = Some h \<longrightarrow> ctx \<in> set (gc_gc_dependents (lw_heaps w h)))
    \<or> (\<exists>h. lx_gc c = Some h \<and> ctx \<notin> set (gc_gc_dependents (lw_heaps w h))
         \<and> w1 = update_link_heap h (\<lambda>gc. gc\<lparr>gc_gc_dependents := gc_gc_dependents gc @ [ctx]\<rparr>) w)"
    using assms by (auto simp: register_heap_link_def wah_gc_register_dependent_def update_link_heap_def res_simps split: option.splits if_splits)
  then show "unregister_heap_link ctx c w w1 = w" "lw_ctxs w1 = lw_ctxs w" "links_kept w w1"
    "lx_gc c = Some h \<Longrightarrow> ctx \<in> set (gc_gc_dependents (lw_heaps w1 h))"
    using unregister_new by (auto simp: unregister_heap_link_def update_link_heap_def links_kept_def split: option.splits)
qed

lemma register_link_failed:
  assumes "register_link hg g ctx k w = (Inl e, w')"
  shows "w' = w"
  using assms register_heap_ok(1) by (auto simp: register_link_def split: sum.splits)

lemma register_link_ok:
  assumes "register_link hg g ctx k w = (Inr u, w')"
  shows "links_kept w w'" "\<forall>j. lx_linked_modules (lw_ctxs w' j) = lx_linked_modules (lw_ctxs w j)"
    "ctx \<in> set (lx_dependents (lw_ctxs w' k))" "lx_gc (lw_ctxs w k) = Some h \<Longrightarrow> ctx \<in> set (gc_gc_dependents (lw_heaps w' h))"
proof -
  from assms obtain w1 c where w1: "register_heap_link hg ctx (lw_ctxs w k) w = Inr w1"
    "wah_register_dependent g ctx (lw_ctxs w1 k) = Inr c" "w' = update_link_ctx k (\<lambda>_. c) w1"
    by (auto simp: register_link_def split: sum.splits)
  note h = register_heap_ok [OF w1(1)]
  have c: "ctx \<in> set (lx_dependents c)" "set (lx_dependents (lw_ctxs w k)) \<subseteq> set (lx_dependents c)"
    "lx_module c = lx_module (lw_ctxs w k)" "lx_gc c = lx_gc (lw_ctxs w k)" "lx_is_instantiated c = lx_is_instantiated (lw_ctxs w k)"
    "lx_linked_modules c = lx_linked_modules (lw_ctxs w k)"
    using w1(2) h(2) by (auto simp: wah_register_dependent_def res_simps split: if_splits)
  then have "links_kept w1 w'" using h(2) by (auto simp: w1(3) update_link_ctx_def links_kept_def)
  then show "links_kept w w'" using h(3) links_kept_trans by blast
  show "\<forall>j. lx_linked_modules (lw_ctxs w' j) = lx_linked_modules (lw_ctxs w j)" "ctx \<in> set (lx_dependents (lw_ctxs w' k))"
    "lx_gc (lw_ctxs w k) = Some h \<Longrightarrow> ctx \<in> set (gc_gc_dependents (lw_heaps w' h))" for h
    using c h(2,4) by (auto simp: w1(3) update_link_ctx_def)
qed

text \<open>What linking a context promises: a failure changes nothing, and a success adds one entry under the name and keeps the links.\<close>

definition link_result :: "link_world \<Rightarrow> nat \<Rightarrow> bytes \<Rightarrow> nat \<Rightarrow> unit res \<times> link_world \<Rightarrow> bool" where
  "link_result w ctx name k result \<longleftrightarrow>
    (case result of
       (Inl e, w') \<Rightarrow> w' = w
     | (Inr _, w') \<Rightarrow> (\<forall>j. links_ok w' j) \<and> ctx \<in> set (lx_dependents (lw_ctxs w' k))
         \<and> (\<forall>n. wah_find_linked_module (lw_ctxs w' ctx) n
              = (if in_module n = name then Some \<lparr> le_name = name, le_module = lx_module (lw_ctxs w k), le_ctx = Some k, le_owns_ctx = False \<rparr>
                 else wah_find_linked_module (lw_ctxs w ctx) n)))"

lemma link_context_ok:
  assumes ok: "\<forall>j. links_ok w j" and k: "lx_module (lw_ctxs w k) \<noteq> 0"
  shows "link_result w ctx name k (wah_link_context cap copied hg g ctx (Some name) (Some k) w)"
proof (cases "wah_link_context cap copied hg g ctx (Some name) (Some k) w")
  case (Pair r w')
  let ?lm = "\<lparr> le_name = name, le_module = lx_module (lw_ctxs w k), le_ctx = Some k, le_owns_ctx = False \<rparr>"
  show ?thesis
  proof (cases r)
    case (Inl e)
    then have "w' = w" using Pair register_link_failed by (auto simp: wah_link_context_def Let_def split: sum.splits prod.splits)
    then show ?thesis by (simp add: Pair Inl link_result_def)
  next
    case (Inr u)
    with Pair obtain u' v w1 where c: "link_checks cap copied w (lw_ctxs w ctx) name (lx_module (lw_ctxs w k)) (Some k) = Inr u'"
      "lx_is_instantiated (lw_ctxs w k)" and r: "register_link hg g ctx k w = (Inr v, w1)" and w': "w' = add_linked_module ctx ?lm w1"
      by (auto simp: wah_link_context_def Let_def res_simps split: sum.splits prod.splits)
    note R = register_link_ok [OF r] and C = link_checks_ok [OF c(1)]
    have "entry_ok w1 ctx ?lm" using k c(2) C(2) R by (auto simp: entry_ok_def links_kept_def)
    from add_linked_ok [OF ok c(1) R(1,2) this] show ?thesis using R(3) by (simp add: Pair Inr link_result_def w')
  qed
qed

section \<open>Properties\<close>

text \<open>C8: resolving the function imports of a module always ends; if it succeeds, every import is bound to a function whose
  type is that of the import or a subtype of it, nothing but the slots of the imports changes, and the bound slots of all contexts stay
  valid, so that later modules can import them.\<close>

theorem import_resolution_typed:
  assumes "link_world_ok w" "m = module_at w (lx_module (lw_ctxs w ctx))" "length (func_imports m) \<le> length (lx_function_table (lw_ctxs w ctx))"
  shows "\<exists>r. wah_resolve_primary_func_imports answers ctx w = Some r
    \<and> (case r of
         Inl e \<Rightarrow> e = WAH_ERROR_LINK_FAILED
       | Inr w' \<Rightarrow> link_world_ok w' \<and> (\<exists>table. w' = set_function_table ctx table w
           \<and> length table = length (lx_function_table (lw_ctxs w ctx))
           \<and> (\<forall>i < length (func_imports m). bound_ok w' (table ! i)
                \<and> import_matches w' (lx_module (lw_ctxs w ctx)) (fi_type_index (func_imports m ! i)) (table ! i))
           \<and> (\<forall>i \<ge> length (func_imports m). table ! i = lx_function_table (lw_ctxs w ctx) ! i)))"
proof -
  have "\<forall>i \<in> set [0..<length (func_imports m)]. i < length (lx_function_table (lw_ctxs w ctx))" using assms(3) by auto
  from bind_primary_imports_ok [OF assms(1) this distinct_upt, of answers] obtain r where
    "bind_primary_imports answers ctx [0..<length (func_imports m)] w = Some r" "\<forall>err. r = Inl err \<longrightarrow> err = WAH_ERROR_LINK_FAILED"
    "\<forall>w'. r = Inr w' \<longrightarrow> link_world_ok w' \<and> (\<exists>table. w' = set_function_table ctx table w
         \<and> length table = length (lx_function_table (lw_ctxs w ctx))
         \<and> (\<forall>i. i \<notin> set [0..<length (func_imports m)] \<longrightarrow> table ! i = lx_function_table (lw_ctxs w ctx) ! i)
         \<and> (\<forall>i \<in> set [0..<length (func_imports m)]. bound_ok w (table ! i)
              \<and> import_matches w (lx_module (lw_ctxs w ctx)) (fi_type_index (func_imports m ! i)) (table ! i)))"
    unfolding assms(2) by blast
  then show ?thesis
    by (cases r) (force simp: wah_resolve_primary_func_imports_def assms(2) [symmetric])+
qed

text \<open>C40: a resolver of exports finds what the chain of imports stands for, if the chain is short enough, and nothing else: what
  it finds does not depend on the way, and a chain that comes back to itself is rejected.\<close>

theorem reexport_chain:
  "(\<forall>t. resolve_export WAH_REEXPORT_MAX_DEPTH R w ns p c idx = Inr t
      \<longleftrightarrow> (\<exists>n < WAH_REEXPORT_MAX_DEPTH. stands_for R w n (ns, p, c, idx) t))
   \<and> (\<forall>n t n' t'. stands_for R w n (ns, p, c, idx) t \<and> stands_for R w n' (ns, p, c, idx) t' \<longrightarrow> t = t')
   \<and> ((export_step R w)\<^sup>+\<^sup>+ (ns, p, c, idx) (ns, p, c, idx)
      \<longrightarrow> resolve_export WAH_REEXPORT_MAX_DEPTH R w ns p c idx = Inl WAH_ERROR_LINK_FAILED)"
  by (intro conjI allI impI, rule resolve_export_ok, elim conjE, rule stands_for_fun, assumption, assumption, rule cycle_rejected)

text \<open>C9: linking a context adds one entry, found under its name and under no other, registers the linking context with the
  linked one and its heap, and keeps names distinct and instances apart; if it fails, for whatever reason, nothing has changed.
  This is for worlds in which every linked context has registered those that link it, so the contexts that a context owns,
  for which none is registered, are left out.\<close>

theorem link_context_correct:
  assumes "\<forall>j. links_ok w j" "lx_module (lw_ctxs w k) \<noteq> 0"
  shows "link_result w ctx name k (wah_link_context cap copied heap_grown grown ctx (Some name) (Some k) w)"
  using assms by (rule link_context_ok)

section \<open>A world of modules\<close>

text \<open>The modules 1 and 2 export the imports they have from each other, module 3 has a function, which module 5 exports again and
  which module 4 imports.\<close>

definition fn_module :: wah_module where
  "fn_module = wah_module_zero\<lparr>types := [\<lparr>ft_param_types = [], ft_result_types = []\<rparr>],
     type_defs := [(demo_struct None 0)\<lparr>td_kind := WAH_COMP_FUNC, td_field_types := [], td_field_mutables := []\<rparr>], export_order := [0]\<rparr>"

definition forwarder :: "bytes \<Rightarrow> wah_module" where
  "forwarder name = fn_module\<lparr>func_imports := [\<lparr> fi_name = \<lparr> in_module = name, in_field = [102] \<rparr>, fi_type_index = 0 \<rparr>],
     exports := [\<lparr> exp_name = [102], exp_kind = 0, exp_index = 0 \<rparr>]\<rparr>"

definition provider_module :: wah_module where
  "provider_module = fn_module\<lparr>function_type_indices := [0], exports := [\<lparr> exp_name = [102], exp_kind = 0, exp_index = 0 \<rparr>]\<rparr>"

definition ex_modules :: "u64 \<Rightarrow> link_module" where
  "ex_modules p = (if p = 1 then \<lparr> lk_module = forwarder [98], lk_functions = [] \<rparr>
     else if p = 2 then \<lparr> lk_module = forwarder [97], lk_functions = [] \<rparr>
     else if p = 3 then \<lparr> lk_module = provider_module, lk_functions = [wah_bound_function_zero\<lparr>bf_module := 3\<rparr>] \<rparr>
     else if p = 4 then \<lparr> lk_module = forwarder [100], lk_functions = [] \<rparr>
     else \<lparr> lk_module = forwarder [99], lk_functions = [] \<rparr>)"

definition ex_link_ctx :: "u64 \<Rightarrow> link_entry list \<Rightarrow> wah_bound_function list \<Rightarrow> bool \<Rightarrow> link_context" where
  "ex_link_ctx p ls table inst = \<lparr> lx_module = p, lx_linked_modules = ls, lx_function_table = table, lx_ready = True,
     lx_is_instantiated = inst, lx_instantiate_failed = False, lx_poisoned = False, lx_enabled_features = 0, lx_gc = None, lx_dependents = [] \<rparr>"

definition ex_entries :: "link_entry list" where
  "ex_entries = [\<lparr> le_name = [97], le_module = 1, le_ctx = None, le_owns_ctx = False \<rparr>,
     \<lparr> le_name = [98], le_module = 2, le_ctx = None, le_owns_ctx = False \<rparr>,
     \<lparr> le_name = [99], le_module = 3, le_ctx = None, le_owns_ctx = False \<rparr>,
     \<lparr> le_name = [100], le_module = 5, le_ctx = None, le_owns_ctx = False \<rparr>]"

definition ex_link_world :: link_world where
  "ex_link_world = \<lparr> lw_modules = ex_modules,
     lw_ctxs = (\<lambda>k. if k = 0 then ex_link_ctx 4 ex_entries [wah_bound_function_zero] False
       else ex_link_ctx 3 [] [wah_bound_function_zero\<lparr>bf_module := 3\<rparr>] True),
     lw_heaps = (\<lambda>h. \<lparr> gc_all_objects = 0, gc_phase = WAH_GC_PHASE_IDLE, gc_object_count = 0, gc_exception_count = 0,
       gc_allocated_bytes = 0, gc_allocation_threshold = 0, gc_other_heap_bytes = 0, gc_pending = False, gc_owner = 0,
       gc_gc_dependents = [], gc_host_call = None \<rparr>) \<rparr>"

lemma one_function_type_wf:
  assumes "type_defs m = [(demo_struct None 0)\<lparr>td_kind := WAH_COMP_FUNC, td_field_types := [], td_field_mutables := []\<rparr>]"
    "types m = [\<lparr>ft_param_types = [], ft_result_types = []\<rparr>]" "canonical_map m = None"
  shows "cross_wf m"
  by (auto simp: cross_wf_def wf_types_def wf_group_def wf_refs_def type_refs_def assms demo_struct_def)

lemma ex_module_types: "type_defs (lk_module (ex_modules p)) = type_defs fn_module" "types (lk_module (ex_modules p)) = types fn_module"
  "canonical_map (lk_module (ex_modules p)) = None"
  by (simp_all add: ex_modules_def forwarder_def provider_module_def fn_module_def wah_module_zero_def)

lemma ex_cross_wf: "cross_wf (lk_module (ex_modules p))"
  by (rule one_function_type_wf) (simp_all add: ex_module_types fn_module_def)

lemma ex_module_functions:
  "lk_functions (ex_modules p) = (if p = 3 then [wah_bound_function_zero\<lparr>bf_module := 3\<rparr>] else [])"
  "function_type_indices (lk_module (ex_modules p)) = (if p = 3 then [0] else [])"
  "length (func_imports (lk_module (ex_modules p))) = (if p = 3 then 0 else 1)"
  by (simp_all add: ex_modules_def forwarder_def provider_module_def fn_module_def wah_module_zero_def)

lemma ex_module_ok: "link_module_ok (ex_modules p)"
proof -
  have "length (types (lk_module (ex_modules p))) = 1" "length (type_defs (lk_module (ex_modules p))) = 1"
    "\<forall>ft \<in> set (types (lk_module (ex_modules p))). ft_param_types ft = [] \<and> ft_result_types ft = []"
    by (simp_all add: ex_module_types fn_module_def)
  then show ?thesis using ex_cross_wf [of p]
    by (simp add: link_module_ok_def Let_def sig_in_def ex_module_functions wah_bound_function_zero_def)
qed

lemma ex_world_ok: "link_world_ok ex_link_world"
proof -
  let ?w = "ex_link_world"
  have w: "lw_modules ?w = ex_modules" "lw_ctxs ?w 0 = ex_link_ctx 4 ex_entries [wah_bound_function_zero] False"
    "k \<noteq> 0 \<Longrightarrow> lw_ctxs ?w k = ex_link_ctx 3 [] [wah_bound_function_zero\<lparr>bf_module := 3\<rparr>] True" for k by (simp_all add: ex_link_world_def)
  have "(\<forall>lm \<in> set (lx_linked_modules (lw_ctxs ?w k)). le_module lm \<noteq> 0 \<and> le_ctx lm = None)
      \<and> (\<forall>i < length (func_imports (module_at ?w (lx_module (lw_ctxs ?w k)))). slot_unbound (lx_function_table (lw_ctxs ?w k) ! i))" for k
    by (cases "k = 0") (auto simp: w module_at_def ex_module_functions ex_link_ctx_def ex_entries_def slot_unbound_def wah_bound_function_zero_def)
  then show ?thesis unfolding link_world_ok_def w(1) using ex_module_ok by fastforce
qed

lemma ex_find: "wah_find_export (forwarder name) 0 \<lparr> in_module = n, in_field = [102] \<rparr> = Some \<lparr> exp_name = [102], exp_kind = 0, exp_index = 0 \<rparr>"
  "wah_find_export provider_module 0 \<lparr> in_module = n, in_field = [102] \<rparr> = Some \<lparr> exp_name = [102], exp_kind = 0, exp_index = 0 \<rparr>"
  by (simp_all add: wah_find_export_def wah_find_export_by_name_def wah_export_lower_bound_def forwarder_def provider_module_def fn_module_def
      export_lower_bound_loop.simps wah_export_name_cmp_len_def wah_module_zero_def Let_def)

lemma ex_steps:
  "export_step function_resolver ex_link_world (0, 1, None, 0) (0, 2, None, 0)"
  "export_step function_resolver ex_link_world (0, 2, None, 0) (0, 1, None, 0)"
  "export_step function_resolver ex_link_world (0, 5, None, 0) (0, 3, None, 0)"
proof -
  let ?w = "ex_link_world"
  have w: "lw_ctxs ?w 0 = ex_link_ctx 4 ex_entries [wah_bound_function_zero] False" "lw_modules ?w = ex_modules" by (simp_all add: ex_link_world_def)
  have imp: "er_imports function_resolver (forwarder name) = [\<lparr> in_module = name, in_field = [102] \<rparr>]" for name
    by (simp add: function_resolver_def forwarder_def)
  have m: "module_at ?w 1 = forwarder [98]" "module_at ?w 2 = forwarder [97]" "module_at ?w 5 = forwarder [99]" "module_at ?w 3 = provider_module"
    by (simp_all add: module_at_def w ex_modules_def)
  note step = export_step.step [where idx = 0 and R = function_resolver and w = ?w and c = None and ns = 0 and e = "\<lparr> exp_name = [102], exp_kind = 0, exp_index = 0 \<rparr>"]
  have k: "er_kind function_resolver = 0" "er_resolved function_resolver ?w None 0 = None" "er_index_ok function_resolver x y"
    "wah_link_namespace ?w 0 None = 0" for x y
    by (simp_all add: function_resolver_def resolved_function_def wah_link_namespace_def)
  show "export_step function_resolver ?w (0, 1, None, 0) (0, 2, None, 0)"
    using step [where p = 1 and lm = "ex_entries ! 1"] by (simp add: m imp k w wah_find_linked_module_def ex_link_ctx_def ex_find ex_entries_def)
  show "export_step function_resolver ?w (0, 2, None, 0) (0, 1, None, 0)"
    using step [where p = 2 and lm = "ex_entries ! 0"] by (simp add: m imp k w wah_find_linked_module_def ex_link_ctx_def ex_find ex_entries_def)
  show "export_step function_resolver ?w (0, 5, None, 0) (0, 3, None, 0)"
    using step [where p = 5 and lm = "ex_entries ! 2"] by (simp add: m imp k w wah_find_linked_module_def ex_link_ctx_def ex_find ex_entries_def)
qed

lemma ex_chain: "\<exists>n < WAH_REEXPORT_MAX_DEPTH. stands_for function_resolver ex_link_world n (0, 5, None, 0) (Local_Export 3 None 0 0)"
proof -
  have "export_end function_resolver ex_link_world (0, 3, None, 0) (Local_Export 3 None 0 0)"
    using export_end.local_end [of function_resolver ex_link_world 3 0 0 None]
    by (simp add: function_resolver_def module_at_def ex_link_world_def ex_module_functions)
  then have "stands_for function_resolver ex_link_world 1 (0, 5, None, 0) (Local_Export 3 None 0 0)" using ex_steps(3) by (metis One_nat_def stands_for.simps)
  then show ?thesis
    by (intro exI [of _ 1] conjI) (simp, assumption)
qed

theorem reexport_chain_witness:
  "resolve_export WAH_REEXPORT_MAX_DEPTH function_resolver ex_link_world 0 1 None 0 = Inl WAH_ERROR_LINK_FAILED
   \<and> resolve_export WAH_REEXPORT_MAX_DEPTH function_resolver ex_link_world 0 5 None 0 = Inr (Local_Export 3 None 0 0)"
proof -
  let ?w = "ex_link_world"
  have cycle: "(export_step function_resolver ?w)\<^sup>+\<^sup>+ (0, 1, None, 0) (0, 1, None, 0)" using ex_steps(1,2) by (rule tranclp.trancl_into_trancl [OF tranclp.r_into_trancl])
  show ?thesis
    using reexport_chain [THEN conjunct2, THEN conjunct2, THEN mp, OF cycle] reexport_chain [THEN conjunct1, THEN spec, THEN iffD2, OF ex_chain]
    by (rule conjI)
qed

theorem link_context_correct_witness:
  "link_result ex_link_world 0 [101] 1 (wah_link_context (Inr ()) True True True 0 (Some [101]) (Some 1) ex_link_world)"
proof -
  have "links_ok ex_link_world j" for j
    by (auto simp: links_ok_def Let_def ex_link_world_def ex_link_ctx_def ex_entries_def entry_ok_def alias_ok_def)
  moreover have "lx_module (lw_ctxs ex_link_world 1) \<noteq> 0" by (simp add: ex_link_world_def ex_link_ctx_def)
  ultimately show ?thesis by (intro link_context_correct) auto
qed


text \<open>The import of module 4 is bound to the function of module 3, through module 5.\<close>

lemma ex_bound:
  "bind_function_import (\<lambda>_. []) ex_link_world 0 4 \<lparr> fi_name = \<lparr> in_module = [100], in_field = [102] \<rparr>, fi_type_index = 0 \<rparr> (Some (5, None))
     = Some (Inr (wah_bound_function_zero\<lparr>bf_module := 3\<rparr>))"
proof -
  let ?w = ex_link_world
  have m: "module_at ?w 5 = forwarder [99]" "ref_at ?w 4 = (4, forwarder [100])" "ref_at ?w 3 = (3, provider_module)"
    by (simp_all add: module_at_def ref_at_def ex_link_world_def ex_modules_def)
  have "resolve_export WAH_REEXPORT_MAX_DEPTH function_resolver ?w 0 5 None 0 = Inr (Local_Export 3 None 0 0)"
    using ex_chain by (simp only: resolve_export_ok)
  then have r: "wah_resolve_function_export ?w 0 5 None 0 = Inr (3, None, 0, wah_bound_function_zero\<lparr>bf_module := 3\<rparr>, 0)"
    unfolding wah_resolve_function_export_def by (simp add: ex_link_world_def ex_module_functions)
  have "wah_cross_module_subtype [] (3, provider_module) (WAH_TYPE_FROM_IDX 0 False) (4, forwarder [100]) (WAH_TYPE_FROM_IDX 0 False) = Some True"
    by code_simp
  then show ?thesis
    by (simp add: bind_function_import_def m ex_find r wah_validate_function_import_type_def wah_bind_function_import_slot_def Let_def
        wah_bound_function_zero_def)
      (simp add: forwarder_def provider_module_def fn_module_def)
qed

theorem import_resolution_typed_witness:
  "\<exists>w'. wah_resolve_primary_func_imports (\<lambda>_ _. []) 0 ex_link_world = Some (Inr w') \<and> link_world_ok w'
    \<and> import_matches w' 4 0 (wah_bound_function_zero\<lparr>bf_module := 3\<rparr>)"
proof -
  let ?w = ex_link_world and ?f = "wah_bound_function_zero\<lparr>bf_module := 3\<rparr>"
  have c: "lw_ctxs ?w 0 = ex_link_ctx 4 ex_entries [wah_bound_function_zero] False" "module_at ?w 4 = forwarder [100]"
    by (simp_all add: ex_link_world_def module_at_def ex_modules_def)
  have m: "lx_module (lw_ctxs ?w 0) = 4" "func_imports (forwarder [100]) = [\<lparr> fi_name = \<lparr> in_module = [100], in_field = [102] \<rparr>, fi_type_index = 0 \<rparr>]"
    "lx_function_table (lw_ctxs ?w 0) = [wah_bound_function_zero]"
    by (simp_all add: c ex_link_ctx_def forwarder_def)
  have "wah_find_linked_module (lw_ctxs ?w 0) \<lparr> in_module = [100], in_field = [102] \<rparr> = Some (ex_entries ! 3)"
    by (simp add: c ex_link_ctx_def wah_find_linked_module_def ex_entries_def)
  then have run: "wah_resolve_primary_func_imports (\<lambda>_ _. []) 0 ?w = Some (Inr (set_function_table 0 [?f] ?w))"
    using ex_bound by (simp add: wah_resolve_primary_func_imports_def m c(2) Let_def ex_entries_def set_function_table_def update_link_ctx_def)
  have "length (func_imports (module_at ?w (lx_module (lw_ctxs ?w 0)))) \<le> length (lx_function_table (lw_ctxs ?w 0))" by (simp add: m c(2))
  from import_resolution_typed [OF ex_world_ok refl this, of "\<lambda>_ _. []"] obtain table where
    t: "set_function_table 0 [?f] ?w = set_function_table 0 table ?w" "link_world_ok (set_function_table 0 [?f] ?w)"
    "import_matches (set_function_table 0 [?f] ?w) 4 0 (table ! 0)"
    unfolding run by (auto simp: m c(2))
  from t(1) have "table = [?f]" by (metis set_table_simps(2))
  then show ?thesis using run t(2,3) by auto
qed

end
