(* ===== verification/Spec2Isabelle.thy ===== *)
theory Spec2Isabelle
  imports Wah_Bits Wah_Analyze_Examples Wah_Parse_Examples Wah_GC_Examples Wah_Pins Wah_Link
begin

text \<open>
  A verification development for \<open>wah\<close>, a WebAssembly interpreter in one C header (\<open>src/wah.h\<close>).

  \<^bold>\<open>The program.\<close> A binary module is read by \<open>wah_parse_module\<close>: its sections come in a fixed order, each with a parser
  of its own; types are decoded, checked, made canonical and given an object layout; every function body is analyzed
  (decoded and validated opcode by opcode) and then lowered to bytecode. A module is run in an execution context, which
  may be linked with others; objects live in heaps that a mark and sweep collector manages over all linked
  contexts. The host passes values to running code and keeps references in a table of pins; types of values of different
  modules are compared structurally. The development models reading, checking and laying out a module completely, and of the
  run time the collector, the comparison of types across modules, the linking of modules and the table of pins.

  \<^bold>\<open>The theories\<close>, in the order of the code:

  \<^item> \<open>Wah_Prelude\<close>: error codes (\<open>wah_error_t\<close>), the result type \<open>'a res\<close> of fallible code, \<open>WAH_ENSURE\<close>, shared lemmas on
    lists, results and words.
  \<^item> \<open>Wah_Bits\<close>: population count, leading and trailing zeros, rotations, in the portable branches. They
    equal the counts of the bits of the word.
  \<^item> \<open>Wah_Alloc\<close>: \<open>wah_malloc\<close>, \<open>wah_realloc\<close>, \<open>wah_free\<close> and the growing of arrays over the callbacks of the user, which are
    arguments. Allocation and release are inverse, reallocation keeps the contents, sizes do not wrap.
  \<^item> \<open>Wah_Module\<close>: the compact type encoding, features, and the record of a module (\<open>wah_module_t\<close>).
  \<^item> \<open>Wah_Decode\<close>: LEB128, little-endian access, UTF-8, opcodes, value, heap and storage types. Decoders refine the
    arithmetic of LEB128 and the Unicode definition of well-formed bytes; the locale \<open>stream_decoder\<close> is what every decoder
    promises of the bytes it leaves.
  \<^item> \<open>Wah_Subtype\<close>: subtyping within a module, structural equality of recursion groups, their hashes and the canonical map
    (\<open>canonical_map\<close> of a module). The search by hash finds what a search of all groups finds, and
    canonical types are structurally equal.
  \<^item> \<open>Wah_Layout\<close>: placing the fields of a struct (\<open>wah_build_struct_repr_info\<close>). Fields are aligned, disjoint and within the
    object, and the debug check of the layout accepts it.
  \<^item> \<open>Wah_Types\<close>: the type section and the metadata built from it. Accepted sections are well formed, declared subtypes match,
    fields of a subtype lie where they lie in its supertype. Types defined one by one keep the metadata consistent; that
    a failed definition leaves nothing behind is not stated, since errors carry no state here.
  \<^item> \<open>Wah_Opcodes\<close>, \<open>Wah_Validate\<close>: the table of opcodes and every case of \<open>wah_validate_opcode\<close> with the type and control
    stacks, the initialization of locals and the records of branch tables. \<open>Wah_Validate_Inv\<close> proves invariants once in
    locales (\<open>state_property\<close>, \<open>validator_property\<close>, \<open>control_free_property\<close>) and \<open>Wah_Validate_Spec\<close> states what validation promises.
  \<^item> \<open>Wah_Analyze\<close> (examples in \<open>Wah_Analyze_Examples\<close>): \<open>wah_analyze_stream\<close>, the maps of references on the operand stack
    and their checker, constant expressions, locals, the code section. Accepted bodies are complete and leave their
    results, constant expressions read only earlier immutable globals, and walking a map visits exactly the references of
    the stack.
  \<^item> \<open>Wah_Parse\<close>, \<open>Wah_Parse_Inv\<close> (examples in \<open>Wah_Parse_Examples\<close>): the other sections, the driver, the order of sections, the
    lookup of exports. The declarations of an accepted module are well formed, and its bodies name only data segments
    that exist.
  \<^item> \<open>Wah_Runtime\<close>: objects, heaps, frames, tables, pins, contexts and the enumeration of roots.
  \<^item> \<open>Wah_GC\<close>, \<open>Wah_GC_Inv\<close>, \<open>Wah_GC_Collect\<close> (examples in \<open>Wah_GC_Examples\<close>): the collector from \<open>wah_gc_alloc\<close> to
    \<open>wah_gc_verify_heap\<close>. A step ends, frees exactly the unreachable objects of the heap and keeps its lists, counters and
    the memory budget right, also when the worklist cannot grow; the domain is the set of contexts linked with the
    collecting one.
  \<^item> \<open>Wah_Memo\<close>, \<open>Wah_Cross\<close>: the hash table of equal recursion groups, equality and subtyping of types of two modules, the
    cache of a context. The table is a set (locales \<open>linear_probing\<close> and \<open>memo_table\<close>); the check is sound whatever the
    allocator answers and complete if no request fails; the cache stores no wrong positive answer, and no wrong negative
    one for groups nested within the limit below.
  \<^item> \<open>Wah_Pins\<close>: pinning, releasing, and the references that hosts pass. References stay valid until released and are
    stale afterwards; parameters accepted from a host are safe.
  \<^item> \<open>Wah_Link\<close>: linking modules and contexts, following exports that are imports themselves (the four resolvers are one
    walk, over what differs between them), and the checks and bindings of function imports. Chains are resolved to what they stand
    for and cycles rejected, bound functions have their declared types, and a failed link changes nothing.
  \<^item> This theory: what the host has pinned survives a collection.

  \<^bold>\<open>Correspondence.\<close> Definitions have the names of the C functions; parts of a function have names of their own, and fields of
  a struct a prefix where names collide. Structs are records, enumerations and opcodes datatypes or numbers as in the code,
  integers words of their width where they may wrap and natural numbers where a bound is enforced. A pointer with a
  count is a list, a pair of pointers \<open>(ptr, end)\<close> the list of the remaining bytes. Errors are values
  \<open>Inl e\<close>; \<open>None\<close> stands for a loop that does not end or an access outside of an object, and the theorems show that it does
  not occur. In the run-time theories objects and contexts are named by addresses in explicit stores, and a module
  by its address where the code compares pointers.

  \<^bold>\<open>Configuration.\<close> All features are compiled in (\<open>WAH_COMPILED_FEATURES\<close> is \<open>WAH_FEATURE_ALL\<close>), without the JIT; where code has
  branches for compilers, the portable one; addresses of 64 bits, little-endian. The allocator succeeds, except in
  \<open>Wah_Alloc\<close>, \<open>Wah_GC\<close>, \<open>Wah_Memo\<close>, \<open>Wah_Cross\<close>, \<open>Wah_Link\<close> and \<open>Wah_Pins\<close>, where its answers are arguments and theorems hold for all
  of them. \<open>qsort\<close> is a sort by the comparison given to it. A failed parse releases the module, so its fields are not
  carried along.

  \<^bold>\<open>Bounds.\<close> Walks along supertypes have the number of types as fuel, which is enough because supertypes have smaller indices.
  Probes of the memo have the size of the table, which is enough because it is never full. The loops of the collector
  are bounded by what they visit, and the theorems say that they return. Chains of exports have the limit of the code
  (\<open>WAH_REEXPORT_MAX_DEPTH\<close>). The recursion over groups has the
  limit of the code (\<open>WAH_MAX_TYPE_RECURSION_DEPTH\<close> levels), and completeness is stated for groups nested within it.

  \<^bold>\<open>Not modelled.\<close> The lowering to bytecode, the interpreter loop with SIMD, bulk operations and exceptions, and the JIT
  (\<open>src/wahjit.h\<close>): they work on raw bytecode, native vectors and floats, or machine code, and need semantics of their own. Instantiation
  apart from the function imports of the primary module, the lifecycle of an execution, limits and timers, the builder of modules from type strings
  and the accessors of the API: they are driven by the interpreter or only copy fields that are modelled as data.
  Fuzzers, benchmarks and model-checking harnesses (\<open>src/fuzz\<close>, \<open>src/bench\<close>, \<open>src/proofs\<close>) only call the library.
\<close>

section \<open>The host and the collector\<close>

text \<open>What a pinned reference stands for is a root of every collection of its domain.\<close>

lemma those_nth: "those xs = Some ys \<Longrightarrow> k < length xs \<Longrightarrow> xs ! k = Some (ys ! k) \<and> length ys = length xs"
proof (induction xs arbitrary: ys k)
  case (Cons x xs)
  then obtain y zs where "x = Some y" "those xs = Some zs" "ys = y # zs" by (auto split: option.splits)
  then show ?case using Cons.IH [of zs "k - 1"] Cons.prems(2) by (cases k; cases xs) auto
qed simp

lemma pins_among_roots:
  assumes "wah_gc_enumerate_roots w j = Some roots"
  shows "set (wah_gc_visit_pins (w_ctxs w j)) \<subseteq> set roots"
  using assms by (auto simp: wah_gc_enumerate_roots_def Let_def bind_eq_Some_conv)

lemma pins_among_domain_roots:
  assumes "domain_roots w i domain = Some roots" "j \<in> set domain"
  shows "set (wah_gc_visit_pins (w_ctxs w j)) \<subseteq> set roots"
proof -
  let ?f = "\<lambda>k. if k \<noteq> i \<and> \<not> ec_is_instantiated (w_ctxs w k) \<and> \<not> ec_may_share_refs (w_ctxs w k)
     then Some (wah_gc_visit_pins (w_ctxs w k)) else wah_gc_enumerate_roots w k"
  obtain rss where rss: "those (map ?f domain) = Some rss" "roots = concat rss" using assms(1) by (auto simp: domain_roots_def)
  obtain k where k: "k < length domain" "domain ! k = j" using assms(2) by (auto simp: in_set_conv_nth)
  then have "?f j = Some (rss ! k)" "k < length rss" using those_nth [OF rss(1), of k] by auto
  then have "set (wah_gc_visit_pins (w_ctxs w j)) \<subseteq> set (rss ! k)" using pins_among_roots by (auto split: if_splits)
  then show ?thesis using \<open>k < length rss\<close> rss(2) by (auto intro: nth_mem)
qed

lemma pinned_visited:
  assumes "pinned (ec_pins c) r = Some s"
  shows "value_ref (ps_value s) \<in> set (wah_gc_visit_pins c)"
proof -
  obtain i where "wah_pinned_slot (ec_pins c) r = Some i" "s = pt_slots (the (ec_pins c)) ! i" using assms by (auto simp: pinned_def)
  then obtain pt where "ec_pins c = Some pt" "i < length (pt_slots pt)" "s = pt_slots pt ! i" "value_ref (ps_value s) \<noteq> 0"
    by (auto elim!: pinned_slot_cases simp: slot_live_def)
  then show ?thesis by (auto simp: wah_gc_visit_pins_def intro: nth_mem)
qed

text \<open>C10: an object that the host has pinned, in any context of a domain, survives a collection of the domain with its contents,
  as do the objects reachable from it.\<close>

theorem pinned_objects_survive:
  assumes "ec_gc (w_ctxs w i) = Some h" "gc_phase (w_heaps w h) \<noteq> WAH_GC_PHASE_SWEEP"
    "wah_gc_collect_domain w i grants = Some (Inr (domain, cap, grants'))" "domain_ok w i domain L roots"
    and pin: "j \<in> set domain" "pinned (ec_pins (w_ctxs w j)) r = Some s" "ref_target (value_ref (ps_value s)) = Some x"
    and path: "(points_to (ctx_module w i) (w_objects w))\<^sup>*\<^sup>* x y" "y \<in> domain_objects w domain L"
  shows "\<exists>w'. wah_gc_step i grants w = Some w' \<and> same_contents_at (w_objects w) (w_objects w') y"
proof -
  have "value_ref (ps_value s) \<in> set roots"
    using assms(4) pins_among_domain_roots [OF _ pin(1)] pinned_visited [OF pin(2)] by (auto simp: domain_ok_def)
  then have "gc_reachable (ctx_module w i) (w_objects w) roots x" using pin(3) by (rule gc_reachable.root)
  with path(1) have "gc_reachable (ctx_module w i) (w_objects w) roots y"
    by (induction rule: rtranclp_induct) (auto intro: gc_reachable.step)
  then show ?thesis using gc_step_collects [OF assms(1-4)] path(2) by (auto simp: collected_def)
qed

theorem pinned_objects_survive_witness:
  "\<exists>w'. wah_gc_step 0 [] ex_world = Some w' \<and> same_contents_at ex_objects (w_objects w') 0x200"
proof -
  let ?s = "\<lparr> ps_value = 0x118, ps_module = None, ps_type = WAH_TYPE_ANY, ps_generation = 0, ps_next_free = 0 \<rparr> :: wah_pin_slot"
  have pins: "ec_pins ex_context = Some \<lparr> pt_slots = [?s], pt_free_head = 0 \<rparr>" by (simp add: ex_context_def)
  have "pinned (ec_pins ex_context) 2 = Some ?s"
    by (simp add: pins pinned_def wah_pinned_slot_def value_ref_def)
  moreover have "ref_target (value_ref (ps_value ?s)) = Some 0x100"
    by (simp add: ref_target_def wah_ref_is_i31_def wah_gc_header_def value_ref_def)
  moreover have "(points_to (pm_module ex_module) ex_objects)\<^sup>*\<^sup>* 0x100 0x200" by (rule r_into_rtranclp) (simp add: ex_points)
  ultimately show ?thesis
    using pinned_objects_survive [of ex_world 0 0 "[]", OF _ _ ex_domain ex_domain_ok, of 0 2 ?s "0x100" "0x200"]
    by (simp add: ex_domain_objects)
qed

end
